(* ===== verification/Prelude.thy ===== *)
theory Prelude
  imports Main "HOL-Library.Word"
begin

text \<open>
  Shared vocabulary of the development: the machine integers of the ESP8266 tool chain,
  the outcome of a C function that may restart the chip or run off a fixed-size buffer,
  sequencing of such functions, and generic lemmas on words, lists and byte splitting.

  The collection \<open>hilo\<close> gathers the facts that split and rejoin 16-bit quantities.
\<close>

unbundle bit_operations_syntax

named_theorems hilo \<open>splitting 16-bit words into bytes and joining them\<close>

section \<open>Machine integers\<close>

type_synonym u8 = "8 word"
type_synonym u16 = "16 word"
type_synonym u32 = "32 word"

text \<open>The two bytes a C expression \<open>(uint8_t)(x >> 8)\<close> and \<open>(uint8_t)(x & 0xFF)\<close> denote.\<close>

definition hi8 :: "u16 \<Rightarrow> u8" where
  "hi8 x = ucast (drop_bit 8 x)"

definition lo8 :: "u16 \<Rightarrow> u8" where
  "lo8 x = ucast (x AND 0xFF)"

definition join8 :: "u8 \<Rightarrow> u8 \<Rightarrow> u16" where
  "join8 h l = push_bit 8 (ucast h) OR ucast l"

lemma bit_hi8: "bit (hi8 x) n \<longleftrightarrow> n < 8 \<and> bit x (n + 8)"
  by (auto simp: hi8_def bit_ucast_iff bit_drop_bit_eq add.commute)

lemma bit_int_0xFF [simp]: "bit (0xFF :: int) n \<longleftrightarrow> n < 8"
  using bit_mask_iff [where 'a = int, of 8 n] by (simp add: mask_eq_exp_minus_1)

lemma bit_lo8: "bit (lo8 x) n \<longleftrightarrow> n < 8 \<and> bit x n"
  by (auto simp: lo8_def bit_ucast_iff bit_and_iff)

lemma bit_join8: "bit (join8 h l) n \<longleftrightarrow> (if n < 8 then bit l n else n < 16 \<and> bit h (n - 8))"
  by (auto simp: join8_def bit_or_iff bit_push_bit_iff bit_ucast_iff possible_bit_def
           dest: bit_imp_le_length)

lemma hi8_join8 [simp, hilo]: "hi8 (join8 h l) = h"
  by (rule bit_word_eqI) (auto simp: bit_hi8 bit_join8)

lemma lo8_join8 [simp, hilo]: "lo8 (join8 h l) = l"
  by (rule bit_word_eqI) (auto simp: bit_lo8 bit_join8)

lemma join8_hi8_lo8 [simp, hilo]: "join8 (hi8 x) (lo8 x) = x"
  by (rule bit_word_eqI) (auto simp: bit_hi8 bit_lo8 bit_join8)

lemma u16_eq_iff_bytes: "x = y \<longleftrightarrow> hi8 x = hi8 y \<and> lo8 x = lo8 y"
  by (metis join8_hi8_lo8)

lemma unat_u32_less: "unat (w :: u32) < 2 ^ 32"
  using unsigned_less [of w] by simp

lemma unat_u8_less [simp]: "unat (x :: u8) < 256"
  using unsigned_less [where 'a = nat, of x] by simp

lemma word_xor_left_cancel [simp]: "(a :: 'a::len word) XOR b = a XOR c \<longleftrightarrow> b = c"
proof
  assume "a XOR b = a XOR c"
  then have "a XOR (a XOR b) = a XOR (a XOR c)" by simp
  then show "b = c" by (simp add: xor.assoc [symmetric])
qed simp

lemma word_xor_right_cancel [simp]: "(b :: 'a::len word) XOR a = c XOR a \<longleftrightarrow> b = c"
  by (metis word_xor_left_cancel xor.commute)

lemma word_xor_eq_0_iff: "(a :: 'a::len word) XOR b = 0 \<longleftrightarrow> a = b"
  by (metis word_xor_left_cancel xor_self_eq)

lemma ucast_u8_u16_inj [simp]: "(ucast (a :: u8) :: u16) = ucast b \<longleftrightarrow> a = b"
proof
  assume "(ucast a :: u16) = ucast b"
  then have "lo8 (ucast a) = lo8 (ucast b)" by simp
  moreover have "lo8 (ucast x) = x" for x :: u8
    by (rule bit_word_eqI) (auto simp: bit_lo8 bit_ucast_iff)
  ultimately show "a = b" by simp
qed simp

text \<open>Comparing one byte of a buffer with a part of a 16-bit value, as the C tests do.\<close>

lemma low_part: "x AND 0xFF = ucast (lo8 x)"
  by (rule bit_word_eqI) (auto simp: bit_lo8 bit_and_iff bit_ucast_iff)

lemma high_part: "drop_bit 8 x = ucast (hi8 x)"
  by (rule bit_word_eqI)
    (auto simp: bit_hi8 bit_drop_bit_eq bit_ucast_iff add.commute dest: bit_imp_le_length)

lemma byte_eq_part [hilo]:
  "x AND 0xFF = ucast b \<longleftrightarrow> b = lo8 x" "ucast b = x AND 0xFF \<longleftrightarrow> b = lo8 x"
  "drop_bit 8 x = ucast b \<longleftrightarrow> b = hi8 x" "ucast b = drop_bit 8 x \<longleftrightarrow> b = hi8 x"
  by (auto simp: low_part high_part)

lemma hi8_ucast [simp, hilo]: "hi8 (ucast (b :: u8)) = 0"
  by (rule bit_word_eqI) (auto simp: bit_hi8 bit_ucast_iff dest: bit_imp_le_length)

lemma lo8_ucast [simp, hilo]: "lo8 (ucast (b :: u8)) = b"
  by (rule bit_word_eqI) (auto simp: bit_lo8 bit_ucast_iff)

section \<open>Outcomes of C functions\<close>

text \<open>
  A call ends normally, or never returns because \<open>esp_restart\<close> was reached, or has
  written past the end of the named fixed-size buffer, after which nothing is known.
\<close>

datatype 's outcome =
    Done 's
  | Restarted 's
  | Overflow string

fun and_then :: "'s outcome \<Rightarrow> ('s \<Rightarrow> 's outcome) \<Rightarrow> 's outcome" where
  "and_then (Done s) f = f s"
| "and_then (Restarted s) f = Restarted s"
| "and_then (Overflow b) f = Overflow b"

fun run_steps :: "('s \<Rightarrow> 's outcome) list \<Rightarrow> 's \<Rightarrow> 's outcome" where
  "run_steps [] s = Done s"
| "run_steps (f # fs) s = and_then (f s) (run_steps fs)"

text \<open>The state at the moment a call ended or restarted the chip, if it is known.\<close>

fun final_state :: "'s outcome \<Rightarrow> 's option" where
  "final_state (Done s) = Some s"
| "final_state (Restarted s) = Some s"
| "final_state (Overflow b) = None"

lemma and_then_assoc: "and_then (and_then r f) g = and_then r (\<lambda>s. and_then (f s) g)"
  by (cases r) auto

lemma and_then_Done_right [simp]: "and_then r Done = r"
  by (cases r) auto

lemma and_then_cong: "r = r' \<Longrightarrow> (\<And>s. r' = Done s \<Longrightarrow> f s = g s) \<Longrightarrow> and_then r f = and_then r' g"
  by (cases r') auto

lemma run_steps_Nil [simp]: "run_steps [] = Done"
  by (rule ext) simp

lemma run_steps_single [simp]: "run_steps [f] = f"
  by (rule ext) simp

lemma run_steps_append: "run_steps (fs @ gs) s = and_then (run_steps fs s) (run_steps gs)"
proof (induction fs arbitrary: s)
  case Nil
  then show ?case by simp
next
  case (Cons f fs)
  then show ?case by (simp add: and_then_assoc cong: and_then_cong)
qed

text \<open>
  A predicate that holds of the state wherever a call stops; nothing is said about a call
  that overran a buffer. It is kept by a sequence when every statement keeps it.
\<close>

fun holds :: "('s \<Rightarrow> bool) \<Rightarrow> 's outcome \<Rightarrow> bool" where
  "holds P (Done s) = P s"
| "holds P (Restarted s) = P s"
| "holds P (Overflow b) = True"

lemma holds_final_state: "holds P r \<Longrightarrow> final_state r = Some t \<Longrightarrow> P t"
  by (cases r) auto

lemma holds_and_then: "holds P r \<Longrightarrow> (\<And>s. P s \<Longrightarrow> holds P (f s)) \<Longrightarrow> holds P (and_then r f)"
  by (cases r) auto

lemma holds_run_steps: "P s \<Longrightarrow> (\<And>f s. f \<in> set fs \<Longrightarrow> P s \<Longrightarrow> holds P (f s)) \<Longrightarrow> holds P (run_steps fs s)"
proof (induction fs arbitrary: s)
  case (Cons f fs)
  have "holds P (f s)" using Cons.prems by simp
  moreover have "P u \<Longrightarrow> holds P (run_steps fs u)" for u using Cons by simp
  ultimately show ?case by (simp add: holds_and_then)
qed simp

section \<open>Lists\<close>

text \<open>
  The loop \<open>for (; i < i0 + n; i++) res[i] = f(i)\<close> on an array of fixed size: writing past its
  end is \<open>Overflow\<close>.
\<close>

fun store_loop :: "string \<Rightarrow> (nat \<Rightarrow> 'a) \<Rightarrow> nat \<Rightarrow> nat \<Rightarrow> 'a list \<Rightarrow> 'a list outcome" where
  "store_loop nm f i 0 res = Done res"
| "store_loop nm f i (Suc n) res =
     (if i < length res then store_loop nm f (Suc i) n (res[i := f i]) else Overflow nm)"

lemma store_loop_Done:
  "i + n \<le> length res \<Longrightarrow>
   store_loop nm f i n res = Done (take i res @ map f [i..<i + n] @ drop (i + n) res)"
proof (induction n arbitrary: i res)
  case 0
  then show ?case by simp
next
  case (Suc n)
  then have "take (Suc i) (res[i := f i]) = take i res @ [f i]"
    by (simp add: take_Suc_conv_app_nth)
  moreover have "map f [i..<i + Suc n] = f i # map f [Suc i..<Suc i + n]"
    by (subst upt_conv_Cons) simp_all
  ultimately show ?case
    using Suc by simp
qed

lemma store_loop_Overflow:
  "i \<le> length res \<Longrightarrow> length res < i + n \<Longrightarrow> store_loop nm f i n res = Overflow nm"
  by (induction n arbitrary: i res) auto

lemma map_upt_nth_eq: "length xs = n \<Longrightarrow> map (\<lambda>i. xs ! i) [0..<n] = xs"
  by (auto intro: nth_equalityI)

lemma take_list_update_same_length:
  "n < length xs \<Longrightarrow> take (Suc n) (xs[n := x]) = take n xs @ [x]"
  by (simp add: take_Suc_conv_app_nth)

section \<open>Decimal numbers\<close>

text \<open>What \<open>printf\<close> writes for \<open>%d\<close> and a non-negative argument.\<close>

fun show_nat :: "nat \<Rightarrow> string" where
  "show_nat n = (if n < 10 then [char_of (48 + n)] else show_nat (n div 10) @ [char_of (48 + n mod 10)])"

declare show_nat.simps [simp del]

fun digits_value :: "nat \<Rightarrow> string \<Rightarrow> nat" where
  "digits_value acc [] = acc"
| "digits_value acc (c # cs) = digits_value (10 * acc + (of_char c - 48)) cs"

lemma digits_value_append: "digits_value acc (xs @ ys) = digits_value (digits_value acc xs) ys"
  by (induction xs arbitrary: acc) auto

lemma digits_value_show_nat: "digits_value 0 (show_nat n) = n"
proof (induction n rule: show_nat.induct)
  case (1 n)
  show ?case
  proof (cases "n < 10")
    case True
    then show ?thesis by (simp add: show_nat.simps [of n] of_char_of)
  next
    case False
    then have "digits_value 0 (show_nat (n div 10)) = n div 10" using "1" by simp
    then show ?thesis
      using False by (simp add: show_nat.simps [of n] digits_value_append of_char_of)
  qed
qed

lemma show_nat_inj [simp]: "show_nat m = show_nat n \<longleftrightarrow> m = n"
  by (metis digits_value_show_nat)

end
