(* ===== verification/Nvs.thy ===== *)
theory Nvs
  imports Prelude
begin

text \<open>
  The non-volatile storage as the firmware sees it through \<open>nvs_api.cpp\<close>: namespaces of
  typed key-value pairs, handles that may fail to open, read-only handles that refuse to
  write, and getters that leave the output variable untouched when the key is missing or
  has another type. The flash log underneath is taken to accept every write (no full
  partition, no wear). What clients rely on, reading back what was stored last, is the
  locale \<open>kv_store\<close>, interpreted here on the operations of an open handle.
\<close>

section \<open>Operations\<close>

datatype nvs_value = NvsU8 u8 | NvsU16 u16 | NvsU32 u32 | NvsStr string

datatype nvs_open_mode = NVS_READONLY | NVS_READWRITE

record nvs_handle =
  h_ns :: string
  h_read_only :: bool

type_synonym nvs = "string \<rightharpoonup> (string \<rightharpoonup> nvs_value)"

text \<open>A failed \<open>nvs_open\<close> leaves the handle variable invalid: \<open>None\<close>.\<close>

definition nvs_open :: "string \<Rightarrow> nvs_open_mode \<Rightarrow> nvs \<Rightarrow> nvs \<times> nvs_handle option" where
  "nvs_open ns mode s =
     (case s ns of
        Some _ \<Rightarrow> (s, Some \<lparr>h_ns = ns, h_read_only = (mode = NVS_READONLY)\<rparr>)
      | None \<Rightarrow>
          (if mode = NVS_READWRITE
           then (s(ns \<mapsto> Map.empty), Some \<lparr>h_ns = ns, h_read_only = False\<rparr>)
           else (s, None)))"

definition nvs_get :: "nvs_handle option \<Rightarrow> string \<Rightarrow> nvs \<Rightarrow> nvs_value option" where
  "nvs_get h key s =
     (case h of None \<Rightarrow> None
      | Some e \<Rightarrow> (case s (h_ns e) of None \<Rightarrow> None | Some m \<Rightarrow> m key))"

definition nvs_set :: "nvs_handle option \<Rightarrow> string \<Rightarrow> nvs_value \<Rightarrow> nvs \<Rightarrow> nvs" where
  "nvs_set h key v s =
     (case h of None \<Rightarrow> s
      | Some e \<Rightarrow>
          (if h_read_only e then s
           else (case s (h_ns e) of None \<Rightarrow> s | Some m \<Rightarrow> s(h_ns e \<mapsto> m(key \<mapsto> v)))))"

text \<open>The getters with their output parameter: the last argument is its old content.\<close>

definition nvs_get_u8 :: "nvs_handle option \<Rightarrow> string \<Rightarrow> nvs \<Rightarrow> u8 \<Rightarrow> u8" where
  "nvs_get_u8 h key s out = (case nvs_get h key s of Some (NvsU8 v) \<Rightarrow> v | _ \<Rightarrow> out)"

definition nvs_get_u16 :: "nvs_handle option \<Rightarrow> string \<Rightarrow> nvs \<Rightarrow> u16 \<Rightarrow> u16" where
  "nvs_get_u16 h key s out = (case nvs_get h key s of Some (NvsU16 v) \<Rightarrow> v | _ \<Rightarrow> out)"

definition nvs_get_u32 :: "nvs_handle option \<Rightarrow> string \<Rightarrow> nvs \<Rightarrow> u32 \<Rightarrow> u32" where
  "nvs_get_u32 h key s out = (case nvs_get h key s of Some (NvsU32 v) \<Rightarrow> v | _ \<Rightarrow> out)"

text \<open>
  The pair of calls that first asks for the length of a string and then copies it: the
  second call finds the length it needs, so the whole string is copied.
\<close>

definition nvs_get_str :: "nvs_handle option \<Rightarrow> string \<Rightarrow> nvs \<Rightarrow> string \<Rightarrow> string" where
  "nvs_get_str h key s out = (case nvs_get h key s of Some (NvsStr v) \<Rightarrow> v | _ \<Rightarrow> out)"

section \<open>The contract clients rely on\<close>

locale kv_store =
  fixes get :: "'k \<Rightarrow> 's \<Rightarrow> 'v option"
    and put :: "'k \<Rightarrow> 'v \<Rightarrow> 's \<Rightarrow> 's"
    and ready :: "'s \<Rightarrow> bool"
  assumes get_put: "ready s \<Longrightarrow> get k (put k' v s) = (if k = k' then Some v else get k s)"
    and ready_put: "ready s \<Longrightarrow> ready (put k v s)"
begin

definition puts :: "('k \<times> 'v) list \<Rightarrow> 's \<Rightarrow> 's" where
  "puts kvs s = fold (\<lambda>(k, v). put k v) kvs s"

lemma puts_Cons: "puts ((k, v) # kvs) s = puts kvs (put k v s)"
  by (simp add: puts_def)

lemma ready_puts: "ready s \<Longrightarrow> ready (puts kvs s)"
  by (induction kvs arbitrary: s) (auto simp: puts_def ready_put)

lemma get_puts_other: "ready s \<Longrightarrow> k \<notin> fst ` set kvs \<Longrightarrow> get k (puts kvs s) = get k s"
  by (induction kvs arbitrary: s) (auto simp: puts_def ready_put get_put)

lemma get_puts:
  "ready s \<Longrightarrow> distinct (map fst kvs) \<Longrightarrow> (k, v) \<in> set kvs \<Longrightarrow> get k (puts kvs s) = Some v"
proof (induction kvs arbitrary: s)
  case Nil
  then show ?case by simp
next
  case (Cons kv kvs)
  obtain k' v' where kv: "kv = (k', v')" by (cases kv)
  show ?case
  proof (cases "(k, v) \<in> set kvs")
    case True
    then show ?thesis using Cons kv by (simp add: puts_Cons ready_put)
  next
    case False
    then have "k = k'" "v = v'" using Cons.prems kv by auto
    then show ?thesis
      using Cons.prems kv by (simp add: puts_Cons get_puts_other ready_put get_put)
  qed
qed

end

interpretation rw: kv_store
  "\<lambda>k s. nvs_get (Some \<lparr>h_ns = ns, h_read_only = False\<rparr>) k s"
  "\<lambda>k v s. nvs_set (Some \<lparr>h_ns = ns, h_read_only = False\<rparr>) k v s"
  "\<lambda>s. s ns \<noteq> None" for ns
  by unfold_locales (auto simp: nvs_get_def nvs_set_def split: option.splits)

lemma nvs_open_rw:
  "nvs_open ns NVS_READWRITE s =
     (case s ns of Some _ \<Rightarrow> s | None \<Rightarrow> s(ns \<mapsto> Map.empty), Some \<lparr>h_ns = ns, h_read_only = False\<rparr>)"
  by (simp add: nvs_open_def split: option.splits)

lemma nvs_open_rw_ready: "fst (nvs_open ns NVS_READWRITE s) ns \<noteq> None"
  by (simp add: nvs_open_rw split: option.splits)

lemma nvs_set_read_only: "nvs_set (Some \<lparr>h_ns = ns, h_read_only = True\<rparr>) k v s = s"
  by (simp add: nvs_set_def)

text \<open>Reading does not depend on how the handle was opened.\<close>

lemma nvs_get_handle_mode:
  "nvs_get (Some \<lparr>h_ns = ns, h_read_only = b\<rparr>) k s = nvs_get (Some \<lparr>h_ns = ns, h_read_only = c\<rparr>) k s"
  by (simp add: nvs_get_def)

end
