(* ===== verification/Alarm.thy ===== *)
theory Alarm
  imports Nvs
begin

text \<open>
  The alarm table of \<open>app/components/common/csro_datetime.c\<close>: twenty slots of which a prefix
  is in use, the commands that add, modify, delete and clear alarms, and their storage in
  the NVS namespace \<open>alarms\<close>, one packed 32-bit word per alarm. The table refines a plain
  list of entries, and the stored image always decodes to that list as long as the fields
  fit their bit ranges.
\<close>

section \<open>The program\<close>

definition ALARM_NUMBER :: nat where
  "ALARM_NUMBER = 20"

record alarm_struct =
  valid :: bool
  weekday :: u8
  minutes :: u16
  action :: u16

record alarm_state =
  flash :: nvs
  alarms :: "alarm_struct list"

definition alarm_key :: "nat \<Rightarrow> string" where
  "alarm_key i = ''alarm'' @ show_nat i"

definition decode_alarm :: "u32 \<Rightarrow> alarm_struct \<Rightarrow> alarm_struct" where
  "decode_alarm v a =
     a\<lparr>valid := True,
       weekday := ucast (drop_bit 25 (v AND 0xFE000000)),
       minutes := ucast (drop_bit 14 (v AND 0x01FFC000)),
       action := ucast (v AND 0x00003FFF)\<rparr>"

fun load_loop :: "nvs_handle option \<Rightarrow> nvs \<Rightarrow> u8 \<Rightarrow> nat \<Rightarrow> alarm_struct list \<Rightarrow> alarm_struct list" where
  "load_loop h s alarm_count i [] = []"
| "load_loop h s alarm_count i (a # as) =
     (if i < unat alarm_count
      then decode_alarm (nvs_get_u32 h (alarm_key i) s 0) a
      else a\<lparr>valid := False\<rparr>) # load_loop h s alarm_count (Suc i) as"

definition load_alarm_from_nvs :: "'a alarm_state_scheme \<Rightarrow> 'a alarm_state_scheme" where
  "load_alarm_from_nvs s =
     (let (n, h) = nvs_open ''alarms'' NVS_READONLY (flash s);
          alarm_count = nvs_get_u8 h ''alarm_count'' n 0
      in s\<lparr>flash := n, alarms := load_loop h n alarm_count 0 (alarms s)\<rparr>)"

definition alarm_value :: "alarm_struct \<Rightarrow> u32" where
  "alarm_value a = push_bit 25 (ucast (weekday a)) + push_bit 14 (ucast (minutes a)) + ucast (action a)"

fun save_loop ::
  "nvs_handle option \<Rightarrow> nat \<Rightarrow> alarm_struct list \<Rightarrow> u8 \<Rightarrow> nvs \<Rightarrow> u8 \<times> nvs" where
  "save_loop h i [] alarm_count s = (alarm_count, s)"
| "save_loop h i (a # as) alarm_count s =
     (if valid a
      then save_loop h (Suc i) as (alarm_count + 1) (nvs_set h (alarm_key i) (NvsU32 (alarm_value a)) s)
      else (alarm_count, s))"

definition save_alarm_to_nvs :: "'a alarm_state_scheme \<Rightarrow> 'a alarm_state_scheme" where
  "save_alarm_to_nvs s =
     (let (n, h) = nvs_open ''alarms'' NVS_READWRITE (flash s);
          (alarm_count, n') = save_loop h 0 (alarms s) 0 n
      in s\<lparr>flash := nvs_set h ''alarm_count'' (NvsU8 alarm_count) n'\<rparr>)"

text \<open>The search loops: the first slot that satisfies a condition.\<close>

fun find_slot :: "('b \<Rightarrow> bool) \<Rightarrow> nat \<Rightarrow> 'b list \<Rightarrow> nat option" where
  "find_slot P i [] = None"
| "find_slot P i (a # as) = (if P a then Some i else find_slot P (Suc i) as)"

definition csro_alarm_add :: "u8 \<Rightarrow> u16 \<Rightarrow> u16 \<Rightarrow> 'a alarm_state_scheme \<Rightarrow> 'a alarm_state_scheme" where
  "csro_alarm_add wd mins act s =
     (case find_slot (\<lambda>a. valid a \<and> weekday a = wd \<and> minutes a = mins) 0 (alarms s) of
        Some i \<Rightarrow> save_alarm_to_nvs (s\<lparr>alarms := (alarms s)[i := (alarms s ! i)\<lparr>action := act\<rparr>]\<rparr>)
      | None \<Rightarrow>
          (case find_slot (\<lambda>a. \<not> valid a) 0 (alarms s) of
             Some i \<Rightarrow> save_alarm_to_nvs
               (s\<lparr>alarms := (alarms s)[i := (alarms s ! i)
                    \<lparr>valid := True, weekday := wd, minutes := mins, action := act\<rparr>]\<rparr>)
           | None \<Rightarrow> s))"

definition csro_alarm_modify ::
  "u8 \<Rightarrow> u8 \<Rightarrow> u16 \<Rightarrow> u16 \<Rightarrow> 'a alarm_state_scheme \<Rightarrow> 'a alarm_state_scheme" where
  "csro_alarm_modify index wd mins act s =
     (if unat index > ALARM_NUMBER - 1 then s
      else if valid (alarms s ! unat index)
      then save_alarm_to_nvs
             (s\<lparr>alarms := (alarms s)[unat index := (alarms s ! unat index)
                  \<lparr>weekday := wd, minutes := mins, action := act\<rparr>]\<rparr>)
      else s)"

fun delete_loop :: "nat \<Rightarrow> nat \<Rightarrow> nat \<Rightarrow> alarm_struct list \<Rightarrow> alarm_struct list" where
  "delete_loop index i 0 al = al"
| "delete_loop index i (Suc n) al =
     delete_loop index (Suc i) n
       (if i \<ge> index \<and> valid (al ! (i + 1))
        then al[i := (al ! i)\<lparr>valid := True, weekday := weekday (al ! (i + 1)),
                              minutes := minutes (al ! (i + 1)), action := action (al ! (i + 1))\<rparr>,
                i + 1 := (al ! (i + 1))\<lparr>valid := False\<rparr>]
        else al)"

definition csro_alarm_delete :: "u8 \<Rightarrow> 'a alarm_state_scheme \<Rightarrow> 'a alarm_state_scheme" where
  "csro_alarm_delete index s =
     (if unat index > ALARM_NUMBER - 1 then s
      else if valid (alarms s ! unat index)
      then save_alarm_to_nvs
             (s\<lparr>alarms := delete_loop (unat index) 0 (ALARM_NUMBER - 1)
                  ((alarms s)[unat index := (alarms s ! unat index)\<lparr>valid := False\<rparr>])\<rparr>)
      else s)"

definition csro_alarm_clear :: "'a alarm_state_scheme \<Rightarrow> 'a alarm_state_scheme" where
  "csro_alarm_clear s = save_alarm_to_nvs (s\<lparr>alarms := map (\<lambda>a. a\<lparr>valid := False\<rparr>) (alarms s)\<rparr>)"

section \<open>The packed word\<close>

type_synonym entry = "u8 \<times> u16 \<times> u16"

definition entry_of :: "alarm_struct \<Rightarrow> entry" where
  "entry_of a = (weekday a, minutes a, action a)"

fun fits :: "entry \<Rightarrow> bool" where
  "fits (w, m, a) \<longleftrightarrow> unat w < 128 \<and> unat m < 2048 \<and> unat a < 16384"

lemma and_high_mask: "drop_bit 25 (v AND 0xFE000000 :: u32) = drop_bit 25 v"
proof -
  have eq: "(0xFE000000 :: u32) = NOT (mask 25)" by (simp add: mask_eq_exp_minus_1)
  show ?thesis unfolding eq
  proof (rule bit_word_eqI)
    fix n
    have "bit v (25 + n) \<Longrightarrow> n < 7"
      using bit_imp_le_length [of v "25 + n"] by simp
    then show "bit (drop_bit 25 (v AND NOT (mask 25))) n = bit (drop_bit 25 v) n"
      by (auto simp: bit_drop_bit_eq bit_and_iff bit_not_iff bit_mask_iff possible_bit_def)
  qed
qed

lemma and_mid_mask: "drop_bit 14 (v AND 0x01FFC000 :: u32) = take_bit 11 (drop_bit 14 v)"
proof -
  have eq: "(0x01FFC000 :: u32) = push_bit 14 (mask 11)" by (simp add: mask_eq_exp_minus_1)
  show ?thesis unfolding eq
    by (auto intro!: bit_word_eqI simp: bit_drop_bit_eq bit_and_iff bit_push_bit_iff bit_mask_iff
        bit_take_bit_iff possible_bit_def dest: bit_imp_le_length)
qed

lemma and_low_mask: "(v AND 0x00003FFF :: u32) = take_bit 14 v"
proof -
  have "(0x00003FFF :: u32) = mask 14" by (simp add: mask_eq_exp_minus_1)
  then show ?thesis by (simp add: take_bit_eq_mask)
qed

lemma alarm_word_value:
  "unat (alarm_value a) =
     (unat (weekday a) * 2 ^ 25 + unat (minutes a) * 2 ^ 14 + unat (action a)) mod 2 ^ 32"
proof -
  have small: "unat (minutes a) < 65536" "unat (action a) < 65536"
    using unsigned_less [where 'a = nat, of "minutes a"] unsigned_less [where 'a = nat, of "action a"]
    by simp_all
  then have "unat (ucast (weekday a) :: u32) = unat (weekday a)"
    "unat (ucast (minutes a) :: u32) = unat (minutes a)"
    "unat (ucast (action a) :: u32) = unat (action a)"
    by (simp_all add: unsigned_ucast_eq take_bit_nat_eq_self less_trans [OF unat_u8_less])
  then show ?thesis
    by (simp add: alarm_value_def push_bit_eq_mult unat_word_ariths mod_simps)
qed

text \<open>The three fields of a sum of shifted values, carries included.\<close>

lemma carried_fields:
  defines "x w m a \<equiv> (w * 2 ^ 25 + m * 2 ^ 14 + a) mod 2 ^ 32 :: nat"
  shows "x w m a mod 16384 = a mod 16384"
    and "x w m a div 16384 mod 2048 = (m + a div 16384) mod 2048"
    and "x w m a div 33554432 = (w + (m + a div 16384) div 2048) mod 128"
proof -
  have x: "x w m a = ((w * 2048 + m) * 16384 + a) mod (16384 * 262144)"
    by (simp add: x_def algebra_simps)
  have "((w * 2048 + m) * 16384 + a) div 16384 = w * 2048 + (m + a div 16384)"
    by (subst div_mult_self3) simp_all
  then have y: "x w m a div 16384 = (w * 2048 + (m + a div 16384)) mod (2048 * 128)"
    unfolding x by (simp add: mod_mult2_eq [of _ 16384 262144, simplified])
  show "x w m a mod 16384 = a mod 16384"
    unfolding x by (simp only: mod_mod_cancel dvd_triv_left) (subst mod_mult_self3, rule refl)
  show "x w m a div 16384 mod 2048 = (m + a div 16384) mod 2048"
    unfolding y by (simp add: mod_mod_cancel)
  have "x w m a div 33554432 = x w m a div 16384 div 2048"
    by (simp only: div_mult2_eq [symmetric]) simp
  also have "\<dots> = (w + (m + a div 16384) div 2048) mod 128"
    unfolding y by (subst mod_mult2_eq) (simp add: div_mult_self3)
  finally show "x w m a div 33554432 = (w + (m + a div 16384) div 2048) mod 128" .
qed

lemma unat_decode:
  "unat (weekday (decode_alarm v b)) = unat v div 33554432"
  "unat (minutes (decode_alarm v b)) = unat v div 16384 mod 2048"
  "unat (action (decode_alarm v b)) = unat v mod 16384"
proof -
  have v: "unat v < 4294967296" using unsigned_less [where 'a = nat, of v] by simp
  then have "unat v div 33554432 < 256" by (simp add: less_mult_imp_div_less)
  then show "unat (weekday (decode_alarm v b)) = unat v div 33554432"
    unfolding decode_alarm_def and_high_mask
    by (simp add: unsigned_ucast_eq unsigned_drop_bit_eq drop_bit_eq_div take_bit_eq_mod unat_div)
  have "x mod 2048 mod 65536 = x mod 2048" "x mod 16384 mod 65536 = x mod 16384" for x :: nat
    by (rule mod_less, rule less_trans [OF mod_less_divisor], simp_all)+
  then show "unat (minutes (decode_alarm v b)) = unat v div 16384 mod 2048"
    "unat (action (decode_alarm v b)) = unat v mod 16384"
    unfolding decode_alarm_def and_mid_mask and_low_mask
    by (simp_all add: unsigned_ucast_eq unsigned_drop_bit_eq unsigned_take_bit_eq drop_bit_eq_div
        take_bit_eq_mod unat_div unat_mod)
qed

lemma decode_alarm_value:
  assumes "fits (entry_of a)"
  shows "decode_alarm (alarm_value a) b =
    b\<lparr>valid := True, weekday := weekday a, minutes := minutes a, action := action a\<rparr>"
proof -
  let ?d = "decode_alarm (alarm_value a) b"
  have "unat (weekday a) < 128" "unat (minutes a) < 2048" "unat (action a) < 16384"
    using assms by (auto simp: entry_of_def)
  then have "weekday ?d = weekday a" "minutes ?d = minutes a" "action ?d = action a"
    unfolding word_unat_eq_iff unat_decode alarm_word_value carried_fields by simp_all
  then show ?thesis
    by (simp add: decode_alarm_def)
qed

section \<open>The table as a list of entries\<close>

definition entries :: "alarm_struct list \<Rightarrow> entry list" where
  "entries al = map entry_of (takeWhile valid al)"

definition alarms_ok :: "alarm_struct list \<Rightarrow> bool" where
  "alarms_ok al \<longleftrightarrow> length al = ALARM_NUMBER \<and> (\<forall>a \<in> set (dropWhile valid al). \<not> valid a)"

lemma takeWhile_none: "\<forall>a \<in> set fs. \<not> P a \<Longrightarrow> takeWhile P fs = [] \<and> dropWhile P fs = fs"
  by (cases fs) auto

lemma takeWhile_valid_split:
  assumes "\<forall>a \<in> set es. valid a" "\<forall>a \<in> set fs. \<not> valid a"
  shows "takeWhile valid (es @ fs) = es" "dropWhile valid (es @ fs) = fs"
proof -
  note fs = takeWhile_none [OF assms(2)]
  have "takeWhile valid (es @ fs) = es @ takeWhile valid fs"
    using assms(1) by (intro takeWhile_append2) auto
  with fs show "takeWhile valid (es @ fs) = es" by (metis append_Nil2)
  have "dropWhile valid (es @ fs) = dropWhile valid fs"
    using assms(1) by (intro dropWhile_append2) auto
  with fs show "dropWhile valid (es @ fs) = fs" by metis
qed

lemma entries_split:
  "\<forall>a \<in> set es. valid a \<Longrightarrow> \<forall>a \<in> set fs. \<not> valid a \<Longrightarrow> entries (es @ fs) = map entry_of es"
  by (simp only: entries_def takeWhile_valid_split)

lemma alarms_okI:
  "\<forall>a \<in> set es. valid a \<Longrightarrow> \<forall>a \<in> set fs. \<not> valid a \<Longrightarrow> length es + length fs = ALARM_NUMBER \<Longrightarrow>
   alarms_ok (es @ fs)"
  by (simp add: alarms_ok_def takeWhile_valid_split)

lemma alarms_okE:
  assumes "alarms_ok al"
  obtains es fs where "al = es @ fs" "\<forall>a \<in> set es. valid a" "\<forall>a \<in> set fs. \<not> valid a"
    "length es + length fs = ALARM_NUMBER" "entries al = map entry_of es"
proof
  show "al = takeWhile valid al @ dropWhile valid al" by simp
  show "\<forall>a \<in> set (takeWhile valid al). valid a" by (auto dest: set_takeWhileD)
  show "\<forall>a \<in> set (dropWhile valid al). \<not> valid a" using assms by (simp add: alarms_ok_def)
  show "length (takeWhile valid al) + length (dropWhile valid al) = ALARM_NUMBER"
    using assms by (metis alarms_ok_def length_append takeWhile_dropWhile_id)
  show "entries al = map entry_of (takeWhile valid al)" by (simp add: entries_def)
qed

lemma length_entries: "alarms_ok al \<Longrightarrow> length (entries al) \<le> ALARM_NUMBER"
  by (elim alarms_okE) simp

section \<open>The stored image\<close>

definition stored :: "nvs \<Rightarrow> entry list" where
  "stored n =
     (let h = Some \<lparr>h_ns = ''alarms'', h_read_only = False\<rparr>
      in map (\<lambda>i. entry_of (decode_alarm (nvs_get_u32 h (alarm_key i) n 0)
                               \<lparr>valid = True, weekday = 0, minutes = 0, action = 0\<rparr>))
           [0..<min (unat (nvs_get_u8 h ''alarm_count'' n 0)) ALARM_NUMBER])"

lemma alarm_key_inj [simp]: "alarm_key i = alarm_key j \<longleftrightarrow> i = j"
  by (simp add: alarm_key_def)

lemma alarm_key_not_count [simp]: "alarm_key i \<noteq> ''alarm_count''" "''alarm_count'' \<noteq> alarm_key i"
proof -
  have "show_nat i \<noteq> ''_count''"
  proof
    assume "show_nat i = ''_count''"
    then have "last (show_nat i) = CHR ''t''" by simp
    moreover have "of_char (last (show_nat i)) < (58 :: nat)"
      by (subst show_nat.simps) (simp add: of_char_of)
    ultimately show False by simp
  qed
  then show "alarm_key i \<noteq> ''alarm_count''" "''alarm_count'' \<noteq> alarm_key i"
    by (auto simp: alarm_key_def)
qed

lemma load_loop_eq:
  "load_loop h n c i al =
     map (\<lambda>(j, a). if j < unat c then decode_alarm (nvs_get_u32 h (alarm_key j) n 0) a
                   else a\<lparr>valid := False\<rparr>) (enumerate i al)"
  by (induction al arbitrary: i) simp_all

lemma valid_decode [simp]: "valid (decode_alarm v a)"
  by (simp add: decode_alarm_def)

lemma entry_decode: "entry_of (decode_alarm v a) = entry_of (decode_alarm v b)"
  by (simp add: decode_alarm_def entry_of_def)

lemma load_alarm_from_nvs_entries:
  assumes "length (alarms s) = ALARM_NUMBER"
  shows "entries (alarms (load_alarm_from_nvs s)) = stored (flash s)"
    and "alarms_ok (alarms (load_alarm_from_nvs s))"
    and "flash (load_alarm_from_nvs s) = flash s"
proof -
  let ?h = "Some \<lparr>h_ns = ''alarms'', h_read_only = False\<rparr>"
  define c where "c = unat (nvs_get_u8 ?h ''alarm_count'' (flash s) 0)"
  define f where "f = (\<lambda>j a. if j < c then decode_alarm (nvs_get_u32 ?h (alarm_key j) (flash s) 0) a
                   else a\<lparr>valid := False\<rparr>)"
  have load: "alarms (load_alarm_from_nvs s) = map (\<lambda>(j, a). f j a) (enumerate 0 (alarms s))"
  proof (cases "flash s ''alarms''")
    case None
    then have "c = 0" by (simp add: c_def nvs_get_u8_def nvs_get_def)
    with None show ?thesis
      by (simp add: load_alarm_from_nvs_def nvs_open_def load_loop_eq nvs_get_u8_def nvs_get_def f_def)
  next
    case (Some m)
    then show ?thesis
      by (simp add: load_alarm_from_nvs_def nvs_open_def load_loop_eq f_def c_def nvs_get_u8_def
          nvs_get_u32_def nvs_get_def split: prod.split)
  qed
  show "flash (load_alarm_from_nvs s) = flash s"
    by (simp add: load_alarm_from_nvs_def nvs_open_def split: option.splits)
  define al where "al = map (\<lambda>(j, a). f j a) (enumerate 0 (alarms s))"
  have nth: "i < ALARM_NUMBER \<Longrightarrow> al ! i = f i (alarms s ! i)" and len: "length al = ALARM_NUMBER" for i
    using assms by (simp_all add: al_def nth_enumerate_eq)
  have val: "i < ALARM_NUMBER \<Longrightarrow> valid (al ! i) \<longleftrightarrow> i < c" for i
    by (simp add: nth f_def)
  let ?es = "take c al" and ?fs = "drop c al"
  have es: "\<forall>a \<in> set ?es. valid a" and fs: "\<forall>a \<in> set ?fs. \<not> valid a"
    using val len by (auto simp: in_set_conv_nth)
  have sum: "length ?es + length ?fs = ALARM_NUMBER"
    using len by simp
  have "map entry_of ?es = stored (flash s)"
    using len
    by (auto intro!: nth_equalityI simp: stored_def Let_def c_def [symmetric] nth f_def min.commute
        intro: entry_decode)
  then show "entries (alarms (load_alarm_from_nvs s)) = stored (flash s)"
    using entries_split [OF es fs] load by (simp add: al_def)
  show "alarms_ok (alarms (load_alarm_from_nvs s))"
    using alarms_okI [OF es fs sum] load by (simp add: al_def)
qed

lemma save_loop_eq:
  "save_loop (Some \<lparr>h_ns = ns, h_read_only = False\<rparr>) i al c n =
     (c + of_nat (length (takeWhile valid al)),
      rw.puts ns (map (\<lambda>(j, a). (alarm_key j, NvsU32 (alarm_value a))) (enumerate i (takeWhile valid al))) n)"
  by (induction al arbitrary: i c n) (simp_all add: rw.puts_def)

lemma distinct_alarm_keys:
  "distinct (map fst (map (\<lambda>(j, a). (alarm_key j, v a)) (enumerate i al)))"
proof -
  have "map fst (map (\<lambda>(j, a). (alarm_key j, v a)) (enumerate i al)) = map alarm_key [i..<i + length al]"
    by (auto intro!: nth_equalityI simp: nth_enumerate_eq)
  then show ?thesis by (simp add: distinct_map inj_on_def)
qed

lemma stored_save:
  assumes ok: "alarms_ok (alarms s)" and fit: "\<forall>e \<in> set (entries (alarms s)). fits e"
  shows "stored (flash (save_alarm_to_nvs s)) = entries (alarms s)"
proof -
  let ?h = "Some \<lparr>h_ns = ''alarms'', h_read_only = False\<rparr>"
  let ?es = "takeWhile valid (alarms s)"
  let ?kvs = "map (\<lambda>(j, a). (alarm_key j, NvsU32 (alarm_value a))) (enumerate 0 ?es)"
  define n where "n = fst (nvs_open ''alarms'' NVS_READWRITE (flash s))"
  define n' where "n' = rw.puts ''alarms'' ?kvs n"
  have len: "length ?es \<le> 20"
    using length_entries [OF ok] by (simp add: entries_def ALARM_NUMBER_def)
  have flash: "flash (save_alarm_to_nvs s) = nvs_set ?h ''alarm_count'' (NvsU8 (of_nat (length ?es))) n'"
    by (simp add: save_alarm_to_nvs_def nvs_open_rw save_loop_eq n_def n'_def)
  have ready: "n ''alarms'' \<noteq> None"
    using nvs_open_rw_ready [of "''alarms''"] by (simp add: n_def)
  then have ready': "n' ''alarms'' \<noteq> None"
    using rw.ready_puts [of n "''alarms''"] by (simp add: n'_def)
  have count: "nvs_get_u8 ?h ''alarm_count'' (flash (save_alarm_to_nvs s)) 0 = of_nat (length ?es)"
    using rw.get_put [of n' "''alarms''", OF ready'] by (simp add: flash nvs_get_u8_def)
  have word: "nvs_get_u32 ?h (alarm_key j) (flash (save_alarm_to_nvs s)) 0 = alarm_value (?es ! j)"
    if "j < length ?es" for j
  proof -
    have "(alarm_key j, NvsU32 (alarm_value (?es ! j))) \<in> set ?kvs"
      using that by (force simp: in_set_enumerate_eq)
    then have "nvs_get ?h (alarm_key j) n' = Some (NvsU32 (alarm_value (?es ! j)))"
      using rw.get_puts [of n "''alarms''", OF ready distinct_alarm_keys] by (simp add: n'_def)
    then show ?thesis
      using rw.get_put [of n' "''alarms''", OF ready'] by (simp add: flash nvs_get_u32_def)
  qed
  have "fits (entry_of (?es ! j))" if "j < length ?es" for j
    using fit that by (simp add: entries_def)
  moreover have "min (unat (of_nat (length ?es) :: u8)) ALARM_NUMBER = length ?es"
    using len by (simp add: unat_of_nat ALARM_NUMBER_def)
  ultimately show ?thesis
    by (auto intro!: nth_equalityI
        simp: stored_def Let_def count word entries_def decode_alarm_value)
       (simp add: entry_of_def)
qed

section \<open>The commands refine operations on the list of entries\<close>

lemma find_slot_Some: "find_slot P i xs = Some j \<Longrightarrow> i \<le> j \<and> j < i + length xs \<and> P (xs ! (j - i))"
proof (induction xs arbitrary: i)
  case (Cons x xs)
  show ?case
  proof (cases "P x")
    case False
    with Cons.prems have "find_slot P (Suc i) xs = Some j" by simp
    from Cons.IH [OF this] show ?thesis by (auto simp: nth_Cons' Suc_le_eq)
  qed (use Cons.prems in auto)
qed simp

lemma find_slot_append:
  "find_slot P i (xs @ ys) = (case find_slot P i xs of None \<Rightarrow> find_slot P (i + length xs) ys | r \<Rightarrow> r)"
  by (induction xs arbitrary: i) (auto split: option.split)

lemma find_slot_None: "find_slot P i xs = None \<longleftrightarrow> (\<forall>x \<in> set xs. \<not> P x)"
  by (induction xs arbitrary: i) auto

lemma find_slot_map: "find_slot P i (map f xs) = find_slot (\<lambda>x. P (f x)) i xs"
  by (induction xs arbitrary: i) auto

lemma find_slot_cong: "(\<And>x. x \<in> set xs \<Longrightarrow> P x = Q x) \<Longrightarrow> find_slot P i xs = find_slot Q i xs"
  by (induction xs arbitrary: i) auto

definition spec_add :: "u8 \<Rightarrow> u16 \<Rightarrow> u16 \<Rightarrow> entry list \<Rightarrow> entry list" where
  "spec_add wd mins act es =
     (case find_slot (\<lambda>(w, m, a). w = wd \<and> m = mins) 0 es of
        Some i \<Rightarrow> es[i := (wd, mins, act)]
      | None \<Rightarrow> if length es < ALARM_NUMBER then es @ [(wd, mins, act)] else es)"

definition spec_modify :: "u8 \<Rightarrow> u8 \<Rightarrow> u16 \<Rightarrow> u16 \<Rightarrow> entry list \<Rightarrow> entry list" where
  "spec_modify index wd mins act es = es[unat index := (wd, mins, act)]"

definition spec_delete :: "u8 \<Rightarrow> entry list \<Rightarrow> entry list" where
  "spec_delete index es = take (unat index) es @ drop (Suc (unat index)) es"

definition table_is :: "alarm_struct list \<Rightarrow> entry list \<Rightarrow> bool" where
  "table_is al es \<longleftrightarrow> alarms_ok al \<and> entries al = es"

lemma table_isI:
  "\<forall>a \<in> set us. valid a \<Longrightarrow> \<forall>a \<in> set fs. \<not> valid a \<Longrightarrow> length us + length fs = ALARM_NUMBER \<Longrightarrow>
   map entry_of us = es \<Longrightarrow> table_is (us @ fs) es"
  by (simp add: table_is_def alarms_okI entries_split)

lemma table_isE:
  assumes "table_is al es"
  obtains us fs where "al = us @ fs" "\<forall>a \<in> set us. valid a" "\<forall>a \<in> set fs. \<not> valid a"
    "length us + length fs = ALARM_NUMBER" "es = map entry_of us"
  using assms unfolding table_is_def by (metis alarms_okE)

lemma alarms_save [simp]: "alarms (save_alarm_to_nvs s) = alarms s"
  by (simp add: save_alarm_to_nvs_def split: prod.split)

lemma all_valid_update: "\<forall>a \<in> set us. valid a \<Longrightarrow> valid b \<Longrightarrow> \<forall>a \<in> set (us[i := b]). valid a"
  using set_update_subset_insert [of us i b] by blast

lemma alarm_index_guard: "i > ALARM_NUMBER - 1 \<longleftrightarrow> ALARM_NUMBER \<le> i"
  by (auto simp: ALARM_NUMBER_def)

lemma valid_nth_split:
  assumes "\<forall>a \<in> set us. valid a" "\<forall>a \<in> set fs. \<not> valid a" "i < length us + length fs"
  shows "valid ((us @ fs) ! i) \<longleftrightarrow> i < length us"
proof (cases "i < length us")
  case True
  then show ?thesis using assms(1) by (simp add: nth_append)
next
  case False
  then have "fs ! (i - length us) \<in> set fs" using assms(3) by simp
  then show ?thesis using assms(2) False by (simp add: nth_append)
qed

lemma csro_alarm_add_table:
  assumes "table_is (alarms s) es"
  shows "table_is (alarms (csro_alarm_add wd mins act s)) (spec_add wd mins act es)"
proof -
  from assms obtain us fs where al: "alarms s = us @ fs" and us: "\<forall>a \<in> set us. valid a"
    and fs: "\<forall>a \<in> set fs. \<not> valid a" and len: "length us + length fs = ALARM_NUMBER"
    and es: "es = map entry_of us"
    by (rule table_isE)
  let ?P = "\<lambda>a. valid a \<and> weekday a = wd \<and> minutes a = mins"
  have fs_none: "find_slot ?P i fs = None" for i
    using fs by (simp add: find_slot_None)
  have us_none: "find_slot (\<lambda>a. \<not> valid a) 0 us = None"
    using us by (simp add: find_slot_None)
  have same: "find_slot (\<lambda>(w, m, a). w = wd \<and> m = mins) 0 es = find_slot ?P 0 us"
    unfolding es find_slot_map using us by (intro find_slot_cong) (simp add: entry_of_def)
  show ?thesis
  proof (cases "find_slot ?P 0 us")
    case (Some i)
    let ?us = "us[i := (us ! i)\<lparr>action := act\<rparr>]"
    have i: "i < length us" "?P (us ! i)"
      using find_slot_Some [OF Some] by auto
    have "alarms (csro_alarm_add wd mins act s) = ?us @ fs"
      using i by (simp add: csro_alarm_add_def al find_slot_append Some nth_append list_update_append)
    moreover have "spec_add wd mins act es = es[i := (wd, mins, act)]"
      unfolding spec_add_def same Some by simp
    then have "spec_add wd mins act es = map entry_of ?us"
      using i by (simp add: es map_update entry_of_def)
    ultimately show ?thesis
      using us fs len i by (simp only:) (intro table_isI all_valid_update, simp_all)
  next
    case None
    show ?thesis
    proof (cases fs)
      case Nil
      then show ?thesis
        using len us_none us None fs_none same es assms
        by (simp add: csro_alarm_add_def al find_slot_append spec_add_def)
    next
      case (Cons f gs)
      let ?f = "f\<lparr>valid := True, weekday := wd, minutes := mins, action := act\<rparr>"
      have "alarms (csro_alarm_add wd mins act s) = (us @ [?f]) @ gs"
        using Cons fs fs_none us_none None by (simp add: csro_alarm_add_def al find_slot_append)
      moreover have "spec_add wd mins act es = map entry_of (us @ [?f])"
        using None Cons len unfolding spec_add_def same by (simp add: es entry_of_def)
      ultimately show ?thesis
        using us fs len Cons by (simp only:) (rule table_isI, auto)
    qed
  qed
qed

lemma csro_alarm_modify_table:
  assumes "table_is (alarms s) es"
  shows "table_is (alarms (csro_alarm_modify index wd mins act s)) (spec_modify index wd mins act es)"
proof -
  from assms obtain us fs where al: "alarms s = us @ fs" and us: "\<forall>a \<in> set us. valid a"
    and fs: "\<forall>a \<in> set fs. \<not> valid a" and len: "length us + length fs = ALARM_NUMBER"
    and es: "es = map entry_of us"
    by (rule table_isE)
  let ?i = "unat index"
  show ?thesis
  proof (cases "?i < length us")
    case True
    let ?us = "us[?i := (us ! ?i)\<lparr>weekday := wd, minutes := mins, action := act\<rparr>]"
    have "\<not> ?i > ALARM_NUMBER - 1" "valid (alarms s ! ?i)"
      using True us len by (simp_all add: al nth_append)
    then have "alarms (csro_alarm_modify index wd mins act s) = ?us @ fs"
      using True by (simp add: csro_alarm_modify_def al nth_append list_update_append)
    moreover have "spec_modify index wd mins act es = map entry_of ?us"
      using True by (simp add: spec_modify_def es map_update entry_of_def)
    ultimately show ?thesis
      using us fs len True by (simp only:) (intro table_isI all_valid_update, simp_all)
  next
    case False
    have "?i > ALARM_NUMBER - 1 \<or> \<not> valid (alarms s ! ?i)"
      using False valid_nth_split [OF us fs, of ?i] len unfolding alarm_index_guard al by linarith
    then have "alarms (csro_alarm_modify index wd mins act s) = alarms s"
      by (auto simp: csro_alarm_modify_def)
    moreover have "spec_modify index wd mins act es = es"
      using False by (simp add: spec_modify_def es list_update_beyond)
    ultimately show ?thesis
      using assms by simp
  qed
qed

lemma csro_alarm_clear_table:
  assumes "table_is (alarms s) es"
  shows "table_is (alarms (csro_alarm_clear s)) []"
proof -
  have "length (alarms s) = ALARM_NUMBER"
    using assms by (simp add: table_is_def alarms_ok_def)
  then have "table_is ([] @ map (\<lambda>a. a\<lparr>valid := False\<rparr>) (alarms s)) []"
    by (intro table_isI) simp_all
  then show ?thesis by (simp add: csro_alarm_clear_def)
qed

lemma delete_loop_skip: "i + k \<le> index \<Longrightarrow> delete_loop index i (k + n) al = delete_loop index (i + k) n al"
  by (induction k arbitrary: i) auto

lemma delete_loop_idle:
  "(\<And>j. i < j \<Longrightarrow> j \<le> i + n \<Longrightarrow> \<not> valid (al ! j)) \<Longrightarrow> delete_loop index i n al = al"
  by (induction n arbitrary: i) auto

text \<open>The hole at position \<open>i\<close> moves past the remaining valid slots.\<close>

lemma delete_loop_shift:
  assumes "\<not> valid x" "\<forall>a \<in> set us. valid a" "\<forall>a \<in> set fs. \<not> valid a"
    "index \<le> length ps" "n = length us + length fs"
  shows "\<exists>vs y. delete_loop index (length ps) n (ps @ x # us @ fs) = ps @ vs @ y # fs \<and>
    map entry_of vs = map entry_of us \<and> (\<forall>a \<in> set vs. valid a) \<and> \<not> valid y"
  using assms
proof (induction us arbitrary: ps x n)
  case Nil
  have "delete_loop index (length ps) n (ps @ x # fs) = ps @ x # fs"
  proof (rule delete_loop_idle)
    fix j
    assume "length ps < j" "j \<le> length ps + n"
    then have "(ps @ x # fs) ! j = fs ! (j - Suc (length ps))" "j - Suc (length ps) < length fs"
      using Nil.prems by (simp_all add: nth_append)
    then show "\<not> valid ((ps @ x # fs) ! j)"
      using Nil.prems by (metis nth_mem)
  qed
  then show ?case using Nil.prems by auto
next
  case (Cons u us)
  let ?x = "x\<lparr>valid := True, weekday := weekday u, minutes := minutes u, action := action u\<rparr>"
  let ?u = "u\<lparr>valid := False\<rparr>"
  obtain m where n: "n = Suc m" and m: "m = length us + length fs" using Cons.prems by simp
  have "delete_loop index (length ps) n (ps @ x # (u # us) @ fs) =
        delete_loop index (length (ps @ [?x])) m ((ps @ [?x]) @ ?u # us @ fs)"
    using Cons.prems n by (simp add: nth_append list_update_append)
  moreover obtain vs y where
    "delete_loop index (length (ps @ [?x])) m ((ps @ [?x]) @ ?u # us @ fs) = (ps @ [?x]) @ vs @ y # fs"
    "map entry_of vs = map entry_of us" "\<forall>a \<in> set vs. valid a" "\<not> valid y"
    using Cons.IH [of ?u "ps @ [?x]" m] Cons.prems m by auto
  ultimately show ?case
    by (intro exI [of _ "?x # vs"] exI [of _ y]) (simp add: entry_of_def [of ?x] entry_of_def [of u])
qed

lemma csro_alarm_delete_table:
  assumes "table_is (alarms s) es"
  shows "table_is (alarms (csro_alarm_delete index s)) (spec_delete index es)"
proof -
  from assms obtain us fs where al: "alarms s = us @ fs" and us: "\<forall>a \<in> set us. valid a"
    and fs: "\<forall>a \<in> set fs. \<not> valid a" and len: "length us + length fs = ALARM_NUMBER"
    and es: "es = map entry_of us"
    by (rule table_isE)
  let ?i = "unat index"
  show ?thesis
  proof (cases "?i < length us")
    case True
    define ps qs u where "ps = take ?i us" and "qs = drop (Suc ?i) us" and "u = us ! ?i"
    have split: "us = ps @ u # qs" and ps: "length ps = ?i"
      using True by (simp_all add: ps_def qs_def u_def id_take_nth_drop)
    then have n: "ALARM_NUMBER - 1 = ?i + (length qs + length fs)"
      using len by (simp add: ps)
    have "valid (alarms s ! ?i)"
      using True us by (simp add: al nth_append)
    then have "alarms (csro_alarm_delete index s) =
        delete_loop ?i 0 (ALARM_NUMBER - 1) (ps @ u\<lparr>valid := False\<rparr> # qs @ fs)"
      using True len ps
      by (simp add: csro_alarm_delete_def alarm_index_guard al split list_update_append nth_append)
    also have "\<dots> = delete_loop ?i (length ps) (length qs + length fs) (ps @ u\<lparr>valid := False\<rparr> # qs @ fs)"
      unfolding n by (subst delete_loop_skip) (simp_all add: ps)
    finally obtain vs y where
      "alarms (csro_alarm_delete index s) = (ps @ vs) @ y # fs" "map entry_of vs = map entry_of qs"
      "\<forall>a \<in> set vs. valid a" "\<not> valid y"
      using delete_loop_shift [of "u\<lparr>valid := False\<rparr>" qs fs ?i ps] us fs ps split by auto
    moreover from this(2) have "length vs = length qs" by (rule map_eq_imp_length_eq)
    moreover have "spec_delete index es = map entry_of (ps @ qs)"
      using True by (simp add: spec_delete_def es take_map drop_map ps_def qs_def)
    ultimately show ?thesis
      using us fs len split by (simp only:) (rule table_isI, auto)
  next
    case False
    have "?i > ALARM_NUMBER - 1 \<or> \<not> valid (alarms s ! ?i)"
      using False valid_nth_split [OF us fs, of ?i] len unfolding alarm_index_guard al by linarith
    then have "alarms (csro_alarm_delete index s) = alarms s"
      by (auto simp: csro_alarm_delete_def)
    moreover have "spec_delete index es = es"
      using False by (simp add: spec_delete_def es)
    ultimately show ?thesis
      using assms by simp
  qed
qed

section \<open>Persistence\<close>

lemma stored_fits: "e \<in> set (stored n) \<Longrightarrow> fits e"
proof -
  assume "e \<in> set (stored n)"
  then obtain v b where "e = entry_of (decode_alarm v b)"
    by (auto simp: stored_def Let_def)
  moreover have "unat v div 33554432 < 128"
    using unsigned_less [where 'a = nat, of v] by (simp add: less_mult_imp_div_less)
  ultimately show ?thesis
    by (simp add: entry_of_def unat_decode)
qed

datatype alarm_cmd =
    Add u8 u16 u16
  | Modify u8 u8 u16 u16
  | Delete u8
  | Clear

fun exec_cmd :: "alarm_cmd \<Rightarrow> 'a alarm_state_scheme \<Rightarrow> 'a alarm_state_scheme" where
  "exec_cmd (Add w m a) = csro_alarm_add w m a"
| "exec_cmd (Modify i w m a) = csro_alarm_modify i w m a"
| "exec_cmd (Delete i) = csro_alarm_delete i"
| "exec_cmd Clear = csro_alarm_clear"

fun spec_cmd :: "alarm_cmd \<Rightarrow> entry list \<Rightarrow> entry list" where
  "spec_cmd (Add w m a) es = spec_add w m a es"
| "spec_cmd (Modify i w m a) es = spec_modify i w m a es"
| "spec_cmd (Delete i) es = spec_delete i es"
| "spec_cmd Clear es = []"

fun cmd_fits :: "alarm_cmd \<Rightarrow> bool" where
  "cmd_fits (Add w m a) = fits (w, m, a)"
| "cmd_fits (Modify i w m a) = fits (w, m, a)"
| "cmd_fits _ = True"

lemma exec_cmd_table:
  "table_is (alarms s) es \<Longrightarrow> table_is (alarms (exec_cmd c s)) (spec_cmd c es)"
  by (cases c) (simp_all add: csro_alarm_add_table csro_alarm_modify_table
      csro_alarm_delete_table csro_alarm_clear_table)

lemma exec_cmd_saves: "exec_cmd c s = s \<or> (\<exists>t. exec_cmd c s = save_alarm_to_nvs t)"
  by (cases c) (auto simp: csro_alarm_add_def csro_alarm_modify_def csro_alarm_delete_def
      csro_alarm_clear_def split: option.split)

lemma spec_cmd_fits:
  assumes "cmd_fits c" "\<forall>e \<in> set es. fits e"
  shows "\<forall>e \<in> set (spec_cmd c es). fits e"
  using assms
  by (cases c) (auto simp: spec_add_def spec_modify_def spec_delete_def
      dest!: in_set_takeD in_set_dropD set_update_subset_insert [THEN subsetD] split: option.splits if_splits)

text \<open>What is in RAM is what a reload would produce.\<close>

definition synced :: "'a alarm_state_scheme \<Rightarrow> bool" where
  "synced s \<longleftrightarrow> table_is (alarms s) (stored (flash s))"

lemma synced_load: "length (alarms s) = ALARM_NUMBER \<Longrightarrow> synced (load_alarm_from_nvs s)"
  by (simp add: synced_def table_is_def load_alarm_from_nvs_entries)

lemma synced_exec:
  assumes s: "synced s" and c: "cmd_fits c"
  shows "synced (exec_cmd c s) \<and> stored (flash (exec_cmd c s)) = spec_cmd c (stored (flash s))"
proof -
  let ?es = "spec_cmd c (stored (flash s))"
  have t: "table_is (alarms (exec_cmd c s)) ?es"
    using exec_cmd_table s by (simp add: synced_def)
  have fit: "\<forall>e \<in> set ?es. fits e"
    using spec_cmd_fits [OF c] stored_fits by blast
  consider (same) "exec_cmd c s = s" | (saved) u where "exec_cmd c s = save_alarm_to_nvs u"
    using exec_cmd_saves by blast
  then have "stored (flash (exec_cmd c s)) = ?es"
  proof cases
    case same
    then show ?thesis using t s by (simp add: synced_def table_is_def)
  next
    case saved
    then have "alarms_ok (alarms u)" "entries (alarms u) = ?es"
      using t by (simp_all add: table_is_def)
    then show ?thesis using stored_save [of u] fit saved by simp
  qed
  with t show ?thesis by (simp add: synced_def)
qed

lemma synced_fold:
  "synced s \<Longrightarrow> \<forall>c \<in> set cs. cmd_fits c \<Longrightarrow>
   synced (fold exec_cmd cs s) \<and> stored (flash (fold exec_cmd cs s)) = fold spec_cmd cs (stored (flash s))"
  by (induction cs arbitrary: s) (simp_all add: synced_exec)

section \<open>Properties\<close>

text \<open>
  C3: after booting, any sequence of alarm commands whose fields fit their bit ranges leaves
  the table, and the flash image a later boot loads into whatever the RAM then holds, equal
  to the list of entries the commands describe: add replaces the action of an alarm with the
  same time or appends while there is room, modify overwrites, delete closes the gap.
\<close>

theorem alarms_survive_reboot:
  assumes "length (alarms s) = ALARM_NUMBER" "length ram = ALARM_NUMBER"
    and "\<forall>c \<in> set cs. cmd_fits c"
  defines "run \<equiv> fold exec_cmd cs (load_alarm_from_nvs s)"
  shows "entries (alarms run) = fold spec_cmd cs (entries (alarms (load_alarm_from_nvs s))) \<and>
    entries (alarms (load_alarm_from_nvs (run\<lparr>alarms := ram\<rparr>))) = entries (alarms run) \<and>
    alarms_ok (alarms run)"
proof -
  have run: "synced run \<and> stored (flash run) = fold spec_cmd cs (stored (flash (load_alarm_from_nvs s)))"
    unfolding run_def by (intro synced_fold synced_load assms)
  then show ?thesis
    using assms(1,2) by (auto simp: synced_def table_is_def load_alarm_from_nvs_entries)
qed

theorem alarms_survive_reboot_witness:
  "let s = \<lparr>flash = Map.empty, alarms = replicate 20 \<lparr>valid = False, weekday = 0, minutes = 0, action = 0\<rparr>\<rparr>;
       run = fold exec_cmd [Add 127 480 1, Add 2 600 2, Delete 0] (load_alarm_from_nvs s)
   in entries (alarms (load_alarm_from_nvs (run\<lparr>alarms := alarms s\<rparr>))) = [(2, 600, 2)]"
proof -
  let ?z = "\<lparr>valid = False, weekday = 0, minutes = 0, action = 0\<rparr>"
  let ?s = "\<lparr>flash = Map.empty, alarms = replicate 20 ?z\<rparr>"
  note rebooted = alarms_survive_reboot [of ?s "replicate 20 ?z" "[Add 127 480 1, Add 2 600 2, Delete 0]"]
  have "entries (alarms (load_alarm_from_nvs ?s)) = []"
    by (subst load_alarm_from_nvs_entries(1))
      (simp_all add: ALARM_NUMBER_def stored_def nvs_get_u8_def nvs_get_def)
  then show ?thesis
    using rebooted by (simp add: ALARM_NUMBER_def spec_add_def spec_delete_def)
qed

text \<open>
  The word an alarm is stored as, read back: the action loses all but its 14 low bits, the
  excess is carried into the minutes, and the minutes beyond 11 bits into the weekday mask.
  An alarm is restored unchanged when, and only when, its fields fit.
\<close>

theorem alarm_word_fields:
  "unat (action (decode_alarm (alarm_value a) b)) = unat (action a) mod 16384 \<and>
   unat (minutes (decode_alarm (alarm_value a) b)) =
     (unat (minutes a) + unat (action a) div 16384) mod 2048 \<and>
   unat (weekday (decode_alarm (alarm_value a) b)) =
     (unat (weekday a) + (unat (minutes a) + unat (action a) div 16384) div 2048) mod 128 \<and>
   (entry_of (decode_alarm (alarm_value a) b) = entry_of a \<longleftrightarrow> fits (entry_of a))"
proof -
  note fields = unat_decode [of "alarm_value a" b, unfolded alarm_word_value carried_fields]
  have "fits (entry_of (decode_alarm (alarm_value a) b))"
    by (simp add: entry_of_def fields)
  then have "entry_of (decode_alarm (alarm_value a) b) = entry_of a \<longleftrightarrow> fits (entry_of a)"
    using decode_alarm_value [of a b] by (auto simp: entry_of_def)
  with fields show ?thesis by blast
qed

end
