(* ===== verification/Calendar.thy ===== *)
theory Calendar
  imports Prelude
begin

text \<open>
  What \<open>csro_datetime.c\<close> and \<open>csro_system.c\<close> use of the C library: \<open>struct tm\<close>, \<open>mktime\<close> and
  \<open>localtime_r\<close> without a time zone, \<open>sscanf\<close> for a format of \<open>%d\<close> and literal characters, and
  the \<open>strftime\<close> format of the status message. Dates are those of the proleptic Gregorian
  calendar, counted year by year and month by month; the two conversions are inverse.
\<close>

section \<open>Dates\<close>

record tm =
  tm_sec :: int
  tm_min :: int
  tm_hour :: int
  tm_mday :: int
  tm_mon :: int
  tm_year :: int
  tm_wday :: int
  tm_yday :: int

definition leap :: "int \<Rightarrow> bool" where
  "leap y \<longleftrightarrow> y mod 4 = 0 \<and> (y mod 100 \<noteq> 0 \<or> y mod 400 = 0)"

definition year_length :: "int \<Rightarrow> int" where
  "year_length y = (if leap y then 366 else 365)"

definition month_lengths :: "int \<Rightarrow> int list" where
  "month_lengths y = [31, if leap y then 29 else 28, 31, 30, 31, 30, 31, 31, 30, 31, 30, 31]"

text \<open>Days from 1 January 1970 to 1 January of a year.\<close>

definition days_before_year :: "int \<Rightarrow> int" where
  "days_before_year y =
     (if 1970 \<le> y then sum_list (map year_length [1970..y - 1])
      else - sum_list (map year_length [y..1969]))"

definition day_number :: "int \<Rightarrow> nat \<Rightarrow> int \<Rightarrow> int" where
  "day_number y m d = days_before_year y + sum_list (take m (month_lengths y)) + (d - 1)"

lemma year_length_pos: "365 \<le> year_length y" "year_length y \<le> 366"
  by (auto simp: year_length_def)

lemma sum_month_lengths: "sum_list (month_lengths y) = year_length y"
  by (simp add: month_lengths_def year_length_def)

lemma days_before_year_Suc: "days_before_year (y + 1) = days_before_year y + year_length y"
proof -
  consider "1970 \<le> y" | "y = 1969" | "y < 1969" by linarith
  then show ?thesis
  proof cases
    case 1
    then have "[1970..y] = [1970..y - 1] @ [y]"
      using upto_rec2 by simp
    with 1 show ?thesis by (simp add: days_before_year_def)
  next
    case 2
    then show ?thesis by (simp add: days_before_year_def)
  next
    case 3
    then have "[y..1969] = y # [y + 1..1969]"
      using upto_rec1 by simp
    with 3 show ?thesis by (simp add: days_before_year_def)
  qed
qed

text \<open>
  From a day number to year and day of the year: move the candidate year up or down until
  the remaining day falls into it.
\<close>

function split_year :: "int \<Rightarrow> int \<Rightarrow> int \<times> int" where
  "split_year y d =
     (if d < 0 then split_year (y - 1) (d + year_length (y - 1))
      else if year_length y \<le> d then split_year (y + 1) (d - year_length y)
      else (y, d))"
  by auto
termination
proof (relation "measure (\<lambda>(y, d). nat (if d < 0 then 1000 - d else d))")
  show "wf (measure (\<lambda>(y, d). nat (if d < 0 then 1000 - d else d)))" by simp
next
  fix y d :: int
  assume "d < 0"
  then show "((y - 1, d + year_length (y - 1)), (y, d)) \<in> measure (\<lambda>(y, d). nat (if d < 0 then 1000 - d else d))"
    using year_length_pos [of "y - 1"] by auto
next
  fix y d :: int
  assume "\<not> d < 0" "year_length y \<le> d"
  then show "((y + 1, d - year_length y), (y, d)) \<in> measure (\<lambda>(y, d). nat (if d < 0 then 1000 - d else d))"
    using year_length_pos [of y] by auto
qed

declare split_year.simps [simp del]

lemma split_year_correct:
  assumes "split_year y d = (y', d')"
  shows "days_before_year y' + d' = days_before_year y + d \<and> 0 \<le> d' \<and> d' < year_length y'"
  using assms
proof (induction y d rule: split_year.induct)
  case (1 y d)
  have up: "days_before_year (y + 1) = days_before_year y + year_length y"
    and down: "days_before_year y = days_before_year (y - 1) + year_length (y - 1)"
    using days_before_year_Suc [of y] days_before_year_Suc [of "y - 1"] by simp_all
  show ?case
  proof (cases "d < 0")
    case True
    with "1.prems" have "split_year (y - 1) (d + year_length (y - 1)) = (y', d')"
      by (simp add: split_year.simps [of y d])
    from "1.IH"(1) [OF True this] down show ?thesis by linarith
  next
    case neg: False
    show ?thesis
    proof (cases "year_length y \<le> d")
      case True
      with neg "1.prems" have "split_year (y + 1) (d - year_length y) = (y', d')"
        by (simp add: split_year.simps [of y d])
      from "1.IH"(2) [OF neg True this] up show ?thesis by linarith
    next
      case False
      with neg "1.prems" show ?thesis by (simp add: split_year.simps [of y d])
    qed
  qed
qed

lemma days_before_year_mono: "x \<le> y \<Longrightarrow> days_before_year x \<le> days_before_year y"
proof (induction "nat (y - x)" arbitrary: y)
  case 0
  then show ?case by simp
next
  case (Suc n)
  then have "days_before_year x \<le> days_before_year (y - 1)" by simp
  then show ?case
    using days_before_year_Suc [of "y - 1"] year_length_pos [of "y - 1"] by simp
qed

lemma year_unique:
  assumes "days_before_year x + a = days_before_year y + b"
    and "0 \<le> a" "a < year_length x" "0 \<le> b" "b < year_length y"
  shows "x = y \<and> a = b"
proof -
  have no: "\<not> v < w" if "days_before_year v + i = days_before_year w + j"
    "i < year_length v" "0 \<le> j" for v w i j
  proof
    assume "v < w"
    then have "days_before_year (v + 1) \<le> days_before_year w"
      by (intro days_before_year_mono) simp
    with that days_before_year_Suc [of v] show False by simp
  qed
  have "\<not> x < y" "\<not> y < x"
    using no [of x a y b] no [of y b x a] assms by auto
  then show ?thesis using assms by auto
qed

text \<open>From the day of the year to month and day of the month.\<close>

fun split_month :: "nat \<Rightarrow> int list \<Rightarrow> int \<Rightarrow> nat \<times> int" where
  "split_month m [] d = (m, d)"
| "split_month m (l # ls) d = (if l \<le> d then split_month (Suc m) ls (d - l) else (m, d))"

lemma split_month_take:
  assumes "k < length ls" "0 \<le> d" "d < ls ! k" "\<forall>l \<in> set ls. 0 \<le> l"
  shows "split_month m ls (sum_list (take k ls) + d) = (m + k, d)"
  using assms
proof (induction ls arbitrary: m k)
  case Nil
  then show ?case by simp
next
  case (Cons l ls)
  show ?case
  proof (cases k)
    case 0
    then show ?thesis using Cons.prems by simp
  next
    case (Suc j)
    have "0 \<le> sum_list (take j ls)"
      using Cons.prems by (intro sum_list_nonneg) (auto dest: in_set_takeD)
    then show ?thesis
      using Cons Suc by simp
  qed
qed

section \<open>The two conversions\<close>

definition localtime_r :: "int \<Rightarrow> tm" where
  "localtime_r t =
     (let days = t div 86400; rem = t mod 86400;
          (y, yday) = split_year 1970 days;
          (m, d) = split_month 0 (month_lengths y) yday
      in \<lparr>tm_sec = rem mod 60, tm_min = rem mod 3600 div 60, tm_hour = rem div 3600,
          tm_mday = d + 1, tm_mon = int m, tm_year = y - 1900,
          tm_wday = (days + 4) mod 7, tm_yday = yday\<rparr>)"

text \<open>The calendar time of a possibly unnormalised broken-down time.\<close>

definition tm_seconds :: "tm \<Rightarrow> int" where
  "tm_seconds i =
     day_number (tm_year i + 1900 + tm_mon i div 12) (nat (tm_mon i mod 12)) (tm_mday i) * 86400 +
     tm_hour i * 3600 + tm_min i * 60 + tm_sec i"

text \<open>
  \<open>mktime\<close> normalises the structure and returns the 32-bit calendar time, or \<open>-1\<close> with the
  structure unchanged when it is not representable.
\<close>

definition mktime :: "tm \<Rightarrow> tm \<times> int" where
  "mktime i =
     (let t = tm_seconds i
      in if - (2 ^ 31) \<le> t \<and> t < 2 ^ 31 then (localtime_r t, t) else (i, - 1))"

definition valid_date :: "int \<Rightarrow> int \<Rightarrow> int \<Rightarrow> bool" where
  "valid_date y m d \<longleftrightarrow> 1 \<le> m \<and> m \<le> 12 \<and> 1 \<le> d \<and> d \<le> month_lengths y ! nat (m - 1)"

definition valid_clock :: "int \<Rightarrow> int \<Rightarrow> int \<Rightarrow> bool" where
  "valid_clock h mi s \<longleftrightarrow> 0 \<le> h \<and> h \<le> 23 \<and> 0 \<le> mi \<and> mi \<le> 59 \<and> 0 \<le> s \<and> s \<le> 59"

lemma length_month_lengths [simp]: "length (month_lengths y) = 12"
  by (simp add: month_lengths_def)

lemma month_lengths_range: "l \<in> set (month_lengths y) \<Longrightarrow> 28 \<le> l \<and> l \<le> 31"
  by (auto simp: month_lengths_def split: if_splits)

lemma day_of_year_bound:
  assumes "k < 12" "0 \<le> d" "d < month_lengths y ! k"
  shows "0 \<le> sum_list (take k (month_lengths y)) + d"
    and "sum_list (take k (month_lengths y)) + d < year_length y"
proof -
  have nonneg: "0 \<le> sum_list (take k (month_lengths y))" "0 \<le> sum_list (drop (Suc k) (month_lengths y))"
    by (auto intro!: sum_list_nonneg dest!: in_set_takeD in_set_dropD month_lengths_range)
  then show "0 \<le> sum_list (take k (month_lengths y)) + d" using assms by simp
  have "month_lengths y = take k (month_lengths y) @ month_lengths y ! k # drop (Suc k) (month_lengths y)"
    using assms(1) by (simp add: id_take_nth_drop)
  then have "year_length y =
      sum_list (take k (month_lengths y)) + (month_lengths y ! k + sum_list (drop (Suc k) (month_lengths y)))"
    by (metis sum_list.Cons sum_list_append sum_month_lengths)
  with nonneg assms show "sum_list (take k (month_lengths y)) + d < year_length y" by simp
qed

lemma split_year_day_number:
  assumes "valid_date y m d"
  defines "k \<equiv> nat (m - 1)"
  shows "split_year 1970 (day_number y k d) = (y, sum_list (take k (month_lengths y)) + (d - 1))"
    and "split_month 0 (month_lengths y) (sum_list (take k (month_lengths y)) + (d - 1)) = (k, d - 1)"
proof -
  have k: "k < 12" and d: "0 \<le> d - 1" "d - 1 < month_lengths y ! k"
    using assms by (auto simp: valid_date_def)
  obtain y' d' where sp: "split_year 1970 (day_number y k d) = (y', d')" by fastforce
  have "days_before_year 1970 = 0" by (simp add: days_before_year_def)
  then have "y' = y \<and> d' = sum_list (take k (month_lengths y)) + (d - 1)"
    using split_year_correct [OF sp] day_of_year_bound [OF k d]
    by (intro year_unique) (simp_all add: day_number_def)
  with sp show "split_year 1970 (day_number y k d) = (y, sum_list (take k (month_lengths y)) + (d - 1))"
    by simp
  show "split_month 0 (month_lengths y) (sum_list (take k (month_lengths y)) + (d - 1)) = (k, d - 1)"
    using split_month_take [of k "month_lengths y" "d - 1" 0] k d month_lengths_range by fastforce
qed

lemma clock_fields:
  assumes "valid_clock h mi s"
  defines "r \<equiv> h * 3600 + mi * 60 + s"
  shows "(D * 86400 + r) div 86400 = D" "(D * 86400 + r) mod 86400 = r"
    "r mod 60 = s" "r mod 3600 div 60 = mi" "r div 3600 = h"
proof -
  have b: "0 \<le> h" "h \<le> 23" "0 \<le> mi" "mi \<le> 59" "0 \<le> s" "s \<le> 59"
    using assms(1) by (auto simp: valid_clock_def)
  then have r: "0 \<le> r" "r < 86400" by (auto simp: r_def)
  then show "(D * 86400 + r) div 86400 = D" "(D * 86400 + r) mod 86400 = r" by simp_all
  have "r = s + (h * 60 + mi) * 60" by (simp add: r_def)
  then show "r mod 60 = s" using b by (simp only: mod_mult_self1) simp
  have "r = h * 3600 + (mi * 60 + s)" "0 \<le> mi * 60 + s" "mi * 60 + s < 3600" using b by (auto simp: r_def)
  then show "r mod 3600 div 60 = mi" "r div 3600 = h" using b by simp_all
qed

text \<open>Converting a valid date to seconds and back gives the date.\<close>

lemma localtime_r_tm_seconds:
  assumes "valid_date y m d" "valid_clock h mi s"
  defines "D \<equiv> day_number y (nat (m - 1)) d"
  shows "localtime_r (D * 86400 + h * 3600 + mi * 60 + s) =
    \<lparr>tm_sec = s, tm_min = mi, tm_hour = h, tm_mday = d, tm_mon = m - 1, tm_year = y - 1900,
     tm_wday = (D + 4) mod 7,
     tm_yday = sum_list (take (nat (m - 1)) (month_lengths y)) + (d - 1)\<rparr>"
proof -
  let ?r = "h * 3600 + mi * 60 + s"
  have m: "int (nat (m - 1)) = m - 1" using assms(1) by (simp add: valid_date_def)
  have "localtime_r (D * 86400 + ?r) =
    \<lparr>tm_sec = s, tm_min = mi, tm_hour = h, tm_mday = d, tm_mon = m - 1, tm_year = y - 1900,
     tm_wday = (D + 4) mod 7,
     tm_yday = sum_list (take (nat (m - 1)) (month_lengths y)) + (d - 1)\<rparr>"
    unfolding localtime_r_def Let_def clock_fields(1,2) [OF assms(2)] clock_fields(3-5) [OF assms(2)]
      D_def split_year_day_number [OF assms(1)] prod.case m by simp
  then show ?thesis by (simp only: add.assoc)
qed

lemma tm_seconds_valid:
  assumes "valid_date y m d"
  shows "tm_seconds \<lparr>tm_sec = s, tm_min = mi, tm_hour = h, tm_mday = d, tm_mon = m - 1,
      tm_year = y - 1900, tm_wday = wd, tm_yday = yd\<rparr> =
    day_number y (nat (m - 1)) d * 86400 + h * 3600 + mi * 60 + s"
proof -
  have "(m - 1) div 12 = 0" "(m - 1) mod 12 = m - 1"
    using assms by (auto simp: valid_date_def)
  then show ?thesis by (simp add: tm_seconds_def)
qed

lemma localtime_r_sec: "tm_sec (localtime_r t) = t mod 60"
  by (simp add: localtime_r_def Let_def mod_mod_cancel split: prod.split)

lemma localtime_r_wday: "0 \<le> tm_wday (localtime_r t)" "tm_wday (localtime_r t) < 7"
  by (simp_all add: localtime_r_def Let_def split: prod.split)

section \<open>Scanning and printing\<close>

definition is_digit :: "char \<Rightarrow> bool" where
  "is_digit c \<longleftrightarrow> 48 \<le> (of_char c :: nat) \<and> of_char c \<le> (57 :: nat)"

definition is_space :: "char \<Rightarrow> bool" where
  "is_space c \<longleftrightarrow> of_char c \<in> {9, 10, 11, 12, 13, 32 :: nat}"

text \<open>The conversion \<open>%d\<close>: white space, a sign, digits; the value saturates at 32 bits.\<close>

definition clamp32 :: "int \<Rightarrow> int" where
  "clamp32 v = max (- (2 ^ 31)) (min (2 ^ 31 - 1) v)"

definition scan_int :: "string \<Rightarrow> (int \<times> string) option" where
  "scan_int cs =
     (let cs1 = dropWhile is_space cs;
          (neg, cs2) = (case cs1 of
              c # r \<Rightarrow> if c = CHR ''-'' then (True, r) else if c = CHR ''+'' then (False, r) else (False, cs1)
            | [] \<Rightarrow> (False, []));
          ds = takeWhile is_digit cs2
      in if ds = [] then None
         else Some (clamp32 (if neg then - int (digits_value 0 ds) else int (digits_value 0 ds)),
                    dropWhile is_digit cs2))"

datatype fmt = FmtInt | FmtSpace | FmtChar char

fun sscanf :: "fmt list \<Rightarrow> string \<Rightarrow> int list" where
  "sscanf [] cs = []"
| "sscanf (FmtInt # fs) cs = (case scan_int cs of None \<Rightarrow> [] | Some (v, r) \<Rightarrow> v # sscanf fs r)"
| "sscanf (FmtSpace # fs) cs = sscanf fs (dropWhile is_space cs)"
| "sscanf (FmtChar c # fs) cs = (case cs of [] \<Rightarrow> [] | d # r \<Rightarrow> if c = d then sscanf fs r else [])"

definition pad2 :: "nat \<Rightarrow> string" where
  "pad2 n = (if n < 10 then CHR ''0'' # show_nat n else show_nat n)"

text \<open>\<open>strftime\<close> with \<open>%Y/%m/%d %H:%M:%S\<close>, for years from 0 on.\<close>

definition strftime_on :: "tm \<Rightarrow> string" where
  "strftime_on i =
     show_nat (nat (tm_year i + 1900)) @ ''/'' @ pad2 (nat (tm_mon i + 1)) @ ''/'' @ pad2 (nat (tm_mday i)) @
     '' '' @ pad2 (nat (tm_hour i)) @ '':'' @ pad2 (nat (tm_min i)) @ '':'' @ pad2 (nat (tm_sec i))"

lemma show_nat_digits: "\<forall>c \<in> set (show_nat n). is_digit c"
proof (induction n rule: show_nat.induct)
  case (1 n)
  then show ?case
    by (subst show_nat.simps) (auto simp: is_digit_def of_char_of)
qed

lemma show_nat_neq_Nil [simp]: "show_nat n \<noteq> []"
  by (subst show_nat.simps) simp

lemma digit_not_sign: "is_digit c \<Longrightarrow> \<not> is_space c \<and> c \<noteq> CHR ''-'' \<and> c \<noteq> CHR ''+''"
  by (auto simp: is_digit_def is_space_def)

lemma scan_int_show_nat:
  assumes "n < 2 ^ 31" "rest = [] \<or> \<not> is_digit (hd rest)"
  shows "scan_int (show_nat n @ rest) = Some (int n, rest)"
proof -
  obtain c cs where sn: "show_nat n = c # cs" by (cases "show_nat n") simp_all
  then have c: "is_digit c" using show_nat_digits [of n] by simp
  have "takeWhile is_digit (show_nat n @ rest) = show_nat n @ takeWhile is_digit rest"
    "dropWhile is_digit (show_nat n @ rest) = dropWhile is_digit rest"
    using show_nat_digits [of n] by (intro takeWhile_append2 dropWhile_append2; simp)+
  moreover have "takeWhile is_digit rest = []" "dropWhile is_digit rest = rest"
    using assms(2) by (cases rest; simp)+
  ultimately have tw: "takeWhile is_digit (c # cs @ rest) = show_nat n" "dropWhile is_digit (c # cs @ rest) = rest"
    using sn by simp_all
  have "clamp32 (int n) = int n" using assms(1) by (simp add: clamp32_def)
  moreover have "dropWhile is_space (show_nat n @ rest) = c # cs @ rest"
    using digit_not_sign [OF c] sn by simp
  ultimately show ?thesis
    using tw digit_not_sign [OF c]
    by (simp add: scan_int_def Let_def digits_value_show_nat del: takeWhile.simps dropWhile.simps)
qed

end
