(* ===== verification/Datetime.thy ===== *)
theory Datetime
  imports Alarm Calendar
begin

text \<open>
  The clock of \<open>app/components/common/csro_datetime.c\<close>: setting it from the text of a UDP
  broadcast, the one-second timer, the alarm check at the start of each minute, and the
  initialisation. Time stamps are 32-bit; the stack content that \<open>csro_datetime_set\<close> reads
  when \<open>sscanf\<close> assigns fewer than six numbers is an explicit argument.
\<close>

section \<open>The program\<close>

record datetime_state = alarm_state +
  time_on :: u32
  time_now :: u32
  time_run :: u32
  time_info :: tm
  time_str :: string
  time_sync :: bool
  second_timer :: bool
  alarm_log :: "(u8 \<times> u16 \<times> u16) list"

fun check_alarm_loop :: "u8 \<Rightarrow> u16 \<Rightarrow> alarm_struct list \<Rightarrow> (u8 \<times> u16 \<times> u16) list" where
  "check_alarm_loop now_weekday now_minutes [] = []"
| "check_alarm_loop now_weekday now_minutes (a # as) =
     (if valid a \<and> minutes a = now_minutes \<and>
         (ucast (weekday a) :: u32) AND push_bit (unat now_weekday) 1 = push_bit (unat now_weekday) 1
      then [(now_weekday, now_minutes, action a)] else []) @
     check_alarm_loop now_weekday now_minutes as"

text \<open>The alarm check only prints; the lines it prints are collected in \<^term>\<open>alarm_log\<close>.\<close>

definition datetime_check_alarm :: "'a datetime_state_scheme \<Rightarrow> 'a datetime_state_scheme" where
  "datetime_check_alarm s =
     (let now_minutes = word_of_int (tm_hour (time_info s) * 60 + tm_min (time_info s));
          now_weekday = word_of_int (tm_wday (time_info s))
      in s\<lparr>alarm_log := alarm_log s @ check_alarm_loop now_weekday now_minutes (alarms s)\<rparr>)"

definition time_format :: "fmt list" where
  "time_format = [FmtInt, FmtChar CHR ''-'', FmtInt, FmtChar CHR ''-'', FmtInt, FmtSpace,
     FmtInt, FmtChar CHR '':'', FmtInt, FmtChar CHR '':'', FmtInt]"

text \<open>The array \<open>tim\<close> after \<open>sscanf\<close>: what was not assigned keeps the stack content.\<close>

definition scan_tim :: "u32 list \<Rightarrow> string \<Rightarrow> u32 list" where
  "scan_tim stack str =
     (let assigned = map word_of_int (sscanf time_format str)
      in assigned @ drop (length assigned) stack)"

definition csro_datetime_set ::
  "u32 list \<Rightarrow> string \<Rightarrow> 'a datetime_state_scheme \<Rightarrow> 'a datetime_state_scheme" where
  "csro_datetime_set stack str s =
     (let tim = scan_tim stack str
      in if tim ! 0 < 2018 \<or> tim ! 1 > 12 \<or> tim ! 2 > 31 \<or> tim ! 3 > 23 \<or> tim ! 4 > 59 \<or> tim ! 5 > 59
         then s
         else if \<not> time_sync s \<or> tim ! 5 = 30
         then (let info = (time_info s)\<lparr>tm_year := sint (tim ! 0 - 1900), tm_mon := sint (tim ! 1 - 1),
                             tm_mday := sint (tim ! 2), tm_hour := sint (tim ! 3),
                             tm_min := sint (tim ! 4), tm_sec := sint (tim ! 5)\<rparr>;
                   (info', t) = mktime info;
                   s1 = s\<lparr>time_info := info', time_now := word_of_int t\<rparr>;
                   s2 = (if \<not> time_sync s1
                         then s1\<lparr>time_sync := True, time_on := time_now s1 - time_run s1\<rparr> else s1)
               in s2\<lparr>time_run := time_now s2 - time_on s2\<rparr>)
         else s)"

definition second_timer_callback :: "'a datetime_state_scheme \<Rightarrow> 'a datetime_state_scheme" where
  "second_timer_callback s0 =
     (let s = s0\<lparr>time_run := time_run s0 + 1\<rparr>
      in if time_sync s
         then (let s1 = s\<lparr>time_now := time_now s + 1\<rparr>;
                   s2 = s1\<lparr>time_info := localtime_r (sint (time_now s1))\<rparr>
               in if tm_sec (time_info s2) = 0 then datetime_check_alarm s2 else s2)
         else s)"

text \<open>\<open>xTimerCreate\<close> fails when there is no memory for the timer.\<close>

definition csro_datetime_init :: "bool \<Rightarrow> 'a datetime_state_scheme \<Rightarrow> 'a datetime_state_scheme" where
  "csro_datetime_init timer_created s =
     (if timer_created then load_alarm_from_nvs (s\<lparr>second_timer := True\<rparr>) else s\<lparr>second_timer := False\<rparr>)"

section \<open>The uptime invariant\<close>

definition clock_ok :: "'a datetime_state_scheme \<Rightarrow> bool" where
  "clock_ok s \<longleftrightarrow> (time_sync s \<longrightarrow> time_now s = time_on s + time_run s)"

lemma clock_ok_set: "clock_ok s \<Longrightarrow> clock_ok (csro_datetime_set stack str s)"
  by (auto simp: csro_datetime_set_def clock_ok_def Let_def split: prod.split)

lemma check_alarm_select [simp]:
  "time_now (datetime_check_alarm s) = time_now s" "time_on (datetime_check_alarm s) = time_on s"
  "time_run (datetime_check_alarm s) = time_run s" "time_sync (datetime_check_alarm s) = time_sync s"
  "time_info (datetime_check_alarm s) = time_info s" "alarms (datetime_check_alarm s) = alarms s"
  by (simp_all add: datetime_check_alarm_def Let_def)

lemma clock_ok_tick: "clock_ok s \<Longrightarrow> clock_ok (second_timer_callback s)"
  by (auto simp: second_timer_callback_def clock_ok_def Let_def)

lemma time_run_set:
  "clock_ok s \<Longrightarrow> time_on (csro_datetime_set stack str s) + time_run (csro_datetime_set stack str s) =
     (if csro_datetime_set stack str s = s then time_on s + time_run s
      else time_now (csro_datetime_set stack str s))"
  using clock_ok_set [of s stack str]
  by (auto simp: csro_datetime_set_def Let_def split: prod.split)

section \<open>Ticks\<close>

lemma tick_select [simp]:
  "time_sync (second_timer_callback s) = time_sync s" "alarms (second_timer_callback s) = alarms s"
  "time_run (second_timer_callback s) = time_run s + 1" "time_on (second_timer_callback s) = time_on s"
  "time_now (second_timer_callback s) = (if time_sync s then time_now s + 1 else time_now s)"
  by (simp_all add: second_timer_callback_def Let_def)

lemma ticks_select [simp]:
  "time_sync ((second_timer_callback ^^ n) s) = time_sync s"
  "alarms ((second_timer_callback ^^ n) s) = alarms s"
  "time_run ((second_timer_callback ^^ n) s) = time_run s + of_nat n"
  "time_on ((second_timer_callback ^^ n) s) = time_on s"
  "time_now ((second_timer_callback ^^ n) s) = (if time_sync s then time_now s + of_nat n else time_now s)"
  by (induction n) (simp_all add: ac_simps)

lemma sint_add_nat:
  assumes "0 \<le> sint (t :: u32)" "sint t + int n < 2 ^ 31"
  shows "sint (t + of_nat n) = sint t + int n"
proof -
  have t: "t + of_nat n = word_of_int (sint t + int n)"
    by simp
  have "sint (t + of_nat n) = signed_take_bit 31 (sint t + int n)"
    unfolding t sint_sbintrunc' by simp
  also have "\<dots> = sint t + int n"
    using assms by (intro signed_take_bit_int_eq_self) simp_all
  finally show ?thesis .
qed

lemma sint_word_of_int: "- (2 ^ 31) \<le> k \<Longrightarrow> k < 2 ^ 31 \<Longrightarrow> sint (word_of_int k :: u32) = k"
  unfolding sint_sbintrunc' by (simp add: signed_take_bit_int_eq_self)

lemma tick_info: "time_sync s \<Longrightarrow> time_info (second_timer_callback s) = localtime_r (sint (time_now s + 1))"
  by (simp add: second_timer_callback_def Let_def)

definition due :: "int \<Rightarrow> alarm_struct list \<Rightarrow> (u8 \<times> u16 \<times> u16) list" where
  "due t al =
     (let i = localtime_r t; w = word_of_int (tm_wday i); m = word_of_int (tm_hour i * 60 + tm_min i)
      in map (\<lambda>a. (w, m, action a)) (filter (\<lambda>a. valid a \<and> minutes a = m \<and> bit (weekday a) (unat w)) al))"

lemma weekday_bit:
  assumes "n < 32"
  shows "(ucast (w :: u8) :: u32) AND 2 ^ n = 2 ^ n \<longleftrightarrow> bit w n"
proof -
  have one: "bit (2 ^ n :: u32) k \<longleftrightarrow> k = n" for k
    using assms by (auto simp: bit_exp_iff)
  have "(ucast w :: u32) AND 2 ^ n = 2 ^ n \<longleftrightarrow> bit (ucast w :: u32) n"
  proof
    assume "(ucast w :: u32) AND 2 ^ n = 2 ^ n"
    then have "bit ((ucast w :: u32) AND 2 ^ n) n" by (simp add: one)
    then show "bit (ucast w :: u32) n" by (simp add: bit_and_iff)
  next
    assume "bit (ucast w :: u32) n"
    then show "(ucast w :: u32) AND 2 ^ n = 2 ^ n"
      by (intro bit_word_eqI) (auto simp: bit_and_iff one)
  qed
  then show ?thesis
    using assms by (auto simp: bit_ucast_iff)
qed

lemma check_alarm_loop_eq:
  "unat w < 32 \<Longrightarrow> check_alarm_loop w m al =
     map (\<lambda>a. (w, m, action a)) (filter (\<lambda>a. valid a \<and> minutes a = m \<and> bit (weekday a) (unat w)) al)"
  by (induction al) (auto simp: weekday_bit)

lemma unat_wday: "unat (word_of_int (tm_wday (localtime_r t)) :: u8) < 32"
proof -
  have "unat (word_of_int (tm_wday (localtime_r t)) :: u8) = nat (tm_wday (localtime_r t))"
    using localtime_r_wday [of t] by (simp add: unsigned_of_int nat_take_bit_eq take_bit_int_eq_self)
  then show ?thesis using localtime_r_wday [of t] by simp
qed

lemma tick_log:
  assumes "time_sync s" "0 \<le> sint (time_now s)" "sint (time_now s) + 1 < 2 ^ 31"
  shows "alarm_log (second_timer_callback s) =
    alarm_log s @ (if (sint (time_now s) + 1) mod 60 = 0 then due (sint (time_now s) + 1) (alarms s) else [])"
proof -
  have "sint (time_now s + 1) = sint (time_now s) + 1"
    using sint_add_nat [of "time_now s" 1] assms(2,3) by simp
  then show ?thesis
    using assms(1)
    by (simp add: second_timer_callback_def Let_def localtime_r_sec datetime_check_alarm_def due_def
        check_alarm_loop_eq unat_wday)
qed

text \<open>The alarms reported during \<open>n\<close> consecutive seconds after the time \<open>t\<close>.\<close>

lemma ticks_log:
  assumes "time_sync s" "0 \<le> sint (time_now s)" "sint (time_now s) + int n < 2 ^ 31"
  shows "alarm_log ((second_timer_callback ^^ n) s) =
    alarm_log s @ concat (map (\<lambda>k. if (sint (time_now s) + int k) mod 60 = 0
                                   then due (sint (time_now s) + int k) (alarms s) else []) [1..<Suc n])"
  using assms
proof (induction n)
  case 0
  then show ?case by simp
next
  case (Suc n)
  let ?s = "(second_timer_callback ^^ n) s"
  have now: "sint (time_now ?s) = sint (time_now s) + int n"
    using Suc.prems by (simp add: sint_add_nat)
  have "alarm_log (second_timer_callback ?s) = alarm_log ?s @
      (if (sint (time_now ?s) + 1) mod 60 = 0 then due (sint (time_now ?s) + 1) (alarms ?s) else [])"
    using Suc.prems by (intro tick_log) (simp_all add: now del: ticks_select(5))
  then show ?case
    using Suc now by (simp add: ac_simps del: ticks_select(5))
qed

lemma minute_boundary_unique:
  assumes "1 \<le> k" "k \<le> 60" "(t + int k) mod 60 = 0"
  shows "t + int k = 60 * (t div 60 + 1)"
proof -
  obtain q where q: "t + int k = 60 * q" using assms(3) by auto
  then have "t = 60 * (q - 1) + (60 - int k)" by simp
  then have "t div 60 = q - 1" using assms(1,2) by simp
  with q show ?thesis by simp
qed

section \<open>Setting the clock\<close>

text \<open>The text the server broadcasts for a date, without padding.\<close>

definition time_text :: "nat \<Rightarrow> nat \<Rightarrow> nat \<Rightarrow> nat \<Rightarrow> nat \<Rightarrow> nat \<Rightarrow> string" where
  "time_text y m d h mi sec =
     show_nat y @ ''-'' @ show_nat m @ ''-'' @ show_nat d @ '' '' @
     show_nat h @ '':'' @ show_nat mi @ '':'' @ show_nat sec"

lemma not_digit_sep [simp]: "\<not> is_digit CHR ''-''" "\<not> is_digit CHR '' ''" "\<not> is_digit CHR '':''"
  by (simp_all add: is_digit_def)

lemma scan_tim_time_text:
  assumes "y < 2 ^ 31" "m < 2 ^ 31" "d < 2 ^ 31" "h < 2 ^ 31" "mi < 2 ^ 31" "sec < 2 ^ 31"
  shows "scan_tim stack (time_text y m d h mi sec) =
    [of_nat y, of_nat m, of_nat d, of_nat h, of_nat mi, of_nat sec] @ drop 6 stack"
proof -
  have space: "dropWhile is_space ('' '' @ show_nat h @ r) = show_nat h @ r" for r
    using show_nat_digits [of h] digit_not_sign by (cases "show_nat h") (auto simp: is_space_def)
  have "sscanf time_format (time_text y m d h mi sec) = map int [y, m, d, h, mi, sec]"
    using assms scan_int_show_nat [of sec "[]"] space
    by (simp add: time_format_def time_text_def scan_int_show_nat)
  then show ?thesis by (simp add: scan_tim_def Let_def eval_nat_numeral)
qed

lemma sint_of_nat_small: "n < 2 ^ 31 \<Longrightarrow> sint (of_nat n :: u32) = int n"
  using sint_word_of_int [of "int n"] by simp

lemma of_nat_u32_less: "m < 2 ^ 32 \<Longrightarrow> n < 2 ^ 32 \<Longrightarrow> (of_nat m :: u32) < of_nat n \<longleftrightarrow> m < n"
  by (simp add: word_less_nat_alt unat_of_nat)

lemma csro_datetime_set_valid:
  fixes stack :: "u32 list"
  assumes date: "valid_date (int y) (int m) (int d)" and clock: "valid_clock (int h) (int mi) (int sec)"
    and y: "2018 \<le> y" "y < 2038" and mode: "\<not> time_sync s \<or> sec = 30"
  defines "t \<equiv> day_number (int y) (m - 1) (int d) * 86400 + int h * 3600 + int mi * 60 + int sec"
  assumes t: "0 \<le> t" "t < 2 ^ 31"
  defines "s' \<equiv> csro_datetime_set stack (time_text y m d h mi sec) s"
  shows "time_sync s'" "time_now s' = word_of_int t" "time_info s' = localtime_r t"
    "alarms s' = alarms s" "flash s' = flash s" "alarm_log s' = alarm_log s"
proof -
  have md: "1 \<le> m" "m \<le> 12" "d \<le> 31"
    using date month_lengths_range [of "month_lengths (int y) ! nat (int m - 1)" "int y"]
    by (auto simp: valid_date_def)
  have hms: "h \<le> 23" "mi \<le> 59" "sec \<le> 59"
    using clock by (auto simp: valid_clock_def)
  let ?tim = "scan_tim stack (time_text y m d h mi sec)"
  have tim: "?tim = [of_nat y, of_nat m, of_nat d, of_nat h, of_nat mi, of_nat sec] @ drop 6 stack"
    using y md hms by (intro scan_tim_time_text) simp_all
  have accept: "\<not> (?tim ! 0 < 2018 \<or> ?tim ! 1 > 12 \<or> ?tim ! 2 > 31 \<or> ?tim ! 3 > 23 \<or> ?tim ! 4 > 59 \<or> ?tim ! 5 > 59)"
    using y md hms
    by (simp add: tim nth_append word_less_nat_alt unat_of_nat)
  have "?tim ! 5 = 30 \<longleftrightarrow> sec = 30"
    using hms by (simp add: tim nth_append word_unat_eq_iff unat_of_nat)
  with mode have set: "\<not> time_sync s \<or> ?tim ! 5 = 30" by simp
  have "?tim ! 0 - 1900 = of_nat (y - 1900)" "?tim ! 1 - 1 = of_nat (m - 1)"
    using y md by (simp_all add: tim nth_append of_nat_diff)
  then have "sint (?tim ! 0 - 1900) = int (y - 1900)" "sint (?tim ! 1 - 1) = int (m - 1)"
    using y md sint_of_nat_small [of "y - 1900"] sint_of_nat_small [of "m - 1"] by simp_all
  then have "sint (?tim ! 0 - 1900) = int y - 1900" "sint (?tim ! 1 - 1) = int m - 1"
    using y md by (simp_all add: int_ops(6))
  moreover have "sint (?tim ! 2) = int d" "sint (?tim ! 3) = int h" "sint (?tim ! 4) = int mi" "sint (?tim ! 5) = int sec"
    using md hms by (simp_all add: tim nth_append sint_of_nat_small)
  ultimately have "(time_info s)\<lparr>tm_year := sint (?tim ! 0 - 1900), tm_mon := sint (?tim ! 1 - 1),
      tm_mday := sint (?tim ! 2), tm_hour := sint (?tim ! 3), tm_min := sint (?tim ! 4), tm_sec := sint (?tim ! 5)\<rparr> =
      \<lparr>tm_sec = int sec, tm_min = int mi, tm_hour = int h, tm_mday = int d, tm_mon = int m - 1,
       tm_year = int y - 1900, tm_wday = tm_wday (time_info s), tm_yday = tm_yday (time_info s)\<rparr>" (is "?info = _")
    by simp
  then have "mktime ?info = (localtime_r t, t)"
    using t tm_seconds_valid [OF date] md by (simp add: mktime_def t_def nat_diff_distrib Let_def)
  then show "time_sync s'" "time_now s' = word_of_int t" "time_info s' = localtime_r t"
    "alarms s' = alarms s" "flash s' = flash s" "alarm_log s' = alarm_log s"
    using accept set unfolding s'_def csro_datetime_set_def Let_def by auto
qed

section \<open>Properties\<close>

datatype clock_event = Broadcast "u32 list" string | SecondTick

fun clock_step :: "clock_event \<Rightarrow> 'a datetime_state_scheme \<Rightarrow> 'a datetime_state_scheme" where
  "clock_step (Broadcast stack str) s = csro_datetime_set stack str s"
| "clock_step SecondTick s = second_timer_callback s"

lemma clock_step_ok: "clock_ok s \<Longrightarrow> clock_ok (clock_step e s)"
  by (cases e) (simp_all add: clock_ok_set clock_ok_tick)

lemma clock_step_sync: "time_sync s \<Longrightarrow> time_sync (clock_step e s)"
  by (cases e) (auto simp: csro_datetime_set_def Let_def split: prod.split)

lemma clock_steps_sync: "time_sync s \<Longrightarrow> time_sync (fold clock_step evs s)"
  by (induction evs arbitrary: s) (simp_all add: clock_step_sync)

lemma clock_step_run:
  "\<not> time_sync (clock_step e s) \<Longrightarrow>
   time_run (clock_step e s) = time_run s + (if e = SecondTick then 1 else 0)"
  by (cases e) (auto simp: csro_datetime_set_def Let_def split: prod.splits if_splits)

lemma clock_steps_ok: "clock_ok s \<Longrightarrow> clock_ok (fold clock_step evs s)"
  by (induction evs arbitrary: s) (simp_all add: clock_step_ok)

lemma clock_steps_run:
  "\<not> time_sync (fold clock_step evs s) \<Longrightarrow>
   time_run (fold clock_step evs s) = time_run s + of_nat (length (filter ((=) SecondTick) evs))"
proof (induction evs arbitrary: s)
  case (Cons e evs)
  then have "\<not> time_sync (clock_step e s)" using clock_steps_sync by auto
  from Cons.IH [of "clock_step e s"] clock_step_run [OF this] Cons.prems show ?case by auto
qed simp

text \<open>
  Whatever broadcasts and timer ticks arrive after power-on, once the clock is synchronised
  the current time is the power-on time plus the running time; before that the running time
  is the number of ticks.
\<close>

theorem uptime_consistent:
  fixes evs :: "clock_event list"
  assumes "\<not> time_sync s" "time_run s = 0"
  defines "s' \<equiv> fold clock_step evs s"
  shows "if time_sync s' then time_now s' = time_on s' + time_run s'
         else time_run s' = of_nat (length (filter ((=) SecondTick) evs))"
proof -
  have "clock_ok s'" unfolding s'_def using assms(1) by (intro clock_steps_ok) (simp add: clock_ok_def)
  then show ?thesis
    using clock_steps_run [of evs s] assms(2) by (auto simp: clock_ok_def s'_def)
qed

theorem uptime_consistent_witness:
  "let s = \<lparr>flash = Map.empty, alarms = [], time_on = 0, time_now = 0, time_run = 0,
            time_info = localtime_r 0, time_str = [], time_sync = False, second_timer = True, alarm_log = []\<rparr>;
       s' = fold clock_step [SecondTick, SecondTick] s
   in (if time_sync s' then time_now s' = time_on s' + time_run s' else time_run s' = 2)"
  using uptime_consistent [of "\<lparr>flash = Map.empty, alarms = [], time_on = 0, time_now = 0, time_run = 0,
      time_info = localtime_r 0, time_str = [], time_sync = False, second_timer = True, alarm_log = []\<rparr>"
      "[SecondTick, SecondTick]"]
  by (simp add: Let_def)


text \<open>
  C24: in any sixty consecutive seconds of a synchronised clock, every valid alarm whose time
  is the minute that begins then, on a weekday of its mask, is reported exactly once and
  nothing else is.
\<close>

theorem alarms_reported_once_a_minute:
  assumes "time_sync s" "0 \<le> sint (time_now s)" "sint (time_now s) + 60 < 2 ^ 31"
  shows "alarm_log ((second_timer_callback ^^ 60) s) =
    alarm_log s @ due (60 * (sint (time_now s) div 60 + 1)) (alarms s)"
proof -
  let ?t = "sint (time_now s)"
  define k where "k = nat (60 - ?t mod 60)"
  have k: "1 \<le> k" "k \<le> 60" "?t + int k = 60 * (?t div 60 + 1)"
    by (auto simp: k_def algebra_simps minus_mod_eq_mult_div [symmetric])
  define f where "f = (\<lambda>k. if (?t + int k) mod 60 = 0 then due (?t + int k) (alarms s) else [])"
  have other: "f j = []" if "1 \<le> j" "j \<le> 60" "j \<noteq> k" for j
    using minute_boundary_unique [OF that(1,2), of ?t] k that(3) by (auto simp: f_def)
  have "[1..<Suc 60] = [1..<k] @ k # [Suc k..<Suc 60]"
    using k(1,2) upt_add_eq_append [of 1 k "61 - k"] upt_conv_Cons [of k 61] by simp
  moreover have "concat (map f [1..<k]) = []" "concat (map f [Suc k..<Suc 60]) = []"
    unfolding concat_eq_Nil_conv using other k(1,2) by auto
  ultimately have "concat (map f [1..<Suc 60]) = f k"
    by (simp only: map_append list.map concat_append concat.simps) simp
  also have "f k = due (60 * (?t div 60 + 1)) (alarms s)"
    by (simp only: f_def k(3)) simp
  finally show ?thesis
    using ticks_log [OF assms(1,2), of 60] assms(3) by (simp add: f_def)
qed

theorem alarms_reported_once_a_minute_witness:
  "let s = \<lparr>flash = Map.empty, alarms = [\<lparr>valid = True, weekday = 127, minutes = 1, action = 7\<rparr>],
            time_on = 0, time_now = 30, time_run = 30, time_info = localtime_r 30, time_str = [],
            time_sync = True, second_timer = True, alarm_log = []\<rparr>
   in alarm_log ((second_timer_callback ^^ 60) s) = [(4, 1, 7)]"
  (is "let s = ?s in _")
proof -
  have "localtime_r 60 = \<lparr>tm_sec = 0, tm_min = 1, tm_hour = 0, tm_mday = 1, tm_mon = 0, tm_year = 70,
      tm_wday = 4, tm_yday = 0\<rparr>"
    by (simp add: localtime_r_def split_year.simps [of 1970 0] year_length_def month_lengths_def Let_def)
  then have "due 60 [\<lparr>valid = True, weekday = 127, minutes = 1, action = 7\<rparr>] = [(4, 1, 7)]"
    by (simp add: due_def Let_def)
  then show ?thesis
    using alarms_reported_once_a_minute [of ?s] by (simp add: Let_def)
qed


end
