(* ===== verification/Double.thy ===== *)
theory Double
  imports Complex_Main Prelude
begin

text \<open>
  The C type \<open>double\<close> as far as \<open>cJSON.c\<close> uses it: finite values are rationals, every
  arithmetic result is rounded to 53 significant bits (ties to even, gradual underflow),
  and what exceeds the range is an infinity. Integers below \<open>2^53\<close> are exact.
\<close>

datatype double = Fin rat | Infty bool

section \<open>Rounding\<close>

fun log2n :: "nat \<Rightarrow> nat" where
  "log2n n = (if n < 2 then 0 else Suc (log2n (n div 2)))"

declare log2n.simps [simp del]

definition pow2 :: "int \<Rightarrow> rat" where
  "pow2 k = (if 0 \<le> k then 2 ^ nat k else 1 / 2 ^ nat (- k))"

text \<open>The exponent \<open>k\<close> with \<open>2^k \<le> \<bar>x\<bar> < 2^(k + 1)\<close>.\<close>

definition rat_exponent :: "rat \<Rightarrow> int" where
  "rat_exponent x =
     (let (p, q) = quotient_of \<bar>x\<bar>;
          k = int (log2n (nat p)) - int (log2n (nat q))
      in if pow2 k \<le> \<bar>x\<bar> then k else k - 1)"

definition round_even :: "rat \<Rightarrow> int" where
  "round_even x =
     (let f = \<lfloor>x\<rfloor>; r = x - of_int f
      in if r < 1 / 2 then f else if r > 1 / 2 then f + 1 else if even f then f else f + 1)"

definition rnd :: "rat \<Rightarrow> double" where
  "rnd x =
     (if x = 0 then Fin 0
      else let e = max (rat_exponent x - 52) (- 1074);
               y = of_int (round_even (x / pow2 e)) * pow2 e
           in if \<bar>y\<bar> < 2 ^ 1024 then Fin y else Infty (x < 0))"

lemma log2n_mono_bound: "n < 2 ^ k \<Longrightarrow> 0 < k \<Longrightarrow> log2n n < k"
proof (induction n arbitrary: k rule: log2n.induct)
  case (1 n)
  show ?case
  proof (cases "n < 2")
    case True
    then show ?thesis using "1.prems" by (simp add: log2n.simps [of n])
  next
    case False
    then have "1 < k" using "1.prems" by (cases k; cases "k - 1"; simp)
    then obtain j where j: "k = Suc j" "0 < j" by (cases k) auto
    then have "n div 2 < 2 ^ j" using "1.prems" by simp
    then have "log2n (n div 2) < j" using "1.IH" False j by simp
    then show ?thesis using False j by (simp add: log2n.simps [of n])
  qed
qed

lemma pow2_pos [simp]: "0 < pow2 k"
  by (simp add: pow2_def)

lemma pow2_neg: "k \<le> 0 \<Longrightarrow> 1 / pow2 k = 2 ^ nat (- k)"
  by (cases "k = 0") (simp_all add: pow2_def)

lemma round_even_of_int [simp]: "round_even (of_int n) = n"
  by (simp add: round_even_def)

lemma rat_exponent_of_int:
  assumes "\<bar>n\<bar> < 2 ^ 53"
  shows "rat_exponent (of_int n) \<le> 52"
proof -
  have q: "quotient_of \<bar>of_int n :: rat\<bar> = (\<bar>n\<bar>, 1)"
    using quotient_of_int [of "\<bar>n\<bar>"] by (simp add: Rat.of_int_def)
  have "nat \<bar>n\<bar> < 2 ^ 53" using assms by (simp add: nat_less_iff)
  then have "log2n (nat \<bar>n\<bar>) < 53" by (rule log2n_mono_bound) simp
  moreover have "log2n (nat 1) = 0" by (simp add: log2n.simps)
  ultimately show ?thesis
    by (simp add: rat_exponent_def q Let_def)
qed

lemma rnd_of_int: "\<bar>n\<bar> < 2 ^ 53 \<Longrightarrow> rnd (of_int n) = Fin (of_int n)"
proof (cases "n = 0")
  case False
  assume n: "\<bar>n\<bar> < 2 ^ 53"
  let ?e = "max (rat_exponent (of_int n) - 52) (- 1074)"
  have e: "?e \<le> 0" using rat_exponent_of_int [OF n] by simp
  have "(of_int n :: rat) / pow2 ?e = of_int (n * 2 ^ nat (- ?e))"
    using pow2_neg [OF e] by (simp add: divide_inverse [of "of_int n"] inverse_eq_divide)
  then have y: "of_int (round_even ((of_int n :: rat) / pow2 ?e)) * pow2 ?e = of_int n"
    by (metis nonzero_eq_divide_eq order_less_irrefl pow2_pos round_even_of_int)
  have "\<bar>of_int n :: rat\<bar> < 2 ^ 1024"
  proof -
    have "\<bar>of_int n :: rat\<bar> < of_int (2 ^ 53)" using n by (metis of_int_abs of_int_less_iff)
    also have "\<dots> \<le> 2 ^ 1024" using power_increasing [of 53 1024 "2 :: rat"] by simp
    finally show ?thesis .
  qed
  with False y show ?thesis
    by (simp add: rnd_def Let_def)
qed (simp add: rnd_def)

section \<open>Operations\<close>

text \<open>A C integer converted to \<open>double\<close>.\<close>

definition double_of_int :: "int \<Rightarrow> double" where
  "double_of_int n = rnd (of_int n)"

definition trunc :: "rat \<Rightarrow> int" where
  "trunc x = (if 0 \<le> x then \<lfloor>x\<rfloor> else \<lceil>x\<rceil>)"

fun double_le :: "double \<Rightarrow> double \<Rightarrow> bool" where
  "double_le (Fin x) (Fin y) = (x \<le> y)"
| "double_le (Infty neg) (Fin y) = neg"
| "double_le (Fin x) (Infty neg) = (\<not> neg)"
| "double_le (Infty m) (Infty n) = (m \<or> \<not> n)"

text \<open>The saturating conversion of \<open>parse_number\<close>, \<open>cJSON_CreateNumber\<close> and \<open>cJSON_SetNumberHelper\<close>.\<close>

definition INT_MAX :: int where "INT_MAX = 2147483647"

definition INT_MIN :: int where "INT_MIN = - 2147483648"

definition saturate_int :: "double \<Rightarrow> int" where
  "saturate_int d =
     (if double_le (Fin (of_int INT_MAX)) d then INT_MAX
      else if double_le d (Fin (of_int INT_MIN)) then INT_MIN
      else (case d of Fin x \<Rightarrow> trunc x | Infty _ \<Rightarrow> 0))"

lemma trunc_of_int [simp]: "trunc (of_int n) = n"
  by (simp add: trunc_def)

lemma saturate_int_of_int:
  "INT_MIN \<le> n \<Longrightarrow> n \<le> INT_MAX \<Longrightarrow> saturate_int (Fin (of_int n)) = n"
  by (auto simp: saturate_int_def)

lemma saturate_int_range: "INT_MIN \<le> saturate_int d \<and> saturate_int d \<le> INT_MAX"
proof (cases d)
  case (Fin x)
  show ?thesis
  proof (cases "of_int INT_MAX \<le> x \<or> x \<le> of_int INT_MIN")
    case True
    then show ?thesis using Fin by (auto simp: saturate_int_def INT_MAX_def INT_MIN_def)
  next
    case False
    then have "INT_MIN \<le> trunc x" "trunc x \<le> INT_MAX"
      by (auto simp: trunc_def le_floor_iff floor_le_iff le_ceiling_iff ceiling_le_iff
          INT_MAX_def INT_MIN_def)
    then show ?thesis using Fin False by (auto simp: saturate_int_def)
  qed
next
  case (Infty b)
  then show ?thesis by (cases b) (auto simp: saturate_int_def INT_MAX_def INT_MIN_def)
qed

lemma double_of_int_exact: "INT_MIN \<le> n \<Longrightarrow> n \<le> INT_MAX \<Longrightarrow> double_of_int n = Fin (of_int n)"
  unfolding double_of_int_def by (rule rnd_of_int) (auto simp: INT_MAX_def INT_MIN_def)

end
