(* ===== verification/Json.thy ===== *)
theory Json
  imports Calendar Double
begin

text \<open>
  The JSON library \<open>components/cjson/cJSON/cJSON.c\<close> as the firmware uses it: items and their
  lookup, the constructors of messages, and the parser. A C string is a list of characters
  without its terminator; the parse buffer is what is left of the input. The allocator is
  taken to succeed. The recursive descent is bounded by the nesting
  limit, and each element loop by the length of the text it runs over; \<open>parse_fuel\<close> and
  \<open>array_loop_fuel\<close> show that neither bound is ever met.
\<close>

section \<open>Items\<close>

datatype json_type =
    cJSON_Invalid
  | cJSON_False
  | cJSON_True
  | cJSON_NULL
  | cJSON_Number
  | cJSON_String
  | cJSON_Array
  | cJSON_Object
  | cJSON_Raw

datatype cJSON =
  CJSON (jtype: json_type) (valuestring: "string option") (valueint: int) (valuedouble: double)
    (jname: "string option") (child: "cJSON list")

definition cJSON_New_Item :: cJSON where
  "cJSON_New_Item = CJSON cJSON_Invalid None 0 (Fin 0) None []"

fun set_type :: "json_type \<Rightarrow> cJSON \<Rightarrow> cJSON" where
  "set_type t (CJSON _ vs vi vd nm ch) = CJSON t vs vi vd nm ch"

fun set_valuestring :: "string \<Rightarrow> cJSON \<Rightarrow> cJSON" where
  "set_valuestring s (CJSON t _ vi vd nm ch) = CJSON t (Some s) vi vd nm ch"

fun set_number :: "double \<Rightarrow> cJSON \<Rightarrow> cJSON" where
  "set_number d (CJSON t vs _ _ nm ch) = CJSON t vs (saturate_int d) d nm ch"

fun set_name :: "string \<Rightarrow> cJSON \<Rightarrow> cJSON" where
  "set_name s (CJSON t vs vi vd _ ch) = CJSON t vs vi vd (Some s) ch"

fun set_child :: "cJSON list \<Rightarrow> cJSON \<Rightarrow> cJSON" where
  "set_child cs (CJSON t vs vi vd nm _) = CJSON t vs vi vd nm cs"

definition cJSON_CreateObject :: cJSON where
  "cJSON_CreateObject = set_type cJSON_Object cJSON_New_Item"

definition cJSON_CreateNumber :: "double \<Rightarrow> cJSON" where
  "cJSON_CreateNumber num = set_number num (set_type cJSON_Number cJSON_New_Item)"

definition cJSON_CreateString :: "string \<Rightarrow> cJSON" where
  "cJSON_CreateString s = set_valuestring s (set_type cJSON_String cJSON_New_Item)"

definition add_item_to_array :: "cJSON \<Rightarrow> cJSON \<Rightarrow> cJSON" where
  "add_item_to_array array item = set_child (child array @ [item]) array"

definition add_item_to_object :: "cJSON \<Rightarrow> string \<Rightarrow> cJSON \<Rightarrow> cJSON" where
  "add_item_to_object object name item = add_item_to_array object (set_name name item)"

definition cJSON_AddNumberToObject :: "cJSON \<Rightarrow> string \<Rightarrow> int \<Rightarrow> cJSON" where
  "cJSON_AddNumberToObject object name n =
     add_item_to_object object name (cJSON_CreateNumber (double_of_int n))"

definition cJSON_AddStringToObject :: "cJSON \<Rightarrow> string \<Rightarrow> string \<Rightarrow> cJSON" where
  "cJSON_AddStringToObject object name s = add_item_to_object object name (cJSON_CreateString s)"

section \<open>Lookup\<close>

definition tolower :: "char \<Rightarrow> int" where
  "tolower c = (let n = of_char c in if 65 \<le> n \<and> n \<le> 90 then n + 32 else n)"

fun strcmp_loop :: "string \<Rightarrow> string \<Rightarrow> int" where
  "strcmp_loop [] [] = 0"
| "strcmp_loop [] (b # bs) = - tolower b"
| "strcmp_loop (a # as) [] = tolower a"
| "strcmp_loop (a # as) (b # bs) =
     (if tolower a = tolower b then strcmp_loop as bs else tolower a - tolower b)"

definition case_insensitive_strcmp :: "string option \<Rightarrow> string option \<Rightarrow> int" where
  "case_insensitive_strcmp s1 s2 =
     (case (s1, s2) of (Some a, Some b) \<Rightarrow> strcmp_loop a b | _ \<Rightarrow> 1)"

fun find_child :: "string \<Rightarrow> cJSON list \<Rightarrow> cJSON option" where
  "find_child name [] = None"
| "find_child name (c # cs) =
     (if case_insensitive_strcmp (Some name) (jname c) \<noteq> 0 then find_child name cs else Some c)"

definition cJSON_GetObjectItem :: "cJSON \<Rightarrow> string \<Rightarrow> cJSON option" where
  "cJSON_GetObjectItem object name = find_child name (child object)"

section \<open>Numbers\<close>

definition number_char :: "char \<Rightarrow> bool" where
  "number_char c \<longleftrightarrow> is_digit c \<or> c \<in> {CHR ''+'', CHR ''-'', CHR ''e'', CHR ''E'', CHR ''.''}"

definition scan_sign :: "string \<Rightarrow> bool \<times> string" where
  "scan_sign cs =
     (case cs of
        c # r \<Rightarrow> if c = CHR ''-'' then (True, r) else if c = CHR ''+'' then (False, r) else (False, cs)
      | [] \<Rightarrow> (False, []))"

definition scan_fraction :: "string \<Rightarrow> string \<times> string" where
  "scan_fraction cs =
     (case cs of
        c # r \<Rightarrow> if c = CHR ''.'' then (takeWhile is_digit r, dropWhile is_digit r) else ([], cs)
      | [] \<Rightarrow> ([], []))"

definition scan_exponent :: "string \<Rightarrow> int \<times> string" where
  "scan_exponent cs =
     (case cs of
        c # r \<Rightarrow>
          if c = CHR ''e'' \<or> c = CHR ''E''
          then (let (neg, r1) = scan_sign r; ds = takeWhile is_digit r1; v = int (digits_value 0 ds)
                in if ds = [] then (0, cs) else (if neg then - v else v, dropWhile is_digit r1))
          else (0, cs)
      | [] \<Rightarrow> (0, []))"

definition pow10 :: "int \<Rightarrow> rat" where
  "pow10 k = (if 0 \<le> k then 10 ^ nat k else 1 / 10 ^ nat (- k))"

text \<open>\<open>strtod\<close> on the characters \<open>parse_number\<close> collects; the result holds what follows the number.\<close>

definition strtod :: "string \<Rightarrow> (double \<times> string) option" where
  "strtod cs =
     (let (neg, r0) = scan_sign cs;
          ds = takeWhile is_digit r0;
          (fs, r1) = scan_fraction (dropWhile is_digit r0);
          (e, r2) = scan_exponent r1;
          v = of_nat (digits_value 0 (ds @ fs)) * pow10 (e - int (length fs))
      in if ds @ fs = [] then None else Some (rnd (if neg then - v else v), r2))"

definition parse_number :: "string \<Rightarrow> (cJSON \<times> string) option" where
  "parse_number s =
     (let number_c_string = takeWhile number_char (take 63 s)
      in case strtod number_c_string of
           None \<Rightarrow> None
         | Some (number, after_end) \<Rightarrow>
             Some (set_type cJSON_Number (set_number number cJSON_New_Item),
                   drop (length number_c_string - length after_end) s))"

section \<open>Strings\<close>

definition hex_digit :: "char \<Rightarrow> nat option" where
  "hex_digit c =
     (let n = of_char c
      in if 48 \<le> n \<and> n \<le> 57 then Some (n - 48)
         else if 65 \<le> n \<and> n \<le> 70 then Some (10 + n - 65)
         else if 97 \<le> n \<and> n \<le> 102 then Some (10 + n - 97)
         else None)"

fun parse_hex4_loop :: "nat \<Rightarrow> u32 \<Rightarrow> string \<Rightarrow> u32" where
  "parse_hex4_loop 0 h cs = h"
| "parse_hex4_loop (Suc i) h cs =
     (case cs of
        [] \<Rightarrow> 0
      | c # r \<Rightarrow>
          (case hex_digit c of
             None \<Rightarrow> 0
           | Some v \<Rightarrow> let h' = h + of_nat v
                       in parse_hex4_loop i (if 0 < i then push_bit 4 h' else h') r))"

definition parse_hex4 :: "string \<Rightarrow> u32" where
  "parse_hex4 cs = parse_hex4_loop 4 0 cs"

definition byte_char :: "u32 \<Rightarrow> char" where
  "byte_char w = char_of (unat (w AND 0xFF))"

fun utf8_tail :: "nat \<Rightarrow> u32 \<Rightarrow> string \<Rightarrow> u32 \<times> string" where
  "utf8_tail 0 cp out = (cp, out)"
| "utf8_tail (Suc n) cp out = utf8_tail n (drop_bit 6 cp) (byte_char ((cp OR 0x80) AND 0xBF) # out)"

definition utf8_encode :: "u32 \<Rightarrow> string option" where
  "utf8_encode codepoint =
     (let enc = (\<lambda>len mark. let (cp, tl) = utf8_tail (len - 1) codepoint []
                            in Some (byte_char (cp OR mark) # tl))
      in if codepoint < 0x80 then Some [byte_char (codepoint AND 0x7F)]
         else if codepoint < 0x800 then enc 2 0xC0
         else if codepoint < 0x10000 then enc 3 0xE0
         else if codepoint \<le> 0x10FFFF then enc 4 0xF0
         else None)"

text \<open>The bytes written and the number of input characters consumed, from a \<open>\u\<close> on.\<close>

definition utf16_literal_to_utf8 :: "string \<Rightarrow> (string \<times> nat) option" where
  "utf16_literal_to_utf8 inp =
     (if length inp < 6 then None
      else let first_code = parse_hex4 (drop 2 inp)
           in if 0xDC00 \<le> first_code \<and> first_code \<le> 0xDFFF then None
              else if 0xD800 \<le> first_code \<and> first_code \<le> 0xDBFF
              then (let second = drop 6 inp
                    in if length second < 6 then None
                       else if second ! 0 \<noteq> CHR 0x5C \<or> second ! 1 \<noteq> CHR ''u'' then None
                       else let second_code = parse_hex4 (drop 2 second)
                            in if second_code < 0xDC00 \<or> 0xDFFF < second_code then None
                               else map_option (\<lambda>out. (out, 12))
                                      (utf8_encode (0x10000 + (push_bit 10 (first_code AND 0x3FF) OR
                                                               (second_code AND 0x3FF)))))
              else map_option (\<lambda>out. (out, 6)) (utf8_encode first_code))"

text \<open>The body of a literal up to its closing quote, and what follows the quote.\<close>

fun string_body :: "string \<Rightarrow> (string \<times> string) option" where
  "string_body [] = None"
| "string_body (c # cs) =
     (if c = CHR 0x22 then Some ([], cs)
      else if c = CHR 0x5C
      then (case cs of [] \<Rightarrow> None
            | d # ds \<Rightarrow> map_option (\<lambda>(b, r). (c # d # b, r)) (string_body ds))
      else map_option (\<lambda>(b, r). (c # b, r)) (string_body cs))"

definition simple_escape :: "char \<Rightarrow> char option" where
  "simple_escape c =
     (if c = CHR ''b'' then Some (CHR 0x08)
      else if c = CHR ''f'' then Some (CHR 0x0C)
      else if c = CHR ''n'' then Some (CHR 0x0A)
      else if c = CHR ''r'' then Some (CHR 0x0D)
      else if c = CHR ''t'' then Some (CHR 0x09)
      else if c = CHR 0x22 \<or> c = CHR 0x5C \<or> c = CHR ''/'' then Some c
      else None)"

text \<open>
  The copy loop. A \<open>\u\<close> sequence with a non-hexadecimal digit is taken as code point 0 and may
  swallow the first half of an escape pair, so a backslash can be the last character: the
  loop then reads the closing quote behind the body.
\<close>

fun unescape :: "string \<Rightarrow> string option" where
  "unescape [] = Some []"
| "unescape (c # cs) =
     (if c \<noteq> CHR 0x5C then map_option (\<lambda>out. c # out) (unescape cs)
      else (case cs of
              [] \<Rightarrow> Some [CHR 0x22]
            | d # ds \<Rightarrow>
                if d = CHR ''u''
                then (case utf16_literal_to_utf8 (c # cs) of
                        None \<Rightarrow> None
                      | Some (out, k) \<Rightarrow> map_option (\<lambda>out'. out @ out') (unescape (drop (k - 1) cs)))
                else (case simple_escape d of
                        None \<Rightarrow> None
                      | Some e \<Rightarrow> map_option (\<lambda>out. e # out) (unescape ds))))"

text \<open>The text and the rest; a written NUL ends the C string.\<close>

definition parse_string :: "string \<Rightarrow> (string \<times> string) option" where
  "parse_string s =
     (case s of
        [] \<Rightarrow> None
      | c # cs \<Rightarrow>
          if c \<noteq> CHR 0x22 then None
          else (case string_body cs of
                  None \<Rightarrow> None
                | Some (body, rest) \<Rightarrow>
                    (case unescape body of
                       None \<Rightarrow> None
                     | Some out \<Rightarrow> Some (takeWhile (\<lambda>c. c \<noteq> CHR 0x00) out, rest))))"

section \<open>Values\<close>

definition CJSON_NESTING_LIMIT :: nat where
  "CJSON_NESTING_LIMIT = 1000"

definition buffer_skip_whitespace :: "string \<Rightarrow> string" where
  "buffer_skip_whitespace s = dropWhile (\<lambda>c. of_char c \<le> (32 :: nat)) s"

definition at_char :: "char \<Rightarrow> string \<Rightarrow> bool" where
  "at_char c s \<longleftrightarrow> (case s of [] \<Rightarrow> False | d # _ \<Rightarrow> d = c)"

definition starts_with :: "string \<Rightarrow> string \<Rightarrow> bool" where
  "starts_with p s \<longleftrightarrow> take (length p) s = p"

primrec array_loop :: "(string \<Rightarrow> (cJSON \<times> string) option) \<Rightarrow> nat \<Rightarrow> string \<Rightarrow> (cJSON list \<times> string) option" where
  "array_loop value_at 0 s = None"
| "array_loop value_at (Suc n) s =
     (case value_at (buffer_skip_whitespace s) of
        None \<Rightarrow> None
      | Some (item, r) \<Rightarrow>
          let r' = buffer_skip_whitespace r
          in if at_char CHR '','' r'
             then map_option (\<lambda>(items, r''). (item # items, r'')) (array_loop value_at n (tl r'))
             else Some ([item], r'))"

primrec object_loop :: "(string \<Rightarrow> (cJSON \<times> string) option) \<Rightarrow> nat \<Rightarrow> string \<Rightarrow> (cJSON list \<times> string) option" where
  "object_loop value_at 0 s = None"
| "object_loop value_at (Suc n) s =
     (case parse_string (buffer_skip_whitespace s) of
        None \<Rightarrow> None
      | Some (name, r1) \<Rightarrow>
          let r2 = buffer_skip_whitespace r1
          in if \<not> at_char CHR '':'' r2 then None
             else (case value_at (buffer_skip_whitespace (tl r2)) of
                     None \<Rightarrow> None
                   | Some (item, r3) \<Rightarrow>
                       let r4 = buffer_skip_whitespace r3
                       in if at_char CHR '','' r4
                          then map_option (\<lambda>(items, r''). (set_name name item # items, r''))
                                 (object_loop value_at n (tl r4))
                          else Some ([set_name name item], r4)))"

definition parse_array :: "(nat \<Rightarrow> string \<Rightarrow> (cJSON \<times> string) option) \<Rightarrow> nat \<Rightarrow> string \<Rightarrow> (cJSON \<times> string) option" where
  "parse_array value_at depth s =
     (if depth \<ge> CJSON_NESTING_LIMIT then None
      else if \<not> at_char CHR ''['' s then None
      else let r = buffer_skip_whitespace (tl s)
           in if at_char CHR '']'' r then Some (set_type cJSON_Array cJSON_New_Item, tl r)
              else (case array_loop (value_at (Suc depth)) (Suc (length r)) r of
                      None \<Rightarrow> None
                    | Some (head, r') \<Rightarrow>
                        if at_char CHR '']'' r'
                        then Some (set_child head (set_type cJSON_Array cJSON_New_Item), tl r')
                        else None))"

definition parse_object :: "(nat \<Rightarrow> string \<Rightarrow> (cJSON \<times> string) option) \<Rightarrow> nat \<Rightarrow> string \<Rightarrow> (cJSON \<times> string) option" where
  "parse_object value_at depth s =
     (if depth \<ge> CJSON_NESTING_LIMIT then None
      else if \<not> at_char CHR ''{'' s then None
      else let r = buffer_skip_whitespace (tl s)
           in if at_char CHR ''}'' r then Some (set_type cJSON_Object cJSON_New_Item, tl r)
              else (case object_loop (value_at (Suc depth)) (Suc (length r)) r of
                      None \<Rightarrow> None
                    | Some (head, r') \<Rightarrow>
                        if at_char CHR ''}'' r'
                        then Some (set_child head (set_type cJSON_Object cJSON_New_Item), tl r')
                        else None))"

primrec parse_value :: "nat \<Rightarrow> nat \<Rightarrow> string \<Rightarrow> (cJSON \<times> string) option" where
  "parse_value 0 = (\<lambda>depth s. None)"
| "parse_value (Suc n) = (\<lambda>depth s.
     if starts_with ''null'' s then Some (set_type cJSON_NULL cJSON_New_Item, drop 4 s)
     else if starts_with ''false'' s then Some (set_type cJSON_False cJSON_New_Item, drop 5 s)
     else if starts_with ''true'' s then Some (CJSON cJSON_True None 1 (Fin 0) None [], drop 4 s)
     else if at_char CHR 0x22 s
     then map_option (\<lambda>(v, r). (set_valuestring v (set_type cJSON_String cJSON_New_Item), r)) (parse_string s)
     else if s \<noteq> [] \<and> (hd s = CHR ''-'' \<or> is_digit (hd s)) then parse_number s
     else if at_char CHR ''['' s then parse_array (parse_value n) depth s
     else if at_char CHR ''{'' s then parse_object (parse_value n) depth s
     else None)"

definition skip_utf8_bom :: "string \<Rightarrow> string" where
  "skip_utf8_bom s =
     (if 4 \<le> length s \<and> starts_with [CHR 0xEF, CHR 0xBB, CHR 0xBF] s then drop 3 s else s)"

definition cJSON_ParseWithOpts :: "string \<Rightarrow> bool \<Rightarrow> (cJSON \<times> string) option" where
  "cJSON_ParseWithOpts s require_null_terminated =
     (case parse_value (Suc CJSON_NESTING_LIMIT) 0 (buffer_skip_whitespace (skip_utf8_bom s)) of
        None \<Rightarrow> None
      | Some (item, r) \<Rightarrow>
          if require_null_terminated
          then (let r' = buffer_skip_whitespace r in if r' = [] then Some (item, r') else None)
          else Some (item, r))"

definition cJSON_Parse :: "string \<Rightarrow> cJSON option" where
  "cJSON_Parse s = map_option fst (cJSON_ParseWithOpts s False)"

section \<open>Every parser consumes input\<close>

lemma length_dropWhile: "length (dropWhile P xs) \<le> length xs"
  by (induction xs) auto

lemma string_body_length: "string_body cs = Some (b, r) \<Longrightarrow> length r < length cs"
proof (induction cs arbitrary: b rule: string_body.induct)
  case (2 c cs)
  then show ?case
    by (auto split: if_splits list.splits) fastforce+
qed simp

lemma parse_string_length: "parse_string s = Some (v, r) \<Longrightarrow> length r < length s"
  by (auto simp: parse_string_def dest!: string_body_length split: list.splits if_splits option.splits)

lemma scan_sign_length: "scan_sign cs = (b, r) \<Longrightarrow> length r \<le> length cs"
  by (auto simp: scan_sign_def split: list.splits if_splits)

lemma scan_exponent_length: "scan_exponent cs = (e, r) \<Longrightarrow> length r \<le> length cs"
proof (cases cs)
  case (Cons c s)
  obtain neg r1 where sg: "scan_sign s = (neg, r1)" by fastforce
  have "length (dropWhile is_digit r1) \<le> Suc (length s)"
    using scan_sign_length [OF sg] length_dropWhile [of is_digit r1] by linarith
  moreover assume "scan_exponent cs = (e, r)"
  ultimately show ?thesis
    using Cons sg by (auto simp: scan_exponent_def Let_def split: if_splits)
qed (simp add: scan_exponent_def)

lemma length_takeWhile_dropWhile: "length xs = length (takeWhile P xs) + length (dropWhile P xs)"
  by (metis length_append takeWhile_dropWhile_id)

lemma scan_fraction_length: "scan_fraction cs = (fs, r) \<Longrightarrow> length fs + length r \<le> length cs"
  using length_takeWhile_dropWhile [of "tl cs" is_digit]
  by (cases cs) (auto simp: scan_fraction_def split: if_splits)

lemma strtod_length:
  assumes "strtod cs = Some (d, r)"
  shows "length r < length cs"
proof -
  obtain neg r0 where sg: "scan_sign cs = (neg, r0)" by fastforce
  obtain fs r1 where fr: "scan_fraction (dropWhile is_digit r0) = (fs, r1)" by fastforce
  obtain e r2 where ex: "scan_exponent r1 = (e, r2)" by fastforce
  have "r = r2" "takeWhile is_digit r0 @ fs \<noteq> []"
    using assms by (auto simp: strtod_def Let_def sg fr ex split: if_splits)
  then have "0 < length (takeWhile is_digit r0) + length fs" by (simp flip: length_append)
  then show ?thesis
    using scan_sign_length [OF sg] scan_fraction_length [OF fr] scan_exponent_length [OF ex]
      length_takeWhile_dropWhile [of r0 is_digit] unfolding \<open>r = r2\<close> by linarith
qed

lemma parse_number_length: "parse_number s = Some (v, r) \<Longrightarrow> length r < length s"
proof -
  assume "parse_number s = Some (v, r)"
  then obtain d e where st: "strtod (takeWhile number_char (take 63 s)) = Some (d, e)"
    and r: "r = drop (length (takeWhile number_char (take 63 s)) - length e) s"
    by (auto simp: parse_number_def Let_def split: option.splits)
  have "length (takeWhile number_char (take 63 s)) \<le> length s"
    using length_takeWhile_le [of number_char "take 63 s"] by simp
  then show ?thesis using strtod_length [OF st] by (simp add: r)
qed

definition consumes :: "(string \<Rightarrow> ('a \<times> string) option) \<Rightarrow> bool" where
  "consumes p \<longleftrightarrow> (\<forall>s v r. p s = Some (v, r) \<longrightarrow> length r < length s)"

lemma consumesD: "consumes p \<Longrightarrow> p s = Some (v, r) \<Longrightarrow> length r < length s"
  by (auto simp: consumes_def)

lemma skip_length [simp]: "length (buffer_skip_whitespace s) \<le> length s"
  by (simp add: buffer_skip_whitespace_def length_dropWhile)

lemma at_char_tl: "at_char c s \<Longrightarrow> length (tl s) < length s"
  by (cases s) (auto simp: at_char_def)

lemma array_loop_length:
  assumes "consumes p"
  shows "array_loop p n s = Some (items, r) \<Longrightarrow> length r < length s"
proof (induction n arbitrary: s items r)
  case (Suc n)
  obtain item r1 where v: "p (buffer_skip_whitespace s) = Some (item, r1)"
    using Suc.prems by (auto split: option.splits)
  have "length (buffer_skip_whitespace r1) < length s"
    using consumesD [OF assms v] skip_length [of s] skip_length [of r1] by linarith
  then show ?case
    using Suc v at_char_tl [of "CHR '',''" "buffer_skip_whitespace r1"]
    by (auto simp: Let_def split: if_splits) fastforce
qed simp

lemma object_loop_length:
  assumes "consumes p"
  shows "object_loop p n s = Some (items, r) \<Longrightarrow> length r < length s"
proof (induction n arbitrary: s items r)
  case (Suc n)
  obtain name r1 where nm: "parse_string (buffer_skip_whitespace s) = Some (name, r1)"
    and colon: "at_char CHR '':'' (buffer_skip_whitespace r1)"
    using Suc.prems by (auto simp: Let_def split: option.splits if_splits)
  then obtain item r3 where v: "p (buffer_skip_whitespace (tl (buffer_skip_whitespace r1))) = Some (item, r3)"
    using Suc.prems by (auto simp: Let_def split: option.splits)
  have "length r1 < length s"
    using parse_string_length [OF nm] skip_length [of s] by linarith
  moreover have "length r3 < length r1"
    using consumesD [OF assms v] skip_length [of "tl (buffer_skip_whitespace r1)"] skip_length [of r1]
      at_char_tl [OF colon] by linarith
  ultimately have "length (buffer_skip_whitespace r3) < length s"
    using skip_length [of r3] by linarith
  then show ?case
    using Suc nm colon v at_char_tl [of "CHR '',''" "buffer_skip_whitespace r3"]
    by (auto simp: Let_def split: if_splits) fastforce
qed simp

lemma parse_array_consumes:
  assumes p: "\<And>d. consumes (p d)"
  shows "consumes (parse_array p depth)"
  unfolding consumes_def
proof (intro allI impI)
  fix s v r
  let ?r = "buffer_skip_whitespace (tl s)"
  assume res: "parse_array p depth s = Some (v, r)"
  then have "at_char CHR ''['' s" by (auto simp: parse_array_def split: if_splits)
  then have s: "length ?r < length s"
    using at_char_tl [of _ s] skip_length [of "tl s"] by (metis le_less_trans)
  from res consider "at_char CHR '']'' ?r" "r = tl ?r"
    | head r' where "array_loop (p (Suc depth)) (Suc (length ?r)) ?r = Some (head, r')"
        "at_char CHR '']'' r'" "r = tl r'"
    by (auto simp: parse_array_def Let_def simp del: array_loop.simps split: if_splits option.splits)
  then show "length r < length s"
  proof cases
    case 1
    then show ?thesis using s at_char_tl [of _ ?r] by (metis less_trans)
  next
    case (2 head r')
    then show ?thesis using s at_char_tl [of _ r'] array_loop_length [OF p] by (metis less_trans)
  qed
qed

lemma parse_object_consumes:
  assumes p: "\<And>d. consumes (p d)"
  shows "consumes (parse_object p depth)"
  unfolding consumes_def
proof (intro allI impI)
  fix s v r
  let ?r = "buffer_skip_whitespace (tl s)"
  assume res: "parse_object p depth s = Some (v, r)"
  then have "at_char CHR ''{'' s" by (auto simp: parse_object_def split: if_splits)
  then have s: "length ?r < length s"
    using at_char_tl [of _ s] skip_length [of "tl s"] by (metis le_less_trans)
  from res consider "at_char CHR ''}'' ?r" "r = tl ?r"
    | head r' where "object_loop (p (Suc depth)) (Suc (length ?r)) ?r = Some (head, r')"
        "at_char CHR ''}'' r'" "r = tl r'"
    by (auto simp: parse_object_def Let_def simp del: object_loop.simps split: if_splits option.splits)
  then show "length r < length s"
  proof cases
    case 1
    then show ?thesis using s at_char_tl [of _ ?r] by (metis less_trans)
  next
    case (2 head r')
    then show ?thesis using s at_char_tl [of _ r'] object_loop_length [OF p] by (metis less_trans)
  qed
qed

lemma starts_with_length: "starts_with p s \<Longrightarrow> length p \<le> length s"
  by (metis length_take min.cobounded1 starts_with_def)

lemma parse_value_consumes: "consumes (parse_value n depth)"
proof (induction n arbitrary: depth)
  case 0
  then show ?case by (simp add: consumes_def)
next
  case (Suc n)
  show ?case
    unfolding consumes_def
  proof (intro allI impI)
    fix s v r
    assume "parse_value (Suc n) depth s = Some (v, r)"
    then consider "starts_with ''null'' s" "r = drop 4 s" | "starts_with ''false'' s" "r = drop 5 s"
      | "starts_with ''true'' s" "r = drop 4 s" | u where "parse_string s = Some (u, r)"
      | "parse_number s = Some (v, r)" | "parse_array (parse_value n) depth s = Some (v, r)"
      | "parse_object (parse_value n) depth s = Some (v, r)"
      by (auto split: if_splits)
    then show "length r < length s"
      using parse_array_consumes [of "parse_value n", OF Suc.IH]
        parse_object_consumes [of "parse_value n", OF Suc.IH]
      by cases (auto simp: consumes_def dest: starts_with_length parse_string_length parse_number_length)
  qed
qed

section \<open>The bounds are never met\<close>

lemma array_loop_fuel:
  assumes "consumes p"
  shows "length s < m \<Longrightarrow> length s < n \<Longrightarrow> array_loop p m s = array_loop p n s"
proof (induction m arbitrary: n s)
  case (Suc m)
  then obtain k where n: "n = Suc k" by (cases n) auto
  show ?case
  proof (cases "p (buffer_skip_whitespace s)")
    case (Some ir)
    then obtain item r where v: "p (buffer_skip_whitespace s) = Some (item, r)" by (cases ir) auto
    have "length (buffer_skip_whitespace r) < length s"
      using consumesD [OF assms v] skip_length [of s] skip_length [of r] by linarith
    then have "at_char c (buffer_skip_whitespace r) \<Longrightarrow>
        array_loop p m (tl (buffer_skip_whitespace r)) = array_loop p k (tl (buffer_skip_whitespace r))" for c
      using Suc n at_char_tl [of c "buffer_skip_whitespace r"] by (intro Suc.IH) auto
    then show ?thesis using n v by (simp add: Let_def)
  qed (simp add: n)
qed simp

lemma object_loop_fuel:
  assumes "consumes p"
  shows "length s < m \<Longrightarrow> length s < n \<Longrightarrow> object_loop p m s = object_loop p n s"
proof (induction m arbitrary: n s)
  case (Suc m)
  then obtain k where n: "n = Suc k" by (cases n) auto
  show ?case
  proof (cases "parse_string (buffer_skip_whitespace s)")
    case (Some nr)
    then obtain name r1 where nm: "parse_string (buffer_skip_whitespace s) = Some (name, r1)" by (cases nr) auto
    let ?t = "buffer_skip_whitespace (tl (buffer_skip_whitespace r1))"
    have t: "length ?t < length s"
      using parse_string_length [OF nm] skip_length [of s] skip_length [of r1]
        skip_length [of "tl (buffer_skip_whitespace r1)"] length_tl [of "buffer_skip_whitespace r1"] by linarith
    show ?thesis
    proof (cases "p ?t")
      case (Some ir)
      then obtain item r where v: "p ?t = Some (item, r)" by (cases ir) auto
      have "length (buffer_skip_whitespace r) < length s"
        using consumesD [OF assms v] t skip_length [of r] by linarith
      then have "at_char c (buffer_skip_whitespace r) \<Longrightarrow>
          object_loop p m (tl (buffer_skip_whitespace r)) = object_loop p k (tl (buffer_skip_whitespace r))" for c
        using Suc n at_char_tl [of c "buffer_skip_whitespace r"] by (intro Suc.IH) auto
      then show ?thesis using n nm v by (simp add: Let_def)
    qed (simp add: n nm Let_def)
  qed (simp add: n)
qed simp

lemma parse_array_cong:
  "(depth < CJSON_NESTING_LIMIT \<Longrightarrow> p (Suc depth) = q (Suc depth)) \<Longrightarrow> parse_array p depth = parse_array q depth"
  by (cases "depth < CJSON_NESTING_LIMIT"; rule ext; simp add: parse_array_def Let_def del: array_loop.simps)

lemma parse_object_cong:
  "(depth < CJSON_NESTING_LIMIT \<Longrightarrow> p (Suc depth) = q (Suc depth)) \<Longrightarrow> parse_object p depth = parse_object q depth"
  by (cases "depth < CJSON_NESTING_LIMIT"; rule ext; simp add: parse_object_def Let_def del: object_loop.simps)

lemma parse_fuel:
  "CJSON_NESTING_LIMIT < m + depth \<Longrightarrow> CJSON_NESTING_LIMIT < n + depth \<Longrightarrow> 0 < m \<Longrightarrow> 0 < n \<Longrightarrow>
   parse_value m depth = parse_value n depth"
proof (induction m arbitrary: n depth)
  case (Suc m)
  then obtain k where n: "n = Suc k" by (cases n) auto
  have "parse_value m (Suc depth) = parse_value k (Suc depth)" if "depth < CJSON_NESTING_LIMIT"
    using Suc.prems n that by (intro Suc.IH) auto
  then have "parse_array (parse_value m) depth = parse_array (parse_value k) depth"
    "parse_object (parse_value m) depth = parse_object (parse_value k) depth"
    by (auto intro: parse_array_cong parse_object_cong)
  then show ?case unfolding n parse_value.simps by (rule_tac ext) (simp only:)
qed simp

end
