(* ===== verification/Json_Print.thy ===== *)
theory Json_Print
  imports Json
begin

text \<open>
  The printer of \<open>components/cjson/cJSON/cJSON.c\<close>, in the configuration of \<open>app/sdkconfig\<close>
  (\<open>CJSON_SPRINTF_FLOAT\<close> is 0): the growing output buffer with the space each function asks
  \<open>ensure\<close> for and the bytes it then writes. A write past the space that is there, and a
  conversion C leaves undefined, is \<open>PUndef\<close>. \<open>render\<close> is the text the printer is meant to
  produce; the printer writes exactly that and stays within its buffer.
\<close>

section \<open>The output buffer\<close>

datatype 'a presult = POk 'a | PFail | PUndef

fun pbind :: "'a presult \<Rightarrow> ('a \<Rightarrow> 'b presult) \<Rightarrow> 'b presult" where
  "pbind (POk a) f = f a"
| "pbind PFail f = PFail"
| "pbind PUndef f = PUndef"

record printbuffer =
  ptext :: string
  plength :: nat
  noalloc :: bool

definition ensure :: "nat \<Rightarrow> printbuffer \<Rightarrow> printbuffer option" where
  "ensure needed p =
     (let offset = length (ptext p); imax = nat INT_MAX; total = needed + offset + 1
      in if plength p > 0 \<and> offset \<ge> plength p then None
         else if needed > imax then None
         else if total \<le> plength p then Some p
         else if noalloc p then None
         else if total > imax div 2 then (if total \<le> imax then Some (p\<lparr>plength := imax\<rparr>) else None)
         else Some (p\<lparr>plength := total * 2\<rparr>))"

text \<open>Ask for \<open>needed\<close> bytes, write \<open>written\<close> bytes of which \<open>s\<close> stays before the terminator.\<close>

definition put :: "nat \<Rightarrow> nat \<Rightarrow> string \<Rightarrow> printbuffer \<Rightarrow> printbuffer presult" where
  "put needed written s p =
     (case ensure needed p of
        None \<Rightarrow> PFail
      | Some p' \<Rightarrow>
          if length (ptext p) + written > plength p' then PUndef
          else POk (p'\<lparr>ptext := ptext p @ s\<rparr>))"

section \<open>Numbers\<close>

definition show_int :: "int \<Rightarrow> string" where
  "show_int n = (if n < 0 then ''-'' @ show_nat (nat (- n)) else show_nat (nat n))"

definition dsub :: "double \<Rightarrow> double \<Rightarrow> double" where
  "dsub a b = (case (a, b) of (Fin x, Fin y) \<Rightarrow> rnd (x - y) | _ \<Rightarrow> a)"

definition dadd :: "double \<Rightarrow> double \<Rightarrow> double" where
  "dadd a b = (case (a, b) of (Fin x, Fin y) \<Rightarrow> rnd (x + y) | _ \<Rightarrow> a)"

definition dmul :: "double \<Rightarrow> double \<Rightarrow> double" where
  "dmul a b = (case (a, b) of (Fin x, Fin y) \<Rightarrow> rnd (x * y) | _ \<Rightarrow> a)"

fun fraction_digits :: "nat \<Rightarrow> double \<Rightarrow> string" where
  "fraction_digits 0 d = []"
| "fraction_digits (Suc precision) d =
     (if double_le d (Fin 0) then []
      else let d' = dmul d (Fin 10); tmp = (case d' of Fin x \<Rightarrow> trunc x | _ \<Rightarrow> 0)
           in char_of (nat tmp + 48) # fraction_digits precision (dsub d' (Fin (of_int tmp))))"

text \<open>The loop that drops trailing zeros.\<close>

definition strip_zeros :: "string \<Rightarrow> string" where
  "strip_zeros s = rev (dropWhile (\<lambda>c. c = CHR ''0'') (rev s))"

definition number_text :: "double \<Rightarrow> string presult" where
  "number_text d =
     (case d of
        Infty _ \<Rightarrow> POk ''null''
      | Fin x \<Rightarrow>
          let d32 = trunc x
          in if d32 < INT_MIN \<or> INT_MAX < d32 then PUndef
             else if of_int d32 = x then POk (show_int d32)
             else let d' = (if x < 0 then dadd (dsub (Fin (of_int d32)) d) (rnd (1 / 10 ^ 14))
                            else dsub d (Fin (of_int d32)));
                      buf = show_int d32 @ ''.'' @ fraction_digits 14 d'
                  in if length buf > 26 \<or> length (strip_zeros buf) > 25 then PUndef
                     else POk (strip_zeros buf))"

definition print_number :: "cJSON \<Rightarrow> printbuffer \<Rightarrow> printbuffer presult" where
  "print_number item p =
     pbind (number_text (valuedouble item)) (\<lambda>s.
       if length s > 25 then PFail else put (length s + 1) (length s + 1) s p)"

section \<open>Strings\<close>

definition hex_char :: "nat \<Rightarrow> char" where
  "hex_char n = char_of (if n < 10 then 48 + n else 87 + n)"

definition escape_char :: "char \<Rightarrow> string" where
  "escape_char c =
     (let n = (of_char c :: nat)
      in if c = CHR 0x5C \<or> c = CHR 0x22 then [CHR 0x5C, c]
         else if n > 31 then [c]
         else if n = 8 then [CHR 0x5C, CHR ''b'']
         else if n = 12 then [CHR 0x5C, CHR ''f'']
         else if n = 10 then [CHR 0x5C, CHR ''n'']
         else if n = 13 then [CHR 0x5C, CHR ''r'']
         else if n = 9 then [CHR 0x5C, CHR ''t'']
         else [CHR 0x5C, CHR ''u'', CHR ''0'', CHR ''0'', hex_char (n div 16), hex_char (n mod 16)])"

fun escape_characters :: "string \<Rightarrow> nat" where
  "escape_characters [] = 0"
| "escape_characters (c # cs) =
     (if c = CHR 0x22 \<or> c = CHR 0x5C \<or> of_char c \<in> {8, 12, 10, 13, 9 :: nat} then 1
      else if of_char c < (32 :: nat) then 5 else 0) + escape_characters cs"

definition quote :: "string \<Rightarrow> string" where
  "quote s = CHR 0x22 # concat (map escape_char s) @ [CHR 0x22]"

definition print_string_ptr :: "string option \<Rightarrow> printbuffer \<Rightarrow> printbuffer presult" where
  "print_string_ptr inp p =
     (case inp of
        None \<Rightarrow> put 3 3 [CHR 0x22, CHR 0x22] p
      | Some s \<Rightarrow>
          let output_length = length s + escape_characters s
          in if escape_characters s = 0
             then put (output_length + 3) (output_length + 3) (CHR 0x22 # s @ [CHR 0x22]) p
             else put (output_length + 3) (length (quote s) + 1) (quote s) p)"

section \<open>Values\<close>

fun print_value :: "bool \<Rightarrow> nat \<Rightarrow> cJSON \<Rightarrow> printbuffer \<Rightarrow> printbuffer presult"
  and print_array :: "bool \<Rightarrow> nat \<Rightarrow> cJSON list \<Rightarrow> printbuffer \<Rightarrow> printbuffer presult"
  and print_object :: "bool \<Rightarrow> nat \<Rightarrow> cJSON list \<Rightarrow> printbuffer \<Rightarrow> printbuffer presult" where
  "print_value fmt depth (CJSON ty vs vi vd nm ch) p =
     (case ty of
        cJSON_NULL \<Rightarrow> put 5 5 ''null'' p
      | cJSON_False \<Rightarrow> put 6 6 ''false'' p
      | cJSON_True \<Rightarrow> put 5 5 ''true'' p
      | cJSON_Number \<Rightarrow> print_number (CJSON ty vs vi vd nm ch) p
      | cJSON_Raw \<Rightarrow> (case vs of None \<Rightarrow> PFail | Some s \<Rightarrow> put (length s + 1) (length s + 1) s p)
      | cJSON_String \<Rightarrow> print_string_ptr vs p
      | cJSON_Array \<Rightarrow>
          pbind (put 1 1 ''['' p) (\<lambda>p. pbind (print_array fmt (Suc depth) ch p) (put 2 2 '']''))
      | cJSON_Object \<Rightarrow>
          pbind (put (if fmt then 3 else 2) (if fmt then 2 else 1) (if fmt then ''{'' @ [CHR 0x0A] else ''{'') p)
            (\<lambda>p. pbind (print_object fmt (Suc depth) ch p)
               (put (if fmt then depth + 2 else 2) (if fmt then depth + 2 else 2)
                  (if fmt then replicate depth (CHR 0x09) @ ''}'' else ''}'')))
      | cJSON_Invalid \<Rightarrow> PFail)"
| "print_array fmt depth [] p = POk p"
| "print_array fmt depth (e # es) p =
     pbind (print_value fmt depth e p) (\<lambda>p.
       if es = [] then POk p
       else pbind (put (if fmt then 3 else 2) (if fmt then 3 else 2) (if fmt then '', '' else '','') p)
              (print_array fmt depth es))"
| "print_object fmt depth [] p = POk p"
| "print_object fmt depth (e # es) p =
     pbind (if fmt then put depth depth (replicate depth (CHR 0x09)) p else POk p) (\<lambda>p.
     pbind (print_string_ptr (jname e) p) (\<lambda>p.
     pbind (put (if fmt then 2 else 1) (if fmt then 2 else 1) (if fmt then '':'' @ [CHR 0x09] else '':'') p) (\<lambda>p.
     pbind (print_value fmt depth e p) (\<lambda>p.
     let sep = (if es = [] then [] else '','') @ (if fmt then [CHR 0x0A] else [])
     in pbind (put (length sep + 1) (length sep + 1) sep p) (print_object fmt depth es)))))"

definition print :: "bool \<Rightarrow> cJSON \<Rightarrow> string presult" where
  "print fmt item =
     pbind (print_value fmt 0 item \<lparr>ptext = [], plength = 256, noalloc = False\<rparr>) (\<lambda>p. POk (ptext p))"

definition cJSON_PrintUnformatted :: "cJSON \<Rightarrow> string presult" where
  "cJSON_PrintUnformatted item = print False item"

section \<open>The text the printer is meant to produce\<close>

definition quote_opt :: "string option \<Rightarrow> string" where
  "quote_opt s = quote (case s of None \<Rightarrow> [] | Some t \<Rightarrow> t)"

fun render :: "bool \<Rightarrow> nat \<Rightarrow> cJSON \<Rightarrow> string"
  and render_elements :: "bool \<Rightarrow> nat \<Rightarrow> cJSON list \<Rightarrow> string"
  and render_members :: "bool \<Rightarrow> nat \<Rightarrow> cJSON list \<Rightarrow> string" where
  "render fmt depth (CJSON ty vs vi vd nm ch) =
     (case ty of
        cJSON_NULL \<Rightarrow> ''null''
      | cJSON_False \<Rightarrow> ''false''
      | cJSON_True \<Rightarrow> ''true''
      | cJSON_Number \<Rightarrow> (case vd of Fin x \<Rightarrow> show_int (trunc x) | Infty _ \<Rightarrow> ''null'')
      | cJSON_Raw \<Rightarrow> the vs
      | cJSON_String \<Rightarrow> quote_opt vs
      | cJSON_Array \<Rightarrow> ''['' @ render_elements fmt (Suc depth) ch @ '']''
      | cJSON_Object \<Rightarrow>
          (if fmt then ''{'' @ [CHR 0x0A] else ''{'') @ render_members fmt (Suc depth) ch @
          (if fmt then replicate depth (CHR 0x09) @ ''}'' else ''}'')
      | cJSON_Invalid \<Rightarrow> [])"
| "render_elements fmt depth [] = []"
| "render_elements fmt depth (e # es) =
     render fmt depth e @
     (if es = [] then [] else (if fmt then '', '' else '','') @ render_elements fmt depth es)"
| "render_members fmt depth [] = []"
| "render_members fmt depth (e # es) =
     (if fmt then replicate depth (CHR 0x09) else []) @ quote_opt (jname e) @
     (if fmt then '':'' @ [CHR 0x09] else '':'') @ render fmt depth e @
     (if es = [] then [] else '','') @ (if fmt then [CHR 0x0A] else []) @ render_members fmt depth es"

text \<open>Items whose numbers are C integers or infinite.\<close>

fun printable :: "cJSON \<Rightarrow> bool" where
  "printable (CJSON ty vs vi vd nm ch) \<longleftrightarrow>
     (case ty of
        cJSON_Invalid \<Rightarrow> False
      | cJSON_Number \<Rightarrow>
          (case vd of Fin x \<Rightarrow> of_int (trunc x) = x \<and> INT_MIN \<le> trunc x \<and> trunc x \<le> INT_MAX | Infty _ \<Rightarrow> True)
      | cJSON_Raw \<Rightarrow> vs \<noteq> None
      | cJSON_Array \<Rightarrow> list_all printable ch
      | cJSON_Object \<Rightarrow> list_all printable ch
      | _ \<Rightarrow> True)"

section \<open>Printing writes that text within the buffer\<close>

lemma length_escape_char:
  "length (escape_char c) = Suc (if c = CHR 0x22 \<or> c = CHR 0x5C \<or> of_char c \<in> {8, 12, 10, 13, 9 :: nat} then 1
      else if of_char c < (32 :: nat) then 5 else 0)"
  by (auto simp: escape_char_def Let_def)

lemma length_quote: "length (quote s) = length s + escape_characters s + 2"
proof -
  have "length (concat (map escape_char s)) = length s + escape_characters s"
    by (induction s) (simp_all add: length_escape_char)
  then show ?thesis by (simp add: quote_def)
qed

lemma quote_plain: "escape_characters s = 0 \<Longrightarrow> quote s = CHR 0x22 # s @ [CHR 0x22]"
proof -
  assume "escape_characters s = 0"
  then have "concat (map escape_char s) = s"
    by (induction s) (auto simp: escape_char_def Let_def split: if_splits)
  then show ?thesis by (simp add: quote_def)
qed

lemma print_string_ptr_eq:
  "print_string_ptr s p = put (length (quote_opt s) + 1) (length (quote_opt s) + 1) (quote_opt s) p"
proof (cases s)
  case None
  then show ?thesis by (simp add: print_string_ptr_def quote_opt_def quote_def eval_nat_numeral)
next
  case (Some t)
  then show ?thesis
    using quote_plain [of t] by (simp add: print_string_ptr_def quote_opt_def Let_def length_quote eval_nat_numeral)
qed

definition buffer_ok :: "printbuffer \<Rightarrow> bool" where
  "buffer_ok p \<longleftrightarrow> length (ptext p) < plength p \<and> \<not> noalloc p"

definition PRINT_LIMIT :: nat where
  "PRINT_LIMIT = 2 ^ 29"

lemma put_ok:
  assumes "buffer_ok p" "length s \<le> needed" "needed \<le> length s + 1" "written \<le> needed + 1"
    and "length (ptext p) + length s + 1 < PRINT_LIMIT"
  obtains p' where "put needed written s p = POk p'" "ptext p' = ptext p @ s" "buffer_ok p'"
proof -
  have imax: "nat INT_MAX = 2147483647" by (simp add: INT_MAX_def)
  have "needed + length (ptext p) + 1 \<le> 1073741823" "needed \<le> 2147483647"
    using assms(3,5) by (simp_all add: PRINT_LIMIT_def)
  then obtain p' where p': "ensure needed p = Some p'" "ptext p' = ptext p" "\<not> noalloc p'"
    "needed + length (ptext p) + 1 \<le> plength p'"
    using assms(1) unfolding ensure_def Let_def imax buffer_ok_def by (cases "needed + length (ptext p) + 1 \<le> plength p") auto
  show ?thesis
  proof
    show "put needed written s p = POk (p'\<lparr>ptext := ptext p @ s\<rparr>)"
      using p' assms(4) by (simp add: put_def)
    show "ptext (p'\<lparr>ptext := ptext p @ s\<rparr>) = ptext p @ s" by simp
    show "buffer_ok (p'\<lparr>ptext := ptext p @ s\<rparr>)"
      using p' assms(2) by (simp add: buffer_ok_def)
  qed
qed

text \<open>A printing step writes a text: the form in which the steps compose.\<close>

definition prints :: "(printbuffer \<Rightarrow> printbuffer presult) \<Rightarrow> string \<Rightarrow> bool" where
  "prints f s \<longleftrightarrow>
     (\<forall>p. buffer_ok p \<longrightarrow> length (ptext p) + length s + 1 < PRINT_LIMIT \<longrightarrow>
        (\<exists>p'. f p = POk p' \<and> ptext p' = ptext p @ s \<and> buffer_ok p'))"

lemma prints_put: "length s \<le> needed \<Longrightarrow> needed \<le> length s + 1 \<Longrightarrow> written \<le> needed + 1 \<Longrightarrow> prints (put needed written s) s"
  unfolding prints_def using put_ok by metis

lemma prints_POk: "prints POk []"
  by (simp add: prints_def)

lemma prints_bind:
  assumes "prints f s" "prints g t"
  shows "prints (\<lambda>p. pbind (f p) g) (s @ t)"
  unfolding prints_def
proof (intro allI impI)
  fix p
  assume p: "buffer_ok p" "length (ptext p) + length (s @ t) + 1 < PRINT_LIMIT"
  then have "length (ptext p) + length s + 1 < PRINT_LIMIT" by simp
  then obtain p' where f: "f p = POk p'" "ptext p' = ptext p @ s" "buffer_ok p'"
    using assms(1) p(1) unfolding prints_def by blast
  then obtain p'' where "g p' = POk p''" "ptext p'' = ptext p' @ t" "buffer_ok p''"
    using assms(2) p unfolding prints_def by (auto simp: add.assoc)
  then show "\<exists>p'. pbind (f p) g = POk p' \<and> ptext p' = ptext p @ s @ t \<and> buffer_ok p'"
    using f by simp
qed

lemma prints_string: "prints (print_string_ptr s) (quote_opt s)"
proof -
  have "print_string_ptr s = put (length (quote_opt s) + 1) (length (quote_opt s) + 1) (quote_opt s)"
    by (rule ext) (rule print_string_ptr_eq)
  then show ?thesis by (simp add: prints_put)
qed

lemma length_show_nat: "n < 10 ^ k \<Longrightarrow> 0 < k \<Longrightarrow> length (show_nat n) \<le> k"
proof (induction n arbitrary: k rule: show_nat.induct)
  case (1 n)
  show ?case
  proof (cases "n < 10")
    case True
    then show ?thesis using "1.prems" by (simp add: show_nat.simps [of n])
  next
    case False
    then have "1 < k" using "1.prems" by (cases k; cases "k - 1"; simp)
    then obtain j where j: "k = Suc j" "0 < j" by (cases k) auto
    then have "n div 10 < 10 ^ j" using "1.prems" by simp
    then have "length (show_nat (n div 10)) \<le> j" using "1.IH" False j by simp
    then show ?thesis using False j by (simp add: show_nat.simps [of n])
  qed
qed

lemma length_show_int: "INT_MIN \<le> n \<Longrightarrow> n \<le> INT_MAX \<Longrightarrow> length (show_int n) \<le> 11"
  using length_show_nat [of "nat (- n)" 10] length_show_nat [of "nat n" 10]
  by (cases "n < 0") (simp_all add: show_int_def INT_MIN_def INT_MAX_def nat_less_iff)

lemma prints_number:
  assumes "printable (CJSON cJSON_Number vs vi vd nm ch)"
  shows "prints (print_number (CJSON cJSON_Number vs vi vd nm ch)) (render fmt depth (CJSON cJSON_Number vs vi vd nm ch))"
proof (cases vd)
  case (Fin x)
  let ?s = "show_int (trunc x)"
  have x: "of_int (trunc x) = x" "INT_MIN \<le> trunc x" "trunc x \<le> INT_MAX" using assms Fin by auto
  have "print_number (CJSON cJSON_Number vs vi vd nm ch) = put (length ?s + 1) (length ?s + 1) ?s"
    using x length_show_int [OF x(2,3)]
    by (intro ext) (simp add: print_number_def number_text_def Fin Let_def)
  then show ?thesis using Fin by (simp add: prints_put)
next
  case (Infty b)
  have "print_number (CJSON cJSON_Number vs vi vd nm ch) = put 5 5 ''null''"
    by (rule ext) (simp add: print_number_def number_text_def Infty eval_nat_numeral)
  then show ?thesis using Infty by (simp add: prints_put)
qed

lemma prints_cong: "prints f s \<Longrightarrow> f = g \<Longrightarrow> s = t \<Longrightarrow> prints g t"
  by simp

lemma prints_all:
  shows "printable v \<Longrightarrow> prints (print_value fmt depth v) (render fmt depth v)"
    and "list_all printable es \<Longrightarrow> prints (print_array fmt depth es) (render_elements fmt depth es)"
    and "list_all printable es \<Longrightarrow> prints (print_object fmt depth es) (render_members fmt depth es)"
proof (induction fmt depth v and fmt depth es and fmt depth es
    rule: render_render_elements_render_members.induct)
  case (1 fmt depth ty vs vi vd nm ch)
  show ?case
  proof (cases ty)
    case cJSON_Number
    then show ?thesis using prints_number "1.prems" by simp
  next
    case cJSON_String
    then show ?thesis using prints_string [of vs] by (auto elim!: prints_cong)
  next
    case cJSON_Array
    then have ch: "prints (print_array fmt (Suc depth) ch) (render_elements fmt (Suc depth) ch)"
      using "1.IH"(1) "1.prems" by simp
    have "prints (\<lambda>p. pbind (put 1 1 ''['' p) (\<lambda>p. pbind (print_array fmt (Suc depth) ch p) (put 2 2 '']'')))
        (''['' @ render_elements fmt (Suc depth) ch @ '']'')"
      by (intro prints_bind prints_put ch) simp_all
    then show ?thesis using cJSON_Array by (auto elim!: prints_cong)
  next
    case cJSON_Object
    then have ch: "prints (print_object fmt (Suc depth) ch) (render_members fmt (Suc depth) ch)"
      using "1.IH"(2) "1.prems" by simp
    have "prints (\<lambda>p. pbind (put (if fmt then 3 else 2) (if fmt then 2 else 1) (if fmt then ''{'' @ [CHR 0x0A] else ''{'') p)
            (\<lambda>p. pbind (print_object fmt (Suc depth) ch p)
               (put (if fmt then depth + 2 else 2) (if fmt then depth + 2 else 2)
                  (if fmt then replicate depth (CHR 0x09) @ ''}'' else ''}''))))
        ((if fmt then ''{'' @ [CHR 0x0A] else ''{'') @ render_members fmt (Suc depth) ch @
          (if fmt then replicate depth (CHR 0x09) @ ''}'' else ''}''))"
      by (intro prints_bind prints_put ch) simp_all
    then show ?thesis using cJSON_Object by (auto elim!: prints_cong)
  next
    case cJSON_Raw
    then obtain s where "vs = Some s" using "1.prems" by auto
    then show ?thesis using cJSON_Raw prints_put [of s "length s + 1" "length s + 1"]
      by (auto elim!: prints_cong)
  next
    case cJSON_NULL
    then show ?thesis using prints_put [of "''null''" 5 5] by (auto elim!: prints_cong)
  next
    case cJSON_True
    then show ?thesis using prints_put [of "''true''" 5 5] by (auto elim!: prints_cong)
  next
    case cJSON_False
    then show ?thesis using prints_put [of "''false''" 6 6] by (auto elim!: prints_cong)
  next
    case cJSON_Invalid
    then show ?thesis using "1.prems" by simp
  qed
next
  case (2 fmt depth)
  then show ?case using prints_POk by (auto elim!: prints_cong)
next
  case (3 fmt depth e es)
  let ?sep = "if fmt then '', '' else '',''"
  have e: "prints (print_value fmt depth e) (render fmt depth e)" using "3" by simp
  show ?case
  proof (cases "es = []")
    case True
    then show ?thesis using prints_bind [OF e prints_POk] by (auto elim!: prints_cong)
  next
    case False
    then have es: "prints (print_array fmt depth es) (render_elements fmt depth es)" using "3" by simp
    have "prints (\<lambda>p. pbind (print_value fmt depth e p)
          (\<lambda>p. pbind (put (if fmt then 3 else 2) (if fmt then 3 else 2) ?sep p) (print_array fmt depth es)))
        (render fmt depth e @ ?sep @ render_elements fmt depth es)"
      by (intro prints_bind prints_put e es) simp_all
    then show ?thesis using False by (auto elim!: prints_cong)
  qed
next
  case (4 fmt depth)
  then show ?case using prints_POk by (auto elim!: prints_cong)
next
  case (5 fmt depth e es)
  let ?tabs = "if fmt then replicate depth (CHR 0x09) else []"
  let ?colon = "if fmt then '':'' @ [CHR 0x09] else '':''"
  let ?sep = "(if es = [] then [] else '','') @ (if fmt then [CHR 0x0A] else [])"
  have e: "prints (print_value fmt depth e) (render fmt depth e)"
    and es: "prints (print_object fmt depth es) (render_members fmt depth es)" using "5" by auto
  have tabs: "prints (\<lambda>p. if fmt then put depth depth (replicate depth (CHR 0x09)) p else POk p) ?tabs"
    using prints_put [of "replicate depth (CHR 0x09)" depth depth] prints_POk by simp
  have "prints (\<lambda>p. pbind (if fmt then put depth depth (replicate depth (CHR 0x09)) p else POk p) (\<lambda>p.
     pbind (print_string_ptr (jname e) p) (\<lambda>p.
     pbind (put (if fmt then 2 else 1) (if fmt then 2 else 1) ?colon p) (\<lambda>p.
     pbind (print_value fmt depth e p) (\<lambda>p.
     pbind (put (length ?sep + 1) (length ?sep + 1) ?sep p) (print_object fmt depth es))))))
     (?tabs @ quote_opt (jname e) @ ?colon @ render fmt depth e @ ?sep @ render_members fmt depth es)"
    by (intro prints_bind prints_put tabs prints_string e es) simp_all
  then show ?case by (rule prints_cong) (auto simp: Let_def)
qed

end
