(* ===== verification/Sha1.thy ===== *)
theory Sha1
  imports Prelude
begin

text \<open>
  SHA-1 as \<open>components/ssl/axtls/source/crypto/ssl_sha1.c\<close> computes it: a context that is fed byte
  by byte, compresses every full block, and pads at the end. It is shown to compute the
  digest that FIPS 180 defines on the padded message as a whole.
\<close>

section \<open>The program\<close>

record SHA1_CTX =
  Intermediate_Hash :: "u32 list"
  Length_Low :: u32
  Length_High :: u32
  Message_Block_Index :: nat
  Message_Block :: "u8 list"

definition SHA1CircularShift :: "nat \<Rightarrow> u32 \<Rightarrow> u32" where
  "SHA1CircularShift bits w = push_bit bits w OR drop_bit (32 - bits) w"

definition SHA1_Init :: "SHA1_CTX \<Rightarrow> SHA1_CTX" where
  "SHA1_Init ctx =
     ctx\<lparr>Length_Low := 0, Length_High := 0, Message_Block_Index := 0,
         Intermediate_Hash := [0x67452301, 0xEFCDAB89, 0x98BADCFE, 0x10325476, 0xC3D2E1F0]\<rparr>"

definition block_words :: "u8 list \<Rightarrow> u32 list" where
  "block_words b =
     map (\<lambda>t. push_bit 24 (ucast (b ! (t * 4))) OR push_bit 16 (ucast (b ! (t * 4 + 1))) OR
              push_bit 8 (ucast (b ! (t * 4 + 2))) OR ucast (b ! (t * 4 + 3))) [0..<16]"

fun extend_words :: "nat \<Rightarrow> u32 list \<Rightarrow> u32 list" where
  "extend_words 0 W = W"
| "extend_words (Suc n) W =
     (let t = length W
      in extend_words n
           (W @ [SHA1CircularShift 1 (W ! (t - 3) XOR W ! (t - 8) XOR W ! (t - 14) XOR W ! (t - 16))]))"

type_synonym sha_vars = "u32 \<times> u32 \<times> u32 \<times> u32 \<times> u32"

fun sha_step :: "(u32 \<Rightarrow> u32 \<Rightarrow> u32 \<Rightarrow> u32) \<Rightarrow> u32 \<Rightarrow> u32 \<Rightarrow> sha_vars \<Rightarrow> sha_vars" where
  "sha_step f k w (A, B, C, D, E) =
     (let temp = SHA1CircularShift 5 A + f B C D + E + w + k
      in (temp, A, SHA1CircularShift 30 B, C, D))"

definition sha_rounds :: "u32 list \<Rightarrow> sha_vars \<Rightarrow> sha_vars" where
  "sha_rounds W v0 =
     (let v1 = fold (\<lambda>t. sha_step (\<lambda>B C D. (B AND C) OR (NOT B AND D)) 0x5A827999 (W ! t)) [0..<20] v0;
          v2 = fold (\<lambda>t. sha_step (\<lambda>B C D. B XOR C XOR D) 0x6ED9EBA1 (W ! t)) [20..<40] v1;
          v3 = fold (\<lambda>t. sha_step (\<lambda>B C D. (B AND C) OR (B AND D) OR (C AND D)) 0x8F1BBCDC (W ! t)) [40..<60] v2
      in fold (\<lambda>t. sha_step (\<lambda>B C D. B XOR C XOR D) 0xCA62C1D6 (W ! t)) [60..<80] v3)"

definition SHA1ProcessMessageBlock :: "SHA1_CTX \<Rightarrow> SHA1_CTX" where
  "SHA1ProcessMessageBlock ctx =
     (let W = extend_words 64 (block_words (Message_Block ctx));
          H = Intermediate_Hash ctx;
          (A, B, C, D, E) = sha_rounds W (H ! 0, H ! 1, H ! 2, H ! 3, H ! 4)
      in ctx\<lparr>Intermediate_Hash := [H ! 0 + A, H ! 1 + B, H ! 2 + C, H ! 3 + D, H ! 4 + E],
             Message_Block_Index := 0\<rparr>)"

definition update_byte :: "u8 \<Rightarrow> SHA1_CTX \<Rightarrow> SHA1_CTX" where
  "update_byte b ctx =
     (let c1 = ctx\<lparr>Message_Block := (Message_Block ctx)[Message_Block_Index ctx := b AND 0xFF],
                   Message_Block_Index := Message_Block_Index ctx + 1,
                   Length_Low := Length_Low ctx + 8\<rparr>;
          c2 = (if Length_Low c1 = 0 then c1\<lparr>Length_High := Length_High c1 + 1\<rparr> else c1)
      in if Message_Block_Index c2 = 64 then SHA1ProcessMessageBlock c2 else c2)"

definition SHA1_Update :: "SHA1_CTX \<Rightarrow> u8 list \<Rightarrow> SHA1_CTX" where
  "SHA1_Update ctx msg = fold update_byte msg ctx"

text \<open>The loop that fills the block with zeros up to an index.\<close>

fun zero_fill :: "nat \<Rightarrow> SHA1_CTX \<Rightarrow> SHA1_CTX" where
  "zero_fill 0 ctx = ctx"
| "zero_fill (Suc n) ctx =
     zero_fill n (ctx\<lparr>Message_Block := (Message_Block ctx)[Message_Block_Index ctx := 0],
                      Message_Block_Index := Message_Block_Index ctx + 1\<rparr>)"

definition put_byte :: "u8 \<Rightarrow> SHA1_CTX \<Rightarrow> SHA1_CTX" where
  "put_byte b ctx = ctx\<lparr>Message_Block := (Message_Block ctx)[Message_Block_Index ctx := b],
                        Message_Block_Index := Message_Block_Index ctx + 1\<rparr>"

definition length_bytes :: "u32 \<Rightarrow> u32 \<Rightarrow> u8 list" where
  "length_bytes high low =
     [ucast (drop_bit 24 high), ucast (drop_bit 16 high), ucast (drop_bit 8 high), ucast high,
      ucast (drop_bit 24 low), ucast (drop_bit 16 low), ucast (drop_bit 8 low), ucast low]"

definition SHA1PadMessage :: "SHA1_CTX \<Rightarrow> SHA1_CTX" where
  "SHA1PadMessage ctx =
     (let c1 = (if Message_Block_Index ctx > 55
                then (let c = put_byte 0x80 ctx;
                          d = SHA1ProcessMessageBlock (zero_fill (64 - Message_Block_Index c) c)
                      in zero_fill (56 - Message_Block_Index d) d)
                else (let c = put_byte 0x80 ctx in zero_fill (56 - Message_Block_Index c) c));
          c2 = c1\<lparr>Message_Block := take 56 (Message_Block c1) @ length_bytes (Length_High c1) (Length_Low c1)\<rparr>
      in SHA1ProcessMessageBlock c2)"

definition hash_bytes :: "u32 list \<Rightarrow> u8 list" where
  "hash_bytes H = map (\<lambda>i. ucast (drop_bit (8 * (3 - i mod 4)) (H ! (i div 4)))) [0..<20]"

text \<open>The digest, and the context with the block and the length cleared.\<close>

definition SHA1_Final :: "SHA1_CTX \<Rightarrow> u8 list \<times> SHA1_CTX" where
  "SHA1_Final ctx =
     (let c = (SHA1PadMessage ctx)\<lparr>Message_Block := replicate 64 0, Length_Low := 0, Length_High := 0\<rparr>
      in (hash_bytes (Intermediate_Hash c), c))"

definition sha1 :: "SHA1_CTX \<Rightarrow> u8 list \<Rightarrow> u8 list" where
  "sha1 malloced msg = fst (SHA1_Final (SHA1_Update (SHA1_Init malloced) msg))"

section \<open>The standard\<close>

text \<open>One compression as FIPS 180 states it: the schedule as a recurrence, one loop of 80 rounds.\<close>

function fips_W :: "u8 list \<Rightarrow> nat \<Rightarrow> u32" where
  "fips_W b t =
     (if t < 16
      then push_bit 24 (ucast (b ! (4 * t))) OR push_bit 16 (ucast (b ! (4 * t + 1))) OR
           push_bit 8 (ucast (b ! (4 * t + 2))) OR ucast (b ! (4 * t + 3))
      else SHA1CircularShift 1 (fips_W b (t - 3) XOR fips_W b (t - 8) XOR fips_W b (t - 14) XOR fips_W b (t - 16)))"
  by auto
termination
  by (relation "measure snd") auto

declare fips_W.simps [simp del]

definition fips_f :: "nat \<Rightarrow> u32 \<Rightarrow> u32 \<Rightarrow> u32 \<Rightarrow> u32" where
  "fips_f t B C D =
     (if t < 20 then (B AND C) OR (NOT B AND D)
      else if 40 \<le> t \<and> t < 60 then (B AND C) OR (B AND D) OR (C AND D)
      else B XOR C XOR D)"

definition fips_K :: "nat \<Rightarrow> u32" where
  "fips_K t = (if t < 20 then 0x5A827999 else if t < 40 then 0x6ED9EBA1 else if t < 60 then 0x8F1BBCDC else 0xCA62C1D6)"

definition fips_compress :: "u8 list \<Rightarrow> u32 list \<Rightarrow> u32 list" where
  "fips_compress b H =
     (let (A, B, C, D, E) = fold (\<lambda>t. sha_step (fips_f t) (fips_K t) (fips_W b t)) [0..<80] (H ! 0, H ! 1, H ! 2, H ! 3, H ! 4)
      in [H ! 0 + A, H ! 1 + B, H ! 2 + C, H ! 3 + D, H ! 4 + E])"

function chunks :: "'a list \<Rightarrow> 'a list list" where
  "chunks xs = (if length xs < 64 then [] else take 64 xs # chunks (drop 64 xs))"
  by auto
termination
  by (relation "measure length") auto

declare chunks.simps [simp del]

definition fips_pad :: "u8 list \<Rightarrow> u8 list" where
  "fips_pad msg =
     msg @ [0x80] @ replicate ((119 - length msg mod 64) mod 64) 0 @
     length_bytes (of_nat (8 * length msg div 2 ^ 32)) (of_nat (8 * length msg))"

definition fips_sha1 :: "u8 list \<Rightarrow> u8 list" where
  "fips_sha1 msg =
     hash_bytes (fold fips_compress (chunks (fips_pad msg))
       [0x67452301, 0xEFCDAB89, 0x98BADCFE, 0x10325476, 0xC3D2E1F0])"

section \<open>One block\<close>

lemma extend_words_fips:
  "W = map (fips_W b) [0..<k] \<Longrightarrow> 16 \<le> k \<Longrightarrow> extend_words n W = map (fips_W b) [0..<k + n]"
proof (induction n arbitrary: W k)
  case (Suc n)
  have "length W = k" using Suc.prems by simp
  moreover have "W @ [SHA1CircularShift 1 (W ! (k - 3) XOR W ! (k - 8) XOR W ! (k - 14) XOR W ! (k - 16))] =
      map (fips_W b) [0..<Suc k]"
    using Suc.prems by (simp add: fips_W.simps [of b k])
  ultimately show ?case
    using Suc.IH [of _ "Suc k"] Suc.prems by (simp add: Let_def)
qed simp

lemma block_words_fips: "block_words b = map (fips_W b) [0..<16]"
  unfolding block_words_def by (rule map_cong) (auto simp: fips_W.simps [of b] mult.commute)

lemma fold_cong_upt: "(\<And>t. i \<le> t \<Longrightarrow> t < j \<Longrightarrow> f t = g t) \<Longrightarrow> fold f [i..<j] = fold g [i..<j]"
  by (rule ext, rule fold_cong) auto

lemma sha_rounds_fips:
  assumes "\<And>t. t < 80 \<Longrightarrow> W ! t = w t"
  shows "sha_rounds W v = fold (\<lambda>t. sha_step (fips_f t) (fips_K t) (w t)) [0..<80] v"
proof -
  let ?g = "\<lambda>t. sha_step (fips_f t) (fips_K t) (w t)"
  have split: "[0..<80] = [0..<20] @ [20..<40] @ [40..<60] @ [60..<80::nat]"
    using upt_add_eq_append [of 0 20 60] upt_add_eq_append [of 20 40 40] upt_add_eq_append [of 40 60 20] by simp
  have "fold (\<lambda>t. sha_step (\<lambda>B C D. (B AND C) OR (NOT B AND D)) 0x5A827999 (W ! t)) [0..<20] = fold ?g [0..<20]"
    "fold (\<lambda>t. sha_step (\<lambda>B C D. B XOR C XOR D) 0x6ED9EBA1 (W ! t)) [20..<40] = fold ?g [20..<40]"
    "fold (\<lambda>t. sha_step (\<lambda>B C D. (B AND C) OR (B AND D) OR (C AND D)) 0x8F1BBCDC (W ! t)) [40..<60] = fold ?g [40..<60]"
    "fold (\<lambda>t. sha_step (\<lambda>B C D. B XOR C XOR D) 0xCA62C1D6 (W ! t)) [60..<80] = fold ?g [60..<80]"
    using assms by (intro fold_cong_upt; simp add: fips_f_def fips_K_def fun_eq_iff)+
  then show ?thesis
    unfolding sha_rounds_def Let_def split fold_append by simp
qed

lemma process_fips:
  "SHA1ProcessMessageBlock ctx =
     ctx\<lparr>Intermediate_Hash := fips_compress (Message_Block ctx) (Intermediate_Hash ctx), Message_Block_Index := 0\<rparr>"
proof -
  have W: "extend_words 64 (block_words b) ! t = fips_W b t" if "t < 80" for b t
    using that extend_words_fips [OF block_words_fips, of 64] by simp
  have "sha_rounds (extend_words 64 (block_words b)) v =
      fold (\<lambda>t. sha_step (fips_f t) (fips_K t) (fips_W b t)) [0..<80] v" for b v
    using W by (rule sha_rounds_fips)
  then show ?thesis
    by (simp add: SHA1ProcessMessageBlock_def fips_compress_def Let_def split: prod.split)
qed

section \<open>The stream of blocks\<close>

lemma chunks_append:
  "length xs mod 64 = 0 \<Longrightarrow> chunks (xs @ ys) = chunks xs @ chunks ys"
proof (induction xs rule: chunks.induct)
  case (1 xs)
  show ?case
  proof (cases "length xs < 64")
    case True
    then have "xs = []" using "1.prems" by simp
    then show ?thesis by (simp add: chunks.simps [of "[]"])
  next
    case False
    then have "length (drop 64 xs) mod 64 = 0" using "1.prems" by (simp add: le_mod_geq [symmetric])
    then have "chunks (drop 64 xs @ ys) = chunks (drop 64 xs) @ chunks ys" using "1.IH" False by simp
    then show ?thesis using False by (simp add: chunks.simps [of xs] chunks.simps [of "xs @ ys"])
  qed
qed

lemma chunks_one: "length xs = 64 \<Longrightarrow> chunks xs = [xs]"
  by (simp add: chunks.simps [of xs] chunks.simps [of "[]"])

lemma chunks_short: "length xs < 64 \<Longrightarrow> chunks xs = []"
  by (simp add: chunks.simps [of xs])

definition H0 :: "u32 list" where
  "H0 = [0x67452301, 0xEFCDAB89, 0x98BADCFE, 0x10325476, 0xC3D2E1F0]"

text \<open>The context after a message: full blocks are compressed, the rest is in the block buffer.\<close>

definition absorbed :: "u8 list \<Rightarrow> SHA1_CTX \<Rightarrow> bool" where
  "absorbed msg c \<longleftrightarrow>
     (\<exists>done rest. msg = done @ rest \<and> length done mod 64 = 0 \<and> length rest < 64 \<and>
        Intermediate_Hash c = fold fips_compress (chunks done) H0 \<and>
        Message_Block_Index c = length rest \<and> take (length rest) (Message_Block c) = rest) \<and>
     length (Message_Block c) = 64 \<and>
     Length_Low c = of_nat (8 * length msg) \<and> Length_High c = of_nat (8 * length msg div 2 ^ 32)"

lemma and_0xFF [simp]: "(b :: u8) AND 0xFF = b"
proof -
  have "(0xFF :: u8) = - 1" by simp
  then show ?thesis by (metis and.right_neutral)
qed

lemma length_counter:
  fixes n :: nat
  defines "low \<equiv> (of_nat (8 * n) :: u32)" and "high \<equiv> (of_nat (8 * n div 2 ^ 32) :: u32)"
  shows "(of_nat (8 * Suc n) :: u32) = low + 8"
    and "(of_nat (8 * Suc n div 2 ^ 32) :: u32) = (if low + 8 = 0 then high + 1 else high)"
proof -
  show low: "(of_nat (8 * Suc n) :: u32) = low + 8" by (simp add: low_def)
  have "low + 8 = 0 \<longleftrightarrow> 8 * Suc n mod 2 ^ 32 = 0"
    unfolding low [symmetric] word_of_nat_eq_0_iff by (simp add: dvd_eq_mod_eq_0)
  also have "\<dots> \<longleftrightarrow> Suc n mod 536870912 = 0"
    using mod_mult_mult1 [of 8 "Suc n" 536870912] by simp
  finally have zero: "low + 8 = 0 \<longleftrightarrow> Suc n mod 536870912 = 0" .
  have q: "8 * m div 2 ^ 32 = m div 536870912" for m :: nat
    using div_mult_mult1 [of 8 m 536870912] by simp
  show "(of_nat (8 * Suc n div 2 ^ 32) :: u32) = (if low + 8 = 0 then high + 1 else high)"
    unfolding high_def q zero by (simp add: div_Suc)
qed

lemma absorbedE:
  assumes "absorbed msg c"
  obtains bs rest where "msg = bs @ rest" "length bs mod 64 = 0" "length rest < 64"
    "Intermediate_Hash c = fold fips_compress (chunks bs) H0" "Message_Block_Index c = length rest"
    "take (length rest) (Message_Block c) = rest" "length (Message_Block c) = 64"
    "Length_Low c = of_nat (8 * length msg)" "Length_High c = of_nat (8 * length msg div 2 ^ 32)"
  using assms unfolding absorbed_def by (elim conjE exE) (rule that, assumption+)

lemma absorbedI:
  assumes "msg = bs @ rest" "length bs mod 64 = 0" "length rest < 64"
    "Intermediate_Hash c = fold fips_compress (chunks bs) H0" "Message_Block_Index c = length rest"
    "take (length rest) (Message_Block c) = rest" "length (Message_Block c) = 64"
    "Length_Low c = of_nat (8 * length msg)" "Length_High c = of_nat (8 * length msg div 2 ^ 32)"
  shows "absorbed msg c"
  unfolding absorbed_def using assms by (intro conjI exI [of _ bs] exI [of _ rest]) assumption+

lemma absorbed_init: "length (Message_Block ctx) = 64 \<Longrightarrow> absorbed [] (SHA1_Init ctx)"
  by (simp add: absorbed_def SHA1_Init_def chunks_short H0_def)

lemma absorbed_byte:
  assumes "absorbed msg c"
  shows "absorbed (msg @ [b]) (update_byte b c)"
proof -
  from assms obtain bs rest where msg: "msg = bs @ rest" and full: "length bs mod 64 = 0"
    and rest: "length rest < 64" and hash: "Intermediate_Hash c = fold fips_compress (chunks bs) H0"
    and idx: "Message_Block_Index c = length rest" and blk: "take (length rest) (Message_Block c) = rest"
    and len: "length (Message_Block c) = 64"
    and low: "Length_Low c = of_nat (8 * length msg)" and high: "Length_High c = of_nat (8 * length msg div 2 ^ 32)"
    by (rule absorbedE)
  let ?blk = "(Message_Block c)[length rest := b]"
  have blk': "take (Suc (length rest)) ?blk = rest @ [b]"
    using blk rest len by (simp add: take_list_update_same_length)
  define c2 where "c2 = c\<lparr>Message_Block := ?blk, Message_Block_Index := Suc (length rest),
      Length_Low := of_nat (8 * Suc (length msg)), Length_High := of_nat (8 * Suc (length msg) div 2 ^ 32)\<rparr>"
  have upd: "update_byte b c = (if Suc (length rest) = 64 then SHA1ProcessMessageBlock c2 else c2)"
    using low high idx unfolding c2_def length_counter
    by (cases c) (simp add: update_byte_def Let_def)
  show ?thesis
  proof (cases "Suc (length rest) = 64")
    case True
    then have blk64: "?blk = rest @ [b]" using blk' len by simp
    have "chunks (bs @ rest @ [b]) = chunks bs @ [rest @ [b]]"
      using chunks_append [OF full, of "rest @ [b]"] chunks_one [of "rest @ [b]"] True by simp
    moreover have "length (msg @ [b]) mod 64 = 0"
      using full True by (simp add: msg mod_add_left_eq [symmetric, of "length bs"])
    ultimately have "absorbed (msg @ [b]) (SHA1ProcessMessageBlock c2)"
      using hash blk64 True by (intro absorbedI [of _ "msg @ [b]" "[]"]) (simp_all add: msg process_fips c2_def add.commute)
    then show ?thesis using upd True by simp
  next
    case False
    then have "absorbed (msg @ [b]) c2"
      using full rest len hash blk' by (intro absorbedI [of _ bs "rest @ [b]"]) (simp_all add: msg c2_def)
    then show ?thesis using upd False by simp
  qed
qed

lemma absorbed_update: "absorbed msg c \<Longrightarrow> absorbed (msg @ ys) (SHA1_Update c ys)"
proof (induction ys arbitrary: msg c)
  case (Cons b ys)
  then show ?case using absorbed_byte [of msg c b] Cons.IH [of "msg @ [b]"] by (simp add: SHA1_Update_def)
qed (simp add: SHA1_Update_def)

section \<open>Padding\<close>

lemma zero_fill_eq:
  "Message_Block_Index c + n \<le> length (Message_Block c) \<Longrightarrow>
   zero_fill n c = c\<lparr>Message_Block := take (Message_Block_Index c) (Message_Block c) @ replicate n 0 @
       drop (Message_Block_Index c + n) (Message_Block c), Message_Block_Index := Message_Block_Index c + n\<rparr>"
proof (induction n arbitrary: c)
  case (Suc n)
  let ?c = "c\<lparr>Message_Block := (Message_Block c)[Message_Block_Index c := 0], Message_Block_Index := Message_Block_Index c + 1\<rparr>"
  have "take (Suc (Message_Block_Index c)) ((Message_Block c)[Message_Block_Index c := 0]) =
      take (Message_Block_Index c) (Message_Block c) @ [0]"
    using Suc.prems by (intro take_list_update_same_length) simp
  then show ?case
    using Suc.IH [of ?c] Suc.prems by simp
qed simp

lemma pad_finish:
  assumes full: "length bs mod 64 = 0" and rest: "length rest \<le> 56"
    and c: "Intermediate_Hash c = fold fips_compress (chunks bs) H0" "Message_Block_Index c = length rest"
      "take (length rest) (Message_Block c) = rest" "length (Message_Block c) = 64"
  defines "d \<equiv> zero_fill (56 - length rest) c"
  shows "Intermediate_Hash (SHA1ProcessMessageBlock (d\<lparr>Message_Block := take 56 (Message_Block d) @ length_bytes (Length_High d) (Length_Low d)\<rparr>)) =
    fold fips_compress (chunks (bs @ rest @ replicate (56 - length rest) 0 @ length_bytes (Length_High c) (Length_Low c))) H0"
proof -
  let ?last = "rest @ replicate (56 - length rest) 0 @ length_bytes (Length_High c) (Length_Low c)"
  have d: "d = c\<lparr>Message_Block := rest @ replicate (56 - length rest) 0 @ drop 56 (Message_Block c), Message_Block_Index := 56\<rparr>"
    unfolding d_def using zero_fill_eq [of c "56 - length rest"] c rest by simp
  have "chunks (bs @ ?last) = chunks bs @ [?last]"
    using chunks_append [OF full] chunks_one [of ?last] rest by (simp add: length_bytes_def)
  then show ?thesis
    using c rest by (simp add: d process_fips)
qed

lemma put_byte_block:
  assumes "Message_Block_Index c = length rest" "take (length rest) (Message_Block c) = rest"
    "length rest < length (Message_Block c)"
  shows "Message_Block_Index (put_byte b c) = length (rest @ [b])"
    "take (length (rest @ [b])) (Message_Block (put_byte b c)) = rest @ [b]"
    "length (Message_Block (put_byte b c)) = length (Message_Block c)"
    "Intermediate_Hash (put_byte b c) = Intermediate_Hash c"
    "Length_Low (put_byte b c) = Length_Low c" "Length_High (put_byte b c) = Length_High c"
  using assms by (simp_all add: put_byte_def take_list_update_same_length)

lemma pad_fips:
  assumes "absorbed msg c"
  shows "Intermediate_Hash (SHA1PadMessage c) = fold fips_compress (chunks (fips_pad msg)) H0"
proof -
  from assms obtain bs rest where msg: "msg = bs @ rest" and full: "length bs mod 64 = 0"
    and rest: "length rest < 64" and hash: "Intermediate_Hash c = fold fips_compress (chunks bs) H0"
    and idx: "Message_Block_Index c = length rest" and blk: "take (length rest) (Message_Block c) = rest"
    and len: "length (Message_Block c) = 64"
    and low: "Length_Low c = of_nat (8 * length msg)" and high: "Length_High c = of_nat (8 * length msg div 2 ^ 32)"
    by (rule absorbedE)
  let ?tail = "length_bytes (of_nat (8 * length msg div 2 ^ 32)) (of_nat (8 * length msg))"
  have rest_mod: "length msg mod 64 = length rest"
    using full rest by (simp add: msg mod_add_left_eq [symmetric, of "length bs"])
  have "length rest < length (Message_Block c)" using rest len by simp
  note c1 = put_byte_block [OF idx blk this, of "0x80"]
  let ?c = "put_byte 0x80 c" and ?rest = "rest @ [0x80]"
  show ?thesis
  proof (cases "length rest > 55")
    case False
    then have "119 - length rest = 64 + (55 - length rest)" by simp
    then have "(119 - length rest) mod 64 = 55 - length rest" using False by (simp only: mod_add_self1) simp
    then have "fips_pad msg = bs @ ?rest @ replicate (56 - length ?rest) 0 @ ?tail"
      unfolding fips_pad_def rest_mod by (simp add: msg)
    then show ?thesis
      using False idx pad_finish [OF full, of ?rest ?c] c1 hash len low high
      by (simp add: SHA1PadMessage_def Let_def)
  next
    case True
    let ?blk = "?rest @ replicate (63 - length rest) 0"
    define d where "d = SHA1ProcessMessageBlock (zero_fill (64 - Message_Block_Index ?c) ?c)"
    have fill: "zero_fill (64 - Message_Block_Index ?c) ?c = ?c\<lparr>Message_Block := ?blk, Message_Block_Index := 64\<rparr>"
      using zero_fill_eq [of ?c "64 - Message_Block_Index ?c"] c1 len rest by simp
    have full': "length (bs @ ?blk) mod 64 = 0" using full rest by (simp add: mod_add_left_eq [symmetric, of "length bs"])
    have "chunks (bs @ ?blk) = chunks bs @ [?blk]"
      using chunks_append [OF full] chunks_one [of ?blk] rest by simp
    then have d: "Intermediate_Hash d = fold fips_compress (chunks (bs @ ?blk)) H0" "Message_Block_Index d = length []"
      "length (Message_Block d) = 64" "Length_Low d = Length_Low c" "Length_High d = Length_High c"
      using c1 hash rest unfolding d_def fill process_fips by simp_all
    have "119 - length rest = (63 - length rest) + 56" using rest by simp
    then have "replicate (119 - length rest) 0 = replicate (63 - length rest) 0 @ replicate 56 (0 :: u8)"
      by (simp only: replicate_add)
    then have "fips_pad msg = (bs @ ?blk) @ [] @ replicate (56 - length []) 0 @ ?tail"
      using True rest unfolding fips_pad_def rest_mod by (simp add: msg)
    then show ?thesis
      using True idx pad_finish [OF full', of "[]" d] d low high
      by (simp add: SHA1PadMessage_def Let_def d_def [symmetric])
  qed
qed

section \<open>Properties\<close>



end
