(* ===== verification/Modbus_Crc.thy ===== *)
theory Modbus_Crc
  imports Prelude
begin

text \<open>
  The CRC-16 of the Modbus RTU driver (\<open>app/components/modbus/modbus.c\<close>): the two lookup
  tables, the byte loop \<open>modbus_crc16\<close>, and its equivalence with the bit-serial division
  by the reflected polynomial 0xA001. From the equivalence follow the residue law (a frame
  followed by its own CRC has CRC 0) and the detection of every single corrupted byte.
\<close>

section \<open>The program\<close>

definition CRCHi :: "u8 list" where
  "CRCHi = [
    0x00, 0xC1, 0x81, 0x40, 0x01, 0xC0, 0x80, 0x41, 0x01, 0xC0, 0x80, 0x41, 0x00, 0xC1, 0x81, 0x40,
    0x01, 0xC0, 0x80, 0x41, 0x00, 0xC1, 0x81, 0x40, 0x00, 0xC1, 0x81, 0x40, 0x01, 0xC0, 0x80, 0x41,
    0x01, 0xC0, 0x80, 0x41, 0x00, 0xC1, 0x81, 0x40, 0x00, 0xC1, 0x81, 0x40, 0x01, 0xC0, 0x80, 0x41,
    0x00, 0xC1, 0x81, 0x40, 0x01, 0xC0, 0x80, 0x41, 0x01, 0xC0, 0x80, 0x41, 0x00, 0xC1, 0x81, 0x40,
    0x01, 0xC0, 0x80, 0x41, 0x00, 0xC1, 0x81, 0x40, 0x00, 0xC1, 0x81, 0x40, 0x01, 0xC0, 0x80, 0x41,
    0x00, 0xC1, 0x81, 0x40, 0x01, 0xC0, 0x80, 0x41, 0x01, 0xC0, 0x80, 0x41, 0x00, 0xC1, 0x81, 0x40,
    0x00, 0xC1, 0x81, 0x40, 0x01, 0xC0, 0x80, 0x41, 0x01, 0xC0, 0x80, 0x41, 0x00, 0xC1, 0x81, 0x40,
    0x01, 0xC0, 0x80, 0x41, 0x00, 0xC1, 0x81, 0x40, 0x00, 0xC1, 0x81, 0x40, 0x01, 0xC0, 0x80, 0x41,
    0x01, 0xC0, 0x80, 0x41, 0x00, 0xC1, 0x81, 0x40, 0x00, 0xC1, 0x81, 0x40, 0x01, 0xC0, 0x80, 0x41,
    0x00, 0xC1, 0x81, 0x40, 0x01, 0xC0, 0x80, 0x41, 0x01, 0xC0, 0x80, 0x41, 0x00, 0xC1, 0x81, 0x40,
    0x00, 0xC1, 0x81, 0x40, 0x01, 0xC0, 0x80, 0x41, 0x01, 0xC0, 0x80, 0x41, 0x00, 0xC1, 0x81, 0x40,
    0x01, 0xC0, 0x80, 0x41, 0x00, 0xC1, 0x81, 0x40, 0x00, 0xC1, 0x81, 0x40, 0x01, 0xC0, 0x80, 0x41,
    0x00, 0xC1, 0x81, 0x40, 0x01, 0xC0, 0x80, 0x41, 0x01, 0xC0, 0x80, 0x41, 0x00, 0xC1, 0x81, 0x40,
    0x01, 0xC0, 0x80, 0x41, 0x00, 0xC1, 0x81, 0x40, 0x00, 0xC1, 0x81, 0x40, 0x01, 0xC0, 0x80, 0x41,
    0x01, 0xC0, 0x80, 0x41, 0x00, 0xC1, 0x81, 0x40, 0x00, 0xC1, 0x81, 0x40, 0x01, 0xC0, 0x80, 0x41,
    0x00, 0xC1, 0x81, 0x40, 0x01, 0xC0, 0x80, 0x41, 0x01, 0xC0, 0x80, 0x41, 0x00, 0xC1, 0x81, 0x40]"

definition CRCLo :: "u8 list" where
  "CRCLo = [
    0x00, 0xC0, 0xC1, 0x01, 0xC3, 0x03, 0x02, 0xC2, 0xC6, 0x06, 0x07, 0xC7, 0x05, 0xC5, 0xC4, 0x04,
    0xCC, 0x0C, 0x0D, 0xCD, 0x0F, 0xCF, 0xCE, 0x0E, 0x0A, 0xCA, 0xCB, 0x0B, 0xC9, 0x09, 0x08, 0xC8,
    0xD8, 0x18, 0x19, 0xD9, 0x1B, 0xDB, 0xDA, 0x1A, 0x1E, 0xDE, 0xDF, 0x1F, 0xDD, 0x1D, 0x1C, 0xDC,
    0x14, 0xD4, 0xD5, 0x15, 0xD7, 0x17, 0x16, 0xD6, 0xD2, 0x12, 0x13, 0xD3, 0x11, 0xD1, 0xD0, 0x10,
    0xF0, 0x30, 0x31, 0xF1, 0x33, 0xF3, 0xF2, 0x32, 0x36, 0xF6, 0xF7, 0x37, 0xF5, 0x35, 0x34, 0xF4,
    0x3C, 0xFC, 0xFD, 0x3D, 0xFF, 0x3F, 0x3E, 0xFE, 0xFA, 0x3A, 0x3B, 0xFB, 0x39, 0xF9, 0xF8, 0x38,
    0x28, 0xE8, 0xE9, 0x29, 0xEB, 0x2B, 0x2A, 0xEA, 0xEE, 0x2E, 0x2F, 0xEF, 0x2D, 0xED, 0xEC, 0x2C,
    0xE4, 0x24, 0x25, 0xE5, 0x27, 0xE7, 0xE6, 0x26, 0x22, 0xE2, 0xE3, 0x23, 0xE1, 0x21, 0x20, 0xE0,
    0xA0, 0x60, 0x61, 0xA1, 0x63, 0xA3, 0xA2, 0x62, 0x66, 0xA6, 0xA7, 0x67, 0xA5, 0x65, 0x64, 0xA4,
    0x6C, 0xAC, 0xAD, 0x6D, 0xAF, 0x6F, 0x6E, 0xAE, 0xAA, 0x6A, 0x6B, 0xAB, 0x69, 0xA9, 0xA8, 0x68,
    0x78, 0xB8, 0xB9, 0x79, 0xBB, 0x7B, 0x7A, 0xBA, 0xBE, 0x7E, 0x7F, 0xBF, 0x7D, 0xBD, 0xBC, 0x7C,
    0xB4, 0x74, 0x75, 0xB5, 0x77, 0xB7, 0xB6, 0x76, 0x72, 0xB2, 0xB3, 0x73, 0xB1, 0x71, 0x70, 0xB0,
    0x50, 0x90, 0x91, 0x51, 0x93, 0x53, 0x52, 0x92, 0x96, 0x56, 0x57, 0x97, 0x55, 0x95, 0x94, 0x54,
    0x9C, 0x5C, 0x5D, 0x9D, 0x5F, 0x9F, 0x9E, 0x5E, 0x5A, 0x9A, 0x9B, 0x5B, 0x99, 0x59, 0x58, 0x98,
    0x88, 0x48, 0x49, 0x89, 0x4B, 0x8B, 0x8A, 0x4A, 0x4E, 0x8E, 0x8F, 0x4F, 0x8D, 0x4D, 0x4C, 0x8C,
    0x44, 0x84, 0x85, 0x45, 0x87, 0x47, 0x46, 0x86, 0x82, 0x42, 0x43, 0x83, 0x41, 0x81, 0x80, 0x40]"

text \<open>
  The loop \<open>while (length--)\<close> over the registers \<open>ucCRCHi\<close> and \<open>ucCRCLo\<close>. The callers pass
  512-byte buffers and a \<open>uint8_t\<close> length, so the list never runs out before the count.
\<close>

fun crc_loop :: "u8 \<Rightarrow> u8 \<Rightarrow> u8 list \<Rightarrow> nat \<Rightarrow> u8 \<times> u8" where
  "crc_loop ucCRCHi ucCRCLo (b # frame) (Suc n) =
     (let index = unat (ucCRCLo XOR b)
      in crc_loop (CRCLo ! index) (ucCRCHi XOR CRCHi ! index) frame n)"
| "crc_loop ucCRCHi ucCRCLo frame n = (ucCRCHi, ucCRCLo)"

definition modbus_crc16 :: "u8 list \<Rightarrow> u8 \<Rightarrow> u16" where
  "modbus_crc16 frame len =
     (case crc_loop 0xFF 0xFF frame (unat len) of (hi, lo) \<Rightarrow> push_bit 8 (ucast hi) OR ucast lo)"

section \<open>The bit-serial reference\<close>

definition crc16_bit :: "u16 \<Rightarrow> u16" where
  "crc16_bit c = (if bit c 0 then drop_bit 1 c XOR 0xA001 else drop_bit 1 c)"

definition crc16_byte :: "u16 \<Rightarrow> u8 \<Rightarrow> u16" where
  "crc16_byte c b = (crc16_bit ^^ 8) (c XOR ucast b)"

definition crc16_ref :: "u8 list \<Rightarrow> u16" where
  "crc16_ref bs = fold (\<lambda>b c. crc16_byte c b) bs 0xFFFF"

lemma crc16_bit_eval:
  "crc16_bit 0 = 0"
  "crc16_bit 1 = 0xA001"
  "crc16_bit (numeral (Num.Bit0 n)) = drop_bit 1 (numeral (Num.Bit0 n))"
  "crc16_bit (numeral (Num.Bit1 n)) = drop_bit 1 (numeral (Num.Bit1 n)) XOR 0xA001"
  by (simp_all add: crc16_bit_def bit_0)

lemma funpow_8: "(f ^^ 8) x = f (f (f (f (f (f (f (f x)))))))"
  by (simp add: eval_nat_numeral)

text \<open>Every entry of the two tables is eight bit steps applied to its index.\<close>

lemma crc_table:
  "map2 join8 CRCLo CRCHi = map (\<lambda>i. (crc16_bit ^^ 8) (of_nat i)) [0..<256]"
  by (simp add: CRCLo_def CRCHi_def upt_conv_Cons join8_def crc16_bit_eval funpow_8)

lemma length_CRCLo: "length CRCLo = 256" and length_CRCHi: "length CRCHi = 256"
  by (simp_all add: CRCLo_def CRCHi_def)

lemma crc_table_nth:
  assumes "i < 256"
  shows "join8 (CRCLo ! i) (CRCHi ! i) = (crc16_bit ^^ 8) (of_nat i)"
proof -
  have "map2 join8 CRCLo CRCHi ! i = map (\<lambda>i. (crc16_bit ^^ 8) (of_nat i)) [0..<256] ! i"
    by (simp only: crc_table)
  then show ?thesis
    using assms by (simp add: length_CRCLo length_CRCHi)
qed

subsection \<open>Linearity of the bit step\<close>

lemma crc16_bit_xor: "crc16_bit (x XOR y) = crc16_bit x XOR crc16_bit y"
  by (rule bit_word_eqI)
    (auto simp: crc16_bit_def bit_xor_iff bit_drop_bit_eq)

lemma crc16_bits_xor: "(crc16_bit ^^ n) (x XOR y) = (crc16_bit ^^ n) x XOR (crc16_bit ^^ n) y"
  by (induction n) (simp_all add: crc16_bit_xor)

lemma crc16_bits_zero: "(crc16_bit ^^ n) 0 = 0"
  by (induction n) (simp_all add: crc16_bit_eval)

lemma crc16_bits_high: "(\<And>i. i < n \<Longrightarrow> \<not> bit x i) \<Longrightarrow> (crc16_bit ^^ n) x = drop_bit n x"
proof (induction n)
  case 0
  then show ?case by simp
next
  case (Suc n)
  then have "(crc16_bit ^^ n) x = drop_bit n x" by simp
  moreover have "\<not> bit (drop_bit n x) 0"
    using Suc.prems [of n] by (simp add: bit_drop_bit_eq)
  ultimately show ?case
    using crc16_bit_def [of "drop_bit n x"] by simp
qed

text \<open>The byte step is one table look-up: the law the C loop relies on.\<close>

lemma crc16_byte_table:
  "crc16_byte c b = drop_bit 8 c XOR (crc16_bit ^^ 8) (ucast (lo8 c XOR b))"
proof -
  have split: "c XOR ucast b = push_bit 8 (drop_bit 8 c) XOR ucast (lo8 c XOR b)"
    by (rule bit_word_eqI)
      (auto simp: bit_xor_iff bit_push_bit_iff bit_drop_bit_eq bit_ucast_iff bit_lo8
            possible_bit_def dest: bit_imp_le_length)
  have "(crc16_bit ^^ 8) (push_bit 8 (drop_bit 8 c)) = drop_bit 8 c"
  proof -
    have "(crc16_bit ^^ 8) (push_bit 8 (drop_bit 8 c)) = drop_bit 8 (push_bit 8 (drop_bit 8 c))"
      by (rule crc16_bits_high) (simp add: bit_push_bit_iff)
    also have "\<dots> = drop_bit 8 c"
      by (rule bit_word_eqI)
        (auto simp: bit_push_bit_iff bit_drop_bit_eq possible_bit_def dest: bit_imp_le_length)
    finally show ?thesis .
  qed
  then show ?thesis
    by (simp add: crc16_byte_def split crc16_bits_xor)
qed

lemma join8_xor_low: "join8 h (a XOR l) = ucast a XOR join8 h l"
  by (rule bit_word_eqI)
    (auto simp: bit_join8 bit_xor_iff bit_ucast_iff dest: bit_imp_le_length)

lemma drop_bit_join8: "drop_bit 8 (join8 h l) = ucast h"
  by (rule bit_word_eqI)
    (auto simp: bit_join8 bit_drop_bit_eq bit_ucast_iff dest: bit_imp_le_length)

lemma crc_loop_step:
  "join8 (CRCLo ! unat (lo XOR b)) (hi XOR CRCHi ! unat (lo XOR b)) = crc16_byte (join8 hi lo) b"
proof -
  have "join8 (CRCLo ! unat (lo XOR b)) (CRCHi ! unat (lo XOR b)) =
      (crc16_bit ^^ 8) (of_nat (unat (lo XOR b)))"
    by (rule crc_table_nth) (rule unat_u8_less)
  then show ?thesis
    by (simp add: join8_xor_low crc16_byte_table drop_bit_join8)
qed

lemma crc_loop_eq_fold:
  "n \<le> length frame \<Longrightarrow>
   (case crc_loop hi lo frame n of (h, l) \<Rightarrow> join8 h l) =
     fold (\<lambda>b c. crc16_byte c b) (take n frame) (join8 hi lo)"
  by (induction hi lo frame n rule: crc_loop.induct)
    (auto simp: Let_def crc_loop_step)

lemma modbus_crc16_eq_ref:
  assumes "unat len \<le> length frame"
  shows "modbus_crc16 frame len = crc16_ref (take (unat len) frame)"
proof -
  have "join8 0xFF 0xFF = 0xFFFF"
    by (simp add: join8_def)
  then show ?thesis
    using crc_loop_eq_fold [OF assms, of "0xFF" "0xFF"]
    by (simp add: modbus_crc16_def crc16_ref_def join8_def split: prod.splits)
qed

section \<open>Residue and error detection\<close>

lemma crc16_ref_append: "crc16_ref (xs @ ys) = fold (\<lambda>b c. crc16_byte c b) ys (crc16_ref xs)"
  by (simp add: crc16_ref_def)

lemma crc16_byte_own_low: "crc16_byte c (lo8 c) = ucast (hi8 c)"
proof -
  have "drop_bit 8 c = ucast (hi8 c)"
    by (rule bit_word_eqI)
      (auto simp: bit_drop_bit_eq bit_ucast_iff bit_hi8 add.commute dest: bit_imp_le_length)
  then show ?thesis
    by (simp add: crc16_byte_table crc16_bits_zero)
qed

lemma crc16_ref_residue: "crc16_ref (bs @ [lo8 (crc16_ref bs), hi8 (crc16_ref bs)]) = 0"
  by (simp add: crc16_ref_append crc16_byte_own_low)
    (simp add: crc16_byte_def crc16_bits_zero)

lemma crc16_bit_kernel:
  assumes "crc16_bit x = 0"
  shows "x = 0"
proof -
  have "bit (0xA001 :: u16) 15" by simp
  moreover have "\<not> bit (drop_bit 1 x) 15"
    by (auto simp: bit_drop_bit_eq dest: bit_imp_le_length)
  ultimately have "\<not> bit x 0"
    using assms by (auto simp: crc16_bit_def dest: arg_cong [where f = "\<lambda>w. bit w 15"] simp: bit_xor_iff)
  then have "drop_bit 1 x = 0"
    using assms by (simp add: crc16_bit_def)
  have "\<not> bit x n" for n
  proof (cases n)
    case 0
    with \<open>\<not> bit x 0\<close> show ?thesis by simp
  next
    case (Suc m)
    have "bit (drop_bit 1 x) m = bit x n"
      using Suc by (simp add: bit_drop_bit_eq)
    with \<open>drop_bit 1 x = 0\<close> show ?thesis by simp
  qed
  then show ?thesis
    by (auto intro: bit_word_eqI)
qed

lemma crc16_bits_inj: "(crc16_bit ^^ n) x = (crc16_bit ^^ n) y \<Longrightarrow> x = y"
proof (induction n)
  case 0
  then show ?case by simp
next
  case (Suc n)
  have "crc16_bit ((crc16_bit ^^ n) x XOR (crc16_bit ^^ n) y) = 0"
    using Suc.prems by (simp add: crc16_bit_xor)
  then have "(crc16_bit ^^ n) x XOR (crc16_bit ^^ n) y = 0"
    by (rule crc16_bit_kernel)
  then show ?case
    by (intro Suc.IH) (simp add: word_xor_eq_0_iff)
qed

lemma crc16_byte_inj_state: "crc16_byte c b = crc16_byte d b \<Longrightarrow> c = d"
  unfolding crc16_byte_def by (drule crc16_bits_inj) simp

lemma crc16_byte_inj_byte: "crc16_byte c a = crc16_byte c b \<Longrightarrow> a = b"
  unfolding crc16_byte_def by (drule crc16_bits_inj) simp

lemma crc16_fold_inj_state:
  "fold (\<lambda>b c. crc16_byte c b) bs c = fold (\<lambda>b c. crc16_byte c b) bs d \<Longrightarrow> c = d"
  by (induction bs arbitrary: c d) (auto dest: crc16_byte_inj_state)

lemma crc16_ref_one_byte: "crc16_ref (xs @ a # ys) = crc16_ref (xs @ b # ys) \<Longrightarrow> a = b"
  by (auto simp: crc16_ref_def dest!: crc16_fold_inj_state crc16_byte_inj_byte)

end
