(* ===== verification/Modbus_Master.thy ===== *)
theory Modbus_Master
  imports Modbus_Crc
begin

text \<open>
  The Modbus RTU master (\<open>app/components/modbus/modbus_master.c\<close>, \<open>modbus_master_coils.c\<close>,
  \<open>modbus_master_holdings.c\<close>): the \<open>Modbus_Master\<close> structure with its two 512-byte buffers,
  the receive interrupt routines, the exchange \<open>master_send_receive\<close>, the validation of a
  response and the six request functions. The UART is the environment: the list of events
  that reach the receive routines between the transmission of a request and the moment the
  waiting task runs again. Writing past \<open>tx_buf\<close> or past the caller's result array is the
  outcome \<open>Overflow\<close>.
\<close>

section \<open>State\<close>

record Modbus_Master =
  slave_id :: u8
  func_code :: u8
  read_addr :: u16
  read_qty :: u16
  write_addr :: u16
  write_qty :: u16
  rx_enable :: bool
  rx_buf :: "u8 list"
  rx_len :: u16
  tx_buf :: "u8 list"
  tx_len :: u16
  uart0_receive_semaphore :: bool
  uart1_sent :: "u8 list list"

text \<open>
  The last two fields are the binary semaphore of \<open>modbus_master.c\<close> and the log of the
  frames handed to \<open>uart_write_bytes\<close>.
\<close>

datatype uart_event = Rx_byte u8 | Rx_complete

type_synonym master_command = "Modbus_Master \<Rightarrow> (bool \<times> Modbus_Master) outcome"

definition FUNC_READ_COILS :: u8 where "FUNC_READ_COILS = 1"
definition FUNC_WRITE_SINGLE_COIL :: u8 where "FUNC_WRITE_SINGLE_COIL = 5"
definition FUNC_WRITE_MULTIPLE_COILS :: u8 where "FUNC_WRITE_MULTIPLE_COILS = 15"
definition FUNC_READ_HOLDING_REGISTER :: u8 where "FUNC_READ_HOLDING_REGISTER = 3"
definition FUNC_WRITE_REGISTER :: u8 where "FUNC_WRITE_REGISTER = 6"
definition FUNC_WRITE_MULTIPLE_REGISTERS :: u8 where "FUNC_WRITE_MULTIPLE_REGISTERS = 16"

lemmas func_code_defs = FUNC_READ_COILS_def FUNC_WRITE_SINGLE_COIL_def
  FUNC_WRITE_MULTIPLE_COILS_def FUNC_READ_HOLDING_REGISTER_def FUNC_WRITE_REGISTER_def
  FUNC_WRITE_MULTIPLE_REGISTERS_def

section \<open>Exchange and validation\<close>

text \<open>\<open>master->tx_buf[master->tx_len++] = b\<close>\<close>

definition tx_put :: "u8 \<Rightarrow> Modbus_Master \<Rightarrow> Modbus_Master outcome" where
  "tx_put b m =
     (if unat (tx_len m) < 512
      then Done (m\<lparr>tx_buf := (tx_buf m)[unat (tx_len m) := b], tx_len := tx_len m + 1\<rparr>)
      else Overflow ''tx_buf'')"

definition modbus_master_validate_rx :: "Modbus_Master \<Rightarrow> bool" where
  "modbus_master_validate_rx m =
     (if unat (rx_len m) < 5 then False
      else
        let crc = modbus_crc16 (rx_buf m) (ucast (rx_len m - 2))
        in if crc AND 0xFF \<noteq> ucast (rx_buf m ! (unat (rx_len m) - 2)) then False
           else if drop_bit 8 crc \<noteq> ucast (rx_buf m ! (unat (rx_len m) - 1)) then False
           else if rx_buf m ! 0 \<noteq> slave_id m then False
           else if rx_buf m ! 1 \<noteq> func_code m then False
           else True)"

definition uart0_receive_one_byte :: "u8 \<Rightarrow> Modbus_Master \<Rightarrow> Modbus_Master" where
  "uart0_receive_one_byte d m =
     (if rx_enable m
      then m\<lparr>rx_buf := (rx_buf m)[unat (rx_len m) := d], rx_len := (rx_len m + 1) mod 512\<rparr>
      else m)"

definition uart0_receive_complete :: "Modbus_Master \<Rightarrow> Modbus_Master" where
  "uart0_receive_complete m = m\<lparr>uart0_receive_semaphore := True\<rparr>"

fun uart_event_step :: "uart_event \<Rightarrow> Modbus_Master \<Rightarrow> Modbus_Master" where
  "uart_event_step (Rx_byte d) m = uart0_receive_one_byte d m"
| "uart_event_step Rx_complete m = uart0_receive_complete m"

text \<open>
  \<open>master_send_receive\<close>. The argument \<open>evs\<close> is what the UART delivers while the task waits
  on the semaphore; the wait succeeds exactly when the semaphore was given meanwhile.
\<close>

definition start_exchange :: "Modbus_Master \<Rightarrow> Modbus_Master" where
  "start_exchange m =
     m\<lparr>uart0_receive_semaphore := False, rx_enable := True, rx_len := 0,
       uart1_sent := uart1_sent m @ [take (unat (tx_len m)) (tx_buf m)]\<rparr>"

definition await_reply :: "uart_event list \<Rightarrow> Modbus_Master \<Rightarrow> bool \<times> Modbus_Master" where
  "await_reply evs m =
     (let m' = fold uart_event_step evs m
      in (uart0_receive_semaphore m', m'\<lparr>uart0_receive_semaphore := False, rx_enable := False\<rparr>))"

definition append_crc :: "Modbus_Master \<Rightarrow> Modbus_Master outcome" where
  "append_crc m =
     (let crc = modbus_crc16 (tx_buf m) (ucast (tx_len m))
      in and_then (tx_put (ucast (crc AND 0xFF)) m) (tx_put (ucast (drop_bit 8 crc))))"

fun deliver :: "uart_event list \<Rightarrow> Modbus_Master outcome \<Rightarrow> (bool \<times> Modbus_Master) outcome" where
  "deliver evs (Done m) = Done (await_reply evs (start_exchange m))"
| "deliver evs (Restarted m) = Restarted (False, m)"
| "deliver evs (Overflow b) = Overflow b"

definition master_send_receive :: "uart_event list \<Rightarrow> master_command" where
  "master_send_receive evs m = deliver evs (append_crc m)"

text \<open>
  Every request function ends in the same way: run the command, validate the response, and
  only then look at it. \<open>check\<close> is the function-specific test and \<open>take_result\<close> what it
  stores in the caller's array.
\<close>

fun request_tail ::
  "master_command \<Rightarrow> (Modbus_Master \<Rightarrow> bool) \<Rightarrow> (Modbus_Master \<Rightarrow> 'r outcome) \<Rightarrow> 'r \<Rightarrow>
   Modbus_Master outcome \<Rightarrow> (bool \<times> 'r \<times> Modbus_Master) outcome" where
  "request_tail cmd check take_result r (Done m) =
     (case cmd m of
        Done (True, m') \<Rightarrow>
          (if modbus_master_validate_rx m' \<and> check m'
           then (case take_result m' of
                   Done r' \<Rightarrow> Done (True, r', m')
                 | Restarted r' \<Rightarrow> Restarted (True, r', m')
                 | Overflow b \<Rightarrow> Overflow b)
           else Done (False, r, m'))
      | Done (False, m') \<Rightarrow> Done (False, r, m')
      | Restarted (b, m') \<Rightarrow> Restarted (b, r, m')
      | Overflow b \<Rightarrow> Overflow b)"
| "request_tail cmd check take_result r (Restarted m) = Restarted (False, r, m)"
| "request_tail cmd check take_result r (Overflow b) = Overflow b"

definition put_header :: "u16 \<Rightarrow> u16 \<Rightarrow> Modbus_Master \<Rightarrow> Modbus_Master outcome" where
  "put_header a v m =
     run_steps [tx_put (slave_id m), tx_put (func_code m), tx_put (ucast (drop_bit 8 a)),
                tx_put (ucast (a AND 0xFF)), tx_put (ucast (drop_bit 8 v)),
                tx_put (ucast (v AND 0xFF))] (m\<lparr>tx_len := 0\<rparr>)"

definition echo_check :: "u16 \<Rightarrow> u16 \<Rightarrow> Modbus_Master \<Rightarrow> bool" where
  "echo_check a v m \<longleftrightarrow>
     ucast (rx_buf m ! 2) = drop_bit 8 a \<and> ucast (rx_buf m ! 3) = a AND 0xFF \<and>
     ucast (rx_buf m ! 4) = drop_bit 8 v \<and> ucast (rx_buf m ! 5) = v AND 0xFF"

section \<open>Coils\<close>

definition store_coils :: "u8 list \<Rightarrow> nat \<Rightarrow> u8 list \<Rightarrow> u8 list outcome" where
  "store_coils rx n res =
     store_loop ''result'' (\<lambda>i. 0x01 AND drop_bit (i mod 8) (rx ! (3 + i div 8))) 0 n res"

definition modbus_master_read_coils ::
  "master_command \<Rightarrow> u8 \<Rightarrow> u8 \<Rightarrow> u8 \<Rightarrow> u8 list \<Rightarrow> Modbus_Master \<Rightarrow>
   (bool \<times> u8 list \<times> Modbus_Master) outcome" where
  "modbus_master_read_coils cmd i start qty result m =
     (let m1 = m\<lparr>slave_id := i, func_code := FUNC_READ_COILS, read_addr := ucast start,
                 read_qty := ucast qty\<rparr>
      in request_tail cmd
           (\<lambda>m'. ucast (rx_buf m' ! 2) =
                 (if read_qty m' mod 8 = 0 then read_qty m' div 8 else read_qty m' div 8 + 1))
           (\<lambda>m'. store_coils (rx_buf m') (unat qty) result)
           result (put_header (read_addr m1) (read_qty m1) m1))"

definition coil_word :: "u8 \<Rightarrow> u16" where
  "coil_word value = (if value = 1 then 0xFF00 else 0)"

definition modbus_master_write_single_coil ::
  "master_command \<Rightarrow> u8 \<Rightarrow> u8 \<Rightarrow> u8 \<Rightarrow> Modbus_Master \<Rightarrow> (bool \<times> unit \<times> Modbus_Master) outcome" where
  "modbus_master_write_single_coil cmd i address value m =
     (let m1 = m\<lparr>slave_id := i, func_code := FUNC_WRITE_SINGLE_COIL, write_addr := ucast address\<rparr>
      in request_tail cmd (\<lambda>m'. echo_check (write_addr m') (coil_word value) m')
           (\<lambda>_. Done ()) () (put_header (write_addr m1) (coil_word value) m1))"

text \<open>
  The loop that packs the coil values shifts them into \<open>data[i / 8]\<close>, an array of 32 bytes
  that the function does not initialise: its first content is the argument \<open>data\<close>.
\<close>

fun pack_values :: "u8 list \<Rightarrow> nat \<Rightarrow> nat \<Rightarrow> nat \<Rightarrow> u8 list \<Rightarrow> u8 list" where
  "pack_values values qty i 0 data = data"
| "pack_values values qty i (Suc n) data =
     (let d = data ! (i div 8);
          d' = (if i < qty
                then (if values ! i = 1 then drop_bit 1 d OR 0x80 else drop_bit 1 d AND 0x7F)
                else drop_bit 1 d)
      in pack_values values qty (Suc i) n (data[i div 8 := d']))"

definition coil_byte_count :: "u8 \<Rightarrow> u8" where
  "coil_byte_count qty = (if qty mod 8 = 0 then qty div 8 else qty div 8 + 1)"

definition modbus_master_write_multiple_coils ::
  "master_command \<Rightarrow> u8 list \<Rightarrow> u8 \<Rightarrow> u8 \<Rightarrow> u8 \<Rightarrow> u8 list \<Rightarrow> Modbus_Master \<Rightarrow>
   (bool \<times> u8 list \<times> Modbus_Master) outcome" where
  "modbus_master_write_multiple_coils cmd data i start qty values m =
     (let byte_count = coil_byte_count qty;
          data' = pack_values values (unat qty) 0 (unat byte_count * 8) data;
          m1 = m\<lparr>slave_id := i, func_code := FUNC_WRITE_MULTIPLE_COILS, write_addr := ucast start,
                 write_qty := ucast qty\<rparr>
      in request_tail cmd (\<lambda>m'. echo_check (write_addr m') (write_qty m') m') (\<lambda>_. Done data') data'
           (and_then (put_header (write_addr m1) (write_qty m1) m1) (tx_put byte_count)))"

section \<open>Holding registers\<close>

definition store_regs :: "u8 list \<Rightarrow> nat \<Rightarrow> u16 list \<Rightarrow> u16 list outcome" where
  "store_regs rx n res =
     store_loop ''holdingregs''
       (\<lambda>i. ucast (rx ! (3 + i * 2)) * 256 + ucast (rx ! (4 + i * 2))) 0 n res"

definition modbus_master_read_holding_regs ::
  "master_command \<Rightarrow> u8 \<Rightarrow> u8 \<Rightarrow> u8 \<Rightarrow> u16 list \<Rightarrow> Modbus_Master \<Rightarrow>
   (bool \<times> u16 list \<times> Modbus_Master) outcome" where
  "modbus_master_read_holding_regs cmd i start qty holdingregs m =
     (let m1 = m\<lparr>slave_id := i, func_code := FUNC_READ_HOLDING_REGISTER, read_addr := ucast start,
                 read_qty := ucast qty\<rparr>
      in request_tail cmd (\<lambda>m'. ucast (rx_buf m' ! 2) = read_qty m' * 2)
           (\<lambda>m'. store_regs (rx_buf m') (unat (read_qty m')) holdingregs)
           holdingregs (put_header (read_addr m1) (read_qty m1) m1))"

definition modbus_master_Write_single_holding_reg ::
  "master_command \<Rightarrow> u8 \<Rightarrow> u8 \<Rightarrow> u16 \<Rightarrow> Modbus_Master \<Rightarrow> (bool \<times> unit \<times> Modbus_Master) outcome" where
  "modbus_master_Write_single_holding_reg cmd i address value m =
     (let m1 = m\<lparr>slave_id := i, func_code := FUNC_WRITE_REGISTER, write_addr := ucast address\<rparr>
      in request_tail cmd (\<lambda>m'. echo_check (write_addr m') value m')
           (\<lambda>_. Done ()) () (put_header (write_addr m1) value m1))"

fun put_regs :: "u16 list \<Rightarrow> nat \<Rightarrow> nat \<Rightarrow> Modbus_Master \<Rightarrow> Modbus_Master outcome" where
  "put_regs values i 0 m = Done m"
| "put_regs values i (Suc n) m =
     and_then (and_then (tx_put (ucast (drop_bit 8 (values ! i))) m)
                        (tx_put (ucast (values ! i AND 0xFF))))
              (put_regs values (Suc i) n)"

definition modbus_master_Write_multiple_holding_regs ::
  "master_command \<Rightarrow> u8 \<Rightarrow> u8 \<Rightarrow> u8 \<Rightarrow> u16 list \<Rightarrow> Modbus_Master \<Rightarrow>
   (bool \<times> unit \<times> Modbus_Master) outcome" where
  "modbus_master_Write_multiple_holding_regs cmd i start qty values m =
     (let m1 = m\<lparr>slave_id := i, func_code := FUNC_WRITE_MULTIPLE_REGISTERS, write_addr := ucast start,
                 write_qty := ucast qty\<rparr>
      in request_tail cmd (\<lambda>m'. echo_check (write_addr m') (write_qty m') m') (\<lambda>_. Done ()) ()
           (and_then (and_then (put_header (write_addr m1) (write_qty m1) m1)
                               (tx_put (ucast (2 * write_qty m1))))
                     (put_regs values 0 (unat (write_qty m1)))))"

section \<open>The transmit buffer\<close>

definition wf_master :: "Modbus_Master \<Rightarrow> bool" where
  "wf_master m \<longleftrightarrow> length (rx_buf m) = 512 \<and> length (tx_buf m) = 512 \<and>
     unat (rx_len m) < 512 \<and> unat (tx_len m) \<le> 512"

definition tx_bytes :: "Modbus_Master \<Rightarrow> u8 list" where
  "tx_bytes m = take (unat (tx_len m)) (tx_buf m)"

definition rx_bytes :: "Modbus_Master \<Rightarrow> u8 list" where
  "rx_bytes m = take (unat (rx_len m)) (rx_buf m)"

definition tx_append :: "u8 list \<Rightarrow> Modbus_Master \<Rightarrow> Modbus_Master" where
  "tx_append bs m =
     m\<lparr>tx_buf := take (unat (tx_len m)) (tx_buf m) @ bs @
                 drop (unat (tx_len m) + length bs) (tx_buf m),
       tx_len := tx_len m + of_nat (length bs)\<rparr>"

lemma tx_append_simps [simp]:
  "slave_id (tx_append bs m) = slave_id m"
  "func_code (tx_append bs m) = func_code m"
  "read_addr (tx_append bs m) = read_addr m"
  "read_qty (tx_append bs m) = read_qty m"
  "write_addr (tx_append bs m) = write_addr m"
  "write_qty (tx_append bs m) = write_qty m"
  "rx_buf (tx_append bs m) = rx_buf m"
  "rx_len (tx_append bs m) = rx_len m"
  "uart1_sent (tx_append bs m) = uart1_sent m"
  by (simp_all add: tx_append_def)

lemma unat_u16_add_of_nat:
  "unat (x :: u16) + n < 65536 \<Longrightarrow> unat (x + of_nat n) = unat x + n"
  by (simp add: unat_word_ariths unat_of_nat)

lemma tx_append_bytes:
  assumes "length (tx_buf m) = 512" "unat (tx_len m) + length bs \<le> 512"
  shows "tx_bytes (tx_append bs m) = tx_bytes m @ bs"
    and "length (tx_buf (tx_append bs m)) = 512"
    and "unat (tx_len (tx_append bs m)) = unat (tx_len m) + length bs"
proof -
  show "unat (tx_len (tx_append bs m)) = unat (tx_len m) + length bs"
    using assms by (simp add: tx_append_def unat_u16_add_of_nat)
  then show "tx_bytes (tx_append bs m) = tx_bytes m @ bs"
    using assms by (simp add: tx_bytes_def) (simp add: tx_append_def)
  show "length (tx_buf (tx_append bs m)) = 512"
    using assms by (simp add: tx_append_def)
qed

lemma tx_append_Nil: "tx_append [] m = m"
  by (simp add: tx_append_def)

lemma tx_put_eq_append:
  assumes "length (tx_buf m) = 512" "unat (tx_len m) < 512"
  shows "tx_put b m = Done (tx_append [b] m)"
  using assms by (simp add: tx_put_def tx_append_def upd_conv_take_nth_drop)

lemma tx_append_append:
  assumes "length (tx_buf m) = 512" "unat (tx_len m) + length xs + length ys \<le> 512"
  shows "tx_append ys (tx_append xs m) = tx_append (xs @ ys) m"
proof -
  have "unat (tx_len m + of_nat (length xs)) = unat (tx_len m) + length xs"
    using assms by (simp add: unat_u16_add_of_nat)
  then show ?thesis
    using assms by (simp add: tx_append_def algebra_simps)
qed

lemma tx_puts:
  assumes "length (tx_buf m) = 512" "unat (tx_len m) + length bs \<le> 512"
  shows "run_steps (map tx_put bs) m = Done (tx_append bs m)"
  using assms
proof (induction bs arbitrary: m)
  case Nil
  then show ?case by (simp add: tx_append_Nil)
next
  case (Cons b bs)
  then show ?case
    using tx_append_bytes(2,3) [of m "[b]"] tx_append_append [of m "[b]" bs]
    by (simp add: tx_put_eq_append)
qed

lemma append_crc_eq:
  assumes "length (tx_buf m) = 512" "unat (tx_len m) \<le> 255"
  shows "append_crc m = Done (tx_append [lo8 (crc16_ref (tx_bytes m)), hi8 (crc16_ref (tx_bytes m))] m)"
proof -
  have len: "unat (ucast (tx_len m) :: u8) = unat (tx_len m)"
    using assms(2) by (simp add: unsigned_ucast_eq take_bit_nat_eq_self)
  have "append_crc m = run_steps (map tx_put
      [lo8 (modbus_crc16 (tx_buf m) (ucast (tx_len m))), hi8 (modbus_crc16 (tx_buf m) (ucast (tx_len m)))]) m"
    by (simp add: append_crc_def lo8_def hi8_def Let_def)
  also have "modbus_crc16 (tx_buf m) (ucast (tx_len m)) = crc16_ref (tx_bytes m)"
    using assms len by (simp add: modbus_crc16_eq_ref tx_bytes_def)
  finally show ?thesis
    using assms by (simp add: tx_puts del: run_steps.simps list.map)
qed

lemma put_header_eq:
  assumes "length (tx_buf m) = 512"
  shows "put_header a v m =
    Done (tx_append [slave_id m, func_code m, hi8 a, lo8 a, hi8 v, lo8 v] (m\<lparr>tx_len := 0\<rparr>))"
proof -
  have "put_header a v m =
    run_steps (map tx_put [slave_id m, func_code m, hi8 a, lo8 a, hi8 v, lo8 v]) (m\<lparr>tx_len := 0\<rparr>)"
    by (simp add: put_header_def hi8_def lo8_def)
  then show ?thesis
    using assms by (simp add: tx_puts del: run_steps.simps list.map)
qed

section \<open>The receive buffer\<close>

lemma uart_event_step_fields [simp]:
  "slave_id (uart_event_step e m) = slave_id m"
  "func_code (uart_event_step e m) = func_code m"
  "read_qty (uart_event_step e m) = read_qty m"
  "write_addr (uart_event_step e m) = write_addr m"
  "write_qty (uart_event_step e m) = write_qty m"
  "tx_buf (uart_event_step e m) = tx_buf m"
  "tx_len (uart_event_step e m) = tx_len m"
  "uart1_sent (uart_event_step e m) = uart1_sent m"
  "rx_enable (uart_event_step e m) = rx_enable m"
  by (cases e; simp add: uart0_receive_one_byte_def uart0_receive_complete_def)+

lemma uart_events_fields [simp]:
  "slave_id (fold uart_event_step evs m) = slave_id m"
  "func_code (fold uart_event_step evs m) = func_code m"
  "read_qty (fold uart_event_step evs m) = read_qty m"
  "write_addr (fold uart_event_step evs m) = write_addr m"
  "write_qty (fold uart_event_step evs m) = write_qty m"
  "tx_buf (fold uart_event_step evs m) = tx_buf m"
  "tx_len (fold uart_event_step evs m) = tx_len m"
  "uart1_sent (fold uart_event_step evs m) = uart1_sent m"
  "rx_enable (fold uart_event_step evs m) = rx_enable m"
  by (induction evs arbitrary: m; simp)+

lemma uart_event_step_wf: "wf_master m \<Longrightarrow> wf_master (uart_event_step e m)"
  by (cases e)
    (auto simp: wf_master_def uart0_receive_one_byte_def uart0_receive_complete_def unat_mod)

lemma uart_events_wf: "wf_master m \<Longrightarrow> wf_master (fold uart_event_step evs m)"
  by (induction evs arbitrary: m) (auto simp: uart_event_step_wf)

lemma receive_byte:
  assumes "rx_enable m" "length (rx_buf m) = 512" "unat (rx_len m) < 511"
  shows "rx_enable (uart0_receive_one_byte b m)"
    and "length (rx_buf (uart0_receive_one_byte b m)) = 512"
    and "unat (rx_len (uart0_receive_one_byte b m)) = Suc (unat (rx_len m))"
    and "rx_bytes (uart0_receive_one_byte b m) = rx_bytes m @ [b]"
proof -
  have "unat ((rx_len m + 1) mod 512) = Suc (unat (rx_len m))"
    using assms unat_u16_add_of_nat [of "rx_len m" 1] by (simp add: unat_mod)
  then show "rx_enable (uart0_receive_one_byte b m)"
    "length (rx_buf (uart0_receive_one_byte b m)) = 512"
    "unat (rx_len (uart0_receive_one_byte b m)) = Suc (unat (rx_len m))"
    "rx_bytes (uart0_receive_one_byte b m) = rx_bytes m @ [b]"
    using assms by (simp_all add: uart0_receive_one_byte_def rx_bytes_def take_list_update_same_length)
qed

lemma receive_bytes:
  assumes "rx_enable m" "length (rx_buf m) = 512" "unat (rx_len m) + length bs < 512"
  shows "rx_bytes (fold uart_event_step (map Rx_byte bs) m) = rx_bytes m @ bs \<and>
    unat (rx_len (fold uart_event_step (map Rx_byte bs) m)) = unat (rx_len m) + length bs \<and>
    length (rx_buf (fold uart_event_step (map Rx_byte bs) m)) = 512"
  using assms
proof (induction bs arbitrary: m)
  case Nil
  then show ?case by simp
next
  case (Cons b bs)
  then have "unat (rx_len m) < 511" by simp
  note step = receive_byte [OF Cons.prems(1,2) this, of b]
  show ?case
    using Cons.IH [OF step(1,2)] Cons.prems step(3,4) by simp
qed

section \<open>What a validated response is\<close>

definition rtu_frame :: "u8 list \<Rightarrow> u8 list" where
  "rtu_frame body = body @ [lo8 (crc16_ref body), hi8 (crc16_ref body)]"

lemma length_rtu_frame [simp]: "length (rtu_frame body) = length body + 2"
  by (simp add: rtu_frame_def)

lemma crc16_rtu_frame: "crc16_ref (rtu_frame body) = 0"
  by (simp add: rtu_frame_def crc16_ref_residue)

lemma echo_check_iff:
  "echo_check a v m \<longleftrightarrow> rx_buf m ! 2 = hi8 a \<and> rx_buf m ! 3 = lo8 a \<and>
     rx_buf m ! 4 = hi8 v \<and> rx_buf m ! 5 = lo8 v"
  by (simp add: echo_check_def hilo)

lemma rx_bytes_nth: "i < unat (rx_len m) \<Longrightarrow> rx_bytes m ! i = rx_buf m ! i"
  by (simp add: rx_bytes_def)

text \<open>
  Up to the 257 bytes whose CRC the driver can compute with its 8-bit length, a response is
  accepted exactly when it is a body of at least three bytes from the addressed slave for
  the requested function, followed by the CRC of that body.
\<close>

lemma validate_rx_iff:
  assumes "wf_master m" "unat (rx_len m) \<le> 257"
  shows "modbus_master_validate_rx m \<longleftrightarrow>
    (\<exists>body. 3 \<le> length body \<and> rx_bytes m = rtu_frame body \<and>
            body ! 0 = slave_id m \<and> body ! 1 = func_code m)"
proof (cases "unat (rx_len m) < 5")
  case True
  have "length (rx_bytes m) = unat (rx_len m)"
    using assms(1) by (simp add: rx_bytes_def wf_master_def)
  with True show ?thesis
    by (auto simp: modbus_master_validate_rx_def dest: arg_cong [where f = length])
next
  case False
  define n where "n = unat (rx_len m) - 2"
  define body where "body = take n (rx_buf m)"
  have len: "length (rx_buf m) = 512" "unat (rx_len m) = n + 2" "n \<le> 255" "3 \<le> n"
    using assms False by (auto simp: wf_master_def n_def)
  have "unat (rx_len m - 2) = n"
    using False n_def by (subst unat_sub) (auto simp: word_le_nat_alt)
  then have crc: "modbus_crc16 (rx_buf m) (ucast (rx_len m - 2)) = crc16_ref body"
    using len by (simp add: modbus_crc16_eq_ref unsigned_ucast_eq take_bit_nat_eq_self body_def)
  have rx: "rx_bytes m = body @ [rx_buf m ! n, rx_buf m ! Suc n]"
    using len by (simp add: rx_bytes_def body_def take_Suc_conv_app_nth)
  have "length body = n"
    using len by (simp add: body_def)
  then have "(\<exists>b. 3 \<le> length b \<and> rx_bytes m = rtu_frame b \<and> b ! 0 = slave_id m \<and> b ! 1 = func_code m)
    \<longleftrightarrow> rx_bytes m = rtu_frame body \<and> body ! 0 = slave_id m \<and> body ! 1 = func_code m"
    using rx len by (auto simp: rtu_frame_def)
  moreover have "modbus_master_validate_rx m \<longleftrightarrow>
      rx_buf m ! n = lo8 (crc16_ref body) \<and> rx_buf m ! Suc n = hi8 (crc16_ref body) \<and>
      rx_buf m ! 0 = slave_id m \<and> rx_buf m ! 1 = func_code m"
    using False len by (auto simp: modbus_master_validate_rx_def Let_def crc hilo n_def [symmetric])
  moreover have "body ! 0 = rx_buf m ! 0" "body ! 1 = rx_buf m ! 1"
    using len by (simp_all add: body_def)
  ultimately show ?thesis
    by (auto simp: rx rtu_frame_def)
qed

lemma crc16_ref_update:
  assumes "i < length bs" "crc16_ref (bs[i := b]) = crc16_ref bs"
  shows "bs ! i = b"
proof -
  have "bs = take i bs @ bs ! i # drop (Suc i) bs"
    using assms(1) by (rule id_take_nth_drop)
  then show ?thesis
    using assms upd_conv_take_nth_drop [OF assms(1), of b]
    by (metis crc16_ref_one_byte)
qed

section \<open>The exchange as an interface\<close>

text \<open>
  The request functions only see \<open>master->master_command\<close>. What they need of it is that it
  returns and leaves the fields that describe the outstanding request alone.
\<close>

locale modbus_link =
  fixes cmd :: master_command
  assumes cmd_request: "cmd m = Done (b, m') \<Longrightarrow>
      slave_id m' = slave_id m \<and> func_code m' = func_code m \<and> read_qty m' = read_qty m \<and>
      write_addr m' = write_addr m \<and> write_qty m' = write_qty m"
    and cmd_wf: "wf_master m \<Longrightarrow> cmd m = Done (b, m') \<Longrightarrow> wf_master m'"
    and cmd_no_restart: "cmd m \<noteq> Restarted x"
begin

lemma request_accepts:
  "request_tail cmd check tr r (Done m) = Done (True, r', m') \<longleftrightarrow>
     cmd m = Done (True, m') \<and> modbus_master_validate_rx m' \<and> check m' \<and> tr m' = Done r'"
  by (auto split: outcome.splits prod.splits bool.splits if_splits)

lemma request_fails_keeps_result:
  "request_tail cmd check tr r (Done m) = Done (False, r', m') \<Longrightarrow> r' = r"
  by (auto split: outcome.splits prod.splits bool.splits if_splits)

lemma write_single_coil_accepts:
  assumes "length (tx_buf m) = 512"
    and "modbus_master_write_single_coil cmd i a v m = Done (True, u, m')"
  shows "modbus_master_validate_rx m' \<and> slave_id m' = i \<and> func_code m' = FUNC_WRITE_SINGLE_COIL \<and>
    rx_buf m' ! 2 = 0 \<and> rx_buf m' ! 3 = a \<and> rx_buf m' ! 4 = (if v = 1 then 0xFF else 0) \<and>
    rx_buf m' ! 5 = 0"
proof -
  have "hi8 (coil_word v) = (if v = 1 then 0xFF else 0)" "lo8 (coil_word v) = 0"
    by (simp_all add: coil_word_def hi8_def lo8_def)
  moreover have "request_tail cmd (\<lambda>m'. echo_check (write_addr m') (coil_word v) m') (\<lambda>_. Done ()) ()
      (Done (tx_append [i, FUNC_WRITE_SINGLE_COIL, hi8 (ucast a), lo8 (ucast a),
                        hi8 (coil_word v), lo8 (coil_word v)]
             (m\<lparr>slave_id := i, func_code := FUNC_WRITE_SINGLE_COIL, write_addr := ucast a, tx_len := 0\<rparr>)))
      = Done (True, u, m')"
    using assms by (simp add: modbus_master_write_single_coil_def Let_def put_header_eq del: request_tail.simps)
  ultimately show ?thesis
    unfolding request_accepts by (auto simp: echo_check_iff dest!: cmd_request)
qed

end

lemma deliver_Done_iff:
  "deliver evs r = Done x \<longleftrightarrow> (\<exists>m. r = Done m \<and> x = await_reply evs (start_exchange m))"
  by (cases r) auto

lemma tx_put_Done: "tx_put b m = Done m' \<Longrightarrow>
  m' = m\<lparr>tx_buf := (tx_buf m)[unat (tx_len m) := b], tx_len := tx_len m + 1\<rparr> \<and> unat (tx_len m) < 512"
  by (auto simp: tx_put_def split: if_splits)

lemma append_crc_Done: "append_crc m = Done m' \<Longrightarrow>
  \<exists>t l. m' = m\<lparr>tx_buf := t, tx_len := l\<rparr> \<and> length t = length (tx_buf m) \<and> unat l \<le> 512"
proof -
  assume "append_crc m = Done m'"
  then obtain m1 b c where "tx_put b m = Done m1" "tx_put c m1 = Done m'"
    by (auto simp: append_crc_def Let_def tx_put_def split: if_splits)
  then have "m' = m\<lparr>tx_buf := tx_buf m', tx_len := tx_len m'\<rparr>"
    "length (tx_buf m') = length (tx_buf m)" "unat (tx_len m') \<le> 512"
    using unat_u16_add_of_nat [of "tx_len m1" 1] by (auto dest!: tx_put_Done)
  then show ?thesis by blast
qed

interpretation uart: modbus_link "master_send_receive evs" for evs
proof
  fix m b m'
  assume "master_send_receive evs m = Done (b, m')"
  then show "slave_id m' = slave_id m \<and> func_code m' = func_code m \<and> read_qty m' = read_qty m \<and>
      write_addr m' = write_addr m \<and> write_qty m' = write_qty m"
    by (auto simp: master_send_receive_def deliver_Done_iff await_reply_def start_exchange_def Let_def
        dest!: append_crc_Done)
next
  fix m b m'
  assume wf: "wf_master m" and "master_send_receive evs m = Done (b, m')"
  then obtain m1 where m1: "append_crc m = Done m1" and m': "(b, m') = await_reply evs (start_exchange m1)"
    by (auto simp: master_send_receive_def deliver_Done_iff)
  have "wf_master (start_exchange m1)"
    using wf append_crc_Done [OF m1] by (auto simp: wf_master_def start_exchange_def)
  then show "wf_master m'"
    using uart_events_wf m' by (auto simp: await_reply_def Let_def wf_master_def)
next
  fix m x
  have "append_crc m \<noteq> Restarted y" for y
    by (auto simp: append_crc_def Let_def tx_put_def)
  then show "master_send_receive evs m \<noteq> Restarted x"
    by (cases "append_crc m") (auto simp: master_send_receive_def)
qed

text \<open>A conforming exchange: the whole reply arrives and the line then goes idle.\<close>

definition reply_events :: "u8 list \<Rightarrow> uart_event list" where
  "reply_events reply = map Rx_byte reply @ [Rx_complete]"

lemma exchange_reply:
  assumes "length (tx_buf m) = 512" "length (rx_buf m) = 512" "unat (tx_len m) \<le> 255"
    "length reply < 512"
  obtains m' where "master_send_receive (reply_events reply) m = Done (True, m')"
    "rx_bytes m' = reply" "unat (rx_len m') = length reply" "wf_master m'"
    "slave_id m' = slave_id m" "func_code m' = func_code m" "read_qty m' = read_qty m"
    "write_addr m' = write_addr m" "write_qty m' = write_qty m"
    "uart1_sent m' = uart1_sent m @ [rtu_frame (tx_bytes m)]"
proof -
  let ?c = "crc16_ref (tx_bytes m)"
  define m1 where "m1 = tx_append [lo8 ?c, hi8 ?c] m"
  define m2 where "m2 = fold uart_event_step (map Rx_byte reply) (start_exchange m1)"
  define m' where "m' = (uart0_receive_complete m2)\<lparr>uart0_receive_semaphore := False, rx_enable := False\<rparr>"
  have m1: "append_crc m = Done m1"
    using assms by (simp add: append_crc_eq m1_def)
  have t: "tx_bytes m1 = tx_bytes m @ [lo8 ?c, hi8 ?c]" "length (tx_buf m1) = 512"
    "unat (tx_len m1) = unat (tx_len m) + 2"
    using assms tx_append_bytes [of m "[lo8 ?c, hi8 ?c]"] by (simp_all add: m1_def)
  have start: "rx_enable (start_exchange m1)" "length (rx_buf (start_exchange m1)) = 512"
    "rx_len (start_exchange m1) = 0" "rx_bytes (start_exchange m1) = []"
    using assms by (simp_all add: start_exchange_def m1_def rx_bytes_def)
  have rx: "rx_bytes m2 = reply" "unat (rx_len m2) = length reply" "length (rx_buf m2) = 512"
    using receive_bytes [OF start(1,2), of reply] start assms(4) by (simp_all add: m2_def)
  have run: "master_send_receive (reply_events reply) m = Done (True, m')"
    by (simp add: master_send_receive_def m1 await_reply_def reply_events_def m2_def [symmetric] m'_def
        uart0_receive_complete_def)
  have sent: "uart1_sent m' = uart1_sent m @ [rtu_frame (tx_bytes m)]"
    using t by (simp add: m'_def m2_def uart0_receive_complete_def start_exchange_def m1_def
        tx_bytes_def rtu_frame_def)
  have rx': "rx_bytes m' = reply" "unat (rx_len m') = length reply" "wf_master m'"
    using rx t assms
    by (simp_all add: m'_def uart0_receive_complete_def rx_bytes_def wf_master_def m2_def start_exchange_def)
  show thesis
    by (rule that [OF run rx' _ _ _ _ _ sent])
      (simp_all add: m'_def m2_def uart0_receive_complete_def start_exchange_def m1_def)
qed

end
