(* ===== verification/Modbus_Theorems.thy ===== *)
theory Modbus_Theorems
  imports Modbus_Master
begin

text \<open>
  What the Modbus driver guarantees: its CRC is the standard one, a response with one wrong
  byte is rejected, reading coils and registers returns exactly what a conforming slave
  sent, writes are acknowledged only by a matching echo, and the receive interrupt never
  leaves its buffer. Two theorems record where the driver falls short: the coil values of a
  multiple write never reach the wire, and a long register write runs off the transmit
  buffer.
\<close>

section \<open>CRC and validation\<close>

text \<open>
  C4: the table-driven checksum of the first \<open>length\<close> bytes of a frame is their CRC-16 computed
  bit by bit with the polynomial of the Modbus standard.
\<close>

theorem modbus_crc16_correct:
  assumes "unat len \<le> length frame"
  shows "modbus_crc16 frame len = crc16_ref (take (unat len) frame)"
  using assms by (rule modbus_crc16_eq_ref)

text \<open>
  C23: a received frame that passes the validation no longer passes it after any one of its
  bytes was changed to any other value.
\<close>

theorem corrupted_response_rejected:
  assumes wf: "wf_master m" and len: "unat (rx_len m) \<le> 257"
    and valid: "modbus_master_validate_rx m"
    and i: "i < unat (rx_len m)" and b: "b \<noteq> rx_buf m ! i"
  shows "\<not> modbus_master_validate_rx (m\<lparr>rx_buf := (rx_buf m)[i := b]\<rparr>)"
proof
  let ?m = "m\<lparr>rx_buf := (rx_buf m)[i := b]\<rparr>"
  assume valid': "modbus_master_validate_rx ?m"
  have wf': "wf_master ?m"
    using wf by (simp add: wf_master_def)
  have "rx_bytes ?m = (rx_bytes m)[i := b]"
    using i by (simp add: rx_bytes_def take_update_swap)
  moreover have "crc16_ref (rx_bytes m) = 0" "crc16_ref (rx_bytes ?m) = 0"
    using validate_rx_iff [OF wf len] validate_rx_iff [OF wf'] len valid valid'
    by (auto simp: crc16_rtu_frame)
  moreover have "i < length (rx_bytes m)"
    using wf i by (simp add: rx_bytes_def wf_master_def)
  ultimately have "rx_bytes m ! i = b"
    using crc16_ref_update by metis
  with b i show False
    by (simp add: rx_bytes_nth)
qed

section \<open>Reading\<close>

text \<open>How a slave packs coils into the data bytes of its response, lowest coil first.\<close>

fun pack8 :: "u8 list \<Rightarrow> u8" where
  "pack8 [] = 0"
| "pack8 (v # vs) = (v AND 1) OR (2 * pack8 vs)"

definition coil_bytes :: "u8 list \<Rightarrow> u8 list" where
  "coil_bytes vs = map (\<lambda>j. pack8 (take 8 (drop (8 * j) vs))) [0..<(length vs + 7) div 8]"

lemma bit_pack8: "bit (pack8 vs) k \<longleftrightarrow> k < 8 \<and> k < length vs \<and> bit (vs ! k) 0"
proof (induction vs arbitrary: k)
  case Nil
  then show ?case by simp
next
  case (Cons v vs)
  have "bit (2 * pack8 vs) k \<longleftrightarrow> k < 8 \<and> k \<noteq> 0 \<and> bit (pack8 vs) (k - 1)"
    unfolding bit_double_iff possible_bit_def by auto
  moreover have "bit (v AND 1) k \<longleftrightarrow> k = 0 \<and> bit v 0"
    unfolding bit_and_iff bit_1_iff by auto
  ultimately have "bit (pack8 (v # vs)) k \<longleftrightarrow>
      (k = 0 \<and> bit v 0) \<or> (k < 8 \<and> k \<noteq> 0 \<and> bit (pack8 vs) (k - 1))"
    unfolding pack8.simps bit_or_iff by blast
  then show ?case
    using Cons.IH [of "k - 1"] by (cases k) auto
qed

lemma length_coil_bytes [simp]: "length (coil_bytes vs) = (length vs + 7) div 8"
  by (simp add: coil_bytes_def)

lemma coil_of_bytes:
  assumes "k < length vs"
  shows "0x01 AND drop_bit (k mod 8) (coil_bytes vs ! (k div 8)) = vs ! k AND 1"
proof (rule bit_word_eqI)
  fix n
  have "k div 8 < (length vs + 7) div 8" "8 * (k div 8) + k mod 8 = k"
    using assms by auto
  moreover from this have "k mod 8 < length vs - 8 * (k div 8)"
    using assms by linarith
  ultimately have "bit (coil_bytes vs ! (k div 8)) (k mod 8) = bit (vs ! k) 0"
    using assms by (simp add: coil_bytes_def bit_pack8)
  then show "bit (0x01 AND drop_bit (k mod 8) (coil_bytes vs ! (k div 8))) n = bit (vs ! k AND 1) n"
    by (auto simp: bit_and_iff bit_1_iff bit_drop_bit_eq)
qed

lemma coil_count_word:
  "(if ucast qty mod 8 = (0 :: u16) then ucast qty div 8 else ucast qty div 8 + 1) =
     (of_nat ((unat (qty :: u8) + 7) div 8) :: u16)"
proof -
  have u: "unat (ucast qty :: u16) = unat qty"
    by (simp add: unsigned_ucast_eq take_bit_nat_eq_self order.strict_trans [OF unat_u8_less])
  have "ucast qty mod 8 = (0 :: u16) \<longleftrightarrow> unat qty mod 8 = 0"
    using u by (simp add: word_unat_eq_iff unat_mod)
  moreover have "unat (ucast qty div 8 :: u16) = unat qty div 8"
    using u by (simp add: unat_div)
  moreover have "unat (ucast qty div 8 + 1 :: u16) = unat qty div 8 + 1"
    using \<open>unat (ucast qty div 8 :: u16) = unat qty div 8\<close> unat_u16_add_of_nat [of "ucast qty div 8" 1]
      div_le_dividend [of "unat qty" 8] unat_u8_less [of qty] by simp
  moreover have "(unat qty + 7) div 8 < 65536"
    using unat_u8_less [of qty] by linarith
  then have "unat (of_nat ((unat qty + 7) div 8) :: u16) = (unat qty + 7) div 8"
    by (simp add: unat_of_nat)
  ultimately show ?thesis
    by (auto simp: word_unat_eq_iff) presburger+
qed

text \<open>
  Both reading functions hand over to \<open>request_tail\<close> with a response that is a valid frame
  for the outstanding request.
\<close>

lemma exchange_frame_valid:
  assumes "length (tx_buf m) = 512" "length (rx_buf m) = 512" "unat (tx_len m) \<le> 255"
    and "3 \<le> length body" "length body \<le> 255"
    and "body ! 0 = slave_id m" "body ! 1 = func_code m"
  obtains m' where "master_send_receive (reply_events (rtu_frame body)) m = Done (True, m')"
    "modbus_master_validate_rx m'" "\<And>i. i < length body \<Longrightarrow> rx_buf m' ! i = body ! i"
    "read_qty m' = read_qty m" "write_addr m' = write_addr m" "write_qty m' = write_qty m"
    "uart1_sent m' = uart1_sent m @ [rtu_frame (tx_bytes m)]" "wf_master m'"
proof -
  have "length (rtu_frame body) < 512"
    using assms by simp
  then obtain m' where m': "master_send_receive (reply_events (rtu_frame body)) m = Done (True, m')"
      "rx_bytes m' = rtu_frame body" "unat (rx_len m') = length (rtu_frame body)" "wf_master m'"
      "slave_id m' = slave_id m" "func_code m' = func_code m" "read_qty m' = read_qty m"
      "write_addr m' = write_addr m" "write_qty m' = write_qty m"
      "uart1_sent m' = uart1_sent m @ [rtu_frame (tx_bytes m)]"
    using exchange_reply [OF assms(1,2,3)] by metis
  have "modbus_master_validate_rx m'"
    using m' assms validate_rx_iff [of m'] by auto
  moreover have "rx_buf m' ! i = body ! i" if "i < length body" for i
    using that m'(2,3) rx_bytes_nth [of i m'] by (simp add: rtu_frame_def nth_append)
  ultimately show thesis
    using m' by (intro that [of m']) auto
qed

lemma header_exchange:
  assumes bufs: "length (tx_buf m) = 512" "length (rx_buf m) = 512"
    and body: "3 \<le> length body" "length body \<le> 255" "body ! 0 = slave_id m" "body ! 1 = func_code m"
  obtains m2 m' where "put_header a v m = Done m2"
    "master_send_receive (reply_events (rtu_frame body)) m2 = Done (True, m')"
    "modbus_master_validate_rx m'" "\<forall>k<length body. rx_buf m' ! k = body ! k"
    "read_qty m' = read_qty m" "write_addr m' = write_addr m" "write_qty m' = write_qty m"
    "uart1_sent m' = uart1_sent m @ [rtu_frame [slave_id m, func_code m, hi8 a, lo8 a, hi8 v, lo8 v]]" "wf_master m'"
proof -
  let ?req = "[slave_id m, func_code m, hi8 a, lo8 a, hi8 v, lo8 v]"
  define m2 where "m2 = tx_append ?req (m\<lparr>tx_len := 0\<rparr>)"
  have hdr: "put_header a v m = Done m2"
    using bufs by (simp add: put_header_eq m2_def)
  have m2: "tx_bytes m2 = ?req" "length (tx_buf m2) = 512" "unat (tx_len m2) \<le> 255"
      "length (rx_buf m2) = 512"
    using bufs tx_append_bytes [of "m\<lparr>tx_len := 0\<rparr>" ?req] by (simp_all add: m2_def tx_bytes_def)
  have "body ! 0 = slave_id m2" "body ! 1 = func_code m2"
    using body by (simp_all add: m2_def)
  from exchange_frame_valid [OF m2(2,4,3) body(1,2) this] obtain m' where
      m': "master_send_receive (reply_events (rtu_frame body)) m2 = Done (True, m')"
      "modbus_master_validate_rx m'" "\<And>k. k < length body \<Longrightarrow> rx_buf m' ! k = body ! k"
      "read_qty m' = read_qty m2" "write_addr m' = write_addr m2" "write_qty m' = write_qty m2"
      "uart1_sent m' = uart1_sent m2 @ [rtu_frame (tx_bytes m2)]" "wf_master m'"
    by metis
  show thesis
    by (rule that [OF hdr m'(1,2)]) (use m' m2 in \<open>simp_all add: m2_def\<close>)
qed

lemma read_coils_reply:
  assumes bufs: "length (tx_buf m) = 512" "length (rx_buf m) = 512"
    and vals: "length vals = unat qty" "set vals \<subseteq> {0, 1}" "0 < unat qty"
    and res: "unat qty \<le> length result"
  shows "\<exists>m'. modbus_master_read_coils
      (master_send_receive (reply_events
         (rtu_frame ([i, FUNC_READ_COILS, of_nat ((unat qty + 7) div 8)] @ coil_bytes vals))))
      i start qty result m = Done (True, vals @ drop (unat qty) result, m') \<and>
    uart1_sent m' = uart1_sent m @ [rtu_frame [i, FUNC_READ_COILS, 0, start, 0, qty]] \<and> wf_master m'"
proof -
  let ?n = "(unat qty + 7) div 8"
  let ?body = "[i, FUNC_READ_COILS, of_nat ?n] @ coil_bytes vals"
  define m1 where "m1 = m\<lparr>slave_id := i, func_code := FUNC_READ_COILS, read_addr := ucast start,
    read_qty := ucast qty\<rparr>"
  have n: "?n \<le> 32"
    using unat_u8_less [of qty] by linarith
  have pre: "length (tx_buf m1) = 512" "length (rx_buf m1) = 512" "3 \<le> length ?body"
      "length ?body \<le> 255" "?body ! 0 = slave_id m1" "?body ! 1 = func_code m1"
    using bufs n vals by (simp_all add: m1_def)
  obtain m2 m' where m': "put_header (ucast start) (ucast qty) m1 = Done m2"
      "master_send_receive (reply_events (rtu_frame ?body)) m2 = Done (True, m')"
      "modbus_master_validate_rx m'" "\<forall>k<length ?body. rx_buf m' ! k = ?body ! k"
      "read_qty m' = read_qty m1" "write_addr m' = write_addr m1" "write_qty m' = write_qty m1"
      "uart1_sent m' = uart1_sent m1 @ [rtu_frame [slave_id m1, func_code m1,
         hi8 (ucast start), lo8 (ucast start), hi8 (ucast qty), lo8 (ucast qty)]]" "wf_master m'"
    using header_exchange [OF pre, of "ucast start" "ucast qty"] by metis
  have rq: "read_qty m' = ucast qty" and b2: "rx_buf m' ! 2 = of_nat ?n"
    using m'(5) m'(4) by (simp_all add: m1_def)
  have cnt: "ucast (of_nat ?n :: u8) = (of_nat ?n :: u16)"
    using n by (simp add: word_unat_eq_iff unsigned_ucast_eq unat_of_nat take_bit_nat_eq_self)
  have chk: "ucast (rx_buf m' ! 2) =
      (if read_qty m' mod 8 = 0 then read_qty m' div 8 else read_qty m' div 8 + 1)"
    unfolding rq b2 coil_count_word by (rule cnt)
  have "0x01 AND drop_bit (k mod 8) (rx_buf m' ! (3 + k div 8)) = vals ! k" if "k < unat qty" for k
  proof -
    have "rx_buf m' ! (3 + k div 8) = coil_bytes vals ! (k div 8)"
      using that vals m'(4) [rule_format, of "3 + k div 8"] by simp
    moreover have "vals ! k \<in> {0, 1}"
      using that vals nth_mem [of k vals] by (metis in_mono)
    then have "vals ! k AND 1 = vals ! k"
      by auto
    ultimately show ?thesis
      using coil_of_bytes [of k vals] that vals by simp
  qed
  then have "map (\<lambda>k. 0x01 AND drop_bit (k mod 8) (rx_buf m' ! (3 + k div 8))) [0..<unat qty] = vals"
    using vals by (auto intro: nth_equalityI)
  then have "store_coils (rx_buf m') (unat qty) result = Done (vals @ drop (unat qty) result)"
    using res by (simp add: store_coils_def store_loop_Done)
  then show ?thesis
    using m' chk by (simp add: modbus_master_read_coils_def Let_def m1_def [symmetric])
      (simp add: m1_def)
qed


definition reg_bytes :: "u16 list \<Rightarrow> u8 list" where
  "reg_bytes vs = concat (map (\<lambda>v. [hi8 v, lo8 v]) vs)"

lemma length_reg_bytes [simp]: "length (reg_bytes vs) = 2 * length vs"
  by (induction vs) (simp_all add: reg_bytes_def)

lemma reg_bytes_nth:
  "k < length vs \<Longrightarrow> reg_bytes vs ! (k * 2) = hi8 (vs ! k) \<and> reg_bytes vs ! Suc (k * 2) = lo8 (vs ! k)"
proof (induction vs arbitrary: k)
  case Nil
  then show ?case by simp
next
  case (Cons v vs)
  then show ?case by (cases k) (simp_all add: reg_bytes_def)
qed

lemma join_arith: "ucast h * 256 + ucast l = join8 h l"
proof -
  have "push_bit 8 (ucast h :: u16) = ucast h * 256"
    by (simp add: push_bit_eq_mult)
  moreover have "push_bit 8 (ucast h :: u16) AND ucast l = 0"
    by (rule bit_word_eqI) (auto simp: bit_and_iff bit_push_bit_iff bit_ucast_iff dest: bit_imp_le_length)
  ultimately show ?thesis
    by (simp add: join8_def disjunctive_add_eq_or)
qed

lemma read_holding_regs_reply:
  assumes bufs: "length (tx_buf m) = 512" "length (rx_buf m) = 512"
    and vals: "length vals = unat qty" "0 < unat qty" "unat qty \<le> 126"
    and res: "unat qty \<le> length regs"
  shows "\<exists>m'. modbus_master_read_holding_regs
      (master_send_receive (reply_events
         (rtu_frame ([i, FUNC_READ_HOLDING_REGISTER, 2 * qty] @ reg_bytes vals))))
      i start qty regs m = Done (True, vals @ drop (unat qty) regs, m') \<and>
    uart1_sent m' = uart1_sent m @ [rtu_frame [i, FUNC_READ_HOLDING_REGISTER, 0, start, 0, qty]] \<and> wf_master m'"
proof -
  let ?body = "[i, FUNC_READ_HOLDING_REGISTER, 2 * qty] @ reg_bytes vals"
  define m1 where "m1 = m\<lparr>slave_id := i, func_code := FUNC_READ_HOLDING_REGISTER,
    read_addr := ucast start, read_qty := ucast qty\<rparr>"
  have pre: "length (tx_buf m1) = 512" "length (rx_buf m1) = 512" "3 \<le> length ?body"
      "length ?body \<le> 255" "?body ! 0 = slave_id m1" "?body ! 1 = func_code m1"
    using bufs vals by (simp_all add: m1_def)
  obtain m2 m' where m': "put_header (ucast start) (ucast qty) m1 = Done m2"
      "master_send_receive (reply_events (rtu_frame ?body)) m2 = Done (True, m')"
      "modbus_master_validate_rx m'" "\<forall>k<length ?body. rx_buf m' ! k = ?body ! k"
      "read_qty m' = read_qty m1" "write_addr m' = write_addr m1" "write_qty m' = write_qty m1"
      "uart1_sent m' = uart1_sent m1 @ [rtu_frame [slave_id m1, func_code m1,
         hi8 (ucast start), lo8 (ucast start), hi8 (ucast qty), lo8 (ucast qty)]]" "wf_master m'"
    using header_exchange [OF pre, of "ucast start" "ucast qty"] by metis
  have u: "unat (ucast qty :: u16) = unat qty"
    by (simp add: unsigned_ucast_eq take_bit_nat_eq_self order.strict_trans [OF unat_u8_less])
  have rq: "read_qty m' = ucast qty" and b2: "rx_buf m' ! 2 = 2 * qty"
    using m'(5) m'(4) by (simp_all add: m1_def)
  have "unat (2 * qty) = 2 * unat qty" "unat (ucast qty * 2 :: u16) = 2 * unat qty"
    using vals u by (simp_all add: unat_word_ariths)
  then have chk: "ucast (rx_buf m' ! 2) = read_qty m' * 2"
    using vals by (simp add: rq b2 word_unat_eq_iff unsigned_ucast_eq take_bit_nat_eq_self)
  have "ucast (rx_buf m' ! (3 + k * 2)) * 256 + ucast (rx_buf m' ! (4 + k * 2)) = vals ! k"
    if "k < unat qty" for k
    using that vals m'(4) [rule_format, of "3 + k * 2"] m'(4) [rule_format, of "4 + k * 2"]
      reg_bytes_nth [of k vals] by (simp add: join_arith)
  then have "map (\<lambda>k. ucast (rx_buf m' ! (3 + k * 2)) * 256 + ucast (rx_buf m' ! (4 + k * 2)))
      [0..<unat qty] = vals"
    using vals by (auto intro: nth_equalityI)
  then have "store_regs (rx_buf m') (unat (read_qty m')) regs = Done (vals @ drop (unat qty) regs)"
    using res by (simp add: store_regs_def store_loop_Done rq u)
  then show ?thesis
    using m' chk by (simp add: modbus_master_read_holding_regs_def Let_def m1_def [symmetric])
      (simp add: m1_def)
qed

text \<open>
  Reading up to 126 holding registers from a conforming slave returns the registers.
\<close>

theorem read_holding_regs_roundtrip:
  assumes bufs: "length (tx_buf m) = 512" "length (rx_buf m) = 512"
    and vals: "length vals = unat qty" "0 < unat qty" "unat qty \<le> 126"
    and res: "unat qty \<le> length regs"
  shows "\<exists>m'. modbus_master_read_holding_regs
      (master_send_receive (reply_events
         (rtu_frame ([i, FUNC_READ_HOLDING_REGISTER, 2 * qty] @ reg_bytes vals))))
      i start qty regs m = Done (True, vals @ drop (unat qty) regs, m') \<and>
    uart1_sent m' = uart1_sent m @ [rtu_frame [i, FUNC_READ_HOLDING_REGISTER, 0, start, 0, qty]]"
  using read_holding_regs_reply [OF assms, of i start] by blast

section \<open>Writing\<close>

text \<open>
  Any reply frame of six bytes from the addressed slave for the function in question: the
  write is acknowledged exactly when the reply repeats the request.
\<close>

lemma write_tail_echo:
  assumes bufs: "length (tx_buf m) = 512" "length (rx_buf m) = 512"
    and body: "length body = 6" "body ! 0 = slave_id m" "body ! 1 = func_code m"
    and addr: "write_addr m = a"
  shows "\<exists>m'. request_tail (master_send_receive (reply_events (rtu_frame body)))
      (\<lambda>m'. echo_check (write_addr m') v m') (\<lambda>_. Done ()) () (put_header a v m) =
      Done (body = [slave_id m, func_code m, hi8 a, lo8 a, hi8 v, lo8 v], (), m')"
proof -
  have "3 \<le> length body" "length body \<le> 255"
    using body by simp_all
  then obtain m2 m' where m': "put_header a v m = Done m2"
      "master_send_receive (reply_events (rtu_frame body)) m2 = Done (True, m')"
      "modbus_master_validate_rx m'" "\<forall>k<length body. rx_buf m' ! k = body ! k"
      "read_qty m' = read_qty m" "write_addr m' = write_addr m" "write_qty m' = write_qty m"
      "uart1_sent m' = uart1_sent m @ [rtu_frame [slave_id m, func_code m, hi8 a, lo8 a, hi8 v, lo8 v]]"
    using header_exchange [OF bufs _ _ body(2,3), of a v] by metis
  have "body = [body ! 0, body ! 1, body ! 2, body ! 3, body ! 4, body ! 5]"
    using body(1) by (intro nth_equalityI) (auto simp: less_Suc_eq numeral_eq_Suc)
  then have "echo_check a v m' \<longleftrightarrow> body = [slave_id m, func_code m, hi8 a, lo8 a, hi8 v, lo8 v]"
    using m'(4) body by (auto simp: echo_check_iff)
  then show ?thesis
    using m' addr by auto
qed

text \<open>A single coil write succeeds exactly when the slave echoes the request.\<close>

theorem write_single_coil_acknowledged:
  assumes bufs: "length (tx_buf m) = 512" "length (rx_buf m) = 512"
    and body: "length body = 6" "body ! 0 = i" "body ! 1 = FUNC_WRITE_SINGLE_COIL"
  shows "\<exists>m'. modbus_master_write_single_coil (master_send_receive (reply_events (rtu_frame body)))
      i address value m =
    Done (body = [i, FUNC_WRITE_SINGLE_COIL, 0, address, if value = 1 then 0xFF else 0, 0], (), m')"
proof -
  have "hi8 (coil_word value) = (if value = 1 then 0xFF else 0)" "lo8 (coil_word value) = 0"
    by (simp_all add: coil_word_def hi8_def lo8_def)
  then show ?thesis
    using write_tail_echo [of "m\<lparr>slave_id := i, func_code := FUNC_WRITE_SINGLE_COIL,
        write_addr := ucast address\<rparr>" body "ucast address" "coil_word value"] assms
    by (simp add: modbus_master_write_single_coil_def Let_def del: request_tail.simps)
qed

text \<open>A single register write succeeds exactly when the slave echoes the request.\<close>

theorem write_single_holding_reg_acknowledged:
  assumes bufs: "length (tx_buf m) = 512" "length (rx_buf m) = 512"
    and body: "length body = 6" "body ! 0 = i" "body ! 1 = FUNC_WRITE_REGISTER"
  shows "\<exists>m'. modbus_master_Write_single_holding_reg
      (master_send_receive (reply_events (rtu_frame body))) i address value m =
    Done (body = [i, FUNC_WRITE_REGISTER, 0, address, hi8 value, lo8 value], (), m')"
  using write_tail_echo [of "m\<lparr>slave_id := i, func_code := FUNC_WRITE_REGISTER,
        write_addr := ucast address\<rparr>" body "ucast address" "value"] assms
  by (simp add: modbus_master_Write_single_holding_reg_def Let_def del: request_tail.simps)

text \<open>What any exchange, answered or not, puts on the wire and returns.\<close>

lemma semaphore_after_events:
  "uart0_receive_semaphore (fold uart_event_step evs m) \<longleftrightarrow>
     uart0_receive_semaphore m \<or> Rx_complete \<in> set evs"
proof (induction evs arbitrary: m)
  case Nil
  then show ?case by simp
next
  case (Cons e evs)
  then show ?case
    by (cases e) (auto simp: uart0_receive_one_byte_def uart0_receive_complete_def)
qed

lemma exchange_sent:
  assumes "length (tx_buf m) = 512" "unat (tx_len m) \<le> 255"
  shows "\<exists>m'. master_send_receive evs m = Done (Rx_complete \<in> set evs, m') \<and>
    uart1_sent m' = uart1_sent m @ [rtu_frame (tx_bytes m)]"
proof -
  let ?c = "crc16_ref (tx_bytes m)"
  let ?m1 = "tx_append [lo8 ?c, hi8 ?c] m"
  have "tx_bytes ?m1 = rtu_frame (tx_bytes m)"
    using assms tx_append_bytes [of m "[lo8 ?c, hi8 ?c]"] by (simp add: rtu_frame_def)
  then show ?thesis
    using assms
    by (simp add: master_send_receive_def append_crc_eq await_reply_def Let_def semaphore_after_events)
      (simp add: start_exchange_def tx_bytes_def)
qed

lemma request_tail_const:
  assumes "cmd m = Done (b, m')"
  shows "\<exists>ok d. request_tail cmd check (\<lambda>_. Done r) r (Done m) = Done (ok, d, m')"
  using assms by (cases b) auto

text \<open>
  Whatever the coil values are, a multiple-coil write transmits the same nine bytes: the
  header, the byte count and the CRC. The packed data bytes are computed and dropped.
\<close>

theorem write_multiple_coils_drops_data:
  assumes "length (tx_buf m) = 512"
  shows "\<exists>ok d m'. modbus_master_write_multiple_coils (master_send_receive evs) data i start qty values m =
      Done (ok, d, m') \<and>
    uart1_sent m' = uart1_sent m @
      [rtu_frame [i, FUNC_WRITE_MULTIPLE_COILS, 0, start, 0, qty, coil_byte_count qty]]"
proof -
  let ?m0 = "m\<lparr>slave_id := i, func_code := FUNC_WRITE_MULTIPLE_COILS, write_addr := ucast start,
      write_qty := ucast qty, tx_len := 0\<rparr>"
  let ?hd = "[i, FUNC_WRITE_MULTIPLE_COILS, 0, start, 0, qty]"
  let ?m2 = "tx_append [coil_byte_count qty] (tx_append ?hd ?m0)"
  have h: "length (tx_buf (tx_append ?hd ?m0)) = 512" "unat (tx_len (tx_append ?hd ?m0)) = 6"
      "tx_bytes (tx_append ?hd ?m0) = ?hd"
    using tx_append_bytes [of ?m0 ?hd] assms by (simp_all add: tx_bytes_def)
  have "tx_bytes ?m2 = ?hd @ [coil_byte_count qty]" "length (tx_buf ?m2) = 512" "unat (tx_len ?m2) \<le> 255"
    using tx_append_bytes [of "tx_append ?hd ?m0" "[coil_byte_count qty]"] h by simp_all
  then obtain m' where m': "master_send_receive evs ?m2 = Done (Rx_complete \<in> set evs, m')"
      "uart1_sent m' = uart1_sent ?m2 @ [rtu_frame (?hd @ [coil_byte_count qty])]"
    using exchange_sent [of ?m2 evs] by metis
  let ?d = "pack_values values (unat qty) 0 (unat (coil_byte_count qty) * 8) data"
  obtain ok d where "request_tail (master_send_receive evs)
      (\<lambda>m'. echo_check (write_addr m') (write_qty m') m') (\<lambda>_. Done ?d) ?d (Done ?m2) = Done (ok, d, m')"
    using request_tail_const [of "master_send_receive evs" ?m2 "Rx_complete \<in> set evs" m'
        "\<lambda>m'. echo_check (write_addr m') (write_qty m') m'" ?d, OF m'(1)] by blast
  then have "modbus_master_write_multiple_coils (master_send_receive evs) data i start qty values m =
      Done (ok, d, m')"
    using assms h
    by (simp add: modbus_master_write_multiple_coils_def Let_def put_header_eq tx_put_eq_append
        del: request_tail.simps)
  then show ?thesis
    using m'(2) by simp
qed

text \<open>The registers of a multiple write, in the order the loop appends them.\<close>

lemma put_regs_eq:
  "put_regs values k n m = run_steps (map tx_put (reg_bytes (map (\<lambda>j. values ! j) [k..<k + n]))) m"
proof (induction n arbitrary: k m)
  case 0
  then show ?case by (simp add: reg_bytes_def)
next
  case (Suc n)
  have "[k..<k + Suc n] = k # [Suc k..<Suc k + n]"
    by (subst upt_conv_Cons) simp_all
  then show ?case
    using Suc.IH [of "Suc k"]
    by (simp add: reg_bytes_def hi8_def lo8_def and_then_assoc cong: and_then_cong del: upt_Suc)
qed

lemma tx_puts_overflow:
  assumes "length (tx_buf m) = 512" "unat (tx_len m) \<le> 512" "512 < unat (tx_len m) + length bs"
  shows "run_steps (map tx_put bs) m = Overflow ''tx_buf''"
  using assms
proof (induction bs arbitrary: m)
  case Nil
  then show ?case by simp
next
  case (Cons b bs)
  show ?case
  proof (cases "unat (tx_len m) < 512")
    case True
    then show ?thesis
      using Cons tx_append_bytes(2,3) [of m "[b]"] by (simp add: tx_put_eq_append)
  next
    case False
    then show ?thesis by (simp add: tx_put_def)
  qed
qed

definition multi_reg_request :: "u8 \<Rightarrow> u8 \<Rightarrow> u8 \<Rightarrow> u16 list \<Rightarrow> u8 list" where
  "multi_reg_request i start qty vals =
     [i, FUNC_WRITE_MULTIPLE_REGISTERS, 0, start, 0, qty, 2 * qty] @ reg_bytes vals"

lemma Write_multiple_eq:
  assumes "length (tx_buf m) = 512" "length vals = unat qty"
  shows "modbus_master_Write_multiple_holding_regs cmd i start qty vals m =
    request_tail cmd (\<lambda>m'. echo_check (write_addr m') (write_qty m') m') (\<lambda>_. Done ()) ()
      (run_steps (map tx_put (multi_reg_request i start qty vals))
         (m\<lparr>slave_id := i, func_code := FUNC_WRITE_MULTIPLE_REGISTERS, write_addr := ucast start,
            write_qty := ucast qty, tx_len := 0\<rparr>))"
proof -
  have u: "unat (ucast qty :: u16) = unat qty"
    by (simp add: unsigned_ucast_eq take_bit_nat_eq_self order.strict_trans [OF unat_u8_less])
  have b: "unat qty mod 65536 = unat qty" "2 * unat qty mod 65536 = 2 * unat qty"
    using unat_u8_less [of qty] by (auto intro!: mod_less simp del: unat_u8_less)
  have "ucast (2 * ucast qty :: u16) = (2 * qty :: u8)"
    by (simp add: word_unat_eq_iff unsigned_ucast_eq unat_word_ariths u take_bit_eq_mod b)
  moreover have "map ((!) vals) [0..<unat qty] = vals"
    using assms(2) by (simp add: map_upt_nth_eq)
  ultimately show ?thesis
    using assms(1)
    by (simp add: modbus_master_Write_multiple_holding_regs_def Let_def put_header_def put_regs_eq u
        multi_reg_request_def and_then_assoc hi8_def [symmetric] lo8_def [symmetric]
        cong: and_then_cong del: request_tail.simps)
qed

text \<open>
  A multiple-register write of up to 124 registers transmits the request of the protocol
  with all its data bytes, whatever the answer is.
\<close>

theorem write_multiple_holding_regs_frame:
  assumes "length (tx_buf m) = 512" "length vals = unat qty" "unat qty \<le> 124"
  shows "\<exists>ok m'. modbus_master_Write_multiple_holding_regs (master_send_receive evs) i start qty vals m =
      Done (ok, (), m') \<and>
    uart1_sent m' = uart1_sent m @ [rtu_frame (multi_reg_request i start qty vals)] \<and>
    (ok \<longrightarrow> Rx_complete \<in> set evs)"
proof -
  let ?m0 = "m\<lparr>slave_id := i, func_code := FUNC_WRITE_MULTIPLE_REGISTERS, write_addr := ucast start,
      write_qty := ucast qty, tx_len := 0\<rparr>"
  let ?req = "multi_reg_request i start qty vals"
  let ?m2 = "tx_append ?req ?m0"
  have len: "length ?req \<le> 255"
    using assms by (simp add: multi_reg_request_def)
  then have "tx_bytes ?m2 = ?req" "length (tx_buf ?m2) = 512" "unat (tx_len ?m2) \<le> 255"
    using tx_append_bytes [of ?m0 ?req] assms(1) by (simp_all add: tx_bytes_def)
  then obtain m' where m': "master_send_receive evs ?m2 = Done (Rx_complete \<in> set evs, m')"
      "uart1_sent m' = uart1_sent m @ [rtu_frame ?req]"
    using exchange_sent [of ?m2 evs] by auto
  have "run_steps (map tx_put ?req) ?m0 = Done ?m2"
    using tx_puts [of ?m0 ?req] len assms(1) by simp
  then show ?thesis
    using m' Write_multiple_eq [OF assms(1,2), of "master_send_receive evs" i start]
    by (cases "Rx_complete \<in> set evs") auto
qed

text \<open>
  With 252 or more registers, which the \<open>uint8_t\<close> argument allows, the request runs past
  the end of the 512-byte transmit buffer.
\<close>

theorem write_multiple_holding_regs_overflow:
  assumes "length (tx_buf m) = 512" "length vals = unat qty" "252 \<le> unat qty"
  shows "modbus_master_Write_multiple_holding_regs (master_send_receive evs) i start qty vals m =
    Overflow ''tx_buf''"
proof -
  let ?m0 = "m\<lparr>slave_id := i, func_code := FUNC_WRITE_MULTIPLE_REGISTERS, write_addr := ucast start,
      write_qty := ucast qty, tx_len := 0\<rparr>"
  let ?req = "multi_reg_request i start qty vals"
  have len: "length ?req = 7 + 2 * unat qty"
    using assms by (simp add: multi_reg_request_def)
  show ?thesis
  proof (cases "unat qty = 252")
    case True
    let ?m2 = "tx_append ?req ?m0"
    have "length (tx_buf ?m2) = 512" "unat (tx_len ?m2) = 511"
      using tx_append_bytes [of ?m0 ?req] assms(1) len True by simp_all
    then have "append_crc ?m2 = Overflow ''tx_buf''"
      using tx_puts_overflow [of ?m2 "[lo8 (modbus_crc16 (tx_buf ?m2) (ucast (tx_len ?m2))),
          hi8 (modbus_crc16 (tx_buf ?m2) (ucast (tx_len ?m2)))]"]
      by (simp add: append_crc_def Let_def lo8_def hi8_def)
    moreover have "run_steps (map tx_put ?req) ?m0 = Done ?m2"
      using tx_puts [of ?m0 ?req] len assms(1) True by simp
    ultimately show ?thesis
      by (simp add: Write_multiple_eq [OF assms(1,2)] master_send_receive_def)
  next
    case False
    then have "run_steps (map tx_put ?req) ?m0 = Overflow ''tx_buf''"
      using assms len by (intro tx_puts_overflow) simp_all
    then show ?thesis
      by (simp add: Write_multiple_eq [OF assms(1,2)])
  qed
qed

section \<open>Silence and interrupts\<close>

text \<open>
  An exchange during which \<open>uart0_receive_complete\<close> is never called fails, and the caller's
  array is left alone.
\<close>

theorem read_coils_silent:
  assumes "length (tx_buf m) = 512" "Rx_complete \<notin> set evs"
  shows "\<exists>m'. modbus_master_read_coils (master_send_receive evs) i start qty result m =
    Done (False, result, m')"
proof -
  let ?m0 = "m\<lparr>slave_id := i, func_code := FUNC_READ_COILS, read_addr := ucast start,
      read_qty := ucast qty, tx_len := 0\<rparr>"
  let ?m2 = "tx_append [i, FUNC_READ_COILS, 0, start, 0, qty] ?m0"
  have "length (tx_buf ?m2) = 512" "unat (tx_len ?m2) \<le> 255"
    using tx_append_bytes [of ?m0 "[i, FUNC_READ_COILS, 0, start, 0, qty]"] assms(1) by simp_all
  then obtain m' where "master_send_receive evs ?m2 = Done (False, m')"
    using exchange_sent [of ?m2 evs] assms(2) by auto
  then show ?thesis
    using assms(1) by (simp add: modbus_master_read_coils_def Let_def put_header_eq)
qed

text \<open>
  No sequence of receive interrupts writes outside \<open>rx_buf\<close> or lets \<open>rx_len\<close> leave it.
\<close>

theorem receive_interrupts_in_bounds:
  assumes "wf_master m"
  shows "wf_master (fold uart_event_step evs m)"
  using assms by (rule uart_events_wf)

section \<open>Witnesses\<close>

definition idle_master :: Modbus_Master where
  "idle_master = \<lparr>slave_id = 1, func_code = FUNC_READ_COILS, read_addr = 0, read_qty = 0,
     write_addr = 0, write_qty = 0, rx_enable = False, rx_buf = replicate 512 0, rx_len = 0,
     tx_buf = replicate 512 0, tx_len = 0, uart0_receive_semaphore = False, uart1_sent = []\<rparr>"

text \<open>The master after receiving the valid response 01 01 01 05 91 8B.\<close>

definition answered_master :: Modbus_Master where
  "answered_master = idle_master\<lparr>rx_buf := [1, 1, 1, 5, 0x91, 0x8B] @ replicate 506 0, rx_len := 6\<rparr>"

lemma idle_master_bufs [simp]:
  "length (tx_buf idle_master) = 512" "length (rx_buf idle_master) = 512" "uart1_sent idle_master = []"
  by (simp_all add: idle_master_def)

lemma idle_master_wf: "wf_master idle_master"
  by (simp add: wf_master_def) (simp add: idle_master_def)

theorem modbus_crc16_correct_witness:
  "modbus_crc16 [1, 1, 1, 5] 4 = crc16_ref [1, 1, 1, 5]"
  using modbus_crc16_correct [of 4 "[1, 1, 1, 5]"] by simp

theorem corrupted_response_rejected_witness:
  "modbus_master_validate_rx answered_master \<and>
   \<not> modbus_master_validate_rx (answered_master\<lparr>rx_buf := (rx_buf answered_master)[3 := 7]\<rparr>)"
proof -
  have wf: "wf_master answered_master"
    by (simp add: wf_master_def answered_master_def) (simp add: idle_master_def)
  have "crc16_ref [1, 1, 1, 5] = 0x8B91"
    by (simp add: crc16_ref_def crc16_byte_def funpow_8 crc16_bit_eval)
  then have "rtu_frame [1, 1, 1, 5] = [1, 1, 1, 5, 0x91, 0x8B]"
    by (simp add: rtu_frame_def lo8_def hi8_def)
  moreover have "rx_bytes answered_master = [1, 1, 1, 5, 0x91, 0x8B]"
    by (simp add: rx_bytes_def answered_master_def)
  moreover have "unat (rx_len answered_master) \<le> 257"
    by (simp add: answered_master_def)
  ultimately have valid: "modbus_master_validate_rx answered_master"
    using validate_rx_iff [OF wf]
    by (auto intro!: exI [of _ "[1, 1, 1, 5]"] simp: answered_master_def idle_master_def func_code_defs)
  then show ?thesis
    using corrupted_response_rejected [OF wf _ valid, of 3 7] by (simp add: answered_master_def)
qed


theorem read_holding_regs_roundtrip_witness:
  "\<exists>m'. modbus_master_read_holding_regs
      (master_send_receive (reply_events
         (rtu_frame [1, FUNC_READ_HOLDING_REGISTER, 4, 1, 2, 0, 9])))
      1 21 2 [0, 0] idle_master = Done (True, [0x0102, 9], m') \<and>
    uart1_sent m' = [rtu_frame [1, FUNC_READ_HOLDING_REGISTER, 0, 21, 0, 2]]"
  using read_holding_regs_roundtrip [of idle_master "[0x0102, 9]" 2 "[0, 0]" 1 21]
  by (simp add: reg_bytes_def hi8_def lo8_def)

theorem write_single_coil_acknowledged_witness:
  "\<exists>m'. modbus_master_write_single_coil
      (master_send_receive (reply_events (rtu_frame [1, FUNC_WRITE_SINGLE_COIL, 0, 40, 0xFF, 0])))
      1 40 1 idle_master = Done (True, (), m')"
  using write_single_coil_acknowledged
    [of idle_master "[1, FUNC_WRITE_SINGLE_COIL, 0, 40, 0xFF, 0]" 1 40 1]
  by (simp del: request_tail.simps)

theorem write_single_holding_reg_acknowledged_witness:
  "\<exists>m'. modbus_master_Write_single_holding_reg
      (master_send_receive (reply_events (rtu_frame [1, FUNC_WRITE_REGISTER, 0, 21, 0, 3])))
      1 21 2 idle_master = Done (False, (), m')"
  using write_single_holding_reg_acknowledged
    [of idle_master "[1, FUNC_WRITE_REGISTER, 0, 21, 0, 3]" 1 21 2]
  by (simp add: hi8_def lo8_def)

theorem write_multiple_coils_drops_data_witness:
  "\<exists>ok d m'. modbus_master_write_multiple_coils (master_send_receive []) (replicate 32 0) 1 40 2
      [1, 1] idle_master = Done (ok, d, m') \<and>
    uart1_sent m' = [rtu_frame [1, FUNC_WRITE_MULTIPLE_COILS, 0, 40, 0, 2, 1]]"
  using write_multiple_coils_drops_data [of idle_master "[]" "replicate 32 0" 1 40 2 "[1, 1]"]
  by (simp add: coil_byte_count_def)

theorem write_multiple_holding_regs_frame_witness:
  "\<exists>ok m'. modbus_master_Write_multiple_holding_regs (master_send_receive []) 1 21 1 [0x0203] idle_master =
      Done (ok, (), m') \<and>
    uart1_sent m' = [rtu_frame [1, FUNC_WRITE_MULTIPLE_REGISTERS, 0, 21, 0, 1, 2, 2, 3]]"
  using write_multiple_holding_regs_frame [of idle_master "[0x0203]" 1 "[]" 1 21]
  by (auto simp: multi_reg_request_def reg_bytes_def hi8_def lo8_def)

theorem write_multiple_holding_regs_overflow_witness:
  "modbus_master_Write_multiple_holding_regs (master_send_receive []) 1 0 255 (replicate 255 0) idle_master =
    Overflow ''tx_buf''"
  using write_multiple_holding_regs_overflow [of idle_master "replicate 255 0" 255 "[]" 1 0] by simp

theorem read_coils_silent_witness:
  "\<exists>m'. modbus_master_read_coils (master_send_receive [Rx_byte 1]) 1 40 3 [7, 7, 7] idle_master =
    Done (False, [7, 7, 7], m')"
  using read_coils_silent [of idle_master "[Rx_byte 1]" 1 40 3 "[7, 7, 7]"] by simp

theorem receive_interrupts_in_bounds_witness:
  "wf_master (fold uart_event_step [Rx_byte 1, Rx_complete, Rx_byte 2] idle_master)"
  by (rule receive_interrupts_in_bounds [OF idle_master_wf])

end
