(* ===== verification/Board.thy ===== *)
theory Board
  imports Modbus_Theorems
begin

text \<open>
  The board support around the application: the LED driver chip on the I2C bus
  (\<open>app/components/driver/aw9523b.c\<close>), the key timer of the light switch that exercises it
  (\<open>csro_nlight.c\<close>), and the UART task of the Modbus master (\<open>modbus_master.c\<close>). A command link
  is the list of its operations; the board keeps the log of the links that were executed, the
  pins configured as inputs and the static counter of the test.
\<close>

section \<open>The LED driver (aw9523b.c)\<close>

datatype i2c_op =
    I2C_start
  | I2C_write u8 bool
  | I2C_read bool
  | I2C_stop

record board =
  i2c_log :: "i2c_op list list"
  blink_count :: int
  i2c_ready :: bool
  gpio_inputs :: "64 word"

definition aw9523b_gpio_init :: "board \<Rightarrow> board" where
  "aw9523b_gpio_init b = b\<lparr>i2c_ready := True, gpio_inputs := gpio_inputs b OR push_bit 5 1\<rparr>"

definition i2c_master_aw9523b_write :: "u8 \<Rightarrow> u8 \<Rightarrow> board \<Rightarrow> board" where
  "i2c_master_aw9523b_write reg_address v b =
     b\<lparr>i2c_log := i2c_log b @ [[I2C_start, I2C_write 0xB6 True, I2C_write reg_address True, I2C_write v True, I2C_stop]]\<rparr>"

text \<open>\<open>chip\<close> gives the content of every register; a chip that does not answer leaves 0.\<close>

definition i2c_master_aw9523b_read :: "(u8 \<Rightarrow> u8 option) \<Rightarrow> u8 \<Rightarrow> board \<Rightarrow> u8 \<times> board" where
  "i2c_master_aw9523b_read chip reg_address b =
     (case chip reg_address of Some v \<Rightarrow> v | None \<Rightarrow> 0,
      b\<lparr>i2c_log := i2c_log b @ [[I2C_start, I2C_write 0xB6 True, I2C_write reg_address True, I2C_stop,
                                  I2C_start, I2C_write 0xB7 True, I2C_read True, I2C_stop]]\<rparr>)"

definition csro_aw9523b_init :: "board \<Rightarrow> board" where
  "csro_aw9523b_init b = i2c_master_aw9523b_write 0x13 0x00 (aw9523b_gpio_init b)"

definition led_registers :: "u8 list" where
  "led_registers = [0x20, 0x21, 0x22, 0x23, 0x2C, 0x2D, 0x2E, 0x2F]"

definition write_leds :: "u8 \<Rightarrow> board \<Rightarrow> board" where
  "write_leds v b = fold (\<lambda>r. i2c_master_aw9523b_write r v) led_registers b"

definition csro_aw9523b_test :: "(u8 \<Rightarrow> u8 option) \<Rightarrow> board \<Rightarrow> board" where
  "csro_aw9523b_test chip b =
     (let b1 = snd (i2c_master_aw9523b_read chip 0x23 b);
          b2 = snd (i2c_master_aw9523b_read chip 0x13 b1);
          b3 = b2\<lparr>blink_count := (blink_count b2 + 1) mod 6\<rparr>
      in if blink_count b3 = 0 then write_leds 32 b3
         else if blink_count b3 = 3 then write_leds 0 b3
         else b3)"

text \<open>The key timer of the light switch reads the four keys, prints them and calls the test.\<close>

definition key_timer_callback :: "(u8 \<Rightarrow> u8 option) \<Rightarrow> (nat \<Rightarrow> bool) \<Rightarrow> board \<Rightarrow> bool list \<times> board" where
  "key_timer_callback chip gpio b = (map gpio [4, 0, 12, 13], csro_aw9523b_test chip b)"

definition GPIO_INPUT_PIN_SEL :: "64 word" where
  "GPIO_INPUT_PIN_SEL = push_bit 4 1 OR push_bit 0 1 OR push_bit 12 1 OR push_bit 13 1"

definition gpio_init :: "board \<Rightarrow> board" where
  "gpio_init b = b\<lparr>gpio_inputs := gpio_inputs b OR GPIO_INPUT_PIN_SEL\<rparr>"

section \<open>Blinking\<close>

text \<open>What the register writes in a log leave in a register of the chip.\<close>

fun chip_write :: "i2c_op list \<Rightarrow> (u8 \<Rightarrow> u8) \<Rightarrow> (u8 \<Rightarrow> u8)" where
  "chip_write [I2C_start, I2C_write a _, I2C_write r _, I2C_write v _, I2C_stop] regs =
     (if a = 0xB6 then regs(r := v) else regs)"
| "chip_write _ regs = regs"

definition chip_after :: "i2c_op list list \<Rightarrow> (u8 \<Rightarrow> u8) \<Rightarrow> (u8 \<Rightarrow> u8)" where
  "chip_after log regs = fold chip_write log regs"

lemma chip_after_append: "chip_after (a @ b) regs = chip_after b (chip_after a regs)"
  by (simp add: chip_after_def)

lemma write_leds_chip:
  "chip_after (i2c_log (write_leds v b)) regs r =
     (if r \<in> set led_registers then v else chip_after (i2c_log b) regs r)"
  by (simp add: write_leds_def led_registers_def i2c_master_aw9523b_write_def chip_after_append)
    (simp add: chip_after_def)

lemma test_count:
  "blink_count (csro_aw9523b_test chip b) = (blink_count b + 1) mod 6"
proof -
  have "blink_count (write_leds v b) = blink_count b" for v b
    by (simp add: write_leds_def led_registers_def i2c_master_aw9523b_write_def)
  then show ?thesis by (simp add: csro_aw9523b_test_def Let_def i2c_master_aw9523b_read_def)
qed

lemma test_leds:
  "r \<in> set led_registers \<Longrightarrow>
   chip_after (i2c_log (csro_aw9523b_test chip b)) regs r =
     (if (blink_count b + 1) mod 6 = 0 then 32 else if (blink_count b + 1) mod 6 = 3 then 0
      else chip_after (i2c_log b) regs r)"
  by (simp add: csro_aw9523b_test_def Let_def write_leds_chip i2c_master_aw9523b_read_def chip_after_append)
    (simp add: chip_after_def)

lemma test_counts: "blink_count ((csro_aw9523b_test chip ^^ n) b) = (if n = 0 then blink_count b else (blink_count b + int n) mod 6)"
proof (induction n)
  case (Suc n)
  then show ?case by (auto simp: test_count mod_add_left_eq) (simp_all add: mod_add_left_eq algebra_simps)
qed simp

text \<open>
  From power-on the eight LED channels blink with a period of six timer callbacks: after
  three callbacks they are dark, from the sixth to the eighth lit, from the ninth dark again, and so on.
\<close>

theorem leds_blink:
  assumes "blink_count b = 0" "r \<in> set led_registers" "3 \<le> n"
  shows "chip_after (i2c_log ((csro_aw9523b_test chip ^^ n) b)) regs r = (if n mod 6 < 3 then 32 else 0)"
  using assms(3)
proof (induction n rule: dec_induct)
  case base
  have "(csro_aw9523b_test chip ^^ 3) b = csro_aw9523b_test chip ((csro_aw9523b_test chip ^^ 2) b)"
    by (simp add: eval_nat_numeral)
  moreover have "blink_count ((csro_aw9523b_test chip ^^ 2) b) = 2" using assms(1) by (simp add: test_counts)
  ultimately show ?case using test_leds [OF assms(2), of chip "(csro_aw9523b_test chip ^^ 2) b" regs] by simp
next
  case (step n)
  have c: "(blink_count ((csro_aw9523b_test chip ^^ n) b) + 1) mod 6 = int (Suc n mod 6)"
    using step.hyps assms(1) by (simp add: test_counts mod_simps zmod_int add.commute)
  have "n mod 6 < 6" by simp
  then consider "n mod 6 = 5" | "n mod 6 = 2" | "n mod 6 \<in> {0, 1, 3, 4}" by force
  then show ?case
    using test_leds [OF assms(2), of chip "(csro_aw9523b_test chip ^^ n) b" regs] step.IH
    unfolding c by cases (auto simp: mod_Suc)
qed

theorem leds_blink_witness:
  "chip_after (i2c_log ((csro_aw9523b_test (\<lambda>_. None) ^^ 7) \<lparr>i2c_log = [], blink_count = 0, i2c_ready = False, gpio_inputs = 0\<rparr>)) (\<lambda>_. 0) 0x20 = 32"
  using leds_blink [where b = "\<lparr>i2c_log = [], blink_count = 0, i2c_ready = False, gpio_inputs = 0\<rparr>" and r = "0x20" and n = 7
      and chip = "\<lambda>_. None" and regs = "\<lambda>_. 0"]
  by (simp add: led_registers_def)

section \<open>The UART task (modbus\_master.c)\<close>

datatype uart_driver_event = UART_DATA nat | UART_FIFO_OVF | UART_BUFFER_FULL | UART_OTHER

text \<open>The driver's receive buffer, its event queue, the scratch buffer of the task, and the master.\<close>

record uart0 =
  rx_ring :: "u8 list"
  uart0_queue :: "uart_driver_event list"
  dump :: "u8 list"
  served :: Modbus_Master

definition modbus_master_init :: "Modbus_Master \<Rightarrow> Modbus_Master" where
  "modbus_master_init m = m\<lparr>uart0_receive_semaphore := False\<rparr>"

text \<open>One event of the endless loop: the bytes are read into \<open>dump\<close> and nothing else happens.\<close>

definition uart0_event_task_round :: "uart0 \<Rightarrow> uart0 outcome" where
  "uart0_event_task_round u =
     (case uart0_queue u of
        [] \<Rightarrow> Done u
      | ev # evs \<Rightarrow>
          (let u' = u\<lparr>uart0_queue := evs\<rparr>
           in case ev of
                UART_DATA n \<Rightarrow>
                  if n > length (dump u') then Overflow ''dump''
                  else Done (u'\<lparr>dump := take n (rx_ring u') @ drop n (dump u'), rx_ring := drop n (rx_ring u')\<rparr>)
              | UART_FIFO_OVF \<Rightarrow> Done (u'\<lparr>rx_ring := [], uart0_queue := []\<rparr>)
              | UART_BUFFER_FULL \<Rightarrow> Done (u'\<lparr>rx_ring := [], uart0_queue := []\<rparr>)
              | UART_OTHER \<Rightarrow> Done u'))"

lemma uart0_round_served: "uart0_event_task_round u = Done u' \<Longrightarrow> served u' = served u"
  by (auto simp: uart0_event_task_round_def Let_def split: list.splits uart_driver_event.splits if_splits)

lemma uart0_rounds_served:
  "run_steps (replicate k uart0_event_task_round) u = Done u' \<Longrightarrow> served u' = served u"
proof (induction k arbitrary: u)
  case (Suc k)
  then show ?case by (cases "uart0_event_task_round u") (auto dest: uart0_round_served)
qed simp

text \<open>
  However many bytes the slave sends and however often the task runs, the master's receive
  buffer stays empty and its semaphore stays untaken while the exchange is waiting, so that
  no request is ever answered.
\<close>

theorem uart_task_starves_master:
  assumes "run_steps (replicate k uart0_event_task_round) u = Done u'" "served u = start_exchange m"
  shows "rx_len (served u') = 0 \<and> \<not> uart0_receive_semaphore (served u')"
  using uart0_rounds_served [OF assms(1)] assms(2) by (simp add: start_exchange_def)

theorem uart_task_starves_master_witness:
  "let u = \<lparr>rx_ring = [1, 1, 1, 5, 0x91, 0x8B], uart0_queue = [UART_DATA 6], dump = replicate 512 0,
            served = start_exchange idle_master\<rparr>
   in \<exists>u'. run_steps (replicate 1 uart0_event_task_round) u = Done u' \<and> rx_len (served u') = 0"
proof -
  let ?u = "\<lparr>rx_ring = [1, 1, 1, 5, 0x91, 0x8B], uart0_queue = [UART_DATA 6], dump = replicate 512 0,
            served = start_exchange idle_master\<rparr>"
  obtain u' where "run_steps (replicate 1 uart0_event_task_round) ?u = Done u'"
    by (simp add: uart0_event_task_round_def)
  then show ?thesis using uart_task_starves_master [of 1 ?u u' idle_master] by (auto simp: Let_def)
qed

end
