(* ===== verification/App_State.thy ===== *)
theory App_State
  imports Datetime Json_Print Sha1 Board
begin

text \<open>
  The global variables of the application (\<open>csro_common.h\<close>, \<open>csro_mqtt.c\<close>, \<open>csro_nlight.c\<close>) as one
  record that extends the clock and the alarm table, the messages the MQTT client delivers,
  and the C string operations on fixed-size arrays.
\<close>

section \<open>Globals\<close>

datatype system_status =
    IDLE
  | SMARTCONFIG
  | SMARTCONFIG_TIMEOUT
  | NORMAL_START_NOWIFI
  | NORMAL_START_NOSERVER
  | NORMAL_START_OK
  | RESET_PENDING

record csro_switch =
  sw_index :: u8
  sw_state :: u8
  on_source :: u8
  on_tim :: u32
  off_source :: u8
  off_tim :: u32

datatype QoS = QOS0 | QOS1 | QOS2

record publication =
  p_topic :: string
  p_payload :: string
  p_qos :: QoS
  p_retained :: bool

text \<open>
  Static variables stand beside the structures that the header declares. \<open>published\<close> is the
  sequence of messages handed to the MQTT client, \<open>tasks\<close> the tasks created so far,
  \<open>wifi_connects\<close> the number of calls of \<open>esp_wifi_connect\<close>, \<open>hardware\<close> the pins and the I2C bus.
\<close>

record app = datetime_state +
  status :: system_status
  router_ssid :: string
  router_pass :: string
  sc_flag :: u8
  mac :: "u8 list"
  ip :: "u8 list"
  host_name :: string
  dev_type :: string
  mac_str :: string
  ip_str :: string
  power_on_count :: u32
  wifi_conn_count :: u32
  serv_conn_count :: u32
  is_connect :: bool
  wifi_retry :: u16
  mqtt_id :: string
  mqtt_name :: string
  mqtt_pass :: string
  sub_topic_self :: string
  sub_topic_hass :: string
  sub_topic_group :: string
  pub_topic :: string
  content :: string
  broker :: string
  prefix :: string
  interval :: u16
  isconnected :: bool
  status_sem :: bool
  system_sem :: bool
  alarm_sem :: bool
  status_timer :: "nat option"
  published :: "publication list"
  channel :: "csro_switch list"
  tasks :: "string list"
  connected_bit :: bool
  esptouch_done_bit :: bool
  wifi_hostname :: string
  wifi_connects :: nat
  key_timer :: bool
  led_timer :: bool
  hardware :: board

definition portTICK_RATE_MS :: nat where "portTICK_RATE_MS = 10"

definition MIN_INTERVAL :: u16 where "MIN_INTERVAL = 2"

definition MAX_INTERVAL :: u16 where "MAX_INTERVAL = 120"

definition NLIGHT :: nat where "NLIGHT = 3"

section \<open>Strings in fixed-size arrays\<close>

text \<open>\<open>strcpy\<close> or \<open>sprintf\<close> of \<open>s\<close> into an array of the given size, in a state update.\<close>

definition strcpy :: "string \<Rightarrow> nat \<Rightarrow> string \<Rightarrow> ('s \<Rightarrow> 's) \<Rightarrow> 's \<Rightarrow> 's outcome" where
  "strcpy buffer cap s store st = (if length s < cap then Done (store st) else Overflow buffer)"

text \<open>An array of characters compared with a literal by \<open>strcmp\<close>.\<close>

definition cstr_eq :: "string \<Rightarrow> string \<Rightarrow> bool" where
  "cstr_eq arr lit \<longleftrightarrow> take (Suc (length lit)) arr = lit @ [CHR 0x00]"

text \<open>
  \<open>strncpy\<close> of the first \<open>n\<close> characters of memory \<open>src\<close> over an array: copying stops at a NUL and
  the rest of the \<open>n\<close> characters is zeroed; the array keeps its content behind them.
\<close>

definition strncpy :: "string \<Rightarrow> nat \<Rightarrow> string \<Rightarrow> string option" where
  "strncpy src n arr =
     (if n > length arr then None
      else let s = takeWhile (\<lambda>c. c \<noteq> CHR 0x00) (take n src)
           in Some (s @ replicate (n - length s) (CHR 0x00) @ drop n arr))"

definition c_string :: "string \<Rightarrow> string" where
  "c_string mem = takeWhile (\<lambda>c. c \<noteq> CHR 0x00) mem"

text \<open>
  What a message handler receives: the topic, the memory from the first byte of the payload
  on (the payload is not terminated, other bytes of the receive buffer follow it), and the
  length of the payload.
\<close>

record message_data =
  topicName :: string
  payload_mem :: string
  payloadlen :: nat

text \<open>\<open>strcpy(mqtt.content, out)\<close> of a printed item; a failed print passes NULL.\<close>

definition store_content :: "cJSON \<Rightarrow> app \<Rightarrow> app outcome" where
  "store_content item s =
     (case cJSON_PrintUnformatted item of
        POk out \<Rightarrow> strcpy ''mqtt.content'' 1000 out (content_update (\<lambda>_. out)) s
      | _ \<Rightarrow> Overflow ''out'')"

definition hex_byte :: "u8 \<Rightarrow> string" where
  "hex_byte b = [hex_char (unat b div 16), hex_char (unat b mod 16)]"

section \<open>Triggers (csro\_mqtt.c)\<close>

definition csro_mqtt_change_status_msg_timer :: "app \<Rightarrow> app" where
  "csro_mqtt_change_status_msg_timer s =
     s\<lparr>status_timer := map_option (\<lambda>_. unat (interval s) * 1000 div portTICK_RATE_MS) (status_timer s)\<rparr>"

definition csro_mqtt_msg_trigger_status :: "app \<Rightarrow> app" where
  "csro_mqtt_msg_trigger_status s = s\<lparr>status_sem := True\<rparr>"

definition csro_mqtt_msg_trigger_system :: "app \<Rightarrow> app" where
  "csro_mqtt_msg_trigger_system s = s\<lparr>system_sem := True\<rparr>"

definition csro_mqtt_msg_trigger_alarm :: "app \<Rightarrow> app" where
  "csro_mqtt_msg_trigger_alarm s = s\<lparr>alarm_sem := True\<rparr>"

end
