(* ===== verification/Csro_System.thy ===== *)
theory Csro_System
  imports App_State
begin

text \<open>
  \<open>csro_misc.c\<close> (reading one field of a JSON message, the last segment of a topic) and
  \<open>csro_system.c\<close> (identity and counters at boot, the status of the connection, the publishing
  interval and its storage, the system message).
\<close>

section \<open>Message fields (csro\_misc.c)\<close>

definition csro_system_parse_level1_json_object :: "string \<Rightarrow> string \<Rightarrow> bool" where
  "csro_system_parse_level1_json_object msg object_name =
     (case cJSON_Parse msg of
        None \<Rightarrow> False
      | Some json \<Rightarrow>
          (case cJSON_GetObjectItem json object_name of
             None \<Rightarrow> False
           | Some object \<Rightarrow> jtype object = cJSON_Object))"

text \<open>\<open>None\<close>: the function returns false and leaves \<open>dest\<close> as it was.\<close>

definition csro_system_parse_level1_json_number :: "string \<Rightarrow> string \<Rightarrow> u32 option" where
  "csro_system_parse_level1_json_number msg object_name =
     (case cJSON_Parse msg of
        None \<Rightarrow> None
      | Some json \<Rightarrow>
          (case cJSON_GetObjectItem json object_name of
             None \<Rightarrow> None
           | Some object \<Rightarrow>
               if jtype object \<noteq> cJSON_Number then None else Some (word_of_int (valueint object))))"

definition csro_system_parse_level2_json_number :: "string \<Rightarrow> string \<Rightarrow> string \<Rightarrow> u32 option" where
  "csro_system_parse_level2_json_number msg object_name sub_object_name =
     (case cJSON_Parse msg of
        None \<Rightarrow> None
      | Some json \<Rightarrow>
          (case cJSON_GetObjectItem json object_name of
             None \<Rightarrow> None
           | Some object \<Rightarrow>
               (case cJSON_GetObjectItem object sub_object_name of
                  None \<Rightarrow> None
                | Some sub_object \<Rightarrow>
                    if jtype sub_object \<noteq> cJSON_Number then None
                    else Some (word_of_int (valueint sub_object)))))"

text \<open>The string variants copy into an array of the caller whose size they do not know.\<close>

definition csro_system_parse_level1_json_string :: "string \<Rightarrow> nat \<Rightarrow> string \<Rightarrow> string option outcome" where
  "csro_system_parse_level1_json_string msg dest_size object_name =
     (case cJSON_Parse msg of
        None \<Rightarrow> Done None
      | Some json \<Rightarrow>
          (case cJSON_GetObjectItem json object_name of
             None \<Rightarrow> Done None
           | Some object \<Rightarrow>
               if jtype object \<noteq> cJSON_String then Done None
               else let v = the (valuestring object)
                    in strcpy ''dest'' dest_size v (\<lambda>_. Some v) None))"

definition csro_system_parse_level2_json_string ::
  "string \<Rightarrow> nat \<Rightarrow> string \<Rightarrow> string \<Rightarrow> string option outcome" where
  "csro_system_parse_level2_json_string msg dest_size object_name sub_object_name =
     (case cJSON_Parse msg of
        None \<Rightarrow> Done None
      | Some json \<Rightarrow>
          (case cJSON_GetObjectItem json object_name of
             None \<Rightarrow> Done None
           | Some object \<Rightarrow>
               (case cJSON_GetObjectItem object sub_object_name of
                  None \<Rightarrow> Done None
                | Some sub_object \<Rightarrow>
                    if jtype sub_object \<noteq> cJSON_String then Done None
                    else let v = the (valuestring sub_object)
                         in strcpy ''dest'' dest_size v (\<lambda>_. Some v) None)))"

text \<open>The segments \<open>strtok\<close> returns for the separator \<open>/\<close>: maximal non-empty runs.\<close>

fun strtok_all :: "string \<Rightarrow> string \<Rightarrow> string list" where
  "strtok_all acc [] = (if acc = [] then [] else [rev acc])"
| "strtok_all acc (c # cs) =
     (if c = CHR ''/'' then (if acc = [] then [] else [rev acc]) @ strtok_all [] cs
      else strtok_all (c # acc) cs)"

fun sub_topic_loop :: "string list \<Rightarrow> string \<Rightarrow> string outcome" where
  "sub_topic_loop [] sub_topic = Done sub_topic"
| "sub_topic_loop (segment # segs) sub_topic =
     (if length segment < 50
      then sub_topic_loop segs (segment @ replicate (50 - length segment) (CHR 0x00))
      else Overflow ''sub_topic'')"

text \<open>
  The last segment of the topic, in the 50 characters of \<open>sub_topic\<close>; the array is untouched when
  the topic has no segment.
\<close>

definition csro_systen_get_hass_message_sub_topic :: "message_data \<Rightarrow> string \<Rightarrow> string outcome" where
  "csro_systen_get_hass_message_sub_topic data sub_topic =
     (if length (topicName data) \<ge> 200 then Overflow ''topic''
      else sub_topic_loop (strtok_all [] (c_string (topicName data))) sub_topic)"

section \<open>The system (csro\_system.c)\<close>

definition system_print_device_type :: "app \<Rightarrow> app" where
  "system_print_device_type s = s\<lparr>dev_type := ''nlight'' @ show_nat NLIGHT\<rparr>"

text \<open>The password: every second byte of the SHA-1 digest of the MAC address text.\<close>

definition pass_text :: "u8 list \<Rightarrow> string" where
  "pass_text sha = concat (map (\<lambda>i. hex_byte (sha ! i)) [0, 2, 4, 6, 8, 10, 12, 14])"

definition csro_system_get_info :: "u8 list \<Rightarrow> SHA1_CTX \<Rightarrow> app \<Rightarrow> app" where
  "csro_system_get_info wifi_mac pass_ctx s0 =
     (let (n, h) = nvs_open ''system'' NVS_READWRITE (flash s0);
          s1 = s0\<lparr>sc_flag := nvs_get_u8 h ''sc_flag'' n (sc_flag s0),
                  power_on_count := nvs_get_u32 h ''power_count'' n (power_on_count s0)\<rparr>;
          n1 = nvs_set h ''power_count'' (NvsU32 (power_on_count s1 + 1)) n;
          s2 = s1\<lparr>interval := nvs_get_u16 h ''interval'' n1 (interval s1)\<rparr>;
          (s3, n2) = (if interval s2 < MIN_INTERVAL \<or> interval s2 > MAX_INTERVAL
                      then (s2\<lparr>interval := 5\<rparr>, nvs_set h ''interval'' (NvsU16 5) n1) else (s2, n1));
          s4 = system_print_device_type (s3\<lparr>flash := n2\<rparr>);
          mstr = concat (map hex_byte wifi_mac);
          s5 = s4\<lparr>mac := wifi_mac, mac_str := mstr, host_name := ''csro_'' @ mstr,
                  mqtt_id := ''csro/'' @ mstr, mqtt_name := ''csro/'' @ mstr @ ''/'' @ dev_type s4\<rparr>;
          sha = sha1 pass_ctx (map (\<lambda>c. of_nat (of_char c)) mstr)
      in s5\<lparr>mqtt_pass := pass_text sha\<rparr>)"

definition csro_system_set_status :: "system_status \<Rightarrow> app \<Rightarrow> app" where
  "csro_system_set_status st s =
     (if status s = RESET_PENDING then s
      else if status s \<noteq> st then s\<lparr>status := st\<rparr> else s)"

definition csro_system_get_wifi_info :: "app \<Rightarrow> (bool \<times> app) outcome" where
  "csro_system_get_wifi_info s =
     (let (n, h) = nvs_open ''system'' NVS_READONLY (flash s)
      in if nvs_get_u8 h ''router'' n 0 = 1
         then (let ssid = nvs_get_str h ''ssid'' n (router_ssid s);
                   pass = nvs_get_str h ''pass'' n (router_pass s)
               in if length ssid \<ge> 50 then Overflow ''sysinfo.router_ssid''
                  else if length pass \<ge> 50 then Overflow ''sysinfo.router_pass''
                  else Done (True, s\<lparr>flash := n, router_ssid := ssid, router_pass := pass\<rparr>))
         else Done (False, s\<lparr>flash := n\<rparr>))"

text \<open>The IP address the network interface has at this moment; 0 without one.\<close>

definition csro_system_get_wifi_status :: "u32 \<Rightarrow> app \<Rightarrow> bool \<times> app" where
  "csro_system_get_wifi_status addr s =
     (if addr \<noteq> 0
      then (if \<not> is_connect s
            then (let s1 = csro_system_set_status NORMAL_START_NOSERVER (s\<lparr>is_connect := True\<rparr>);
                      b = [ucast (addr AND 0xFF), ucast (drop_bit 8 (addr AND 0xFF00)),
                           ucast (drop_bit 16 (addr AND 0xFF0000)), ucast (drop_bit 24 (addr AND 0xFF000000))]
                  in (True, s1\<lparr>wifi_conn_count := wifi_conn_count s1 + 1, ip := b,
                       ip_str := show_nat (unat (b ! 0)) @ ''.'' @ show_nat (unat (b ! 1)) @ ''.'' @
                                 show_nat (unat (b ! 2)) @ ''.'' @ show_nat (unat (b ! 3))\<rparr>))
            else (True, s))
      else (False, (csro_system_set_status NORMAL_START_NOWIFI s)\<lparr>is_connect := False\<rparr>))"

definition csro_system_set_interval :: "u16 \<Rightarrow> app \<Rightarrow> app" where
  "csro_system_set_interval i s =
     (if i \<ge> 2 \<and> i \<le> 120
      then (let (n, h) = nvs_open ''system'' NVS_READWRITE (flash s)
            in csro_mqtt_change_status_msg_timer
                 (s\<lparr>flash := nvs_set h ''interval'' (NvsU16 i) n, interval := i\<rparr>))
      else s)"

definition system_json :: "u32 \<Rightarrow> app \<Rightarrow> cJSON" where
  "system_json heap s =
     (let j = cJSON_CreateObject;
          j = cJSON_AddNumberToObject j ''power'' (uint (power_on_count s));
          j = cJSON_AddNumberToObject j ''router'' (uint (wifi_conn_count s));
          j = cJSON_AddNumberToObject j ''broker'' (uint (serv_conn_count s));
          j = cJSON_AddNumberToObject j ''heap'' (uint heap);
          j = cJSON_AddStringToObject j ''on'' (time_str s);
          j = cJSON_AddStringToObject j ''ip'' (ip_str s);
          j = cJSON_AddStringToObject j ''mac'' (mac_str s);
          j = cJSON_AddStringToObject j ''name'' (host_name s);
          j = cJSON_AddStringToObject j ''type'' (dev_type s)
      in cJSON_AddNumberToObject j ''interval'' (uint (interval s)))"

definition csro_system_prepare_message :: "u32 \<Rightarrow> app \<Rightarrow> app outcome" where
  "csro_system_prepare_message heap s =
     (let s1 = s\<lparr>time_str := strftime_on (localtime_r (sint (time_on s)))\<rparr>
      in store_content (system_json heap s1) s1)"

end
