(* ===== verification/Csro_Device.thy ===== *)
theory Csro_Device
  imports Csro_System
begin

text \<open>
  \<open>csro_nlight.c\<close> (the three-channel light switch the firmware is configured for) and
  \<open>csro_device.c\<close> (the handlers of the three subscribed topics and the alarm report). The arrays
  \<open>payload\<close> and \<open>sub_topic\<close> of the Home Assistant handler are not initialised: their contents are
  an explicit argument.
\<close>

section \<open>The light switch (csro\_nlight.c)\<close>

definition nlight_channel_set :: "nat \<Rightarrow> u8 \<Rightarrow> u8 \<Rightarrow> app \<Rightarrow> app" where
  "nlight_channel_set i v source s =
     (let ch = channel s ! i
      in if unat (sw_index ch) + 1 > NLIGHT \<or> v > 2 then s
         else let v' = (if v = 2 then (if sw_state ch = 0 then 1 else 0) else v);
                  ch1 = ch\<lparr>sw_state := v'\<rparr>;
                  ch2 = (if sw_state ch1 = 1
                         then ch1\<lparr>on_source := source, on_tim := time_now s\<rparr>
                         else ch1\<lparr>off_source := source, off_tim := time_now s\<rparr>)
              in csro_mqtt_msg_trigger_status (s\<lparr>channel := (channel s)[i := ch2]\<rparr>))"

definition channel_json :: "csro_switch \<Rightarrow> cJSON" where
  "channel_json ch =
     (let j = cJSON_CreateObject;
          j = cJSON_AddStringToObject j ''state'' (if sw_state ch = 1 then ''on'' else ''off'');
          j = cJSON_AddNumberToObject j ''onsource'' (uint (on_source ch));
          j = cJSON_AddNumberToObject j ''ontim'' (uint (on_tim ch));
          j = cJSON_AddNumberToObject j ''offsource'' (uint (off_source ch))
      in cJSON_AddNumberToObject j ''offtim'' (sint (off_tim ch)))"

definition nlight_add_channel_json :: "csro_switch \<Rightarrow> cJSON \<Rightarrow> cJSON" where
  "nlight_add_channel_json ch target =
     add_item_to_object target (''channel'' @ show_nat (unat (sw_index ch) + 1)) (channel_json ch)"

definition nlight_status_json :: "app \<Rightarrow> cJSON" where
  "nlight_status_json s =
     (let j = cJSON_CreateObject;
          j = (if NLIGHT \<ge> 1 then nlight_add_channel_json (channel s ! 0) j else j);
          j = (if NLIGHT \<ge> 2 then nlight_add_channel_json (channel s ! 1) j else j)
      in if NLIGHT \<ge> 3 then nlight_add_channel_json (channel s ! 2) j else j)"

definition csro_nlight_prepare_status_message :: "app \<Rightarrow> app outcome" where
  "csro_nlight_prepare_status_message s = store_content (nlight_status_json s) s"

definition self_channel :: "string \<Rightarrow> string \<Rightarrow> nat \<Rightarrow> bool \<times> app \<Rightarrow> bool \<times> app" where
  "self_channel msg key i vs =
     (case csro_system_parse_level1_json_number msg key of
        None \<Rightarrow> vs
      | Some v \<Rightarrow> (True, nlight_channel_set i (ucast v) 1 (snd vs)))"

definition csro_nlight_handle_self_message :: "message_data \<Rightarrow> app \<Rightarrow> app" where
  "csro_nlight_handle_self_message data s =
     (let msg = c_string (payload_mem data);
          r = (False, s);
          r = (if NLIGHT \<ge> 1 then self_channel msg ''channel1'' 0 r else r);
          r = (if NLIGHT \<ge> 2 then self_channel msg ''channel2'' 1 r else r);
          (valid, s') = (if NLIGHT \<ge> 3 then self_channel msg ''channel3'' 2 r else r)
      in if valid then csro_mqtt_msg_trigger_status s' else s')"

definition hass_switch :: "string \<Rightarrow> nat \<Rightarrow> app \<Rightarrow> bool \<times> app" where
  "hass_switch payload i s =
     (if cstr_eq payload ''on'' then (True, nlight_channel_set i 1 2 s)
      else if cstr_eq payload ''off'' then (True, nlight_channel_set i 0 2 s)
      else (False, s))"

definition csro_nlight_handle_hass_message ::
  "string \<Rightarrow> string \<Rightarrow> message_data \<Rightarrow> app \<Rightarrow> app outcome" where
  "csro_nlight_handle_hass_message payload0 sub_topic0 data s =
     (case strncpy (payload_mem data) (payloadlen data) payload0 of
        None \<Rightarrow> Overflow ''payload''
      | Some payload \<Rightarrow>
          (case csro_systen_get_hass_message_sub_topic data sub_topic0 of
             Overflow b \<Rightarrow> Overflow b
           | Restarted st \<Rightarrow> Restarted s
           | Done sub_topic \<Rightarrow>
               (let (valid, s') =
                      (if cstr_eq sub_topic ''channel1'' then hass_switch payload 0 s
                       else if cstr_eq sub_topic ''channel2'' then hass_switch payload 1 s
                       else if cstr_eq sub_topic ''channel3'' then hass_switch payload 2 s
                       else (False, s))
                in Done (if valid then csro_mqtt_msg_trigger_status s' else s'))))"

text \<open>The initialisation numbers the channels; timers and GPIO do not touch the model's state.\<close>

fun nlight_index_loop :: "nat \<Rightarrow> nat \<Rightarrow> csro_switch list \<Rightarrow> csro_switch list" where
  "nlight_index_loop i 0 chs = chs"
| "nlight_index_loop i (Suc n) chs =
     nlight_index_loop (Suc i) n (chs[i := (chs ! i)\<lparr>sw_index := of_nat i\<rparr>])"

text \<open>The two timers are created and started.\<close>

definition csro_nlight_init :: "app \<Rightarrow> app" where
  "csro_nlight_init s =
     s\<lparr>channel := nlight_index_loop 0 NLIGHT (channel s), key_timer := True, led_timer := True,
       hardware := csro_aw9523b_init (gpio_init (hardware s))\<rparr>"

definition csro_nlight_alarm_action :: "u16 \<Rightarrow> app \<Rightarrow> app" where
  "csro_nlight_alarm_action act s = s"

section \<open>Dispatch (csro\_device.c)\<close>

definition csro_device_prepare_status_message :: "app \<Rightarrow> app outcome" where
  "csro_device_prepare_status_message s = csro_nlight_prepare_status_message s"

definition alarm_json :: "alarm_struct \<Rightarrow> cJSON" where
  "alarm_json a =
     (let j = cJSON_CreateObject;
          j = cJSON_AddNumberToObject j ''weekday'' (uint (weekday a));
          j = cJSON_AddNumberToObject j ''minutes'' (uint (minutes a))
      in cJSON_AddNumberToObject j ''action'' (uint (action a)))"

fun timer_json_loop :: "alarm_struct list \<Rightarrow> u8 \<Rightarrow> cJSON \<Rightarrow> cJSON" where
  "timer_json_loop [] timer_count j = j"
| "timer_json_loop (a # as) timer_count j =
     (if valid a
      then timer_json_loop as (timer_count + 1)
             (add_item_to_object j (''alarm'' @ show_nat (unat (timer_count + 1))) (alarm_json a))
      else cJSON_AddNumberToObject j ''count'' (uint timer_count))"

definition csro_device_prepare_timer_message :: "app \<Rightarrow> app outcome" where
  "csro_device_prepare_timer_message s =
     store_content (timer_json_loop (alarms s) 0 cJSON_CreateObject) s"

text \<open>The four alarm commands of a message: whether one was valid, and the state.\<close>

definition handle_alarm_add :: "string \<Rightarrow> app \<Rightarrow> bool \<times> app" where
  "handle_alarm_add msg s =
     (if csro_system_parse_level1_json_object msg ''alarm_add''
      then (case (csro_system_parse_level2_json_number msg ''alarm_add'' ''weekday'',
                  csro_system_parse_level2_json_number msg ''alarm_add'' ''minutes'',
                  csro_system_parse_level2_json_number msg ''alarm_add'' ''action'') of
              (Some w, Some m, Some a) \<Rightarrow> (True, csro_alarm_add (ucast w) (ucast m) (ucast a) s)
            | _ \<Rightarrow> (False, s))
      else (False, s))"

definition handle_alarm_modify :: "string \<Rightarrow> app \<Rightarrow> bool \<times> app" where
  "handle_alarm_modify msg s =
     (if csro_system_parse_level1_json_object msg ''alarm_modify''
      then (case (csro_system_parse_level2_json_number msg ''alarm_modify'' ''index'',
                  csro_system_parse_level2_json_number msg ''alarm_modify'' ''weekday'',
                  csro_system_parse_level2_json_number msg ''alarm_modify'' ''minutes'',
                  csro_system_parse_level2_json_number msg ''alarm_modify'' ''action'') of
              (Some i, Some w, Some m, Some a) \<Rightarrow>
                (True, csro_alarm_modify (ucast i) (ucast w) (ucast m) (ucast a) s)
            | _ \<Rightarrow> (False, s))
      else (False, s))"

definition handle_alarm_delete :: "string \<Rightarrow> app \<Rightarrow> bool \<times> app" where
  "handle_alarm_delete msg s =
     (if csro_system_parse_level1_json_object msg ''alarm_delete''
      then (case csro_system_parse_level2_json_number msg ''alarm_delete'' ''index'' of
              Some i \<Rightarrow> (True, csro_alarm_delete (ucast (i - 1)) s)
            | None \<Rightarrow> (False, s))
      else (False, s))"

definition handle_alarm_clear :: "string \<Rightarrow> app \<Rightarrow> bool \<times> app" where
  "handle_alarm_clear msg s =
     (if csro_system_parse_level1_json_object msg ''alarm_clear''
      then (case csro_system_parse_level2_json_number msg ''alarm_clear'' ''value'' of
              Some v \<Rightarrow> if v = 1 then (True, csro_alarm_clear s) else (False, s)
            | None \<Rightarrow> (False, s))
      else (False, s))"

definition on_number :: "string \<Rightarrow> string \<Rightarrow> (u32 \<Rightarrow> app \<Rightarrow> app) \<Rightarrow> app \<Rightarrow> app" where
  "on_number msg key f s =
     (case csro_system_parse_level1_json_number msg key of None \<Rightarrow> s | Some v \<Rightarrow> f v s)"

definition csro_device_handle_self_message :: "message_data \<Rightarrow> app \<Rightarrow> app outcome" where
  "csro_device_handle_self_message data s =
     (let msg = c_string (payload_mem data);
          s = on_number msg ''interval'' (\<lambda>v. csro_system_set_interval (ucast v)) s;
          s = on_number msg ''sysinfo'' (\<lambda>v s. if v = 1 then csro_mqtt_msg_trigger_system s else s) s;
          s = on_number msg ''alarminfo'' (\<lambda>v s. if v = 1 then csro_mqtt_msg_trigger_alarm s else s) s
      in if csro_system_parse_level1_json_number msg ''restart'' = Some 1 then Restarted s
         else let (v1, s) = handle_alarm_add msg s;
                  (v2, s) = handle_alarm_modify msg s;
                  (v3, s) = handle_alarm_delete msg s;
                  (v4, s) = handle_alarm_clear msg s;
                  s = (if v1 \<or> v2 \<or> v3 \<or> v4 then csro_mqtt_msg_trigger_alarm s else s)
              in Done (csro_nlight_handle_self_message data s))"

definition csro_device_handle_hass_message :: "string \<Rightarrow> string \<Rightarrow> message_data \<Rightarrow> app \<Rightarrow> app outcome" where
  "csro_device_handle_hass_message payload0 sub_topic0 data s =
     csro_nlight_handle_hass_message payload0 sub_topic0 data s"

definition csro_device_handle_group_message :: "message_data \<Rightarrow> app \<Rightarrow> app" where
  "csro_device_handle_group_message data s =
     on_number (c_string (payload_mem data)) ''update''
       (\<lambda>v s. if v = 1 then csro_mqtt_msg_trigger_status s else s) s"

definition csro_device_alarm_action :: "u16 \<Rightarrow> app \<Rightarrow> app" where
  "csro_device_alarm_action act s = csro_nlight_alarm_action act s"

definition csro_device_init :: "app \<Rightarrow> app" where
  "csro_device_init s = csro_nlight_init s"

end
