(* ===== verification/Csro_Mqtt.thy ===== *)
theory Csro_Mqtt
  imports Csro_Device
begin

text \<open>
  \<open>csro_mqtt.c\<close> (publishing, connecting to the broker, the main task), \<open>csro_udp.c\<close> (the broadcasts
  that announce the broker and the time, Wi-Fi events), \<open>csro_sc.c\<close> (provisioning by
  SmartConfig) and \<open>csro_common.c\<close> (start-up). What the network answers in one round of the main
  task is the record \<open>env\<close>.
\<close>

section \<open>Publishing and connecting (csro\_mqtt.c)\<close>

datatype incoming =
    SelfMessage message_data
  | HassMessage string string message_data
  | GroupMessage message_data

record env =
  e_addr :: u32
  e_connect :: bool
  e_mqtt_connect :: bool
  e_subscribe_self :: bool
  e_subscribe_hass :: bool
  e_subscribe_group :: bool
  e_publish :: "publication \<Rightarrow> bool"
  e_wait_self :: "incoming list"
  e_wait_hass :: "incoming list"
  e_wait_group :: "incoming list"
  e_wait_publish :: "publication \<Rightarrow> incoming list"
  e_messages :: "incoming list"
  e_yield :: bool
  e_heap :: u32

fun deliver_message :: "incoming \<Rightarrow> app \<Rightarrow> app outcome" where
  "deliver_message (SelfMessage d) s = csro_device_handle_self_message d s"
| "deliver_message (HassMessage p t d) s = csro_device_handle_hass_message p t d s"
| "deliver_message (GroupMessage d) s = Done (csro_device_handle_group_message d s)"

text \<open>
  While the client waits for the acknowledgement of a subscription or a publication it
  delivers the messages that arrive.
\<close>

definition deliver_all :: "incoming list \<Rightarrow> app \<Rightarrow> app outcome" where
  "deliver_all ms = run_steps (map deliver_message ms)"

definition topic4 :: "string \<Rightarrow> string \<Rightarrow> string \<Rightarrow> string \<Rightarrow> string" where
  "topic4 a b c d = a @ ''/'' @ b @ ''/'' @ c @ ''/'' @ d"

fun then_call :: "app outcome \<Rightarrow> (app \<Rightarrow> (bool \<times> app) outcome) \<Rightarrow> (bool \<times> app) outcome" where
  "then_call (Done s) f = f s"
| "then_call (Restarted s) f = Restarted (False, s)"
| "then_call (Overflow b) f = Overflow b"

definition mqtt_pub_messgae :: "env \<Rightarrow> string \<Rightarrow> QoS \<Rightarrow> bool \<Rightarrow> app \<Rightarrow> (bool \<times> app) outcome" where
  "mqtt_pub_messgae e suffix qos retained s =
     (let topic = topic4 (prefix s) (mac_str s) (dev_type s) suffix;
          msg = \<lparr>p_topic = topic, p_payload = content s, p_qos = qos, p_retained = retained\<rparr>
      in if length topic \<ge> 100 then Overflow ''mqtt.pub_topic''
         else if \<not> isconnected s then Done (False, s\<lparr>pub_topic := topic, isconnected := False\<rparr>)
         else then_call (deliver_all (e_wait_publish e msg) (s\<lparr>pub_topic := topic\<rparr>)) (\<lambda>s.
           if e_publish e msg
           then Done (True, s\<lparr>published := published s @ [msg]\<rparr>)
           else Done (False, s\<lparr>isconnected := False\<rparr>)))"

text \<open>The four topics of a connection.\<close>

definition set_topics :: "app \<Rightarrow> app outcome" where
  "set_topics s =
     (let group_t = prefix s @ ''/group'';
          self_t = topic4 (prefix s) (mac_str s) (dev_type s) ''command'';
          hass_t = topic4 (prefix s) (mac_str s) (dev_type s) ''hass/#'';
          avail_t = topic4 (prefix s) (mac_str s) (dev_type s) ''available''
      in run_steps
           [strcpy ''mqtt.sub_topic_group'' 100 group_t (sub_topic_group_update (\<lambda>_. group_t)),
            strcpy ''mqtt.sub_topic_self'' 100 self_t (sub_topic_self_update (\<lambda>_. self_t)),
            strcpy ''mqtt.sub_topic_hass'' 100 hass_t (sub_topic_hass_update (\<lambda>_. hass_t)),
            strcpy ''mqtt.pub_topic'' 100 avail_t (pub_topic_update (\<lambda>_. avail_t))] s)"

definition subscribe ::
  "incoming list \<Rightarrow> bool \<Rightarrow> (app \<Rightarrow> (bool \<times> app) outcome) \<Rightarrow> app \<Rightarrow> (bool \<times> app) outcome" where
  "subscribe ms ok next s =
     then_call (deliver_all ms s) (\<lambda>s. if ok then next s else Done (False, s\<lparr>isconnected := False\<rparr>))"

definition broker_is_connected :: "env \<Rightarrow> app \<Rightarrow> (bool \<times> app) outcome" where
  "broker_is_connected e s =
     (if isconnected s then Done (True, s)
      else if broker s = [] \<or> prefix s = [] then Done (False, s)
      else if \<not> e_connect e then Done (False, s)
      else then_call (set_topics s) (\<lambda>s.
             if \<not> e_mqtt_connect e then Done (False, s\<lparr>isconnected := False\<rparr>)
             else
               subscribe (e_wait_self e) (e_subscribe_self e)
                 (subscribe (e_wait_hass e) (e_subscribe_hass e)
                   (subscribe (e_wait_group e) (e_subscribe_group e)
                     (\<lambda>s. mqtt_pub_messgae e ''available'' QOS1 True
                            (s\<lparr>serv_conn_count := serv_conn_count s + 1, content := ''online''\<rparr>))))
                 (s\<lparr>isconnected := True\<rparr>)))"

section \<open>The main task (csro\_mqtt.c)\<close>

definition drop_result :: "(bool \<times> app) outcome \<Rightarrow> app outcome" where
  "drop_result r =
     (case r of Done (b, s) \<Rightarrow> Done s | Restarted (b, s) \<Rightarrow> Restarted s | Overflow n \<Rightarrow> Overflow n)"

definition publish_if :: "env \<Rightarrow> bool \<Rightarrow> (app \<Rightarrow> app outcome) \<Rightarrow> string \<Rightarrow> app \<Rightarrow> app outcome" where
  "publish_if e taken prepare suffix s =
     (if taken then and_then (prepare s) (\<lambda>s. drop_result (mqtt_pub_messgae e suffix QOS1 False s))
      else Done s)"

text \<open>\<open>MQTTYield\<close>: the handlers of the messages that arrive, then its return code.\<close>

definition mqtt_yield :: "env \<Rightarrow> app \<Rightarrow> app outcome" where
  "mqtt_yield e s =
     and_then (deliver_all (e_messages e) s)
       (\<lambda>s. Done (if e_yield e then s else s\<lparr>isconnected := False\<rparr>))"

definition mqtt_connected_round :: "env \<Rightarrow> app \<Rightarrow> app outcome" where
  "mqtt_connected_round e s =
     run_steps
       [\<lambda>s. Done (csro_system_set_status NORMAL_START_OK s),
        \<lambda>s. publish_if e (status_sem s) csro_device_prepare_status_message ''state'' (s\<lparr>status_sem := False\<rparr>),
        \<lambda>s. publish_if e (system_sem s) (csro_system_prepare_message (e_heap e)) ''system'' (s\<lparr>system_sem := False\<rparr>),
        \<lambda>s. publish_if e (alarm_sem s) csro_device_prepare_timer_message ''timer'' (s\<lparr>alarm_sem := False\<rparr>),
        mqtt_yield e] s"

definition no_wifi_round :: "app \<Rightarrow> app outcome" where
  "no_wifi_round s =
     (let s = s\<lparr>wifi_retry := wifi_retry s + 1\<rparr>
      in if sc_flag s = 1 \<and> wifi_retry s \<ge> 10
         then (let (n, h) = nvs_open ''system'' NVS_READWRITE (flash s)
               in Restarted (s\<lparr>flash := nvs_set h ''sc_flag'' (NvsU8 0) n\<rparr>))
         else Done s)"

text \<open>One round of the endless loop of \<open>csro_mqtt_task\<close>.\<close>

definition csro_mqtt_task_round :: "env \<Rightarrow> app \<Rightarrow> app outcome" where
  "csro_mqtt_task_round e s =
     (case csro_system_get_wifi_status (e_addr e) s of
        (True, s) \<Rightarrow>
          (case broker_is_connected e s of
             Done (True, s) \<Rightarrow> mqtt_connected_round e s
           | Done (False, s) \<Rightarrow> Done (csro_system_set_status NORMAL_START_NOSERVER s)
           | Restarted (b, s) \<Rightarrow> Restarted s
           | Overflow b \<Rightarrow> Overflow b)
      | (False, s) \<Rightarrow> no_wifi_round s)"

text \<open>What the task does before the loop: the semaphores are created and emptied.\<close>

definition csro_mqtt_task_start :: "app \<Rightarrow> app" where
  "csro_mqtt_task_start s =
     s\<lparr>tasks := tasks s @ [''csro_udp_receive_task''],
       status_sem := False, system_sem := False, alarm_sem := False,
       status_timer := Some (unat (interval s) * 1000 div portTICK_RATE_MS)\<rparr>"

section \<open>Broadcasts and Wi-Fi events (csro\_udp.c)\<close>

definition string_item :: "cJSON option \<Rightarrow> string option" where
  "string_item item =
     (case item of None \<Rightarrow> None
      | Some i \<Rightarrow> if jtype i = cJSON_String then Some (the (valuestring i)) else None)"

definition process_udp_message :: "u32 list \<Rightarrow> string \<Rightarrow> app \<Rightarrow> app outcome" where
  "process_udp_message stack udp_buf s =
     (case cJSON_Parse udp_buf of
        None \<Rightarrow> Done s
      | Some json \<Rightarrow>
          and_then
            (case (string_item (cJSON_GetObjectItem json ''ip''), string_item (cJSON_GetObjectItem json ''mac'')) of
               (Some serv_ip, Some serv_mac) \<Rightarrow>
                 if length serv_ip \<ge> 4 \<and> length serv_mac \<ge> 10 \<and>
                    (serv_ip \<noteq> broker s \<or> serv_mac \<noteq> prefix s)
                 then run_steps
                        [strcpy ''mqtt.broker'' 50 serv_ip (broker_update (\<lambda>_. serv_ip)),
                         strcpy ''mqtt.prefix'' 50 serv_mac (prefix_update (\<lambda>_. serv_mac)),
                         \<lambda>s. Done (s\<lparr>isconnected := False\<rparr>)] s
                 else Done s
             | _ \<Rightarrow> Done s)
            (\<lambda>s. case string_item (cJSON_GetObjectItem json ''time'') of
                   None \<Rightarrow> Done s
                 | Some t \<Rightarrow> Done (csro_datetime_set stack t s)))"

datatype system_event =
    SYSTEM_EVENT_STA_START
  | SYSTEM_EVENT_STA_GOT_IP
  | SYSTEM_EVENT_STA_DISCONNECTED
  | SYSTEM_EVENT_OTHER

definition wifi_event_handler :: "system_event \<Rightarrow> app \<Rightarrow> app" where
  "wifi_event_handler ev s =
     (case ev of
        SYSTEM_EVENT_STA_START \<Rightarrow> s\<lparr>wifi_hostname := host_name s, wifi_connects := wifi_connects s + 1\<rparr>
      | SYSTEM_EVENT_STA_GOT_IP \<Rightarrow> s\<lparr>connected_bit := True\<rparr>
      | SYSTEM_EVENT_STA_DISCONNECTED \<Rightarrow> s\<lparr>wifi_connects := wifi_connects s + 1, connected_bit := False\<rparr>
      | SYSTEM_EVENT_OTHER \<Rightarrow> s)"

text \<open>
  The start of the task: the credentials are copied into the 32 and 64 characters of the
  driver's configuration.
\<close>

definition csro_udp_receive_task_start :: "app \<Rightarrow> app outcome" where
  "csro_udp_receive_task_start s =
     run_steps
       [\<lambda>s. Done (csro_system_set_status NORMAL_START_NOWIFI s),
        strcpy ''wifi_config.sta.ssid'' 32 (router_ssid s) id,
        strcpy ''wifi_config.sta.password'' 64 (router_pass s) id] s"

text \<open>A received datagram, cut to 511 bytes in the zeroed buffer.\<close>

definition udp_receive :: "u32 list \<Rightarrow> string \<Rightarrow> app \<Rightarrow> app outcome" where
  "udp_receive stack datagram s = process_udp_message stack (c_string (take 511 datagram)) s"

section \<open>Provisioning (csro\_sc.c)\<close>

datatype smartconfig_status = SC_STATUS_LINK | SC_STATUS_LINK_OVER | SC_STATUS_OTHER

text \<open>The credentials received over the air are \<open>pdata\<close>; the handler passes them to the driver only.\<close>

definition smartconfig_callback :: "smartconfig_status \<Rightarrow> string \<times> string \<Rightarrow> app \<Rightarrow> app" where
  "smartconfig_callback st pdata s =
     (case st of
        SC_STATUS_LINK \<Rightarrow>
          s\<lparr>router_ssid := ''Jupiter'', router_pass := ''150933205'', wifi_connects := wifi_connects s + 1\<rparr>
      | SC_STATUS_LINK_OVER \<Rightarrow> s\<lparr>esptouch_done_bit := True\<rparr>
      | SC_STATUS_OTHER \<Rightarrow> s)"

text \<open>
  One round of the waiting task: it wakes up when a bit is set, clears the bits, and stores
  the credentials and restarts when provisioning is over.
\<close>

definition smartconfig_task_round :: "app \<Rightarrow> app outcome" where
  "smartconfig_task_round s =
     (if \<not> connected_bit s \<and> \<not> esptouch_done_bit s then Done s
      else let ux_done = esptouch_done_bit s;
               s = s\<lparr>connected_bit := False, esptouch_done_bit := False\<rparr>
           in if ux_done
              then (let (n, h) = nvs_open ''system'' NVS_READWRITE (flash s);
                        n = nvs_set h ''ssid'' (NvsStr (router_ssid s)) n;
                        n = nvs_set h ''pass'' (NvsStr (router_pass s)) n;
                        n = nvs_set h ''router'' (NvsU8 1) n;
                        n = nvs_set h ''sc_flag'' (NvsU8 1) n
                    in Restarted (s\<lparr>flash := n\<rparr>))
              else Done s)"

definition sc_wifi_event_handler :: "system_event \<Rightarrow> app \<Rightarrow> app" where
  "sc_wifi_event_handler ev s =
     (case ev of
        SYSTEM_EVENT_STA_START \<Rightarrow> s\<lparr>tasks := tasks s @ [''smartconfig_task'']\<rparr>
      | SYSTEM_EVENT_STA_GOT_IP \<Rightarrow> s\<lparr>connected_bit := True\<rparr>
      | SYSTEM_EVENT_STA_DISCONNECTED \<Rightarrow> s\<lparr>wifi_connects := wifi_connects s + 1, connected_bit := False\<rparr>
      | SYSTEM_EVENT_OTHER \<Rightarrow> s)"

definition csro_sc_task_start :: "app \<Rightarrow> app" where
  "csro_sc_task_start s = csro_system_set_status SMARTCONFIG s"

section \<open>Start-up (csro\_common.c)\<close>

definition csro_init :: "bool \<Rightarrow> u8 list \<Rightarrow> SHA1_CTX \<Rightarrow> app \<Rightarrow> app outcome" where
  "csro_init timer_created wifi_mac pass_ctx s =
     (let s = csro_datetime_init timer_created s;
          s = csro_system_get_info wifi_mac pass_ctx s;
          s = csro_device_init s
      in case csro_system_get_wifi_info s of
           Done (True, s) \<Rightarrow> Done (s\<lparr>tasks := tasks s @ [''csro_mqtt_task'']\<rparr>)
         | Done (False, s) \<Rightarrow> Done (s\<lparr>tasks := tasks s @ [''csro_sc_task'']\<rparr>)
         | Restarted (b, s) \<Rightarrow> Restarted s
         | Overflow b \<Rightarrow> Overflow b)"

end
