(* ===== verification/Json_Theorems.thy ===== *)
theory Json_Theorems
  imports Json_Print
begin

text \<open>
  Printing and parsing are inverse on the items the firmware builds and receives: integers,
  strings without NUL, arrays and objects nested within the limit. The first part treats
  strings and numbers, the second the recursive structure.
\<close>

section \<open>Strings\<close>

lemma hex_digit_hex_char: "n < 16 \<Longrightarrow> hex_digit (hex_char n) = Some n"
  by (cases "n < 10") (auto simp: hex_digit_def hex_char_def of_char_of Let_def)

lemma parse_hex4_control:
  assumes "n < 32"
  shows "parse_hex4 (CHR ''0'' # CHR ''0'' # hex_char (n div 16) # hex_char (n mod 16) # r) = of_nat n"
proof -
  have d: "n div 16 < 16" "n mod 16 < 16" using assms by auto
  have zero: "hex_digit CHR ''0'' = Some 0" by (simp add: hex_digit_def Let_def)
  have "(of_nat (n div 16) * 16 + of_nat (n mod 16) :: u32) = of_nat (n div 16 * 16 + n mod 16)"
    by (simp only: of_nat_add of_nat_mult of_nat_numeral)
  moreover have four: "parse_hex4 cs = parse_hex4_loop (Suc (Suc (Suc (Suc 0)))) 0 cs" for cs
    by (simp add: parse_hex4_def numeral_eq_Suc)
  ultimately show ?thesis
    by (simp add: four zero hex_digit_hex_char [OF d(1)]
        hex_digit_hex_char [OF d(2)] push_bit_eq_mult mult.commute)
qed

lemma utf8_ascii:
  assumes "n < 128"
  shows "utf8_encode (of_nat n) = Some [char_of n]"
proof -
  have lt: "(of_nat n :: u32) < 0x80" using assms by (simp add: word_less_nat_alt unat_of_nat)
  have m: "(0x7F :: u32) = mask 7" by (simp add: mask_eq_exp_minus_1)
  have "unat (of_nat n AND 0x7F :: u32) = n"
    unfolding m take_bit_eq_mask [symmetric]
    using assms by (simp add: unsigned_take_bit_eq unat_of_nat take_bit_nat_eq_self)
  then show ?thesis
    using lt by (simp add: utf8_encode_def byte_char_def and.assoc)
qed

lemma utf16_control:
  assumes "n < 32"
  shows "utf16_literal_to_utf8 (CHR 0x5C # CHR ''u'' # CHR ''0'' # CHR ''0'' # hex_char (n div 16) # hex_char (n mod 16) # r) =
    Some ([char_of n], 6)"
proof -
  have "\<not> (0xDC00 :: u32) \<le> of_nat n" "\<not> (0xD800 :: u32) \<le> of_nat n"
    using assms by (simp_all add: word_le_nat_alt unat_of_nat)
  then show ?thesis
    using parse_hex4_control [OF assms] utf8_ascii [of n] assms by (simp add: utf16_literal_to_utf8_def Let_def)
qed

lemma hex_char_plain: "n < 16 \<Longrightarrow> hex_char n \<noteq> CHR 0x22 \<and> hex_char n \<noteq> CHR 0x5C"
proof -
  assume "n < 16"
  then have "of_char (hex_char n) \<noteq> (34 :: nat) \<and> of_char (hex_char n) \<noteq> (92 :: nat)"
    by (auto simp: hex_char_def of_char_of)
  then show ?thesis by auto
qed

lemma escape_char_cases:
  obtains (plain) "escape_char c = [c]" "c \<noteq> CHR 0x22" "c \<noteq> CHR 0x5C"
  | (short) d where "escape_char c = [CHR 0x5C, d]" "d \<noteq> CHR ''u''" "simple_escape d = Some c"
  | (control) n where "escape_char c = [CHR 0x5C, CHR ''u'', CHR ''0'', CHR ''0'', hex_char (n div 16), hex_char (n mod 16)]"
      "n < 32" "c = char_of n"
proof -
  let ?n = "of_char c :: nat"
  have c: "c = char_of ?n" by simp
  consider "c = CHR 0x5C \<or> c = CHR 0x22" | "c \<noteq> CHR 0x5C" "c \<noteq> CHR 0x22" "?n > 31"
    | "c \<noteq> CHR 0x5C" "c \<noteq> CHR 0x22" "?n \<le> 31" "?n \<in> {8, 9, 10, 12, 13}"
    | "c \<noteq> CHR 0x5C" "c \<noteq> CHR 0x22" "?n \<le> 31" "?n \<notin> {8, 9, 10, 12, 13}"
    by linarith
  then show thesis
  proof cases
    case 1
    then show ?thesis by (intro short [of c]) (auto simp: escape_char_def simple_escape_def)
  next
    case 2
    then show ?thesis by (intro plain) (auto simp: escape_char_def)
  next
    case 3
    then consider "?n = 8" | "?n = 9" | "?n = 10" | "?n = 12" | "?n = 13" by auto
    then show ?thesis
    proof cases
      case 1
      then have "c = CHR 0x08" using of_char_eq_iff [where 'a = nat, of c "CHR 0x08"] by simp
      then show ?thesis by (intro short [of "CHR ''b''"]) (auto simp: escape_char_def simple_escape_def)
    next
      case 2
      then have "c = CHR 0x09" using of_char_eq_iff [where 'a = nat, of c "CHR 0x09"] by simp
      then show ?thesis by (intro short [of "CHR ''t''"]) (auto simp: escape_char_def simple_escape_def)
    next
      case 3
      then have "c = CHR 0x0A" using of_char_eq_iff [where 'a = nat, of c "CHR 0x0A"] by simp
      then show ?thesis by (intro short [of "CHR ''n''"]) (auto simp: escape_char_def simple_escape_def)
    next
      case 4
      then have "c = CHR 0x0C" using of_char_eq_iff [where 'a = nat, of c "CHR 0x0C"] by simp
      then show ?thesis by (intro short [of "CHR ''f''"]) (auto simp: escape_char_def simple_escape_def)
    next
      case 5
      then have "c = CHR 0x0D" using of_char_eq_iff [where 'a = nat, of c "CHR 0x0D"] by simp
      then show ?thesis by (intro short [of "CHR ''r''"]) (auto simp: escape_char_def simple_escape_def)
    qed
  next
    case 4
    then show ?thesis by (intro control [of ?n]) (auto simp: escape_char_def Let_def)
  qed
qed

lemma string_body_escape:
  "string_body (concat (map escape_char s) @ CHR 0x22 # r) = Some (concat (map escape_char s), r)"
proof (induction s)
  case (Cons c s)
  show ?case
  proof (cases c rule: escape_char_cases)
    case (control n)
    then have "n div 16 < 16" "n mod 16 < 16" by auto
    then show ?thesis using control Cons hex_char_plain [of "n div 16"] hex_char_plain [of "n mod 16"] by simp
  qed (use Cons in simp_all)
qed simp

lemma unescape_escape: "unescape (concat (map escape_char s)) = Some s"
proof (induction s)
  case (Cons c s)
  show ?case
  proof (cases c rule: escape_char_cases)
    case (control n)
    have "drop (6 - 1) (CHR ''u'' # CHR ''0'' # CHR ''0'' # x # y # r) = r" for x y r
      by (simp add: numeral_eq_Suc)
    then show ?thesis using control Cons utf16_control [of n] by (simp del: drop_Cons_numeral)
  qed (use Cons in simp_all)
qed simp

lemma parse_string_quote:
  assumes "CHR 0x00 \<notin> set s"
  shows "parse_string (quote s @ r) = Some (s, r)"
proof -
  have "takeWhile (\<lambda>c. c \<noteq> CHR 0x00) s = s" using assms by (auto simp: takeWhile_eq_all_conv)
  then show ?thesis
    using string_body_escape [of s r] unescape_escape [of s] by (simp add: parse_string_def quote_def)
qed

section \<open>Numbers\<close>

lemma show_int_number_chars: "\<forall>c \<in> set (show_int n). number_char c"
  using show_nat_digits by (auto simp: show_int_def number_char_def)

lemma strtod_show_int:
  assumes "INT_MIN \<le> n" "n \<le> INT_MAX"
  shows "strtod (show_int n) = Some (Fin (of_int n), [])"
proof -
  have digits: "takeWhile is_digit (show_nat k) = show_nat k" "dropWhile is_digit (show_nat k) = []" for k
    using show_nat_digits [of k] by (simp_all add: takeWhile_eq_all_conv dropWhile_eq_Nil_conv)
  have nosign: "scan_sign (show_nat k) = (False, show_nat k)" for k
    using show_nat_digits [of k] digit_not_sign
    by (cases "show_nat k") (auto simp: scan_sign_def)
  have sign: "scan_sign (show_int n) = (n < 0, show_nat (nat \<bar>n\<bar>))"
  proof (cases "n < 0")
    case True
    then show ?thesis by (simp add: show_int_def scan_sign_def)
  next
    case False
    then show ?thesis using nosign by (simp add: show_int_def)
  qed
  have v: "(if n < 0 then - (of_nat (nat \<bar>n\<bar>) :: rat) else of_nat (nat \<bar>n\<bar>)) = of_int n"
    by (cases "n < 0") (simp_all add: of_nat_nat)
  have "rnd (of_int n) = Fin (of_int n)"
    using assms by (intro rnd_of_int) (simp add: INT_MIN_def INT_MAX_def)
  then show ?thesis
    using v by (simp add: strtod_def Let_def sign digits scan_fraction_def scan_exponent_def
        digits_value_show_nat pow10_def split: if_splits)
qed

lemma parse_number_show_int:
  assumes "INT_MIN \<le> n" "n \<le> INT_MAX" "r = [] \<or> \<not> number_char (hd r)"
  shows "parse_number (show_int n @ r) = Some (CJSON cJSON_Number None n (Fin (of_int n)) None [], r)"
proof -
  have len: "length (show_int n) \<le> 11" by (rule length_show_int [OF assms(1,2)])
  have "takeWhile number_char (show_int n @ take (63 - length (show_int n)) r) =
      show_int n @ takeWhile number_char (take (63 - length (show_int n)) r)"
    using show_int_number_chars by (intro takeWhile_append2) auto
  also have "takeWhile number_char (take (63 - length (show_int n)) r) = []"
    using assms(3) by (cases r; cases "63 - length (show_int n)") auto
  finally have "takeWhile number_char (take 63 (show_int n @ r)) = show_int n"
    using len by simp
  then show ?thesis
    using strtod_show_int [OF assms(1,2)] saturate_int_of_int [OF assms(1,2)]
    by (simp add: parse_number_def Let_def cJSON_New_Item_def)
qed

section \<open>Structure\<close>

text \<open>The items that parsing can produce, apart from fractional or large numbers.\<close>

definition clean_text :: "string option \<Rightarrow> bool" where
  "clean_text s \<longleftrightarrow> (case s of None \<Rightarrow> False | Some t \<Rightarrow> CHR 0x00 \<notin> set t)"

fun canonical :: "cJSON \<Rightarrow> bool" where
  "canonical (CJSON ty vs vi vd nm ch) \<longleftrightarrow>
     (case ty of
        cJSON_NULL \<Rightarrow> vs = None \<and> vi = 0 \<and> vd = Fin 0 \<and> ch = []
      | cJSON_False \<Rightarrow> vs = None \<and> vi = 0 \<and> vd = Fin 0 \<and> ch = []
      | cJSON_True \<Rightarrow> vs = None \<and> vi = 1 \<and> vd = Fin 0 \<and> ch = []
      | cJSON_Number \<Rightarrow> vs = None \<and> INT_MIN \<le> vi \<and> vi \<le> INT_MAX \<and> vd = Fin (of_int vi) \<and> ch = []
      | cJSON_String \<Rightarrow> clean_text vs \<and> vi = 0 \<and> vd = Fin 0 \<and> ch = []
      | cJSON_Array \<Rightarrow> vs = None \<and> vi = 0 \<and> vd = Fin 0 \<and>
          list_all (\<lambda>c. canonical c \<and> jname c = None) ch
      | cJSON_Object \<Rightarrow> vs = None \<and> vi = 0 \<and> vd = Fin 0 \<and>
          list_all (\<lambda>c. canonical c \<and> clean_text (jname c)) ch
      | _ \<Rightarrow> False)"

fun height :: "cJSON \<Rightarrow> nat" where
  "height (CJSON ty vs vi vd nm ch) =
     (if ty = cJSON_Array \<or> ty = cJSON_Object then Suc (fold max (map height ch) 0) else 0)"

fun unname :: "cJSON \<Rightarrow> cJSON" where
  "unname (CJSON ty vs vi vd nm ch) = CJSON ty vs vi vd None ch"

lemma unname_id: "jname c = None \<Longrightarrow> unname c = c"
  by (cases c) simp

lemma set_name_unname: "jname c = Some s \<Longrightarrow> set_name s (unname c) = c"
  by (cases c) simp

lemma fold_max_ge: "(b :: nat) \<le> fold max xs b"
proof (induction xs arbitrary: b)
  case (Cons y ys)
  have "max y b \<le> fold max ys (max y b)" by (rule Cons.IH)
  then show ?case by simp
qed simp

lemma le_fold_max: "(x :: nat) \<in> set xs \<Longrightarrow> x \<le> fold max xs b"
proof (induction xs arbitrary: b)
  case (Cons y ys)
  show ?case
  proof (cases "x = y")
    case True
    have "max y b \<le> fold max ys (max y b)" by (rule fold_max_ge)
    then show ?thesis using True by simp
  qed (use Cons in simp)
qed simp

lemma height_child:
  "c \<in> set ch \<Longrightarrow> ty = cJSON_Array \<or> ty = cJSON_Object \<Longrightarrow> height c < height (CJSON ty vs vi vd nm ch)"
  using le_fold_max [of "height c" "map height ch" 0] by auto

text \<open>Characters a number cannot continue with.\<close>

definition ends_number :: "string \<Rightarrow> bool" where
  "ends_number r \<longleftrightarrow> r = [] \<or> \<not> number_char (hd r)"

lemma ends_number_Cons [simp]:
  "ends_number (CHR '','' # r)" "ends_number (CHR '']'' # r)" "ends_number (CHR ''}'' # r)"
  "ends_number (CHR 0x0A # r)"
  by (simp_all add: ends_number_def number_char_def is_digit_def)

lemma skip_ws_simps [simp]:
  "buffer_skip_whitespace (CHR '' '' # r) = buffer_skip_whitespace r"
  "buffer_skip_whitespace (CHR 0x0A # r) = buffer_skip_whitespace r"
  "buffer_skip_whitespace (replicate k (CHR 0x09) @ r) = buffer_skip_whitespace r"
  "buffer_skip_whitespace (CHR 0x09 # r) = buffer_skip_whitespace r"
  "buffer_skip_whitespace (CHR '','' # r) = CHR '','' # r"
  "buffer_skip_whitespace (CHR '']'' # r) = CHR '']'' # r"
  "buffer_skip_whitespace (CHR ''}'' # r) = CHR ''}'' # r"
  "buffer_skip_whitespace (CHR '':'' # r) = CHR '':'' # r"
  by (simp_all add: buffer_skip_whitespace_def) (induction k; simp)

lemma at_char_Cons [simp]: "at_char c (d # s) \<longleftrightarrow> d = c"
  by (simp add: at_char_def)

text \<open>The first character of a rendered value.\<close>

definition head_ok :: "char \<Rightarrow> bool" where
  "head_ok c \<longleftrightarrow> of_char c > (32 :: nat) \<and> c \<noteq> CHR '']'' \<and> c \<noteq> CHR ''}''"

lemma digit_head_ok: "is_digit c \<Longrightarrow> head_ok c"
  by (auto simp: is_digit_def head_ok_def)

lemma show_int_head: "\<exists>c s. show_int n = c # s \<and> (c = CHR ''-'' \<or> is_digit c)"
proof -
  obtain c s where "show_nat (nat n) = c # s" by (cases "show_nat (nat n)") simp_all
  then show ?thesis using show_nat_digits [of "nat n"] by (auto simp: show_int_def)
qed

lemma render_head:
  assumes "canonical v"
  shows "\<exists>c s. render fmt depth v = c # s \<and> head_ok c"
proof (cases v)
  case (CJSON ty vs vi vd nm ch)
  show ?thesis
  proof (cases ty)
    case cJSON_Number
    obtain c s where "show_int vi = c # s" "c = CHR ''-'' \<or> is_digit c" using show_int_head by blast
    then show ?thesis using CJSON cJSON_Number assms digit_head_ok by (auto simp: head_ok_def)
  qed (use CJSON assms in \<open>auto simp: head_ok_def quote_opt_def quote_def\<close>)
qed

lemma skip_render: "canonical v \<Longrightarrow> buffer_skip_whitespace (render fmt depth v @ r) = render fmt depth v @ r"
  using render_head [of v fmt depth] by (auto simp: buffer_skip_whitespace_def head_ok_def)

lemma quote_opt_Cons: "\<exists>s. quote_opt n = CHR 0x22 # s"
  by (simp add: quote_opt_def quote_def)

lemma skip_quote: "buffer_skip_whitespace (quote_opt n @ r) = quote_opt n @ r"
  using quote_opt_Cons [of n] by (auto simp: buffer_skip_whitespace_def)

lemma parse_string_quote_opt: "clean_text n \<Longrightarrow> parse_string (quote_opt n @ r) = Some (the n, r)"
  by (auto simp: clean_text_def quote_opt_def parse_string_quote split: option.splits)

lemma starts_with_Cons [simp]:
  "starts_with (p # ps) (c # cs) \<longleftrightarrow> p = c \<and> starts_with ps cs" "starts_with [] s"
  by (auto simp: starts_with_def)

lemma parse_value_number:
  assumes "INT_MIN \<le> n" "n \<le> INT_MAX" "ends_number r"
  shows "parse_value (Suc k) depth (show_int n @ r) = Some (CJSON cJSON_Number None n (Fin (of_int n)) None [], r)"
proof -
  obtain c s where cs: "show_int n = c # s" "c = CHR ''-'' \<or> is_digit c" using show_int_head by blast
  then have "c \<noteq> CHR ''n''" "c \<noteq> CHR ''f''" "c \<noteq> CHR ''t''" "c \<noteq> CHR 0x22"
    by (auto simp: is_digit_def)
  then have "parse_value (Suc k) depth (show_int n @ r) = parse_number (show_int n @ r)"
    using cs by simp
  then show ?thesis using parse_number_show_int assms by (simp add: ends_number_def)
qed

lemma parse_value_array: "parse_value (Suc k) depth (CHR ''['' # s) = parse_array (parse_value k) depth (CHR ''['' # s)"
  by (simp add: is_digit_def)

lemma parse_value_object: "parse_value (Suc k) depth (CHR ''{'' # s) = parse_object (parse_value k) depth (CHR ''{'' # s)"
  by (simp add: is_digit_def)

lemma parse_value_string: "clean_text vs \<Longrightarrow> parse_value (Suc k) depth (quote_opt vs @ r) =
    Some (CJSON cJSON_String vs 0 (Fin 0) None [], r)"
proof -
  assume vs: "clean_text vs"
  obtain s where "quote_opt vs = CHR 0x22 # s" using quote_opt_Cons by blast
  then have "parse_value (Suc k) depth (quote_opt vs @ r) =
      map_option (\<lambda>(v, r). (set_valuestring v (set_type cJSON_String cJSON_New_Item), r)) (parse_string (quote_opt vs @ r))"
    by simp
  then show ?thesis
    using parse_string_quote_opt [OF vs] vs by (auto simp: clean_text_def cJSON_New_Item_def split: option.splits)
qed

lemma length_render_elements:
  "list_all canonical es \<Longrightarrow> length es \<le> length (render_elements fmt depth es)"
proof (induction es)
  case (Cons e es)
  then obtain c s where "render fmt depth e = c # s" using render_head [of e fmt depth] by auto
  then show ?case using Cons by (cases "es = []") auto
qed simp

lemma length_render_members: "length es \<le> length (render_members fmt depth es)"
  by (induction es) auto

text \<open>
  One round of each loop: a parsed element followed by a separator, or by the closing
  bracket.
\<close>

lemma array_loop_render:
  assumes "\<And>e r. e \<in> set es \<Longrightarrow> ends_number r \<Longrightarrow> pv (render fmt d e @ r) = Some (unname e, r)"
    and "\<forall>e \<in> set es. canonical e \<and> jname e = None" "es \<noteq> []" "length es \<le> n"
  shows "array_loop pv n (render_elements fmt d es @ CHR '']'' # rest) = Some (es, CHR '']'' # rest) \<and>
         array_loop pv n (CHR '' '' # render_elements fmt d es @ CHR '']'' # rest) = Some (es, CHR '']'' # rest)"
  using assms
proof (induction es arbitrary: n)
  case (Cons e es)
  then obtain m where n: "n = Suc m" by (cases n) auto
  have e: "canonical e" "unname e = e" using Cons.prems by (auto simp: unname_id)
  show ?case
  proof (cases "es = []")
    case True
    have "pv (render fmt d e @ CHR '']'' # rest) = Some (e, CHR '']'' # rest)"
      using Cons.prems(1) [of e] e by simp
    then show ?thesis using True e(1) by (simp add: n skip_render Let_def)
  next
    case False
    let ?rs = "render_elements fmt d es @ CHR '']'' # rest"
    let ?sep = "if fmt then '', '' else '',''"
    have pv: "pv (render fmt d e @ ?sep @ ?rs) = Some (e, ?sep @ ?rs)"
      using Cons.prems(1) [of e "?sep @ ?rs"] e by (cases fmt) simp_all
    have "array_loop pv m ?rs = Some (es, CHR '']'' # rest) \<and>
        array_loop pv m (CHR '' '' # ?rs) = Some (es, CHR '']'' # rest)"
      using Cons.prems False n by (intro Cons.IH) auto
    then show ?thesis
      using False pv e(1) skip_render [OF e(1), of fmt d "?sep @ ?rs"]
      by (cases fmt) (simp_all add: n Let_def)
  qed
qed simp

lemma object_loop_render:
  assumes "\<And>e r. e \<in> set es \<Longrightarrow> ends_number r \<Longrightarrow> pv (render fmt d e @ r) = Some (unname e, r)"
    and "\<forall>e \<in> set es. canonical e \<and> clean_text (jname e)" "es \<noteq> []" "length es \<le> n"
    and "ws = [] \<or> ws = [CHR 0x0A]" "tabs = replicate k (CHR 0x09)"
  shows "object_loop pv n (ws @ render_members fmt d es @ tabs @ CHR ''}'' # rest) = Some (es, CHR ''}'' # rest)"
  using assms
proof (induction es arbitrary: n ws)
  case (Cons e es)
  then obtain m where n: "n = Suc m" by (cases n) auto
  have e: "canonical e" "clean_text (jname e)" using Cons.prems by auto
  then have nm: "set_name (the (jname e)) (unname e) = e"
    by (auto simp: clean_text_def set_name_unname split: option.splits)
  let ?tail = "tabs @ CHR ''}'' # rest"
  let ?colon = "if fmt then '':'' @ [CHR 0x09] else '':''"
  let ?nl = "if fmt then [CHR 0x0A] else []"
  let ?sep = "if es = [] then ?nl else '','' @ ?nl"
  let ?after = "?sep @ render_members fmt d es @ ?tail"
  let ?text = "quote_opt (jname e) @ ?colon @ render fmt d e @ ?after"
  have skip: "buffer_skip_whitespace (ws @ render_members fmt d (e # es) @ ?tail) = ?text"
    using Cons.prems(5) skip_quote [of "jname e"] by (cases fmt) auto
  have after: "ends_number ?after"
    using Cons.prems(6) by (cases fmt; cases "es = []"; cases k) (simp_all add: ends_number_def number_char_def is_digit_def)
  have pv: "pv (render fmt d e @ ?after) = Some (unname e, ?after)"
    using Cons.prems(1) [of e ?after] after by simp
  have colon: "buffer_skip_whitespace (?colon @ render fmt d e @ ?after) = ?colon @ render fmt d e @ ?after"
    "buffer_skip_whitespace (tl (?colon @ render fmt d e @ ?after)) = render fmt d e @ ?after"
    using skip_render [OF e(1)] by (cases fmt; simp)+
  have step: "object_loop pv n (ws @ render_members fmt d (e # es) @ ?tail) =
      (let r4 = buffer_skip_whitespace ?after
       in if at_char CHR '','' r4
          then map_option (\<lambda>(items, r''). (e # items, r'')) (object_loop pv m (tl r4))
          else Some ([e], r4))"
    unfolding n object_loop.simps skip parse_string_quote_opt [OF e(2)] option.case prod.case Let_def colon pv nm
    by (cases fmt) simp_all
  show ?case
  proof (cases "es = []")
    case True
    then have "buffer_skip_whitespace ?after = CHR ''}'' # rest"
      using Cons.prems(6) by (cases fmt) simp_all
    then show ?thesis using step True by simp
  next
    case False
    have "object_loop pv m (?nl @ render_members fmt d es @ ?tail) = Some (es, CHR ''}'' # rest)"
      using Cons.prems False n by (intro Cons.IH) auto
    then show ?thesis using step False by simp
  qed
qed simp

lemma parse_array_render:
  assumes "es = [] \<or> array_loop (pv (Suc depth)) (Suc (length (render_elements fmt d es @ CHR '']'' # rest)))
      (render_elements fmt d es @ CHR '']'' # rest) = Some (es, CHR '']'' # rest)"
    and "list_all canonical es" "depth < CJSON_NESTING_LIMIT"
  shows "parse_array pv depth (CHR ''['' # render_elements fmt d es @ CHR '']'' # rest) =
    Some (CJSON cJSON_Array None 0 (Fin 0) None es, rest)"
proof (cases es)
  case Nil
  then show ?thesis using assms(3) by (simp add: parse_array_def cJSON_New_Item_def)
next
  case (Cons e es')
  then have "\<exists>c s. render_elements fmt d es = c # s \<and> head_ok c"
    using render_head [of e fmt d] assms(2) by (auto simp: Cons)
  then obtain c s where cs: "render_elements fmt d es = c # s" "head_ok c" by blast
  then have "buffer_skip_whitespace (c # s @ CHR '']'' # rest) = c # s @ CHR '']'' # rest" "c \<noteq> CHR '']''"
    by (auto simp: buffer_skip_whitespace_def head_ok_def)
  then show ?thesis
    using assms(1,3) Cons cs(1)
    by (simp add: parse_array_def Let_def cJSON_New_Item_def del: array_loop.simps render_elements.simps)
qed

lemma object_loop_skip: "object_loop pv n (buffer_skip_whitespace s) = object_loop pv n s"
proof -
  have "buffer_skip_whitespace (buffer_skip_whitespace s) = buffer_skip_whitespace s"
    by (simp add: buffer_skip_whitespace_def)
  then show ?thesis by (cases n) simp_all
qed

lemma parse_object_render:
  fixes fmt d es tabs rest
  defines "ws \<equiv> if fmt then [CHR 0x0A] else []"
  defines "body \<equiv> ws @ render_members fmt d es @ tabs @ CHR ''}'' # rest"
  assumes loop: "es = [] \<or> (\<forall>n \<ge> length es. object_loop (pv (Suc depth)) n body = Some (es, CHR ''}'' # rest))"
    and tabs: "tabs = replicate k (CHR 0x09)" and depth: "depth < CJSON_NESTING_LIMIT"
  shows "parse_object pv depth (CHR ''{'' # body) = Some (CJSON cJSON_Object None 0 (Fin 0) None es, rest)"
proof (cases es)
  case Nil
  then have "buffer_skip_whitespace body = CHR ''}'' # rest"
    by (simp add: body_def ws_def tabs)
  then show ?thesis using Nil depth by (simp add: parse_object_def Let_def cJSON_New_Item_def)
next
  case (Cons e es')
  obtain s where q: "quote_opt (jname e) = CHR 0x22 # s" using quote_opt_Cons by blast
  then obtain t where body: "buffer_skip_whitespace body = CHR 0x22 # t"
    using skip_quote [of "jname e"] by (cases fmt) (auto simp: body_def ws_def Cons)
  have "\<forall>n \<ge> length es. object_loop (pv (Suc depth)) n (CHR 0x22 # t) = Some (es, CHR ''}'' # rest)"
    using loop Cons body object_loop_skip [of "pv (Suc depth)" _ body] by simp
  moreover have "length es \<le> Suc (length (CHR 0x22 # t))"
  proof -
    have "render_members fmt d es = (if fmt then replicate d (CHR 0x09) else []) @ drop (if fmt then d else 0) (render_members fmt d es)"
      by (simp add: Cons)
    then have "buffer_skip_whitespace body =
        buffer_skip_whitespace (drop (if fmt then d else 0) (render_members fmt d es) @ tabs @ CHR ''}'' # rest)"
      by (cases fmt) (simp_all add: body_def ws_def del: render_members.simps, metis append.assoc skip_ws_simps(3))
    also have "\<dots> = drop (if fmt then d else 0) (render_members fmt d es) @ tabs @ CHR ''}'' # rest"
      using skip_quote [of "jname e"] by (simp add: Cons)
    finally have "length (CHR 0x22 # t) \<ge> length (drop (if fmt then d else 0) (render_members fmt d es))"
      using body by (metis le_add1 length_append)
    moreover have "length es \<le> length (drop (if fmt then d else 0) (render_members fmt d es))"
      using length_render_members [of es' fmt d] q by (simp add: Cons)
    ultimately show ?thesis by linarith
  qed
  ultimately have "object_loop (pv (Suc depth)) (Suc (length (CHR 0x22 # t))) (CHR 0x22 # t) = Some (es, CHR ''}'' # rest)"
    by blast
  then show ?thesis
    using body depth by (simp add: parse_object_def Let_def cJSON_New_Item_def del: object_loop.simps)
qed

text \<open>What the printer writes, the parser reads back, whatever follows.\<close>

lemma parse_value_render:
  "canonical v \<Longrightarrow> height v + depth \<le> CJSON_NESTING_LIMIT \<Longrightarrow> height v < n \<Longrightarrow>
   (jtype v = cJSON_Number \<Longrightarrow> ends_number r) \<Longrightarrow>
   parse_value n depth (render fmt d v @ r) = Some (unname v, r)"
proof (induction v arbitrary: depth n r fmt d)
  case (CJSON ty vs vi vd nm ch)
  obtain m where n: "n = Suc m" using CJSON.prems by (cases n) auto
  have child: "parse_value m (Suc depth) (render fmt (Suc d) c @ s) = Some (unname c, s)"
    if "c \<in> set ch" "canonical c" "ty = cJSON_Array \<or> ty = cJSON_Object" "ends_number s" for c s
    using that height_child [OF that(1,3), of vs vi vd nm] CJSON.prems n by (intro CJSON.IH) auto
  have deep: "depth < CJSON_NESTING_LIMIT" if "ty = cJSON_Array \<or> ty = cJSON_Object"
    using that CJSON.prems by auto
  show ?case
  proof (cases ty)
    case cJSON_Number
    then show ?thesis using CJSON.prems parse_value_number n by simp
  next
    case cJSON_String
    then show ?thesis using CJSON.prems parse_value_string n by simp
  next
    case cJSON_Array
    then have ch: "\<forall>c \<in> set ch. canonical c \<and> jname c = None" and fields: "vs = None" "vi = 0" "vd = Fin 0"
      using CJSON.prems by (auto simp: list_all_iff)
    then have can: "list_all canonical ch" by (auto simp: list_all_iff)
    let ?text = "render_elements fmt (Suc d) ch @ CHR '']'' # r"
    have "ch = [] \<or> array_loop (parse_value m (Suc depth)) (Suc (length ?text)) ?text = Some (ch, CHR '']'' # r)"
      using array_loop_render [of ch "parse_value m (Suc depth)" fmt "Suc d" "Suc (length ?text)" r] ch child cJSON_Array
        length_render_elements [OF can, of fmt "Suc d"] by (auto simp del: array_loop.simps)
    moreover have "depth < CJSON_NESTING_LIMIT" using deep cJSON_Array by simp
    ultimately show ?thesis
      using parse_array_render [of ch "parse_value m" depth fmt "Suc d" r] can
        cJSON_Array fields n parse_value_array by simp
  next
    case cJSON_Object
    then have ch: "\<forall>c \<in> set ch. canonical c \<and> clean_text (jname c)" and fields: "vs = None" "vi = 0" "vd = Fin 0"
      using CJSON.prems by (auto simp: list_all_iff)
    let ?ws = "if fmt then [CHR 0x0A] else []" and ?tabs = "if fmt then replicate d (CHR 0x09) else []"
    let ?body = "?ws @ render_members fmt (Suc d) ch @ ?tabs @ CHR ''}'' # r"
    obtain k where tabs: "?tabs = replicate k (CHR 0x09)" by (cases fmt) (auto intro: exI [of _ 0])
    have loop: "object_loop (parse_value m (Suc depth)) i (ws @ render_members fmt (Suc d) ch @ ?tabs @ CHR ''}'' # r) =
        Some (ch, CHR ''}'' # r)" if "ch \<noteq> []" "length ch \<le> i" "ws = [] \<or> ws = [CHR 0x0A]" for i ws
      using object_loop_render [of ch "parse_value m (Suc depth)" fmt "Suc d" i ws ?tabs k r] ch child cJSON_Object that tabs
      by blast
    have ws: "?ws = [] \<or> ?ws = [CHR 0x0A]" by simp
    have "ch = [] \<or> (\<forall>i \<ge> length ch. object_loop (parse_value m (Suc depth)) i ?body = Some (ch, CHR ''}'' # r))"
      using loop [OF _ _ ws] by blast
    moreover have "depth < CJSON_NESTING_LIMIT" using deep cJSON_Object by simp
    ultimately have "parse_object (parse_value m) depth (CHR ''{'' # ?body) = Some (CJSON cJSON_Object None 0 (Fin 0) None ch, r)"
      using parse_object_render [of ch "parse_value m" depth fmt "Suc d" ?tabs r k] tabs by blast
    then show ?thesis
      using cJSON_Object fields n parse_value_object by (cases fmt) simp_all
  qed (use CJSON.prems n in \<open>simp_all add: cJSON_New_Item_def starts_with_def\<close>)
qed

section \<open>Messages\<close>

lemma skip_utf8_bom_render:
  assumes "canonical v"
  shows "skip_utf8_bom (render fmt 0 v @ r) = render fmt 0 v @ r"
proof -
  obtain c s where c: "render fmt 0 v = c # s" using render_head [OF assms] by blast
  have "c \<noteq> CHR 0xEF"
  proof (cases v)
    case (CJSON ty vs vi vd nm ch)
    then show ?thesis
      using c assms show_int_head [of vi]
      by (cases ty) (auto simp: quote_opt_def quote_def is_digit_def split: if_splits)
  qed
  then show ?thesis by (simp add: skip_utf8_bom_def c)
qed

lemma cJSON_Parse_render:
  assumes "canonical v" "jname v = None" "height v \<le> CJSON_NESTING_LIMIT" "jtype v = cJSON_Number \<Longrightarrow> ends_number r"
  shows "cJSON_Parse (render fmt 0 v @ r) = Some v"
proof -
  have "parse_value (Suc CJSON_NESTING_LIMIT) 0 (render fmt 0 v @ r) = Some (unname v, r)"
    using assms by (intro parse_value_render) simp_all
  then show ?thesis
    using skip_render [OF assms(1), of fmt 0 r] skip_utf8_bom_render [OF assms(1)] unname_id [OF assms(2)]
    by (simp add: cJSON_Parse_def cJSON_ParseWithOpts_def del: parse_value.simps)
qed

section \<open>Properties\<close>

lemma printable_canonical: "canonical v \<Longrightarrow> printable v"
proof (induction v)
  case (CJSON ty vs vi vd nm ch)
  then show ?case by (cases ty) (auto simp: list_all_iff)
qed

lemma print_canonical:
  assumes "canonical v" "length (render fmt 0 v) + 1 < PRINT_LIMIT"
  shows "print fmt v = POk (render fmt 0 v)"
proof -
  let ?p = "\<lparr>ptext = [], plength = 256, noalloc = False\<rparr>"
  have "prints (print_value fmt 0 v) (render fmt 0 v)"
    by (rule prints_all(1)) (rule printable_canonical [OF assms(1)])
  moreover have "buffer_ok ?p" by (simp add: buffer_ok_def)
  ultimately obtain p' where "print_value fmt 0 v ?p = POk p'" "ptext p' = render fmt 0 v"
    using assms(2) unfolding prints_def by fastforce
  then show ?thesis by (simp add: print_def)
qed

text \<open>
  C20: for every item built of integers, strings without NUL, arrays and objects nested no
  deeper than the limit, whose text is shorter than 2^29 characters, printing succeeds in
  either format, and parsing the printed text gives the item back.
\<close>

theorem json_print_parse:
  assumes "canonical v" "jname v = None" "height v \<le> CJSON_NESTING_LIMIT"
    and "length (render fmt 0 v) + 1 < PRINT_LIMIT"
  shows "\<exists>text. print fmt v = POk text \<and> cJSON_Parse text = Some v"
proof -
  have "print fmt v = POk (render fmt 0 v)" by (rule print_canonical [OF assms(1,4)])
  moreover have "cJSON_Parse (render fmt 0 v @ []) = Some v"
    using assms(1-3) by (intro cJSON_Parse_render) (simp_all add: ends_number_def)
  ultimately show ?thesis by simp
qed

theorem json_print_parse_witness:
  "\<exists>text. print False (cJSON_AddStringToObject (cJSON_AddNumberToObject cJSON_CreateObject ''interval'' 5) ''on'' [CHR 0x0A, CHR 0x01]) = POk text \<and>
     cJSON_Parse text = Some (cJSON_AddStringToObject (cJSON_AddNumberToObject cJSON_CreateObject ''interval'' 5) ''on'' [CHR 0x0A, CHR 0x01])"
proof -
  let ?v = "cJSON_AddStringToObject (cJSON_AddNumberToObject cJSON_CreateObject ''interval'' 5) ''on'' [CHR 0x0A, CHR 0x01]"
  have v: "?v = CJSON cJSON_Object None 0 (Fin 0) None
      [CJSON cJSON_Number None 5 (Fin 5) (Some ''interval'') [],
       CJSON cJSON_String (Some [CHR 0x0A, CHR 0x01]) 0 (Fin 0) (Some ''on'') []]"
    using double_of_int_exact [of 5] saturate_int_of_int [of 5]
    by (simp add: cJSON_AddStringToObject_def cJSON_AddNumberToObject_def add_item_to_object_def add_item_to_array_def
        cJSON_CreateObject_def cJSON_CreateNumber_def cJSON_CreateString_def cJSON_New_Item_def INT_MIN_def INT_MAX_def)
  have "trunc 5 = 5" using trunc_of_int [of 5] by simp
  then show ?thesis
    unfolding v
    by (intro json_print_parse)
      (simp_all add: INT_MIN_def INT_MAX_def clean_text_def CJSON_NESTING_LIMIT_def PRINT_LIMIT_def
        show_int_def show_nat.simps quote_opt_def length_quote)
qed

text \<open>
  C36: parsing terminates within the nesting limit and the length of the text: more fuel for
  the recursion, and more for the element loops, never changes the result.
\<close>

theorem parse_fuel_enough:
  "parse_value (Suc CJSON_NESTING_LIMIT + k) 0 s = parse_value (Suc CJSON_NESTING_LIMIT) 0 s \<and>
   array_loop (parse_value n depth) (Suc (length r) + k) r = array_loop (parse_value n depth) (Suc (length r)) r \<and>
   object_loop (parse_value n depth) (Suc (length r) + k) r = object_loop (parse_value n depth) (Suc (length r)) r"
proof (intro conjI)
  show "parse_value (Suc CJSON_NESTING_LIMIT + k) 0 s = parse_value (Suc CJSON_NESTING_LIMIT) 0 s"
    using parse_fuel [of "Suc CJSON_NESTING_LIMIT + k" 0 "Suc CJSON_NESTING_LIMIT"] by simp
  show "array_loop (parse_value n depth) (Suc (length r) + k) r = array_loop (parse_value n depth) (Suc (length r)) r"
    by (rule array_loop_fuel [OF parse_value_consumes]) simp_all
  show "object_loop (parse_value n depth) (Suc (length r) + k) r = object_loop (parse_value n depth) (Suc (length r)) r"
    by (rule object_loop_fuel [OF parse_value_consumes]) simp_all
qed

text \<open>
  A number strictly between -1 and 0 is printed without its sign: the text starts with
  \<open>0.\<close>, so that -0.5 becomes 0.5.
\<close>

theorem print_number_loses_sign:
  assumes "- 1 < x" "x < 0"
  shows "\<exists>f. number_text (Fin x) = POk (''0.'' @ f)"
proof -
  have "trunc x = 0" using assms by (simp add: trunc_def ceiling_unique)
  define ds where "ds = fraction_digits 14 (dadd (dsub (Fin 0) (Fin x)) (rnd (1 / 100000000000000)))"
  have len: "length (fraction_digits n d) \<le> n" for n d
    by (induction n arbitrary: d) (simp_all add: Let_def)
  have strip: "\<exists>f. strip_zeros (''0.'' @ ds) = ''0.'' @ f \<and> length f \<le> length ds"
  proof -
    have "strip_zeros (''0.'' @ ds) = ''0.'' @ rev (dropWhile (\<lambda>c. c = CHR ''0'') (rev ds))"
      by (simp add: strip_zeros_def dropWhile_append)
    then show ?thesis using length_dropWhile [of _ "rev ds"] by fastforce
  qed
  then obtain f where "strip_zeros (''0.'' @ ds) = ''0.'' @ f" "length f \<le> length ds" by blast
  moreover have "show_int 0 = ''0''" by (simp add: show_int_def show_nat.simps char_of_eq_iff)
  ultimately show ?thesis
    using assms \<open>trunc x = 0\<close> len [of 14 "dadd (dsub (Fin 0) (Fin x)) (rnd (1 / 100000000000000))"]
    by (simp add: number_text_def Let_def INT_MIN_def INT_MAX_def ds_def [symmetric])
qed

theorem print_number_loses_sign_witness:
  "- 1 < (- 1 / 2 :: rat) \<and> (\<exists>f. number_text (Fin (- 1 / 2)) = POk (''0.'' @ f))"
  using print_number_loses_sign [of "- 1 / 2"] by simp

end
