(* ===== verification/Csro_Invariant.thy ===== *)
theory Csro_Invariant
  imports Csro_Mqtt Json_Theorems
begin

text \<open>
  An invariant of the application's global state that start-up establishes from any flash
  content and every event keeps: the alarm table is a prefix of valid slots, the clock is
  consistent, the switches are numbered and on or off, the publishing interval is in range
  and equal to the stored one, and the strings fit their arrays.
\<close>

section \<open>The invariant\<close>

definition switches_ok :: "csro_switch list \<Rightarrow> bool" where
  "switches_ok chs \<longleftrightarrow>
     length chs = NLIGHT \<and>
     (\<forall>i < NLIGHT. sw_index (chs ! i) = of_nat i \<and> (sw_state (chs ! i) = 0 \<or> sw_state (chs ! i) = 1))"

definition stored_interval :: "nvs \<Rightarrow> nvs_value option" where
  "stored_interval n = nvs_get (Some \<lparr>h_ns = ''system'', h_read_only = False\<rparr>) ''interval'' n"

definition interval_ok :: "app \<Rightarrow> bool" where
  "interval_ok s \<longleftrightarrow>
     2 \<le> interval s \<and> interval s \<le> 120 \<and> stored_interval (flash s) = Some (NvsU16 (interval s)) \<and>
     (status_timer s = None \<or> status_timer s = Some (100 * unat (interval s)))"

definition buffers_ok :: "app \<Rightarrow> bool" where
  "buffers_ok s \<longleftrightarrow>
     length (broker s) < 50 \<and> length (prefix s) < 50 \<and> length (content s) < 1000 \<and> length (pub_topic s) < 100"

definition app_ok :: "app \<Rightarrow> bool" where
  "app_ok s \<longleftrightarrow> alarms_ok (alarms s) \<and> clock_ok s \<and> switches_ok (channel s) \<and> interval_ok s \<and> buffers_ok s"

lemmas app_ok_defs = app_ok_def clock_ok_def interval_ok_def buffers_ok_def

text \<open>The alarm commands change the alarm table and its namespace of the flash only.\<close>

lemma nvs_set_other: "ns \<noteq> h_ns e \<Longrightarrow> nvs_set (Some e) k v n ns = n ns"
  by (simp add: nvs_set_def split: option.split)

lemma save_loop_other:
  "ns \<noteq> h_ns e \<Longrightarrow> save_loop (Some e) i al c n = (c', n') \<Longrightarrow> n' ns = n ns"
  by (induction al arbitrary: i c n) (auto simp: nvs_set_other split: if_splits)

lemma save_alarm_to_nvs_frame:
  "\<exists>f. save_alarm_to_nvs s = s\<lparr>flash := f\<rparr> \<and> (\<forall>ns. ns \<noteq> ''alarms'' \<longrightarrow> f ns = flash s ns)"
proof -
  obtain n h where o: "nvs_open ''alarms'' NVS_READWRITE (flash s) = (n, h)" by fastforce
  then have n: "h = Some \<lparr>h_ns = ''alarms'', h_read_only = False\<rparr>" "ns \<noteq> ''alarms'' \<Longrightarrow> n ns = flash s ns" for ns
    by (auto simp: nvs_open_rw split: option.splits)
  obtain c n' where l: "save_loop h 0 (alarms s) 0 n = (c, n')" by fastforce
  have "ns \<noteq> ''alarms'' \<Longrightarrow> n' ns = flash s ns" for ns
    using save_loop_other [of ns "\<lparr>h_ns = ''alarms'', h_read_only = False\<rparr>" 0 "alarms s" 0 n c n'] l n by auto
  then have "\<forall>ns. ns \<noteq> ''alarms'' \<longrightarrow> nvs_set h ''alarm_count'' (NvsU8 c) n' ns = flash s ns"
    using n(1) by (simp add: nvs_set_other)
  then show ?thesis using o l by (auto simp: save_alarm_to_nvs_def)
qed

definition alarm_change :: "'a alarm_state_scheme \<Rightarrow> 'a alarm_state_scheme \<Rightarrow> bool" where
  "alarm_change s t \<longleftrightarrow>
     (\<exists>f al. t = s\<lparr>alarms := al, flash := f\<rparr> \<and> (\<forall>ns. ns \<noteq> ''alarms'' \<longrightarrow> f ns = flash s ns))"

lemma alarm_change_refl: "alarm_change s s"
  unfolding alarm_change_def by (intro exI [of _ "flash s"] exI [of _ "alarms s"]) simp

lemma alarm_change_save: "alarm_change s (save_alarm_to_nvs (s\<lparr>alarms := al\<rparr>))"
proof -
  obtain f where f: "save_alarm_to_nvs (s\<lparr>alarms := al\<rparr>) = s\<lparr>alarms := al, flash := f\<rparr>"
    "\<forall>ns. ns \<noteq> ''alarms'' \<longrightarrow> f ns = flash s ns"
    using save_alarm_to_nvs_frame [of "s\<lparr>alarms := al\<rparr>"] by auto
  show ?thesis
    unfolding alarm_change_def f(1) by (rule exI [of _ f], rule exI [of _ al]) (simp add: f(2))
qed

lemma alarm_change_exec: "alarm_change s (exec_cmd c s)"
  by (cases c) (simp_all add: csro_alarm_add_def csro_alarm_modify_def csro_alarm_delete_def csro_alarm_clear_def
      alarm_change_refl alarm_change_save split: option.split)

lemma stored_interval_frame: "f ''system'' = n ''system'' \<Longrightarrow> stored_interval f = stored_interval n"
  by (simp add: stored_interval_def nvs_get_def)

lemma app_ok_exec:
  assumes "app_ok s"
  shows "app_ok (exec_cmd c s)"
proof -
  obtain f al where e: "exec_cmd c s = s\<lparr>alarms := al, flash := f\<rparr>" "f ''system'' = flash s ''system''"
    using alarm_change_exec [of s c] by (auto simp: alarm_change_def)
  have "table_is (alarms s) (entries (alarms s))" using assms by (simp add: app_ok_def table_is_def)
  then have "alarms_ok (alarms (exec_cmd c s))" using exec_cmd_table [of s _ c] by (auto simp: table_is_def)
  then have "alarms_ok al" by (simp add: e)
  then show ?thesis
    using assms stored_interval_frame [of f "flash s", OF e(2)] by (simp add: e(1) app_ok_defs)
qed

lemma app_ok_interval: "app_ok s \<Longrightarrow> app_ok (csro_system_set_interval i s)"
proof -
  assume s: "app_ok s"
  let ?h = "Some \<lparr>h_ns = ''system'', h_read_only = False\<rparr>"
  let ?n = "fst (nvs_open ''system'' NVS_READWRITE (flash s))"
  have "stored_interval (nvs_set ?h ''interval'' (NvsU16 i) ?n) = Some (NvsU16 i)"
    using rw.get_put [of ?n "''system''" "''interval''" "''interval''"] nvs_open_rw_ready [of "''system''" "flash s"]
    by (simp add: stored_interval_def)
  then show ?thesis
    using s by (auto simp: csro_system_set_interval_def app_ok_defs csro_mqtt_change_status_msg_timer_def
        nvs_open_rw portTICK_RATE_MS_def)
qed

lemma switches_ok_set:
  assumes "switches_ok (channel s)" "i < NLIGHT"
  shows "switches_ok (channel (nlight_channel_set i v source s))"
proof (cases "v > 2")
  case True
  then show ?thesis using assms by (simp add: nlight_channel_set_def Let_def)
next
  case False
  then have "v = 0 \<or> v = 1 \<or> v = 2"
    by (simp add: word_less_nat_alt word_unat_eq_iff) linarith
  then show ?thesis
    using assms by (auto simp: nlight_channel_set_def switches_ok_def Let_def nth_list_update
        csro_mqtt_msg_trigger_status_def)
qed

lemma app_ok_channel: "app_ok s \<Longrightarrow> i < NLIGHT \<Longrightarrow> app_ok (nlight_channel_set i v source s)"
  using switches_ok_set [of s i v source]
  by (auto simp: app_ok_defs nlight_channel_set_def Let_def csro_mqtt_msg_trigger_status_def)

lemma app_ok_triggers [simp]:
  "app_ok (csro_mqtt_msg_trigger_status s) = app_ok s" "app_ok (csro_mqtt_msg_trigger_system s) = app_ok s"
  "app_ok (csro_mqtt_msg_trigger_alarm s) = app_ok s" "app_ok (csro_system_set_status st s) = app_ok s"
  by (simp_all add: app_ok_defs csro_mqtt_msg_trigger_status_def csro_mqtt_msg_trigger_system_def
      csro_mqtt_msg_trigger_alarm_def csro_system_set_status_def)

text \<open>The handlers.\<close>

lemma NLIGHT_indices [simp]: "0 < NLIGHT" "Suc 0 < NLIGHT" "2 < NLIGHT" "Suc 0 \<le> NLIGHT" "2 \<le> NLIGHT" "3 \<le> NLIGHT"
  by (simp_all add: NLIGHT_def)

lemma app_ok_nlight_self: "app_ok s \<Longrightarrow> app_ok (csro_nlight_handle_self_message data s)"
proof -
  assume "app_ok s"
  have step: "app_ok (snd r) \<Longrightarrow> i < NLIGHT \<Longrightarrow> app_ok (snd (self_channel msg key i r))" for r msg key i
    by (auto simp: self_channel_def app_ok_channel split: option.split)
  let ?r = "self_channel (c_string (payload_mem data)) ''channel3'' 2
      (self_channel (c_string (payload_mem data)) ''channel2'' 1
        (self_channel (c_string (payload_mem data)) ''channel1'' 0 (False, s)))"
  have "app_ok (snd ?r)" using \<open>app_ok s\<close> by (intro step) simp_all
  then show ?thesis by (simp add: csro_nlight_handle_self_message_def Let_def case_prod_beta)
qed

lemma holds_nlight_hass: "app_ok s \<Longrightarrow> holds app_ok (csro_nlight_handle_hass_message p t data s)"
proof -
  assume s: "app_ok s"
  have "app_ok (snd (hass_switch pl i s))" if "i < NLIGHT" for pl i
    using s that by (simp add: hass_switch_def app_ok_channel)
  then show ?thesis
    using s by (auto simp: csro_nlight_handle_hass_message_def Let_def split: option.split outcome.split prod.split)
      (metis NLIGHT_indices snd_conv One_nat_def)+
qed

lemma app_ok_alarm_handlers:
  assumes "app_ok s"
  shows "app_ok (snd (handle_alarm_add msg s))" "app_ok (snd (handle_alarm_modify msg s))"
    "app_ok (snd (handle_alarm_delete msg s))" "app_ok (snd (handle_alarm_clear msg s))"
  using app_ok_exec [OF assms, of "Add _ _ _"] app_ok_exec [OF assms, of "Modify _ _ _ _"]
    app_ok_exec [OF assms, of "Delete _"] app_ok_exec [OF assms, of Clear] assms
  by (simp_all add: handle_alarm_add_def handle_alarm_modify_def handle_alarm_delete_def handle_alarm_clear_def
      split: option.split)

lemma app_ok_on_number: "app_ok s \<Longrightarrow> (\<And>v. app_ok (f v s)) \<Longrightarrow> app_ok (on_number msg key f s)"
  by (simp add: on_number_def split: option.split)

text \<open>The handler of the device's own topic, with the local variables named.\<close>

definition self_settings :: "string \<Rightarrow> app \<Rightarrow> app" where
  "self_settings msg s =
     on_number msg ''alarminfo'' (\<lambda>v s. if v = 1 then csro_mqtt_msg_trigger_alarm s else s)
       (on_number msg ''sysinfo'' (\<lambda>v s. if v = 1 then csro_mqtt_msg_trigger_system s else s)
         (on_number msg ''interval'' (\<lambda>v. csro_system_set_interval (ucast v)) s))"

definition self_alarms :: "string \<Rightarrow> app \<Rightarrow> app" where
  "self_alarms msg s =
     (let r1 = handle_alarm_add msg s; r2 = handle_alarm_modify msg (snd r1);
          r3 = handle_alarm_delete msg (snd r2); r4 = handle_alarm_clear msg (snd r3)
      in if fst r1 \<or> fst r2 \<or> fst r3 \<or> fst r4 then csro_mqtt_msg_trigger_alarm (snd r4) else snd r4)"

lemma self_message_eq:
  "csro_device_handle_self_message data s =
     (let msg = c_string (payload_mem data); s' = self_settings msg s
      in if csro_system_parse_level1_json_number msg ''restart'' = Some 1 then Restarted s'
         else Done (csro_nlight_handle_self_message data (self_alarms msg s')))"
  by (simp add: csro_device_handle_self_message_def self_settings_def self_alarms_def Let_def split: prod.split)

lemma app_ok_self_settings: "app_ok s \<Longrightarrow> app_ok (self_settings msg s)"
  unfolding self_settings_def by (intro app_ok_on_number) (simp_all add: app_ok_interval app_ok_on_number)

lemma app_ok_self_alarms: "app_ok s \<Longrightarrow> app_ok (self_alarms msg s)"
  by (simp add: self_alarms_def Let_def app_ok_alarm_handlers)

lemma holds_deliver: "app_ok s \<Longrightarrow> holds app_ok (deliver_message m s)"
proof (cases m)
  case (SelfMessage d)
  assume "app_ok s"
  then show ?thesis
    using SelfMessage
    by (simp add: self_message_eq Let_def app_ok_self_settings app_ok_self_alarms app_ok_nlight_self)
next
  case (HassMessage p t d)
  assume "app_ok s"
  then show ?thesis using HassMessage by (simp add: csro_device_handle_hass_message_def holds_nlight_hass)
next
  case (GroupMessage d)
  assume "app_ok s"
  then show ?thesis
    using GroupMessage by (simp add: csro_device_handle_group_message_def app_ok_on_number)
qed

lemma holds_deliver_all: "app_ok s \<Longrightarrow> holds app_ok (deliver_all ms s)"
  unfolding deliver_all_def by (rule holds_run_steps) (auto simp: holds_deliver)

text \<open>Publishing and connecting.\<close>

abbreviation app_ok2 :: "bool \<times> app \<Rightarrow> bool" where
  "app_ok2 r \<equiv> app_ok (snd r)"

lemma holds_then_call:
  "holds app_ok r \<Longrightarrow> (\<And>s. app_ok s \<Longrightarrow> holds app_ok2 (f s)) \<Longrightarrow> holds app_ok2 (then_call r f)"
  by (cases r) auto

lemma holds_drop_result: "holds app_ok2 r \<Longrightarrow> holds app_ok (drop_result r)"
  by (cases r) (auto simp: drop_result_def)

lemma holds_publish: "app_ok s \<Longrightarrow> holds app_ok2 (mqtt_pub_messgae e suffix qos retained s)"
proof -
  assume s: "app_ok s"
  show ?thesis
    unfolding mqtt_pub_messgae_def Let_def
    using s by (auto intro!: holds_then_call holds_deliver_all) (auto simp: app_ok_defs)
qed

lemma holds_subscribe:
  "app_ok s \<Longrightarrow> (\<And>s. app_ok s \<Longrightarrow> holds app_ok2 (next s)) \<Longrightarrow> holds app_ok2 (subscribe ms ok next s)"
  unfolding subscribe_def by (rule holds_then_call) (auto simp: holds_deliver_all, auto simp: app_ok_defs)

lemma holds_set_topics: "app_ok s \<Longrightarrow> holds app_ok (set_topics s)"
  unfolding set_topics_def Let_def by (rule holds_run_steps) (auto simp: strcpy_def, auto simp: app_ok_defs)

lemma holds_connect: "app_ok s \<Longrightarrow> holds app_ok2 (broker_is_connected e s)"
proof -
  assume s: "app_ok s"
  have flags: "app_ok (s\<lparr>isconnected := b\<rparr>) = app_ok s"
    "app_ok s \<Longrightarrow> app_ok (s\<lparr>serv_conn_count := k, content := ''online''\<rparr>)" for s b k
    by (simp_all add: app_ok_defs)
  show ?thesis
    unfolding broker_is_connected_def
    using s by (auto intro!: holds_then_call holds_set_topics holds_subscribe holds_publish simp: flags)
qed

lemma holds_store: "app_ok s \<Longrightarrow> holds app_ok (store_content j s)"
  by (auto simp: store_content_def strcpy_def app_ok_defs split: presult.split)

lemma holds_publish_if:
  assumes "\<And>s. app_ok s \<Longrightarrow> holds app_ok (prepare s)" "app_ok s"
  shows "holds app_ok (publish_if e b prepare suffix s)"
  using assms by (auto simp: publish_if_def intro!: holds_and_then holds_drop_result holds_publish)

lemma holds_connected_round: "app_ok s \<Longrightarrow> holds app_ok (mqtt_connected_round e s)"
proof -
  assume s: "app_ok s"
  have sem: "app_ok (s\<lparr>status_sem := b\<rparr>) = app_ok s" "app_ok (s\<lparr>system_sem := b\<rparr>) = app_ok s"
    "app_ok (s\<lparr>alarm_sem := b\<rparr>) = app_ok s" "app_ok (s\<lparr>isconnected := b\<rparr>) = app_ok s"
    "app_ok (s\<lparr>time_str := x\<rparr>) = app_ok s" for s b x
    by (simp_all add: app_ok_defs)
  have prep: "holds app_ok (csro_device_prepare_status_message s)" "holds app_ok (csro_system_prepare_message h s)"
    "holds app_ok (csro_device_prepare_timer_message s)" if "app_ok s" for s h
    using that by (simp_all add: csro_device_prepare_status_message_def csro_nlight_prepare_status_message_def
        csro_system_prepare_message_def csro_device_prepare_timer_message_def holds_store sem Let_def)
  have yield: "holds app_ok (mqtt_yield e s)" if "app_ok s" for s
    unfolding mqtt_yield_def using that by (auto intro!: holds_and_then holds_deliver_all simp: sem)
  show ?thesis
    unfolding mqtt_connected_round_def
    using s by (rule holds_run_steps) (auto intro!: holds_publish_if prep yield simp: sem)
qed

lemma holds_no_wifi: "app_ok s \<Longrightarrow> holds app_ok (no_wifi_round s)"
proof -
  assume s: "app_ok s"
  let ?h = "Some \<lparr>h_ns = ''system'', h_read_only = False\<rparr>"
  have "flash s ''system'' \<noteq> None"
    using s by (auto simp: app_ok_defs stored_interval_def nvs_get_def split: option.splits)
  then have "stored_interval (nvs_set ?h ''sc_flag'' (NvsU8 0) (flash s)) = stored_interval (flash s)"
    "nvs_open ''system'' NVS_READWRITE (flash s) = (flash s, ?h)"
    using rw.get_put [of "flash s" "''system''"] by (auto simp: stored_interval_def nvs_open_rw)
  then show ?thesis using s by (simp add: no_wifi_round_def Let_def app_ok_defs)
qed

lemma app_ok_wifi_status: "app_ok s \<Longrightarrow> app_ok (snd (csro_system_get_wifi_status addr s))"
  by (auto simp: csro_system_get_wifi_status_def Let_def csro_system_set_status_def app_ok_defs)

lemma holds_round: "app_ok s \<Longrightarrow> holds app_ok (csro_mqtt_task_round e s)"
proof -
  assume "app_ok s"
  obtain w s1 where w: "csro_system_get_wifi_status (e_addr e) s = (w, s1)" by fastforce
  then have s1: "app_ok s1" using app_ok_wifi_status [OF \<open>app_ok s\<close>, of "e_addr e"] by simp
  show ?thesis
  proof (cases w)
    case True
    then show ?thesis
      using holds_connect [OF s1, of e] holds_connected_round
      by (auto simp: csro_mqtt_task_round_def w split: outcome.split prod.split bool.split)
  next
    case False
    then show ?thesis using holds_no_wifi [OF s1] by (simp add: csro_mqtt_task_round_def w)
  qed
qed

lemma app_ok_clock_change:
  assumes "app_ok s" "clock_ok t" "alarms t = alarms s" "flash t = flash s" "channel t = channel s"
    "interval t = interval s" "status_timer t = status_timer s" "broker t = broker s" "prefix t = prefix s"
    "content t = content s" "pub_topic t = pub_topic s"
  shows "app_ok t"
  using assms by (simp add: app_ok_def interval_ok_def buffers_ok_def)

lemma app_ok_set_time:
  assumes "app_ok s"
  shows "app_ok (csro_datetime_set stack str s)"
proof (rule app_ok_clock_change [OF assms])
  show "clock_ok (csro_datetime_set stack str s)" using assms by (intro clock_ok_set) (simp add: app_ok_def)
qed (simp_all add: csro_datetime_set_def Let_def split: prod.split)

lemma app_ok_tick:
  assumes "app_ok s"
  shows "app_ok (second_timer_callback s)"
proof (rule app_ok_clock_change [OF assms])
  show "clock_ok (second_timer_callback s)" using assms by (intro clock_ok_tick) (simp add: app_ok_def)
qed (simp_all add: second_timer_callback_def datetime_check_alarm_def Let_def)

lemma holds_udp: "app_ok s \<Longrightarrow> holds app_ok (udp_receive stack datagram s)"
proof -
  assume s: "app_ok s"
  have upd: "app_ok (s\<lparr>isconnected := b\<rparr>) = app_ok s"
    "app_ok s \<Longrightarrow> length x < 50 \<Longrightarrow> app_ok (s\<lparr>broker := x\<rparr>)"
    "app_ok s \<Longrightarrow> length x < 50 \<Longrightarrow> app_ok (s\<lparr>prefix := x\<rparr>)" for s b x
    by (simp_all add: app_ok_defs)
  have "holds app_ok (run_steps
      [strcpy ''mqtt.broker'' 50 x (broker_update (\<lambda>_. x)), strcpy ''mqtt.prefix'' 50 y (prefix_update (\<lambda>_. y)),
       \<lambda>s. Done (s\<lparr>isconnected := False\<rparr>)] s)" for x y
    using s by (rule holds_run_steps) (auto simp: strcpy_def upd)
  then show ?thesis
    using s unfolding udp_receive_def process_udp_message_def
    by (auto intro!: holds_and_then [of app_ok] simp: app_ok_set_time simp del: run_steps.simps split: option.split)
qed

section \<open>Events\<close>

datatype app_event =
    MqttRound env
  | Datagram "u32 list" string
  | OneSecond
  | StatusTimer
  | WifiEvent system_event
  | KeyTimer "u8 \<Rightarrow> u8 option" "nat \<Rightarrow> bool"

fun app_step :: "app_event \<Rightarrow> app \<Rightarrow> app outcome" where
  "app_step (MqttRound e) s = csro_mqtt_task_round e s"
| "app_step (Datagram stack d) s = udp_receive stack d s"
| "app_step OneSecond s = Done (second_timer_callback s)"
| "app_step StatusTimer s = Done (csro_mqtt_msg_trigger_status s)"
| "app_step (WifiEvent ev) s = Done (wifi_event_handler ev s)"
| "app_step (KeyTimer chip gpio) s = Done (s\<lparr>hardware := snd (key_timer_callback chip gpio (hardware s))\<rparr>)"

lemma holds_app_step: "app_ok s \<Longrightarrow> holds app_ok (app_step ev s)"
proof (cases ev)
  case (WifiEvent x)
  assume "app_ok s"
  then show ?thesis using WifiEvent by (cases x) (simp_all add: wifi_event_handler_def app_ok_defs)
next
  case (KeyTimer chip gpio)
  assume "app_ok s"
  then show ?thesis using KeyTimer by (simp add: app_ok_defs)
qed (simp_all add: holds_round holds_udp app_ok_tick)

text \<open>Memory at power-on: the globals are zero, the flash holds whatever it held.\<close>

definition power_on :: "nvs \<Rightarrow> app" where
  "power_on n =
     \<lparr>flash = n, alarms = replicate ALARM_NUMBER \<lparr>valid = False, weekday = 0, minutes = 0, action = 0\<rparr>,
      time_on = 0, time_now = 0, time_run = 0,
      time_info = \<lparr>tm_sec = 0, tm_min = 0, tm_hour = 0, tm_mday = 0, tm_mon = 0, tm_year = 0, tm_wday = 0, tm_yday = 0\<rparr>,
      time_str = [], time_sync = False, second_timer = False, alarm_log = [],
      status = IDLE, router_ssid = [], router_pass = [], sc_flag = 0, mac = [], ip = [], host_name = [],
      dev_type = [], mac_str = [], ip_str = [], power_on_count = 0, wifi_conn_count = 0, serv_conn_count = 0,
      is_connect = False, wifi_retry = 0, mqtt_id = [], mqtt_name = [], mqtt_pass = [], sub_topic_self = [],
      sub_topic_hass = [], sub_topic_group = [], pub_topic = [], content = [], broker = [], prefix = [],
      interval = 0, isconnected = False, status_sem = False, system_sem = False, alarm_sem = False,
      status_timer = None, published = [],
      channel = replicate NLIGHT \<lparr>sw_index = 0, sw_state = 0, on_source = 0, on_tim = 0, off_source = 0, off_tim = 0\<rparr>,
      tasks = [], connected_bit = False, esptouch_done_bit = False, wifi_hostname = [], wifi_connects = 0,
      key_timer = False, led_timer = False, hardware = \<lparr>i2c_log = [], blink_count = 0, i2c_ready = False, gpio_inputs = 0\<rparr>\<rparr>"

text \<open>The namespace after the boot counter was stored, and the interval read from it.\<close>

lemma get_info_eq:
  fixes wmac :: "u8 list" and ctx :: SHA1_CTX and s :: app
  defines "h \<equiv> Some \<lparr>h_ns = ''system'', h_read_only = False\<rparr>"
  defines "n \<equiv> fst (nvs_open ''system'' NVS_READWRITE (flash s))"
  defines "n1 \<equiv> nvs_set h ''power_count'' (NvsU32 (nvs_get_u32 h ''power_count'' n (power_on_count s) + 1)) n"
  defines "v \<equiv> nvs_get_u16 h ''interval'' n1 (interval s)"
  shows "interval (csro_system_get_info wmac ctx s) = (if v < 2 \<or> v > 120 then 5 else v)"
    and "flash (csro_system_get_info wmac ctx s) = (if v < 2 \<or> v > 120 then nvs_set h ''interval'' (NvsU16 5) n1 else n1)"
    and "n1 ''system'' \<noteq> None"
proof -
  have o: "nvs_open ''system'' NVS_READWRITE (flash s) = (n, h)" by (simp add: n_def h_def nvs_open_rw)
  show "interval (csro_system_get_info wmac ctx s) = (if v < 2 \<or> v > 120 then 5 else v)"
    "flash (csro_system_get_info wmac ctx s) = (if v < 2 \<or> v > 120 then nvs_set h ''interval'' (NvsU16 5) n1 else n1)"
    by (simp_all add: csro_system_get_info_def Let_def o v_def n1_def MIN_INTERVAL_def MAX_INTERVAL_def
        system_print_device_type_def)
  show "n1 ''system'' \<noteq> None"
    using nvs_open_rw_ready [of "''system''" "flash s"] rw.ready_put [of n "''system''"]
    by (simp add: n1_def h_def n_def)
qed

lemma get_info_interval:
  fixes s :: app
  assumes "interval s < 2"
  shows "2 \<le> interval (csro_system_get_info wmac ctx s) \<and> interval (csro_system_get_info wmac ctx s) \<le> 120 \<and>
    stored_interval (flash (csro_system_get_info wmac ctx s)) = Some (NvsU16 (interval (csro_system_get_info wmac ctx s)))"
proof -
  let ?h = "Some \<lparr>h_ns = ''system'', h_read_only = False\<rparr>"
  let ?n = "fst (nvs_open ''system'' NVS_READWRITE (flash s))"
  define n1 where "n1 = nvs_set ?h ''power_count'' (NvsU32 (nvs_get_u32 ?h ''power_count'' ?n (power_on_count s) + 1)) ?n"
  define v where "v = nvs_get_u16 ?h ''interval'' n1 (interval s)"
  note eq = get_info_eq(1,2) [of wmac ctx s, folded n1_def, folded v_def] get_info_eq(3) [of s, folded n1_def]
  show ?thesis
  proof (cases "v < 2 \<or> v > 120")
    case True
    then show ?thesis
      using eq rw.get_put [of n1 "''system''" "''interval''" "''interval''" "NvsU16 5"]
      by (simp add: stored_interval_def)
  next
    case False
    then have "nvs_get ?h ''interval'' n1 = Some (NvsU16 v)"
      using assms by (auto simp: v_def nvs_get_u16_def split: option.splits nvs_value.splits)
    then show ?thesis using eq False by (auto simp: stored_interval_def)
  qed
qed

lemma get_info_frame:
  fixes s :: app
  shows "alarms (csro_system_get_info wmac ctx s) = alarms s" "time_sync (csro_system_get_info wmac ctx s) = time_sync s"
    "channel (csro_system_get_info wmac ctx s) = channel s" "status_timer (csro_system_get_info wmac ctx s) = status_timer s"
    "broker (csro_system_get_info wmac ctx s) = broker s" "prefix (csro_system_get_info wmac ctx s) = prefix s"
    "content (csro_system_get_info wmac ctx s) = content s" "pub_topic (csro_system_get_info wmac ctx s) = pub_topic s"
  by (simp_all add: csro_system_get_info_def Let_def system_print_device_type_def split: prod.split)

lemma nlight_init_channel:
  "channel (csro_nlight_init s) = nlight_index_loop 0 NLIGHT (channel s)"
  "length (channel s) = NLIGHT \<Longrightarrow> (\<forall>i < NLIGHT. sw_state (channel s ! i) = 0) \<Longrightarrow> switches_ok (channel (csro_nlight_init s))"
proof -
  have three: "NLIGHT = Suc (Suc (Suc 0))" by (simp add: NLIGHT_def)
  show "channel (csro_nlight_init s) = nlight_index_loop 0 NLIGHT (channel s)" by (simp add: csro_nlight_init_def)
  assume "length (channel s) = NLIGHT" "\<forall>i < NLIGHT. sw_state (channel s ! i) = 0"
  then show "switches_ok (channel (csro_nlight_init s))"
    by (auto simp: csro_nlight_init_def switches_ok_def three nth_list_update less_Suc_eq)
qed

lemma init_frame:
  "alarms (csro_nlight_init s) = alarms s" "flash (csro_nlight_init s) = flash s" "time_sync (csro_nlight_init s) = time_sync s"
  "interval (csro_nlight_init s) = interval s" "status_timer (csro_nlight_init s) = status_timer s"
  "broker (csro_nlight_init s) = broker s" "prefix (csro_nlight_init s) = prefix s" "content (csro_nlight_init s) = content s"
  "pub_topic (csro_nlight_init s) = pub_topic s"
  by (simp_all add: csro_nlight_init_def)

lemma datetime_init_alarms_ok: "alarms_ok (alarms (csro_datetime_init b (power_on n)))"
proof (cases b)
  case True
  then show ?thesis
    by (simp add: csro_datetime_init_def) (rule load_alarm_from_nvs_entries(2), simp add: power_on_def)
next
  case False
  have "alarms_ok ([] @ replicate ALARM_NUMBER \<lparr>valid = False, weekday = 0, minutes = 0, action = 0\<rparr>)"
    by (rule alarms_okI) simp_all
  then show ?thesis using False by (simp add: csro_datetime_init_def power_on_def)
qed

lemma datetime_init_frame:
  "time_sync (csro_datetime_init b s) = time_sync s" "channel (csro_datetime_init b s) = channel s"
  "status_timer (csro_datetime_init b s) = status_timer s" "broker (csro_datetime_init b s) = broker s"
  "prefix (csro_datetime_init b s) = prefix s" "content (csro_datetime_init b s) = content s"
  "pub_topic (csro_datetime_init b s) = pub_topic s" "interval (csro_datetime_init b s) = interval s"
  by (simp_all add: csro_datetime_init_def load_alarm_from_nvs_def Let_def split: prod.split)

lemma wifi_info_ok: "app_ok s \<Longrightarrow> holds app_ok2 (csro_system_get_wifi_info s)"
  by (auto simp: csro_system_get_wifi_info_def nvs_open_def app_ok_defs Let_def split: option.split)

definition booted :: "bool \<Rightarrow> u8 list \<Rightarrow> SHA1_CTX \<Rightarrow> nvs \<Rightarrow> app" where
  "booted b wmac ctx n = csro_device_init (csro_system_get_info wmac ctx (csro_datetime_init b (power_on n)))"

lemma app_ok_booted: "app_ok (booted b wmac ctx n)"
proof -
  let ?s = "booted b wmac ctx n"
  have "switches_ok (channel ?s)"
    unfolding booted_def csro_device_init_def
    by (rule nlight_init_channel(2)) (simp_all add: get_info_frame datetime_init_frame power_on_def)
  moreover have "interval (csro_datetime_init b (power_on n)) < 2"
    by (simp add: datetime_init_frame power_on_def)
  ultimately show "app_ok ?s"
    using get_info_interval [of "csro_datetime_init b (power_on n)" wmac ctx] datetime_init_alarms_ok [of b n]
    by (simp add: booted_def app_ok_defs csro_device_init_def init_frame get_info_frame datetime_init_frame)
      (simp add: power_on_def)
qed

lemma holds_csro_init: "holds app_ok (csro_init b wmac ctx (power_on n))"
proof -
  have "holds app_ok2 (csro_system_get_wifi_info (booted b wmac ctx n))" by (rule wifi_info_ok [OF app_ok_booted])
  moreover have "app_ok (s\<lparr>tasks := ts\<rparr>) = app_ok s" for s ts by (simp add: app_ok_defs)
  ultimately show ?thesis
    by (auto simp: csro_init_def booted_def Let_def split: outcome.split prod.split bool.split)
qed

section \<open>Properties\<close>

lemma app_ok_task_start: "app_ok s \<Longrightarrow> app_ok (csro_mqtt_task_start s)"
  by (simp add: csro_mqtt_task_start_def app_ok_defs portTICK_RATE_MS_def)


end
