(* ===== verification/Csro_Reports.thy ===== *)
theory Csro_Reports
  imports Csro_Invariant
begin

text \<open>
  The reports the device publishes: the switch states, the alarm table and the system data
  are printed into the 1000 characters of \<open>mqtt.content\<close>. Objects built by the cJSON
  constructors have the closed forms \<open>obj\<close>, \<open>num\<close> and \<open>str\<close>, whose printed length is computed
  exactly, so that a report fits or does not.
\<close>

section \<open>Objects in closed form\<close>

definition obj :: "string option \<Rightarrow> cJSON list \<Rightarrow> cJSON" where
  "obj nm ch = CJSON cJSON_Object None 0 (Fin 0) nm ch"

definition num :: "string \<Rightarrow> int \<Rightarrow> cJSON" where
  "num k n = CJSON cJSON_Number None n (Fin (of_int n)) (Some k) []"

definition str :: "string \<Rightarrow> string \<Rightarrow> cJSON" where
  "str k s = CJSON cJSON_String (Some s) 0 (Fin 0) (Some k) []"

definition int_ok :: "int \<Rightarrow> bool" where
  "int_ok n \<longleftrightarrow> INT_MIN \<le> n \<and> n \<le> INT_MAX"

named_theorems closed \<open>closed forms of built objects\<close>

lemma create_obj [closed]: "cJSON_CreateObject = obj None []"
  by (simp add: cJSON_CreateObject_def cJSON_New_Item_def obj_def)

lemma add_num [closed]: "int_ok n \<Longrightarrow> cJSON_AddNumberToObject (obj nm ch) k n = obj nm (ch @ [num k n])"
  by (simp add: cJSON_AddNumberToObject_def add_item_to_object_def add_item_to_array_def cJSON_CreateNumber_def
      cJSON_New_Item_def obj_def num_def int_ok_def double_of_int_exact saturate_int_of_int)

lemma add_str [closed]: "cJSON_AddStringToObject (obj nm ch) k s = obj nm (ch @ [str k s])"
  by (simp add: cJSON_AddStringToObject_def add_item_to_object_def add_item_to_array_def cJSON_CreateString_def
      cJSON_New_Item_def obj_def str_def)

lemma add_obj [closed]: "add_item_to_object (obj nm ch) k (obj nm' ch') = obj nm (ch @ [obj (Some k) ch'])"
  by (simp add: add_item_to_object_def add_item_to_array_def obj_def)

lemma int_ok_nonneg: "0 \<le> n \<Longrightarrow> n \<le> INT_MAX \<Longrightarrow> int_ok n"
  by (simp add: int_ok_def INT_MIN_def)

lemma int_ok_words [simp]: "int_ok (uint (w :: u8))" "int_ok (uint (v :: u16))" "int_ok (sint (x :: u32))"
proof -
  show "int_ok (uint w)" "int_ok (uint v)"
    using uint_lt2p [of w] uint_lt2p [of v] by (auto intro!: int_ok_nonneg simp: INT_MAX_def)
  have "sint x < 2 ^ 31" "- (2 ^ 31) \<le> sint x" using sint_lt [of x] sint_ge [of x] by simp_all
  then show "int_ok (sint x)" by (simp add: int_ok_def INT_MIN_def INT_MAX_def)
qed

lemma int_ok_unsigned: "uint (x :: u32) < 2 ^ 31 \<Longrightarrow> int_ok (uint x)"
  by (rule int_ok_nonneg) (simp_all add: INT_MAX_def)

lemma item_select [simp]:
  "jtype (obj nm ch) = cJSON_Object" "jname (obj nm ch) = nm" "child (obj nm ch) = ch"
  "jtype (num k n) = cJSON_Number" "jname (num k n) = Some k" "valueint (num k n) = n"
  "jtype (str k s) = cJSON_String" "jname (str k s) = Some k" "valuestring (str k s) = Some s"
  by (simp_all add: obj_def num_def str_def)

lemma canonical_item [simp]:
  "canonical (obj nm ch) \<longleftrightarrow> list_all (\<lambda>c. canonical c \<and> clean_text (jname c)) ch"
  "canonical (num k n) \<longleftrightarrow> int_ok n" "canonical (str k s) \<longleftrightarrow> CHR 0x00 \<notin> set s"
  by (simp_all add: obj_def num_def str_def int_ok_def clean_text_def)

lemma height_item [simp]:
  "height (obj nm ch) = Suc (fold max (map height ch) 0)" "height (num k n) = 0" "height (str k s) = 0"
  by (simp_all add: obj_def num_def str_def)

lemma clean_Some [simp]: "clean_text (Some s) \<longleftrightarrow> CHR 0x00 \<notin> set s"
  by (simp add: clean_text_def)

text \<open>Printed lengths, without line breaks.\<close>

definition text_size :: "cJSON \<Rightarrow> nat" where
  "text_size v = length (render False 0 v)"

definition member_size :: "cJSON \<Rightarrow> nat" where
  "member_size c = length (quote_opt (jname c)) + 1 + text_size c"

lemma render_members_cong:
  "(\<And>c. c \<in> set cs \<Longrightarrow> render False d c = render False d' c) \<Longrightarrow>
   render_elements False d cs = render_elements False d' cs \<and> render_members False d cs = render_members False d' cs"
  by (induction cs) simp_all

lemma render_depth: "render False d v = render False d' v"
proof (induction v arbitrary: d d')
  case (CJSON ty vs vi vd nm ch)
  then show ?case
    using render_members_cong [of ch "Suc d" "Suc d'"] by (cases ty) simp_all
qed

lemma render_members_size:
  "length (render_members False d cs) = sum_list (map member_size cs) + (length cs - 1)"
proof (induction cs)
  case (Cons c cs)
  then show ?case
    using render_depth [of d c 0] by (cases cs) (simp_all add: member_size_def text_size_def)
qed simp

lemma text_size_obj: "text_size (obj nm ch) = 2 + sum_list (map member_size ch) + (length ch - 1)"
  using render_members_size [of 1 ch] by (simp add: text_size_def obj_def)

lemma text_size_num: "text_size (num k n) = length (show_int n)"
  by (simp add: text_size_def num_def)

lemma text_size_str: "text_size (str k s) = length s + escape_characters s + 2"
  by (simp add: text_size_def str_def quote_opt_def length_quote)

lemma member_size_key: "jname c = Some k \<Longrightarrow> member_size c = length k + escape_characters k + 3 + text_size c"
  by (simp add: member_size_def quote_opt_def length_quote)

lemmas sizes = text_size_obj text_size_num text_size_str member_size_key

text \<open>Digits of numbers.\<close>

lemma length_show_nat_pos: "0 < length (show_nat n)"
  by (simp add: show_nat.simps [of n])

lemma length_show_nat_le: "n < 10 ^ Suc k \<Longrightarrow> length (show_nat n) \<le> Suc k"
proof (induction k arbitrary: n)
  case 0
  then show ?case by (simp add: show_nat.simps [of n])
next
  case (Suc k)
  show ?case
  proof (cases "n < 10")
    case False
    have "n div 10 < 10 ^ Suc k" using Suc.prems by (simp add: less_mult_imp_div_less mult.commute)
    then show ?thesis using Suc.IH [of "n div 10"] False by (simp add: show_nat.simps [of n])
  qed (simp add: show_nat.simps [of n])
qed

lemma length_show_nat_ge: "10 ^ k \<le> n \<Longrightarrow> k < length (show_nat n)"
proof (induction k arbitrary: n)
  case 0
  then show ?case by (rule_tac length_show_nat_pos)
next
  case (Suc k)
  have "(1 :: nat) \<le> 10 ^ k" by simp
  then have big: "10 \<le> n" using Suc.prems unfolding power_Suc by linarith
  have "10 ^ k \<le> n div 10" using Suc.prems by (simp add: less_eq_div_iff_mult_less_eq mult.commute)
  then show ?case using Suc.IH [of "n div 10"] big by (simp add: show_nat.simps [of n])
qed

lemma length_show_int_u8: "length (show_int (uint (w :: u8))) \<le> 3"
  using length_show_nat_le [of "unat w" 2] unat_u8_less [of w] by (simp add: show_int_def)

lemma length_show_int_u16: "length (show_int (uint (w :: u16))) \<le> 5"
  using length_show_nat_le [of "unat w" 4] unsigned_less [where 'a = nat, of w] by (simp add: show_int_def)

lemma length_show_int_ok: "int_ok n \<Longrightarrow> length (show_int n) \<le> 11"
proof -
  assume "int_ok n"
  then have "nat n < 10 ^ Suc 9" "nat (- n) < 10 ^ Suc 9"
    by (auto simp: int_ok_def INT_MIN_def INT_MAX_def nat_less_iff)
  then show ?thesis
    using length_show_nat_le [of "nat n" 9] length_show_nat_le [of "nat (- n)" 9] by (simp add: show_int_def)
qed

section \<open>Storing a report\<close>

lemma print_stored:
  assumes "canonical v" "text_size v + 1 < PRINT_LIMIT"
  shows "store_content v s = strcpy ''mqtt.content'' 1000 (render False 0 v) (content_update (\<lambda>_. render False 0 v)) s"
  using print_canonical [OF assms(1), of False] assms(2)
  by (simp add: store_content_def cJSON_PrintUnformatted_def text_size_def)

lemma store_content_fits:
  assumes "canonical v" "jname v = None" "height v \<le> CJSON_NESTING_LIMIT" "text_size v < 1000"
  shows "store_content v s = Done (s\<lparr>content := render False 0 v\<rparr>) \<and> cJSON_Parse (render False 0 v) = Some v"
proof
  show "store_content v s = Done (s\<lparr>content := render False 0 v\<rparr>)"
    using print_stored [OF assms(1), of s] assms(4) by (simp add: strcpy_def text_size_def PRINT_LIMIT_def)
  have "cJSON_Parse (render False 0 v @ []) = Some v"
    using assms(1-3) by (intro cJSON_Parse_render) (simp_all add: ends_number_def)
  then show "cJSON_Parse (render False 0 v) = Some v" by simp
qed

lemma store_content_overflow:
  assumes "canonical v" "1000 \<le> text_size v" "text_size v + 1 < PRINT_LIMIT"
  shows "store_content v s = Overflow ''mqtt.content''"
  using print_stored [OF assms(1,3), of s] assms(2) by (simp add: strcpy_def text_size_def)

section \<open>Reading a report\<close>

definition lookup_number :: "cJSON \<Rightarrow> string \<Rightarrow> int option" where
  "lookup_number v key =
     (case cJSON_GetObjectItem v key of
        Some i \<Rightarrow> if jtype i = cJSON_Number then Some (valueint i) else None | None \<Rightarrow> None)"

definition lookup_object :: "cJSON \<Rightarrow> string \<Rightarrow> cJSON option" where
  "lookup_object v key =
     (case cJSON_GetObjectItem v key of
        Some i \<Rightarrow> if jtype i = cJSON_Object then Some i else None | None \<Rightarrow> None)"

lemma lookup_obj:
  "lookup_number (obj nm (c # cs)) k =
     (if case_insensitive_strcmp (Some k) (jname c) = 0
      then (if jtype c = cJSON_Number then Some (valueint c) else None) else lookup_number (obj nm cs) k)"
  "lookup_number (obj nm []) k = None"
  by (simp_all add: lookup_number_def cJSON_GetObjectItem_def)

lemma tolower_0 [simp]: "tolower c = 0 \<longleftrightarrow> c = CHR 0x00"
  using of_char_eq_iff [where 'a = int, of c "CHR 0x00"] by (auto simp: tolower_def Let_def)

lemma strcmp_loop_eq:
  "CHR 0x00 \<notin> set a \<Longrightarrow> CHR 0x00 \<notin> set b \<Longrightarrow> strcmp_loop a b = 0 \<longleftrightarrow> map tolower a = map tolower b"
  by (induction a b rule: strcmp_loop.induct) auto

lemma show_nat_no_NUL [simp]: "CHR 0x00 \<notin> set (show_nat n)"
proof -
  have "is_digit c \<Longrightarrow> c \<noteq> CHR 0x00" for c by (auto simp: is_digit_def)
  then show ?thesis using show_nat_digits [of n] by blast
qed

lemma tolower_digits: "(\<forall>c \<in> set a. is_digit c) \<Longrightarrow> (\<forall>c \<in> set b. is_digit c) \<Longrightarrow> map tolower a = map tolower b \<longleftrightarrow> a = b"
proof
  assume d: "\<forall>c \<in> set a. is_digit c" "\<forall>c \<in> set b. is_digit c" and eq: "map tolower a = map tolower b"
  have "tolower c = of_char c" if "is_digit c" for c
    using that of_nat_of_char [where 'a = int, of c] by (simp add: tolower_def is_digit_def Let_def)
  then have "map (of_char :: char \<Rightarrow> int) a = map of_char b"
    using d eq by (metis map_eq_conv)
  then show "a = b" by (simp add: inj_map_eq_map inj_def of_char_eq_iff)
qed simp

section \<open>The switch report\<close>

definition switch_fields :: "csro_switch \<Rightarrow> cJSON list" where
  "switch_fields ch =
     [str ''state'' (if sw_state ch = 1 then ''on'' else ''off''), num ''onsource'' (uint (on_source ch)),
      num ''ontim'' (uint (on_tim ch)), num ''offsource'' (uint (off_source ch)), num ''offtim'' (sint (off_tim ch))]"

lemma channel_json_closed: "uint (on_tim ch) < 2 ^ 31 \<Longrightarrow> channel_json ch = obj None (switch_fields ch)"
  by (simp add: channel_json_def Let_def closed int_ok_unsigned switch_fields_def)

lemma show_nat_digit [simp]: "show_nat 1 = ''1''" "show_nat (Suc 0) = ''1''" "show_nat 2 = ''2''" "show_nat (Suc (Suc 0)) = ''2''" "show_nat 3 = ''3''"
  by (simp_all add: show_nat.simps char_of_eq_iff)

lemma nlight_status_closed:
  assumes "switches_ok (channel s)" "\<forall>ch \<in> set (channel s). uint (on_tim ch) < 2 ^ 31"
  shows "nlight_status_json s =
    obj None [obj (Some ''channel1'') (switch_fields (channel s ! 0)), obj (Some ''channel2'') (switch_fields (channel s ! 1)),
              obj (Some ''channel3'') (switch_fields (channel s ! 2))]"
proof -
  have i: "i < NLIGHT \<Longrightarrow> sw_index (channel s ! i) = of_nat i \<and> uint (on_tim (channel s ! i)) < 2 ^ 31" for i
    using assms by (simp add: switches_ok_def)
  show ?thesis
    using i [of 0] i [of 1] i [of 2]
    by (simp add: nlight_status_json_def Let_def nlight_add_channel_json_def closed channel_json_closed)
qed

lemma switch_fields_ok:
  "uint (on_tim ch) < 2 ^ 31 \<Longrightarrow> list_all (\<lambda>c. canonical c \<and> clean_text (jname c)) (switch_fields ch)"
  "fold max (map height (switch_fields ch)) 0 = 0"
  "uint (on_tim ch) < 2 ^ 31 \<Longrightarrow> sum_list (map member_size (switch_fields ch)) + (length (switch_fields ch) - 1) \<le> 90"
proof -
  show "fold max (map height (switch_fields ch)) 0 = 0" by (simp add: switch_fields_def)
  assume "uint (on_tim ch) < 2 ^ 31"
  then have "int_ok (uint (on_tim ch))" by (rule int_ok_unsigned)
  then show "list_all (\<lambda>c. canonical c \<and> clean_text (jname c)) (switch_fields ch)"
    by (simp add: switch_fields_def)
  show "sum_list (map member_size (switch_fields ch)) + (length (switch_fields ch) - 1) \<le> 90"
    using length_show_int_u8 [of "on_source ch"] length_show_int_u8 [of "off_source ch"]
      length_show_int_ok [OF \<open>int_ok (uint (on_tim ch))\<close>] length_show_int_ok [of "sint (off_tim ch)"]
    by (simp add: switch_fields_def sizes)
qed

lemma lookup_switch_fields:
  "lookup_number (obj nm (switch_fields ch)) ''onsource'' = Some (uint (on_source ch))"
  "lookup_number (obj nm (switch_fields ch)) ''ontim'' = Some (uint (on_tim ch))"
  "lookup_number (obj nm (switch_fields ch)) ''offsource'' = Some (uint (off_source ch))"
  "lookup_number (obj nm (switch_fields ch)) ''offtim'' = Some (sint (off_tim ch))"
  "string_item (find_child ''state'' (switch_fields ch)) =
     Some (if sw_state ch = 1 then ''on'' else ''off'')"
  by (simp_all add: switch_fields_def lookup_obj case_insensitive_strcmp_def tolower_def
      cJSON_GetObjectItem_def string_item_def)

text \<open>What a reader of a report finds about one switch.\<close>

definition reports_switch :: "cJSON \<Rightarrow> nat \<Rightarrow> csro_switch \<Rightarrow> bool" where
  "reports_switch v i ch \<longleftrightarrow>
     (\<exists>c. cJSON_GetObjectItem v (''channel'' @ show_nat (i + 1)) = Some c \<and>
          string_item (cJSON_GetObjectItem c ''state'') = Some (if sw_state ch = 1 then ''on'' else ''off'') \<and>
          lookup_number c ''onsource'' = Some (uint (on_source ch)) \<and> lookup_number c ''ontim'' = Some (uint (on_tim ch)) \<and>
          lookup_number c ''offsource'' = Some (uint (off_source ch)) \<and> lookup_number c ''offtim'' = Some (sint (off_tim ch)))"

lemma nlight_status_read:
  assumes "switches_ok (channel s)" "\<forall>ch \<in> set (channel s). uint (on_tim ch) < 2 ^ 31" "i < NLIGHT"
  shows "reports_switch (nlight_status_json s) i (channel s ! i)"
proof -
  have "i = 0 \<or> i = 1 \<or> i = 2" using assms(3) by (auto simp: NLIGHT_def)
  then show ?thesis
    unfolding nlight_status_closed [OF assms(1,2)] reports_switch_def
    by (auto simp: cJSON_GetObjectItem_def case_insensitive_strcmp_def tolower_def
        lookup_switch_fields)
qed

lemma status_report_stored:
  assumes "switches_ok (channel s)" "\<forall>ch \<in> set (channel s). uint (on_tim ch) < 2 ^ 31"
  shows "\<exists>out v. csro_device_prepare_status_message s = Done (s\<lparr>content := out\<rparr>) \<and> length out < 1000 \<and>
    cJSON_Parse out = Some v \<and> (\<forall>i < NLIGHT. reports_switch v i (channel s ! i))"
proof -
  let ?v = "nlight_status_json s"
  have tim: "i < NLIGHT \<Longrightarrow> uint (on_tim (channel s ! i)) < 2 ^ 31" for i
    using assms by (simp add: switches_ok_def)
  note ok = switch_fields_ok(1,3) [OF tim [of 0]] switch_fields_ok(1,3) [OF tim [of 1]]
    switch_fields_ok(1,3) [OF tim [of 2]] switch_fields_ok(2)
  have "canonical ?v" "jname ?v = None" "height ?v \<le> CJSON_NESTING_LIMIT" "text_size ?v < 1000"
    using ok by (simp_all add: nlight_status_closed [OF assms] CJSON_NESTING_LIMIT_def sizes)
  then have "csro_device_prepare_status_message s = Done (s\<lparr>content := render False 0 ?v\<rparr>) \<and>
      cJSON_Parse (render False 0 ?v) = Some ?v" "length (render False 0 ?v) < 1000"
    using store_content_fits [of ?v s]
    by (simp_all add: csro_device_prepare_status_message_def csro_nlight_prepare_status_message_def text_size_def)
  then show ?thesis using nlight_status_read [OF assms] by blast
qed

text \<open>
  C28: whatever the states of the three switches, their report fits the message buffer, and a
  reader who parses it finds for every switch whether it is on, and who switched it on and
  off at what time.
\<close>

theorem status_report_read_back:
  assumes "switches_ok (channel s)" "\<forall>ch \<in> set (channel s). uint (on_tim ch) < 2 ^ 31"
  shows "\<exists>out v. csro_device_prepare_status_message s = Done (s\<lparr>content := out\<rparr>) \<and> length out < 1000 \<and>
    cJSON_Parse out = Some v \<and> (\<forall>i < NLIGHT. reports_switch v i (channel s ! i))"
  using assms by (rule status_report_stored)

theorem status_report_read_back_witness:
  "let sw = (\<lambda>i st. \<lparr>sw_index = i, sw_state = st, on_source = 1, on_tim = 77, off_source = 2, off_tim = 88\<rparr>);
       s = (power_on Map.empty)\<lparr>channel := [sw 0 1, sw 1 0, sw 2 1]\<rparr>
   in \<exists>out v. csro_device_prepare_status_message s = Done (s\<lparr>content := out\<rparr>) \<and> length out < 1000 \<and>
        cJSON_Parse out = Some v \<and> (\<forall>i < NLIGHT. reports_switch v i (channel s ! i))"
  unfolding Let_def
  by (rule status_report_read_back) (auto simp: switches_ok_def NLIGHT_def nth_Cons' less_Suc_eq numeral_3_eq_3)

section \<open>The alarm report\<close>

definition alarm_fields :: "alarm_struct \<Rightarrow> cJSON list" where
  "alarm_fields a = [num ''weekday'' (uint (weekday a)), num ''minutes'' (uint (minutes a)), num ''action'' (uint (action a))]"

fun alarm_items :: "nat \<Rightarrow> alarm_struct list \<Rightarrow> cJSON list" where
  "alarm_items k [] = []"
| "alarm_items k (a # as) = obj (Some (''alarm'' @ show_nat (Suc k))) (alarm_fields a) # alarm_items (Suc k) as"

lemma alarm_json_closed: "alarm_json a = obj None (alarm_fields a)"
  by (simp add: alarm_json_def Let_def closed alarm_fields_def)

lemma timer_loop_closed:
  "\<forall>a \<in> set es. valid a \<Longrightarrow> unat c + length es < 256 \<Longrightarrow>
   timer_json_loop (es @ fs) c (obj nm ch) =
     timer_json_loop fs (c + of_nat (length es)) (obj nm (ch @ alarm_items (unat c) es))"
proof (induction es arbitrary: c ch)
  case (Cons a es)
  have c: "unat (c + 1) = Suc (unat c)"
    using Cons.prems(2) by (simp add: unat_word_ariths)
  then show ?case
    using Cons.IH [of "c + 1" "ch @ [obj (Some (''alarm'' @ show_nat (Suc (unat c)))) (alarm_fields a)]"] Cons.prems
    by (simp add: closed alarm_json_closed algebra_simps)
qed simp

lemma escape_characters_append [simp]: "escape_characters (a @ b) = escape_characters a + escape_characters b"
  by (induction a) simp_all

lemma escape_digits [simp]: "escape_characters (show_nat n) = 0"
proof -
  have "(\<forall>c \<in> set s. is_digit c) \<Longrightarrow> escape_characters s = 0" for s
    by (induction s) (auto simp: is_digit_def)
  then show ?thesis using show_nat_digits by blast
qed

lemma alarm_items_ok:
  "list_all (\<lambda>c. canonical c \<and> clean_text (jname c)) (alarm_items k es)" "length (alarm_items k es) = length es"
  "\<forall>c \<in> set (alarm_items k es). height c = 1"
  by (induction es arbitrary: k) (simp_all add: alarm_fields_def)

lemma member_size_alarm:
  "member_size (obj (Some (''alarm'' @ show_nat k)) (alarm_fields a)) =
     41 + length (show_nat k) + length (show_int (uint (weekday a))) + length (show_int (uint (minutes a))) +
     length (show_int (uint (action a)))"
  by (simp add: sizes alarm_fields_def)

lemma alarm_items_size_le:
  "k + length es < 100 \<Longrightarrow> sum_list (map member_size (alarm_items k es)) \<le> 56 * length es"
proof (induction es arbitrary: k)
  case (Cons a es)
  have "length (show_nat (Suc k)) \<le> 2" using length_show_nat_le [of "Suc k" 1] Cons.prems by simp
  then show ?case
    using Cons.IH [of "Suc k"] Cons.prems length_show_int_u8 [of "weekday a"] length_show_int_u16 [of "minutes a"]
      length_show_int_u16 [of "action a"] by (simp add: member_size_alarm [simplified])
qed simp

lemma alarm_items_size_ge:
  "\<forall>a \<in> set es. 10 \<le> weekday a \<and> 1000 \<le> minutes a \<Longrightarrow> 49 * length es \<le> sum_list (map member_size (alarm_items k es))"
proof (induction es arbitrary: k)
  case (Cons a es)
  have "10 ^ 1 \<le> unat (weekday a)" "10 ^ 3 \<le> unat (minutes a)"
    using Cons.prems by (simp_all add: word_le_nat_alt)
  then have "1 < length (show_nat (unat (weekday a)))" "3 < length (show_nat (unat (minutes a)))"
    by (blast intro: length_show_nat_ge)+
  moreover have "0 < length (show_nat (unat (action a)))" "0 < length (show_nat (Suc k))"
    by (rule length_show_nat_pos)+
  ultimately show ?case
    using Cons.IH [of "Suc k"] Cons.prems by (simp add: member_size_alarm [simplified] show_int_def del: length_greater_0_conv)
qed simp

lemma timer_report_closed:
  assumes "\<forall>a \<in> set es. valid a" "\<forall>a \<in> set fs. \<not> valid a" "length es < 256"
  shows "timer_json_loop (es @ fs) 0 cJSON_CreateObject =
    obj None (alarm_items 0 es @ (if fs = [] then [] else [num ''count'' (int (length es))]))"
proof -
  have len: "unat (of_nat (length es) :: u8) = length es" using assms(3) by (simp add: unat_of_nat)
  have "int_ok (uint (of_nat (length es) :: u8))" by simp
  then have "int_ok (int (length es))" using len by (metis uint_nat)
  then show ?thesis
    using timer_loop_closed [OF assms(1), of 0 fs None "[]"] assms(2,3) len
    by (cases fs) (simp_all add: closed uint_nat)
qed

lemma alarm_key_cmp:
  "case_insensitive_strcmp (Some (''alarm'' @ show_nat a)) (Some (''alarm'' @ show_nat b)) = 0 \<longleftrightarrow> a = b"
  using strcmp_loop_eq [of "show_nat a" "show_nat b"] tolower_digits [of "show_nat a" "show_nat b"] show_nat_digits
  by (simp add: case_insensitive_strcmp_def)

lemma find_alarm:
  "i < length es \<Longrightarrow>
   find_child (''alarm'' @ show_nat (Suc (k + i))) (alarm_items k es @ r) =
     Some (obj (Some (''alarm'' @ show_nat (Suc (k + i)))) (alarm_fields (es ! i)))"
proof (induction es arbitrary: k i)
  case (Cons a es)
  then show ?case
    using alarm_key_cmp [simplified] Cons.IH [of "i - 1" "Suc k"] by (cases i) simp_all
qed simp

lemma find_count: "find_child ''count'' (alarm_items k es @ r) = find_child ''count'' r"
  by (induction es arbitrary: k) (simp_all add: case_insensitive_strcmp_def tolower_def)

lemma lookup_alarm_fields:
  "lookup_number (obj nm (alarm_fields a)) ''weekday'' = Some (uint (weekday a))"
  "lookup_number (obj nm (alarm_fields a)) ''minutes'' = Some (uint (minutes a))"
  "lookup_number (obj nm (alarm_fields a)) ''action'' = Some (uint (action a))"
  by (simp_all add: alarm_fields_def lookup_obj case_insensitive_strcmp_def tolower_def)

text \<open>What a reader of a report finds about one alarm.\<close>

fun reports_alarm :: "cJSON \<Rightarrow> nat \<Rightarrow> entry \<Rightarrow> bool" where
  "reports_alarm v i (w, m, a) \<longleftrightarrow>
     (\<exists>c. cJSON_GetObjectItem v (''alarm'' @ show_nat (i + 1)) = Some c \<and>
          lookup_number c ''weekday'' = Some (uint w) \<and> lookup_number c ''minutes'' = Some (uint m) \<and>
          lookup_number c ''action'' = Some (uint a))"

lemma timer_report_height: "height (obj None (alarm_items k es @ [num ''count'' n])) \<le> 2"
proof -
  have "(\<forall>c \<in> set cs. height c \<le> 1) \<Longrightarrow> b \<le> 1 \<Longrightarrow> fold max (map height cs) b \<le> 1" for cs b
    by (induction cs arbitrary: b) simp_all
  then show ?thesis using alarm_items_ok(3) [of k es] by fastforce
qed

text \<open>
  C29: with at most 17 alarms in the table, whatever their fields, the alarm report fits the
  message buffer, and a reader who parses it finds the number of alarms and the fields of
  each under its 1-based number.
\<close>

theorem alarm_report_read_back:
  assumes "alarms_ok (alarms s)" "length (entries (alarms s)) \<le> 17"
  shows "\<exists>out v. csro_device_prepare_timer_message s = Done (s\<lparr>content := out\<rparr>) \<and> length out < 1000 \<and>
    cJSON_Parse out = Some v \<and> lookup_number v ''count'' = Some (int (length (entries (alarms s)))) \<and>
    (\<forall>i < length (entries (alarms s)). reports_alarm v i (entries (alarms s) ! i))"
proof -
  obtain es fs where al: "alarms s = es @ fs" "\<forall>a \<in> set es. valid a" "\<forall>a \<in> set fs. \<not> valid a"
    "length es + length fs = ALARM_NUMBER" "entries (alarms s) = map entry_of es"
    using alarms_okE [OF assms(1)] by blast
  let ?v = "obj None (alarm_items 0 es @ [num ''count'' (int (length es))])"
  have len: "length es \<le> 17" "fs \<noteq> []" using assms(2) al(4,5) by (auto simp: ALARM_NUMBER_def)
  have json: "timer_json_loop (alarms s) 0 cJSON_CreateObject = ?v"
    using timer_report_closed [OF al(2,3)] len al(1) by simp
  have "length (show_int (int (length es))) \<le> 2"
    using length_show_nat_le [of "length es" 1] len by (simp add: show_int_def)
  then have size: "text_size ?v < 1000"
    using alarm_items_size_le [of 0 es] len alarm_items_ok(2) [of 0 es] by (simp add: sizes)
  have "int_ok (int (length es))" using len by (simp add: int_ok_def INT_MIN_def INT_MAX_def)
  then have "canonical ?v" using alarm_items_ok(1) by simp
  then have out: "csro_device_prepare_timer_message s = Done (s\<lparr>content := render False 0 ?v\<rparr>) \<and>
      cJSON_Parse (render False 0 ?v) = Some ?v" "length (render False 0 ?v) < 1000"
    using store_content_fits [of ?v s] size timer_report_height [of 0 es "int (length es)"]
    by (simp_all add: csro_device_prepare_timer_message_def json text_size_def CJSON_NESTING_LIMIT_def)
  moreover have "lookup_number ?v ''count'' = Some (int (length es))"
    by (simp add: lookup_number_def cJSON_GetObjectItem_def find_count case_insensitive_strcmp_def)
  moreover have "reports_alarm ?v i (entry_of (es ! i))" if "i < length es" for i
    using find_alarm [OF that, of 0] by (simp add: entry_of_def cJSON_GetObjectItem_def lookup_alarm_fields)
  ultimately show ?thesis using al(5) by auto
qed

text \<open>
  With all twenty alarms in use, each on two or more weekdays with a number of at least
  10 and after 16:40, the report does not fit: it is copied past the end of the buffer.
\<close>

theorem alarm_report_overflow:
  assumes "length (alarms s) = ALARM_NUMBER" "\<forall>a \<in> set (alarms s). valid a \<and> 10 \<le> weekday a \<and> 1000 \<le> minutes a"
  shows "csro_device_prepare_timer_message s = Overflow ''mqtt.content''"
proof -
  let ?v = "obj None (alarm_items 0 (alarms s))"
  have "timer_json_loop (alarms s) 0 cJSON_CreateObject = ?v"
    using timer_report_closed [of "alarms s" "[]"] assms by (simp add: ALARM_NUMBER_def)
  moreover have "canonical ?v" using alarm_items_ok(1) by simp
  moreover have "1000 \<le> text_size ?v" "text_size ?v + 1 < PRINT_LIMIT"
    using alarm_items_size_ge [of "alarms s" 0] alarm_items_size_le [of 0 "alarms s"] assms alarm_items_ok(2)
    by (simp_all add: sizes ALARM_NUMBER_def PRINT_LIMIT_def)
  ultimately show ?thesis
    using store_content_overflow [of ?v s] by (simp add: csro_device_prepare_timer_message_def)
qed

theorem alarm_report_read_back_witness:
  "let s = (power_on Map.empty)\<lparr>alarms := \<lparr>valid = True, weekday = 127, minutes = 480, action = 1\<rparr> # replicate 19
         \<lparr>valid = False, weekday = 0, minutes = 0, action = 0\<rparr>\<rparr>
   in \<exists>out v. csro_device_prepare_timer_message s = Done (s\<lparr>content := out\<rparr>) \<and> length out < 1000 \<and>
        cJSON_Parse out = Some v \<and> lookup_number v ''count'' = Some 1 \<and> reports_alarm v 0 (127, 480, 1)"
proof -
  let ?s = "(power_on Map.empty)\<lparr>alarms := [\<lparr>valid = True, weekday = 127, minutes = 480, action = 1\<rparr>] @ replicate 19
         \<lparr>valid = False, weekday = 0, minutes = 0, action = 0\<rparr>\<rparr>"
  have "alarms_ok (alarms ?s)" by simp (rule alarms_okI [of "[_]", simplified], simp_all add: ALARM_NUMBER_def)
  moreover have "entries (alarms ?s) = [(127, 480, 1)]" by (simp add: entries_def entry_of_def)
  ultimately show ?thesis using alarm_report_read_back [of ?s] by (simp del: reports_alarm.simps)
qed

theorem alarm_report_overflow_witness:
  "csro_device_prepare_timer_message
     ((power_on Map.empty)\<lparr>alarms := replicate 20 \<lparr>valid = True, weekday = 127, minutes = 1200, action = 1\<rparr>\<rparr>) =
   Overflow ''mqtt.content''"
  by (rule alarm_report_overflow) (simp_all add: ALARM_NUMBER_def)

end
