(* ===== verification/Csro_Theorems.thy ===== *)
theory Csro_Theorems
  imports Csro_Reports
begin

text \<open>
  The effect of the commands a message carries, on the running state and across a restart,
  the text of the reports, provisioning and the broadcasts.
\<close>

section \<open>Messages as items\<close>

text \<open>A message whose payload is the text of an object; other bytes may follow it in memory.\<close>

definition carries :: "message_data \<Rightarrow> cJSON \<Rightarrow> bool" where
  "carries data v \<longleftrightarrow>
     canonical v \<and> jtype v = cJSON_Object \<and> jname v = None \<and> height v \<le> CJSON_NESTING_LIMIT \<and>
     (\<exists>fmt junk. c_string (payload_mem data) = render fmt 0 v @ junk)"

lemma carries_parse: "carries data v \<Longrightarrow> cJSON_Parse (c_string (payload_mem data)) = Some v"
  by (auto simp: carries_def intro!: cJSON_Parse_render)

lemma carries_number:
  "carries data v \<Longrightarrow>
   csro_system_parse_level1_json_number (c_string (payload_mem data)) key = map_option word_of_int (lookup_number v key)"
  by (auto simp: carries_parse csro_system_parse_level1_json_number_def lookup_number_def split: option.split)

lemma carries_object:
  "carries data v \<Longrightarrow>
   csro_system_parse_level1_json_object (c_string (payload_mem data)) key \<longleftrightarrow> lookup_object v key \<noteq> None"
  by (auto simp: carries_parse csro_system_parse_level1_json_object_def lookup_object_def split: option.split)

lemma carries_level2:
  "carries data v \<Longrightarrow> lookup_object v key = Some i \<Longrightarrow>
   csro_system_parse_level2_json_number (c_string (payload_mem data)) key sub = map_option word_of_int (lookup_number i sub)"
  by (auto simp: carries_parse csro_system_parse_level2_json_number_def lookup_object_def lookup_number_def
      split: option.splits if_splits)

section \<open>The interval\<close>

lemma interval_select [simp]:
  "interval (csro_mqtt_msg_trigger_status s) = interval s" "interval (csro_mqtt_msg_trigger_system s) = interval s"
  "interval (csro_mqtt_msg_trigger_alarm s) = interval s" "interval (nlight_channel_set i v src s) = interval s"
  by (simp_all add: csro_mqtt_msg_trigger_status_def csro_mqtt_msg_trigger_system_def csro_mqtt_msg_trigger_alarm_def
      nlight_channel_set_def Let_def)

lemma interval_exec: "interval (exec_cmd c s) = interval (s :: app)" "channel (exec_cmd c s) = channel s"
  using alarm_change_exec [of s c] by (auto simp: alarm_change_def)

lemma interval_alarm_cmds [simp]:
  "interval (csro_alarm_add w m a s) = interval (s :: app)" "interval (csro_alarm_modify i w m a s) = interval s"
  "interval (csro_alarm_delete i s) = interval s" "interval (csro_alarm_clear s) = interval s"
  "channel (csro_alarm_add w m a s) = channel s" "channel (csro_alarm_modify i w m a s) = channel s"
  "channel (csro_alarm_delete i s) = channel s" "channel (csro_alarm_clear s) = channel s"
  using interval_exec [of "Add w m a" s] interval_exec [of "Modify i w m a" s] interval_exec [of "Delete i" s]
    interval_exec [of Clear s] by simp_all

lemma handle_alarm_frame [simp]:
  "interval (snd (handle_alarm_add msg s)) = interval s" "channel (snd (handle_alarm_add msg s)) = channel s"
  "interval (snd (handle_alarm_modify msg s)) = interval s" "channel (snd (handle_alarm_modify msg s)) = channel s"
  "interval (snd (handle_alarm_delete msg s)) = interval s" "channel (snd (handle_alarm_delete msg s)) = channel s"
  "interval (snd (handle_alarm_clear msg s)) = interval s" "channel (snd (handle_alarm_clear msg s)) = channel s"
  by (simp_all add: handle_alarm_add_def handle_alarm_modify_def handle_alarm_delete_def handle_alarm_clear_def
      split: option.split)

lemma self_alarms_frame [simp]:
  "interval (self_alarms msg s) = interval s" "channel (self_alarms msg s) = channel s"
  by (simp_all add: self_alarms_def Let_def csro_mqtt_msg_trigger_alarm_def)

lemma nlight_self_interval [simp]: "interval (csro_nlight_handle_self_message data s) = interval s"
proof -
  have "interval (snd (self_channel msg key i r)) = interval (snd r)" for msg key i r
    by (simp add: self_channel_def split: option.split)
  then show ?thesis by (simp add: csro_nlight_handle_self_message_def Let_def case_prod_beta)
qed

lemma self_settings_interval:
  "interval (self_settings msg s) =
     (case csro_system_parse_level1_json_number msg ''interval'' of
        Some v \<Rightarrow> if 2 \<le> (ucast v :: u16) \<and> (ucast v :: u16) \<le> 120 then ucast v else interval s
      | None \<Rightarrow> interval s)"
  by (simp add: self_settings_def on_number_def csro_system_set_interval_def csro_mqtt_change_status_msg_timer_def
      split: option.split prod.split)

lemma reboot_interval:
  assumes "app_ok s"
  shows "interval (csro_system_get_info wmac ctx (power_on (flash s))) = interval s"
proof -
  let ?h = "Some \<lparr>h_ns = ''system'', h_read_only = False\<rparr>"
  let ?p = "power_on (flash s)"
  have iv: "2 \<le> interval s" "interval s \<le> 120" "stored_interval (flash s) = Some (NvsU16 (interval s))"
    using assms by (auto simp: app_ok_defs)
  have "flash s ''system'' \<noteq> None"
    using iv(3) by (auto simp: stored_interval_def nvs_get_def split: option.splits)
  then have n: "fst (nvs_open ''system'' NVS_READWRITE (flash ?p)) = flash s" "flash s ''system'' \<noteq> None"
    by (auto simp: power_on_def nvs_open_rw)
  have "nvs_get_u16 ?h ''interval'' (nvs_set ?h ''power_count'' x (flash s)) d = interval s" for x d
    using rw.get_put [of "flash s" "''system''" "''interval''" "''power_count''" x] n(2) iv(3)
    by (simp add: nvs_get_u16_def stored_interval_def)
  moreover have "\<not> interval s < 2" "\<not> 120 < interval s" using iv(1,2) by (simp_all add: not_less)
  ultimately show ?thesis
    using get_info_eq(1) [of wmac ctx ?p] unfolding n(1) by simp
qed

lemma self_message_no_overflow: "\<exists>s'. final_state (csro_device_handle_self_message data s) = Some s'"
  by (simp add: self_message_eq Let_def)

lemma self_message_final:
  "final_state (csro_device_handle_self_message data s) = Some s' \<Longrightarrow>
   interval s' = interval (self_settings (c_string (payload_mem data)) s)"
  by (auto simp: self_message_eq Let_def split: if_splits)

text \<open>
  C30: a message on the device's own topic with a numeric field \<open>interval\<close> sets the publishing
  interval to that number modulo 2^16 when this lies between 2 and 120 and leaves it alone
  otherwise; the interval in force afterwards is the one the next boot reads from the flash.
\<close>

theorem interval_command_persists:
  assumes "app_ok s" "carries data v" "lookup_number v ''interval'' = Some n"
  shows "\<exists>s'. final_state (csro_device_handle_self_message data s) = Some s' \<and>
    interval s' = (if 2 \<le> n mod 65536 \<and> n mod 65536 \<le> 120 then word_of_int n else interval s) \<and>
    interval (csro_system_get_info wmac ctx (power_on (flash s'))) = interval s'"
proof -
  obtain s' where s': "final_state (csro_device_handle_self_message data s) = Some s'"
    using self_message_no_overflow by blast
  let ?k = "word_of_int n :: u16"
  have k: "ucast (word_of_int n :: u32) = ?k"
    by (simp add: ucast_down_wi is_down)
  have "uint ?k = n mod 65536" by (simp add: unsigned_of_int take_bit_eq_mod)
  then have range: "2 \<le> ?k \<and> ?k \<le> 120 \<longleftrightarrow> 2 \<le> n mod 65536 \<and> n mod 65536 \<le> 120"
    by (simp add: word_le_def)
  have "interval s' = (if 2 \<le> n mod 65536 \<and> n mod 65536 \<le> 120 then word_of_int n else interval s)"
    using self_message_final [OF s'] carries_number [OF assms(2), of "''interval''"] assms(3) k range
    by (simp add: self_settings_interval)
  moreover have "app_ok s'"
    using holds_final_state [OF _ s', of app_ok] holds_deliver [OF assms(1), of "SelfMessage data"] by simp
  ultimately show ?thesis using reboot_interval s' by blast
qed

text \<open>A device switched on with an empty flash, and the text of a small message.\<close>

definition new_device :: app where
  "new_device = booted True [0x5C, 0xCF, 0x7F, 1, 2, 3]
     \<lparr>Intermediate_Hash = [], Length_Low = 0, Length_High = 0, Message_Block_Index = 0, Message_Block = replicate 64 0\<rparr> Map.empty"

definition text_message :: "string \<Rightarrow> message_data" where
  "text_message t = \<lparr>topicName = [], payload_mem = t, payloadlen = length t\<rparr>"

lemma new_device_ok: "app_ok new_device"
  unfolding new_device_def by (rule app_ok_booted)

lemma carries_text:
  assumes "canonical v" "jtype v = cJSON_Object" "jname v = None" "height v \<le> CJSON_NESTING_LIMIT"
  shows "CHR 0x00 \<notin> set (render False 0 v) \<Longrightarrow> carries (text_message (render False 0 v)) v"
proof -
  assume "CHR 0x00 \<notin> set (render False 0 v)"
  then have "c_string (payload_mem (text_message (render False 0 v))) = render False 0 v"
    unfolding c_string_def text_message_def message_data.simps by (auto simp: takeWhile_eq_all_conv)
  then show ?thesis using assms unfolding carries_def by (metis append_Nil2)
qed

theorem interval_command_persists_witness:
  "\<exists>s'. final_state (csro_device_handle_self_message (text_message (render False 0 (obj None [num ''interval'' 7]))) new_device) = Some s' \<and>
    interval s' = 7 \<and> interval (csro_system_get_info [] \<lparr>Intermediate_Hash = [], Length_Low = 0, Length_High = 0,
      Message_Block_Index = 0, Message_Block = replicate 64 0\<rparr> (power_on (flash s'))) = 7"
proof -
  let ?v = "obj None [num ''interval'' 7]"
  have "carries (text_message (render False 0 ?v)) ?v"
    by (rule carries_text)
      (simp_all add: int_ok_def INT_MIN_def INT_MAX_def CJSON_NESTING_LIMIT_def obj_def num_def quote_opt_def quote_plain
        show_int_def trunc_of_int [of 7, simplified])
  moreover have "lookup_number ?v ''interval'' = Some 7" by (simp add: lookup_obj case_insensitive_strcmp_def)
  ultimately show ?thesis
    using interval_command_persists [OF new_device_ok, of "text_message (render False 0 ?v)" ?v 7 "[]"] by fastforce
qed

section \<open>The switches\<close>

text \<open>The state of a switch after a command value, in the source's reading: only 8 bits count.\<close>

definition switch_after :: "int option \<Rightarrow> u8 \<Rightarrow> u8" where
  "switch_after cmd st =
     (case cmd of None \<Rightarrow> st
      | Some n \<Rightarrow> if n mod 256 = 0 then 0 else if n mod 256 = 1 then 1
                  else if n mod 256 = 2 then (if st = 0 then 1 else 0) else st)"

lemma channel_set_state:
  assumes "switches_ok (channel s)" "i < NLIGHT" "j < NLIGHT"
  shows "sw_state (channel (nlight_channel_set i (ucast (word_of_int n :: u32)) src s) ! j) =
    (if j = i then switch_after (Some n) (sw_state (channel s ! i)) else sw_state (channel s ! j))"
proof -
  let ?v = "ucast (word_of_int n :: u32) :: u8"
  have "?v = word_of_int n" by (simp add: ucast_down_wi is_down)
  then have v: "uint ?v = n mod 256" by (simp add: unsigned_of_int take_bit_eq_mod)
  then have cases: "?v = 0 \<longleftrightarrow> n mod 256 = 0" "?v = 1 \<longleftrightarrow> n mod 256 = 1" "?v = 2 \<longleftrightarrow> n mod 256 = 2"
    "2 < ?v \<longleftrightarrow> 2 < n mod 256" by (auto simp: word_uint_eq_iff word_less_def)
  have idx: "unat (sw_index (channel s ! i)) + 1 \<le> NLIGHT" "length (channel s) = NLIGHT"
    using assms by (auto simp: switches_ok_def NLIGHT_def unat_of_nat)
  have "0 \<le> n mod 256" by simp
  then consider "n mod 256 = 0" | "n mod 256 = 1" | "n mod 256 = 2" | "2 < n mod 256" by linarith
  then show ?thesis
    using assms(2,3) idx cases
    by cases (auto simp: nlight_channel_set_def Let_def switch_after_def csro_mqtt_msg_trigger_status_def nth_list_update)
qed

lemma self_channel_state:
  fixes key :: string
  assumes "carries data v" "switches_ok (channel (snd r))" "i < NLIGHT"
  defines "r' \<equiv> self_channel (c_string (payload_mem data)) key i r"
  shows "j < NLIGHT \<Longrightarrow> sw_state (channel (snd r') ! j) =
      (if j = i then switch_after (lookup_number v key) (sw_state (channel (snd r) ! i)) else sw_state (channel (snd r) ! j))"
    and "switches_ok (channel (snd r'))" and "fst r' \<longleftrightarrow> fst r \<or> lookup_number v key \<noteq> None"
  using assms channel_set_state [OF assms(2,3)] switches_ok_set [OF assms(2,3)]
  by (auto simp: self_channel_def carries_number switch_after_def split: option.split)

lemma nlight_self_states:
  assumes "carries data v" "switches_ok (channel s)" "i < NLIGHT"
  shows "sw_state (channel (csro_nlight_handle_self_message data s) ! i) =
      switch_after (lookup_number v (''channel'' @ show_nat (i + 1))) (sw_state (channel s ! i))"
    and "lookup_number v (''channel'' @ show_nat (i + 1)) \<noteq> None \<Longrightarrow> status_sem (csro_nlight_handle_self_message data s)"
proof -
  let ?m = "c_string (payload_mem data)"
  let ?r1 = "self_channel ?m ''channel1'' 0 (False, s)"
  let ?r2 = "self_channel ?m ''channel2'' 1 ?r1"
  let ?r3 = "self_channel ?m ''channel3'' 2 ?r2"
  have ok0: "switches_ok (channel (snd (False, s)))" using assms(2) by simp
  note s1 = self_channel_state [OF assms(1) ok0 NLIGHT_indices(1), where key = "''channel1''"]
  note s2 = self_channel_state [OF assms(1) s1(2) NLIGHT_indices(2), where key = "''channel2''"]
  note s3 = self_channel_state [OF assms(1) s2(2) [unfolded One_nat_def [symmetric]] NLIGHT_indices(3), where key = "''channel3''"]
  have msg: "csro_nlight_handle_self_message data s = (if fst ?r3 then csro_mqtt_msg_trigger_status (snd ?r3) else snd ?r3)"
    by (simp add: csro_nlight_handle_self_message_def Let_def case_prod_beta)
  have "i = 0 \<or> i = 1 \<or> i = 2" using assms(3) by (auto simp: NLIGHT_def)
  then show "sw_state (channel (csro_nlight_handle_self_message data s) ! i) =
      switch_after (lookup_number v (''channel'' @ show_nat (i + 1))) (sw_state (channel s ! i))"
    using s1(1) s2(1) s3(1) unfolding msg csro_mqtt_msg_trigger_status_def by auto
  assume "lookup_number v (''channel'' @ show_nat (i + 1)) \<noteq> None"
  then show "status_sem (csro_nlight_handle_self_message data s)"
    using \<open>i = 0 \<or> i = 1 \<or> i = 2\<close> s1(3) s2(3) s3(3) unfolding msg csro_mqtt_msg_trigger_status_def by auto
qed

lemma self_settings_channel [simp]: "channel (self_settings msg s) = channel s"
  by (simp add: self_settings_def on_number_def csro_system_set_interval_def csro_mqtt_change_status_msg_timer_def
      csro_mqtt_msg_trigger_alarm_def csro_mqtt_msg_trigger_system_def split: option.split prod.split)

text \<open>Whether a message asks for a restart.\<close>

definition wants_restart :: "cJSON \<Rightarrow> bool" where
  "wants_restart v \<longleftrightarrow> (case lookup_number v ''restart'' of Some n \<Rightarrow> n mod 2 ^ 32 = 1 | None \<Rightarrow> False)"

lemma self_message_done:
  assumes "carries data v" "\<not> wants_restart v"
  shows "csro_device_handle_self_message data s =
    Done (csro_nlight_handle_self_message data
      (self_alarms (c_string (payload_mem data)) (self_settings (c_string (payload_mem data)) s)))"
proof -
  have "(word_of_int n :: u32) = 1 \<longleftrightarrow> n mod 2 ^ 32 = 1" for n
    by (simp add: word_uint_eq_iff unsigned_of_int take_bit_eq_mod)
  then have "csro_system_parse_level1_json_number (c_string (payload_mem data)) ''restart'' \<noteq> Some 1"
    using assms by (auto simp: carries_number wants_restart_def split: option.splits)
  then show ?thesis by (simp add: self_message_eq Let_def)
qed



section \<open>Home Assistant commands\<close>

lemma strtok_all_append: "strtok_all acc (pre @ CHR ''/'' # t) = strtok_all acc pre @ strtok_all [] t"
  by (induction acc pre rule: strtok_all.induct) auto

lemma strtok_all_segment: "CHR ''/'' \<notin> set t \<Longrightarrow> strtok_all acc t = (if rev acc @ t = [] then [] else [rev acc @ t])"
  by (induction t arbitrary: acc) auto

lemma sub_topic_loop_last:
  "\<forall>x \<in> set (xs @ [x]). length x < 50 \<Longrightarrow>
   sub_topic_loop (xs @ [x]) st = Done (x @ replicate (50 - length x) (CHR 0x00))"
  by (induction xs arbitrary: st) auto

lemma cstr_eq_zeros: "k > 0 \<Longrightarrow> CHR 0x00 \<notin> set lit \<Longrightarrow> CHR 0x00 \<notin> set x \<Longrightarrow>
  cstr_eq (x @ replicate k (CHR 0x00)) lit \<longleftrightarrow> x = lit"
proof (induction x arbitrary: lit)
  case Nil
  then show ?case by (cases lit; cases k) (auto simp: cstr_eq_def)
next
  case (Cons c x)
  then show ?case by (cases lit) (auto simp: cstr_eq_def)
qed

lemma sub_topic_channel:
  assumes "c_string (topicName data) = pre @ ''/channel'' @ show_nat (Suc i)" "i < NLIGHT"
    and "length (topicName data) < 200" "\<forall>x \<in> set (strtok_all [] pre). length x < 50"
  shows "csro_systen_get_hass_message_sub_topic data sub0 =
    Done ((''channel'' @ show_nat (Suc i)) @ replicate 42 (CHR 0x00))"
proof -
  have "length (show_nat (Suc i)) = 1" using assms(2) by (simp add: NLIGHT_def show_nat.simps [of "Suc i"])
  moreover have "\<not> is_digit (CHR ''/'')" by (simp add: is_digit_def)
  then have "CHR ''/'' \<notin> set (show_nat (Suc i))" using show_nat_digits by blast
  ultimately show ?thesis
    using assms strtok_all_append [of "[]" pre] strtok_all_segment [of "''channel'' @ show_nat (Suc i)" "[]"]
      sub_topic_loop_last [of "strtok_all [] pre" "''channel'' @ show_nat (Suc i)" sub0]
    by (simp add: csro_systen_get_hass_message_sub_topic_def)
qed

lemma hass_channel:
  assumes "length payload0 = 200" "payloadlen data \<le> 200" "i < NLIGHT"
    and "c_string (topicName data) = pre @ ''/channel'' @ show_nat (Suc i)"
    and "length (topicName data) < 200" "\<forall>x \<in> set (strtok_all [] pre). length x < 50"
    and "strncpy (payload_mem data) (payloadlen data) payload0 = Some payload"
  shows "csro_device_handle_hass_message payload0 sub0 data s =
    (let r = hass_switch payload i s in Done (if fst r then csro_mqtt_msg_trigger_status (snd r) else snd r))"
proof -
  have "i = 0 \<or> i = 1 \<or> i = 2" using assms(3) by (auto simp: NLIGHT_def)
  then show ?thesis
    using sub_topic_channel [OF assms(4,3,5,6), of sub0] assms(7)
      cstr_eq_zeros [of 42 _ "''channel'' @ show_nat (Suc i)"]
    by (auto simp: csro_device_handle_hass_message_def csro_nlight_handle_hass_message_def Let_def
        numeral_3_eq_3 [symmetric] split: prod.split)
qed

text \<open>
  A two-byte payload \<open>on\<close> for a switch is obeyed only if the third byte of the uninitialised
  array it is copied to happens to be zero; otherwise the command is ignored.
\<close>

theorem hass_on_depends_on_stack:
  assumes "switches_ok (channel s)" "i < NLIGHT" "length payload0 = 200"
    and "c_string (topicName data) = pre @ ''/channel'' @ show_nat (Suc i)"
    and "length (topicName data) < 200" "\<forall>x \<in> set (strtok_all [] pre). length x < 50"
    and "take 2 (payload_mem data) = ''on''" "payloadlen data = 2"
  shows "\<exists>s'. csro_device_handle_hass_message payload0 sub0 data s = Done s' \<and>
    sw_state (channel s' ! i) = (if payload0 ! 2 = CHR 0x00 then 1 else sw_state (channel s ! i))"
proof -
  let ?p = "''on'' @ drop 2 payload0"
  have copy: "strncpy (payload_mem data) (payloadlen data) payload0 = Some ?p"
    using assms(3,7,8) by (simp add: strncpy_def)
  obtain a b c r where "payload0 = a # b # c # r"
    using assms(3) by (cases payload0; cases "tl payload0"; cases "tl (tl payload0)") auto
  then have "cstr_eq ?p ''on'' \<longleftrightarrow> payload0 ! 2 = CHR 0x00" "\<not> cstr_eq ?p ''off''"
    by (auto simp: cstr_eq_def)
  then show ?thesis
    using hass_channel [OF assms(3) _ assms(2) assms(4-6) copy, of sub0 s] assms(8)
      channel_set_state [OF assms(1,2,2), of 1 2]
    by (simp add: hass_switch_def Let_def csro_mqtt_msg_trigger_status_def switch_after_def)
qed

theorem hass_on_depends_on_stack_witness:
  "\<exists>s'. csro_device_handle_hass_message (''xyz'' @ replicate 197 (CHR 0x00)) (replicate 50 (CHR 0x00))
        \<lparr>topicName = ''p/m/nlight3/hass/channel2'', payload_mem = ''on'', payloadlen = 2\<rparr> new_device = Done s' \<and>
    sw_state (channel s' ! 1) = sw_state (channel new_device ! 1)"
proof -
  have "switches_ok (channel new_device)" using new_device_ok by (simp add: app_ok_def)
  then show ?thesis
    using hass_on_depends_on_stack [of new_device 1 "''xyz'' @ replicate 197 (CHR 0x00)"
      "\<lparr>topicName = ''p/m/nlight3/hass/channel2'', payload_mem = ''on'', payloadlen = 2\<rparr>" "''p/m/nlight3/hass''"]
    by (simp add: c_string_def NLIGHT_def)
qed

end
