(* ===== verification/Csro_Network.thy ===== *)
theory Csro_Network
  imports Csro_Theorems
begin

text \<open>
  What the device does about its connections: restarting when the provisioned access point
  stays out of reach, what provisioning leaves in the flash for the next boot, and the
  broadcasts that announce the broker.
\<close>

section \<open>Out of reach\<close>

lemma set_status_frame [simp]:
  "sc_flag (csro_system_set_status st s) = sc_flag s" "wifi_retry (csro_system_set_status st s) = wifi_retry s"
  "flash (csro_system_set_status st s) = flash s"
  by (simp_all add: csro_system_set_status_def)

lemma offline_round:
  "e_addr e = 0 \<Longrightarrow>
   csro_mqtt_task_round e s = no_wifi_round ((csro_system_set_status NORMAL_START_NOWIFI s)\<lparr>is_connect := False\<rparr>)"
  by (simp add: csro_mqtt_task_round_def csro_system_get_wifi_status_def)

lemma offline_no_restart:
  "\<forall>e \<in> set es. e_addr e = 0 \<Longrightarrow> sc_flag s \<noteq> 1 \<or> unat (wifi_retry s) + length es < 10 \<Longrightarrow>
   \<exists>s'. run_steps (map csro_mqtt_task_round es) s = Done s' \<and> sc_flag s' = sc_flag s \<and>
     wifi_retry s' = wifi_retry s + of_nat (length es)"
proof (induction es arbitrary: s)
  case (Cons e es)
  let ?t = "(csro_system_set_status NORMAL_START_NOWIFI s)\<lparr>is_connect := False, wifi_retry := wifi_retry s + 1\<rparr>"
  have "unat (wifi_retry s + 1) = unat (wifi_retry s) + 1" if "unat (wifi_retry s) < 10"
    using that by (simp add: unat_word_ariths)
  then have "sc_flag s \<noteq> 1 \<or> unat (wifi_retry s + 1) + length es < 10" using Cons.prems(2) by auto
  then have next_ok: "sc_flag ?t \<noteq> 1 \<or> unat (wifi_retry ?t) + length es < 10" by simp
  then have "csro_mqtt_task_round e s = Done ?t"
    using offline_round [of e s] Cons.prems(1) by (auto simp: no_wifi_round_def Let_def word_le_nat_alt)
  then show ?case using Cons.IH [OF _ next_ok] Cons.prems(1) by (auto simp: add.assoc)
qed simp

lemma tenth_round_restarts:
  assumes "e_addr e = 0" "sc_flag s = 1" "wifi_retry s = 9"
  shows "\<exists>s'. csro_mqtt_task_round e s = Restarted s' \<and>
    nvs_get (Some \<lparr>h_ns = ''system'', h_read_only = False\<rparr>) ''sc_flag'' (flash s') = Some (NvsU8 0) \<and>
    flash s' ''system'' \<noteq> None"
proof -
  let ?n = "fst (nvs_open ''system'' NVS_READWRITE (flash s))"
  show ?thesis
    using offline_round [OF assms(1), of s] assms(2,3) nvs_open_rw_ready [of "''system''" "flash s"]
      rw.get_put [of ?n "''system''" "''sc_flag''" "''sc_flag''" "NvsU8 0"] rw.ready_put [of ?n "''system''"]
    by (auto simp: no_wifi_round_def Let_def nvs_open_rw)
qed

lemma boot_sc_flag:
  assumes "nvs_get (Some \<lparr>h_ns = ''system'', h_read_only = False\<rparr>) ''sc_flag'' n = Some (NvsU8 f)" "n ''system'' \<noteq> None"
  shows "sc_flag (csro_system_get_info wmac ctx (power_on n)) = f"
  using assms by (auto simp: csro_system_get_info_def Let_def nvs_open_def nvs_get_u8_def power_on_def
      system_print_device_type_def split: option.splits)

text \<open>
  C31: while the access point stays out of reach, a freshly provisioned device restarts in its
  tenth round and not before, and boots with the provisioning flag cleared; a device whose
  flag is clear never restarts for that reason.
\<close>

theorem offline_restart:
  assumes "\<forall>e \<in> set es. e_addr e = 0" "wifi_retry s = 0"
  shows "if sc_flag s = 1 \<and> 10 \<le> length es
    then \<exists>s'. run_steps (map csro_mqtt_task_round es) s = Restarted s' \<and>
           sc_flag (csro_system_get_info wmac ctx (power_on (flash s'))) = 0
    else \<exists>s'. run_steps (map csro_mqtt_task_round es) s = Done s'"
proof (cases "sc_flag s = 1 \<and> 10 \<le> length es")
  case True
  obtain e where split: "es = take 9 es @ e # drop 10 es" "e \<in> set es"
    using True id_take_nth_drop [of 9 es] nth_mem [of 9 es] by auto
  obtain t where t: "run_steps (map csro_mqtt_task_round (take 9 es)) s = Done t" "sc_flag t = 1" "wifi_retry t = 9"
    using offline_no_restart [of "take 9 es" s] assms True by (auto dest: in_set_takeD)
  obtain s' where s': "csro_mqtt_task_round e t = Restarted s'"
    "nvs_get (Some \<lparr>h_ns = ''system'', h_read_only = False\<rparr>) ''sc_flag'' (flash s') = Some (NvsU8 0)"
    "flash s' ''system'' \<noteq> None"
    using tenth_round_restarts [OF _ t(2,3), of e] assms(1) split(2) by auto
  have "run_steps (map csro_mqtt_task_round es) s = Restarted s'"
    by (subst split(1)) (simp add: run_steps_append t(1) s'(1))
  then show ?thesis using True boot_sc_flag [OF s'(2,3), of wmac ctx] by auto
next
  case False
  then show ?thesis
    using offline_no_restart [of es s] assms by (auto simp: not_le)
qed

text \<open>An environment without an access point, a broker or messages.\<close>

definition offline :: env where
  "offline = \<lparr>e_addr = 0, e_connect = False, e_mqtt_connect = False, e_subscribe_self = False, e_subscribe_hass = False,
     e_subscribe_group = False, e_publish = (\<lambda>_. False), e_wait_self = [], e_wait_hass = [], e_wait_group = [],
     e_wait_publish = (\<lambda>_. []), e_messages = [], e_yield = False, e_heap = 0\<rparr>"

theorem offline_restart_witness:
  "\<exists>s'. run_steps (map csro_mqtt_task_round (replicate 12 offline)) ((power_on Map.empty)\<lparr>sc_flag := 1\<rparr>) = Restarted s' \<and>
     sc_flag (csro_system_get_info [] \<lparr>Intermediate_Hash = [], Length_Low = 0, Length_High = 0,
       Message_Block_Index = 0, Message_Block = replicate 64 0\<rparr> (power_on (flash s'))) = 0"
  using offline_restart [of "replicate 12 offline" "(power_on Map.empty)\<lparr>sc_flag := 1\<rparr>" "[]"
    "\<lparr>Intermediate_Hash = [], Length_Low = 0, Length_High = 0, Message_Block_Index = 0, Message_Block = replicate 64 0\<rparr>"]
  by (simp add: offline_def power_on_def)

section \<open>Provisioning\<close>

abbreviation "system_ns \<equiv> Some \<lparr>h_ns = ''system'', h_read_only = False\<rparr>"

text \<open>Booting writes the boot counter and perhaps the interval of the system namespace.\<close>

lemma get_info_other_keys:
  fixes s :: app
  assumes "flash s ''system'' \<noteq> None" "key \<noteq> ''power_count''" "key \<noteq> ''interval''"
  shows "nvs_get system_ns key (flash (csro_system_get_info wmac ctx s)) = nvs_get system_ns key (flash s) \<and>
    flash (csro_system_get_info wmac ctx s) ''system'' \<noteq> None"
proof -
  have o: "fst (nvs_open ''system'' NVS_READWRITE (flash s)) = flash s" using assms(1) by (auto simp: nvs_open_def)
  note put = rw.get_put [of _ "''system''" key] rw.ready_put [of _ "''system''"]
  show ?thesis
    unfolding get_info_eq(2) [of wmac ctx s] o using assms put by simp
qed

lemma boot_flash:
  "flash (booted b wmac ctx n) = flash (csro_system_get_info wmac ctx (csro_datetime_init b (power_on n)))"
  "flash (csro_datetime_init b (power_on n)) = n"
  by (simp_all add: booted_def csro_device_init_def init_frame csro_datetime_init_def load_alarm_from_nvs_def
      power_on_def nvs_open_def split: option.split)

lemma provisioned_boot:
  assumes "n ''system'' \<noteq> None" "nvs_get system_ns ''router'' n = Some (NvsU8 1)"
    and "nvs_get system_ns ''ssid'' n = Some (NvsStr ssid)" "nvs_get system_ns ''pass'' n = Some (NvsStr pass)"
    and "length ssid < 50" "length pass < 50"
  shows "\<exists>t. csro_init b wmac ctx (power_on n) = Done t \<and> router_ssid t = ssid \<and> router_pass t = pass \<and>
    last (tasks t) = ''csro_mqtt_task''"
proof -
  let ?b = "booted b wmac ctx n"
  have k: "nvs_get system_ns key (flash ?b) = nvs_get system_ns key n" "flash ?b ''system'' \<noteq> None"
    if "key \<noteq> ''power_count''" "key \<noteq> ''interval''" for key
    using get_info_other_keys [of "csro_datetime_init b (power_on n)" key wmac ctx] that assms(1) by (simp_all add: boot_flash)
  have ro: "nvs_get (Some \<lparr>h_ns = ''system'', h_read_only = True\<rparr>) key m = nvs_get system_ns key m" for key m
    by (rule nvs_get_handle_mode)
  have "csro_system_get_wifi_info ?b = Done (True, ?b\<lparr>router_ssid := ssid, router_pass := pass\<rparr>)"
    using k [of "''router''"] k [of "''ssid''"] k [of "''pass''"] assms(2-6)
    by (auto simp: csro_system_get_wifi_info_def nvs_open_def nvs_get_u8_def nvs_get_str_def ro Let_def
        split: option.splits)
  then show ?thesis by (simp add: csro_init_def booted_def Let_def)
qed

text \<open>
  When SmartConfig reports a link and then its end, the device stores credentials and
  restarts; the next boot connects with the SSID \<open>Jupiter\<close> and its password, whatever
  credentials the phone sent.
\<close>

theorem provisioning_ignores_credentials:
  "\<exists>s'. smartconfig_task_round
      (smartconfig_callback SC_STATUS_LINK_OVER p (smartconfig_callback SC_STATUS_LINK (ssid, pass) s)) = Restarted s' \<and>
    (\<exists>t. csro_init b wmac ctx (power_on (flash s')) = Done t \<and> router_ssid t = ''Jupiter'' \<and>
         router_pass t = ''150933205'' \<and> last (tasks t) = ''csro_mqtt_task'')"
proof -
  let ?n = "fst (nvs_open ''system'' NVS_READWRITE (flash s))"
  define f where "f = nvs_set system_ns ''sc_flag'' (NvsU8 1) (nvs_set system_ns ''router'' (NvsU8 1)
    (nvs_set system_ns ''pass'' (NvsStr ''150933205'') (nvs_set system_ns ''ssid'' (NvsStr ''Jupiter'') ?n)))"
  have f: "f = rw.puts ''system'' [(''ssid'', NvsStr ''Jupiter''), (''pass'', NvsStr ''150933205''),
      (''router'', NvsU8 1), (''sc_flag'', NvsU8 1)] ?n"
    by (simp add: f_def rw.puts_Cons) (simp add: rw.puts_def)
  have "f ''system'' \<noteq> None" "nvs_get system_ns ''router'' f = Some (NvsU8 1)"
    "nvs_get system_ns ''ssid'' f = Some (NvsStr ''Jupiter'')" "nvs_get system_ns ''pass'' f = Some (NvsStr ''150933205'')"
    unfolding f by (rule rw.ready_puts rw.get_puts; use nvs_open_rw_ready [of "''system''" "flash s"] in simp)+
  then have "\<exists>t. csro_init b wmac ctx (power_on f) = Done t \<and> router_ssid t = ''Jupiter'' \<and>
      router_pass t = ''150933205'' \<and> last (tasks t) = ''csro_mqtt_task''"
    by (rule provisioned_boot) simp_all
  then show ?thesis
    by (simp add: smartconfig_task_round_def smartconfig_callback_def Let_def nvs_open_rw f_def)
qed

section \<open>Broadcasts\<close>

text \<open>A datagram whose text is an object.\<close>

definition announces :: "string \<Rightarrow> cJSON \<Rightarrow> bool" where
  "announces d v \<longleftrightarrow>
     canonical v \<and> jtype v = cJSON_Object \<and> jname v = None \<and> height v \<le> CJSON_NESTING_LIMIT \<and>
     (\<exists>fmt junk. c_string (take 511 d) = render fmt 0 v @ junk)"

lemma announces_parse: "announces d v \<Longrightarrow> cJSON_Parse (c_string (take 511 d)) = Some v"
  by (auto simp: announces_def intro!: cJSON_Parse_render)

lemma datetime_set_frame [simp]:
  "broker (csro_datetime_set stack t s) = broker (s :: app)" "prefix (csro_datetime_set stack t s) = prefix s"
  "isconnected (csro_datetime_set stack t s) = isconnected s"
  by (simp_all add: csro_datetime_set_def Let_def split: prod.split)

text \<open>
  A broadcast that names a broker by an address of at least 4 and a prefix of at least 10
  characters makes the device use them, and drops the connection when they are new; a name
  of 50 or more characters overruns its array.
\<close>

theorem broadcast_sets_broker:
  assumes "announces d v" "string_item (cJSON_GetObjectItem v ''ip'') = Some i"
    and "string_item (cJSON_GetObjectItem v ''mac'') = Some m" "4 \<le> length i" "10 \<le> length m"
  shows "if length i < 50 \<and> length m < 50 \<or> broker s = i \<and> prefix s = m
    then \<exists>s'. udp_receive stack d s = Done s' \<and> broker s' = i \<and> prefix s' = m \<and>
           (isconnected s' \<longleftrightarrow> isconnected s \<and> broker s = i \<and> prefix s = m)
    else \<exists>b. udp_receive stack d s = Overflow b"
  using assms(2-5) announces_parse [OF assms(1)]
  by (auto simp: udp_receive_def process_udp_message_def strcpy_def split: option.split)

theorem broadcast_sets_broker_witness:
  "\<exists>s'. udp_receive [] (render False 0 (obj None [str ''ip'' ''10.0.0.7'', str ''mac'' ''b827eb010203''])) new_device = Done s' \<and>
     broker s' = ''10.0.0.7'' \<and> prefix s' = ''b827eb010203''"
proof -
  let ?v = "obj None [str ''ip'' ''10.0.0.7'', str ''mac'' ''b827eb010203'']"
  have txt_eq: "render False 0 ?v = ''{'' @ quote ''ip'' @ '':'' @ quote ''10.0.0.7'' @ '','' @ quote ''mac'' @ '':'' @ quote ''b827eb010203'' @ ''}''"
    by (simp add: obj_def str_def quote_opt_def)
  have "c_string (take 511 (render False 0 ?v)) = render False 0 ?v"
    unfolding txt_eq by (simp add: c_string_def quote_plain)
  then have "announces (render False 0 ?v) ?v"
    unfolding announces_def by (auto simp: CJSON_NESTING_LIMIT_def intro!: exI [of _ False])
  then show ?thesis
    using broadcast_sets_broker [of "render False 0 ?v" ?v "''10.0.0.7''" "''b827eb010203''" new_device "[]"]
    by (simp add: cJSON_GetObjectItem_def case_insensitive_strcmp_def tolower_def string_item_def) blast
qed

end
