(* ===== verification/Csro_Motor.thy ===== *)
theory Csro_Motor
  imports Csro_Reports
begin

text \<open>
  \<open>csro_motor.c\<close>, the curtain motor variant of the firmware (built with \<open>MOTOR\<close> defined as 2): the
  state machine of a motor, its commands, its timer and its report. Two functions the file
  calls exist nowhere in the repository: \<open>csro_mqtt_msg_trigger_state\<close>, whose calls are counted,
  and \<open>csro_systen_get_self_message_sub_topic\<close>, which is an argument.
\<close>

section \<open>State\<close>

datatype motor_state = STOP | UP | DOWN | TOUP | TODOWN

record csro_motor =
  mtr_index :: u8
  state_now :: motor_state
  command :: motor_state
  command_tim :: u32
  command_source :: u8
  count_down :: u16

record motor_app = app +
  motor :: "csro_motor list"
  state_triggers :: nat

definition MOTOR :: nat where "MOTOR = 2"

definition MOTOR_MAX_ON_SEC :: u16 where "MOTOR_MAX_ON_SEC = 120"

section \<open>Operations\<close>

definition motor_do_action :: "nat \<Rightarrow> motor_state \<Rightarrow> motor_app \<Rightarrow> motor_app" where
  "motor_do_action i act s =
     (let mtr = motor s ! i
      in if unat (mtr_index mtr) + 1 > MOTOR then s
         else let c = (case act of
                         UP \<Rightarrow> MOTOR_MAX_ON_SEC * 10
                       | DOWN \<Rightarrow> MOTOR_MAX_ON_SEC * 10
                       | STOP \<Rightarrow> 0
                       | TOUP \<Rightarrow> 5
                       | TODOWN \<Rightarrow> 5)
              in s\<lparr>motor := (motor s)[i := mtr\<lparr>count_down := c, state_now := act\<rparr>],
                   state_triggers := state_triggers s + 1\<rparr>)"

text \<open>The last two branches differ: \<open>command != DOWN\<close> but \<open>command != TOUP\<close>.\<close>

definition motor_process_command :: "nat \<Rightarrow> motor_state \<Rightarrow> u8 \<Rightarrow> motor_app \<Rightarrow> motor_app" where
  "motor_process_command i cmd source s =
     (let mtr = motor s ! i
      in if unat (mtr_index mtr) + 1 > MOTOR then s
         else if cmd = UP \<or> cmd = DOWN \<or> cmd = STOP
         then (let s' = (case state_now mtr of
                           STOP \<Rightarrow> motor_do_action i cmd s
                         | UP \<Rightarrow> motor_do_action i (if cmd = DOWN then TODOWN else cmd) s
                         | DOWN \<Rightarrow> motor_do_action i (if cmd = UP then TOUP else cmd) s
                         | TODOWN \<Rightarrow> if cmd \<noteq> DOWN then motor_do_action i cmd s else s
                         | TOUP \<Rightarrow> if cmd \<noteq> TOUP then motor_do_action i cmd s else s)
               in s'\<lparr>motor := (motor s')[i := (motor s' ! i)\<lparr>command := cmd, command_tim := time_now s',
                                                            command_source := source\<rparr>]\<rparr>)
         else s)"

definition motor_text :: "motor_state \<Rightarrow> string" where
  "motor_text st = (if st = UP then ''up'' else if st = DOWN then ''down'' else ''stop'')"

definition motor_json :: "csro_motor \<Rightarrow> cJSON" where
  "motor_json mtr =
     (let j = cJSON_CreateObject;
          j = cJSON_AddStringToObject j ''state'' (motor_text (state_now mtr));
          j = cJSON_AddStringToObject j ''command'' (motor_text (command mtr));
          j = cJSON_AddNumberToObject j ''command_time'' (uint (command_tim mtr))
      in cJSON_AddNumberToObject j ''command_cource'' (uint (command_source mtr)))"

definition motor_add_channel_json :: "csro_motor \<Rightarrow> cJSON \<Rightarrow> cJSON" where
  "motor_add_channel_json mtr target =
     add_item_to_object target (''motor'' @ show_nat (unat (mtr_index mtr) + 1)) (motor_json mtr)"

definition motor_status_json :: "motor_app \<Rightarrow> cJSON" where
  "motor_status_json s =
     (let j = cJSON_CreateObject;
          j = (if MOTOR \<ge> 1 then motor_add_channel_json (motor s ! 0) j else j)
      in if MOTOR \<ge> 2 then motor_add_channel_json (motor s ! 1) j else j)"

definition csro_motor_prepare_status_message :: "motor_app \<Rightarrow> motor_app outcome" where
  "csro_motor_prepare_status_message s =
     (case cJSON_PrintUnformatted (motor_status_json s) of
        POk out \<Rightarrow> strcpy ''mqtt.content'' 1000 out (content_update (\<lambda>_. out)) s
      | _ \<Rightarrow> Overflow ''out'')"

text \<open>One motor's field of a message: its text, in the 50 characters of \<open>command\<close>, as a command.\<close>

definition motor_field :: "string \<Rightarrow> string \<Rightarrow> nat \<Rightarrow> motor_app \<Rightarrow> motor_app outcome" where
  "motor_field msg key i s =
     (case csro_system_parse_level1_json_string msg 50 key of
        Done None \<Rightarrow> Done s
      | Done (Some c) \<Rightarrow>
          Done (if c = ''up'' then motor_process_command i UP 1 s
                else if c = ''stop'' then motor_process_command i STOP 1 s
                else if c = ''down'' then motor_process_command i DOWN 1 s
                else s)
      | Restarted r \<Rightarrow> Done s
      | Overflow b \<Rightarrow> Overflow b)"

definition csro_motor_handle_self_message ::
  "(message_data \<Rightarrow> string outcome) \<Rightarrow> message_data \<Rightarrow> motor_app \<Rightarrow> motor_app outcome" where
  "csro_motor_handle_self_message get_sub_topic data s =
     (case get_sub_topic data of
        Done sub_topic \<Rightarrow>
          if cstr_eq sub_topic ''motor''
          then and_then (if MOTOR \<ge> 1 then motor_field (c_string (payload_mem data)) ''motor1'' 0 s else Done s)
                 (\<lambda>s. if MOTOR \<ge> 2 then motor_field (c_string (payload_mem data)) ''motor2'' 1 s else Done s)
          else Done s
      | Restarted r \<Rightarrow> Restarted s
      | Overflow b \<Rightarrow> Overflow b)"

text \<open>One motor's share of the timer callback, and the loop over the motors.\<close>

definition motor_tick :: "nat \<Rightarrow> motor_app \<Rightarrow> motor_app" where
  "motor_tick i s =
     (let mtr = motor s ! i
      in if count_down mtr > 0
         then (let s' = s\<lparr>motor := (motor s)[i := mtr\<lparr>count_down := count_down mtr - 1\<rparr>]\<rparr>
               in if count_down mtr - 1 = 0
                  then motor_do_action i (case state_now mtr of TOUP \<Rightarrow> UP | TODOWN \<Rightarrow> DOWN | _ \<Rightarrow> STOP) s'
                  else s')
         else s)"

definition mtr_timer_callback :: "motor_app \<Rightarrow> motor_app" where
  "mtr_timer_callback s = fold motor_tick [0..<MOTOR] s"

definition csro_motor_init :: "motor_app \<Rightarrow> motor_app" where
  "csro_motor_init s = s\<lparr>motor := map (\<lambda>i. (motor s ! i)\<lparr>mtr_index := of_nat i\<rparr>) [0..<MOTOR] @ drop MOTOR (motor s)\<rparr>"

section \<open>One motor\<close>

text \<open>The operations seen from the motor they are about.\<close>

definition one_action :: "motor_state \<Rightarrow> csro_motor \<Rightarrow> csro_motor" where
  "one_action a m =
     m\<lparr>count_down := (case a of STOP \<Rightarrow> 0 | UP \<Rightarrow> 1200 | DOWN \<Rightarrow> 1200 | _ \<Rightarrow> 5), state_now := a\<rparr>"

definition one_command :: "motor_state \<Rightarrow> u8 \<Rightarrow> u32 \<Rightarrow> csro_motor \<Rightarrow> csro_motor" where
  "one_command cmd source t m =
     (if cmd \<in> {UP, DOWN, STOP}
      then (let m' = (case state_now m of
                        STOP \<Rightarrow> one_action cmd m
                      | UP \<Rightarrow> one_action (if cmd = DOWN then TODOWN else cmd) m
                      | DOWN \<Rightarrow> one_action (if cmd = UP then TOUP else cmd) m
                      | TODOWN \<Rightarrow> if cmd = DOWN then m else one_action cmd m
                      | TOUP \<Rightarrow> one_action cmd m)
            in m'\<lparr>command := cmd, command_tim := t, command_source := source\<rparr>)
      else m)"

definition one_tick :: "csro_motor \<Rightarrow> csro_motor" where
  "one_tick m =
     (if count_down m = 0 then m
      else if count_down m = 1 then one_action (case state_now m of TOUP \<Rightarrow> UP | TODOWN \<Rightarrow> DOWN | _ \<Rightarrow> STOP) m
      else m\<lparr>count_down := count_down m - 1\<rparr>)"

definition indexed :: "motor_app \<Rightarrow> bool" where
  "indexed s \<longleftrightarrow> length (motor s) = MOTOR \<and> (\<forall>i < MOTOR. mtr_index (motor s ! i) = of_nat i)"

lemma indexed_guard: "indexed s \<Longrightarrow> i < MOTOR \<Longrightarrow> unat (mtr_index (motor s ! i)) + 1 \<le> MOTOR \<and> i < length (motor s)"
  by (simp add: indexed_def MOTOR_def unat_of_nat)

lemma motor_do_action_one:
  "indexed s \<Longrightarrow> i < MOTOR \<Longrightarrow> motor (motor_do_action i a s) = (motor s)[i := one_action a (motor s ! i)]"
  using indexed_guard [of s i]
  by (cases a) (auto simp: motor_do_action_def one_action_def Let_def MOTOR_MAX_ON_SEC_def not_le)

lemma motor_do_action_time [simp]: "time_now (motor_do_action i a s) = time_now s"
  by (simp add: motor_do_action_def Let_def)

lemma motor_process_command_one:
  assumes "indexed s" "i < MOTOR"
  shows "motor (motor_process_command i cmd source s) = (motor s)[i := one_command cmd source (time_now s) (motor s ! i)]"
proof -
  note guard = indexed_guard [OF assms] and act = motor_do_action_one [OF assms]
  have g: "\<not> MOTOR < unat (mtr_index (motor s ! i)) + 1" using guard by simp
  show ?thesis
    using g guard by (cases "state_now (motor s ! i)"; cases cmd)
      (simp_all add: motor_process_command_def one_command_def Let_def act)
qed

lemma motor_tick_one:
  assumes "indexed s" "i < MOTOR"
  shows "motor (motor_tick i s) = (motor s)[i := one_tick (motor s ! i)]"
proof -
  let ?m = "motor s ! i"
  let ?s = "s\<lparr>motor := (motor s)[i := ?m\<lparr>count_down := count_down ?m - 1\<rparr>]\<rparr>"
  have "indexed ?s" using assms by (auto simp: indexed_def nth_list_update)
  note act = motor_do_action_one [OF this assms(2)] and guard = indexed_guard [OF assms]
  have pos: "0 < count_down ?m \<longleftrightarrow> count_down ?m \<noteq> 0" by (simp add: word_neq_0_conv)
  have one: "count_down ?m - 1 = 0 \<longleftrightarrow> count_down ?m = 1" by (simp add: eq_iff_diff_eq_0 [symmetric])
  show ?thesis
    using guard act by (auto simp: motor_tick_def one_tick_def Let_def pos one one_action_def)
qed

lemma one_index [simp]:
  "mtr_index (one_action a m) = mtr_index m" "mtr_index (one_command cmd src t m) = mtr_index m" "mtr_index (one_tick m) = mtr_index m"
  by (simp_all add: one_action_def one_command_def one_tick_def Let_def split: motor_state.split)

lemma mtr_timer_callback_one:
  assumes "indexed s"
  shows "motor (mtr_timer_callback s) = map one_tick (motor s)"
proof -
  obtain a b where m: "motor s = [a, b]"
    using assms by (auto simp: indexed_def MOTOR_def numeral_2_eq_2 length_Suc_conv)
  have i0: "indexed (motor_tick 0 s)"
    using assms motor_tick_one [OF assms, of 0] by (auto simp: indexed_def MOTOR_def nth_list_update)
  have "motor (motor_tick 1 (motor_tick 0 s)) = [one_tick a, one_tick b]"
    using motor_tick_one [OF i0, of 1] motor_tick_one [OF assms, of 0] m by (simp add: MOTOR_def)
  then show ?thesis by (simp add: mtr_timer_callback_def MOTOR_def m upt_conv_Cons)
qed

section \<open>The state machine\<close>

definition motor_fine :: "csro_motor \<Rightarrow> bool" where
  "motor_fine m \<longleftrightarrow>
     (case state_now m of
        STOP \<Rightarrow> count_down m = 0
      | TOUP \<Rightarrow> 0 < count_down m \<and> count_down m \<le> 5
      | TODOWN \<Rightarrow> 0 < count_down m \<and> count_down m \<le> 5
      | _ \<Rightarrow> 0 < count_down m \<and> count_down m \<le> 1200)"

inductive motor_step :: "motor_app \<Rightarrow> motor_app \<Rightarrow> bool" where
  Command: "i < MOTOR \<Longrightarrow> motor_step s (motor_process_command i cmd source s)"
| Tick: "motor_step s (mtr_timer_callback s)"
| Clock: "motor_step s (s\<lparr>time_now := t\<rparr>)"

inductive_cases motor_stepE: "motor_step s t"

definition motors_ok :: "motor_app \<Rightarrow> bool" where
  "motors_ok s \<longleftrightarrow> indexed s \<and> (\<forall>m \<in> set (motor s). motor_fine m)"

lemma motor_fine_action [simp]: "motor_fine (one_action a m)"
  by (simp add: motor_fine_def one_action_def split: motor_state.split)

lemma motor_fine_command: "motor_fine m \<Longrightarrow> motor_fine (one_command cmd src t m)"
proof -
  have "motor_fine (m\<lparr>command := c, command_tim := t, command_source := z\<rparr>) = motor_fine m" for m c t z
    by (simp add: motor_fine_def split: motor_state.split)
  then show "motor_fine m \<Longrightarrow> motor_fine (one_command cmd src t m)"
    by (simp add: one_command_def Let_def split: motor_state.split)
qed

lemma motor_fine_tick: "motor_fine m \<Longrightarrow> motor_fine (one_tick m)"
proof -
  have "0 < c - 1 \<and> c - 1 \<le> k" if "c \<noteq> 0" "c \<noteq> 1" "c \<le> k" for c k :: u16
    using that by (simp add: word_less_nat_alt word_le_nat_alt unat_sub_if' word_unat_eq_iff)
  then show "motor_fine m \<Longrightarrow> motor_fine (one_tick m)"
    by (cases "state_now m") (auto simp: one_tick_def motor_fine_def one_action_def)
qed

lemma motors_ok_step: "motor_step s t \<Longrightarrow> motors_ok s \<Longrightarrow> motors_ok t"
proof (induction rule: motor_step.induct)
  case (Command i s cmd source)
  then show ?case
    using motor_process_command_one [of s i cmd source] set_update_subset_insert [of "motor s" i]
    by (fastforce simp: motors_ok_def indexed_def nth_list_update motor_fine_command indexed_guard)
next
  case (Tick s)
  then show ?case
    using mtr_timer_callback_one [of s] by (auto simp: motors_ok_def indexed_def motor_fine_tick)
next
  case (Clock s t)
  then show ?case by (simp add: motors_ok_def indexed_def)
qed

lemma motors_ok_steps: "motor_step\<^sup>*\<^sup>* s t \<Longrightarrow> motors_ok s \<Longrightarrow> motors_ok t"
  by (induction rule: rtranclp_induct) (auto intro: motors_ok_step)

text \<open>Memory at power-on.\<close>

definition motor_power_on :: "nvs \<Rightarrow> motor_app" where
  "motor_power_on n =
     app.extend (power_on n)
       \<lparr>motor = replicate MOTOR \<lparr>mtr_index = 0, state_now = STOP, command = STOP, command_tim = 0,
                                 command_source = 0, count_down = 0\<rparr>,
        state_triggers = 0\<rparr>"

lemma motors_ok_init: "motors_ok (csro_motor_init (motor_power_on n))"
  by (auto simp: motors_ok_def indexed_def csro_motor_init_def motor_power_on_def MOTOR_def app.defs
      motor_fine_def upt_conv_Cons less_Suc_eq numeral_2_eq_2)

text \<open>
  After start-up, through any sequence of commands, timer callbacks and clock changes, a
  motor that stands still has no time left on its counter, a motor that waits before
  reversing has at most half a second left and a running motor at most two minutes.
\<close>

theorem motor_invariant:
  assumes "motor_step\<^sup>*\<^sup>* (csro_motor_init (motor_power_on n)) s" "i < MOTOR"
  shows "motor_fine (motor s ! i) \<and> mtr_index (motor s ! i) = of_nat i"
  using motors_ok_steps [OF assms(1) motors_ok_init] assms(2) by (auto simp: motors_ok_def indexed_def)

theorem motor_invariant_witness:
  "motor_fine (motor (mtr_timer_callback (motor_process_command 1 UP 1 (csro_motor_init (motor_power_on Map.empty)))) ! 1)"
proof -
  let ?s = "csro_motor_init (motor_power_on Map.empty)"
  have "motor_step ?s (motor_process_command 1 UP 1 ?s)" by (rule motor_step.Command) (simp add: MOTOR_def)
  then have "motor_step\<^sup>*\<^sup>* ?s (mtr_timer_callback (motor_process_command 1 UP 1 ?s))"
    by (rule converse_rtranclp_into_rtranclp [OF _ r_into_rtranclp]) (rule motor_step.Tick)
  then have "motor_fine (motor (mtr_timer_callback (motor_process_command 1 UP 1 ?s)) ! 1) \<and>
      mtr_index (motor (mtr_timer_callback (motor_process_command 1 UP 1 ?s)) ! 1) = of_nat 1"
    by (rule motor_invariant) (simp add: MOTOR_def)
  then show ?thesis by (rule conjunct1)
qed

section \<open>Stopping\<close>

text \<open>The number of timer callbacks until a motor stops by itself.\<close>

definition remaining :: "csro_motor \<Rightarrow> nat" where
  "remaining m = unat (count_down m) + (if state_now m = TOUP \<or> state_now m = TODOWN then 1200 else 0)"

lemma remaining_tick:
  assumes "motor_fine m"
  shows "remaining (one_tick m) = remaining m - 1"
proof -
  have "unat (count_down m - 1) = unat (count_down m) - 1 \<and> 0 < unat (count_down m)" if "count_down m \<noteq> 0"
    using that by (simp add: unat_sub_if' word_unat_eq_iff)
  then show ?thesis
    using assms by (cases "state_now m") (auto simp: remaining_def one_tick_def one_action_def motor_fine_def)
qed

lemma remaining_le: "motor_fine m \<Longrightarrow> remaining m \<le> 1205"
  by (cases "state_now m") (auto simp: remaining_def motor_fine_def word_le_nat_alt)

lemma remaining_0: "motor_fine m \<Longrightarrow> remaining m = 0 \<longleftrightarrow> state_now m = STOP"
  by (cases "state_now m") (auto simp: remaining_def motor_fine_def word_less_nat_alt)

lemma ticks_one:
  "motors_ok s \<Longrightarrow> motors_ok ((mtr_timer_callback ^^ k) s) \<and>
     map remaining (motor ((mtr_timer_callback ^^ k) s)) = map (\<lambda>m. remaining m - k) (motor s)"
proof (induction k)
  case (Suc k)
  let ?t = "(mtr_timer_callback ^^ k) s"
  have ok: "motors_ok ?t" "map remaining (motor ?t) = map (\<lambda>m. remaining m - k) (motor s)" using Suc by simp_all
  then have "map remaining (motor (mtr_timer_callback ?t)) = map (\<lambda>m. remaining m - 1) (motor ?t)"
    using mtr_timer_callback_one [of ?t] by (auto simp: motors_ok_def remaining_tick)
  also have "\<dots> = map (\<lambda>r. r - 1) (map remaining (motor ?t))" by simp
  also have "\<dots> = map (\<lambda>m. remaining m - Suc k) (motor s)" unfolding ok(2) by simp
  finally show ?case using motors_ok_step [OF motor_step.Tick ok(1)] by simp
qed simp

text \<open>
  C25: without further commands a motor stands still exactly when its remaining time has run
  out, which is at most 1205 timer callbacks, two minutes and half a second, whatever it was
  doing.
\<close>

theorem motor_stops:
  assumes "motors_ok s" "i < MOTOR"
  shows "(state_now (motor ((mtr_timer_callback ^^ k) s) ! i) = STOP \<longleftrightarrow> remaining (motor s ! i) \<le> k) \<and>
    remaining (motor s ! i) \<le> 1205"
proof -
  let ?t = "(mtr_timer_callback ^^ k) s"
  have len: "i < length (motor s)" "i < length (motor ?t)" "\<forall>m \<in> set (motor s). motor_fine m" "\<forall>m \<in> set (motor ?t). motor_fine m"
    using ticks_one [OF assms(1), of k] assms by (auto simp: motors_ok_def indexed_def)
  have "remaining (motor ?t ! i) = map remaining (motor ?t) ! i" using len by simp
  also have "\<dots> = remaining (motor s ! i) - k" using ticks_one [OF assms(1), of k] len by simp
  finally have "remaining (motor ?t ! i) = 0 \<longleftrightarrow> remaining (motor s ! i) \<le> k" by simp
  then show ?thesis using remaining_0 [of "motor ?t ! i"] remaining_le [of "motor s ! i"] len nth_mem by metis
qed

theorem motor_stops_witness:
  "let s = motor_process_command 0 DOWN 1 (csro_motor_init (motor_power_on Map.empty))
   in state_now (motor ((mtr_timer_callback ^^ 1205) s) ! 0) = STOP"
proof -
  let ?s = "motor_process_command 0 DOWN 1 (csro_motor_init (motor_power_on Map.empty))"
  have "motors_ok ?s" by (rule motors_ok_step [OF motor_step.Command motors_ok_init]) (simp add: MOTOR_def)
  then show ?thesis using motor_stops [of ?s 0 1205] by (simp add: MOTOR_def Let_def)
qed

section \<open>Reversing\<close>

text \<open>Timer callbacks and further commands in the new direction.\<close>

datatype drive = Timer | Again u8

fun drive_one :: "motor_state \<Rightarrow> nat \<Rightarrow> drive \<Rightarrow> motor_app \<Rightarrow> motor_app" where
  "drive_one cmd i Timer s = mtr_timer_callback s"
| "drive_one cmd i (Again src) s = motor_process_command i cmd src s"

lemma motors_ok_drive: "motors_ok s \<Longrightarrow> i < MOTOR \<Longrightarrow> motors_ok (drive_one cmd i d s)"
  by (cases d) (auto intro: motors_ok_step motor_step.intros)

lemma waiting_drive:
  assumes "motors_ok s" "i < MOTOR" "state_now (motor s ! i) = TODOWN"
    and "1 < unat (count_down (motor s ! i)) \<or> d \<noteq> Timer"
  shows "state_now (motor (drive_one DOWN i d s) ! i) = TODOWN \<and>
    unat (count_down (motor (drive_one DOWN i d s) ! i)) = unat (count_down (motor s ! i)) - (if d = Timer then 1 else 0)"
proof -
  have ok: "indexed s" "i < length (motor s)" using assms(1,2) by (auto simp: motors_ok_def indexed_def)
  show ?thesis
  proof (cases d)
    case Timer
    then show ?thesis
      using assms(3,4) ok mtr_timer_callback_one [OF ok(1)]
      by (auto simp: one_tick_def unat_sub_if' word_unat_eq_iff)
  next
    case (Again src)
    then show ?thesis
      using assms(3) ok motor_process_command_one [OF ok(1) assms(2), of DOWN src] by (simp add: one_command_def)
  qed
qed

lemma waiting_drives:
  "motors_ok s \<Longrightarrow> i < MOTOR \<Longrightarrow> state_now (motor s ! i) = TODOWN \<Longrightarrow>
   length (filter ((=) Timer) ds) < unat (count_down (motor s ! i)) \<Longrightarrow>
   motors_ok (fold (drive_one DOWN i) ds s) \<and> state_now (motor (fold (drive_one DOWN i) ds s) ! i) = TODOWN \<and>
   unat (count_down (motor (fold (drive_one DOWN i) ds s) ! i)) =
     unat (count_down (motor s ! i)) - length (filter ((=) Timer) ds)"
proof (induction ds arbitrary: s)
  case (Cons d ds)
  have "1 < unat (count_down (motor s ! i)) \<or> d \<noteq> Timer" using Cons.prems(4) by auto
  note step = waiting_drive [OF Cons.prems(1-3) this]
  show ?case
    using Cons.IH [OF motors_ok_drive [OF Cons.prems(1,2)], of DOWN d] step Cons.prems by (auto split: if_splits)
qed simp

text \<open>
  C27: a motor that runs up and is told to run down first waits: through fewer than five timer
  callbacks and any number of further commands to run down it keeps waiting, and the fifth
  callback starts it.
\<close>

theorem reversal_to_down_waits:
  fixes source :: u8
  assumes "motors_ok s" "i < MOTOR" "state_now (motor s ! i) = UP"
  defines "run \<equiv> \<lambda>ds. fold (drive_one DOWN i) ds (motor_process_command i DOWN source s)"
  assumes "length (filter ((=) Timer) ds) = 4"
  shows "state_now (motor (run ds) ! i) = TODOWN \<and> state_now (motor (run (ds @ [Timer])) ! i) = DOWN"
proof -
  let ?s = "motor_process_command i DOWN source s"
  have ok: "indexed s" "i < length (motor s)" using assms(1,2) by (auto simp: motors_ok_def indexed_def)
  have s: "motors_ok ?s" by (rule motors_ok_step [OF motor_step.Command assms(1)]) (rule assms(2))
  have start: "state_now (motor ?s ! i) = TODOWN" "count_down (motor ?s ! i) = 5"
    using motor_process_command_one [OF ok(1) assms(2), of DOWN source] assms(3) ok
    by (simp_all add: one_command_def one_action_def)
  note w = waiting_drives [OF s assms(2) start(1), of ds, unfolded start(2)]
  have w': "motors_ok (run ds)" "state_now (motor (run ds) ! i) = TODOWN" "unat (count_down (motor (run ds) ! i)) = 1"
    using w assms(5) by (simp_all add: run_def)
  moreover have "motor (run (ds @ [Timer])) = map one_tick (motor (run ds))"
    using mtr_timer_callback_one [of "run ds"] w'(1) by (simp add: run_def motors_ok_def)
  moreover have "i < length (motor (run ds))" using w'(1) assms(2) by (simp add: motors_ok_def indexed_def)
  ultimately show ?thesis by (simp add: one_tick_def one_action_def word_unat_eq_iff)
qed

text \<open>
  In the other direction the wait can be skipped: a motor that runs down and is told twice
  to run up reverses at once, without a single timer callback in between.
\<close>

theorem reversal_to_up_skips_wait:
  assumes "motors_ok s" "i < MOTOR" "state_now (motor s ! i) = DOWN"
  shows "state_now (motor (motor_process_command i UP b (motor_process_command i UP a s)) ! i) = UP"
proof -
  let ?s = "motor_process_command i UP a s"
  have "motors_ok ?s" by (rule motors_ok_step [OF motor_step.Command assms(1)]) (rule assms(2))
  then have ok: "indexed s" "i < length (motor s)" "indexed ?s" "i < length (motor ?s)"
    using assms(1,2) by (auto simp: motors_ok_def indexed_def)
  have "state_now (motor ?s ! i) = TOUP"
    using motor_process_command_one [OF ok(1) assms(2), of UP a] assms(3) ok by (simp add: one_command_def one_action_def)
  then show ?thesis
    using motor_process_command_one [OF ok(3) assms(2), of UP b] ok by (simp add: one_command_def one_action_def)
qed

text \<open>A motor set running from standstill.\<close>

definition running_motor :: "motor_state \<Rightarrow> motor_app" where
  "running_motor d = motor_process_command 0 d 1 (csro_motor_init (motor_power_on Map.empty))"

lemma running_motor_ok: "motors_ok (running_motor d)"
  unfolding running_motor_def by (rule motors_ok_step [OF motor_step.Command motors_ok_init]) (simp add: MOTOR_def)

lemma running_motor_state: "d = UP \<or> d = DOWN \<Longrightarrow> state_now (motor (running_motor d) ! 0) = d"
proof -
  have ok: "indexed (csro_motor_init (motor_power_on Map.empty))" using motors_ok_init by (simp add: motors_ok_def)
  have stopped: "state_now (motor (csro_motor_init (motor_power_on Map.empty)) ! 0) = STOP"
    by (simp add: csro_motor_init_def motor_power_on_def app.defs MOTOR_def upt_conv_Cons)
  assume "d = UP \<or> d = DOWN"
  then show ?thesis
    using motor_process_command_one [OF ok, of 0 d 1] stopped ok
    by (auto simp: running_motor_def one_command_def one_action_def MOTOR_def indexed_def)
qed

theorem reversal_to_down_waits_witness:
  "let run = (\<lambda>ds. fold (drive_one DOWN 0) ds (motor_process_command 0 DOWN 1 (running_motor UP)));
       ds = [Timer, Again 1, Timer, Timer, Timer]
   in state_now (motor (run ds) ! 0) = TODOWN \<and> state_now (motor (run (ds @ [Timer])) ! 0) = DOWN"
  unfolding Let_def
  by (rule reversal_to_down_waits [OF running_motor_ok]) (simp_all add: MOTOR_def running_motor_state)

theorem reversal_to_up_skips_wait_witness:
  "state_now (motor (motor_process_command 0 UP 1 (motor_process_command 0 UP 1 (running_motor DOWN))) ! 0) = UP"
  by (rule reversal_to_up_skips_wait [OF running_motor_ok]) (simp_all add: MOTOR_def running_motor_state)

end
