(* ===== verification/Csro_Airsys.thy ===== *)
theory Csro_Airsys
  imports App_State
begin

text \<open>
  \<open>csro_airsys.c\<close>, the air conditioning variant of the firmware (built with \<open>AIR_SYSTEM\<close> defined):
  an image of the coils and registers of a Modbus slave, with a flag for every value that has
  still to be written. One task writes the flagged values of three addresses, another one
  reads all values back. Each exchange on the bus is answered by a list of receive events;
  the arrays \<open>temp_coil\<close> and \<open>temp_holding\<close> are not initialised, so their contents are arguments.
  As in the motor variant the trigger and the topic function are missing from the
  repository: calls of the first are counted, the second is an argument.
\<close>

section \<open>State\<close>

record air_sys_register =
  coil :: "u8 list"
  coil_flag :: "bool list"
  holding :: "u16 list"
  holding_flag :: "bool list"

record airsys =
  airsys_reg :: air_sys_register
  write_semaphore :: bool
  master_mutex :: bool
  Master :: Modbus_Master
  air_triggers :: nat
  air_tasks :: "string list"

section \<open>Operations\<close>

definition modify_coil_reg :: "u8 \<Rightarrow> u8 \<Rightarrow> airsys \<Rightarrow> airsys outcome" where
  "modify_coil_reg index v s =
     (if v = 1 \<or> v = 0
      then (if unat index \<ge> 100 then Overflow ''airsys_reg.coil''
            else let r = airsys_reg s
                 in Done (s\<lparr>airsys_reg := r\<lparr>coil := (coil r)[unat index := v],
                                            coil_flag := (coil_flag r)[unat index := True]\<rparr>,
                            write_semaphore := True\<rparr>))
      else Done s)"

definition modify_holding_reg :: "u8 \<Rightarrow> u8 \<Rightarrow> airsys \<Rightarrow> airsys outcome" where
  "modify_holding_reg index v s =
     (if unat index \<ge> 100 then Overflow ''airsys_reg.holding''
      else let r = airsys_reg s
           in Done (s\<lparr>airsys_reg := r\<lparr>holding := (holding r)[unat index := ucast v],
                                      holding_flag := (holding_flag r)[unat index := True]\<rparr>,
                      write_semaphore := True\<rparr>))"

text \<open>The mode topic: the word the handler prints for a payload, which is all it does.\<close>

definition mode_word :: "string \<Rightarrow> string option" where
  "mode_word payload =
     (if cstr_eq payload [CHR 0xE5, CHR 0x88, CHR 0xB6, CHR 0xE7, CHR 0x83, CHR 0xAD] then Some ''hot''
      else if cstr_eq payload [CHR 0xE5, CHR 0x88, CHR 0xB6, CHR 0xE5, CHR 0x86, CHR 0xB7] then Some ''cold''
      else if cstr_eq payload [CHR 0xE9, CHR 0x99, CHR 0xA4, CHR 0xE6, CHR 0xB9, CHR 0xBF] then Some ''humi''
      else if cstr_eq payload [CHR 0xE4, CHR 0xBB, CHR 0x85, CHR 0xE9, CHR 0x80, CHR 0x9A, CHR 0xE9, CHR 0xA3, CHR 0x8E]
      then Some ''fan''
      else if cstr_eq payload [CHR 0xE5, CHR 0x85, CHR 0xB3, CHR 0xE6, CHR 0x9C, CHR 0xBA] then Some ''off''
      else None)"

definition csro_air_system_handle_self_message ::
  "(message_data \<Rightarrow> string outcome) \<Rightarrow> string \<Rightarrow> message_data \<Rightarrow> string option outcome" where
  "csro_air_system_handle_self_message get_sub_topic payload0 data =
     (case strncpy (payload_mem data) (payloadlen data) payload0 of
        None \<Rightarrow> Overflow ''payload''
      | Some payload \<Rightarrow>
          (case get_sub_topic data of
             Done sub_topic \<Rightarrow> Done (if cstr_eq sub_topic ''mode'' then mode_word payload else None)
           | Restarted r \<Rightarrow> Restarted None
           | Overflow b \<Rightarrow> Overflow b))"

text \<open>The state after a request whose return value the caller ignores.\<close>

fun with_master :: "(bool \<times> 'r \<times> Modbus_Master) outcome \<Rightarrow> airsys \<Rightarrow> ('r \<Rightarrow> airsys \<Rightarrow> airsys) \<Rightarrow> airsys outcome" where
  "with_master (Done (ok, r, m)) s f = Done (f r (s\<lparr>Master := m\<rparr>))"
| "with_master (Restarted (ok, r, m)) s f = Restarted (s\<lparr>Master := m\<rparr>)"
| "with_master (Overflow b) s f = Overflow b"

definition write_coil_with_flag_and_range_check :: "uart_event list \<Rightarrow> nat \<Rightarrow> airsys \<Rightarrow> airsys outcome" where
  "write_coil_with_flag_and_range_check evs index s =
     (let r = airsys_reg s;
          clear = (\<lambda>_ s. s\<lparr>airsys_reg := (airsys_reg s)\<lparr>coil_flag := (coil_flag (airsys_reg s))[index := False]\<rparr>\<rparr>)
      in if \<not> coil_flag r ! index then Done s
         else if coil r ! index = 1 \<or> coil r ! index = 0
         then with_master (modbus_master_write_single_coil (master_send_receive evs) 1 (of_nat index) (coil r ! index) (Master s)) s clear
         else Done (clear () s))"

definition write_holding_with_flag_and_range_check ::
  "uart_event list \<Rightarrow> nat \<Rightarrow> u16 \<Rightarrow> u16 \<Rightarrow> airsys \<Rightarrow> airsys outcome" where
  "write_holding_with_flag_and_range_check evs index lo hi s =
     (let r = airsys_reg s;
          clear = (\<lambda>_ s. s\<lparr>airsys_reg := (airsys_reg s)\<lparr>holding_flag := (holding_flag (airsys_reg s))[index := False]\<rparr>\<rparr>)
      in if \<not> holding_flag r ! index then Done s
         else if holding r ! index \<ge> lo \<and> holding r ! index \<le> hi
         then with_master (modbus_master_Write_single_holding_reg (master_send_receive evs) 1 (of_nat index) (holding r ! index) (Master s)) s clear
         else Done (clear () s))"

text \<open>One round of the writing task; it waits while the semaphore or the mutex is not free.\<close>

definition modbus_master_write_task_round ::
  "uart_event list \<Rightarrow> uart_event list \<Rightarrow> uart_event list \<Rightarrow> airsys \<Rightarrow> airsys outcome" where
  "modbus_master_write_task_round evs1 evs2 evs3 s =
     (if \<not> write_semaphore s \<or> \<not> master_mutex s then Done s
      else run_steps
             [\<lambda>s. Done (s\<lparr>write_semaphore := False, master_mutex := False\<rparr>),
              write_coil_with_flag_and_range_check evs1 40,
              write_coil_with_flag_and_range_check evs2 41,
              write_holding_with_flag_and_range_check evs3 21 1 2,
              \<lambda>s. Done (s\<lparr>master_mutex := True, air_triggers := air_triggers s + 1\<rparr>)] s)"

fun copy_unflagged :: "nat \<Rightarrow> nat \<Rightarrow> bool list \<Rightarrow> 'a list \<Rightarrow> 'a list \<Rightarrow> 'a list" where
  "copy_unflagged i 0 flags src dst = dst"
| "copy_unflagged i (Suc n) flags src dst =
     copy_unflagged (Suc i) n flags src (if \<not> flags ! i then dst[i := src ! i] else dst)"

definition read_coils_part :: "uart_event list \<Rightarrow> u8 list \<Rightarrow> airsys \<Rightarrow> airsys outcome" where
  "read_coils_part evs temp_coil s =
     with_master (modbus_master_read_coils (master_send_receive evs) 1 1 79 (tl temp_coil) (Master s)) s
       (\<lambda>res s. s\<lparr>airsys_reg := (airsys_reg s)\<lparr>coil :=
          copy_unflagged 1 79 (coil_flag (airsys_reg s)) (hd temp_coil # res) (coil (airsys_reg s))\<rparr>\<rparr>)"

definition read_holding_part :: "uart_event list \<Rightarrow> u16 list \<Rightarrow> airsys \<Rightarrow> airsys outcome" where
  "read_holding_part evs temp_holding s =
     with_master (modbus_master_read_holding_regs (master_send_receive evs) 1 1 42 (tl temp_holding) (Master s)) s
       (\<lambda>res s. s\<lparr>airsys_reg := (airsys_reg s)\<lparr>holding :=
          copy_unflagged 1 42 (holding_flag (airsys_reg s)) (hd temp_holding # res) (holding (airsys_reg s))\<rparr>\<rparr>)"

definition modbus_master_read_task_round ::
  "uart_event list \<Rightarrow> uart_event list \<Rightarrow> u8 list \<Rightarrow> u16 list \<Rightarrow> airsys \<Rightarrow> airsys outcome" where
  "modbus_master_read_task_round evs1 evs2 temp_coil temp_holding s =
     (if \<not> master_mutex s then Done s
      else and_then (read_coils_part evs1 temp_coil s) (read_holding_part evs2 temp_holding))"

definition csro_air_system_init :: "airsys \<Rightarrow> airsys" where
  "csro_air_system_init s =
     s\<lparr>master_mutex := True, write_semaphore := False,
       Master := modbus_master_init (Master s),
       air_tasks := air_tasks s @ [''uart0_event_task'', ''modbus_master_read_task'', ''modbus_master_write_task'']\<rparr>"

section \<open>Copying the image\<close>

lemma length_copy_unflagged [simp]: "length (copy_unflagged i n fl src dst) = length dst"
  by (induction n arbitrary: i dst) simp_all

lemma copy_unflagged_nth:
  "i + n \<le> length dst \<Longrightarrow> j < length dst \<Longrightarrow>
   copy_unflagged i n fl src dst ! j = (if i \<le> j \<and> j < i + n \<and> \<not> fl ! j then src ! j else dst ! j)"
proof (induction n arbitrary: i dst)
  case (Suc n)
  then show ?case by (auto simp: nth_list_update not_less_eq_eq)
qed auto

definition regs_ok :: "airsys \<Rightarrow> bool" where
  "regs_ok s \<longleftrightarrow> length (coil (airsys_reg s)) = 100 \<and> length (coil_flag (airsys_reg s)) = 100 \<and>
     length (holding (airsys_reg s)) = 100 \<and> length (holding_flag (airsys_reg s)) = 100 \<and>
     length (tx_buf (Master s)) = 512 \<and> length (rx_buf (Master s)) = 512"

text \<open>The frames of a conforming slave that holds the given coils and registers from address 1 on.\<close>

definition coils_reply :: "u8 list \<Rightarrow> uart_event list" where
  "coils_reply vals = reply_events (rtu_frame ([1, FUNC_READ_COILS, 10] @ coil_bytes vals))"

definition holdings_reply :: "u16 list \<Rightarrow> uart_event list" where
  "holdings_reply vals = reply_events (rtu_frame ([1, FUNC_READ_HOLDING_REGISTER, 84] @ reg_bytes vals))"

lemma read_coils_part_reply:
  assumes "regs_ok s" "length cs = 79" "set cs \<subseteq> {0, 1}" "length temp = 100"
  shows "\<exists>m'. read_coils_part (coils_reply cs) temp s =
      Done (s\<lparr>Master := m', airsys_reg := (airsys_reg s)\<lparr>coil :=
        copy_unflagged 1 79 (coil_flag (airsys_reg s)) (hd temp # cs @ drop 79 (tl temp)) (coil (airsys_reg s))\<rparr>\<rparr>) \<and>
    wf_master m'"
  using read_coils_reply [of "Master s" cs 79 "tl temp" 1 1] assms
  by (auto simp: regs_ok_def read_coils_part_def coils_reply_def)

lemma read_holding_part_reply:
  assumes "regs_ok s" "length hs = 42" "length temp = 100"
  shows "\<exists>m'. read_holding_part (holdings_reply hs) temp s =
      Done (s\<lparr>Master := m', airsys_reg := (airsys_reg s)\<lparr>holding :=
        copy_unflagged 1 42 (holding_flag (airsys_reg s)) (hd temp # hs @ drop 42 (tl temp)) (holding (airsys_reg s))\<rparr>\<rparr>) \<and>
    wf_master m'"
  using read_holding_regs_reply [of "Master s" hs 42 "tl temp" 1 1] assms
  by (auto simp: regs_ok_def read_holding_part_def holdings_reply_def)


section \<open>Failed exchanges\<close>

lemma tx_put_bufs: "tx_put b m = Done m' \<Longrightarrow> length (tx_buf m') = length (tx_buf m) \<and> rx_buf m' = rx_buf m"
  by (auto simp: tx_put_def split: if_splits)

lemma uart_events_bufs: "length (rx_buf (fold uart_event_step evs m)) = length (rx_buf m) \<and> tx_buf (fold uart_event_step evs m) = tx_buf m"
proof (induction evs arbitrary: m)
  case (Cons e evs)
  then show ?case by (cases e) (simp_all add: uart0_receive_one_byte_def uart0_receive_complete_def)
qed simp

lemma exchange_bufs:
  "master_send_receive evs m = Done (b, m') \<Longrightarrow>
   length (tx_buf m') = length (tx_buf m) \<and> length (rx_buf m') = length (rx_buf m)"
proof -
  assume "master_send_receive evs m = Done (b, m')"
  then obtain m1 m2 where "tx_put (ucast (modbus_crc16 (tx_buf m) (ucast (tx_len m)) AND 0xFF)) m = Done m1"
    "tx_put (ucast (drop_bit 8 (modbus_crc16 (tx_buf m) (ucast (tx_len m))))) m1 = Done m2"
    "m' = snd (await_reply evs (start_exchange m2))"
    unfolding master_send_receive_def append_crc_def Let_def
    by (cases "tx_put (ucast (modbus_crc16 (tx_buf m) (ucast (tx_len m)) AND 0xFF)) m"; simp)
      (metis deliver.elims outcome.distinct(1,3) outcome.inject(1) snd_conv)
  then show ?thesis
    using uart_events_bufs [of evs "start_exchange m2"]
    by (auto simp: await_reply_def Let_def start_exchange_def dest!: tx_put_bufs)
qed

text \<open>A request that consists of the six bytes of \<open>put_header\<close>, whatever the bus answers.\<close>

lemma header_exchange_any:
  assumes "length (tx_buf m) = 512" "length (rx_buf m) = 512"
  obtains m2 m' where "put_header a v m = Done m2" "master_send_receive evs m2 = Done (Rx_complete \<in> set evs, m')"
    "uart1_sent m' = uart1_sent m @ [rtu_frame [slave_id m, func_code m, hi8 a, lo8 a, hi8 v, lo8 v]]"
    "length (tx_buf m') = 512" "length (rx_buf m') = 512"
proof -
  let ?req = "[slave_id m, func_code m, hi8 a, lo8 a, hi8 v, lo8 v]"
  define m2 where "m2 = tx_append ?req (m\<lparr>tx_len := 0\<rparr>)"
  have hdr: "put_header a v m = Done m2" using assms by (simp add: put_header_eq m2_def)
  have m2: "tx_bytes m2 = ?req" "length (tx_buf m2) = 512" "unat (tx_len m2) \<le> 255" "length (rx_buf m2) = 512"
    "uart1_sent m2 = uart1_sent m"
    using assms tx_append_bytes [of "m\<lparr>tx_len := 0\<rparr>" ?req] by (simp_all add: m2_def tx_bytes_def)
  obtain m' where "master_send_receive evs m2 = Done (Rx_complete \<in> set evs, m')"
    "uart1_sent m' = uart1_sent m2 @ [rtu_frame (tx_bytes m2)]"
    using exchange_sent [OF m2(2,3), of evs] by blast
  then show thesis using that hdr m2 exchange_bufs [of evs m2] by metis
qed

lemma write_request_any:
  assumes "length (tx_buf m) = 512" "length (rx_buf m) = 512"
  obtains ok m' where "request_tail (master_send_receive evs) check (\<lambda>_. Done ()) () (put_header a v m) = Done (ok, (), m')"
    "uart1_sent m' = uart1_sent m @ [rtu_frame [slave_id m, func_code m, hi8 a, lo8 a, hi8 v, lo8 v]]"
    "length (tx_buf m') = 512" "length (rx_buf m') = 512"
proof -
  obtain m2 m' where m': "put_header a v m = Done m2" "master_send_receive evs m2 = Done (Rx_complete \<in> set evs, m')"
    "uart1_sent m' = uart1_sent m @ [rtu_frame [slave_id m, func_code m, hi8 a, lo8 a, hi8 v, lo8 v]]"
    "length (tx_buf m') = 512" "length (rx_buf m') = 512"
    using header_exchange_any [OF assms] by metis
  obtain ok where "request_tail (master_send_receive evs) check (\<lambda>_. Done ()) () (Done m2) = Done (ok, (), m')"
    using request_tail_const [of "master_send_receive evs" m2 "Rx_complete \<in> set evs" m' check "()"] m'(2) by auto
  then show thesis using that m' by metis
qed

lemma silent_reads:
  assumes "length (tx_buf m) = 512" "length (rx_buf m) = 512" "Rx_complete \<notin> set evs"
  shows "\<exists>m'. modbus_master_read_coils (master_send_receive evs) i start qty res m = Done (False, res, m') \<and>
      length (tx_buf m') = 512 \<and> length (rx_buf m') = 512"
    and "\<exists>m'. modbus_master_read_holding_regs (master_send_receive evs) i start qty regs m = Done (False, regs, m') \<and>
      length (tx_buf m') = 512 \<and> length (rx_buf m') = 512"
proof -
  let ?m = "\<lambda>f. m\<lparr>slave_id := i, func_code := f, read_addr := ucast start, read_qty := ucast qty\<rparr>"
  have bufs: "length (tx_buf (?m f)) = 512" "length (rx_buf (?m f)) = 512" for f using assms by simp_all
  show "\<exists>m'. modbus_master_read_coils (master_send_receive evs) i start qty res m = Done (False, res, m') \<and>
      length (tx_buf m') = 512 \<and> length (rx_buf m') = 512"
    by (rule header_exchange_any [OF bufs [of FUNC_READ_COILS], of "ucast start" "ucast qty" evs])
      (use assms(3) in \<open>simp add: modbus_master_read_coils_def Let_def\<close>)
  show "\<exists>m'. modbus_master_read_holding_regs (master_send_receive evs) i start qty regs m = Done (False, regs, m') \<and>
      length (tx_buf m') = 512 \<and> length (rx_buf m') = 512"
    by (rule header_exchange_any [OF bufs [of FUNC_READ_HOLDING_REGISTER], of "ucast start" "ucast qty" evs])
      (use assms(3) in \<open>simp add: modbus_master_read_holding_regs_def Let_def\<close>)
qed

text \<open>
  When the slave does not answer, a round of the reading task overwrites every coil and
  register that is not waiting to be written with whatever the uninitialised arrays on the
  stack contain.
\<close>

theorem failed_read_copies_stack:
  assumes "regs_ok s" "master_mutex s" "Rx_complete \<notin> set evs1" "Rx_complete \<notin> set evs2"
    and "length temp_coil = 100" "length temp_holding = 100"
  shows "\<exists>s'. modbus_master_read_task_round evs1 evs2 temp_coil temp_holding s = Done s' \<and>
    (\<forall>j < 100. coil (airsys_reg s') ! j =
       (if 1 \<le> j \<and> j < 80 \<and> \<not> coil_flag (airsys_reg s) ! j then temp_coil ! j else coil (airsys_reg s) ! j)) \<and>
    (\<forall>j < 100. holding (airsys_reg s') ! j =
       (if 1 \<le> j \<and> j < 43 \<and> \<not> holding_flag (airsys_reg s) ! j then temp_holding ! j else holding (airsys_reg s) ! j))"
proof -
  have temp: "hd temp_coil # tl temp_coil = temp_coil" "hd temp_holding # tl temp_holding = temp_holding"
    using assms(5,6) by (cases temp_coil; simp; cases temp_holding; simp)+
  obtain m1 where m1: "modbus_master_read_coils (master_send_receive evs1) 1 1 79 (tl temp_coil) (Master s) = Done (False, tl temp_coil, m1)"
    "length (tx_buf m1) = 512" "length (rx_buf m1) = 512"
    using silent_reads(1) [of "Master s" evs1] assms(1,3) unfolding regs_ok_def by blast
  obtain m2 where m2: "modbus_master_read_holding_regs (master_send_receive evs2) 1 1 42 (tl temp_holding) m1 = Done (False, tl temp_holding, m2)"
    using silent_reads(2) [OF m1(2,3) assms(4)] by blast
  show ?thesis
    using assms m1(1) m2 temp
    by (auto simp: modbus_master_read_task_round_def read_coils_part_def read_holding_part_def regs_ok_def copy_unflagged_nth)
qed

section \<open>Writing\<close>

definition coil_frames :: "nat \<Rightarrow> air_sys_register \<Rightarrow> u8 list list" where
  "coil_frames i r =
     (if coil_flag r ! i \<and> coil r ! i \<in> {0, 1}
      then [rtu_frame [1, FUNC_WRITE_SINGLE_COIL, 0, of_nat i, if coil r ! i = 1 then 0xFF else 0, 0]] else [])"

definition holding_frames :: "nat \<Rightarrow> u16 \<Rightarrow> u16 \<Rightarrow> air_sys_register \<Rightarrow> u8 list list" where
  "holding_frames i lo hi r =
     (if holding_flag r ! i \<and> lo \<le> holding r ! i \<and> holding r ! i \<le> hi
      then [rtu_frame [1, FUNC_WRITE_REGISTER, 0, of_nat i, hi8 (holding r ! i), lo8 (holding r ! i)]] else [])"

lemma single_writes_any:
  assumes "length (tx_buf m) = 512" "length (rx_buf m) = 512"
  shows "\<exists>ok m'. modbus_master_write_single_coil (master_send_receive evs) 1 address v m = Done (ok, (), m') \<and>
      uart1_sent m' = uart1_sent m @ [rtu_frame [1, FUNC_WRITE_SINGLE_COIL, 0, address, if v = 1 then 0xFF else 0, 0]] \<and>
      length (tx_buf m') = 512 \<and> length (rx_buf m') = 512"
    and "\<exists>ok m'. modbus_master_Write_single_holding_reg (master_send_receive evs) 1 address w m = Done (ok, (), m') \<and>
      uart1_sent m' = uart1_sent m @ [rtu_frame [1, FUNC_WRITE_REGISTER, 0, address, hi8 w, lo8 w]] \<and>
      length (tx_buf m') = 512 \<and> length (rx_buf m') = 512"
proof -
  let ?m = "\<lambda>f. m\<lparr>slave_id := 1, func_code := f, write_addr := ucast address\<rparr>"
  have bufs: "length (tx_buf (?m f)) = 512" "length (rx_buf (?m f)) = 512" for f using assms by simp_all
  have w: "hi8 (coil_word v) = (if v = 1 then 0xFF else 0)" "lo8 (coil_word v) = 0"
    by (simp_all add: coil_word_def hi8_def lo8_def)
  show "\<exists>ok m'. modbus_master_write_single_coil (master_send_receive evs) 1 address v m = Done (ok, (), m') \<and>
      uart1_sent m' = uart1_sent m @ [rtu_frame [1, FUNC_WRITE_SINGLE_COIL, 0, address, if v = 1 then 0xFF else 0, 0]] \<and>
      length (tx_buf m') = 512 \<and> length (rx_buf m') = 512"
    by (rule write_request_any [OF bufs [of FUNC_WRITE_SINGLE_COIL], of evs
          "\<lambda>m'. echo_check (write_addr m') (coil_word v) m'" "ucast address" "coil_word v"])
      (simp add: modbus_master_write_single_coil_def Let_def w del: request_tail.simps)
  show "\<exists>ok m'. modbus_master_Write_single_holding_reg (master_send_receive evs) 1 address w m = Done (ok, (), m') \<and>
      uart1_sent m' = uart1_sent m @ [rtu_frame [1, FUNC_WRITE_REGISTER, 0, address, hi8 w, lo8 w]] \<and>
      length (tx_buf m') = 512 \<and> length (rx_buf m') = 512"
    by (rule write_request_any [OF bufs [of FUNC_WRITE_REGISTER], of evs
          "\<lambda>m'. echo_check (write_addr m') w m'" "ucast address" w])
      (simp add: modbus_master_Write_single_holding_reg_def Let_def del: request_tail.simps)
qed

lemma list_update_same: "i < length xs \<Longrightarrow> \<not> xs ! i \<Longrightarrow> xs[i := False] = xs"
  by (metis list_update_id)

lemma write_coil_part:
  assumes "regs_ok s" "i < 100"
  shows "\<exists>m'. write_coil_with_flag_and_range_check evs i s =
      Done (s\<lparr>Master := m', airsys_reg := (airsys_reg s)\<lparr>coil_flag := (coil_flag (airsys_reg s))[i := False]\<rparr>\<rparr>) \<and>
    uart1_sent m' = uart1_sent (Master s) @ coil_frames i (airsys_reg s) \<and>
    length (tx_buf m') = 512 \<and> length (rx_buf m') = 512"
proof -
  have bufs: "length (tx_buf (Master s)) = 512" "length (rx_buf (Master s)) = 512" "i < length (coil_flag (airsys_reg s))"
    using assms by (simp_all add: regs_ok_def)
  show ?thesis
  proof (cases "coil_flag (airsys_reg s) ! i \<and> coil (airsys_reg s) ! i \<in> {0, 1}")
    case True
    then show ?thesis
      using single_writes_any(1) [OF bufs(1,2), of evs "of_nat i" "coil (airsys_reg s) ! i"]
      by (fastforce simp: write_coil_with_flag_and_range_check_def Let_def coil_frames_def)
  next
    case False
    then show ?thesis
      using bufs by (auto simp: write_coil_with_flag_and_range_check_def Let_def coil_frames_def list_update_same
          intro!: exI [of _ "Master s"])
  qed
qed

lemma write_holding_part:
  assumes "regs_ok s" "i < 100"
  shows "\<exists>m'. write_holding_with_flag_and_range_check evs i lo hi s =
      Done (s\<lparr>Master := m', airsys_reg := (airsys_reg s)\<lparr>holding_flag := (holding_flag (airsys_reg s))[i := False]\<rparr>\<rparr>) \<and>
    uart1_sent m' = uart1_sent (Master s) @ holding_frames i lo hi (airsys_reg s) \<and>
    length (tx_buf m') = 512 \<and> length (rx_buf m') = 512"
proof -
  have bufs: "length (tx_buf (Master s)) = 512" "length (rx_buf (Master s)) = 512" "i < length (holding_flag (airsys_reg s))"
    using assms by (simp_all add: regs_ok_def)
  show ?thesis
  proof (cases "holding_flag (airsys_reg s) ! i \<and> lo \<le> holding (airsys_reg s) ! i \<and> holding (airsys_reg s) ! i \<le> hi")
    case True
    then show ?thesis
      using single_writes_any(2) [OF bufs(1,2), of evs "of_nat i" "holding (airsys_reg s) ! i"]
      by (fastforce simp: write_holding_with_flag_and_range_check_def Let_def holding_frames_def)
  next
    case False
    then show ?thesis
      using bufs by (auto simp: write_holding_with_flag_and_range_check_def Let_def holding_frames_def list_update_same
          intro!: exI [of _ "Master s"])
  qed
qed

text \<open>
  A round of the writing task sends one frame for each of the coils 40 and 41 that is flagged
  and 0 or 1, and for register 21 if it is flagged and 1 or 2, in this order, and clears the
  three flags whether or not the slave acknowledged the writes.
\<close>

theorem write_task_sends_flagged:
  assumes "regs_ok s" "write_semaphore s" "master_mutex s"
  shows "\<exists>s'. modbus_master_write_task_round evs1 evs2 evs3 s = Done s' \<and> regs_ok s' \<and>
    uart1_sent (Master s') = uart1_sent (Master s) @
      coil_frames 40 (airsys_reg s) @ coil_frames 41 (airsys_reg s) @ holding_frames 21 1 2 (airsys_reg s) \<and>
    airsys_reg s' = (airsys_reg s)\<lparr>coil_flag := (coil_flag (airsys_reg s))[40 := False, 41 := False],
      holding_flag := (holding_flag (airsys_reg s))[21 := False]\<rparr> \<and>
    \<not> write_semaphore s' \<and> master_mutex s'"
proof -
  let ?s0 = "s\<lparr>write_semaphore := False, master_mutex := False\<rparr>"
  have ok0: "regs_ok ?s0" using assms(1) by (simp add: regs_ok_def)
  from write_coil_part [OF ok0, of 40 evs1] obtain m1 where
    m1: "write_coil_with_flag_and_range_check evs1 40 ?s0 =
      Done (?s0\<lparr>Master := m1, airsys_reg := (airsys_reg s)\<lparr>coil_flag := (coil_flag (airsys_reg s))[40 := False]\<rparr>\<rparr>)"
    "uart1_sent m1 = uart1_sent (Master s) @ coil_frames 40 (airsys_reg s)" "length (tx_buf m1) = 512" "length (rx_buf m1) = 512"
    by auto
  let ?s1 = "?s0\<lparr>Master := m1, airsys_reg := (airsys_reg s)\<lparr>coil_flag := (coil_flag (airsys_reg s))[40 := False]\<rparr>\<rparr>"
  have ok1: "regs_ok ?s1" using assms(1) m1 by (simp add: regs_ok_def)
  from write_coil_part [OF ok1, of 41 evs2] obtain m2 where
    m2: "write_coil_with_flag_and_range_check evs2 41 ?s1 =
      Done (?s1\<lparr>Master := m2, airsys_reg := (airsys_reg s)\<lparr>coil_flag := (coil_flag (airsys_reg s))[40 := False, 41 := False]\<rparr>\<rparr>)"
    "uart1_sent m2 = uart1_sent m1 @ coil_frames 41 (airsys_reg s)" "length (tx_buf m2) = 512" "length (rx_buf m2) = 512"
    by (auto simp: coil_frames_def)
  let ?s2 = "?s1\<lparr>Master := m2, airsys_reg := (airsys_reg s)\<lparr>coil_flag := (coil_flag (airsys_reg s))[40 := False, 41 := False]\<rparr>\<rparr>"
  have ok2: "regs_ok ?s2" using assms(1) m2 by (simp add: regs_ok_def)
  from write_holding_part [OF ok2, of 21 evs3 1 2] obtain m3 where
    m3: "write_holding_with_flag_and_range_check evs3 21 1 2 ?s2 =
      Done (?s2\<lparr>Master := m3, airsys_reg := (airsys_reg ?s2)\<lparr>holding_flag := (holding_flag (airsys_reg s))[21 := False]\<rparr>\<rparr>)"
    "uart1_sent m3 = uart1_sent m2 @ holding_frames 21 1 2 (airsys_reg s)" "length (tx_buf m3) = 512" "length (rx_buf m3) = 512"
    by (auto simp: holding_frames_def)
  show ?thesis
    using assms m1 m2 m3 by (simp add: modbus_master_write_task_round_def regs_ok_def)
qed

section \<open>Witnesses\<close>

definition new_airsys :: airsys where
  "new_airsys = csro_air_system_init
     \<lparr>airsys_reg = \<lparr>coil = replicate 100 0, coil_flag = replicate 100 False, holding = replicate 100 0,
                     holding_flag = replicate 100 False\<rparr>,
      write_semaphore = False, master_mutex = False, Master = idle_master, air_triggers = 0, air_tasks = []\<rparr>"

lemma new_airsys_ok: "regs_ok new_airsys" "master_mutex new_airsys"
  by (simp_all add: new_airsys_def csro_air_system_init_def modbus_master_init_def regs_ok_def)


theorem failed_read_copies_stack_witness:
  "\<exists>s'. modbus_master_read_task_round [] [Rx_byte 1] (replicate 100 9) (replicate 100 8) new_airsys = Done s' \<and>
    coil (airsys_reg s') ! 40 = 9"
proof -
  have flags: "\<not> coil_flag (airsys_reg new_airsys) ! 40" by (simp add: new_airsys_def csro_air_system_init_def modbus_master_init_def)
  obtain s' where s': "modbus_master_read_task_round [] [Rx_byte 1] (replicate 100 9) (replicate 100 8) new_airsys = Done s'"
    "\<forall>j < 100. coil (airsys_reg s') ! j = (if 1 \<le> j \<and> j < 80 \<and> \<not> coil_flag (airsys_reg new_airsys) ! j
       then replicate 100 9 ! j else coil (airsys_reg new_airsys) ! j)"
    using failed_read_copies_stack [OF new_airsys_ok, of "[]" "[Rx_byte 1]" "replicate 100 9" "replicate 100 8"] by auto
  show ?thesis using s'(1) s'(2) [rule_format, of 40] flags by simp
qed

theorem write_task_sends_flagged_witness:
  "\<exists>s s'. modify_coil_reg 40 1 new_airsys = Done s \<and> modbus_master_write_task_round [] [] [] s = Done s' \<and>
    uart1_sent (Master s') = [rtu_frame [1, FUNC_WRITE_SINGLE_COIL, 0, 40, 0xFF, 0]] \<and>
    \<not> coil_flag (airsys_reg s') ! 40"
proof -
  let ?s = "new_airsys\<lparr>airsys_reg := (airsys_reg new_airsys)\<lparr>coil := (coil (airsys_reg new_airsys))[40 := 1],
    coil_flag := (coil_flag (airsys_reg new_airsys))[40 := True]\<rparr>, write_semaphore := True\<rparr>"
  have mod: "modify_coil_reg 40 1 new_airsys = Done ?s" by (simp add: modify_coil_reg_def Let_def)
  have ok: "regs_ok ?s" "write_semaphore ?s" "master_mutex ?s" using new_airsys_ok by (simp_all add: regs_ok_def)
  have due: "coil_frames 40 (airsys_reg ?s) = [rtu_frame [1, FUNC_WRITE_SINGLE_COIL, 0, 40, 0xFF, 0]]"
    "coil_frames 41 (airsys_reg ?s) = []" "holding_frames 21 1 2 (airsys_reg ?s) = []" "uart1_sent (Master ?s) = []"
    by (simp_all add: coil_frames_def holding_frames_def new_airsys_def csro_air_system_init_def modbus_master_init_def)
  have "40 < length (coil_flag (airsys_reg ?s))" using ok(1) by (simp add: regs_ok_def)
  then show ?thesis
    using write_task_sends_flagged [OF ok, of "[]" "[]" "[]"] mod unfolding due by fastforce
qed

end
