(* ===== verification/Mqtt_Packet.thy ===== *)
theory Mqtt_Packet
  imports Prelude "HOL-Library.Monad_Syntax"
begin

text \<open>
  The primitives of the MQTT packet library (\<open>components/mqtt/paho/MQTTPacket/src/MQTTPacket.c\<close>): the
  variable length encoding, reading and writing of characters, integers and strings.

  A pointer into a packet that is read is the memory from there to the end of the buffer,
  and what is left up to \<open>enddata\<close>, which may be negative. A pointer into a packet that is
  written is the position with the whole buffer. An access outside the buffer is \<open>None\<close>.
\<close>

section \<open>Data\<close>

abbreviation (input) CONNECT :: u8 where "CONNECT \<equiv> 1"
abbreviation (input) CONNACK :: u8 where "CONNACK \<equiv> 2"
abbreviation (input) PUBLISH :: u8 where "PUBLISH \<equiv> 3"
abbreviation (input) PUBACK :: u8 where "PUBACK \<equiv> 4"
abbreviation (input) PUBREC :: u8 where "PUBREC \<equiv> 5"
abbreviation (input) PUBREL :: u8 where "PUBREL \<equiv> 6"
abbreviation (input) PUBCOMP :: u8 where "PUBCOMP \<equiv> 7"
abbreviation (input) SUBSCRIBE :: u8 where "SUBSCRIBE \<equiv> 8"
abbreviation (input) SUBACK :: u8 where "SUBACK \<equiv> 9"
abbreviation (input) UNSUBSCRIBE :: u8 where "UNSUBSCRIBE \<equiv> 10"
abbreviation (input) UNSUBACK :: u8 where "UNSUBACK \<equiv> 11"
abbreviation (input) PINGREQ :: u8 where "PINGREQ \<equiv> 12"
abbreviation (input) PINGRESP :: u8 where "PINGRESP \<equiv> 13"
abbreviation (input) DISCONNECT :: u8 where "DISCONNECT \<equiv> 14"

abbreviation (input) MQTTPACKET_BUFFER_TOO_SHORT :: int where "MQTTPACKET_BUFFER_TOO_SHORT \<equiv> -2"
abbreviation (input) MQTTPACKET_READ_ERROR :: int where "MQTTPACKET_READ_ERROR \<equiv> -1"

text \<open>The union \<open>MQTTHeader\<close>: the byte made of its bit fields, and each field of a byte.\<close>

definition MQTTHeader :: "u8 \<Rightarrow> u8 \<Rightarrow> u8 \<Rightarrow> u8 \<Rightarrow> u8" where
  "MQTTHeader type dup qos retain =
     push_bit 4 type OR push_bit 3 (dup AND 1) OR push_bit 1 (qos AND 3) OR (retain AND 1)"

definition header_type :: "u8 \<Rightarrow> u8" where "header_type b = drop_bit 4 b"
definition header_dup :: "u8 \<Rightarrow> u8" where "header_dup b = drop_bit 3 b AND 1"
definition header_qos :: "u8 \<Rightarrow> u8" where "header_qos b = drop_bit 1 b AND 3"
definition header_retain :: "u8 \<Rightarrow> u8" where "header_retain b = b AND 1"

text \<open>A string is given by a C string or by a length and the memory at a pointer.\<close>

record MQTTString =
  cstring :: "u8 list option"
  lenstring_len :: nat
  lenstring_data :: "u8 list option"

abbreviation MQTTString_initializer :: MQTTString where
  "MQTTString_initializer \<equiv> \<lparr>cstring = None, lenstring_len = 0, lenstring_data = None\<rparr>"

definition c_bytes :: "u8 list \<Rightarrow> u8 list" where
  "c_bytes mem = takeWhile (\<lambda>c. c \<noteq> 0) mem"

text \<open>The bytes of a text, and a string that is given as a C string.\<close>

definition ascii :: "string \<Rightarrow> u8 list" where
  "ascii s = map of_char s"

definition cstr :: "string \<Rightarrow> MQTTString" where
  "cstr s = MQTTString_initializer\<lparr>cstring := Some (ascii s @ [0])\<rparr>"

section \<open>Operations\<close>

text \<open>The bytes written for a length; their number is what the function returns.\<close>

fun MQTTPacket_encode :: "nat \<Rightarrow> u8 list" where
  "MQTTPacket_encode n =
     (let d = of_nat (n mod 128)
      in if n div 128 > 0 then (d OR 0x80) # MQTTPacket_encode (n div 128) else [d])"

declare MQTTPacket_encode.simps [simp del]

text \<open>
  The loop of \<open>MQTTPacket_decode\<close> with the number of further bytes it accepts: it returns the
  number of bytes it counted, the value, and the state of the source.
\<close>

fun decode_loop ::
  "('s \<Rightarrow> u8 option \<times> 's) \<Rightarrow> nat \<Rightarrow> nat \<Rightarrow> nat \<Rightarrow> nat \<Rightarrow> 's \<Rightarrow> nat \<times> nat \<times> 's" where
  "decode_loop getcharfn 0 len multiplier v s = (len + 1, v, s)"
| "decode_loop getcharfn (Suc k) len multiplier v s =
     (case getcharfn s of
        (None, s') \<Rightarrow> (len + 1, v, s')
      | (Some c, s') \<Rightarrow>
          let v' = v + unat (c AND 127) * multiplier
          in if c AND 128 \<noteq> 0 then decode_loop getcharfn k (len + 1) (multiplier * 128) v' s'
             else (len + 1, v', s'))"

definition MAX_NO_OF_REMAINING_LENGTH_BYTES :: nat where "MAX_NO_OF_REMAINING_LENGTH_BYTES = 4"

definition MQTTPacket_decode :: "('s \<Rightarrow> u8 option \<times> 's) \<Rightarrow> 's \<Rightarrow> nat \<times> nat \<times> 's" where
  "MQTTPacket_decode getcharfn s = decode_loop getcharfn MAX_NO_OF_REMAINING_LENGTH_BYTES 0 1 0 s"

definition MQTTPacket_len :: "nat \<Rightarrow> nat" where
  "MQTTPacket_len rem_len =
     (let rem_len = rem_len + 1
      in if rem_len < 128 then rem_len + 1
         else if rem_len < 16384 then rem_len + 2
         else if rem_len < 2097151 then rem_len + 3
         else rem_len + 4)"

fun bufchar :: "u8 list option \<Rightarrow> u8 option \<times> u8 list option" where
  "bufchar (Some (c # cs)) = (Some c, Some cs)"
| "bufchar _ = (None, None)"

definition MQTTPacket_decodeBuf :: "u8 list \<Rightarrow> (nat \<times> nat) option" where
  "MQTTPacket_decodeBuf buf =
     (case MQTTPacket_decode bufchar (Some buf) of
        (len, v, Some _) \<Rightarrow> Some (len, v)
      | (len, v, None) \<Rightarrow> None)"

fun readInt :: "u8 list \<Rightarrow> (nat \<times> u8 list) option" where
  "readInt (a # b # cs) = Some (256 * unat a + unat b, cs)"
| "readInt _ = None"

fun readChar :: "u8 list \<Rightarrow> (u8 \<times> u8 list) option" where
  "readChar (c # cs) = Some (c, cs)"
| "readChar [] = None"

text \<open>Storing bytes at the position of the pointer, which moves past them.\<close>

definition put_bytes :: "u8 list \<Rightarrow> nat \<times> u8 list \<Rightarrow> (nat \<times> u8 list) option" where
  "put_bytes bs = (\<lambda>(p, buf).
     if p + length bs \<le> length buf then Some (p + length bs, take p buf @ bs @ drop (p + length bs) buf) else None)"

definition writeChar :: "u8 \<Rightarrow> nat \<times> u8 list \<Rightarrow> (nat \<times> u8 list) option" where
  "writeChar c = put_bytes [c]"

definition writeInt :: "nat \<Rightarrow> nat \<times> u8 list \<Rightarrow> (nat \<times> u8 list) option" where
  "writeInt anInt = put_bytes [of_nat (anInt div 256), of_nat (anInt mod 256)]"

definition writeCString :: "u8 list \<Rightarrow> nat \<times> u8 list \<Rightarrow> (nat \<times> u8 list) option" where
  "writeCString str pptr = do {
     pptr \<leftarrow> writeInt (length (c_bytes str)) pptr;
     put_bytes (c_bytes str) pptr
   }"

fun getLenStringLen :: "u8 list \<Rightarrow> nat option" where
  "getLenStringLen (a # b # cs) = Some (256 * unat a + unat b)"
| "getLenStringLen _ = None"

definition writeMQTTString :: "MQTTString \<Rightarrow> nat \<times> u8 list \<Rightarrow> (nat \<times> u8 list) option" where
  "writeMQTTString s pptr =
     (if lenstring_len s > 0
      then do {
        pptr \<leftarrow> writeInt (lenstring_len s) pptr;
        mem \<leftarrow> lenstring_data s;
        if lenstring_len s \<le> length mem then put_bytes (take (lenstring_len s) mem) pptr else None
      }
      else case cstring s of
             Some str \<Rightarrow> writeCString str pptr
           | None \<Rightarrow> writeInt 0 pptr)"

text \<open>
  \<open>s\<close> is the content of the structure before the call, which a failing call changes in part.
\<close>

definition readMQTTLenString ::
  "MQTTString \<Rightarrow> u8 list \<times> int \<Rightarrow> (bool \<times> MQTTString \<times> u8 list \<times> int) option" where
  "readMQTTLenString s = (\<lambda>(cur, left).
     if left > 1
     then do {
       (n, cur') \<leftarrow> readInt cur;
       (if int n \<le> left - 2
        then Some (True, \<lparr>cstring = None, lenstring_len = n, lenstring_data = Some cur'\<rparr>, drop n cur', left - 2 - int n)
        else Some (False, s\<lparr>cstring := None, lenstring_len := n\<rparr>, cur', left - 2))
     }
     else Some (False, s\<lparr>cstring := None\<rparr>, cur, left))"

definition MQTTstrlen :: "MQTTString \<Rightarrow> nat" where
  "MQTTstrlen s = (case cstring s of Some str \<Rightarrow> length (c_bytes str) | None \<Rightarrow> lenstring_len s)"

text \<open>\<open>strncmp\<close> as a test for equality; memory that ends too early has no equal.\<close>

fun strncmp_eq :: "nat \<Rightarrow> u8 list \<Rightarrow> u8 list \<Rightarrow> bool" where
  "strncmp_eq 0 a b = True"
| "strncmp_eq (Suc n) (x # a) (y # b) = (x = y \<and> (x = 0 \<or> strncmp_eq n a b))"
| "strncmp_eq (Suc n) a b = False"

definition MQTTPacket_equals :: "MQTTString \<Rightarrow> u8 list \<Rightarrow> bool" where
  "MQTTPacket_equals a bptr =
     (let (aptr, alen) = (case cstring a of
                            Some str \<Rightarrow> (str, length (c_bytes str))
                          | None \<Rightarrow> (case lenstring_data a of Some d \<Rightarrow> d | None \<Rightarrow> [], lenstring_len a))
      in alen = length (c_bytes bptr) \<and> strncmp_eq alen aptr bptr)"

section \<open>The header byte\<close>

lemma bit_u8_masks: "bit (1 :: u8) n \<longleftrightarrow> n = 0" "bit (3 :: u8) n \<longleftrightarrow> n < 2" "bit (15 :: u8) n \<longleftrightarrow> n < 4"
  using bit_mask_iff [where 'a = u8, of 2 n] bit_mask_iff [where 'a = u8, of 4 n]
  by (auto simp: bit_1_iff mask_eq_exp_minus_1)

lemma header_fields [simp]:
  "header_type (MQTTHeader t d q r) = t AND 15"
  "header_dup (MQTTHeader t d q r) = d AND 1"
  "header_qos (MQTTHeader t d q r) = q AND 3"
  "header_retain (MQTTHeader t d q r) = r AND 1"
  unfolding header_type_def header_dup_def header_qos_def header_retain_def MQTTHeader_def
  by (rule bit_word_eqI, simp only: bit_and_iff bit_or_iff bit_push_bit_iff bit_drop_bit_eq possible_bit_word bit_u8_masks o_apply, force)+

section \<open>The variable length\<close>

lemma encode_step:
  "MQTTPacket_encode n =
     (if n < 128 then [of_nat n] else (of_nat (n mod 128) OR 0x80) # MQTTPacket_encode (n div 128))"
  by (simp add: MQTTPacket_encode.simps [of n] Let_def div_eq_0_iff)

lemma low7: "k < 128 \<Longrightarrow> unat ((of_nat k :: u8) AND 127) = k" "k < 128 \<Longrightarrow> (of_nat k :: u8) AND 128 = 0"
proof -
  assume k: "k < 128"
  then have 1: "take_bit 7 k = k" by (simp add: take_bit_nat_eq_self)
  have "(127 :: u8) = mask 7" by (simp add: mask_eq_exp_minus_1)
  then have "(of_nat k :: u8) AND 127 = of_nat k" using 1 by (metis take_bit_eq_mask take_bit_of_nat)
  then show "unat ((of_nat k :: u8) AND 127) = k" using k by (simp add: unat_of_nat)
  have "\<not> bit (of_nat k :: u8) 7" using 1 by (metis bit_of_nat_iff bit_take_bit_iff less_irrefl)
  then show "(of_nat k :: u8) AND 128 = 0" using and_exp_eq_0_iff_not_bit [of "of_nat k :: u8" 7] by simp
qed

lemma high7: "(x OR 0x80) AND 127 = (x :: u8) AND 127" "((x :: u8) OR 0x80) AND 128 = 128"
  by (simp_all add: bit.conj_disj_distrib2)

lemma decode_encode_loop:
  "length (MQTTPacket_encode n) \<le> k \<Longrightarrow>
   decode_loop bufchar k len m v (Some (MQTTPacket_encode n @ rest)) =
     (len + length (MQTTPacket_encode n), v + n * m, Some rest)"
proof (induction k arbitrary: n len m v)
  case 0
  then show ?case by (simp add: encode_step [of n] split: if_splits)
next
  case (Suc k)
  have "n mod 128 * m + n div 128 * (m * 128) = n * m"
    using mod_div_mult_eq [of n 128] by (metis add_mult_distrib mult.assoc mult.commute)
  then show ?case
    using Suc by (auto simp: encode_step [of n] Let_def high7 low7)
qed

lemma length_encode:
  "n < 268435456 \<Longrightarrow>
   length (MQTTPacket_encode n) = (if n < 128 then 1 else if n < 16384 then 2 else if n < 2097152 then 3 else 4)"
  using encode_step [of n] encode_step [of "n div 128"] encode_step [of "n div 128 div 128"]
    encode_step [of "n div 128 div 128 div 128"] by auto

lemma decodeBuf_encode [simp]:
  "n < 268435456 \<Longrightarrow> MQTTPacket_decodeBuf (MQTTPacket_encode n @ rest) = Some (length (MQTTPacket_encode n), n)"
  using decode_encode_loop [of n 4 0 1 0 rest]
  by (simp add: MQTTPacket_decodeBuf_def MQTTPacket_decode_def MAX_NO_OF_REMAINING_LENGTH_BYTES_def length_encode)

text \<open>The length that is compared with the size of the buffer is never too small.\<close>

lemma MQTTPacket_len_ge: "n < 268435456 \<Longrightarrow> 1 + length (MQTTPacket_encode n) + n \<le> MQTTPacket_len n"
  by (simp add: length_encode MQTTPacket_len_def Let_def)

section \<open>Writing\<close>

text \<open>The pointer and the buffer after \<open>out\<close> has been written from the start of \<open>buf\<close>.\<close>

definition wrote :: "u8 list \<Rightarrow> u8 list \<Rightarrow> nat \<times> u8 list" where
  "wrote buf out = (length out, out @ drop (length out) buf)"

named_theorems writing \<open>effect of the write operations on \<open>wrote\<close>\<close>

definition int16 :: "nat \<Rightarrow> u8 list" where
  "int16 n = [of_nat (n div 256), of_nat (n mod 256)]"

definition utf :: "u8 list \<Rightarrow> u8 list" where
  "utf bs = int16 (length bs) @ bs"

lemma length_int16 [simp]: "length (int16 n) = 2"
  by (simp add: int16_def)

lemma length_utf [simp]: "length (utf bs) = length bs + 2"
  by (simp add: utf_def)

lemma wrote_nothing: "(0, buf) = wrote buf []"
  by (simp add: wrote_def)

lemma put_bytes_wrote [writing]:
  "length out + length bs \<le> length buf \<Longrightarrow> put_bytes bs (wrote buf out) = Some (wrote buf (out @ bs))"
  by (simp add: put_bytes_def wrote_def add.commute)

lemma writeChar_wrote [writing]:
  "length out + 1 \<le> length buf \<Longrightarrow> writeChar c (wrote buf out) = Some (wrote buf (out @ [c]))"
  by (simp add: writeChar_def writing)

lemma writeInt_wrote [writing]:
  "length out + 2 \<le> length buf \<Longrightarrow> writeInt n (wrote buf out) = Some (wrote buf (out @ int16 n))"
  by (simp add: writeInt_def int16_def writing)

lemma writeCString_wrote [writing]:
  "length out + 2 + length (c_bytes str) \<le> length buf \<Longrightarrow>
   writeCString str (wrote buf out) = Some (wrote buf (out @ utf (c_bytes str)))"
  by (simp add: writeCString_def writing utf_def)

text \<open>The bytes a string stands for, when only one of its two forms is used.\<close>

definition str_bytes :: "MQTTString \<Rightarrow> u8 list" where
  "str_bytes s =
     (if lenstring_len s > 0 then take (lenstring_len s) (the (lenstring_data s))
      else case cstring s of Some str \<Rightarrow> c_bytes str | None \<Rightarrow> [])"

definition string_ok :: "MQTTString \<Rightarrow> bool" where
  "string_ok s \<longleftrightarrow> length (str_bytes s) < 65536 \<and>
     (lenstring_len s > 0 \<longrightarrow> cstring s = None \<and> lenstring_data s \<noteq> None \<and> lenstring_len s \<le> length (the (lenstring_data s)))"

lemma MQTTstrlen_ok [simp]: "string_ok s \<Longrightarrow> MQTTstrlen s = length (str_bytes s)"
  by (auto simp: string_ok_def MQTTstrlen_def str_bytes_def split: option.split)

lemma writeMQTTString_wrote [writing]:
  assumes "string_ok s" "length out + 2 + length (str_bytes s) \<le> length buf"
  shows "writeMQTTString s (wrote buf out) = Some (wrote buf (out @ utf (str_bytes s)))"
proof (cases "lenstring_len s > 0")
  case True
  then obtain d where "lenstring_data s = Some d" "lenstring_len s \<le> length d" "str_bytes s = take (lenstring_len s) d"
    using assms(1) by (auto simp: string_ok_def str_bytes_def)
  then show ?thesis using True assms by (simp add: writeMQTTString_def writing utf_def)
next
  case False
  then show ?thesis using assms by (auto simp: writeMQTTString_def str_bytes_def writing utf_def split: option.splits)
qed

section \<open>Reading\<close>

lemma readInt_int16 [simp]: "n < 65536 \<Longrightarrow> readInt (int16 n @ rest) = Some (n, rest)"
  by (simp add: int16_def unat_of_nat)

lemma readMQTTLenString_utf [simp]:
  "length bs < 65536 \<Longrightarrow> int (length bs) + 2 \<le> left \<Longrightarrow>
   readMQTTLenString s (utf bs @ rest, left) =
     Some (True, \<lparr>cstring = None, lenstring_len = length bs, lenstring_data = Some (bs @ rest)\<rparr>, rest, left - 2 - int (length bs))"
  by (simp add: readMQTTLenString_def utf_def)

text \<open>A string that was read, and one that names the same bytes.\<close>

lemma str_bytes_read [simp]:
  "str_bytes \<lparr>cstring = None, lenstring_len = length bs, lenstring_data = Some (bs @ rest)\<rparr> = bs"
  by (simp add: str_bytes_def)

lemma strncmp_eq_iff: "length b = n \<Longrightarrow> 0 \<notin> set b \<Longrightarrow> strncmp_eq n a (b @ c) \<longleftrightarrow> take n a = b"
proof (induction n arbitrary: a b)
  case (Suc n)
  then show ?case by (cases a; cases b) auto
qed simp

lemma c_bytes_terminated [simp]: "0 \<notin> set b \<Longrightarrow> c_bytes (b @ 0 # rest) = b"
  unfolding c_bytes_def by (subst takeWhile_append2) auto

lemma MQTTPacket_equals_read:
  "0 \<notin> set b \<Longrightarrow>
   MQTTPacket_equals \<lparr>cstring = None, lenstring_len = length bs, lenstring_data = Some (bs @ rest)\<rparr> (b @ [0]) \<longleftrightarrow> bs = b"
  by (auto simp: MQTTPacket_equals_def strncmp_eq_iff)

lemma length_ascii [simp]: "length (ascii s) = length s"
  by (simp add: ascii_def)

lemma of_char_u8_eq_0: "(of_char c :: u8) = 0 \<longleftrightarrow> c = CHR 0x00"
proof
  assume "(of_char c :: u8) = 0"
  then have "(of_nat (of_char c) :: u8) = 0" by (metis of_nat_of_char)
  then have "(of_char c :: nat) mod 256 = 0" by (simp add: word_of_nat_eq_0_iff dvd_eq_mod_eq_0)
  moreover have "(of_char c :: nat) < 256" by simp
  ultimately have "(of_char c :: nat) = of_char (CHR 0x00)" by simp
  then show "c = CHR 0x00" by (simp only: of_char_eq_iff)
qed simp

lemma ascii_no_nul [simp]: "0 \<in> set (ascii s) \<longleftrightarrow> CHR 0x00 \<in> set s"
  by (force simp: ascii_def of_char_u8_eq_0)

lemma str_bytes_cstr [simp]: "CHR 0x00 \<notin> set s \<Longrightarrow> str_bytes (cstr s) = ascii s"
  by (simp add: str_bytes_def cstr_def ascii_no_nul)

lemma string_ok_cstr [simp]: "CHR 0x00 \<notin> set s \<Longrightarrow> length s < 65536 \<Longrightarrow> string_ok (cstr s)"
  by (simp add: string_ok_def) (simp add: cstr_def)

end
