(* ===== verification/Mqtt_Messages.thy ===== *)
theory Mqtt_Messages
  imports Mqtt_Packet
begin

text \<open>
  Serialisation and deserialisation of the MQTT packets: publications and acknowledgements
  (\<open>MQTTSerializePublish.c\<close>, \<open>MQTTDeserializePublish.c\<close>), connections (\<open>MQTTConnectClient.c\<close>,
  \<open>MQTTConnectServer.c\<close>), subscriptions (\<open>MQTTSubscribeClient.c\<close>, \<open>MQTTSubscribeServer.c\<close>) and their
  removal (\<open>MQTTUnsubscribeClient.c\<close>, \<open>MQTTUnsubscribeServer.c\<close>).

  A serialiser returns its return code and the buffer; a deserialiser takes what its output
  parameters held before the call and returns its return code and their new content. \<open>None\<close> is
  an access outside a buffer or an array. The type \<open>char\<close> is unsigned on this processor.
\<close>

section \<open>Publications (MQTTSerializePublish.c)\<close>

abbreviation packet_done :: "nat \<times> u8 list \<Rightarrow> (int \<times> u8 list) option" where
  "packet_done ptr \<equiv> Some (int (fst ptr), snd ptr)"

definition MQTTSerialize_publishLength :: "nat \<Rightarrow> MQTTString \<Rightarrow> nat \<Rightarrow> nat" where
  "MQTTSerialize_publishLength qos topic payloadlen =
     2 + MQTTstrlen topic + payloadlen + (if qos > 0 then 2 else 0)"

definition MQTTSerialize_publish ::
  "u8 list \<Rightarrow> nat \<Rightarrow> u8 \<Rightarrow> nat \<Rightarrow> u8 \<Rightarrow> u16 \<Rightarrow> MQTTString \<Rightarrow> u8 list \<Rightarrow> nat \<Rightarrow> (int \<times> u8 list) option" where
  "MQTTSerialize_publish buf buflen dup qos retained packetid topic payload payloadlen =
     (let rem_len = MQTTSerialize_publishLength qos topic payloadlen
      in if MQTTPacket_len rem_len > buflen then Some (MQTTPACKET_BUFFER_TOO_SHORT, buf)
         else do {
           ptr \<leftarrow> writeChar (MQTTHeader PUBLISH dup (of_nat qos) retained) (0, buf);
           ptr \<leftarrow> put_bytes (MQTTPacket_encode rem_len) ptr;
           ptr \<leftarrow> writeMQTTString topic ptr;
           ptr \<leftarrow> (if qos > 0 then writeInt (unat packetid) ptr else Some ptr);
           ptr \<leftarrow> (if payloadlen \<le> length payload then put_bytes (take payloadlen payload) ptr else None);
           packet_done ptr
         })"

definition MQTTSerialize_ack :: "u8 list \<Rightarrow> nat \<Rightarrow> u8 \<Rightarrow> u8 \<Rightarrow> u16 \<Rightarrow> (int \<times> u8 list) option" where
  "MQTTSerialize_ack buf buflen packettype dup packetid =
     (if buflen < 4 then Some (MQTTPACKET_BUFFER_TOO_SHORT, buf)
      else do {
        ptr \<leftarrow> writeChar (MQTTHeader packettype dup (if packettype = PUBREL then 1 else 0) 0) (0, buf);
        ptr \<leftarrow> put_bytes (MQTTPacket_encode 2) ptr;
        ptr \<leftarrow> writeInt (unat packetid) ptr;
        packet_done ptr
      })"

definition MQTTSerialize_puback :: "u8 list \<Rightarrow> nat \<Rightarrow> u16 \<Rightarrow> (int \<times> u8 list) option" where
  "MQTTSerialize_puback buf buflen packetid = MQTTSerialize_ack buf buflen PUBACK 0 packetid"

definition MQTTSerialize_pubrel :: "u8 list \<Rightarrow> nat \<Rightarrow> u8 \<Rightarrow> u16 \<Rightarrow> (int \<times> u8 list) option" where
  "MQTTSerialize_pubrel buf buflen dup packetid = MQTTSerialize_ack buf buflen PUBREL dup packetid"

definition MQTTSerialize_pubcomp :: "u8 list \<Rightarrow> nat \<Rightarrow> u16 \<Rightarrow> (int \<times> u8 list) option" where
  "MQTTSerialize_pubcomp buf buflen packetid = MQTTSerialize_ack buf buflen PUBCOMP 0 packetid"

section \<open>Publications received (MQTTDeserializePublish.c)\<close>

record publish_data =
  pd_dup :: u8
  pd_qos :: nat
  pd_retained :: u8
  pd_packetid :: u16
  pd_topic :: MQTTString
  pd_payload :: "u8 list"
  pd_payloadlen :: int

definition MQTTDeserialize_publish :: "publish_data \<Rightarrow> u8 list \<Rightarrow> (int \<times> publish_data) option" where
  "MQTTDeserialize_publish d buf = do {
     (header, cur) \<leftarrow> readChar buf;
     if header_type header \<noteq> PUBLISH then Some (0, d)
     else do {
       let d = d\<lparr>pd_dup := header_dup header, pd_qos := unat (header_qos header), pd_retained := header_retain header\<rparr>;
       (rc, mylen) \<leftarrow> MQTTPacket_decodeBuf cur;
       (ok, topic, cur, left) \<leftarrow> readMQTTLenString (pd_topic d) (drop rc cur, int mylen);
       let d = d\<lparr>pd_topic := topic\<rparr>;
       if \<not> ok \<or> left < 0 then Some (int rc, d)
       else if pd_qos d > 0
       then do {
         (n, cur) \<leftarrow> readInt cur;
         Some (1, d\<lparr>pd_packetid := of_nat n, pd_payloadlen := left - 2, pd_payload := cur\<rparr>)
       }
       else Some (1, d\<lparr>pd_payloadlen := left, pd_payload := cur\<rparr>)
     }
   }"

text \<open>The output parameters of an acknowledgement: packet type, dup flag and packet identifier.\<close>

definition MQTTDeserialize_ack :: "u8 \<times> u8 \<times> u16 \<Rightarrow> u8 list \<Rightarrow> (int \<times> u8 \<times> u8 \<times> u16) option" where
  "MQTTDeserialize_ack = (\<lambda>(_, _, packetid) buf. do {
     (header, cur) \<leftarrow> readChar buf;
     (rc, mylen) \<leftarrow> MQTTPacket_decodeBuf cur;
     if mylen < 2 then Some (int rc, header_type header, header_dup header, packetid)
     else do {
       (n, cur) \<leftarrow> readInt (drop rc cur);
       Some (1, header_type header, header_dup header, of_nat n)
     }
   })"

section \<open>Connections (MQTTConnectClient.c)\<close>

record MQTTPacket_willOptions =
  will_topicName :: MQTTString
  will_message :: MQTTString
  will_retained :: u8
  will_qos :: u8

record MQTTPacket_connectData =
  MQTTVersion :: u8
  clientID :: MQTTString
  keepAliveInterval :: u16
  cleansession :: u8
  willFlag :: u8
  will :: MQTTPacket_willOptions
  username :: MQTTString
  password :: MQTTString

definition MQTTPacket_connectData_initializer :: MQTTPacket_connectData where
  "MQTTPacket_connectData_initializer =
     \<lparr>MQTTVersion = 4, clientID = MQTTString_initializer, keepAliveInterval = 60, cleansession = 1, willFlag = 0,
      will = \<lparr>will_topicName = MQTTString_initializer, will_message = MQTTString_initializer, will_retained = 0, will_qos = 0\<rparr>,
      username = MQTTString_initializer, password = MQTTString_initializer\<rparr>"

text \<open>The union \<open>MQTTConnectFlags\<close>: the byte made of its bit fields.\<close>

definition MQTTConnectFlags :: "u8 \<Rightarrow> u8 \<Rightarrow> u8 \<Rightarrow> u8 \<Rightarrow> u8 \<Rightarrow> u8 \<Rightarrow> u8" where
  "MQTTConnectFlags cs wi wqos wretain pass user =
     push_bit 1 (cs AND 1) OR push_bit 2 (wi AND 1) OR push_bit 3 (wqos AND 3) OR push_bit 5 (wretain AND 1) OR
     push_bit 6 (pass AND 1) OR push_bit 7 (user AND 1)"

text \<open>The test \<open>s.cstring || s.lenstring.data\<close>.\<close>

definition given :: "MQTTString \<Rightarrow> bool" where
  "given s \<longleftrightarrow> cstring s \<noteq> None \<or> lenstring_data s \<noteq> None"

definition MQTTSerialize_connectLength :: "MQTTPacket_connectData \<Rightarrow> nat" where
  "MQTTSerialize_connectLength options =
     (if MQTTVersion options = 3 then 12 else if MQTTVersion options = 4 then 10 else 0) +
     (MQTTstrlen (clientID options) + 2) +
     (if willFlag options \<noteq> 0
      then MQTTstrlen (will_topicName (will options)) + 2 + MQTTstrlen (will_message (will options)) + 2 else 0) +
     (if given (username options) then MQTTstrlen (username options) + 2 else 0) +
     (if given (password options) then MQTTstrlen (password options) + 2 else 0)"

definition connect_flags :: "MQTTPacket_connectData \<Rightarrow> u8" where
  "connect_flags options =
     MQTTConnectFlags (cleansession options) (if willFlag options \<noteq> 0 then 1 else 0)
       (if willFlag options \<noteq> 0 then will_qos (will options) else 0)
       (if willFlag options \<noteq> 0 then will_retained (will options) else 0)
       (if given (password options) then 1 else 0) (if given (username options) then 1 else 0)"

definition MQTTSerialize_connect :: "u8 list \<Rightarrow> nat \<Rightarrow> MQTTPacket_connectData \<Rightarrow> (int \<times> u8 list) option" where
  "MQTTSerialize_connect buf buflen options =
     (let len = MQTTSerialize_connectLength options
      in if MQTTPacket_len len > buflen then Some (MQTTPACKET_BUFFER_TOO_SHORT, buf)
         else do {
           ptr \<leftarrow> writeChar (MQTTHeader CONNECT 0 0 0) (0, buf);
           ptr \<leftarrow> put_bytes (MQTTPacket_encode len) ptr;
           ptr \<leftarrow> writeCString (ascii (if MQTTVersion options = 4 then ''MQTT'' else ''MQIsdp'') @ [0]) ptr;
           ptr \<leftarrow> writeChar (if MQTTVersion options = 4 then 4 else 3) ptr;
           ptr \<leftarrow> writeChar (connect_flags options) ptr;
           ptr \<leftarrow> writeInt (unat (keepAliveInterval options)) ptr;
           ptr \<leftarrow> writeMQTTString (clientID options) ptr;
           ptr \<leftarrow> (if willFlag options \<noteq> 0
                  then do {
                    ptr \<leftarrow> writeMQTTString (will_topicName (will options)) ptr;
                    writeMQTTString (will_message (will options)) ptr
                  }
                  else Some ptr);
           ptr \<leftarrow> (if given (username options) then writeMQTTString (username options) ptr else Some ptr);
           ptr \<leftarrow> (if given (password options) then writeMQTTString (password options) ptr else Some ptr);
           packet_done ptr
         })"

text \<open>The output parameters \<open>sessionPresent\<close> and \<open>connack_rc\<close>.\<close>

definition MQTTDeserialize_connack :: "u8 \<times> u8 \<Rightarrow> u8 list \<Rightarrow> (int \<times> u8 \<times> u8) option" where
  "MQTTDeserialize_connack d buf = do {
     (header, cur) \<leftarrow> readChar buf;
     if header_type header \<noteq> CONNACK then Some (0, d)
     else do {
       (rc, mylen) \<leftarrow> MQTTPacket_decodeBuf cur;
       if mylen < 2 then Some (int rc, d)
       else do {
         (flags, cur) \<leftarrow> readChar (drop rc cur);
         (connack_rc, cur) \<leftarrow> readChar cur;
         Some (1, flags AND 1, connack_rc)
       }
     }
   }"

definition MQTTSerialize_zero :: "u8 list \<Rightarrow> nat \<Rightarrow> u8 \<Rightarrow> (int \<times> u8 list) option" where
  "MQTTSerialize_zero buf buflen packettype =
     (if buflen < 2 then Some (MQTTPACKET_BUFFER_TOO_SHORT, buf)
      else do {
        ptr \<leftarrow> writeChar (MQTTHeader packettype 0 0 0) (0, buf);
        ptr \<leftarrow> put_bytes (MQTTPacket_encode 0) ptr;
        packet_done ptr
      })"

definition MQTTSerialize_disconnect :: "u8 list \<Rightarrow> nat \<Rightarrow> (int \<times> u8 list) option" where
  "MQTTSerialize_disconnect buf buflen = MQTTSerialize_zero buf buflen DISCONNECT"

definition MQTTSerialize_pingreq :: "u8 list \<Rightarrow> nat \<Rightarrow> (int \<times> u8 list) option" where
  "MQTTSerialize_pingreq buf buflen = MQTTSerialize_zero buf buflen PINGREQ"

section \<open>The broker's side of a connection (MQTTConnectServer.c)\<close>

text \<open>\<open>memcmp\<close> of the first \<open>min n len\<close> bytes of a string with a literal, as a test for equality.\<close>

definition memcmp_prefix :: "MQTTString \<Rightarrow> u8 list \<Rightarrow> bool option" where
  "memcmp_prefix s lit =
     (let n = min (length lit) (lenstring_len s)
      in case lenstring_data s of
           None \<Rightarrow> if n = 0 then Some True else None
         | Some d \<Rightarrow> if n \<le> length d then Some (take n d = take n lit) else None)"

definition MQTTPacket_checkVersion :: "MQTTString \<Rightarrow> u8 \<Rightarrow> bool option" where
  "MQTTPacket_checkVersion protocol version =
     (if version = 3 then memcmp_prefix protocol (ascii ''MQIsdp'')
      else if version = 4 then memcmp_prefix protocol (ascii ''MQTT'')
      else Some False)"

text \<open>
  The part of \<open>MQTTDeserialize_connect\<close> after the protocol was recognised; each failing step leaves
  what has been read so far in the structure.
\<close>

definition read_credentials ::
  "u8 \<Rightarrow> MQTTPacket_connectData \<Rightarrow> u8 list \<times> int \<Rightarrow> (int \<times> MQTTPacket_connectData) option" where
  "read_credentials flags d = (\<lambda>(cur, left).
     if bit flags 7
     then (if left < 3 then Some (0, d)
           else do {
             (ok, s, cur, left) \<leftarrow> readMQTTLenString (username d) (cur, left);
             let d = d\<lparr>username := s\<rparr>;
             if \<not> ok then Some (0, d)
             else if bit flags 6
             then (if left < 3 then Some (0, d)
                   else do {
                     (ok, s, cur, left) \<leftarrow> readMQTTLenString (password d) (cur, left);
                     Some (if ok then 1 else 0, d\<lparr>password := s\<rparr>)
                   })
             else Some (1, d)
           })
     else if bit flags 6 then Some (0, d)
     else Some (1, d))"

definition read_will ::
  "u8 \<Rightarrow> MQTTPacket_connectData \<Rightarrow> u8 list \<times> int \<Rightarrow> (int \<times> MQTTPacket_connectData) option" where
  "read_will flags d = (\<lambda>(cur, left).
     if bit flags 2
     then do {
       let w = (will d)\<lparr>will_qos := drop_bit 3 flags AND 3, will_retained := drop_bit 5 flags AND 1\<rparr>;
       (ok, s, cur, left) \<leftarrow> readMQTTLenString (will_topicName w) (cur, left);
       let w = w\<lparr>will_topicName := s\<rparr>;
       if \<not> ok then Some (0, d\<lparr>will := w\<rparr>)
       else do {
         (ok, s, cur, left) \<leftarrow> readMQTTLenString (will_message w) (cur, left);
         let d = d\<lparr>will := w\<lparr>will_message := s\<rparr>\<rparr>;
         if \<not> ok then Some (0, d) else read_credentials flags d (cur, left)
       }
     }
     else read_credentials flags d (cur, left))"

definition MQTTDeserialize_connect ::
  "MQTTString \<Rightarrow> MQTTPacket_connectData \<Rightarrow> u8 list \<Rightarrow> nat \<Rightarrow> (int \<times> MQTTPacket_connectData) option" where
  "MQTTDeserialize_connect protocol0 d buf len = do {
     (header, cur) \<leftarrow> readChar buf;
     if header_type header \<noteq> CONNECT then Some (0, d)
     else do {
       (n, mylen) \<leftarrow> MQTTPacket_decodeBuf cur;
       (ok, protocol, cur, left) \<leftarrow> readMQTTLenString protocol0 (drop n cur, int len - 1 - int n);
       if \<not> ok \<or> left < 0 then Some (0, d)
       else do {
         (version, cur) \<leftarrow> readChar cur;
         known \<leftarrow> MQTTPacket_checkVersion protocol version;
         if \<not> known then Some (0, d)
         else do {
           (flags, cur) \<leftarrow> readChar cur;
           (keep, cur) \<leftarrow> readInt cur;
           let d = d\<lparr>cleansession := drop_bit 1 flags AND 1, keepAliveInterval := of_nat keep\<rparr>;
           (ok, s, cur, left) \<leftarrow> readMQTTLenString (clientID d) (cur, left - 4);
           let d = d\<lparr>clientID := s\<rparr>;
           if \<not> ok then Some (0, d)
           else read_will flags (d\<lparr>willFlag := drop_bit 2 flags AND 1\<rparr>) (cur, left)
         }
       }
     }
   }"

definition MQTTSerialize_connack :: "u8 list \<Rightarrow> nat \<Rightarrow> u8 \<Rightarrow> u8 \<Rightarrow> (int \<times> u8 list) option" where
  "MQTTSerialize_connack buf buflen connack_rc sessionPresent =
     (if buflen < 2 then Some (MQTTPACKET_BUFFER_TOO_SHORT, buf)
      else do {
        ptr \<leftarrow> writeChar (MQTTHeader CONNACK 0 0 0) (0, buf);
        ptr \<leftarrow> put_bytes (MQTTPacket_encode 2) ptr;
        ptr \<leftarrow> writeChar (sessionPresent AND 1) ptr;
        ptr \<leftarrow> writeChar connack_rc ptr;
        packet_done ptr
      })"

section \<open>Subscriptions (MQTTSubscribeClient.c, MQTTSubscribeServer.c)\<close>

text \<open>The arrays of filters and of requested qualities, element by element.\<close>

definition MQTTSerialize_subscribeLength :: "MQTTString list \<Rightarrow> nat" where
  "MQTTSerialize_subscribeLength topicFilters = foldl (\<lambda>len t. len + (2 + MQTTstrlen t + 1)) 2 topicFilters"

fun write_filters :: "(MQTTString \<times> u8) list \<Rightarrow> nat \<times> u8 list \<Rightarrow> (nat \<times> u8 list) option" where
  "write_filters [] ptr = Some ptr"
| "write_filters ((t, q) # fs) ptr = do {
     ptr \<leftarrow> writeMQTTString t ptr;
     ptr \<leftarrow> writeChar q ptr;
     write_filters fs ptr
   }"

definition MQTTSerialize_subscribe :: "u8 list \<Rightarrow> nat \<Rightarrow> u8 \<Rightarrow> u16 \<Rightarrow> (MQTTString \<times> u8) list \<Rightarrow> (int \<times> u8 list) option" where
  "MQTTSerialize_subscribe buf buflen dup packetid filters =
     (let rem_len = MQTTSerialize_subscribeLength (map fst filters)
      in if MQTTPacket_len rem_len > buflen then Some (MQTTPACKET_BUFFER_TOO_SHORT, buf)
         else do {
           ptr \<leftarrow> writeChar (MQTTHeader SUBSCRIBE dup 1 0) (0, buf);
           ptr \<leftarrow> put_bytes (MQTTPacket_encode rem_len) ptr;
           ptr \<leftarrow> writeInt (unat packetid) ptr;
           ptr \<leftarrow> write_filters filters ptr;
           packet_done ptr
         })"

text \<open>
  The loop that stores the granted qualities: \<open>n\<close> bytes are left up to \<open>enddata\<close>, \<open>count\<close> have been
  stored, \<open>grantedQoSs\<close> is the caller's array.
\<close>

fun suback_loop :: "nat \<Rightarrow> nat \<Rightarrow> nat \<Rightarrow> u8 list \<Rightarrow> nat list \<Rightarrow> (int \<times> nat \<times> nat list) option" where
  "suback_loop maxcount 0 count cur grantedQoSs = Some (1, count, grantedQoSs)"
| "suback_loop maxcount (Suc n) count cur grantedQoSs =
     (if count > maxcount then Some (-1, count, grantedQoSs)
      else do {
        (c, cur) \<leftarrow> readChar cur;
        if count < length grantedQoSs then suback_loop maxcount n (count + 1) cur (grantedQoSs[count := unat c])
        else None
      })"

text \<open>The output parameters are the packet identifier, the count and the array.\<close>

definition MQTTDeserialize_suback ::
  "u16 \<times> nat \<times> nat list \<Rightarrow> nat \<Rightarrow> u8 list \<Rightarrow> (int \<times> u16 \<times> nat \<times> nat list) option" where
  "MQTTDeserialize_suback d maxcount buf = do {
     (header, cur) \<leftarrow> readChar buf;
     if header_type header \<noteq> SUBACK then Some (0, d)
     else do {
       (rc, mylen) \<leftarrow> MQTTPacket_decodeBuf cur;
       if mylen < 2 then Some (int rc, d)
       else do {
         (n, cur) \<leftarrow> readInt (drop rc cur);
         (rc, count, qs) \<leftarrow> suback_loop maxcount (mylen - 2) 0 cur (snd (snd d));
         Some (rc, of_nat n, count, qs)
       }
     }
   }"

text \<open>The loop over the filters of a request, for as long as \<open>curdata < enddata\<close>.\<close>

function read_filters ::
  "u8 list \<Rightarrow> int \<Rightarrow> nat \<Rightarrow> MQTTString list \<Rightarrow> nat list \<Rightarrow> (bool \<times> nat \<times> MQTTString list \<times> nat list) option" where
  "read_filters cur left count ts qs =
     (if left \<le> 0 then Some (True, count, ts, qs)
      else if count \<ge> length ts \<or> count \<ge> length qs then None
      else case readMQTTLenString (ts ! count) (cur, left) of
             None \<Rightarrow> None
           | Some (ok, s, cur', left') \<Rightarrow>
               let ts = ts[count := s]
               in if \<not> ok then Some (False, count, ts, qs)
                  else if left' \<le> 0 then Some (False, count, ts, qs)
                  else case cur' of
                         [] \<Rightarrow> None
                       | q # cur'' \<Rightarrow> read_filters cur'' (left' - 1) (count + 1) ts (qs[count := unat q]))"
  by pat_completeness auto
termination
  by (relation "measure (\<lambda>(cur, left, count, ts, qs). nat left)")
    (auto simp: readMQTTLenString_def split: if_splits bind_splits)

declare read_filters.simps [simp del]

definition MQTTDeserialize_subscribe ::
  "u8 \<times> u16 \<times> nat \<times> MQTTString list \<times> nat list \<Rightarrow> u8 list \<Rightarrow>
   (int \<times> u8 \<times> u16 \<times> nat \<times> MQTTString list \<times> nat list) option" where
  "MQTTDeserialize_subscribe d buf = do {
     (header, cur) \<leftarrow> readChar buf;
     if header_type header \<noteq> SUBSCRIBE then Some (-1, d)
     else do {
       (rc, mylen) \<leftarrow> MQTTPacket_decodeBuf cur;
       (n, cur) \<leftarrow> readInt (drop rc cur);
       let (_, _, _, ts, qs) = d;
       (ok, count, ts, qs) \<leftarrow> read_filters cur (int mylen - 2) 0 ts qs;
       Some (if ok then 1 else int rc, header_dup header, of_nat n, count, ts, qs)
     }
   }"

definition MQTTSerialize_suback :: "u8 list \<Rightarrow> nat \<Rightarrow> u16 \<Rightarrow> u8 list \<Rightarrow> (int \<times> u8 list) option" where
  "MQTTSerialize_suback buf buflen packetid grantedQoSs =
     (if buflen < 2 + length grantedQoSs then Some (MQTTPACKET_BUFFER_TOO_SHORT, buf)
      else do {
        ptr \<leftarrow> writeChar (MQTTHeader SUBACK 0 0 0) (0, buf);
        ptr \<leftarrow> put_bytes (MQTTPacket_encode (2 + length grantedQoSs)) ptr;
        ptr \<leftarrow> writeInt (unat packetid) ptr;
        ptr \<leftarrow> put_bytes grantedQoSs ptr;
        packet_done ptr
      })"

section \<open>Removal of subscriptions (MQTTUnsubscribeClient.c, MQTTUnsubscribeServer.c)\<close>

definition MQTTSerialize_unsubscribeLength :: "MQTTString list \<Rightarrow> nat" where
  "MQTTSerialize_unsubscribeLength topicFilters = foldl (\<lambda>len t. len + (2 + MQTTstrlen t)) 2 topicFilters"

fun write_topics :: "MQTTString list \<Rightarrow> nat \<times> u8 list \<Rightarrow> (nat \<times> u8 list) option" where
  "write_topics [] ptr = Some ptr"
| "write_topics (t # ts) ptr = do {
     ptr \<leftarrow> writeMQTTString t ptr;
     write_topics ts ptr
   }"

definition MQTTSerialize_unsubscribe :: "u8 list \<Rightarrow> nat \<Rightarrow> u8 \<Rightarrow> u16 \<Rightarrow> MQTTString list \<Rightarrow> (int \<times> u8 list) option" where
  "MQTTSerialize_unsubscribe buf buflen dup packetid topicFilters =
     (let rem_len = MQTTSerialize_unsubscribeLength topicFilters
      in if MQTTPacket_len rem_len > buflen then Some (MQTTPACKET_BUFFER_TOO_SHORT, buf)
         else do {
           ptr \<leftarrow> writeChar (MQTTHeader UNSUBSCRIBE dup 1 0) (0, buf);
           ptr \<leftarrow> put_bytes (MQTTPacket_encode rem_len) ptr;
           ptr \<leftarrow> writeInt (unat packetid) ptr;
           ptr \<leftarrow> write_topics topicFilters ptr;
           packet_done ptr
         })"

definition MQTTDeserialize_unsuback :: "u16 \<Rightarrow> u8 list \<Rightarrow> (int \<times> u16) option" where
  "MQTTDeserialize_unsuback packetid buf = do {
     (rc, type, dup, packetid) \<leftarrow> MQTTDeserialize_ack (0, 0, packetid) buf;
     Some (if type = UNSUBACK then 1 else rc, packetid)
   }"

definition MQTTSerialize_unsuback :: "u8 list \<Rightarrow> nat \<Rightarrow> u16 \<Rightarrow> (int \<times> u8 list) option" where
  "MQTTSerialize_unsuback buf buflen packetid =
     (if buflen < 2 then Some (MQTTPACKET_BUFFER_TOO_SHORT, buf)
      else do {
        ptr \<leftarrow> writeChar (MQTTHeader UNSUBACK 0 0 0) (0, buf);
        ptr \<leftarrow> put_bytes (MQTTPacket_encode 2) ptr;
        ptr \<leftarrow> writeInt (unat packetid) ptr;
        packet_done ptr
      })"

end
