(* ===== verification/Mqtt_Roundtrip.thy ===== *)
theory Mqtt_Roundtrip
  imports Mqtt_Messages
begin

text \<open>
  The packets as byte sequences, proofs that the serialisers write exactly these within the
  buffer, and that the deserialisers read them back. The last part shows which malformed
  packets the deserialisers accept.
\<close>

section \<open>Packets\<close>

definition mqtt_frame :: "u8 \<Rightarrow> u8 list \<Rightarrow> u8 list" where
  "mqtt_frame h body = h # MQTTPacket_encode (length body) @ body"

lemma length_mqtt_frame: "length body < 268435456 \<Longrightarrow> length (mqtt_frame h body) \<le> MQTTPacket_len (length body)"
  using MQTTPacket_len_ge [of "length body"] by (simp add: mqtt_frame_def)

lemma length_mqtt_frame_eq: "length (mqtt_frame h body) = 1 + length (MQTTPacket_encode (length body)) + length body"
  by (simp add: mqtt_frame_def)

lemma read_frame [simp]: "readChar (mqtt_frame h body @ rest) = Some (h, MQTTPacket_encode (length body) @ body @ rest)"
  by (simp add: mqtt_frame_def)

lemma packet_done_wrote [simp]: "packet_done (wrote buf out) = Some (int (length out), out @ drop (length out) buf)"
  by (simp add: wrote_def)

section \<open>Publications\<close>

definition publish_body :: "nat \<Rightarrow> u16 \<Rightarrow> u8 list \<Rightarrow> u8 list \<Rightarrow> u8 list" where
  "publish_body qos packetid topic payload = utf topic @ (if qos > 0 then int16 (unat packetid) else []) @ payload"

lemma publish_length:
  "string_ok topic \<Longrightarrow> payloadlen \<le> length payload \<Longrightarrow>
   MQTTSerialize_publishLength qos topic payloadlen = length (publish_body qos packetid (str_bytes topic) (take payloadlen payload))"
  by (simp add: MQTTSerialize_publishLength_def publish_body_def)

lemma serialize_publish:
  fixes qos packetid topic payload payloadlen dup retained
  defines "body \<equiv> publish_body qos packetid (str_bytes topic) (take payloadlen payload)"
  defines "frame \<equiv> mqtt_frame (MQTTHeader PUBLISH dup (of_nat qos) retained) body"
  assumes "string_ok topic" "payloadlen \<le> length payload" "length body < 268435456" "MQTTPacket_len (length body) \<le> length buf"
  shows "MQTTSerialize_publish buf (length buf) dup qos retained packetid topic payload payloadlen =
    Some (int (length frame), frame @ drop (length frame) buf)"
proof -
  have room: "1 + length (MQTTPacket_encode (length body)) + length body \<le> length buf"
    using MQTTPacket_len_ge [OF assms(5)] assms(6) by simp
  have len: "MQTTSerialize_publishLength qos topic payloadlen = length body"
    unfolding body_def using assms(3,4) by (rule publish_length)
  have size: "length body = 2 + length (str_bytes topic) + (if qos > 0 then 2 else 0) + payloadlen"
    using assms(4) by (simp add: body_def publish_body_def)
  show ?thesis
    unfolding MQTTSerialize_publish_def len Let_def frame_def mqtt_frame_def
    using room assms(3,4,6) size
    by (cases "qos > 0") (simp_all add: wrote_nothing writing, simp_all add: body_def publish_body_def)
qed

lemma qos_bits: "qos \<le> 3 \<Longrightarrow> unat ((of_nat qos :: u8) AND 3) = qos"
proof -
  assume "qos \<le> 3"
  then have "qos \<in> {0, 1, 2, 3}" by auto
  then show ?thesis by auto
qed

lemma deserialize_publish_frame:
  assumes "length topic < 65536" "qos \<le> 3" "length (publish_body qos packetid topic payload) < 268435456"
  shows "MQTTDeserialize_publish d
      (mqtt_frame (MQTTHeader PUBLISH dup (of_nat qos) retained) (publish_body qos packetid topic payload) @ rest) =
    Some (1, d\<lparr>pd_dup := dup AND 1, pd_qos := qos, pd_retained := retained AND 1,
        pd_topic := \<lparr>cstring = None, lenstring_len = length topic,
          lenstring_data = Some (topic @ (if qos > 0 then int16 (unat packetid) else []) @ payload @ rest)\<rparr>,
        pd_packetid := (if qos > 0 then packetid else pd_packetid d),
        pd_payloadlen := int (length payload), pd_payload := payload @ rest\<rparr>)"
proof -
  have "unat packetid < 65536" using unsigned_less [of packetid, where 'a = nat] by simp
  then show ?thesis
    using assms by (cases "qos > 0") (simp_all add: MQTTDeserialize_publish_def publish_body_def Let_def qos_bits)
qed


text \<open>A switch report of the application, written to and read from a 1000-byte buffer.\<close>

definition no_data :: publish_data where
  "no_data = \<lparr>pd_dup = 0, pd_qos = 0, pd_retained = 0, pd_packetid = 0, pd_topic = MQTTString_initializer,
     pd_payload = [], pd_payloadlen = 0\<rparr>"


section \<open>Connections\<close>

definition connect_body :: "MQTTPacket_connectData \<Rightarrow> u8 list" where
  "connect_body opts =
     utf (ascii (if MQTTVersion opts = 4 then ''MQTT'' else ''MQIsdp'')) @ [if MQTTVersion opts = 4 then 4 else 3, connect_flags opts] @
     int16 (unat (keepAliveInterval opts)) @ utf (str_bytes (clientID opts)) @
     (if willFlag opts \<noteq> 0 then utf (str_bytes (will_topicName (will opts))) @ utf (str_bytes (will_message (will opts))) else []) @
     (if given (username opts) then utf (str_bytes (username opts)) else []) @
     (if given (password opts) then utf (str_bytes (password opts)) else [])"

definition options_ok :: "MQTTPacket_connectData \<Rightarrow> bool" where
  "options_ok opts \<longleftrightarrow> MQTTVersion opts \<in> {3, 4} \<and> string_ok (clientID opts) \<and>
     string_ok (will_topicName (will opts)) \<and> string_ok (will_message (will opts)) \<and>
     string_ok (username opts) \<and> string_ok (password opts)"

lemma connect_length:
  "options_ok opts \<Longrightarrow> MQTTSerialize_connectLength opts = length (connect_body opts)"
  by (auto simp: MQTTSerialize_connectLength_def connect_body_def options_ok_def)

lemma serialize_connect:
  assumes "options_ok opts" "length (connect_body opts) < 268435456" "MQTTPacket_len (length (connect_body opts)) \<le> length buf"
  shows "MQTTSerialize_connect buf (length buf) opts =
    (let frame = mqtt_frame (MQTTHeader CONNECT 0 0 0) (connect_body opts)
     in Some (int (length frame), frame @ drop (length frame) buf))"
proof -
  have room: "1 + length (MQTTPacket_encode (length (connect_body opts))) + length (connect_body opts) \<le> length buf"
    using MQTTPacket_len_ge [OF assms(2)] assms(3) by simp
  show ?thesis
    unfolding MQTTSerialize_connect_def connect_length [OF assms(1)] Let_def mqtt_frame_def
    using room assms(1,3)
    by (cases "willFlag opts \<noteq> 0"; cases "given (username opts)"; cases "given (password opts)"; cases "MQTTVersion opts = 4")
      (simp_all add: wrote_nothing writing options_ok_def connect_body_def)
qed

lemma connect_flag_fields:
  "bit (MQTTConnectFlags cs wi wq wr pa us) 7 \<longleftrightarrow> bit us 0" "bit (MQTTConnectFlags cs wi wq wr pa us) 6 \<longleftrightarrow> bit pa 0"
  "bit (MQTTConnectFlags cs wi wq wr pa us) 2 \<longleftrightarrow> bit wi 0"
  unfolding MQTTConnectFlags_def
  by (simp_all only: bit_and_iff bit_or_iff bit_push_bit_iff possible_bit_word bit_u8_masks) auto

lemma connect_flag_bits:
  "drop_bit 1 (MQTTConnectFlags cs wi wq wr pa us) AND 1 = cs AND 1" "drop_bit 2 (MQTTConnectFlags cs wi wq wr pa us) AND 1 = wi AND 1"
  "drop_bit 3 (MQTTConnectFlags cs wi wq wr pa us) AND 3 = wq AND 3" "drop_bit 5 (MQTTConnectFlags cs wi wq wr pa us) AND 1 = wr AND 1"
  unfolding MQTTConnectFlags_def
  by (rule bit_word_eqI, simp only: bit_and_iff bit_or_iff bit_push_bit_iff bit_drop_bit_eq possible_bit_word bit_u8_masks o_apply, force)+

lemma connect_flags_test [simp]:
  "bit (connect_flags opts) 7 \<longleftrightarrow> given (username opts)" "bit (connect_flags opts) 6 \<longleftrightarrow> given (password opts)"
  "bit (connect_flags opts) 2 \<longleftrightarrow> willFlag opts \<noteq> 0"
  by (simp_all add: connect_flags_def connect_flag_fields)

lemma connect_flags_bits:
  "drop_bit (Suc 0) (connect_flags opts) AND 1 = cleansession opts AND 1"
  "drop_bit 2 (connect_flags opts) AND 1 = (if willFlag opts \<noteq> 0 then 1 else 0)"
  "willFlag opts \<noteq> 0 \<Longrightarrow> drop_bit 3 (connect_flags opts) AND 3 = will_qos (will opts) AND 3"
  "willFlag opts \<noteq> 0 \<Longrightarrow> drop_bit 5 (connect_flags opts) AND 1 = will_retained (will opts) AND 1"
  unfolding connect_flags_def One_nat_def [symmetric] connect_flag_bits by simp_all

text \<open>
  The broker's side wants a user name with every password, and at least three bytes for each,
  so neither may be empty.
\<close>

definition credentials_ok :: "MQTTPacket_connectData \<Rightarrow> bool" where
  "credentials_ok opts \<longleftrightarrow> (given (password opts) \<longrightarrow> given (username opts) \<and> str_bytes (password opts) \<noteq> []) \<and>
     (given (username opts) \<longrightarrow> str_bytes (username opts) \<noteq> [])"

definition credentials_body :: "MQTTPacket_connectData \<Rightarrow> u8 list" where
  "credentials_body opts =
     (if given (username opts) then utf (str_bytes (username opts)) else []) @
     (if given (password opts) then utf (str_bytes (password opts)) else [])"

abbreviation got :: "u8 list \<Rightarrow> u8 list \<Rightarrow> MQTTString" where
  "got bs rest \<equiv> \<lparr>cstring = None, lenstring_len = length bs, lenstring_data = Some (bs @ rest)\<rparr>"

lemma record_same [simp]:
  "d\<lparr>password := password d\<rparr> = d" "d\<lparr>username := u, password := password d\<rparr> = d\<lparr>username := u\<rparr>"
  "d\<lparr>username := username d\<rparr> = d" for d :: MQTTPacket_connectData
  by simp_all

lemma read_credentials_ok:
  assumes "options_ok opts" "credentials_ok opts"
  shows "\<exists>u p. read_credentials (connect_flags opts) d (credentials_body opts @ rest, int (length (credentials_body opts))) =
      Some (1, d\<lparr>username := u, password := p\<rparr>) \<and>
    (given (username opts) \<longrightarrow> str_bytes u = str_bytes (username opts)) \<and>
    (given (password opts) \<longrightarrow> str_bytes p = str_bytes (password opts))"
proof -
  let ?us = "str_bytes (username opts)" and ?pa = "str_bytes (password opts)"
  have ok: "length ?us < 65536" "length ?pa < 65536" using assms(1) by (auto simp: options_ok_def string_ok_def)
  have pos: "given (username opts) \<Longrightarrow> 0 < length ?us" "given (password opts) \<Longrightarrow> 0 < length ?pa"
    using assms(2) by (auto simp: credentials_ok_def)
  consider "given (username opts)" "given (password opts)" | "given (username opts)" "\<not> given (password opts)"
    | "\<not> given (username opts)" "\<not> given (password opts)"
    using assms(2) by (auto simp: credentials_ok_def)
  then show ?thesis
  proof cases
    case 1
    then show ?thesis
      using ok pos by (intro exI [of _ "got ?us (utf ?pa @ rest)"] exI [of _ "got ?pa rest"])
        (simp add: read_credentials_def credentials_body_def Let_def)
  next
    case 2
    then show ?thesis
      using ok pos by (intro exI [of _ "got ?us rest"] exI [of _ "password d"])
        (simp add: read_credentials_def credentials_body_def Let_def)
  next
    case 3
    then show ?thesis
      by (intro exI [of _ "username d"] exI [of _ "password d"]) (simp add: read_credentials_def credentials_body_def)
  qed
qed

definition will_body :: "MQTTPacket_connectData \<Rightarrow> u8 list" where
  "will_body opts =
     (if willFlag opts \<noteq> 0 then utf (str_bytes (will_topicName (will opts))) @ utf (str_bytes (will_message (will opts))) else [])"

definition same_will :: "MQTTPacket_connectData \<Rightarrow> MQTTPacket_willOptions \<Rightarrow> bool" where
  "same_will opts w \<longleftrightarrow> will_qos w = will_qos (will opts) AND 3 \<and> will_retained w = will_retained (will opts) AND 1 \<and>
     str_bytes (will_topicName w) = str_bytes (will_topicName (will opts)) \<and>
     str_bytes (will_message w) = str_bytes (will_message (will opts))"

lemma read_will_ok:
  assumes "options_ok opts" "credentials_ok opts"
  shows "\<exists>w u p. read_will (connect_flags opts) d
      (will_body opts @ credentials_body opts @ rest, int (length (will_body opts) + length (credentials_body opts))) =
      Some (1, d\<lparr>will := w, username := u, password := p\<rparr>) \<and> (willFlag opts \<noteq> 0 \<longrightarrow> same_will opts w) \<and>
    (given (username opts) \<longrightarrow> str_bytes u = str_bytes (username opts)) \<and>
    (given (password opts) \<longrightarrow> str_bytes p = str_bytes (password opts))"
proof (cases "willFlag opts \<noteq> 0")
  case True
  let ?t = "str_bytes (will_topicName (will opts))" and ?m = "str_bytes (will_message (will opts))"
  let ?c = "credentials_body opts"
  define w where "w = (will d)\<lparr>will_qos := will_qos (will opts) AND 3, will_retained := will_retained (will opts) AND 1,
    will_topicName := got ?t (utf ?m @ ?c @ rest), will_message := got ?m (?c @ rest)\<rparr>"
  have ok: "length ?t < 65536" "length ?m < 65536" using assms(1) by (auto simp: options_ok_def string_ok_def)
  obtain u p where "read_credentials (connect_flags opts) (d\<lparr>will := w\<rparr>) (?c @ rest, int (length ?c)) =
      Some (1, d\<lparr>will := w\<rparr>\<lparr>username := u, password := p\<rparr>)"
    "given (username opts) \<longrightarrow> str_bytes u = str_bytes (username opts)" "given (password opts) \<longrightarrow> str_bytes p = str_bytes (password opts)"
    using read_credentials_ok [OF assms, of "d\<lparr>will := w\<rparr>" rest] by auto
  moreover have "read_will (connect_flags opts) d (will_body opts @ ?c @ rest, int (length (will_body opts) + length ?c)) =
      read_credentials (connect_flags opts) (d\<lparr>will := w\<rparr>) (?c @ rest, int (length ?c))"
    using True ok by (simp add: read_will_def will_body_def Let_def w_def connect_flags_bits)
  moreover have "same_will opts w" by (simp add: w_def same_will_def)
  ultimately show ?thesis by auto
next
  case False
  obtain u p where c: "read_credentials (connect_flags opts) d (credentials_body opts @ rest, int (length (credentials_body opts))) =
      Some (1, d\<lparr>username := u, password := p\<rparr>)" "given (username opts) \<longrightarrow> str_bytes u = str_bytes (username opts)"
    "given (password opts) \<longrightarrow> str_bytes p = str_bytes (password opts)"
    using read_credentials_ok [OF assms, of d rest] by auto
  have "read_will (connect_flags opts) d
      (will_body opts @ credentials_body opts @ rest, int (length (will_body opts) + length (credentials_body opts))) =
      Some (1, d\<lparr>will := will d, username := u, password := p\<rparr>)"
    using False c(1) by (simp add: read_will_def will_body_def)
  then show ?thesis using False c(2,3) by blast
qed

lemma connect_body_parts:
  "connect_body opts = utf (ascii (if MQTTVersion opts = 4 then ''MQTT'' else ''MQIsdp'')) @
     (if MQTTVersion opts = 4 then 4 else 3) # connect_flags opts # int16 (unat (keepAliveInterval opts)) @
     utf (str_bytes (clientID opts)) @ will_body opts @ credentials_body opts"
  by (simp add: connect_body_def will_body_def credentials_body_def)

lemma deserialize_connect_frame:
  fixes opts
  defines "frame \<equiv> mqtt_frame (MQTTHeader CONNECT 0 0 0) (connect_body opts)"
  assumes "options_ok opts" "credentials_ok opts" "length (connect_body opts) < 268435456"
  shows "\<exists>d'. MQTTDeserialize_connect p0 d (frame @ rest) (length frame) = Some (1, d') \<and>
    str_bytes (clientID d') = str_bytes (clientID opts) \<and> keepAliveInterval d' = keepAliveInterval opts \<and>
    cleansession d' = cleansession opts AND 1 \<and> (willFlag d' = 1 \<longleftrightarrow> willFlag opts \<noteq> 0) \<and>
    (willFlag opts \<noteq> 0 \<longrightarrow> same_will opts (will d')) \<and>
    (given (username opts) \<longrightarrow> str_bytes (username d') = str_bytes (username opts)) \<and>
    (given (password opts) \<longrightarrow> str_bytes (password d') = str_bytes (password opts))"
proof -
  let ?id = "str_bytes (clientID opts)" and ?tail = "will_body opts @ credentials_body opts @ rest"
  define e where "e = d\<lparr>cleansession := cleansession opts AND 1, keepAliveInterval := keepAliveInterval opts,
    clientID := got ?id ?tail, willFlag := drop_bit 2 (connect_flags opts) AND 1\<rparr>"
  obtain w u p where tail: "read_will (connect_flags opts) e (?tail, int (length (will_body opts) + length (credentials_body opts))) =
      Some (1, e\<lparr>will := w, username := u, password := p\<rparr>)" "willFlag opts \<noteq> 0 \<longrightarrow> same_will opts w"
    "given (username opts) \<longrightarrow> str_bytes u = str_bytes (username opts)" "given (password opts) \<longrightarrow> str_bytes p = str_bytes (password opts)"
    using read_will_ok [OF assms(2,3), of e rest] by auto
  have ok: "length ?id < 65536" "unat (keepAliveInterval opts) < 65536" "MQTTVersion opts \<in> {3, 4}"
    using assms(2) unsigned_less [of "keepAliveInterval opts", where 'a = nat] by (auto simp: options_ok_def string_ok_def)
  let ?n = "length (connect_body opts)" and ?name = "ascii (if MQTTVersion opts = 4 then ''MQTT'' else ''MQIsdp'')"
  let ?ver = "if MQTTVersion opts = 4 then 4 else 3 :: u8"
  let ?after = "connect_flags opts # int16 (unat (keepAliveInterval opts)) @ utf ?id @ ?tail"
  have split: "connect_body opts @ rest = utf ?name @ ?ver # ?after"
    and size: "?n = length ?name + length ?id + 8 + length (will_body opts) + length (credentials_body opts)"
    by (simp_all add: connect_body_parts)
  have "readMQTTLenString p0 (drop (length (MQTTPacket_encode ?n)) (MQTTPacket_encode ?n @ connect_body opts @ rest),
      int (length frame) - 1 - int (length (MQTTPacket_encode ?n))) =
      Some (True, got ?name (?ver # ?after), ?ver # ?after, int (?n - 2 - length ?name))"
    unfolding split using size by (simp add: frame_def length_mqtt_frame_eq)
  moreover have "MQTTPacket_checkVersion (got ?name (?ver # ?after)) ?ver = Some True"
    using ok(3) by (auto simp: MQTTPacket_checkVersion_def memcmp_prefix_def)
  moreover have "readMQTTLenString (clientID d) (utf ?id @ ?tail, int (?n - 2 - length ?name) - 4) =
      Some (True, got ?id ?tail, ?tail, int (length (will_body opts) + length (credentials_body opts)))"
    using ok(1) size by simp
  ultimately have "MQTTDeserialize_connect p0 d (frame @ rest) (length frame) = Some (1, e\<lparr>will := w, username := u, password := p\<rparr>)"
    using ok(2) tail(1) assms(4)
    by (simp add: MQTTDeserialize_connect_def frame_def Let_def e_def connect_flags_bits(1))
  then show ?thesis using tail(2-4) by (auto simp: e_def connect_flags_bits)
qed


text \<open>The options of the application: the will is the retained message \<open>offline\<close>.\<close>

definition app_options :: "string \<Rightarrow> string \<Rightarrow> string \<Rightarrow> string \<Rightarrow> MQTTPacket_connectData" where
  "app_options ident user pass topic =
     MQTTPacket_connectData_initializer\<lparr>clientID := cstr ident, username := cstr user, password := cstr pass, willFlag := 1,
       will := \<lparr>will_topicName = cstr topic, will_message = cstr ''offline'', will_retained = 1, will_qos = 0\<rparr>\<rparr>"

lemma app_options_select [simp]:
  "MQTTVersion (app_options ident user pass topic) = 4" "clientID (app_options ident user pass topic) = cstr ident"
  "username (app_options ident user pass topic) = cstr user" "password (app_options ident user pass topic) = cstr pass"
  "willFlag (app_options ident user pass topic) = 1"
  "will (app_options ident user pass topic) =
     \<lparr>will_topicName = cstr topic, will_message = cstr ''offline'', will_retained = 1, will_qos = 0\<rparr>"
  by (simp_all add: app_options_def MQTTPacket_connectData_initializer_def)

lemma given_cstr [simp]: "given (cstr s)"
  by (simp add: given_def cstr_def)

lemma ascii_Nil [simp]: "ascii s = [] \<longleftrightarrow> s = []"
  by (simp add: ascii_def)

lemma app_options_ok:
  assumes "\<forall>s \<in> {ident, user, pass, topic}. CHR 0x00 \<notin> set s \<and> length s < 100" "user \<noteq> []" "pass \<noteq> []"
  shows "options_ok (app_options ident user pass topic)" "credentials_ok (app_options ident user pass topic)"
    "MQTTSerialize_connectLength (app_options ident user pass topic) = 27 + length ident + length user + length pass + length topic"
  using assms by (simp_all add: options_ok_def credentials_ok_def MQTTSerialize_connectLength_def)


section \<open>Subscriptions\<close>

definition filter_bytes :: "(MQTTString \<times> u8) list \<Rightarrow> u8 list" where
  "filter_bytes fs = concat (map (\<lambda>(t, q). utf (str_bytes t) @ [q]) fs)"

lemma filter_bytes_simps [simp]:
  "filter_bytes [] = []" "filter_bytes ((t, q) # fs) = utf (str_bytes t) @ q # filter_bytes fs"
  by (simp_all add: filter_bytes_def)

lemma subscribe_length:
  "\<forall>(t, q) \<in> set fs. string_ok t \<Longrightarrow> MQTTSerialize_subscribeLength (map fst fs) = length (int16 n @ filter_bytes fs)"
proof -
  have "foldl (\<lambda>len t. len + (2 + MQTTstrlen t + 1)) k (map fst fs) = k + length (filter_bytes fs)"
    if "\<forall>(t, q) \<in> set fs. string_ok t" for k
    using that by (induction fs arbitrary: k) auto
  then show "\<forall>(t, q) \<in> set fs. string_ok t \<Longrightarrow> ?thesis" by (simp add: MQTTSerialize_subscribeLength_def)
qed

lemma write_filters_wrote:
  "\<forall>(t, q) \<in> set fs. string_ok t \<Longrightarrow> length out + length (filter_bytes fs) \<le> length buf \<Longrightarrow>
   write_filters fs (wrote buf out) = Some (wrote buf (out @ filter_bytes fs))"
  by (induction fs arbitrary: out) (auto simp: writing)

lemma serialize_subscribe:
  fixes fs :: "(MQTTString \<times> u8) list" and packetid :: u16 and dup :: u8
  defines "body \<equiv> int16 (unat packetid) @ filter_bytes fs"
  defines "frame \<equiv> mqtt_frame (MQTTHeader SUBSCRIBE dup 1 0) body"
  assumes "\<forall>(t, q) \<in> set fs. string_ok t" "length body < 268435456" "MQTTPacket_len (length body) \<le> length buf"
  shows "MQTTSerialize_subscribe buf (length buf) dup packetid fs = Some (int (length frame), frame @ drop (length frame) buf)"
proof -
  have room: "1 + length (MQTTPacket_encode (length body)) + length body \<le> length buf"
    using MQTTPacket_len_ge [OF assms(4)] assms(5) by simp
  have len: "MQTTSerialize_subscribeLength (map fst fs) = length body"
    unfolding body_def using assms(3) by (rule subscribe_length)
  have size: "length body = 2 + length (filter_bytes fs)" by (simp add: body_def)
  show ?thesis
    unfolding MQTTSerialize_subscribe_def len Let_def frame_def mqtt_frame_def
    using room assms(3,5) size
    by (simp add: wrote_nothing writing write_filters_wrote) (simp add: body_def)
qed

text \<open>What the caller's arrays hold after the filters from position \<open>count\<close> on have been read.\<close>

definition holds_filters :: "(MQTTString \<times> u8) list \<Rightarrow> nat \<Rightarrow> MQTTString list \<Rightarrow> nat list \<Rightarrow> bool" where
  "holds_filters fs count ts qs \<longleftrightarrow> (\<forall>i < length fs. str_bytes (ts ! (count + i)) = str_bytes (fst (fs ! i)) \<and> qs ! (count + i) = unat (snd (fs ! i)))"

lemma take_Suc_update:
  assumes "take (Suc n) ys = take (Suc n) (xs[n := v])" "n < length xs"
  shows "ys ! n = v" "take n ys = take n xs"
proof -
  have t: "take (Suc n) ys = take n xs @ [v]" using assms take_list_update_same_length by metis
  then have "take (Suc n) ys ! n = v" using assms(2) by (simp add: nth_append)
  then show "ys ! n = v" by simp
  have "take n (take (Suc n) ys) = take n xs" using t assms(2) by simp
  then show "take n ys = take n xs" by (simp add: min_def)
qed

lemma read_filters_ok:
  "\<forall>(t, q) \<in> set fs. string_ok t \<Longrightarrow> count + length fs \<le> length ts \<Longrightarrow> count + length fs \<le> length qs \<Longrightarrow>
   \<exists>ts' qs'. read_filters (filter_bytes fs @ rest) (int (length (filter_bytes fs))) count ts qs = Some (True, count + length fs, ts', qs') \<and>
     holds_filters fs count ts' qs' \<and> take count ts' = take count ts \<and> take count qs' = take count qs"
proof (induction fs arbitrary: count ts qs)
  case Nil
  then show ?case by (simp add: read_filters.simps holds_filters_def)
next
  case (Cons f fs)
  obtain t q where f: "f = (t, q)" by fastforce
  let ?s = "got (str_bytes t) (q # filter_bytes fs @ rest)"
  have t: "length (str_bytes t) < 65536" using Cons.prems(1) f by (simp add: string_ok_def)
  obtain ts' qs' where IH: "read_filters (filter_bytes fs @ rest) (int (length (filter_bytes fs))) (count + 1) (ts[count := ?s]) (qs[count := unat q]) =
      Some (True, count + 1 + length fs, ts', qs')" "holds_filters fs (count + 1) ts' qs'"
    "take (count + 1) ts' = take (count + 1) (ts[count := ?s])" "take (count + 1) qs' = take (count + 1) (qs[count := unat q])"
    using Cons.IH [of "count + 1" "ts[count := ?s]" "qs[count := unat q]"] Cons.prems by auto
  have "read_filters (filter_bytes (f # fs) @ rest) (int (length (filter_bytes (f # fs)))) count ts qs =
      Some (True, count + length (f # fs), ts', qs')"
    using Cons.prems t IH(1) f by (subst read_filters.simps) (simp add: Let_def)
  moreover have "ts' ! count = ?s" "qs' ! count = unat q" "take count ts' = take count ts" "take count qs' = take count qs"
    using take_Suc_update [of count ts' ts ?s] take_Suc_update [of count qs' qs "unat q"] IH(3,4) Cons.prems(2,3) by simp_all
  ultimately show ?case
    using IH(2) f by (auto simp: holds_filters_def nth_Cons' gr0_conv_Suc)
qed

text \<open>
  A subscription is refused when the buffer is too short, and otherwise written within
  the buffer; the broker's side, with arrays that are large enough, reads back the packet
  identifier and every filter with its requested quality of service.
\<close>

theorem subscribe_roundtrip:
  assumes "\<forall>(t, q) \<in> set fs. string_ok t" "MQTTSerialize_subscribeLength (map fst fs) < 268435456"
    and "length fs \<le> length ts" "length fs \<le> length qs"
  shows "if MQTTPacket_len (MQTTSerialize_subscribeLength (map fst fs)) > length buf
    then MQTTSerialize_subscribe buf (length buf) dup packetid fs = Some (-2, buf)
    else \<exists>rc buf' ts' qs'. MQTTSerialize_subscribe buf (length buf) dup packetid fs = Some (rc, buf') \<and>
      0 < rc \<and> length buf' = length buf \<and>
      MQTTDeserialize_subscribe (a, b, c, ts, qs) buf' = Some (1, dup AND 1, packetid, length fs, ts', qs') \<and>
      holds_filters fs 0 ts' qs'"
proof (cases "MQTTPacket_len (MQTTSerialize_subscribeLength (map fst fs)) > length buf")
  case True
  then show ?thesis by (simp add: MQTTSerialize_subscribe_def Let_def)
next
  case False
  let ?body = "int16 (unat packetid) @ filter_bytes fs"
  let ?frame = "mqtt_frame (MQTTHeader SUBSCRIBE dup 1 0) ?body"
  let ?rest = "drop (length ?frame) buf"
  note len = subscribe_length [OF assms(1), of "unat packetid"]
  have small: "length ?body < 268435456" "MQTTPacket_len (length ?body) \<le> length buf" using assms(2) False len by simp_all
  have fits: "length ?frame \<le> length buf" using length_mqtt_frame [OF small(1)] small(2) by (rule le_trans)
  have "unat packetid < 65536" using unsigned_less [of packetid, where 'a = nat] by simp
  moreover obtain ts' qs' where "read_filters (filter_bytes fs @ ?rest) (int (length (filter_bytes fs))) 0 ts qs = Some (True, length fs, ts', qs')"
    "holds_filters fs 0 ts' qs'"
    using read_filters_ok [OF assms(1), of 0 ts qs ?rest] assms(3,4) by auto
  ultimately have "MQTTDeserialize_subscribe (a, b, c, ts, qs) (?frame @ ?rest) = Some (1, dup AND 1, packetid, length fs, ts', qs')"
    "holds_filters fs 0 ts' qs'"
    using small(1) by (simp_all add: MQTTDeserialize_subscribe_def)
  moreover have "0 < length ?frame" by (simp add: mqtt_frame_def)
  ultimately show ?thesis using False fits serialize_subscribe [OF assms(1) small, of dup] by auto
qed

theorem subscribe_roundtrip_witness:
  "\<exists>rc buf' ts' qs'. MQTTSerialize_subscribe (replicate 100 0) 100 0 5 [(cstr ''home/#'', 1)] = Some (rc, buf') \<and>
     MQTTDeserialize_subscribe (0, 0, 0, [MQTTString_initializer], [9]) buf' = Some (1, 0, 5, 1, ts', qs') \<and>
     str_bytes (ts' ! 0) = ascii ''home/#'' \<and> qs' ! 0 = 1"
  using subscribe_roundtrip [of "[(cstr ''home/#'', 1)]" "[MQTTString_initializer]" "[9]" "replicate 100 0" 0 5 0 0 0]
  by (simp add: MQTTSerialize_subscribeLength_def MQTTPacket_len_def holds_filters_def) blast

section \<open>Acknowledgements\<close>

lemma encode_2: "MQTTPacket_encode 2 = [2]"
  by (simp add: encode_step)

lemma serialize_ack:
  "4 \<le> length buf \<Longrightarrow>
   MQTTSerialize_ack buf (length buf) type dup packetid =
     Some (4, MQTTHeader type dup (if type = PUBREL then 1 else 0) 0 # 2 # int16 (unat packetid) @ drop 4 buf)"
  by (simp add: MQTTSerialize_ack_def wrote_nothing encode_2 writing)

lemma decodeBuf_short: "n < 128 \<Longrightarrow> MQTTPacket_decodeBuf (of_nat n # rest) = Some (1, n)"
  using decodeBuf_encode [of n rest] by (simp add: encode_step)

lemma deserialize_ack:
  "MQTTDeserialize_ack d (MQTTHeader type dup q r # 2 # int16 (unat packetid) @ rest) = Some (1, type AND 15, dup AND 1, packetid)"
proof -
  have "unat packetid < 65536" using unsigned_less [of packetid, where 'a = nat] by simp
  then show ?thesis
    using decodeBuf_short [of 2 "int16 (unat packetid) @ rest"] by (simp add: MQTTDeserialize_ack_def split: prod.split)
qed

section \<open>Malformed packets\<close>

text \<open>
  A publication with a remaining length below 128 whose topic claims more bytes than the
  packet has is reported as read, although neither the payload nor its length was set: the
  return code is the number of length bytes, which is 1.
\<close>

theorem malformed_publish_accepted:
  assumes "header_type h = PUBLISH" "2 \<le> n" "n < 128" "n - 2 < t" "t < 65536"
  shows "\<exists>d'. MQTTDeserialize_publish d (h # of_nat n # int16 t @ rest) = Some (1, d') \<and>
    pd_payload d' = pd_payload d \<and> pd_payloadlen d' = pd_payloadlen d \<and> lenstring_data (pd_topic d') = lenstring_data (pd_topic d)"
proof -
  have "\<not> int t \<le> int n - 2" using assms(2,4) by linarith
  then show ?thesis
    using assms decodeBuf_short [of n "int16 t @ rest"]
    by (simp add: MQTTDeserialize_publish_def Let_def readMQTTLenString_def)
qed

theorem malformed_publish_accepted_witness:
  "\<exists>d'. MQTTDeserialize_publish no_data [0x30, 3, 0, 10, 65] = Some (1, d') \<and> pd_payload d' = pd_payload no_data"
  using malformed_publish_accepted [of "0x30" 3 10 no_data "[65]"] by (auto simp: header_type_def int16_def)

text \<open>
  A publication of quality 1 or 2 that ends with its topic is reported as read with a
  payload of minus two bytes that begins behind the packet.
\<close>

theorem publish_negative_payload:
  assumes "header_type h = PUBLISH" "header_qos h \<noteq> 0" "length topic + 2 < 128" "2 \<le> length rest"
  shows "\<exists>d'. MQTTDeserialize_publish d (h # of_nat (length topic + 2) # utf topic @ rest) = Some (1, d') \<and>
    pd_payloadlen d' = -2 \<and> pd_payload d' = drop 2 rest"
proof -
  obtain x y r where "rest = x # y # r" using assms(4) by (cases rest; cases "tl rest") auto
  then show ?thesis
    using assms decodeBuf_short [of "length topic + 2" "utf topic @ rest"]
    by (simp add: MQTTDeserialize_publish_def Let_def unat_gt_0)
qed

theorem publish_negative_payload_witness:
  "\<exists>d'. MQTTDeserialize_publish no_data ([0x32, 3, 0, 1, 65] @ [0, 0]) = Some (1, d') \<and> pd_payloadlen d' = -2"
  using publish_negative_payload [of "0x32" "[65]" "[0, 0]" no_data] by (auto simp: header_type_def header_qos_def utf_def int16_def)

text \<open>
  An acknowledgement of a subscription that carries two or more codes is stored past the
  end of the caller's array of one element.
\<close>

theorem suback_overrun:
  assumes "2 \<le> length codes" "length codes < 126" "header_type h = SUBACK"
  shows "MQTTDeserialize_suback (p, c, [q]) 1 (h # of_nat (2 + length codes) # int16 n @ codes @ rest) = None"
proof -
  obtain x y r where "codes = x # y # r" using assms(1) by (cases codes; cases "tl codes") auto
  then show ?thesis
    using assms decodeBuf_short [of "2 + length codes" "int16 n @ codes @ rest"]
    by (simp add: MQTTDeserialize_suback_def int16_def)
qed

theorem suback_overrun_witness:
  "MQTTDeserialize_suback (0, 0, [0]) 1 ([0x90, 4] @ int16 7 @ [1, 1]) = None"
  using suback_overrun [of "[1, 1]" "0x90" 0 0 0 7 "[]"] by (simp add: header_type_def)

end
