(* ===== verification/Mqtt_Net.thy ===== *)
theory Mqtt_Net
  imports Prelude "HOL-Library.Monad_Syntax"
begin

text \<open>
  The network and timer port of the MQTT client (\<open>MQTTClient-C/src/FreeRTOS/MQTTFreeRTOS.c\<close>) over a
  socket of the TCP/IP stack. The socket is the environment: the bytes that will arrive with
  the time of their arrival, when the peer closes, whether the connection is broken, and what
  the calls that write will accept. \<open>select\<close>, \<open>recv\<close> and \<open>send\<close> act on it as the socket interface
  documents. Time is counted in the ticks of the operating system, 10 ms each.

  The locale \<open>mqtt_transport\<close> states what the client relies on.
\<close>

section \<open>The socket\<close>

record socket =
  now :: nat
  arriving :: "(nat \<times> u8) list"
  closed_at :: "nat option"
  broken :: bool
  writable :: "bool list"
  room :: "int list"
  sent_bytes :: "u8 list"

text \<open>Waiting at most \<open>ticks\<close> until something can be read, the end of the stream included.\<close>

definition select_read :: "nat \<Rightarrow> socket \<Rightarrow> int \<times> socket" where
  "select_read ticks s =
     (if broken s then (-1, s)
      else case (case arriving s of (t, _) # _ \<Rightarrow> Some t | [] \<Rightarrow> closed_at s) of
             Some t \<Rightarrow> if t \<le> now s + ticks then (1, s\<lparr>now := max (now s) t\<rparr>) else (0, s\<lparr>now := now s + ticks\<rparr>)
           | None \<Rightarrow> (0, s\<lparr>now := now s + ticks\<rparr>))"

text \<open>Receiving without waiting: what has arrived, 0 at the end of the stream, else an error.\<close>

definition recv :: "nat \<Rightarrow> socket \<Rightarrow> int \<times> u8 list \<times> socket" where
  "recv n s =
     (let here = take n (takeWhile (\<lambda>(t, _). t \<le> now s) (arriving s))
      in if broken s then (-1, [], s)
         else if here \<noteq> [] then (int (length here), map snd here, s\<lparr>arriving := drop (length here) (arriving s)\<rparr>)
         else if arriving s = [] \<and> (\<exists>t \<in> set_option (closed_at s). t \<le> now s) then (0, [], s)
         else (-1, [], s))"

definition select_write :: "nat \<Rightarrow> socket \<Rightarrow> int \<times> socket" where
  "select_write ticks s =
     (if broken s then (-1, s)
      else case writable s of
             False # ws \<Rightarrow> (0, s\<lparr>writable := ws, now := now s + ticks\<rparr>)
           | True # ws \<Rightarrow> (1, s\<lparr>writable := ws\<rparr>)
           | [] \<Rightarrow> (1, s))"

text \<open>Sending: the next entry of \<open>room\<close> bounds what is accepted; without an entry it is everything.\<close>

definition send :: "u8 list \<Rightarrow> socket \<Rightarrow> int \<times> socket" where
  "send bs s =
     (let (r, rest) = (case room s of [] \<Rightarrow> (int (length bs), []) | r # rs \<Rightarrow> (r, rs))
      in if broken s \<or> r < 0 then (-1, s\<lparr>room := rest\<rparr>)
         else let k = min (nat r) (length bs)
              in (int k, s\<lparr>room := rest, sent_bytes := sent_bytes s @ take k bs\<rparr>))"

section \<open>Timers\<close>

definition portTICK_PERIOD_MS :: nat where "portTICK_PERIOD_MS = 10"

text \<open>A timer is the tick at which it expires.\<close>

definition TimerInit :: nat where "TimerInit = 0"

definition TimerCountdownMS :: "nat \<Rightarrow> nat \<Rightarrow> nat" where
  "TimerCountdownMS timeout_ms t = t + timeout_ms div portTICK_PERIOD_MS"

definition TimerCountdown :: "nat \<Rightarrow> nat \<Rightarrow> nat" where
  "TimerCountdown timeout t = TimerCountdownMS (timeout * 1000) t"

definition TimerLeftMS :: "nat \<Rightarrow> nat \<Rightarrow> nat" where
  "TimerLeftMS timer t = (timer - t) * portTICK_PERIOD_MS"

definition TimerIsExpired :: "nat \<Rightarrow> nat \<Rightarrow> bool" where
  "TimerIsExpired timer t \<longleftrightarrow> timer \<le> t"

section \<open>Reading and writing\<close>

text \<open>
  The loop of \<open>esp_read\<close>: \<open>acc\<close> has been stored in the buffer so far. A call at the end of the stream
  returns 0 at once; the loop then repeats it until the time is over.
\<close>

function read_loop :: "nat \<Rightarrow> nat \<Rightarrow> u8 list \<Rightarrow> socket \<Rightarrow> int \<times> u8 list \<times> socket" where
  "read_loop len deadline acc s =
     (case recv (len - length acc) s of (rc, bs, s') \<Rightarrow>
        if rc < 0 then (rc, acc, s')
        else let s'' = (if rc = 0 then s'\<lparr>now := now s' + 1\<rparr> else s')
             in if length (acc @ bs) < len \<and> now s'' < deadline then read_loop len deadline (acc @ bs) s''
                else (int (length (acc @ bs)), acc @ bs, s''))"
  by pat_completeness auto
termination
  by (relation "measure (\<lambda>(len, deadline, acc, s). (len - length acc) + (deadline - now s))")
    (auto simp: recv_def Let_def split: if_splits simp flip: length_greater_0_conv)

declare read_loop.simps [simp del]

definition esp_read :: "nat \<Rightarrow> nat \<Rightarrow> socket \<Rightarrow> int \<times> u8 list \<times> socket" where
  "esp_read len timeout_ms s =
     (let ticks = timeout_ms div portTICK_PERIOD_MS;
          deadline = now s + ticks
      in case select_read ticks s of (ret, s') \<Rightarrow> if ret \<le> 0 then (ret, [], s') else read_loop len deadline [] s')"

function write_loop :: "u8 list \<Rightarrow> nat \<Rightarrow> nat \<Rightarrow> socket \<Rightarrow> int \<times> socket" where
  "write_loop buffer deadline sentLen s =
     (case send (drop sentLen buffer) s of (rc, s') \<Rightarrow>
        if rc < 0 then (rc, s')
        else let s'' = (if rc = 0 then s'\<lparr>now := now s' + 1\<rparr> else s');
                 sentLen' = sentLen + nat rc
             in if sentLen' < length buffer \<and> now s'' < deadline then write_loop buffer deadline sentLen' s''
                else (int sentLen', s''))"
  by pat_completeness auto
termination
  by (relation "measure (\<lambda>(buffer, deadline, k, s). (length buffer - k) + (deadline - now s))")
    (auto simp: send_def Let_def split: if_splits prod.splits)

declare write_loop.simps [simp del]

definition esp_write :: "u8 list \<Rightarrow> nat \<Rightarrow> socket \<Rightarrow> int \<times> socket" where
  "esp_write buffer timeout_ms s =
     (let ticks = timeout_ms div portTICK_PERIOD_MS;
          deadline = now s + ticks
      in case select_write ticks s of (ret, s') \<Rightarrow> if ret \<le> 0 then (ret, s') else write_loop buffer deadline 0 s')"

section \<open>The interface of the client\<close>

text \<open>The function pointers of \<open>struct Network\<close>, and the clock the timers read.\<close>

record 'w transport =
  mqttread :: "nat \<Rightarrow> nat \<Rightarrow> 'w \<Rightarrow> int \<times> u8 list \<times> 'w"
  mqttwrite :: "u8 list \<Rightarrow> nat \<Rightarrow> 'w \<Rightarrow> int \<times> 'w"
  clock :: "'w \<Rightarrow> nat"

definition NetworkInit :: "socket transport" where
  "NetworkInit = \<lparr>mqttread = esp_read, mqttwrite = esp_write, clock = now\<rparr>"

text \<open>
  A read stores no more than it was asked for and returns the number of bytes it stored, or
  an error; a write accepts no more than it was given; a write that accepts nothing has
  waited for its whole timeout.
\<close>

locale mqtt_transport =
  fixes tr :: "'w transport"
  assumes read_bytes: "mqttread tr n ms w = (rc, bs, w') \<Longrightarrow> length bs \<le> n \<and> rc \<le> int n \<and> (0 < rc \<longrightarrow> int (length bs) = rc)"
    and read_clock: "mqttread tr n ms w = (rc, bs, w') \<Longrightarrow> clock tr w \<le> clock tr w'"
    and write_count: "mqttwrite tr bs ms w = (rc, w') \<Longrightarrow> rc \<le> int (length bs)"
    and write_clock: "mqttwrite tr bs ms w = (rc, w') \<Longrightarrow> clock tr w \<le> clock tr w'"
    and write_waits: "mqttwrite tr bs ms w = (0, w') \<Longrightarrow> bs \<noteq> [] \<Longrightarrow> clock tr w + ms div portTICK_PERIOD_MS \<le> clock tr w'"

text \<open>The TCP port keeps this contract.\<close>

lemma recv_result:
  "recv n s = (rc, bs, s') \<Longrightarrow> length bs \<le> n \<and> now s' = now s \<and> (rc < 0 \<or> int (length bs) = rc)"
  by (auto simp: recv_def Let_def split: if_splits)

lemma read_loop_result:
  "read_loop len deadline acc s = (rc, bs, s') \<Longrightarrow> length acc \<le> len \<Longrightarrow>
   length bs \<le> len \<and> rc \<le> int len \<and> (0 < rc \<longrightarrow> int (length bs) = rc) \<and> now s \<le> now s'"
proof (induction len deadline acc s rule: read_loop.induct)
  case (1 len deadline acc s)
  obtain rc1 bs1 s1 where r: "recv (len - length acc) s = (rc1, bs1, s1)" by (metis prod_cases3)
  let ?s2 = "if rc1 = 0 then s1\<lparr>now := now s1 + 1\<rparr> else s1"
  note res = recv_result [OF r]
  have now: "now s \<le> now ?s2" using res by simp
  show ?case
  proof (cases "0 \<le> rc1 \<and> length (acc @ bs1) < len \<and> now ?s2 < deadline")
    case True
    then have loop: "read_loop len deadline (acc @ bs1) ?s2 = (rc, bs, s')"
      using "1.prems"(1) r by (subst (asm) read_loop.simps) (simp add: Let_def split: if_splits)
    have "length bs \<le> len \<and> rc \<le> int len \<and> (0 < rc \<longrightarrow> int (length bs) = rc) \<and> now ?s2 \<le> now s'"
      using "1.IH" [OF r [symmetric] refl _ refl _ loop] True by auto
    then show ?thesis using now by auto
  next
    case False
    then show ?thesis
      using "1.prems" r res by (subst (asm) read_loop.simps) (auto simp: Let_def split: if_splits)
  qed
qed

lemma send_result:
  "send bs s = (rc, s') \<Longrightarrow> now s' = now s \<and> rc \<le> int (length bs)"
  by (auto simp: send_def Let_def split: if_splits list.splits)

lemma write_loop_result:
  "write_loop buffer deadline k s = (rc, s') \<Longrightarrow> k \<le> length buffer \<Longrightarrow>
   rc \<le> int (length buffer) \<and> now s \<le> now s' \<and> (rc = 0 \<longrightarrow> buffer \<noteq> [] \<longrightarrow> deadline \<le> now s')"
proof (induction buffer deadline k s rule: write_loop.induct)
  case (1 buffer deadline k s)
  obtain rc1 s1 where r: "send (drop k buffer) s = (rc1, s1)" by fastforce
  let ?s2 = "if rc1 = 0 then s1\<lparr>now := now s1 + 1\<rparr> else s1" and ?k = "k + nat rc1"
  have res: "now s1 = now s" "rc1 \<le> int (length buffer - k)" using send_result [OF r] by auto
  then have now: "now s \<le> now ?s2" by simp
  show ?case
  proof (cases "0 \<le> rc1 \<and> ?k < length buffer \<and> now ?s2 < deadline")
    case True
    then have loop: "write_loop buffer deadline ?k ?s2 = (rc, s')"
      using "1.prems"(1) r by (subst (asm) write_loop.simps) (simp add: Let_def split: if_splits)
    have "rc \<le> int (length buffer) \<and> now ?s2 \<le> now s' \<and> (rc = 0 \<longrightarrow> buffer \<noteq> [] \<longrightarrow> deadline \<le> now s')"
      using "1.IH" [OF r [symmetric] _ refl refl _ loop] True by auto
    then show ?thesis using now by auto
  next
    case False
    show ?thesis
    proof (cases "rc1 < 0")
      case True
      then have "rc = rc1" "s' = s1" using "1.prems"(1) r by (subst (asm) write_loop.simps, simp)+
      then show ?thesis using True res by simp
    next
      case pos: False
      then have "rc = int ?k" "s' = ?s2"
        using "1.prems"(1) r False by (subst (asm) write_loop.simps, simp add: Let_def split: if_splits)+
      then show ?thesis using pos False res "1.prems"(2) now by (auto split: if_splits)
    qed
  qed
qed

lemma select_read_clock: "select_read ticks s = (ret, s') \<Longrightarrow> now s \<le> now s'"
  by (auto simp: select_read_def split: if_splits option.splits)

lemma select_write_clock: "select_write ticks s = (ret, s') \<Longrightarrow> now s \<le> now s' \<and> (ret = 0 \<longrightarrow> now s + ticks \<le> now s') \<and> ret \<le> 1"
  by (auto simp: select_write_def split: if_splits list.splits bool.splits)

interpretation tcp: mqtt_transport NetworkInit
proof
  fix n ms and w w' :: socket and rc bs
  assume "mqttread NetworkInit n ms w = (rc, bs, w')"
  then have read: "esp_read n ms w = (rc, bs, w')" by (simp add: NetworkInit_def)
  obtain ret s1 where sel: "select_read (ms div portTICK_PERIOD_MS) w = (ret, s1)" by fastforce
  have now: "now w \<le> now s1" using select_read_clock [OF sel] .
  show "length bs \<le> n \<and> rc \<le> int n \<and> (0 < rc \<longrightarrow> int (length bs) = rc)" and "clock NetworkInit w \<le> clock NetworkInit w'"
    using read now sel read_loop_result [of n "now w + ms div portTICK_PERIOD_MS" "[]" s1 rc bs w']
    by (auto simp: esp_read_def Let_def NetworkInit_def split: if_splits)
next
  fix bs ms and w w' :: socket and rc
  assume "mqttwrite NetworkInit bs ms w = (rc, w')"
  then have wr: "esp_write bs ms w = (rc, w')" by (simp add: NetworkInit_def)
  obtain ret s1 where sel: "select_write (ms div portTICK_PERIOD_MS) w = (ret, s1)" by fastforce
  show "rc \<le> int (length bs)" and "clock NetworkInit w \<le> clock NetworkInit w'"
    using wr select_write_clock [OF sel] sel write_loop_result [of bs "now w + ms div portTICK_PERIOD_MS" 0 s1 rc w']
    by (auto simp: esp_write_def Let_def NetworkInit_def split: if_splits)
next
  fix bs ms and w w' :: socket
  assume "mqttwrite NetworkInit bs ms w = (0, w')" "bs \<noteq> []"
  then have wr: "esp_write bs ms w = (0, w')" by (simp add: NetworkInit_def)
  obtain ret s1 where sel: "select_write (ms div portTICK_PERIOD_MS) w = (ret, s1)" by fastforce
  show "clock NetworkInit w + ms div portTICK_PERIOD_MS \<le> clock NetworkInit w'"
    using wr select_write_clock [OF sel] sel write_loop_result [of bs "now w + ms div portTICK_PERIOD_MS" 0 s1 0 w'] \<open>bs \<noteq> []\<close>
    by (auto simp: esp_write_def Let_def NetworkInit_def split: if_splits)
qed

end
