(* ===== verification/Mqtt_Client.thy ===== *)
theory Mqtt_Client
  imports Mqtt_Roundtrip Mqtt_Net
begin

text \<open>
  The MQTT client (\<open>MQTTClient-C/src/MQTTClient.c\<close>) over any transport. A message handler is a
  value of type \<open>'h\<close>; the calls of handlers are recorded in the client in their order. Every
  operation returns its return code, the client and the state of the transport; \<open>None\<close> is an
  access outside a buffer, or a loop that never ends. What the local structures of \<open>cycle\<close> hold
  before they are filled is the argument \<open>junk\<close>. The mutex is taken and released inside
  every operation and has no counterpart here.
\<close>

section \<open>State\<close>

definition MAX_PACKET_ID :: u32 where "MAX_PACKET_ID = 65535"

definition MAX_MESSAGE_HANDLERS :: nat where "MAX_MESSAGE_HANDLERS = 5"

definition CONFIG_MQTT_SEND_CYCLE :: nat where "CONFIG_MQTT_SEND_CYCLE = 30000"

definition CONFIG_MQTT_PING_TIMEOUT :: nat where "CONFIG_MQTT_PING_TIMEOUT = 3000"

abbreviation (input) BUFFER_OVERFLOW :: int where "BUFFER_OVERFLOW \<equiv> -2"
abbreviation (input) FAILURE :: int where "FAILURE \<equiv> -1"
abbreviation (input) SUCCESS :: int where "SUCCESS \<equiv> 0"

record 'h MQTTClient =
  next_packetid :: u32
  command_timeout_ms :: nat
  c_buf :: "u8 list"
  readbuf :: "u8 list"
  c_keepAliveInterval :: nat
  ping_outstanding :: bool
  c_isconnected :: bool
  c_cleansession :: bool
  messageHandlers :: "(u8 list option \<times> 'h option) list"
  defaultMessageHandler :: "'h option"
  last_sent :: nat
  last_received :: nat
  ping_wait :: nat
  calls :: "('h \<times> publish_data) list"

record junk =
  junk_message :: publish_data
  junk_id :: u16

section \<open>Packets\<close>

definition getNextPacketId :: "'h MQTTClient \<Rightarrow> u32 \<times> 'h MQTTClient" where
  "getNextPacketId c =
     (let n = (if next_packetid c = MAX_PACKET_ID then 1 else next_packetid c + 1)
      in (n, c\<lparr>next_packetid := n\<rparr>))"

text \<open>The loop of \<open>sendPacket\<close>; every write starts at \<open>sent\<close> and asks for the whole length again.\<close>

partial_function (option) send_loop ::
  "'w transport \<Rightarrow> u8 list \<Rightarrow> nat \<Rightarrow> nat \<Rightarrow> nat \<Rightarrow> 'w \<Rightarrow> (nat \<times> 'w) option" where
  "send_loop tr b len timer sent w =
     (if sent < len \<and> \<not> TimerIsExpired timer (clock tr w)
      then if sent + len > length b then None
           else case mqttwrite tr (take len (drop sent b)) (TimerLeftMS timer (clock tr w)) w of
                  (rc, w') \<Rightarrow> if rc < 0 then Some (sent, w') else send_loop tr b len timer (sent + nat rc) w'
      else Some (sent, w))"

definition sendPacket ::
  "'w transport \<Rightarrow> nat \<Rightarrow> nat \<Rightarrow> 'h MQTTClient \<Rightarrow> 'w \<Rightarrow> (int \<times> 'h MQTTClient \<times> 'w) option" where
  "sendPacket tr len timer c w = do {
     (sent, w) \<leftarrow> send_loop tr (c_buf c) len timer 0 w;
     Some (if sent = len
           then (SUCCESS, c\<lparr>last_sent := TimerCountdown (c_keepAliveInterval c) (clock tr w)\<rparr>, w)
           else (FAILURE, c, w))
   }"

definition MQTTClientInit :: "nat \<Rightarrow> u8 list \<Rightarrow> u8 list \<Rightarrow> 'h MQTTClient \<Rightarrow> 'h MQTTClient" where
  "MQTTClientInit timeout_ms sendbuf recvbuf c =
     c\<lparr>messageHandlers := map (\<lambda>(_, fp). (None, fp)) (messageHandlers c),
       command_timeout_ms := (if timeout_ms \<noteq> 0 then timeout_ms else CONFIG_MQTT_SEND_CYCLE),
       c_buf := sendbuf, readbuf := recvbuf, c_isconnected := False, c_cleansession := False, ping_outstanding := False,
       defaultMessageHandler := None, next_packetid := 1, last_sent := TimerInit, last_received := TimerInit, ping_wait := TimerInit\<rparr>"

definition decodePacket :: "'w transport \<Rightarrow> nat \<Rightarrow> 'w \<Rightarrow> nat \<times> nat \<times> 'w" where
  "decodePacket tr timeout w =
     decode_loop (\<lambda>w. case mqttread tr 1 timeout w of (rc, bs, w') \<Rightarrow> (if rc = 1 then Some (hd bs) else None, w'))
       MAX_NO_OF_REMAINING_LENGTH_BYTES 0 1 0 w"

definition store_at :: "nat \<Rightarrow> u8 list \<Rightarrow> u8 list \<Rightarrow> u8 list option" where
  "store_at p bs b = map_option snd (put_bytes bs (p, b))"

text \<open>The end of \<open>readPacket\<close>: the packet type, and the time of the reception.\<close>

definition packet_read :: "'w transport \<Rightarrow> u8 list \<Rightarrow> 'h MQTTClient \<Rightarrow> 'w \<Rightarrow> (int \<times> 'h MQTTClient \<times> 'w) option" where
  "packet_read tr rb c w =
     Some (uint (header_type (rb ! 0)),
       c\<lparr>readbuf := rb,
         last_received := (if c_keepAliveInterval c > 0 then TimerCountdown (c_keepAliveInterval c) (clock tr w) else last_received c)\<rparr>, w)"

definition readPacket ::
  "'w transport \<Rightarrow> nat \<Rightarrow> 'h MQTTClient \<Rightarrow> 'w \<Rightarrow> (int \<times> 'h MQTTClient \<times> 'w) option" where
  "readPacket tr timer c w =
     (case mqttread tr 1 (TimerLeftMS timer (clock tr w)) w of (rc, bs, w) \<Rightarrow> do {
        rb \<leftarrow> store_at 0 bs (readbuf c);
        if rc \<noteq> 1 then Some (rc, c\<lparr>readbuf := rb\<rparr>, w)
        else case decodePacket tr (TimerLeftMS timer (clock tr w)) w of (_, rem_len, w) \<Rightarrow> do {
          rb \<leftarrow> store_at 1 (MQTTPacket_encode rem_len) rb;
          let len = 1 + length (MQTTPacket_encode rem_len);
          if rem_len > length rb - len then Some (BUFFER_OVERFLOW, c\<lparr>readbuf := rb\<rparr>, w)
          else if rem_len > 0
          then case mqttread tr rem_len (TimerLeftMS timer (clock tr w)) w of (rc, bs, w) \<Rightarrow> do {
                 rb \<leftarrow> store_at len bs rb;
                 if rc \<noteq> int rem_len then Some (0, c\<lparr>readbuf := rb\<rparr>, w) else packet_read tr rb c w
               }
          else packet_read tr rb c w
        }
      })"

section \<open>Delivery\<close>

text \<open>
  The loop of \<open>isTopicMatched\<close> on what is left of the filter and of the name; \<open>+\<close> skips to the
  next separator, \<open>#\<close> to the end.
\<close>

fun topic_loop :: "u8 list \<Rightarrow> u8 list \<Rightarrow> bool" where
  "topic_loop [] n = (n = [])"
| "topic_loop (x # f) [] = False"
| "topic_loop (x # f) (y # n) =
     (if y = 0x2F \<and> x \<noteq> 0x2F then False
      else if x \<noteq> 0x2B \<and> x \<noteq> 0x23 \<and> x \<noteq> y then False
      else if x = 0x2B then topic_loop f (dropWhile (\<lambda>c. c \<noteq> 0x2F) n)
      else if x = 0x23 then topic_loop f []
      else topic_loop f n)"

definition isTopicMatched :: "u8 list \<Rightarrow> MQTTString \<Rightarrow> bool" where
  "isTopicMatched topicFilter topicName =
     topic_loop (c_bytes topicFilter)
       (take (lenstring_len topicName) (case lenstring_data topicName of Some d \<Rightarrow> d | None \<Rightarrow> []))"

definition handler_for :: "MQTTString \<Rightarrow> u8 list option \<times> 'h option \<Rightarrow> 'h option" where
  "handler_for topicName = (\<lambda>(topicFilter, fp).
     case topicFilter of
       Some f \<Rightarrow> if MQTTPacket_equals topicName f \<or> isTopicMatched f topicName then fp else None
     | None \<Rightarrow> None)"

definition deliverMessage :: "publish_data \<Rightarrow> 'h MQTTClient \<Rightarrow> int \<times> 'h MQTTClient" where
  "deliverMessage msg c =
     (let hs = List.map_filter (handler_for (pd_topic msg)) (messageHandlers c);
          hs' = (if hs = [] then (case defaultMessageHandler c of Some h \<Rightarrow> [h] | None \<Rightarrow> []) else hs)
      in (if hs' = [] then FAILURE else SUCCESS, c\<lparr>calls := calls c @ map (\<lambda>h. (h, msg)) hs'\<rparr>))"

section \<open>The cycle\<close>

definition keepalive :: "'w transport \<Rightarrow> 'h MQTTClient \<Rightarrow> 'w \<Rightarrow> (int \<times> 'h MQTTClient \<times> 'w) option" where
  "keepalive tr c w =
     (if c_keepAliveInterval c = 0 then Some (SUCCESS, c, w)
      else if TimerIsExpired (last_sent c) (clock tr w) \<or> TimerIsExpired (last_received c) (clock tr w)
      then if ping_outstanding c \<and> TimerIsExpired (ping_wait c) (clock tr w) then Some (FAILURE, c, w)
           else do {
             (len, b) \<leftarrow> MQTTSerialize_pingreq (c_buf c) (length (c_buf c));
             let c = c\<lparr>c_buf := b\<rparr>;
             if len > 0
             then do {
               (rc, c, w) \<leftarrow> sendPacket tr (nat len) (TimerCountdownMS 1000 (clock tr w)) c w;
               Some (rc, if rc = SUCCESS
                         then c\<lparr>ping_outstanding := True, ping_wait := TimerCountdownMS CONFIG_MQTT_PING_TIMEOUT (clock tr w)\<rparr>
                         else c, w)
             }
             else Some (SUCCESS, c, w)
           }
      else Some (SUCCESS, c, w))"

definition MQTTCleanSession :: "'h MQTTClient \<Rightarrow> 'h MQTTClient" where
  "MQTTCleanSession c = c\<lparr>messageHandlers := map (\<lambda>(_, fp). (None, fp)) (messageHandlers c)\<rparr>"

definition MQTTCloseSession :: "'h MQTTClient \<Rightarrow> 'h MQTTClient" where
  "MQTTCloseSession c =
     (let c = c\<lparr>ping_outstanding := False, c_isconnected := False\<rparr>
      in if c_cleansession c then MQTTCleanSession c else c)"

text \<open>Sending the acknowledgement that has been serialised, and the return code of \<open>cycle\<close> for it.\<close>

definition send_ack ::
  "'w transport \<Rightarrow> nat \<Rightarrow> u8 \<Rightarrow> u16 \<Rightarrow> 'h MQTTClient \<Rightarrow> 'w \<Rightarrow> (int \<times> 'h MQTTClient \<times> 'w) option" where
  "send_ack tr timer packettype packetid c w = do {
     (len, b) \<leftarrow> MQTTSerialize_ack (c_buf c) (length (c_buf c)) packettype 0 packetid;
     let c = c\<lparr>c_buf := b\<rparr>;
     if len \<le> 0 then Some (FAILURE, c, w) else sendPacket tr (nat len) timer c w
   }"

definition handle_publish ::
  "junk \<Rightarrow> 'w transport \<Rightarrow> nat \<Rightarrow> 'h MQTTClient \<Rightarrow> 'w \<Rightarrow> (bool \<times> int \<times> 'h MQTTClient \<times> 'w) option" where
  "handle_publish j tr timer c w = do {
     (rc, msg) \<leftarrow> MQTTDeserialize_publish ((junk_message j)\<lparr>pd_payloadlen := 0\<rparr>) (readbuf c);
     if rc \<noteq> 1 then Some (True, SUCCESS, c, w)
     else do {
       let c = snd (deliverMessage msg c);
       if pd_qos msg = 0 then Some (False, SUCCESS, c, w)
       else do {
         (rc, c, w) \<leftarrow> (if pd_qos msg = 1 then send_ack tr timer PUBACK (pd_packetid msg) c w
                       else if pd_qos msg = 2 then send_ack tr timer PUBREC (pd_packetid msg) c w
                       else Some (FAILURE, c, w));
         Some (rc = FAILURE, rc, c, w)
       }
     }
   }"

definition handle_release ::
  "junk \<Rightarrow> 'w transport \<Rightarrow> nat \<Rightarrow> int \<Rightarrow> 'h MQTTClient \<Rightarrow> 'w \<Rightarrow> (bool \<times> int \<times> 'h MQTTClient \<times> 'w) option" where
  "handle_release j tr timer packet_type c w = do {
     (rc, _, _, mypacketid) \<leftarrow> MQTTDeserialize_ack (0, 0, junk_id j) (readbuf c);
     (rc, c, w) \<leftarrow> (if rc \<noteq> 1 then Some (FAILURE, c, w)
                   else send_ack tr timer (if packet_type = 5 then PUBREL else PUBCOMP) mypacketid c w);
     Some (rc = FAILURE, rc, c, w)
   }"

text \<open>The switch over the packet type: whether it jumps to the exit, and the return code.\<close>

definition handle_packet ::
  "junk \<Rightarrow> 'w transport \<Rightarrow> nat \<Rightarrow> int \<Rightarrow> 'h MQTTClient \<Rightarrow> 'w \<Rightarrow> (bool \<times> int \<times> 'h MQTTClient \<times> 'w) option" where
  "handle_packet j tr timer packet_type c w =
     (if packet_type \<in> {0, 2, 4, 9, 11, 7} then Some (False, SUCCESS, c, w)
      else if packet_type = 3 then handle_publish j tr timer c w
      else if packet_type \<in> {5, 6} then handle_release j tr timer packet_type c w
      else if packet_type = 13 then Some (False, SUCCESS, c\<lparr>ping_outstanding := False\<rparr>, w)
      else Some (True, packet_type, c, w))"

definition cycle ::
  "junk \<Rightarrow> 'w transport \<Rightarrow> nat \<Rightarrow> 'h MQTTClient \<Rightarrow> 'w \<Rightarrow> (int \<times> 'h MQTTClient \<times> 'w) option" where
  "cycle j tr timer c w = do {
     (packet_type, c, w) \<leftarrow> readPacket tr timer c w;
     (leave, rc, c, w) \<leftarrow> handle_packet j tr timer packet_type c w;
     (rc, c, w) \<leftarrow> (if leave then Some (rc, c, w)
                   else do {
                     (rc', c, w) \<leftarrow> keepalive tr c w;
                     Some (if rc' \<noteq> SUCCESS then FAILURE else rc, c, w)
                   });
     Some (if rc = SUCCESS then (packet_type, c, w)
           else if c_isconnected c then (rc, MQTTCloseSession c, w)
           else (rc, c, w))
   }"

partial_function (option) yield_loop ::
  "junk \<Rightarrow> 'w transport \<Rightarrow> nat \<Rightarrow> 'h MQTTClient \<Rightarrow> 'w \<Rightarrow> (int \<times> 'h MQTTClient \<times> 'w) option" where
  "yield_loop j tr timer c w =
     Option.bind (cycle j tr timer c w) (\<lambda>(rc, c, w).
       if rc < 0 then Some (FAILURE, c, w)
       else if \<not> TimerIsExpired timer (clock tr w) then yield_loop j tr timer c w
       else Some (SUCCESS, c, w))"

definition MQTTYield ::
  "junk \<Rightarrow> 'w transport \<Rightarrow> nat \<Rightarrow> 'h MQTTClient \<Rightarrow> 'w \<Rightarrow> (int \<times> 'h MQTTClient \<times> 'w) option" where
  "MQTTYield j tr timeout_ms c w = yield_loop j tr (TimerCountdownMS timeout_ms (clock tr w)) c w"

partial_function (option) wait_loop ::
  "junk \<Rightarrow> 'w transport \<Rightarrow> int \<Rightarrow> nat \<Rightarrow> int \<Rightarrow> 'h MQTTClient \<Rightarrow> 'w \<Rightarrow> (int \<times> 'h MQTTClient \<times> 'w) option" where
  "wait_loop j tr packet_type timer rc c w =
     (if TimerIsExpired timer (clock tr w) then Some (rc, c, w)
      else Option.bind (cycle j tr timer c w) (\<lambda>(rc, c, w).
             if rc \<noteq> packet_type \<and> rc \<ge> 0 then wait_loop j tr packet_type timer rc c w else Some (rc, c, w)))"

definition waitfor ::
  "junk \<Rightarrow> 'w transport \<Rightarrow> int \<Rightarrow> nat \<Rightarrow> 'h MQTTClient \<Rightarrow> 'w \<Rightarrow> (int \<times> 'h MQTTClient \<times> 'w) option" where
  "waitfor j tr packet_type timer c w = wait_loop j tr packet_type timer FAILURE c w"

section \<open>The operations of the client\<close>

text \<open>The exit of \<open>MQTTConnectWithResults\<close>.\<close>

definition connect_exit :: "int \<times> 'h MQTTClient \<times> 'w \<Rightarrow> int \<times> 'h MQTTClient \<times> 'w" where
  "connect_exit = (\<lambda>(rc, c, w).
     (rc, if rc = SUCCESS then c\<lparr>c_isconnected := True, ping_outstanding := False\<rparr> else c, w))"

definition MQTTConnectWithResults ::
  "junk \<Rightarrow> 'w transport \<Rightarrow> MQTTPacket_connectData option \<Rightarrow> 'h MQTTClient \<Rightarrow> 'w \<Rightarrow> (int \<times> 'h MQTTClient \<times> 'w) option" where
  "MQTTConnectWithResults j tr options c w =
     (if c_isconnected c then Some (FAILURE, c, w)
      else do {
        let connect_timer = TimerCountdownMS (command_timeout_ms c) (clock tr w);
        let opts = (case options of Some opts \<Rightarrow> opts | None \<Rightarrow> MQTTPacket_connectData_initializer);
        let c = c\<lparr>c_keepAliveInterval := unat (keepAliveInterval opts), c_cleansession := cleansession opts \<noteq> 0,
                  last_received := TimerCountdown (unat (keepAliveInterval opts)) (clock tr w)\<rparr>;
        (len, b) \<leftarrow> MQTTSerialize_connect (c_buf c) (length (c_buf c)) opts;
        let c = c\<lparr>c_buf := b\<rparr>;
        if len \<le> 0 then Some (FAILURE, c, w)
        else do {
          (rc, c, w) \<leftarrow> sendPacket tr (nat len) connect_timer c w;
          if rc \<noteq> SUCCESS then Some (rc, c, w)
          else do {
            (pt, c, w) \<leftarrow> waitfor j tr 2 connect_timer c w;
            if pt = 2
            then do {
              (ok, _, connack_rc) \<leftarrow> MQTTDeserialize_connack (0, 0) (readbuf c);
              Some (connect_exit (if ok = 1 then uint connack_rc else FAILURE, c, w))
            }
            else Some (FAILURE, c, w)
          }
        }
      })"

definition MQTTConnect ::
  "junk \<Rightarrow> 'w transport \<Rightarrow> MQTTPacket_connectData option \<Rightarrow> 'h MQTTClient \<Rightarrow> 'w \<Rightarrow> (int \<times> 'h MQTTClient \<times> 'w) option" where
  "MQTTConnect j tr options c w = MQTTConnectWithResults j tr options c w"

text \<open>The first slot that satisfies a test.\<close>

fun first_slot :: "('a \<Rightarrow> bool) \<Rightarrow> 'a list \<Rightarrow> nat option" where
  "first_slot P [] = None"
| "first_slot P (x # xs) = (if P x then Some 0 else map_option Suc (first_slot P xs))"

definition MQTTSetMessageHandler :: "u8 list \<Rightarrow> 'h option \<Rightarrow> 'h MQTTClient \<Rightarrow> int \<times> 'h MQTTClient" where
  "MQTTSetMessageHandler topicFilter handler c =
     (let hs = messageHandlers c;
          old = first_slot (\<lambda>(f, _). map_option c_bytes f = Some (c_bytes topicFilter)) hs
      in case handler of
           None \<Rightarrow>
             (case old of
                Some i \<Rightarrow> (SUCCESS, c\<lparr>messageHandlers := hs[i := (None, None)]\<rparr>)
              | None \<Rightarrow> (FAILURE, c))
         | Some h \<Rightarrow>
             (case (case old of Some i \<Rightarrow> Some i | None \<Rightarrow> first_slot (\<lambda>(f, _). f = None) hs) of
                Some i \<Rightarrow> (SUCCESS, c\<lparr>messageHandlers := hs[i := (Some topicFilter, Some h)]\<rparr>)
              | None \<Rightarrow> (FAILURE, c)))"

text \<open>The common exit of the operations below: a failure closes the session.\<close>

definition close_on_failure :: "int \<times> 'h MQTTClient \<times> 'w \<Rightarrow> int \<times> 'h MQTTClient \<times> 'w" where
  "close_on_failure = (\<lambda>(rc, c, w). (rc, if rc = FAILURE then MQTTCloseSession c else c, w))"

definition subscribe_acked ::
  "junk \<Rightarrow> u8 list \<Rightarrow> 'h \<Rightarrow> int \<Rightarrow> 'h MQTTClient \<Rightarrow> 'w \<Rightarrow> (int \<times> 'h MQTTClient \<times> 'w) option" where
  "subscribe_acked j topicFilter handler rc c w = do {
     (ok, _, count, qs) \<leftarrow> MQTTDeserialize_suback (junk_id j, 0, [0]) 1 (readbuf c);
     Some (if ok = 1 \<and> qs ! 0 \<noteq> 0x80
           then (case MQTTSetMessageHandler topicFilter (Some handler) c of (rc, c) \<Rightarrow> (rc, c, w))
           else (rc, c, w))
   }"

definition MQTTSubscribeWithResults ::
  "junk \<Rightarrow> 'w transport \<Rightarrow> u8 list \<Rightarrow> u8 \<Rightarrow> 'h \<Rightarrow> 'h MQTTClient \<Rightarrow> 'w \<Rightarrow> (int \<times> 'h MQTTClient \<times> 'w) option" where
  "MQTTSubscribeWithResults j tr topicFilter qos handler c w =
     map_option close_on_failure
       (if \<not> c_isconnected c then Some (FAILURE, c, w)
        else do {
          let timer = TimerCountdownMS (command_timeout_ms c) (clock tr w);
          let (packetid, c) = getNextPacketId c;
          (len, b) \<leftarrow> MQTTSerialize_subscribe (c_buf c) (length (c_buf c)) 0 (ucast packetid)
                        [(MQTTString_initializer\<lparr>cstring := Some topicFilter\<rparr>, qos)];
          let c = c\<lparr>c_buf := b\<rparr>;
          if len \<le> 0 then Some (FAILURE, c, w)
          else do {
            (rc, c, w) \<leftarrow> sendPacket tr (nat len) timer c w;
            if rc \<noteq> SUCCESS then Some (rc, c, w)
            else do {
              (pt, c, w) \<leftarrow> waitfor j tr 9 timer c w;
              if pt = 9 then subscribe_acked j topicFilter handler rc c w else Some (FAILURE, c, w)
            }
          }
        })"

definition MQTTSubscribe ::
  "junk \<Rightarrow> 'w transport \<Rightarrow> u8 list \<Rightarrow> u8 \<Rightarrow> 'h \<Rightarrow> 'h MQTTClient \<Rightarrow> 'w \<Rightarrow> (int \<times> 'h MQTTClient \<times> 'w) option" where
  "MQTTSubscribe j tr topicFilter qos handler c w = MQTTSubscribeWithResults j tr topicFilter qos handler c w"

definition MQTTUnsubscribe ::
  "junk \<Rightarrow> 'w transport \<Rightarrow> u8 list \<Rightarrow> 'h MQTTClient \<Rightarrow> 'w \<Rightarrow> (int \<times> 'h MQTTClient \<times> 'w) option" where
  "MQTTUnsubscribe j tr topicFilter c w =
     map_option close_on_failure
       (if \<not> c_isconnected c then Some (FAILURE, c, w)
        else do {
          let timer = TimerCountdownMS (command_timeout_ms c) (clock tr w);
          let (packetid, c) = getNextPacketId c;
          (len, b) \<leftarrow> MQTTSerialize_unsubscribe (c_buf c) (length (c_buf c)) 0 (ucast packetid)
                        [MQTTString_initializer\<lparr>cstring := Some topicFilter\<rparr>];
          let c = c\<lparr>c_buf := b\<rparr>;
          if len \<le> 0 then Some (FAILURE, c, w)
          else do {
            (rc, c, w) \<leftarrow> sendPacket tr (nat len) timer c w;
            if rc \<noteq> SUCCESS then Some (rc, c, w)
            else do {
              (pt, c, w) \<leftarrow> waitfor j tr 11 timer c w;
              if pt = 11
              then do {
                (ok, _) \<leftarrow> MQTTDeserialize_unsuback (junk_id j) (readbuf c);
                Some (rc, if ok = 1 then snd (MQTTSetMessageHandler topicFilter None c) else c, w)
              }
              else Some (FAILURE, c, w)
            }
          }
        })"

record MQTTMessage =
  m_qos :: nat
  m_retained :: u8
  m_id :: u16
  m_payload :: "u8 list"
  m_payloadlen :: nat

text \<open>Waiting for the acknowledgement of a publication; the packet identifier it carries is not used.\<close>

definition publish_acked ::
  "junk \<Rightarrow> 'w transport \<Rightarrow> int \<Rightarrow> nat \<Rightarrow> int \<Rightarrow> 'h MQTTClient \<Rightarrow> 'w \<Rightarrow> (int \<times> 'h MQTTClient \<times> 'w) option" where
  "publish_acked j tr ack timer rc c w = do {
     (pt, c, w) \<leftarrow> waitfor j tr ack timer c w;
     if pt = ack
     then do {
       (ok, _) \<leftarrow> MQTTDeserialize_ack (0, 0, junk_id j) (readbuf c);
       Some (if ok \<noteq> 1 then FAILURE else rc, c, w)
     }
     else Some (FAILURE, c, w)
   }"

definition MQTTPublish ::
  "junk \<Rightarrow> 'w transport \<Rightarrow> u8 list \<Rightarrow> MQTTMessage \<Rightarrow> 'h MQTTClient \<Rightarrow> 'w \<Rightarrow> (int \<times> 'h MQTTClient \<times> 'w) option" where
  "MQTTPublish j tr topicName m c w =
     map_option close_on_failure
       (if \<not> c_isconnected c then Some (FAILURE, c, w)
        else do {
          let timer = TimerCountdownMS (command_timeout_ms c) (clock tr w);
          let (ident, c) = (if m_qos m \<in> {1, 2} then (case getNextPacketId c of (n, c) \<Rightarrow> (ucast n, c)) else (m_id m, c));
          (len, b) \<leftarrow> MQTTSerialize_publish (c_buf c) (length (c_buf c)) 0 (m_qos m) (m_retained m) ident
                        (MQTTString_initializer\<lparr>cstring := Some topicName\<rparr>) (m_payload m) (m_payloadlen m);
          let c = c\<lparr>c_buf := b\<rparr>;
          if len \<le> 0 then Some (FAILURE, c, w)
          else do {
            (rc, c, w) \<leftarrow> sendPacket tr (nat len) timer c w;
            if rc \<noteq> SUCCESS then Some (rc, c, w)
            else if m_qos m = 1 then publish_acked j tr 4 timer rc c w
            else if m_qos m = 2 then publish_acked j tr 7 timer rc c w
            else Some (rc, c, w)
          }
        })"

definition MQTTDisconnect :: "'w transport \<Rightarrow> 'h MQTTClient \<Rightarrow> 'w \<Rightarrow> (int \<times> 'h MQTTClient \<times> 'w) option" where
  "MQTTDisconnect tr c w = do {
     let timer = TimerCountdownMS (command_timeout_ms c) (clock tr w);
     (len, b) \<leftarrow> MQTTSerialize_disconnect (c_buf c) (length (c_buf c));
     let c = c\<lparr>c_buf := b\<rparr>;
     (rc, c, w) \<leftarrow> (if len > 0 then sendPacket tr (nat len) timer c w else Some (FAILURE, c, w));
     Some (rc, MQTTCloseSession c, w)
   }"

end
