(* ===== verification/Mqtt_Client_Theorems.thy ===== *)
theory Mqtt_Client_Theorems
  imports Mqtt_Client
begin

text \<open>
  What the MQTT client guarantees: which topics a filter matches, that sending ends and
  reading stays within its buffer on every transport, that a publication is delivered and
  acknowledged, and where the client deviates from the protocol.
\<close>

section \<open>Topic filters\<close>

abbreviation (input) slash :: u8 where "slash \<equiv> 0x2F"
abbreviation (input) plus_sign :: u8 where "plus_sign \<equiv> 0x2B"
abbreviation (input) hash_sign :: u8 where "hash_sign \<equiv> 0x23"

fun join_levels :: "u8 list list \<Rightarrow> u8 list" where
  "join_levels [] = []"
| "join_levels [l] = l"
| "join_levels (l # ls) = l @ slash # join_levels ls"

text \<open>The matching of the MQTT standard, level by level.\<close>

fun topic_matches :: "u8 list list \<Rightarrow> u8 list list \<Rightarrow> bool" where
  "topic_matches [] ns = (ns = [])"
| "topic_matches (f # fs) [] = (f = [hash_sign])"
| "topic_matches (f # fs) (n # ns) = (f = [hash_sign] \<or> (f = [plus_sign] \<or> f = n) \<and> topic_matches fs ns)"

definition name_level :: "u8 list \<Rightarrow> bool" where
  "name_level n \<longleftrightarrow> n \<noteq> [] \<and> slash \<notin> set n"

definition literal_level :: "u8 list \<Rightarrow> bool" where
  "literal_level l \<longleftrightarrow> l \<noteq> [] \<and> set l \<inter> {0, slash, plus_sign, hash_sign} = {}"

text \<open>A filter has literal levels and \<open>+\<close>, and may end with \<open>#\<close>.\<close>

definition filter_levels :: "u8 list list \<Rightarrow> bool" where
  "filter_levels fs \<longleftrightarrow> fs \<noteq> [] \<and> (\<forall>f \<in> set (butlast fs). f = [plus_sign] \<or> literal_level f) \<and>
     (last fs = [plus_sign] \<or> last fs = [hash_sign] \<or> literal_level (last fs))"

definition at_separator :: "u8 list \<Rightarrow> bool" where
  "at_separator r \<longleftrightarrow> r = [] \<or> hd r = slash"

lemma at_separator_cases [simp]: "at_separator []" "at_separator (slash # r)"
  by (simp_all add: at_separator_def)

lemma topic_loop_literal:
  "set l \<inter> {slash, plus_sign, hash_sign} = {} \<Longrightarrow> slash \<notin> set m \<Longrightarrow> at_separator f \<Longrightarrow> at_separator r \<Longrightarrow>
   topic_loop (l @ f) (m @ r) \<longleftrightarrow> l = m \<and> topic_loop f r"
proof (induction l arbitrary: m)
  case Nil
  then show ?case by (cases m; cases f) (auto simp: at_separator_def)
next
  case (Cons x l)
  then show ?case by (cases m; cases r) (auto simp: at_separator_def)
qed

lemma topic_loop_plus:
  "name_level m \<Longrightarrow> at_separator r \<Longrightarrow> topic_loop (plus_sign # f) (m @ r) \<longleftrightarrow> topic_loop f r"
proof -
  assume m: "name_level m" and r: "at_separator r"
  obtain y m' where "m = y # m'" "y \<noteq> slash" "slash \<notin> set m'" using m by (cases m) (auto simp: name_level_def)
  moreover have "dropWhile (\<lambda>c. c \<noteq> slash) (m' @ r) = r"
    using r calculation by (cases r) (auto simp: at_separator_def dropWhile_append3)
  ultimately show ?thesis by simp
qed

lemma topic_loop_hash: "name_level m \<Longrightarrow> topic_loop [hash_sign] (m @ r)"
  by (cases m) (auto simp: name_level_def)

lemma join_levels_Cons: "ls \<noteq> [] \<Longrightarrow> join_levels (l # ls) = l @ slash # join_levels ls"
  by (cases ls) simp_all

text \<open>What follows the first level.\<close>

definition more_levels :: "u8 list list \<Rightarrow> u8 list" where
  "more_levels ls = (if ls = [] then [] else slash # join_levels ls)"

lemma join_more: "join_levels (l # ls) = l @ more_levels ls"
  by (cases ls) (simp_all add: more_levels_def)

lemma at_separator_more [simp]: "at_separator (more_levels ls)"
  by (simp add: more_levels_def)

lemma topic_loop_more:
  "topic_loop (more_levels fs) (more_levels ns) \<longleftrightarrow>
     (if fs = [] \<or> ns = [] then fs = [] \<and> ns = [] else topic_loop (join_levels fs) (join_levels ns))"
  by (simp add: more_levels_def)

lemma topic_loop_levels:
  "filter_levels fs \<Longrightarrow> ns \<noteq> [] \<Longrightarrow> \<forall>n \<in> set ns. name_level n \<Longrightarrow>
   topic_loop (join_levels fs) (join_levels ns) \<longleftrightarrow>
     topic_matches fs ns \<and> \<not> (last fs = [hash_sign] \<and> length ns < length fs)"
proof (induction fs arbitrary: ns)
  case Nil
  then show ?case by (simp add: filter_levels_def)
next
  case (Cons f fs)
  obtain n ns' where ns: "ns = n # ns'" "name_level n" using Cons.prems by (cases ns) auto
  have tail: "topic_loop (more_levels fs) (more_levels ns') \<longleftrightarrow>
      topic_matches fs ns' \<and> \<not> (last (f # fs) = [hash_sign] \<and> length ns' < length fs)" if "f \<noteq> [hash_sign]"
  proof (cases "fs = [] \<or> ns' = []")
    case True
    then show ?thesis using that Cons.prems(1)
      by (cases fs; cases ns') (auto simp: topic_loop_more filter_levels_def literal_level_def split: if_splits)
  next
    case False
    then have "filter_levels fs" using Cons.prems(1) by (simp add: filter_levels_def split: if_splits)
    then show ?thesis using Cons.IH [of ns'] False Cons.prems(3) ns by (simp add: topic_loop_more)
  qed
  consider "f = [hash_sign]" "fs = []" | "f = [plus_sign]" | "literal_level f"
    using Cons.prems(1) by (cases fs) (auto simp: filter_levels_def split: if_splits)
  then show ?case
  proof cases
    case 1
    then show ?thesis using ns topic_loop_hash by (simp add: join_more [of n]) 
  next
    case 2
    then show ?thesis using ns tail topic_loop_plus [of n "more_levels ns'" "more_levels fs"] by (auto simp: join_more)
  next
    case 3
    then have "f \<noteq> [hash_sign]" "f \<noteq> [plus_sign]" by (auto simp: literal_level_def)
    with 3 show ?thesis
      using ns tail topic_loop_literal [of f n "more_levels fs" "more_levels ns'"]
      by (auto simp: join_more name_level_def literal_level_def)
  qed
qed

lemma set_join_levels: "set (join_levels ls) \<subseteq> insert slash (\<Union>l \<in> set ls. set l)"
  by (induction ls rule: join_levels.induct) auto

lemma filter_level_cases:
  "filter_levels fs \<Longrightarrow> f \<in> set fs \<Longrightarrow> f = [plus_sign] \<or> f = [hash_sign] \<or> literal_level f"
  by (induction fs) (auto simp: filter_levels_def split: if_splits)



section \<open>Sending and reading on any transport\<close>

lemma decode_loop_bound:
  "decode_loop get k len m v s = (l, v', s') \<Longrightarrow> v' + m \<le> v + m * 128 ^ k"
proof (induction k arbitrary: len m v s)
  case 0
  then show ?case by simp
next
  case (Suc k)
  obtain c t where get: "get s = (c, t)" by fastforce
  show ?case
  proof (cases c)
    case None
    then show ?thesis using Suc.prems get by auto
  next
    case (Some b)
    let ?d = "unat (b AND 127)"
    have "?d \<le> 127" using word_and_le1 [of b 127] by (simp add: word_le_nat_alt)
    then have d: "?d * m + m \<le> m * 128" using mult_le_mono1 [of "?d + 1" 128 m] by (simp add: algebra_simps)
    show ?thesis
    proof (cases "b AND 128 \<noteq> 0")
      case True
      then have "v' + m * 128 \<le> v + ?d * m + m * 128 * 128 ^ k"
        using Suc.IH [of "len + 1" "m * 128" "v + ?d * m" t] Suc.prems get Some by (simp add: Let_def)
      moreover have "m * 128 ^ Suc k = m * 128 * 128 ^ k" by simp
      ultimately show ?thesis using d by linarith
    next
      case False
      have "m * 128 \<le> m * 128 ^ Suc k" by simp
      moreover have "v' = v + ?d * m" using False Suc.prems get Some by (simp add: Let_def)
      ultimately show ?thesis using d by linarith
    qed
  qed
qed

lemma store_at_length:
  "p + length bs \<le> length b \<Longrightarrow> \<exists>b'. store_at p bs b = Some b' \<and> length b' = length b"
  by (simp add: store_at_def put_bytes_def)

context mqtt_transport
begin

lemma send_loop_returns:
  assumes "2 * len \<le> length b"
  shows "\<exists>n w'. send_loop tr b len timer sent w = Some (n, w') \<and> clock tr w \<le> clock tr w'"
proof (induction "(len - sent) + (timer - clock tr w)" arbitrary: sent w rule: less_induct)
  case less
  show ?case
  proof (cases "sent < len \<and> \<not> TimerIsExpired timer (clock tr w)")
    case False
    then show ?thesis by (subst send_loop.simps) auto
  next
    case True
    let ?bs = "take len (drop sent b)" and ?ms = "TimerLeftMS timer (clock tr w)"
    obtain rc w1 where r: "mqttwrite tr ?bs ?ms w = (rc, w1)" by fastforce
    have bs: "?bs \<noteq> []" and time: "clock tr w < timer" "sent < len" using True assms by (auto simp: TimerIsExpired_def)
    have unfold: "send_loop tr b len timer sent w = (if rc < 0 then Some (sent, w1) else send_loop tr b len timer (sent + nat rc) w1)"
      using True assms r by (subst send_loop.simps) simp
    show ?thesis
    proof (cases "rc < 0")
      case True
      then show ?thesis using unfold write_clock [OF r] by simp
    next
      case False
      have "rc = 0 \<Longrightarrow> timer \<le> clock tr w1"
        using write_waits [of ?bs ?ms w w1] r bs time by (simp add: TimerLeftMS_def portTICK_PERIOD_MS_def)
      then have "(len - (sent + nat rc)) + (timer - clock tr w1) < (len - sent) + (timer - clock tr w)"
        using time write_clock [OF r] False by (cases "rc = 0") auto
      then obtain n w' where "send_loop tr b len timer (sent + nat rc) w1 = Some (n, w')" "clock tr w1 \<le> clock tr w'"
        using less by blast
      then show ?thesis using unfold False write_clock [OF r] by auto
    qed
  qed
qed

lemma sendPacket_returns:
  assumes "2 * len \<le> length (c_buf c)"
  shows "\<exists>rc c' w'. sendPacket tr len timer c w = Some (rc, c', w') \<and> rc \<in> {SUCCESS, FAILURE} \<and> c_buf c' = c_buf c"
  using send_loop_returns [OF assms, of timer 0 w] by (auto simp: sendPacket_def)

lemma decodePacket_bound: "decodePacket tr ms w = (l, n, w') \<Longrightarrow> n < 268435456"
  using decode_loop_bound [where k = 4 and m = 1 and v = 0]
  by (fastforce simp: decodePacket_def MAX_NO_OF_REMAINING_LENGTH_BYTES_def)

lemma readPacket_safe:
  assumes "5 \<le> length (readbuf c)"
  shows "\<exists>rc c' w'. readPacket tr timer c w = Some (rc, c', w') \<and> length (readbuf c') = length (readbuf c) \<and> rc \<le> 15"
proof -
  obtain rc1 bs1 w1 where r1: "mqttread tr 1 (TimerLeftMS timer (clock tr w)) w = (rc1, bs1, w1)" by (metis prod_cases3)
  obtain rb1 where rb1: "store_at 0 bs1 (readbuf c) = Some rb1" "length rb1 = length (readbuf c)"
    using store_at_length [of 0 bs1 "readbuf c"] read_bytes [OF r1] assms by auto
  obtain l n w2 where r2: "decodePacket tr (TimerLeftMS timer (clock tr w1)) w1 = (l, n, w2)" by (metis prod_cases3)
  have enc: "length (MQTTPacket_encode n) \<le> 4" using decodePacket_bound [OF r2] by (simp add: length_encode)
  obtain rb2 where rb2: "store_at 1 (MQTTPacket_encode n) rb1 = Some rb2" "length rb2 = length (readbuf c)"
    using store_at_length [of 1 "MQTTPacket_encode n" rb1] enc rb1(2) assms by auto
  let ?len = "1 + length (MQTTPacket_encode n)"
  obtain rc3 bs3 w3 where r3: "mqttread tr n (TimerLeftMS timer (clock tr w2)) w2 = (rc3, bs3, w3)" by (metis prod_cases3)
  have "n \<le> length rb2 - ?len \<Longrightarrow> \<exists>rb3. store_at ?len bs3 rb2 = Some rb3 \<and> length rb3 = length (readbuf c)"
    using store_at_length [of ?len bs3 rb2] read_bytes [OF r3] rb2(2) enc assms by auto
  moreover have "uint (header_type b) \<le> 15" for b
    using uint_lt2p [of b] by (simp add: header_type_def drop_bit_eq_div uint_div_distrib)
  moreover have "rc1 \<le> 15" using read_bytes [OF r1] by simp
  ultimately show ?thesis
    using r1 rb1 r2 rb2 r3 by (auto simp: readPacket_def Let_def packet_read_def)
qed

end

text \<open>
  C37: whatever bytes arrive, at whatever times, and whether or not the connection breaks,
  reading a packet stores nothing outside the receive buffer, which has at least five bytes.
\<close>

theorem read_packet_in_bounds:
  assumes "5 \<le> length (readbuf c)"
  shows "\<exists>rc c' s'. readPacket NetworkInit timer c s = Some (rc, c', s') \<and> length (readbuf c') = length (readbuf c) \<and> rc \<le> 15"
  using assms by (rule tcp.readPacket_safe)

definition idle_client :: "'h MQTTClient" where
  "idle_client = \<lparr>next_packetid = 1, command_timeout_ms = 5000, c_buf = replicate 1000 0, readbuf = replicate 1000 0,
     c_keepAliveInterval = 60, ping_outstanding = False, c_isconnected = True, c_cleansession = True,
     messageHandlers = replicate 5 (None, None), defaultMessageHandler = None, last_sent = 6000, last_received = 6000,
     ping_wait = 0, calls = []\<rparr>"

definition open_socket :: "(nat \<times> u8) list \<Rightarrow> socket" where
  "open_socket bs = \<lparr>now = 100, arriving = bs, closed_at = None, broken = False, writable = [], room = [], sent_bytes = []\<rparr>"

theorem read_packet_in_bounds_witness:
  "\<exists>rc (c' :: nat MQTTClient) s'. readPacket NetworkInit 600 idle_client (open_socket [(90, 0x30), (90, 0xFF), (90, 0xFF)]) = Some (rc, c', s') \<and>
     length (readbuf c') = 1000"
  using read_packet_in_bounds [of "idle_client :: nat MQTTClient" 600 "open_socket [(90, 0x30), (90, 0xFF), (90, 0xFF)]"]
  by (auto simp: idle_client_def)

text \<open>
  C38: sending a packet of at most half the size of the buffer ends with success or failure,
  whatever the connection does: it may stall, accept parts or break.
\<close>

theorem send_packet_ends:
  assumes "2 * len \<le> length (c_buf c)"
  shows "\<exists>rc c' s'. sendPacket NetworkInit len timer c s = Some (rc, c', s') \<and> rc \<in> {0, -1} \<and> c_buf c' = c_buf c"
  using assms by (rule tcp.sendPacket_returns)

theorem send_packet_ends_witness:
  "\<exists>rc (c' :: nat MQTTClient) s'. sendPacket NetworkInit 300 600 idle_client ((open_socket [])\<lparr>room := [100, 0, 0]\<rparr>) = Some (rc, c', s') \<and> rc \<in> {0, -1}"
  using send_packet_ends [of 300 "idle_client :: nat MQTTClient" 600 "(open_socket [])\<lparr>room := [100, 0, 0]\<rparr>"]
  by (auto simp: idle_client_def)

section \<open>Packets on a socket\<close>

text \<open>The bytes \<open>bs\<close> have arrived, and \<open>rest\<close> follows.\<close>

definition arrived :: "socket \<Rightarrow> u8 list \<Rightarrow> (nat \<times> u8) list \<Rightarrow> bool" where
  "arrived s bs rest \<longleftrightarrow> \<not> broken s \<and>
     (\<exists>ts. length ts = length bs \<and> (\<forall>t \<in> set ts. t \<le> now s) \<and> arriving s = zip ts bs @ rest)"

lemma arrived_append:
  assumes "arrived s (a @ b) rest"
  shows "\<exists>xs ys. arriving s = xs @ ys @ rest \<and> map snd xs = a \<and> map snd ys = b \<and> (\<forall>(t, _) \<in> set (xs @ ys). t \<le> now s)"
proof -
  obtain ts where ts: "length ts = length (a @ b)" "\<forall>t \<in> set ts. t \<le> now s" "arriving s = zip ts (a @ b) @ rest"
    using assms by (auto simp: arrived_def)
  let ?x = "take (length a) ts" and ?y = "drop (length a) ts"
  have "zip ts (a @ b) = zip ?x a @ zip ?y b" using ts(1) zip_append [of ?x a ?y b] by simp
  moreover have "\<forall>(t, _) \<in> set (zip ?x a @ zip ?y b). t \<le> now s"
    using ts(2) by (auto dest!: set_zip_leftD in_set_takeD in_set_dropD)
  ultimately show ?thesis using ts by (intro exI [of _ "zip ?x a"] exI [of _ "zip ?y b"]) simp
qed

lemma arrivedI: "\<not> broken s \<Longrightarrow> arriving s = ys @ rest \<Longrightarrow> \<forall>(t, _) \<in> set ys. t \<le> now s \<Longrightarrow> arrived s (map snd ys) rest"
  by (fastforce simp: arrived_def zip_map_fst_snd intro!: exI [of _ "map fst ys"])

lemma take_takeWhile_all: "\<forall>x \<in> set xs. P x \<Longrightarrow> take (length xs) (takeWhile P (xs @ ys)) = xs"
  by (simp add: takeWhile_append2)

text \<open>Only the bytes still to come have changed.\<close>

definition only_read :: "socket \<Rightarrow> socket \<Rightarrow> bool" where
  "only_read s t \<longleftrightarrow> t = s\<lparr>arriving := arriving t\<rparr>"

lemma only_read_refl [simp]: "only_read s s"
  by (simp add: only_read_def)

lemma only_read_trans: "only_read s t \<Longrightarrow> only_read t u \<Longrightarrow> only_read s u"
  by (cases s; cases t; cases u) (simp add: only_read_def)

lemma only_read_same:
  "only_read s t \<Longrightarrow> now t = now s \<and> broken t = broken s \<and> writable t = writable s \<and> room t = room s \<and> sent_bytes t = sent_bytes s"
  by (cases s; cases t) (simp add: only_read_def)

lemma only_read_update [simp]: "only_read s (s\<lparr>arriving := a\<rparr>)"
  by (simp add: only_read_def)

lemma recv_arrived:
  assumes "arrived s (a @ b) rest" "a \<noteq> []"
  shows "\<exists>s'. recv (length a) s = (int (length a), a, s') \<and> arrived s' b rest \<and> only_read s s'"
proof -
  obtain xs ys where xs: "arriving s = xs @ ys @ rest" "map snd xs = a" "map snd ys = b" "\<forall>(t, _) \<in> set (xs @ ys). t \<le> now s"
    using arrived_append [OF assms(1)] by blast
  have ok: "\<not> broken s" using assms(1) by (simp add: arrived_def)
  have "take (length xs) (takeWhile (\<lambda>(t, _). t \<le> now s) (xs @ ys @ rest)) = xs"
    using xs(4) by (intro take_takeWhile_all) auto
  moreover have "length xs = length a" "xs \<noteq> []" using xs(2) assms(2) by auto
  ultimately have "recv (length a) s = (int (length a), a, s\<lparr>arriving := ys @ rest\<rparr>)"
    using ok xs(1,2) by (simp add: recv_def Let_def)
  moreover have "arrived (s\<lparr>arriving := ys @ rest\<rparr>) b rest"
    using arrivedI [of "s\<lparr>arriving := ys @ rest\<rparr>" ys rest] ok xs(3,4) by auto
  ultimately show ?thesis by auto
qed

lemma esp_read_arrived:
  assumes "arrived s (a @ b) rest" "a \<noteq> []"
  shows "\<exists>s'. esp_read (length a) ms s = (int (length a), a, s') \<and> arrived s' b rest \<and> only_read s s'"
proof -
  obtain xs ys where xs: "arriving s = xs @ ys @ rest" "map snd xs = a" "\<forall>(t, _) \<in> set (xs @ ys). t \<le> now s"
    using arrived_append [OF assms(1)] by blast
  obtain t x xs' where first: "arriving s = (t, x) # xs'" "t \<le> now s" using xs assms(2) by (cases xs) auto
  have "select_read ticks s = (1, s)" for ticks
    using first assms(1) by (simp add: select_read_def arrived_def)
  moreover obtain s' where "recv (length a) s = (int (length a), a, s')" "arrived s' b rest" "only_read s s'"
    using recv_arrived [OF assms] by blast
  ultimately show ?thesis using assms(2) by (simp add: esp_read_def read_loop.simps Let_def)
qed

text \<open>The length of a packet is decoded from any source that delivers its bytes.\<close>

lemma decode_loop_source:
  assumes step: "\<And>s x xs. G s (x # xs) \<Longrightarrow> \<exists>s'. get s = (Some x, s') \<and> G s' xs"
  shows "length (MQTTPacket_encode n) \<le> k \<Longrightarrow> G s (MQTTPacket_encode n @ rest) \<Longrightarrow>
    \<exists>s'. decode_loop get k len m v s = (len + length (MQTTPacket_encode n), v + n * m, s') \<and> G s' rest"
proof (induction k arbitrary: n len m v s)
  case 0
  then show ?case by (simp add: encode_step [of n] split: if_splits)
next
  case (Suc k)
  obtain x xs where enc: "MQTTPacket_encode n = x # xs" by (cases "n < 128") (simp_all add: encode_step [of n])
  then obtain s1 where s1: "get s = (Some x, s1)" "G s1 (xs @ rest)" using step Suc.prems(2) by fastforce
  show ?case
  proof (cases "n < 128")
    case True
    then have "x = of_nat n" "xs = []" using enc by (simp_all add: encode_step [of n])
    then show ?thesis using s1 True enc by (simp add: low7)
  next
    case False
    then have x: "x = of_nat (n mod 128) OR 0x80" "xs = MQTTPacket_encode (n div 128)" using enc by (simp_all add: encode_step [of n])
    have "n mod 128 * m + n div 128 * (m * 128) = n * m"
      using mod_div_mult_eq [of n 128] by (metis add_mult_distrib mult.assoc mult.commute)
    moreover obtain s' where "decode_loop get k (len + 1) (m * 128) (v + n mod 128 * m) s1 =
        (len + 1 + length xs, v + n mod 128 * m + n div 128 * (m * 128), s')" "G s' rest"
      using Suc.IH [of "n div 128" s1 "len + 1" "m * 128" "v + n mod 128 * m"] s1(2) x(2) Suc.prems(1) enc by auto
    ultimately show ?thesis using s1(1) x enc by (simp add: Let_def high7 low7 add.assoc)
  qed
qed

lemma decodePacket_arrived:
  assumes "n < 268435456" "arrived s (MQTTPacket_encode n @ body) rest"
  shows "\<exists>l s'. decodePacket NetworkInit ms s = (l, n, s') \<and> arrived s' body rest \<and> only_read s s'"
proof -
  let ?get = "\<lambda>w. case mqttread NetworkInit 1 ms w of (rc, bs, w') \<Rightarrow> (if rc = 1 then Some (hd bs) else None, w')"
  define G where "G = (\<lambda>t xs. arrived t xs rest \<and> only_read s t)"
  have step: "\<exists>t'. ?get t = (Some x, t') \<and> G t' xs" if "G t (x # xs)" for t x xs
  proof -
    have "arrived t ([x] @ xs) rest" "only_read s t" using that by (simp_all add: G_def)
    then obtain t' where "esp_read 1 ms t = (1, [x], t')" "arrived t' xs rest" "only_read t t'"
      using esp_read_arrived [of t "[x]" xs rest ms] by auto
    then show ?thesis
      using \<open>only_read s t\<close> only_read_trans by (auto simp: NetworkInit_def G_def)
  qed
  have "G s (MQTTPacket_encode n @ body)" using assms(2) by (simp add: G_def)
  moreover have "length (MQTTPacket_encode n) \<le> 4" using assms(1) by (simp add: length_encode)
  ultimately obtain s' where "decode_loop ?get 4 0 1 0 s = (0 + length (MQTTPacket_encode n), 0 + n * 1, s')" "G s' body"
    using decode_loop_source [of G ?get n 4 s body 0 1 0] step by blast
  then show ?thesis by (simp add: decodePacket_def MAX_NO_OF_REMAINING_LENGTH_BYTES_def G_def)
qed

lemma tcp_select: "mqttread NetworkInit = esp_read" "mqttwrite NetworkInit = esp_write" "clock NetworkInit = now"
  by (simp_all add: NetworkInit_def)

lemma store_at_frame:
  "p \<le> length b \<Longrightarrow> length (take p b @ bs) \<le> length b \<Longrightarrow> store_at p bs b = Some (take p b @ bs @ drop (p + length bs) b)"
  by (simp add: store_at_def put_bytes_def)

text \<open>A packet that has arrived as a whole is stored at the start of the receive buffer.\<close>

lemma readPacket_arrived:
  fixes h :: u8 and body :: "u8 list" and c :: "'h MQTTClient"
  defines "frame \<equiv> mqtt_frame h body"
  assumes "arrived s frame rest" "length body < 268435456" "length frame \<le> length (readbuf c)"
  shows "\<exists>s'. readPacket NetworkInit timer c s = Some (uint (header_type h),
      c\<lparr>readbuf := frame @ drop (length frame) (readbuf c),
        last_received := (if c_keepAliveInterval c > 0 then TimerCountdown (c_keepAliveInterval c) (now s) else last_received c)\<rparr>, s') \<and>
    arrived s' [] rest \<and> only_read s s'"
proof -
  let ?enc = "MQTTPacket_encode (length body)"
  have "arrived s ([h] @ ?enc @ body) rest" using assms(2) by (simp add: frame_def mqtt_frame_def)
  then obtain s1 where s1: "esp_read 1 (TimerLeftMS timer (now s)) s = (1, [h], s1)" "arrived s1 (?enc @ body) rest" "only_read s s1"
    using esp_read_arrived [of s "[h]" "?enc @ body" rest "TimerLeftMS timer (now s)"] by auto
  obtain l s2 where s2: "decodePacket NetworkInit (TimerLeftMS timer (now s1)) s1 = (l, length body, s2)" "arrived s2 body rest" "only_read s1 s2"
    using decodePacket_arrived [OF assms(3) s1(2)] by blast
  have len: "1 + length ?enc + length body \<le> length (readbuf c)" using assms(4) by (simp add: frame_def mqtt_frame_def)
  have fit: "\<not> length (readbuf c) - Suc (length ?enc) < length body" using len by simp
  let ?rb1 = "h # drop 1 (readbuf c)" and ?rb2 = "h # ?enc @ drop (1 + length ?enc) (readbuf c)"
  have rb1: "store_at 0 [h] (readbuf c) = Some ?rb1" using len store_at_frame [of 0 "readbuf c" "[h]"] by simp
  have rb2: "store_at 1 ?enc ?rb1 = Some ?rb2" using len store_at_frame [of 1 ?rb1 ?enc] by simp
  show ?thesis
  proof (cases "body = []")
    case True
    moreover have "only_read s s2" using s1(3) s2(3) only_read_trans by blast
    ultimately show ?thesis
      using s1(1) s2(1,2) rb1 rb2 len only_read_same [of s s2]
      by (simp add: readPacket_def tcp_select packet_read_def frame_def mqtt_frame_def)
  next
    case False
    obtain s3 where s3: "esp_read (length body) (TimerLeftMS timer (now s2)) s2 = (int (length body), body, s3)" "arrived s3 [] rest" "only_read s2 s3"
      using esp_read_arrived [of s2 body "[]" rest "TimerLeftMS timer (now s2)"] s2(2) False by auto
    have "store_at (1 + length ?enc) body ?rb2 = Some (frame @ drop (length frame) (readbuf c))"
      using len store_at_frame [of "1 + length ?enc" ?rb2 body] by (simp add: frame_def mqtt_frame_def add.commute)
    moreover have "only_read s s3" using s1(3) s2(3) s3(3) only_read_trans by blast
    ultimately show ?thesis
      using s1(1) s2(1) s3(1,2) rb1 rb2 len fit False only_read_same [of s s3]
      by (simp add: readPacket_def tcp_select packet_read_def frame_def mqtt_frame_def)
  qed
qed

text \<open>A socket that accepts everything.\<close>

definition takes_all :: "socket \<Rightarrow> bool" where
  "takes_all s \<longleftrightarrow> \<not> broken s \<and> writable s = [] \<and> room s = []"

lemma esp_write_all:
  "takes_all s \<Longrightarrow> esp_write bs ms s = (int (length bs), (if bs = [] then s\<lparr>now := now s + 1\<rparr> else s)\<lparr>sent_bytes := sent_bytes s @ bs\<rparr>)"
  by (simp add: takes_all_def esp_write_def select_write_def write_loop.simps send_def Let_def)

lemma sendPacket_all:
  assumes "takes_all s" "0 < len" "len \<le> length (c_buf c)" "now s < timer"
  shows "sendPacket NetworkInit len timer c s =
    Some (0, c\<lparr>last_sent := TimerCountdown (c_keepAliveInterval c) (now s)\<rparr>, s\<lparr>sent_bytes := sent_bytes s @ take len (c_buf c)\<rparr>)"
proof -
  have "take len (c_buf c) \<noteq> []" using assms(2,3) by auto
  then have "send_loop NetworkInit (c_buf c) len timer 0 s = Some (len, s\<lparr>sent_bytes := sent_bytes s @ take len (c_buf c)\<rparr>)"
    using assms by (subst send_loop.simps, subst send_loop.simps)
      (simp add: tcp_select TimerIsExpired_def esp_write_all min_absorb2)
  then show ?thesis by (simp add: sendPacket_def tcp_select)
qed

lemma send_ack_all:
  assumes "takes_all s" "4 \<le> length (c_buf c)" "now s < timer"
  shows "send_ack NetworkInit timer type packetid c s =
    (let ack = MQTTHeader type 0 (if type = PUBREL then 1 else 0) 0 # 2 # int16 (unat packetid)
     in Some (0, c\<lparr>c_buf := ack @ drop 4 (c_buf c), last_sent := TimerCountdown (c_keepAliveInterval c) (now s)\<rparr>,
          s\<lparr>sent_bytes := sent_bytes s @ ack\<rparr>))"
  using assms by (simp add: send_ack_def serialize_ack sendPacket_all Let_def int16_def)

lemma keepalive_quiet:
  "0 < c_keepAliveInterval c \<Longrightarrow> clock tr w < last_sent c \<Longrightarrow> clock tr w < last_received c \<Longrightarrow> keepalive tr c w = Some (0, c, w)"
  by (simp add: keepalive_def TimerIsExpired_def)


lemma arrived_open_socket: "arrived (open_socket (map (Pair 90) bs)) bs []"
  using arrivedI [of "open_socket (map (Pair 90) bs)" "map (Pair 90) bs" "[]"] by (auto simp: open_socket_def comp_def)


section \<open>Deviations\<close>

lemma esp_read_part:
  assumes "arrived s a ((t, x) # rest)" "a \<noteq> []" "length a < n" "now s < t" "portTICK_PERIOD_MS \<le> ms"
  shows "\<exists>s'. esp_read n ms s = (-1, a, s') \<and> arriving s' = (t, x) # rest \<and> only_read s s'"
proof -
  obtain xs where xs: "arriving s = xs @ (t, x) # rest" "map snd xs = a" "\<forall>(t, _) \<in> set xs. t \<le> now s"
    using arrived_append [of s a "[]" "(t, x) # rest"] assms(1) by auto
  have ok: "\<not> broken s" using assms(1) by (simp add: arrived_def)
  obtain u y xs' where first: "xs = (u, y) # xs'" "u \<le> now s" using xs(2,3) assms(2) by (cases xs) auto
  have "takeWhile (\<lambda>(t, _). t \<le> now s) (xs @ (t, x) # rest) = xs"
    using xs(3) assms(4) by (subst takeWhile_append2) auto
  moreover have len: "length xs = length a" using xs(2) by auto
  ultimately have r1: "recv n s = (int (length a), a, s\<lparr>arriving := (t, x) # rest\<rparr>)"
    using ok xs(1,2) assms(2,3) by (auto simp: recv_def Let_def)
  have r2: "recv k (s\<lparr>arriving := (t, x) # rest\<rparr>) = (-1, [], s\<lparr>arriving := (t, x) # rest\<rparr>)" for k
    using ok assms(4) by (simp add: recv_def Let_def)
  have "now s < now s + ms div portTICK_PERIOD_MS" using assms(5) by (simp add: portTICK_PERIOD_MS_def div_greater_zero_iff)
  moreover have "select_read ticks s = (1, s)" for ticks using first xs(1) ok by (simp add: select_read_def)
  ultimately have "esp_read n ms s = (-1, a, s\<lparr>arriving := (t, x) # rest\<rparr>)"
    using assms(2,3) r1 r2 by (simp add: esp_read_def read_loop.simps [of n _ "[]"] read_loop.simps [of n _ a] Let_def)
  then show ?thesis by (intro exI [of _ "s\<lparr>arriving := (t, x) # rest\<rparr>"]) simp
qed

text \<open>
  When the rest of a packet has not arrived yet, reading the packet returns 0, as if
  nothing had come, although its first part has been taken from the stream: the next packet
  is looked for in the middle of this one.
\<close>

theorem fragmented_packet_lost:
  fixes c :: "'h MQTTClient"
  assumes "arrived s (h # MQTTPacket_encode n @ a) ((t, x) # rest)" "a \<noteq> []" "length a < n" "now s < t" "now s < timer"
    and "n < 268435456" "5 \<le> length (readbuf c)" "1 + length (MQTTPacket_encode n) + n \<le> length (readbuf c)"
  shows "\<exists>c' s'. readPacket NetworkInit timer c s = Some (0, c', s') \<and> arriving s' = (t, x) # rest \<and> calls c' = calls c"
proof -
  let ?enc = "MQTTPacket_encode n"
  have "arrived s ([h] @ ?enc @ a) ((t, x) # rest)" using assms(1) by simp
  then obtain s1 where s1: "esp_read 1 (TimerLeftMS timer (now s)) s = (1, [h], s1)" "arrived s1 (?enc @ a) ((t, x) # rest)" "only_read s s1"
    using esp_read_arrived [of s "[h]" "?enc @ a" "(t, x) # rest" "TimerLeftMS timer (now s)"] by auto
  obtain l s2 where s2: "decodePacket NetworkInit (TimerLeftMS timer (now s1)) s1 = (l, n, s2)" "arrived s2 a ((t, x) # rest)" "only_read s1 s2"
    using decodePacket_arrived [OF assms(6) s1(2)] by blast
  have now: "now s2 = now s" using only_read_same [OF s1(3)] only_read_same [OF s2(3)] by simp
  obtain s3 where s3: "esp_read n (TimerLeftMS timer (now s2)) s2 = (-1, a, s3)" "arriving s3 = (t, x) # rest"
    using esp_read_part [OF s2(2) assms(2,3), of "TimerLeftMS timer (now s2)"] assms(4,5) now
    by (auto simp: TimerLeftMS_def Suc_le_eq)
  obtain rb1 where rb1: "store_at 0 [h] (readbuf c) = Some rb1" "length rb1 = length (readbuf c)"
    using store_at_length [of 0 "[h]" "readbuf c"] assms(7) by auto
  obtain rb2 where rb2: "store_at 1 ?enc rb1 = Some rb2" "length rb2 = length (readbuf c)"
    using store_at_length [of 1 ?enc rb1] rb1(2) assms(8) by auto
  obtain rb3 where rb3: "store_at (1 + length ?enc) a rb2 = Some rb3"
    using store_at_length [of "1 + length ?enc" a rb2] rb2(2) assms(3,8) by auto
  have "\<not> n > length rb2 - (1 + length ?enc)" using rb2(2) assms(8) by simp
  then show ?thesis
    using s1(1) s2(1) s3 rb1(1) rb2(1) rb3 assms(3) by (simp add: readPacket_def tcp_select)
qed

theorem fragmented_packet_lost_witness:
  "\<exists>c' s'. readPacket NetworkInit 600 (idle_client :: nat MQTTClient) (open_socket [(90, 0x30), (90, 5), (90, 0), (90, 1), (120, 65), (120, 66), (120, 67)]) =
      Some (0, c', s') \<and> arriving s' = [(120, 65), (120, 66), (120, 67)]"
proof -
  let ?s = "open_socket [(90, 0x30), (90, 5), (90, 0), (90, 1), (120, 65), (120, 66), (120, 67)]"
  have enc: "MQTTPacket_encode 5 = [5]" by (simp add: encode_step)
  then have "arrived ?s (0x30 # MQTTPacket_encode 5 @ [0, 1]) ((120, 65) # [(120, 66), (120, 67)])"
    using arrivedI [of ?s "[(90, 0x30), (90, 5), (90, 0), (90, 1)]" "[(120, 65), (120, 66), (120, 67)]"] by (simp add: open_socket_def)
  from fragmented_packet_lost [OF this, where c = "idle_client :: nat MQTTClient" and timer = 600] show ?thesis
    by (simp add: enc idle_client_def open_socket_def) blast
qed

section \<open>Acknowledged operations\<close>

lemma cycle_ack:
  fixes c :: "'h MQTTClient"
  assumes "arrived s (mqtt_frame h body) rest" "length body < 268435456" "length (mqtt_frame h body) \<le> length (readbuf c)"
    and "uint (header_type h) \<in> {2, 4, 7, 9, 11}" "0 < c_keepAliveInterval c" "now s < last_sent c"
  shows "\<exists>s' t. cycle j NetworkInit timer c s = Some (uint (header_type h),
      c\<lparr>readbuf := mqtt_frame h body @ drop (length (mqtt_frame h body)) (readbuf c), last_received := t\<rparr>, s') \<and>
    arrived s' [] rest \<and> only_read s s'"
proof -
  let ?c1 = "c\<lparr>readbuf := mqtt_frame h body @ drop (length (mqtt_frame h body)) (readbuf c),
    last_received := TimerCountdown (c_keepAliveInterval c) (now s)\<rparr>"
  obtain s' where s': "readPacket NetworkInit timer c s = Some (uint (header_type h), ?c1, s')" "arrived s' [] rest" "only_read s s'"
    using readPacket_arrived [OF assms(1-3), of timer] assms(5) by auto
  have "keepalive NetworkInit ?c1 s' = Some (0, ?c1, s')"
    using only_read_same [OF s'(3)] assms(5,6)
    by (intro keepalive_quiet) (simp_all add: tcp_select TimerCountdown_def TimerCountdownMS_def portTICK_PERIOD_MS_def)
  then have "cycle j NetworkInit timer c s = Some (uint (header_type h), ?c1, s')"
    using s'(1) assms(4) by (auto simp: cycle_def handle_packet_def)
  then show ?thesis using s'(2,3) by blast
qed

lemma waitfor_ack:
  fixes c :: "'h MQTTClient"
  assumes "arrived s (mqtt_frame h body) rest" "length body < 268435456" "length (mqtt_frame h body) \<le> length (readbuf c)"
    and "uint (header_type h) \<in> {2, 4, 7, 9, 11}" "0 < c_keepAliveInterval c" "now s < last_sent c" "now s < timer"
  shows "\<exists>s' t. waitfor j NetworkInit (uint (header_type h)) timer c s = Some (uint (header_type h),
      c\<lparr>readbuf := mqtt_frame h body @ drop (length (mqtt_frame h body)) (readbuf c), last_received := t\<rparr>, s') \<and>
    arrived s' [] rest \<and> only_read s s'"
  using cycle_ack [OF assms(1-6), of j timer] assms(7)
  by (auto simp: waitfor_def wait_loop.simps tcp_select TimerIsExpired_def)

lemma ack_frame: "mqtt_frame h (int16 n) = h # 2 # int16 n"
  by (simp add: mqtt_frame_def encode_2)

text \<open>A request is sent as a whole and answered by a packet that has already arrived.\<close>

lemma send_and_wait:
  fixes c :: "'h MQTTClient"
  assumes "takes_all s" "arrived s (mqtt_frame h body) rest" "length body < 268435456" "length (mqtt_frame h body) \<le> length (readbuf c)"
    and "uint (header_type h) \<in> {2, 4, 7, 9, 11}" "0 < c_keepAliveInterval c" "now s < timer"
    and "c_buf c = frame @ others" "frame \<noteq> []"
  shows "\<exists>c3 s3 c' s'. sendPacket NetworkInit (length frame) timer c s = Some (0, c3, s3) \<and>
    waitfor j NetworkInit (uint (header_type h)) timer c3 s3 = Some (uint (header_type h), c', s') \<and>
    readbuf c' = mqtt_frame h body @ drop (length (mqtt_frame h body)) (readbuf c) \<and>
    c_isconnected c' = c_isconnected c \<and> messageHandlers c' = messageHandlers c \<and> calls c' = calls c \<and>
    sent_bytes s' = sent_bytes s @ frame \<and> arrived s' [] rest"
proof -
  let ?c3 = "c\<lparr>last_sent := TimerCountdown (c_keepAliveInterval c) (now s)\<rparr>" and ?s3 = "s\<lparr>sent_bytes := sent_bytes s @ frame\<rparr>"
  have send: "sendPacket NetworkInit (length frame) timer c s = Some (0, ?c3, ?s3)"
    using sendPacket_all [OF assms(1), of "length frame" c timer] assms(7-9) by simp
  have "arrived ?s3 (mqtt_frame h body) rest" using assms(2) by (simp add: arrived_def)
  then obtain s4 t where "waitfor j NetworkInit (uint (header_type h)) timer ?c3 ?s3 = Some (uint (header_type h),
      ?c3\<lparr>readbuf := mqtt_frame h body @ drop (length (mqtt_frame h body)) (readbuf c), last_received := t\<rparr>, s4)"
    "arrived s4 [] rest" "only_read ?s3 s4"
    using waitfor_ack [of ?s3 h body rest ?c3 timer j] assms(3-7)
    by (auto simp: TimerCountdown_def TimerCountdownMS_def portTICK_PERIOD_MS_def)
  then show ?thesis using send only_read_same [of ?s3 s4] by auto
qed

lemma next_id_same:
  "getNextPacketId c = (n, c1) \<Longrightarrow> c_keepAliveInterval c1 = c_keepAliveInterval c \<and> readbuf c1 = readbuf c \<and>
     c_isconnected c1 = c_isconnected c \<and> c_buf c1 = c_buf c \<and> messageHandlers c1 = messageHandlers c"
  by (auto simp: getNextPacketId_def Let_def)



lemma deserialize_suback_one:
  "MQTTDeserialize_suback (p, n, [x]) 1 (mqtt_frame (MQTTHeader SUBACK 0 0 0) (int16 (unat (k :: u16)) @ [q]) @ rest) = Some (1, k, 1, [unat q])"
proof -
  have "unat k < 65536" using unsigned_less [of k, where 'a = nat] by simp
  then show ?thesis by (simp add: MQTTDeserialize_suback_def)
qed

lemma set_handler_cong:
  "messageHandlers c = messageHandlers d \<Longrightarrow>
   fst (MQTTSetMessageHandler f h c) = fst (MQTTSetMessageHandler f h d) \<and>
   messageHandlers (snd (MQTTSetMessageHandler f h c)) = messageHandlers (snd (MQTTSetMessageHandler f h d))"
  by (auto simp: MQTTSetMessageHandler_def Let_def split: option.split)

lemma set_handler_result: "fst (MQTTSetMessageHandler f h c) \<in> {0, -1}"
  by (auto simp: MQTTSetMessageHandler_def Let_def split: option.split)

text \<open>
  When the broker refuses a subscription, the operation reports success although no handler
  was registered; when it grants the subscription, the handler is entered in the table.
\<close>

theorem refused_subscription_succeeds:
  fixes c :: "'h MQTTClient" and k :: u16 and q :: u8
  assumes "c_isconnected c" "takes_all s" "arrived s (mqtt_frame (MQTTHeader SUBACK 0 0 0) (int16 (unat k) @ [q])) rest"
    and "MQTTPacket_len (length (c_bytes topicFilter) + 5) \<le> length (c_buf c)" "length (c_bytes topicFilter) < 65536"
    and "5 \<le> length (readbuf c)" "10 \<le> command_timeout_ms c" "0 < c_keepAliveInterval c"
  shows "\<exists>c' s' rc. MQTTSubscribe j NetworkInit topicFilter qos handler c s = Some (rc, c', s') \<and>
    (if q = 0x80 then rc = 0 \<and> c_isconnected c' \<and> messageHandlers c' = messageHandlers c
     else rc = fst (MQTTSetMessageHandler topicFilter (Some handler) c) \<and>
       (rc = 0 \<longrightarrow> messageHandlers c' = messageHandlers (snd (MQTTSetMessageHandler topicFilter (Some handler) c))))"
proof -
  obtain n c1 where next_id: "getNextPacketId c = (n, c1)" by fastforce
  define ident :: u16 where "ident = ucast n"
  let ?filters = "[(MQTTString_initializer\<lparr>cstring := Some topicFilter\<rparr>, qos)]"
  define body where "body = int16 (unat ident) @ filter_bytes ?filters"
  define frame where "frame = mqtt_frame (MQTTHeader SUBSCRIBE 0 1 0) body"
  define c2 where "c2 = c1\<lparr>c_buf := frame @ drop (length frame) (c_buf c)\<rparr>"
  let ?timer = "TimerCountdownMS (command_timeout_ms c) (now s)"
  let ?ack = "mqtt_frame (MQTTHeader SUBACK 0 0 0) (int16 (unat k) @ [q])"
  note c1 = next_id_same [OF next_id]
  have topic: "\<forall>(t, q) \<in> set ?filters. string_ok t" using assms(5) by (simp add: string_ok_def str_bytes_def)
  have len: "length body = length (c_bytes topicFilter) + 5" by (simp add: body_def str_bytes_def)
  then have small: "length body < 268435456" "MQTTPacket_len (length body) \<le> length (c_buf c)" using assms(4,5) by simp_all
  have ser: "MQTTSerialize_subscribe (c_buf c) (length (c_buf c)) 0 ident ?filters =
      Some (int (length frame), frame @ drop (length frame) (c_buf c))"
    unfolding frame_def using serialize_subscribe [OF topic, of ident "c_buf c" 0] small by (simp only: body_def)
  have time: "now s < ?timer" using assms(7) by (simp add: TimerCountdownMS_def portTICK_PERIOD_MS_def div_greater_zero_iff)
  have frame: "frame \<noteq> []" by (simp add: frame_def mqtt_frame_def)
  have ack: "length ?ack = 5" by (simp add: length_mqtt_frame_eq length_encode)
  obtain c3 s3 c4 s4 where sent: "sendPacket NetworkInit (length frame) ?timer c2 s = Some (0, c3, s3)"
    "waitfor j NetworkInit 9 ?timer c3 s3 = Some (9, c4, s4)" "readbuf c4 = ?ack @ drop 5 (readbuf c)" "c_isconnected c4"
    "messageHandlers c4 = messageHandlers c"
    using send_and_wait [OF assms(2,3), where c = c2 and timer = ?timer and frame = frame and others = "drop (length frame) (c_buf c)" and j = j]
      assms(1,6,8) time frame c1 ack by (auto simp: c2_def)
  obtain rc c5 where set: "MQTTSetMessageHandler topicFilter (Some handler) c4 = (rc, c5)" by fastforce
  have "subscribe_acked j topicFilter handler 0 c4 s4 = Some (if q = 0x80 then (0, c4, s4) else (rc, c5, s4))"
    using deserialize_suback_one [of "junk_id j" 0 0 k q "drop 5 (readbuf c)"] sent(3) set
    by (simp add: subscribe_acked_def word_unat_eq_iff)
  then have "MQTTSubscribe j NetworkInit topicFilter qos handler c s =
      Some (close_on_failure (if q = 0x80 then (0, c4, s4) else (rc, c5, s4)))"
    unfolding MQTTSubscribe_def MQTTSubscribeWithResults_def using assms(1) ser sent(1,2) c1 frame
    by (simp add: next_id tcp_select Let_def flip: ident_def c2_def)
  then show ?thesis
    using set set_handler_cong [OF sent(5), of topicFilter "Some handler"] sent(4,5)
    by (auto simp: close_on_failure_def)
qed

theorem refused_subscription_succeeds_witness:
  "\<exists>c' s'. MQTTSubscribe \<lparr>junk_message = no_data, junk_id = 0\<rparr> NetworkInit (ascii ''home/#'' @ [0]) 1 (5 :: nat) idle_client
      (open_socket (map (Pair 90) (mqtt_frame (MQTTHeader SUBACK 0 0 0) (int16 (unat (2 :: u16)) @ [0x80])))) = Some (0, c', s') \<and>
    messageHandlers c' = replicate 5 (None, None)"
  using refused_subscription_succeeds [OF _ _ arrived_open_socket, where c = "idle_client :: nat MQTTClient" and k = 2 and q = "0x80"
      and topicFilter = "ascii ''home/#'' @ [0]" and j = "\<lparr>junk_message = no_data, junk_id = 0\<rparr>" and qos = 1 and handler = 5]
  by (simp add: idle_client_def open_socket_def takes_all_def MQTTPacket_len_def) blast

end
