(* ===== verification/Rtos_List.thy ===== *)
theory Rtos_List
  imports Prelude "HOL-Library.Monad_Syntax"
begin

text \<open>
  The kernel's lists (\<open>components/freertos/freertos/list.c\<close>, \<open>private/list.h\<close>): circular doubly linked
  lists with an end marker inside the list structure. Lists are named by \<open>'l\<close>, items by \<open>'i\<close>;
  the structures in memory are the record \<open>list_heap\<close>, a function for each field.

  The second half gives the same operations on sequences of items (\<open>klists\<close>) and proves that
  the pointer operations implement them. The locale \<open>kernel_list\<close> states this contract; the
  kernel's other components are modelled over the sequences.
\<close>

section \<open>The structures in memory\<close>

datatype ('l, 'i) node = xListEnd 'l | Item 'i

record ('l, 'i) list_heap =
  xItemValue :: "('l, 'i) node \<Rightarrow> u32"
  pxNext :: "('l, 'i) node \<Rightarrow> ('l, 'i) node"
  pxPrevious :: "('l, 'i) node \<Rightarrow> ('l, 'i) node"
  pvContainer :: "'i \<Rightarrow> 'l option"
  uxNumberOfItems :: "'l \<Rightarrow> u32"
  pxIndex :: "'l \<Rightarrow> ('l, 'i) node"

definition portMAX_DELAY :: u32 where "portMAX_DELAY = 0xFFFFFFFF"

definition vListInitialise :: "'l \<Rightarrow> ('l, 'i) list_heap \<Rightarrow> ('l, 'i) list_heap" where
  "vListInitialise l h =
     h\<lparr>pxIndex := (pxIndex h)(l := xListEnd l),
       xItemValue := (xItemValue h)(xListEnd l := portMAX_DELAY),
       pxNext := (pxNext h)(xListEnd l := xListEnd l),
       pxPrevious := (pxPrevious h)(xListEnd l := xListEnd l),
       uxNumberOfItems := (uxNumberOfItems h)(l := 0)\<rparr>"

definition vListInitialiseItem :: "'i \<Rightarrow> ('l, 'i) list_heap \<Rightarrow> ('l, 'i) list_heap" where
  "vListInitialiseItem i h = h\<lparr>pvContainer := (pvContainer h)(i := None)\<rparr>"

text \<open>The last statements of both insertions.\<close>

definition note_inserted :: "'l \<Rightarrow> 'i \<Rightarrow> ('l, 'i) list_heap \<Rightarrow> ('l, 'i) list_heap" where
  "note_inserted l i h =
     h\<lparr>pvContainer := (pvContainer h)(i := Some l), uxNumberOfItems := (uxNumberOfItems h)(l := uxNumberOfItems h l + 1)\<rparr>"

definition vListInsertEnd :: "'l \<Rightarrow> 'i \<Rightarrow> ('l, 'i) list_heap \<Rightarrow> ('l, 'i) list_heap" where
  "vListInsertEnd l i h =
     (let ix = pxIndex h l;
          h = h\<lparr>pxNext := (pxNext h)(Item i := ix)\<rparr>;
          h = h\<lparr>pxPrevious := (pxPrevious h)(Item i := pxPrevious h ix)\<rparr>;
          h = h\<lparr>pxNext := (pxNext h)(pxPrevious h ix := Item i)\<rparr>;
          h = h\<lparr>pxPrevious := (pxPrevious h)(ix := Item i)\<rparr>
      in note_inserted l i h)"

text \<open>The search of \<open>vListInsert\<close>; in a damaged list it may not end.\<close>

partial_function (option) insert_pos :: "u32 \<Rightarrow> ('l, 'i) list_heap \<Rightarrow> ('l, 'i) node \<Rightarrow> ('l, 'i) node option" where
  "insert_pos v h p = (if xItemValue h (pxNext h p) \<le> v then insert_pos v h (pxNext h p) else Some p)"

definition vListInsert :: "'l \<Rightarrow> 'i \<Rightarrow> ('l, 'i) list_heap \<Rightarrow> ('l, 'i) list_heap option" where
  "vListInsert l i h = do {
     p \<leftarrow> (if xItemValue h (Item i) = portMAX_DELAY then Some (pxPrevious h (xListEnd l))
          else insert_pos (xItemValue h (Item i)) h (xListEnd l));
     let h = h\<lparr>pxNext := (pxNext h)(Item i := pxNext h p)\<rparr>;
     let h = h\<lparr>pxPrevious := (pxPrevious h)(pxNext h (Item i) := Item i)\<rparr>;
     let h = h\<lparr>pxPrevious := (pxPrevious h)(Item i := p)\<rparr>;
     let h = h\<lparr>pxNext := (pxNext h)(p := Item i)\<rparr>;
     Some (note_inserted l i h)
   }"

text \<open>Removing an item that is in no list follows the null pointer in \<open>pvContainer\<close>: \<open>None\<close>.\<close>

definition uxListRemove :: "'i \<Rightarrow> ('l, 'i) list_heap \<Rightarrow> (u32 \<times> ('l, 'i) list_heap) option" where
  "uxListRemove i h = do {
     l \<leftarrow> pvContainer h i;
     let h = h\<lparr>pxPrevious := (pxPrevious h)(pxNext h (Item i) := pxPrevious h (Item i))\<rparr>;
     let h = h\<lparr>pxNext := (pxNext h)(pxPrevious h (Item i) := pxNext h (Item i))\<rparr>;
     let h = h\<lparr>pxIndex := (if pxIndex h l = Item i then (pxIndex h)(l := pxPrevious h (Item i)) else pxIndex h)\<rparr>;
     let h = h\<lparr>pvContainer := (pvContainer h)(i := None), uxNumberOfItems := (uxNumberOfItems h)(l := uxNumberOfItems h l - 1)\<rparr>;
     Some (uxNumberOfItems h l, h)
   }"

text \<open>The macros of \<open>list.h\<close>; the end marker has no owner, which is \<open>None\<close>.\<close>

definition listSET_LIST_ITEM_VALUE :: "'i \<Rightarrow> u32 \<Rightarrow> ('l, 'i) list_heap \<Rightarrow> ('l, 'i) list_heap" where
  "listSET_LIST_ITEM_VALUE i v h = h\<lparr>xItemValue := (xItemValue h)(Item i := v)\<rparr>"

definition listLIST_IS_EMPTY :: "'l \<Rightarrow> ('l, 'i) list_heap \<Rightarrow> bool" where
  "listLIST_IS_EMPTY l h \<longleftrightarrow> uxNumberOfItems h l = 0"

definition owner_of :: "('l, 'i) node \<Rightarrow> 'i option" where
  "owner_of n = (case n of xListEnd _ \<Rightarrow> None | Item i \<Rightarrow> Some i)"

definition listGET_OWNER_OF_HEAD_ENTRY :: "'l \<Rightarrow> ('l, 'i) list_heap \<Rightarrow> 'i option" where
  "listGET_OWNER_OF_HEAD_ENTRY l h = owner_of (pxNext h (xListEnd l))"

definition listGET_OWNER_OF_NEXT_ENTRY :: "'l \<Rightarrow> ('l, 'i) list_heap \<Rightarrow> 'i option \<times> ('l, 'i) list_heap" where
  "listGET_OWNER_OF_NEXT_ENTRY l h =
     (let h = h\<lparr>pxIndex := (pxIndex h)(l := pxNext h (pxIndex h l))\<rparr>;
          h = (if pxIndex h l = xListEnd l then h\<lparr>pxIndex := (pxIndex h)(l := pxNext h (pxIndex h l))\<rparr> else h)
      in (owner_of (pxIndex h l), h))"

section \<open>The same operations on sequences\<close>

text \<open>The items of each list in order, the position of the index, the list of each item, its value.\<close>

record ('l, 'i) klists =
  entries :: "'l \<Rightarrow> 'i list"
  index :: "'l \<Rightarrow> 'i option"
  container :: "'i \<Rightarrow> 'l option"
  item_value :: "'i \<Rightarrow> u32"

definition l_init :: "'l \<Rightarrow> ('l, 'i) klists \<Rightarrow> ('l, 'i) klists" where
  "l_init l A = A\<lparr>entries := (entries A)(l := []), index := (index A)(l := None)\<rparr>"

text \<open>The new item goes in front of the index, or last when the index is at the end marker.\<close>

definition l_insert_end :: "'l \<Rightarrow> 'i \<Rightarrow> ('l, 'i) klists \<Rightarrow> ('l, 'i) klists" where
  "l_insert_end l i A =
     A\<lparr>entries := (entries A)(l := (case index A l of
                                   None \<Rightarrow> entries A l @ [i]
                                 | Some j \<Rightarrow> takeWhile (\<lambda>k. k \<noteq> j) (entries A l) @ i # dropWhile (\<lambda>k. k \<noteq> j) (entries A l))),
       container := (container A)(i := Some l)\<rparr>"

text \<open>The new item goes behind the leading items with no greater value.\<close>

definition l_insert :: "'l \<Rightarrow> 'i \<Rightarrow> ('l, 'i) klists \<Rightarrow> ('l, 'i) klists" where
  "l_insert l i A =
     (let no_greater = (\<lambda>k. item_value A k \<le> item_value A i)
      in A\<lparr>entries := (entries A)(l := (if item_value A i = portMAX_DELAY then entries A l @ [i]
                                      else takeWhile no_greater (entries A l) @ i # dropWhile no_greater (entries A l))),
           container := (container A)(i := Some l)\<rparr>)"

definition before :: "'i \<Rightarrow> 'i list \<Rightarrow> 'i option" where
  "before i xs = (case takeWhile (\<lambda>k. k \<noteq> i) xs of [] \<Rightarrow> None | ys \<Rightarrow> Some (last ys))"

definition l_remove :: "'i \<Rightarrow> ('l, 'i) klists \<Rightarrow> (nat \<times> ('l, 'i) klists) option" where
  "l_remove i A = do {
     l \<leftarrow> container A i;
     let xs = entries A l;
     Some (length (remove1 i xs),
       A\<lparr>entries := (entries A)(l := remove1 i xs),
         index := (index A)(l := (if index A l = Some i then before i xs else index A l)),
         container := (container A)(i := None)\<rparr>)
   }"

definition l_set_value :: "'i \<Rightarrow> u32 \<Rightarrow> ('l, 'i) klists \<Rightarrow> ('l, 'i) klists" where
  "l_set_value i v A = A\<lparr>item_value := (item_value A)(i := v)\<rparr>"

definition l_empty :: "'l \<Rightarrow> ('l, 'i) klists \<Rightarrow> bool" where
  "l_empty l A \<longleftrightarrow> entries A l = []"

definition l_head :: "'l \<Rightarrow> ('l, 'i) klists \<Rightarrow> 'i option" where
  "l_head l A = (case entries A l of [] \<Rightarrow> None | i # _ \<Rightarrow> Some i)"

text \<open>The item behind the index, cyclically.\<close>

definition l_next :: "'l \<Rightarrow> ('l, 'i) klists \<Rightarrow> 'i option \<times> ('l, 'i) klists" where
  "l_next l A =
     (let xs = entries A l;
          rest = (case index A l of None \<Rightarrow> [] | Some j \<Rightarrow> tl (dropWhile (\<lambda>k. k \<noteq> j) xs));
          i = (case rest @ xs of [] \<Rightarrow> None | i # _ \<Rightarrow> Some i)
      in (i, A\<lparr>index := (index A)(l := i)\<rparr>))"

section \<open>Paths\<close>

text \<open>From \<open>a\<close> the forward and backward pointers run through \<open>xs\<close> to \<open>b\<close>.\<close>

fun dpath :: "('l, 'i) list_heap \<Rightarrow> ('l, 'i) node \<Rightarrow> ('l, 'i) node list \<Rightarrow> ('l, 'i) node \<Rightarrow> bool" where
  "dpath h a [] b \<longleftrightarrow> pxNext h a = b \<and> pxPrevious h b = a"
| "dpath h a (x # xs) b \<longleftrightarrow> pxNext h a = x \<and> pxPrevious h x = a \<and> dpath h x xs b"

lemma dpath_append: "dpath h a (xs @ y # ys) b \<longleftrightarrow> dpath h a xs y \<and> dpath h y ys b"
  by (induction xs arbitrary: a) auto

lemma dpath_frame:
  assumes "\<forall>u \<in> set (a # xs). pxNext h' u = pxNext h u" "\<forall>v \<in> set (xs @ [b]). pxPrevious h' v = pxPrevious h v"
  shows "dpath h' a xs b = dpath h a xs b"
  using assms by (induction xs arbitrary: a) auto

lemma dpath_ends:
  assumes "dpath h a (xs @ ys) b"
  shows "pxNext h (last (a # xs)) = hd (ys @ [b])" "pxPrevious h (hd (ys @ [b])) = last (a # xs)"
  using assms by (induction xs arbitrary: a) (auto, cases ys, auto, cases ys, auto)

text \<open>Linking \<open>n\<close> between the neighbours \<open>p\<close> and \<open>q\<close>, and cutting it out again.\<close>

lemma dpath_link:
  assumes "dpath h a (xs @ ys) b" "distinct (n # xs @ ys)" "a \<notin> set (n # xs @ ys)" "b \<notin> set (n # xs @ ys)"
    and "pxNext h' = (pxNext h)(n := hd (ys @ [b]), last (a # xs) := n)"
    and "pxPrevious h' = (pxPrevious h)(n := last (a # xs), hd (ys @ [b]) := n)"
  shows "dpath h' a (xs @ n # ys) b"
proof -
  have left: "dpath h' a xs n"
  proof (cases xs rule: rev_cases)
    case Nil
    then show ?thesis using assms by (cases ys) auto
  next
    case (snoc xs' x)
    have "dpath h a xs' x" using assms(1) by (simp add: snoc dpath_append)
    then have "dpath h' a xs' x"
      using assms by (subst dpath_frame [where h = h]) (auto simp: snoc, (cases ys, auto)+)
    moreover have "pxNext h' x = n" "pxPrevious h' n = x" using assms by (auto simp: snoc) (cases ys, auto)+
    ultimately show ?thesis by (simp add: snoc dpath_append)
  qed
  have right: "dpath h' n ys b"
  proof (cases ys)
    case Nil
    then show ?thesis using assms by (cases xs rule: rev_cases) auto
  next
    case (Cons y ys')
    have "dpath h y ys' b" using assms(1) by (simp add: Cons dpath_append)
    then have "dpath h' y ys' b"
      using assms by (subst dpath_frame [where h = h]) (auto simp: Cons, (cases xs rule: rev_cases, auto)+)
    moreover have "pxNext h' n = y" "pxPrevious h' y = n" using assms by (auto simp: Cons)
    ultimately show ?thesis by (simp add: Cons)
  qed
  show ?thesis using left right by (simp add: dpath_append)
qed

lemma dpath_unlink:
  assumes "dpath h a (xs @ n # ys) b" "distinct (n # xs @ ys)" "a \<notin> set (n # xs @ ys)" "b \<notin> set (n # xs @ ys)"
    and "pxNext h' = (pxNext h)(last (a # xs) := hd (ys @ [b]))"
    and "pxPrevious h' = (pxPrevious h)(hd (ys @ [b]) := last (a # xs))"
  shows "dpath h' a (xs @ ys) b"
proof (cases ys)
  case Nil
  then show ?thesis
  proof (cases xs rule: rev_cases)
    case (snoc xs' x)
    have "dpath h a xs' x" using assms(1) by (simp add: snoc dpath_append)
    then have "dpath h' a xs' x" using assms by (subst dpath_frame [where h = h]) (auto simp: snoc Nil)
    then show ?thesis using assms by (auto simp: snoc Nil dpath_append)
  qed (use assms Nil in auto)
next
  case (Cons y ys')
  have r: "dpath h y ys' b" using assms(1) by (simp add: Cons dpath_append)
  have "last (a # xs) \<notin> set (y # ys')" using assms(2,3) by (cases xs rule: rev_cases) (auto simp: Cons)
  then have right: "dpath h' y ys' b" using r assms by (subst dpath_frame [where h = h]) (auto simp: Cons)
  show ?thesis
  proof (cases xs rule: rev_cases)
    case (snoc xs' x)
    have "dpath h a xs' x" using assms(1) by (simp add: snoc dpath_append)
    then have "dpath h' a xs' x" using assms by (subst dpath_frame [where h = h]) (auto simp: snoc Cons)
    then show ?thesis using right assms by (auto simp: snoc Cons dpath_append)
  qed (use right assms Cons in auto)
qed

section \<open>Refinement\<close>

definition index_node :: "'l \<Rightarrow> 'i option \<Rightarrow> ('l, 'i) node" where
  "index_node l ix = (case ix of None \<Rightarrow> xListEnd l | Some i \<Rightarrow> Item i)"

definition list_ok :: "('l, 'i) list_heap \<Rightarrow> ('l, 'i) klists \<Rightarrow> 'l \<Rightarrow> bool" where
  "list_ok h A l \<longleftrightarrow>
     dpath h (xListEnd l) (map Item (entries A l)) (xListEnd l) \<and> distinct (entries A l) \<and> length (entries A l) < 2 ^ 32 \<and>
     uxNumberOfItems h l = of_nat (length (entries A l)) \<and> xItemValue h (xListEnd l) = portMAX_DELAY \<and>
     pxIndex h l = index_node l (index A l) \<and> set_option (index A l) \<subseteq> set (entries A l)"

text \<open>The lists in \<open>L\<close> have been initialised and hold the sequences of \<open>A\<close>.\<close>

definition lists_ok :: "'l set \<Rightarrow> ('l, 'i) list_heap \<Rightarrow> ('l, 'i) klists \<Rightarrow> bool" where
  "lists_ok L h A \<longleftrightarrow>
     (\<forall>l \<in> L. list_ok h A l) \<and> pvContainer h = container A \<and>
     (\<forall>i l. container A i = Some l \<longleftrightarrow> l \<in> L \<and> i \<in> set (entries A l)) \<and>
     (\<forall>i. xItemValue h (Item i) = item_value A i)"

lemma distinct_map_Item [simp]: "distinct (map Item xs) = distinct xs"
  by (simp add: distinct_map inj_on_def)

lemma Item_in_map [simp]: "Item i \<in> Item ` S \<longleftrightarrow> i \<in> S" "xListEnd l \<notin> Item ` S" "Item ` S \<inter> Item ` T = {} \<longleftrightarrow> S \<inter> T = {}"
  by auto

lemma lists_okD:
  assumes "lists_ok L h A" "l \<in> L"
  shows "list_ok h A l" "dpath h (xListEnd l) (map Item (entries A l)) (xListEnd l)" "distinct (entries A l)"
  using assms by (auto simp: lists_ok_def list_ok_def)

text \<open>A list none of whose nodes changes keeps its state.\<close>

lemma list_ok_frame:
  assumes "list_ok h A l'" "entries A' l' = entries A l'" "index A' l' = index A l'"
    and "\<forall>u \<in> insert (xListEnd l') (Item ` set (entries A l')). pxNext h' u = pxNext h u \<and> pxPrevious h' u = pxPrevious h u"
    and "uxNumberOfItems h' l' = uxNumberOfItems h l'" "pxIndex h' l' = pxIndex h l'"
    and "xItemValue h' (xListEnd l') = xItemValue h (xListEnd l')"
  shows "list_ok h' A' l'"
proof -
  have "dpath h' (xListEnd l') (map Item (entries A l')) (xListEnd l') = dpath h (xListEnd l') (map Item (entries A l')) (xListEnd l')"
    using assms(4) by (intro dpath_frame) auto
  then show ?thesis using assms by (simp add: list_ok_def)
qed

text \<open>Where the neighbours of a position in a list lie.\<close>

lemma neighbours:
  assumes "xs @ ys = zs"
  shows "last (xListEnd l # map Item xs) \<in> insert (xListEnd l) (Item ` set zs)"
    and "hd (map Item ys @ [xListEnd l]) \<in> insert (xListEnd l) (Item ` set zs)"
  subgoal using assms by (cases xs rule: rev_cases) auto
  subgoal using assms by (cases ys) auto
  done

lemma nodes_disjoint:
  assumes "lists_ok L h A" "l \<in> L" "l' \<in> L" "l' \<noteq> l"
  shows "insert (xListEnd l') (Item ` set (entries A l')) \<inter> insert (xListEnd l) (Item ` set (entries A l)) = {}"
proof -
  have "k \<notin> set (entries A l)" if "k \<in> set (entries A l')" for k
    using assms that unfolding lists_ok_def by (metis option.inject)
  then show ?thesis using assms(4) by auto
qed

lemma insert_refines:
  assumes ok: "lists_ok L h A" "l \<in> L" and new: "container A i = None" "length (entries A l) + 1 < 2 ^ 32"
    and split: "entries A l = xs @ ys"
    and h': "pxNext h' = (pxNext h)(Item i := hd (map Item ys @ [xListEnd l]), last (xListEnd l # map Item xs) := Item i)"
      "pxPrevious h' = (pxPrevious h)(Item i := last (xListEnd l # map Item xs), hd (map Item ys @ [xListEnd l]) := Item i)"
      "pvContainer h' = (pvContainer h)(i := Some l)" "uxNumberOfItems h' = (uxNumberOfItems h)(l := uxNumberOfItems h l + 1)"
      "xItemValue h' = xItemValue h" "pxIndex h' = pxIndex h"
  shows "lists_ok L h' (A\<lparr>entries := (entries A)(l := xs @ i # ys), container := (container A)(i := Some l)\<rparr>)" (is "lists_ok L h' ?A")
proof -
  have fresh: "l' \<in> L \<Longrightarrow> i \<notin> set (entries A l')" for l' using ok(1) new(1) unfolding lists_ok_def by (metis option.distinct(1))
  note L = lists_okD [OF ok]
  have "list_ok h' ?A l"
  proof -
    have "dpath h' (xListEnd l) (map Item xs @ Item i # map Item ys) (xListEnd l)"
      using L(2,3) fresh [OF ok(2)] h'(1,2)
      by (intro dpath_link [where h = h and xs = "map Item xs" and ys = "map Item ys"]) (auto simp: split)
    then show ?thesis using L(1) fresh [OF ok(2)] new(2) h' by (auto simp: list_ok_def split)
  qed
  moreover have "list_ok h' ?A l'" if "l' \<in> L" "l' \<noteq> l" for l'
  proof (rule list_ok_frame [of h A])
    have "u \<notin> {Item i, last (xListEnd l # map Item xs), hd (map Item ys @ [xListEnd l])}"
      if "u \<in> insert (xListEnd l') (Item ` set (entries A l'))" for u
      using that neighbours [OF split [symmetric], where l = l] fresh [OF \<open>l' \<in> L\<close>] nodes_disjoint [OF ok \<open>l' \<in> L\<close> \<open>l' \<noteq> l\<close>]
      by (auto simp del: hd_append last.simps)
    then show "\<forall>u \<in> insert (xListEnd l') (Item ` set (entries A l')). pxNext h' u = pxNext h u \<and> pxPrevious h' u = pxPrevious h u"
      by (auto simp: h'(1,2))
  qed (use that lists_okD(1) [OF ok(1)] h' in auto)
  ultimately show ?thesis
    using ok new h' fresh by (auto simp: lists_ok_def split)
qed

lemma dropWhile_at: "j \<in> set xs \<Longrightarrow> \<exists>ys. dropWhile (\<lambda>k. k \<noteq> j) xs = j # ys"
  by (induction xs) auto

lemma portMAX_DELAY_top [simp]: "portMAX_DELAY \<le> v \<longleftrightarrow> v = portMAX_DELAY" "v \<le> portMAX_DELAY"
proof -
  have top: "portMAX_DELAY = - 1" by (simp add: portMAX_DELAY_def)
  show "portMAX_DELAY \<le> v \<longleftrightarrow> v = portMAX_DELAY" unfolding top by (rule word_order.extremum_unique)
  show "v \<le> portMAX_DELAY" unfolding top by (rule word_order.extremum)
qed

lemma index_split:
  assumes "list_ok h A l"
  shows "\<exists>xs ys. entries A l = xs @ ys \<and> pxIndex h l = hd (map Item ys @ [xListEnd l]) \<and>
    entries (l_insert_end l i A) = (entries A)(l := xs @ i # ys)"
proof (cases "index A l")
  case None
  then show ?thesis using assms by (intro exI [of _ "entries A l"] exI [of _ "[]"]) (simp add: list_ok_def index_node_def l_insert_end_def)
next
  case (Some j)
  then have "j \<in> set (entries A l)" using assms by (simp add: list_ok_def)
  then obtain ys where "dropWhile (\<lambda>k. k \<noteq> j) (entries A l) = j # ys" using dropWhile_at by metis
  moreover from this have "takeWhile (\<lambda>k. k \<noteq> j) (entries A l) @ j # ys = entries A l"
    by (metis takeWhile_dropWhile_id)
  ultimately show ?thesis
    using assms Some by (intro exI [of _ "takeWhile (\<lambda>k. k \<noteq> j) (entries A l)"] exI [of _ "j # ys"])
      (simp add: list_ok_def index_node_def l_insert_end_def)
qed

lemma vListInsertEnd_refines:
  assumes "lists_ok L h A" "l \<in> L" "container A i = None" "length (entries A l) + 1 < 2 ^ 32"
  shows "lists_ok L (vListInsertEnd l i h) (l_insert_end l i A)"
proof -
  obtain xs ys where s: "entries A l = xs @ ys" "pxIndex h l = hd (map Item ys @ [xListEnd l])"
    "entries (l_insert_end l i A) = (entries A)(l := xs @ i # ys)"
    using index_split [OF lists_okD(1) [OF assms(1,2)]] by blast
  have "i \<notin> set (xs @ ys)" using assms(1-3) s(1) unfolding lists_ok_def by (metis option.distinct(1))
  then have "Item i \<noteq> pxIndex h l" using s(2) by (cases ys) auto
  moreover have "pxPrevious h (pxIndex h l) = last (xListEnd l # map Item xs)"
    using dpath_ends(2) [of h "xListEnd l" "map Item xs" "map Item ys" "xListEnd l"] lists_okD(2) [OF assms(1,2)] s(1,2) by simp
  ultimately have "lists_ok L (vListInsertEnd l i h) (A\<lparr>entries := (entries A)(l := xs @ i # ys), container := (container A)(i := Some l)\<rparr>)"
    using s(2) by (intro insert_refines [OF assms s(1)]) (simp_all add: vListInsertEnd_def note_inserted_def Let_def)
  moreover have "l_insert_end l i A = A\<lparr>entries := (entries A)(l := xs @ i # ys), container := (container A)(i := Some l)\<rparr>"
    using s(3) by (simp add: l_insert_end_def)
  ultimately show ?thesis by simp
qed

lemma insert_pos_path:
  assumes "dpath h a (map Item xs) (xListEnd l)" "xItemValue h (xListEnd l) = portMAX_DELAY" "v \<noteq> portMAX_DELAY"
    and "\<forall>i. xItemValue h (Item i) = val i"
  shows "insert_pos v h a = Some (last (a # map Item (takeWhile (\<lambda>k. val k \<le> v) xs)))"
  using assms(1)
proof (induction xs arbitrary: a)
  case Nil
  have "\<not> portMAX_DELAY \<le> v" using assms(3) portMAX_DELAY_top [of v] by simp
  then show ?case using Nil assms(2) by (simp add: insert_pos.simps [of v h a])
next
  case (Cons x xs)
  then show ?case using assms(4) by (simp add: insert_pos.simps [of v h a])
qed

lemma vListInsert_refines:
  assumes "lists_ok L h A" "l \<in> L" "container A i = None" "length (entries A l) + 1 < 2 ^ 32"
  shows "\<exists>h'. vListInsert l i h = Some h' \<and> lists_ok L h' (l_insert l i A)"
proof -
  define v where "v = item_value A i"
  define xs where "xs = (if v = portMAX_DELAY then entries A l else takeWhile (\<lambda>k. item_value A k \<le> v) (entries A l))"
  define ys where "ys = (if v = portMAX_DELAY then [] else dropWhile (\<lambda>k. item_value A k \<le> v) (entries A l))"
  define p where "p = last (xListEnd l # map Item xs)"
  define q where "q = hd (map Item ys @ [xListEnd l])"
  note L = lists_okD [OF assms(1,2)]
  have split: "entries A l = xs @ ys" by (simp add: xs_def ys_def)
  have v: "xItemValue h (Item i) = v" using assms(1) by (simp add: v_def lists_ok_def)
  have pq: "pxNext h p = q" "pxPrevious h q = p"
    using dpath_ends [of h "xListEnd l" "map Item xs" "map Item ys" "xListEnd l"] L(2) by (simp_all add: p_def q_def split)
  have pos: "(if v = portMAX_DELAY then Some (pxPrevious h (xListEnd l)) else insert_pos v h (xListEnd l)) = Some p"
  proof (cases "v = portMAX_DELAY")
    case True
    then show ?thesis using pq(2) by (simp add: q_def ys_def)
  next
    case False
    then show ?thesis
      using L(1) assms(1) insert_pos_path [OF L(2), of v "item_value A"] by (simp add: p_def xs_def list_ok_def lists_ok_def)
  qed
  have "i \<notin> set (xs @ ys)" using assms(1-3) split unfolding lists_ok_def by (metis option.distinct(1))
  then have q: "Item i \<noteq> q" "Item i \<noteq> p"
    using neighbours [where xs = xs and ys = ys and l = l, OF refl] by (auto simp: p_def q_def simp del: hd_append last.simps)
  define h' where "h' = note_inserted l i (h\<lparr>pxPrevious := (pxPrevious h)(q := Item i, Item i := p), pxNext := (pxNext h)(Item i := q, p := Item i)\<rparr>)"
  have "vListInsert l i h = Some h'"
    unfolding vListInsert_def v pos using pq(1) by (simp add: h'_def Let_def)
  moreover have "lists_ok L h' (A\<lparr>entries := (entries A)(l := xs @ i # ys), container := (container A)(i := Some l)\<rparr>)"
    using q by (intro insert_refines [OF assms split]) (simp_all add: h'_def note_inserted_def p_def q_def fun_upd_twist)
  moreover have "l_insert l i A = A\<lparr>entries := (entries A)(l := xs @ i # ys), container := (container A)(i := Some l)\<rparr>"
    by (simp add: l_insert_def xs_def ys_def v_def Let_def)
  ultimately show ?thesis by simp
qed

lemma before_node:
  "xs = takeWhile (\<lambda>k. k \<noteq> i) zs \<Longrightarrow> index_node l (before i zs) = last (xListEnd l # map Item xs)"
  by (cases xs rule: rev_cases) (auto simp: before_def index_node_def last_map split: list.splits)

lemma before_in: "set_option (before i zs) \<subseteq> set (takeWhile (\<lambda>k. k \<noteq> i) zs)"
  by (auto simp: before_def split: list.splits)

lemma uxListRemove_refines:
  assumes "lists_ok L h A" "container A i \<noteq> None"
  shows "\<exists>n h' A'. uxListRemove i h = Some (of_nat n, h') \<and> l_remove i A = Some (n, A') \<and> lists_ok L h' A'"
proof -
  obtain l where l: "container A i = Some l" "l \<in> L" "i \<in> set (entries A l)" "pvContainer h i = Some l"
    using assms by (auto simp: lists_ok_def)
  note L = lists_okD [OF assms(1) l(2)]
  define xs where "xs = takeWhile (\<lambda>k. k \<noteq> i) (entries A l)"
  obtain ys where "dropWhile (\<lambda>k. k \<noteq> i) (entries A l) = i # ys" using dropWhile_at [OF l(3)] by blast
  then have split: "entries A l = xs @ i # ys" unfolding xs_def by (metis takeWhile_dropWhile_id)
  have dist: "distinct (i # xs @ ys)" using L(3) split by auto
  define p where "p = last (xListEnd l # map Item xs)"
  define q where "q = hd (map Item ys @ [xListEnd l])"
  have path: "dpath h (xListEnd l) (map Item xs @ Item i # map Item ys) (xListEnd l)" using L(2) by (simp add: split)
  have pq: "pxPrevious h (Item i) = p" "pxNext h (Item i) = q"
    using dpath_ends [of h "xListEnd l" "map Item xs" "Item i # map Item ys" "xListEnd l"] path
      dpath_ends(1) [of h "Item i" "[]" "map Item ys" "xListEnd l"]
    by (simp_all add: p_def q_def dpath_append)
  define h' where "h' = h\<lparr>pxNext := (pxNext h)(p := q), pxPrevious := (pxPrevious h)(q := p),
    pxIndex := (if pxIndex h l = Item i then (pxIndex h)(l := p) else pxIndex h),
    pvContainer := (pvContainer h)(i := None), uxNumberOfItems := (uxNumberOfItems h)(l := uxNumberOfItems h l - 1)\<rparr>"
  define A' where "A' = A\<lparr>entries := (entries A)(l := xs @ ys),
    index := (index A)(l := (if index A l = Some i then before i (entries A l) else index A l)), container := (container A)(i := None)\<rparr>"
  have rm: "remove1 i (entries A l) = xs @ ys" using dist by (simp add: split remove1_append)
  have qi: "q \<noteq> Item i" using dist by (cases ys) (auto simp: q_def)
  have count: "uxNumberOfItems h l - 1 = of_nat (length (xs @ ys))" using L(1) by (simp add: list_ok_def split)
  have "uxListRemove i h = Some (of_nat (length (xs @ ys)), h')"
    using pq qi count l(4) by (auto simp: uxListRemove_def h'_def Let_def)
  moreover have "l_remove i A = Some (length (xs @ ys), A')"
    using l(1) by (simp add: l_remove_def A'_def rm)
  moreover have "lists_ok L h' A'"
  proof -
    have "list_ok h' A' l"
    proof -
      have "dpath h' (xListEnd l) (map Item xs @ map Item ys) (xListEnd l)"
        by (rule dpath_unlink [OF path]) (use dist in \<open>simp_all add: h'_def p_def q_def image_iff\<close>)
      moreover have "pxIndex h' l = index_node l (index A' l)"
        using L(1) before_node [OF xs_def, of l]
        by (auto simp: h'_def A'_def list_ok_def index_node_def p_def split: option.splits)
      moreover have "set_option (index A' l) \<subseteq> set (xs @ ys)"
      proof (cases "index A l = Some i")
        case True
        then show ?thesis using before_in [of i "entries A l"] by (auto simp: A'_def xs_def)
      next
        case False
        then show ?thesis using L(1) by (auto simp: A'_def list_ok_def split)
      qed
      ultimately show ?thesis using L(1) dist count by (simp add: list_ok_def A'_def split) (simp add: h'_def)
    qed
    moreover have "list_ok h' A' l'" if "l' \<in> L" "l' \<noteq> l" for l'
    proof (rule list_ok_frame [of h A])
      have "u \<notin> {p, q}" if "u \<in> insert (xListEnd l') (Item ` set (entries A l'))" for u
        using that neighbours(1) [of xs "i # ys" "entries A l" l] neighbours(2) [of "xs @ [i]" ys "entries A l" l]
          nodes_disjoint [OF assms(1) l(2) \<open>l' \<in> L\<close> \<open>l' \<noteq> l\<close>]
        by (auto simp: split p_def q_def simp del: hd_append last.simps)
      then show "\<forall>u \<in> insert (xListEnd l') (Item ` set (entries A l')). pxNext h' u = pxNext h u \<and> pxPrevious h' u = pxPrevious h u"
        by (auto simp: h'_def)
    qed (use that lists_okD(1) [OF assms(1)] in \<open>auto simp: h'_def A'_def\<close>)
    moreover have "(container A' k = Some l') = (l' \<in> L \<and> k \<in> set (entries A' l'))" for k l'
      using assms(1) l(1,2) dist nodes_disjoint [OF assms(1) l(2), of l'] by (auto simp: lists_ok_def A'_def split)
    ultimately show ?thesis using assms(1) by (auto simp: lists_ok_def) (auto simp: h'_def A'_def)
  qed
  ultimately show ?thesis by blast
qed

lemma vListInitialise_refines:
  assumes "lists_ok L h A" "l \<notin> L"
  shows "lists_ok (insert l L) (vListInitialise l h) (l_init l A)"
proof -
  have "list_ok (vListInitialise l h) (l_init l A) l' " if "l' \<in> L" for l'
    using that assms by (intro list_ok_frame [OF lists_okD(1) [OF assms(1) that]]) (auto simp: vListInitialise_def l_init_def)
  moreover have "list_ok (vListInitialise l h) (l_init l A) l"
    by (simp add: list_ok_def vListInitialise_def l_init_def index_node_def)
  ultimately show ?thesis
    using assms by (auto simp: lists_ok_def) (auto simp: vListInitialise_def l_init_def split: if_splits)
qed

lemma set_value_refines:
  assumes "lists_ok L h A"
  shows "lists_ok L (listSET_LIST_ITEM_VALUE i v h) (l_set_value i v A)"
proof -
  have "list_ok (listSET_LIST_ITEM_VALUE i v h) (l_set_value i v A) l" if "l \<in> L" for l
    by (rule list_ok_frame [OF lists_okD(1) [OF assms that]]) (auto simp: listSET_LIST_ITEM_VALUE_def l_set_value_def)
  then show ?thesis using assms by (auto simp: lists_ok_def) (auto simp: listSET_LIST_ITEM_VALUE_def l_set_value_def)
qed

lemma is_empty_refines: "lists_ok L h A \<Longrightarrow> l \<in> L \<Longrightarrow> listLIST_IS_EMPTY l h = l_empty l A"
proof -
  assume "lists_ok L h A" "l \<in> L"
  from lists_okD(1) [OF this] have "uxNumberOfItems h l = of_nat (length (entries A l))" "length (entries A l) < 2 ^ 32"
    by (simp_all add: list_ok_def)
  then have "unat (uxNumberOfItems h l) = length (entries A l)" by (simp add: unat_of_nat)
  then show ?thesis by (metis l_empty_def length_0_conv listLIST_IS_EMPTY_def unat_eq_zero)
qed

lemma head_refines: "lists_ok L h A \<Longrightarrow> l \<in> L \<Longrightarrow> listGET_OWNER_OF_HEAD_ENTRY l h = l_head l A"
  using lists_okD(2) [of L h A l]
  by (cases "entries A l") (auto simp: listGET_OWNER_OF_HEAD_ENTRY_def l_head_def owner_of_def)

lemma set_tl_dropWhile: "set (tl (dropWhile P xs)) \<subseteq> set xs"
  by (induction xs) auto

text \<open>The node behind a node of the list.\<close>

lemma next_of_index:
  assumes "list_ok h A l"
  shows "pxNext h (index_node l (index A l)) =
    hd (map Item (case index A l of None \<Rightarrow> entries A l | Some j \<Rightarrow> tl (dropWhile (\<lambda>k. k \<noteq> j) (entries A l))) @ [xListEnd l])"
proof (cases "index A l")
  case None
  then show ?thesis using assms dpath_ends(1) [of h "xListEnd l" "[]" "map Item (entries A l)" "xListEnd l"]
    by (simp add: list_ok_def index_node_def)
next
  case (Some j)
  then have "j \<in> set (entries A l)" using assms by (simp add: list_ok_def)
  then obtain ys where ys: "dropWhile (\<lambda>k. k \<noteq> j) (entries A l) = j # ys" using dropWhile_at by metis
  then have "entries A l = takeWhile (\<lambda>k. k \<noteq> j) (entries A l) @ j # ys" by (metis takeWhile_dropWhile_id)
  then have "dpath h (xListEnd l) (map Item (takeWhile (\<lambda>k. k \<noteq> j) (entries A l)) @ Item j # map Item ys) (xListEnd l)"
    using assms by (metis list_ok_def list.simps(9) map_append)
  then have "pxNext h (Item j) = hd (map Item ys @ [xListEnd l])"
    using dpath_ends(1) [of h "Item j" "[]" "map Item ys" "xListEnd l"] by (simp add: dpath_append)
  then show ?thesis using Some ys by (simp add: index_node_def)
qed

lemma next_refines:
  assumes "lists_ok L h A" "l \<in> L"
  shows "\<exists>h' A' i. listGET_OWNER_OF_NEXT_ENTRY l h = (i, h') \<and> l_next l A = (i, A') \<and> lists_ok L h' A'"
proof -
  note L = lists_okD [OF assms]
  define rest where "rest = (case index A l of None \<Rightarrow> [] | Some j \<Rightarrow> tl (dropWhile (\<lambda>k. k \<noteq> j) (entries A l)))"
  define n where "n = (case rest @ entries A l of [] \<Rightarrow> xListEnd l | i # _ \<Rightarrow> Item i)"
  have ix: "pxIndex h l = index_node l (index A l)" using L(1) by (simp add: list_ok_def)
  have first: "pxNext h (xListEnd l) = hd (map Item (entries A l) @ [xListEnd l])"
    using L(2) dpath_ends(1) [of h "xListEnd l" "[]" "map Item (entries A l)" "xListEnd l"] by simp
  have n: "(if pxNext h (pxIndex h l) = xListEnd l then pxNext h (xListEnd l) else pxNext h (pxIndex h l)) = n"
    using next_of_index [OF L(1)] first
    by (cases "index A l"; cases rest; cases "entries A l") (auto simp: n_def rest_def ix)
  define i where "i = owner_of n"
  have sub: "set rest \<subseteq> set (entries A l)"
    by (auto simp: rest_def split: option.splits dest: subsetD [OF set_tl_dropWhile])
  have i: "i = (case rest @ entries A l of [] \<Rightarrow> None | i # _ \<Rightarrow> Some i)" "index_node l i = n"
    by (auto simp: i_def n_def owner_of_def index_node_def split: list.splits)
  define h' where "h' = h\<lparr>pxIndex := (pxIndex h)(l := n)\<rparr>"
  define A' where "A' = A\<lparr>index := (index A)(l := i)\<rparr>"
  have "listGET_OWNER_OF_NEXT_ENTRY l h = (i, h')"
    using n by (auto simp: listGET_OWNER_OF_NEXT_ENTRY_def Let_def h'_def i_def)
  moreover have "l_next l A = (i, A')"
    by (simp add: l_next_def A'_def i(1) rest_def Let_def)
  moreover have "lists_ok L h' A'"
  proof -
    have "set (rest @ entries A l) \<subseteq> set (entries A l)" using sub by simp
    then have "set_option i \<subseteq> set (entries A l)" unfolding i(1) by (cases "rest @ entries A l") auto
    then have "list_ok h' A' l"
      using L(1) i(2) dpath_frame [of "xListEnd l" "map Item (entries A l)" h' h "xListEnd l"] by (simp add: list_ok_def h'_def A'_def)
    moreover have "list_ok h' A' l'" if "l' \<in> L" "l' \<noteq> l" for l'
      by (rule list_ok_frame [OF lists_okD(1) [OF assms(1) that(1)]]) (use that in \<open>auto simp: h'_def A'_def\<close>)
    ultimately show ?thesis using assms(1) by (auto simp: lists_ok_def) (auto simp: h'_def A'_def)
  qed
  ultimately show ?thesis by blast
qed

section \<open>The contract\<close>

datatype ('l, 'i) list_op =
    Initialise 'l | Insert_end 'l 'i | Insert 'l 'i | Remove 'i | Set_value 'i u32 | Is_empty 'l | Head 'l | Next 'l

datatype 'i list_result = No_result | Left u32 | Owner "'i option" | Empty bool

text \<open>A step of the specification, which refuses to insert an item twice and to remove one that is in no list.\<close>

fun spec_step :: "('l, 'i) list_op \<Rightarrow> 'l set \<times> ('l, 'i) klists \<Rightarrow> ('i list_result \<times> 'l set \<times> ('l, 'i) klists) option" where
  "spec_step (Initialise l) (L, A) = (if l \<in> L then None else Some (No_result, insert l L, l_init l A))"
| "spec_step (Insert_end l i) (L, A) =
     (if l \<in> L \<and> container A i = None \<and> length (entries A l) + 1 < 2 ^ 32 then Some (No_result, L, l_insert_end l i A) else None)"
| "spec_step (Insert l i) (L, A) =
     (if l \<in> L \<and> container A i = None \<and> length (entries A l) + 1 < 2 ^ 32 then Some (No_result, L, l_insert l i A) else None)"
| "spec_step (Remove i) (L, A) = (case l_remove i A of None \<Rightarrow> None | Some (n, A') \<Rightarrow> Some (Left (of_nat n), L, A'))"
| "spec_step (Set_value i v) (L, A) = Some (No_result, L, l_set_value i v A)"
| "spec_step (Is_empty l) (L, A) = (if l \<in> L then Some (Empty (l_empty l A), L, A) else None)"
| "spec_step (Head l) (L, A) = (if l \<in> L then Some (Owner (l_head l A), L, A) else None)"
| "spec_step (Next l) (L, A) = (if l \<in> L then (case l_next l A of (i, A') \<Rightarrow> Some (Owner i, L, A')) else None)"

text \<open>The operations an implementation provides, run on its own state.\<close>

record ('l, 'i, 'h) list_api =
  api_initialise :: "'l \<Rightarrow> 'h \<Rightarrow> 'h"
  api_insert_end :: "'l \<Rightarrow> 'i \<Rightarrow> 'h \<Rightarrow> 'h"
  api_insert :: "'l \<Rightarrow> 'i \<Rightarrow> 'h \<Rightarrow> 'h option"
  api_remove :: "'i \<Rightarrow> 'h \<Rightarrow> (u32 \<times> 'h) option"
  api_set_value :: "'i \<Rightarrow> u32 \<Rightarrow> 'h \<Rightarrow> 'h"
  api_is_empty :: "'l \<Rightarrow> 'h \<Rightarrow> bool"
  api_head :: "'l \<Rightarrow> 'h \<Rightarrow> 'i option"
  api_next :: "'l \<Rightarrow> 'h \<Rightarrow> 'i option \<times> 'h"

fun impl_step :: "('l, 'i, 'h) list_api \<Rightarrow> ('l, 'i) list_op \<Rightarrow> 'h \<Rightarrow> ('i list_result \<times> 'h) option" where
  "impl_step api (Initialise l) h = Some (No_result, api_initialise api l h)"
| "impl_step api (Insert_end l i) h = Some (No_result, api_insert_end api l i h)"
| "impl_step api (Insert l i) h = map_option (Pair No_result) (api_insert api l i h)"
| "impl_step api (Remove i) h = map_option (map_prod Left id) (api_remove api i h)"
| "impl_step api (Set_value i v) h = Some (No_result, api_set_value api i v h)"
| "impl_step api (Is_empty l) h = Some (Empty (api_is_empty api l h), h)"
| "impl_step api (Head l) h = Some (Owner (api_head api l h), h)"
| "impl_step api (Next l) h = (case api_next api l h of (i, h') \<Rightarrow> Some (Owner i, h'))"

fun run_api :: "('o \<Rightarrow> 's \<Rightarrow> ('r \<times> 's) option) \<Rightarrow> 'o list \<Rightarrow> 's \<Rightarrow> ('r list \<times> 's) option" where
  "run_api f [] s = Some ([], s)"
| "run_api f (x # xs) s = do {
     (r, s) \<leftarrow> f x s;
     (rs, s) \<leftarrow> run_api f xs s;
     Some (r # rs, s)
   }"

locale kernel_list =
  fixes api :: "('l, 'i, 'h) list_api" and rel :: "'l set \<Rightarrow> 'h \<Rightarrow> ('l, 'i) klists \<Rightarrow> bool"
  assumes init: "rel L h A \<Longrightarrow> l \<notin> L \<Longrightarrow> rel (insert l L) (api_initialise api l h) (l_init l A)"
    and insert_end: "rel L h A \<Longrightarrow> l \<in> L \<Longrightarrow> container A i = None \<Longrightarrow> length (entries A l) + 1 < 2 ^ 32 \<Longrightarrow>
      rel L (api_insert_end api l i h) (l_insert_end l i A)"
    and insert_sorted: "rel L h A \<Longrightarrow> l \<in> L \<Longrightarrow> container A i = None \<Longrightarrow> length (entries A l) + 1 < 2 ^ 32 \<Longrightarrow>
      \<exists>h'. api_insert api l i h = Some h' \<and> rel L h' (l_insert l i A)"
    and remove: "rel L h A \<Longrightarrow> container A i \<noteq> None \<Longrightarrow>
      \<exists>n h' A'. api_remove api i h = Some (of_nat n, h') \<and> l_remove i A = Some (n, A') \<and> rel L h' A'"
    and set_value: "rel L h A \<Longrightarrow> rel L (api_set_value api i v h) (l_set_value i v A)"
    and is_empty: "rel L h A \<Longrightarrow> l \<in> L \<Longrightarrow> api_is_empty api l h = l_empty l A"
    and head: "rel L h A \<Longrightarrow> l \<in> L \<Longrightarrow> api_head api l h = l_head l A"
    and next_entry: "rel L h A \<Longrightarrow> l \<in> L \<Longrightarrow>
      \<exists>h' A' i. api_next api l h = (i, h') \<and> l_next l A = (i, A') \<and> rel L h' A'"
begin

lemma step_refines:
  assumes "rel L h A" "spec_step x (L, A) = Some (r, L', A')"
  shows "\<exists>h'. impl_step api x h = Some (r, h') \<and> rel L' h' A'"
proof (cases x)
  case (Insert l i)
  then show ?thesis using assms insert_sorted [OF assms(1), of l i] by (auto split: if_splits)
next
  case (Remove i)
  then have "container A i \<noteq> None" using assms(2) by (auto simp: l_remove_def split: option.splits bind_splits)
  from remove [OF assms(1) this] show ?thesis using assms(2) Remove by (auto split: option.splits)
next
  case (Next l)
  then show ?thesis using assms next_entry [OF assms(1), of l] by (auto split: if_splits)
qed (use assms init insert_end set_value is_empty head in \<open>auto split: if_splits\<close>)

lemma run_refines:
  assumes "rel L h A" "run_api spec_step xs (L, A) = Some (rs, L', A')"
  shows "\<exists>h'. run_api (impl_step api) xs h = Some (rs, h') \<and> rel L' h' A'"
  using assms
proof (induction xs arbitrary: L h A rs)
  case (Cons x xs)
  obtain r L1 A1 where r: "spec_step x (L, A) = Some (r, L1, A1)" using Cons.prems(2) by (auto split: bind_splits)
  obtain h1 where h1: "impl_step api x h = Some (r, h1)" "rel L1 h1 A1" using step_refines [OF Cons.prems(1) r] by blast
  obtain rs' where "run_api spec_step xs (L1, A1) = Some (rs', L', A')" "rs = r # rs'"
    using Cons.prems(2) r by (auto split: bind_splits)
  then show ?case using Cons.IH [OF h1(2)] h1(1) by auto
qed simp

end

definition list_c :: "('l, 'i, ('l, 'i) list_heap) list_api" where
  "list_c = \<lparr>api_initialise = vListInitialise, api_insert_end = vListInsertEnd, api_insert = vListInsert, api_remove = uxListRemove,
     api_set_value = listSET_LIST_ITEM_VALUE, api_is_empty = listLIST_IS_EMPTY, api_head = listGET_OWNER_OF_HEAD_ENTRY,
     api_next = listGET_OWNER_OF_NEXT_ENTRY\<rparr>"

interpretation lc: kernel_list list_c lists_ok
  by unfold_locales
    (unfold list_c_def list_api.select_convs,
      (rule vListInitialise_refines vListInsertEnd_refines vListInsert_refines uxListRemove_refines
        set_value_refines is_empty_refines head_refines next_refines; assumption)+)

text \<open>
  C14: from memory in which every item has been initialised, any sequence of list operations
  that inserts only items outside all lists and removes only items inside one returns the
  results of the operations on sequences: sorted insertion behind equal values, insertion in
  front of the index, round-robin reading. In particular every search ends.
\<close>

theorem lists_refine_sequences:
  assumes "\<forall>i. pvContainer h i = None"
    and "run_api spec_step xs ({}, \<lparr>entries = (\<lambda>_. []), index = (\<lambda>_. None), container = (\<lambda>_. None), item_value = (\<lambda>i. xItemValue h (Item i))\<rparr>) =
      Some (rs, L, A)"
  shows "\<exists>h'. run_api (impl_step list_c) xs h = Some (rs, h') \<and> lists_ok L h' A"
proof (rule lc.run_refines [OF _ assms(2)])
  show "lists_ok {} h \<lparr>entries = (\<lambda>_. []), index = (\<lambda>_. None), container = (\<lambda>_. None), item_value = (\<lambda>i. xItemValue h (Item i))\<rparr>"
    using assms(1) by (auto simp: lists_ok_def)
qed

definition blank_heap :: "(bool, nat) list_heap" where
  "blank_heap = \<lparr>xItemValue = (\<lambda>n. case n of Item i \<Rightarrow> of_nat (10 * (i mod 3)) | _ \<Rightarrow> 0), pxNext = (\<lambda>_. Item 0), pxPrevious = (\<lambda>_. Item 0),
     pvContainer = (\<lambda>_. None), uxNumberOfItems = (\<lambda>_. 7), pxIndex = (\<lambda>_. Item 0)\<rparr>"

definition some_ops :: "(bool, nat) list_op list" where
  "some_ops = [Initialise True, Insert True 1, Insert True 2, Insert True 4, Insert True 3, Head True, Next True, Next True, Next True,
     Remove 4, Next True, Is_empty True]"

theorem lists_refine_sequences_witness:
  "\<exists>h'. run_api (impl_step list_c) some_ops blank_heap =
    Some ([No_result, No_result, No_result, No_result, No_result, Owner (Some 3), Owner (Some 3), Owner (Some 1), Owner (Some 4),
       Left 3, Owner (Some 2), Empty False], h')"
proof -
  have "\<exists>L A. run_api spec_step some_ops
      ({}, \<lparr>entries = (\<lambda>_. []), index = (\<lambda>_. None), container = (\<lambda>_. None), item_value = (\<lambda>i. xItemValue blank_heap (Item i))\<rparr>) =
    Some ([No_result, No_result, No_result, No_result, No_result, Owner (Some 3), Owner (Some 3), Owner (Some 1), Owner (Some 4),
       Left 3, Owner (Some 2), Empty False], L, A)"
    by (simp add: some_ops_def blank_heap_def l_init_def l_insert_def l_head_def l_next_def l_remove_def l_empty_def before_def
        portMAX_DELAY_def Let_def)
  moreover have "\<forall>i. pvContainer blank_heap i = None" by (simp add: blank_heap_def)
  ultimately show ?thesis using lists_refine_sequences [of blank_heap some_ops] by blast
qed

end
