(* ===== verification/Rtos_Tasks.thy ===== *)
theory Rtos_Tasks
  imports Rtos_List
begin

text \<open>
  The scheduler (\<open>components/freertos/freertos/tasks.c\<close>): task control blocks, the lists of ready,
  delayed, suspended and deleted tasks, the tick, the choice of the running task, timeouts,
  priority inheritance and notifications.

  The lists are the sequences of \<open>Rtos_List\<close>, which the pointer structures implement. The
  variables of the file and the control blocks are the record \<open>kernel\<close>. \<open>None\<close> is an access
  through a null pointer or outside an array, or a loop that never ends. A call of
  \<open>portYIELD\<close> sets \<open>yield_requested\<close>; the switch itself is \<open>vTaskSwitchContext\<close>. Critical sections
  make every definition here one atomic step. \<open>configASSERT\<close> is empty in this configuration;
  stacks, task names, thread-local storage and run time statistics are left out. Ticks are
  words; priorities and the counters of tasks, mutexes, nesting and pended ticks are natural
  numbers.
\<close>

section \<open>State\<close>

type_synonym task = nat

datatype klist =
    pxReadyTasksLists nat | xDelayedTaskList1 | xDelayedTaskList2 | xPendingReadyList | xTasksWaitingTermination | xSuspendedTaskList
  | xTasksWaitingToSend nat | xTasksWaitingToReceive nat | xTasksWaitingForBits nat

datatype kitem = xStateListItem task | xEventListItem task

fun task_of :: "kitem \<Rightarrow> task" where
  "task_of (xStateListItem t) = t"
| "task_of (xEventListItem t) = t"

datatype notify_state = taskNOT_WAITING_NOTIFICATION | taskWAITING_NOTIFICATION | taskNOTIFICATION_RECEIVED

record TCB =
  uxPriority :: nat
  uxBasePriority :: nat
  uxMutexesHeld :: nat
  ulNotifiedValue :: u32
  ucNotifyState :: notify_state

record kernel =
  tcb :: "task \<Rightarrow> TCB"
  lists :: "(klist, kitem) klists"
  pxCurrentTCB :: "task option"
  pxDelayedTaskList :: klist
  pxOverflowDelayedTaskList :: klist
  uxDeletedTasksWaitingCleanUp :: nat
  uxCurrentNumberOfTasks :: nat
  xTickCount :: u32
  uxTopReadyPriority :: nat
  xSchedulerRunning :: bool
  uxPendedTicks :: nat
  xYieldPending :: bool
  xNumOfOverflows :: u32
  xNextTaskUnblockTime :: u32
  uxSchedulerSuspended :: nat
  yield_requested :: bool

definition configMAX_PRIORITIES :: nat where "configMAX_PRIORITIES = 15"

definition taskEVENT_LIST_ITEM_VALUE_IN_USE :: u32 where "taskEVENT_LIST_ITEM_VALUE_IN_USE = 0x80000000"

text \<open>The list operations on the kernel's lists.\<close>

definition k_insert_end :: "klist \<Rightarrow> kitem \<Rightarrow> kernel \<Rightarrow> kernel" where
  "k_insert_end l i k = k\<lparr>lists := l_insert_end l i (lists k)\<rparr>"

definition k_insert :: "klist \<Rightarrow> kitem \<Rightarrow> kernel \<Rightarrow> kernel" where
  "k_insert l i k = k\<lparr>lists := l_insert l i (lists k)\<rparr>"

definition k_remove :: "kitem \<Rightarrow> kernel \<Rightarrow> kernel option" where
  "k_remove i k = map_option (\<lambda>(_, A). k\<lparr>lists := A\<rparr>) (l_remove i (lists k))"

definition k_set_value :: "kitem \<Rightarrow> u32 \<Rightarrow> kernel \<Rightarrow> kernel" where
  "k_set_value i v k = k\<lparr>lists := l_set_value i v (lists k)\<rparr>"

abbreviation k_list :: "kernel \<Rightarrow> klist \<Rightarrow> kitem list" where
  "k_list k \<equiv> entries (lists k)"

abbreviation k_in :: "kernel \<Rightarrow> kitem \<Rightarrow> klist option" where
  "k_in k \<equiv> container (lists k)"

abbreviation k_value :: "kernel \<Rightarrow> kitem \<Rightarrow> u32" where
  "k_value k \<equiv> item_value (lists k)"

definition k_head :: "klist \<Rightarrow> kernel \<Rightarrow> task option" where
  "k_head l k = map_option task_of (l_head l (lists k))"

text \<open>Removing an item only when it is in a list, as the code tests for event items.\<close>

definition k_remove_if_listed :: "kitem \<Rightarrow> kernel \<Rightarrow> kernel option" where
  "k_remove_if_listed i k = (if k_in k i \<noteq> None then k_remove i k else Some k)"

abbreviation prio :: "kernel \<Rightarrow> task \<Rightarrow> nat" where
  "prio k t \<equiv> uxPriority (tcb k t)"

definition upd_tcb :: "task \<Rightarrow> (TCB \<Rightarrow> TCB) \<Rightarrow> kernel \<Rightarrow> kernel" where
  "upd_tcb t f k = k\<lparr>tcb := (tcb k)(t := f (tcb k t))\<rparr>"

definition portYIELD :: "kernel \<Rightarrow> kernel" where
  "portYIELD k = k\<lparr>yield_requested := True\<rparr>"

text \<open>\<open>configMAX_PRIORITIES\<close> minus a priority: the value that sorts an event list by falling priority.\<close>

definition event_value :: "nat \<Rightarrow> u32" where
  "event_value p = of_nat configMAX_PRIORITIES - of_nat p"

section \<open>Ready tasks\<close>

definition taskRECORD_READY_PRIORITY :: "nat \<Rightarrow> kernel \<Rightarrow> kernel" where
  "taskRECORD_READY_PRIORITY p k = (if p > uxTopReadyPriority k then k\<lparr>uxTopReadyPriority := p\<rparr> else k)"

definition prvAddTaskToReadyList :: "task \<Rightarrow> kernel \<Rightarrow> kernel" where
  "prvAddTaskToReadyList t k =
     k_insert_end (pxReadyTasksLists (prio k t)) (xStateListItem t) (taskRECORD_READY_PRIORITY (prio k t) k)"

text \<open>The search of \<open>taskSELECT_HIGHEST_PRIORITY_TASK\<close> downwards from the recorded priority.\<close>

fun top_ready :: "nat \<Rightarrow> kernel \<Rightarrow> nat option" where
  "top_ready p k =
     (if \<not> l_empty (pxReadyTasksLists p) (lists k) then Some p
      else case p of 0 \<Rightarrow> None | Suc q \<Rightarrow> top_ready q k)"

declare top_ready.simps [simp del]

definition taskSELECT_HIGHEST_PRIORITY_TASK :: "kernel \<Rightarrow> kernel option" where
  "taskSELECT_HIGHEST_PRIORITY_TASK k = do {
     p \<leftarrow> top_ready (uxTopReadyPriority k) k;
     let (i, A) = l_next (pxReadyTasksLists p) (lists k);
     i \<leftarrow> i;
     Some (k\<lparr>lists := A, pxCurrentTCB := Some (task_of i), uxTopReadyPriority := p\<rparr>)
   }"

definition vTaskSwitchContext :: "kernel \<Rightarrow> kernel option" where
  "vTaskSwitchContext k =
     (if uxSchedulerSuspended k \<noteq> 0 then Some (k\<lparr>xYieldPending := True\<rparr>)
      else taskSELECT_HIGHEST_PRIORITY_TASK (k\<lparr>xYieldPending := False\<rparr>))"

section \<open>Delays and the tick\<close>

definition prvResetNextTaskUnblockTime :: "kernel \<Rightarrow> kernel" where
  "prvResetNextTaskUnblockTime k =
     (case k_head (pxDelayedTaskList k) k of
        None \<Rightarrow> k\<lparr>xNextTaskUnblockTime := portMAX_DELAY\<rparr>
      | Some t \<Rightarrow> k\<lparr>xNextTaskUnblockTime := k_value k (xStateListItem t)\<rparr>)"

definition taskSWITCH_DELAYED_LISTS :: "kernel \<Rightarrow> kernel" where
  "taskSWITCH_DELAYED_LISTS k =
     prvResetNextTaskUnblockTime
       (k\<lparr>pxDelayedTaskList := pxOverflowDelayedTaskList k, pxOverflowDelayedTaskList := pxDelayedTaskList k,
          xNumOfOverflows := xNumOfOverflows k + 1\<rparr>)"

definition prvAddCurrentTaskToDelayedList :: "u32 \<Rightarrow> bool \<Rightarrow> kernel \<Rightarrow> kernel option" where
  "prvAddCurrentTaskToDelayedList xTicksToWait xCanBlockIndefinitely k = do {
     t \<leftarrow> pxCurrentTCB k;
     let now = xTickCount k;
     k \<leftarrow> k_remove (xStateListItem t) k;
     if xTicksToWait = portMAX_DELAY \<and> xCanBlockIndefinitely
     then Some (k_insert_end xSuspendedTaskList (xStateListItem t) k)
     else do {
       let wake = now + xTicksToWait;
       let k = k_set_value (xStateListItem t) wake k;
       Some (if wake < now then k_insert (pxOverflowDelayedTaskList k) (xStateListItem t) k
             else let k = k_insert (pxDelayedTaskList k) (xStateListItem t) k
                  in if wake < xNextTaskUnblockTime k then k\<lparr>xNextTaskUnblockTime := wake\<rparr> else k)
     }
   }"

text \<open>The loop that wakes the tasks whose time has come.\<close>

partial_function (option) unblock_loop :: "bool \<Rightarrow> kernel \<Rightarrow> (bool \<times> kernel) option" where
  "unblock_loop switch k =
     (case k_head (pxDelayedTaskList k) k of
        None \<Rightarrow> Some (switch, k\<lparr>xNextTaskUnblockTime := portMAX_DELAY\<rparr>)
      | Some t \<Rightarrow>
          if xTickCount k < k_value k (xStateListItem t)
          then Some (switch, k\<lparr>xNextTaskUnblockTime := k_value k (xStateListItem t)\<rparr>)
          else Option.bind (k_remove (xStateListItem t) k) (\<lambda>k.
               Option.bind (k_remove_if_listed (xEventListItem t) k) (\<lambda>k.
               Option.bind (pxCurrentTCB k) (\<lambda>c.
                 unblock_loop (switch \<or> prio k t \<ge> prio k c) (prvAddTaskToReadyList t k)))))"

declare unblock_loop.simps [code]

definition xTaskIncrementTick :: "kernel \<Rightarrow> (bool \<times> kernel) option" where
  "xTaskIncrementTick k = do {
     (switch, k) \<leftarrow>
       (if uxSchedulerSuspended k = 0
        then do {
          let k = k\<lparr>xTickCount := xTickCount k + 1\<rparr>;
          let k = (if xTickCount k = 0 then taskSWITCH_DELAYED_LISTS k else k);
          (switch, k) \<leftarrow> (if xTickCount k \<ge> xNextTaskUnblockTime k then unblock_loop False k else Some (False, k));
          c \<leftarrow> pxCurrentTCB k;
          Some (switch \<or> length (k_list k (pxReadyTasksLists (prio k c))) > 1, k)
        }
        else Some (False, k\<lparr>uxPendedTicks := uxPendedTicks k + 1\<rparr>));
     Some (switch \<or> xYieldPending k, k)
   }"

definition vTaskSuspendAll :: "kernel \<Rightarrow> kernel" where
  "vTaskSuspendAll k = k\<lparr>uxSchedulerSuspended := uxSchedulerSuspended k + 1\<rparr>"

text \<open>The loops of \<open>xTaskResumeAll\<close> over the pending ready list and over the pended ticks.\<close>

partial_function (option) resume_loop :: "bool \<Rightarrow> kernel \<Rightarrow> (bool \<times> kernel) option" where
  "resume_loop any k =
     (case k_head xPendingReadyList k of
        None \<Rightarrow> Some (any, k)
      | Some t \<Rightarrow>
          Option.bind (k_remove (xEventListItem t) k) (\<lambda>k.
          Option.bind (k_remove (xStateListItem t) k) (\<lambda>k.
          Option.bind (pxCurrentTCB k) (\<lambda>c.
            let k = prvAddTaskToReadyList t k
            in resume_loop True (if prio k t \<ge> prio k c then k\<lparr>xYieldPending := True\<rparr> else k)))))"

declare resume_loop.simps [code]

fun pended_ticks :: "nat \<Rightarrow> kernel \<Rightarrow> kernel option" where
  "pended_ticks 0 k = Some k"
| "pended_ticks (Suc n) k = do {
     (switch, k) \<leftarrow> xTaskIncrementTick k;
     pended_ticks n (if switch then k\<lparr>xYieldPending := True\<rparr> else k)
   }"

definition xTaskResumeAll :: "kernel \<Rightarrow> (bool \<times> kernel) option" where
  "xTaskResumeAll k = do {
     let k = k\<lparr>uxSchedulerSuspended := uxSchedulerSuspended k - 1\<rparr>;
     if uxSchedulerSuspended k = 0 \<and> uxCurrentNumberOfTasks k > 0
     then do {
       (any, k) \<leftarrow> resume_loop False k;
       let k = (if any then prvResetNextTaskUnblockTime k else k);
       k \<leftarrow> (if uxPendedTicks k > 0 then map_option (\<lambda>k. k\<lparr>uxPendedTicks := 0\<rparr>) (pended_ticks (uxPendedTicks k) k) else Some k);
       Some (xYieldPending k, if xYieldPending k then portYIELD k else k)
     }
     else Some (False, k)
   }"

text \<open>The end of the delaying calls: yield unless \<open>xTaskResumeAll\<close> has done so.\<close>

definition resume_and_yield :: "kernel \<Rightarrow> kernel option" where
  "resume_and_yield k = do {
     (yielded, k) \<leftarrow> xTaskResumeAll k;
     Some (if yielded then k else portYIELD k)
   }"

definition vTaskDelay :: "u32 \<Rightarrow> kernel \<Rightarrow> kernel option" where
  "vTaskDelay xTicksToDelay k =
     (if xTicksToDelay > 0
      then do {
        k \<leftarrow> prvAddCurrentTaskToDelayedList xTicksToDelay False (vTaskSuspendAll k);
        resume_and_yield k
      }
      else Some (portYIELD k))"

definition vTaskDelayUntil :: "u32 \<Rightarrow> u32 \<Rightarrow> kernel \<Rightarrow> (u32 \<times> kernel) option" where
  "vTaskDelayUntil previous increment k = do {
     let k = vTaskSuspendAll k;
     let now = xTickCount k;
     let wake = previous + increment;
     let delay = (if now < previous then wake < previous \<and> wake > now else wake < previous \<or> wake > now);
     k \<leftarrow> (if delay then prvAddCurrentTaskToDelayedList (wake - now) False k else Some k);
     k \<leftarrow> resume_and_yield k;
     Some (wake, k)
   }"

section \<open>Timeouts\<close>

record TimeOut_t =
  xOverflowCount :: u32
  xTimeOnEntering :: u32

definition vTaskInternalSetTimeOutState :: "kernel \<Rightarrow> TimeOut_t" where
  "vTaskInternalSetTimeOutState k = \<lparr>xOverflowCount = xNumOfOverflows k, xTimeOnEntering = xTickCount k\<rparr>"

definition vTaskSetTimeOutState :: "kernel \<Rightarrow> TimeOut_t" where
  "vTaskSetTimeOutState k = vTaskInternalSetTimeOutState k"

text \<open>Whether the time is over, and the timeout and the ticks left afterwards.\<close>

definition xTaskCheckForTimeOut :: "TimeOut_t \<Rightarrow> u32 \<Rightarrow> kernel \<Rightarrow> bool \<times> TimeOut_t \<times> u32" where
  "xTaskCheckForTimeOut timeout ticks k =
     (let elapsed = xTickCount k - xTimeOnEntering timeout
      in if ticks = portMAX_DELAY then (False, timeout, ticks)
         else if xNumOfOverflows k \<noteq> xOverflowCount timeout \<and> xTickCount k \<ge> xTimeOnEntering timeout then (True, timeout, ticks)
         else if elapsed < ticks then (False, vTaskInternalSetTimeOutState k, ticks - elapsed)
         else (True, timeout, 0))"

section \<open>Event lists\<close>

definition vTaskPlaceOnEventList :: "klist \<Rightarrow> u32 \<Rightarrow> kernel \<Rightarrow> kernel option" where
  "vTaskPlaceOnEventList l xTicksToWait k = do {
     t \<leftarrow> pxCurrentTCB k;
     prvAddCurrentTaskToDelayedList xTicksToWait True (k_insert l (xEventListItem t) k)
   }"

definition vTaskPlaceOnUnorderedEventList :: "klist \<Rightarrow> u32 \<Rightarrow> u32 \<Rightarrow> kernel \<Rightarrow> kernel option" where
  "vTaskPlaceOnUnorderedEventList l v xTicksToWait k = do {
     t \<leftarrow> pxCurrentTCB k;
     let k = k_set_value (xEventListItem t) (v OR taskEVENT_LIST_ITEM_VALUE_IN_USE) k;
     prvAddCurrentTaskToDelayedList xTicksToWait True (k_insert_end l (xEventListItem t) k)
   }"

definition vTaskPlaceOnEventListRestricted :: "klist \<Rightarrow> u32 \<Rightarrow> bool \<Rightarrow> kernel \<Rightarrow> kernel option" where
  "vTaskPlaceOnEventListRestricted l xTicksToWait xWaitIndefinitely k = do {
     t \<leftarrow> pxCurrentTCB k;
     prvAddCurrentTaskToDelayedList (if xWaitIndefinitely then portMAX_DELAY else xTicksToWait) xWaitIndefinitely
       (k_insert_end l (xEventListItem t) k)
   }"

definition xTaskRemoveFromEventList :: "klist \<Rightarrow> kernel \<Rightarrow> (bool \<times> kernel) option" where
  "xTaskRemoveFromEventList l k = do {
     t \<leftarrow> k_head l k;
     k \<leftarrow> k_remove (xEventListItem t) k;
     k \<leftarrow> (if uxSchedulerSuspended k = 0 then map_option (prvAddTaskToReadyList t) (k_remove (xStateListItem t) k)
          else Some (k_insert_end xPendingReadyList (xEventListItem t) k));
     c \<leftarrow> pxCurrentTCB k;
     let higher = prio k t > prio k c;
     Some (higher, prvResetNextTaskUnblockTime (if higher then k\<lparr>xYieldPending := True\<rparr> else k))
   }"

definition vTaskRemoveFromUnorderedEventList :: "kitem \<Rightarrow> u32 \<Rightarrow> kernel \<Rightarrow> kernel option" where
  "vTaskRemoveFromUnorderedEventList i v k = do {
     let t = task_of i;
     k \<leftarrow> k_remove i (k_set_value i (v OR taskEVENT_LIST_ITEM_VALUE_IN_USE) k);
     k \<leftarrow> map_option (prvAddTaskToReadyList t) (k_remove (xStateListItem t) k);
     c \<leftarrow> pxCurrentTCB k;
     Some (if prio k t > prio k c then k\<lparr>xYieldPending := True\<rparr> else k)
   }"

definition vTaskMissedYield :: "kernel \<Rightarrow> kernel" where
  "vTaskMissedYield k = k\<lparr>xYieldPending := True\<rparr>"

definition uxTaskResetEventItemValue :: "kernel \<Rightarrow> (u32 \<times> kernel) option" where
  "uxTaskResetEventItemValue k = do {
     t \<leftarrow> pxCurrentTCB k;
     Some (k_value k (xEventListItem t), k_set_value (xEventListItem t) (event_value (prio k t)) k)
   }"

section \<open>Creation, deletion, suspension\<close>

definition prvInitialiseTaskLists :: "kernel \<Rightarrow> kernel" where
  "prvInitialiseTaskLists k =
     (let A = fold l_init (map pxReadyTasksLists [0..<configMAX_PRIORITIES] @
                [xDelayedTaskList1, xDelayedTaskList2, xPendingReadyList, xTasksWaitingTermination, xSuspendedTaskList]) (lists k)
      in k\<lparr>lists := A, pxDelayedTaskList := xDelayedTaskList1, pxOverflowDelayedTaskList := xDelayedTaskList2\<rparr>)"

text \<open>The fields of a new control block that take part in scheduling.\<close>

definition prvInitialiseNewTask :: "task \<Rightarrow> nat \<Rightarrow> kernel \<Rightarrow> kernel" where
  "prvInitialiseNewTask t priority k =
     (let p = (if priority \<ge> configMAX_PRIORITIES then configMAX_PRIORITIES - 1 else priority);
          k = upd_tcb t (\<lambda>_. \<lparr>uxPriority = p, uxBasePriority = p, uxMutexesHeld = 0, ulNotifiedValue = 0,
                ucNotifyState = taskNOT_WAITING_NOTIFICATION\<rparr>) k;
          k = k\<lparr>lists := (lists k)\<lparr>container := (container (lists k))(xStateListItem t := None, xEventListItem t := None)\<rparr>\<rparr>
      in k_set_value (xEventListItem t) (event_value p) k)"

definition prvAddNewTaskToReadyList :: "task \<Rightarrow> kernel \<Rightarrow> kernel" where
  "prvAddNewTaskToReadyList t k =
     (let k = k\<lparr>uxCurrentNumberOfTasks := uxCurrentNumberOfTasks k + 1\<rparr>;
          k = (case pxCurrentTCB k of
                 None \<Rightarrow> let k = k\<lparr>pxCurrentTCB := Some t\<rparr>
                         in if uxCurrentNumberOfTasks k = 1 then prvInitialiseTaskLists k else k
               | Some c \<Rightarrow> if \<not> xSchedulerRunning k \<and> prio k c \<le> prio k t then k\<lparr>pxCurrentTCB := Some t\<rparr> else k);
          k = prvAddTaskToReadyList t k
      in if xSchedulerRunning k \<and> (\<exists>c \<in> set_option (pxCurrentTCB k). prio k c < prio k t) then portYIELD k else k)"

text \<open>\<open>prvGetTCBFromHandle\<close>: the null handle stands for the calling task.\<close>

definition prvGetTCBFromHandle :: "task option \<Rightarrow> kernel \<Rightarrow> task option" where
  "prvGetTCBFromHandle h k = (case h of None \<Rightarrow> pxCurrentTCB k | Some t \<Rightarrow> Some t)"

definition vTaskDelete :: "task option \<Rightarrow> kernel \<Rightarrow> kernel option" where
  "vTaskDelete h k = do {
     t \<leftarrow> prvGetTCBFromHandle h k;
     k \<leftarrow> k_remove (xStateListItem t) k;
     k \<leftarrow> k_remove_if_listed (xEventListItem t) k;
     let k = (if pxCurrentTCB k = Some t
              then (k_insert_end xTasksWaitingTermination (xStateListItem t) k)
                     \<lparr>uxDeletedTasksWaitingCleanUp := uxDeletedTasksWaitingCleanUp k + 1\<rparr>
              else prvResetNextTaskUnblockTime (k\<lparr>uxCurrentNumberOfTasks := uxCurrentNumberOfTasks k - 1\<rparr>));
     Some (if xSchedulerRunning k \<and> pxCurrentTCB k = Some t then portYIELD k else k)
   }"

text \<open>The idle task frees deleted tasks, one round of its loop each.\<close>

fun clean_up_loop :: "nat \<Rightarrow> kernel \<Rightarrow> kernel option" where
  "clean_up_loop 0 k = Some k"
| "clean_up_loop (Suc n) k = do {
     t \<leftarrow> k_head xTasksWaitingTermination k;
     k \<leftarrow> k_remove (xStateListItem t) k;
     clean_up_loop n (k\<lparr>uxCurrentNumberOfTasks := uxCurrentNumberOfTasks k - 1, uxDeletedTasksWaitingCleanUp := n\<rparr>)
   }"

definition prvCheckTasksWaitingTermination :: "kernel \<Rightarrow> kernel option" where
  "prvCheckTasksWaitingTermination k = clean_up_loop (uxDeletedTasksWaitingCleanUp k) k"

definition vTaskSuspend :: "task option \<Rightarrow> kernel \<Rightarrow> kernel option" where
  "vTaskSuspend h k = do {
     t \<leftarrow> prvGetTCBFromHandle h k;
     k \<leftarrow> k_remove (xStateListItem t) k;
     k \<leftarrow> k_remove_if_listed (xEventListItem t) k;
     let k = k_insert_end xSuspendedTaskList (xStateListItem t) k;
     let k = (if ucNotifyState (tcb k t) = taskWAITING_NOTIFICATION
              then upd_tcb t (\<lambda>c. c\<lparr>ucNotifyState := taskNOT_WAITING_NOTIFICATION\<rparr>) k else k);
     let k = (if xSchedulerRunning k then prvResetNextTaskUnblockTime k else k);
     if pxCurrentTCB k = Some t
     then if xSchedulerRunning k then Some (portYIELD k)
          else if length (k_list k xSuspendedTaskList) = uxCurrentNumberOfTasks k then Some (k\<lparr>pxCurrentTCB := None\<rparr>)
          else vTaskSwitchContext k
     else Some k
   }"

definition prvTaskIsTaskSuspended :: "task \<Rightarrow> kernel \<Rightarrow> bool" where
  "prvTaskIsTaskSuspended t k \<longleftrightarrow>
     k_in k (xStateListItem t) = Some xSuspendedTaskList \<and> k_in k (xEventListItem t) \<noteq> Some xPendingReadyList \<and>
     k_in k (xEventListItem t) = None"

definition vTaskResume :: "task option \<Rightarrow> kernel \<Rightarrow> kernel option" where
  "vTaskResume h k =
     (case h of
        None \<Rightarrow> Some k
      | Some t \<Rightarrow>
          if pxCurrentTCB k \<noteq> Some t \<and> prvTaskIsTaskSuspended t k
          then do {
            k \<leftarrow> map_option (prvAddTaskToReadyList t) (k_remove (xStateListItem t) k);
            c \<leftarrow> pxCurrentTCB k;
            Some (if prio k t \<ge> prio k c then portYIELD k else k)
          }
          else Some k)"

definition xTaskResumeFromISR :: "task \<Rightarrow> kernel \<Rightarrow> (bool \<times> kernel) option" where
  "xTaskResumeFromISR t k =
     (if prvTaskIsTaskSuspended t k
      then if uxSchedulerSuspended k = 0
           then do {
             c \<leftarrow> pxCurrentTCB k;
             let yield = prio k t \<ge> prio k c;
             k \<leftarrow> map_option (prvAddTaskToReadyList t) (k_remove (xStateListItem t) k);
             Some (yield, k)
           }
           else Some (False, k_insert_end xPendingReadyList (xEventListItem t) k)
      else Some (False, k))"

section \<open>Priorities\<close>

text \<open>Moving a task between ready lists when its priority changes.\<close>

definition change_priority :: "task \<Rightarrow> nat \<Rightarrow> kernel \<Rightarrow> kernel option" where
  "change_priority t p k =
     (if k_in k (xStateListItem t) = Some (pxReadyTasksLists (prio k t))
      then do {
        k \<leftarrow> k_remove (xStateListItem t) k;
        Some (prvAddTaskToReadyList t (upd_tcb t (\<lambda>c. c\<lparr>uxPriority := p\<rparr>) k))
      }
      else Some (upd_tcb t (\<lambda>c. c\<lparr>uxPriority := p\<rparr>) k))"

definition set_event_priority :: "task \<Rightarrow> nat \<Rightarrow> kernel \<Rightarrow> kernel" where
  "set_event_priority t p k =
     (if k_value k (xEventListItem t) AND taskEVENT_LIST_ITEM_VALUE_IN_USE = 0 then k_set_value (xEventListItem t) (event_value p) k else k)"

definition vTaskPrioritySet :: "task option \<Rightarrow> nat \<Rightarrow> kernel \<Rightarrow> kernel option" where
  "vTaskPrioritySet h uxNewPriority k = do {
     let p = (if uxNewPriority \<ge> configMAX_PRIORITIES then configMAX_PRIORITIES - 1 else uxNewPriority);
     t \<leftarrow> prvGetTCBFromHandle h k;
     c \<leftarrow> pxCurrentTCB k;
     let base = uxBasePriority (tcb k t);
     if base = p then Some k
     else do {
       let yield = (if p > base then t \<noteq> c \<and> p \<ge> prio k c else t = c);
       let entry = prio k t;
       let k = upd_tcb t (\<lambda>b. b\<lparr>uxPriority := (if uxBasePriority b = uxPriority b then p else uxPriority b), uxBasePriority := p\<rparr>) k;
       let k = set_event_priority t p k;
       k \<leftarrow> (if k_in k (xStateListItem t) = Some (pxReadyTasksLists entry)
            then map_option (prvAddTaskToReadyList t) (k_remove (xStateListItem t) k) else Some k);
       Some (if yield then portYIELD k else k)
     }
   }"

definition uxTaskPriorityGet :: "task option \<Rightarrow> kernel \<Rightarrow> nat option" where
  "uxTaskPriorityGet h k = map_option (prio k) (prvGetTCBFromHandle h k)"

definition xTaskPriorityInherit :: "task option \<Rightarrow> kernel \<Rightarrow> (bool \<times> kernel) option" where
  "xTaskPriorityInherit pxMutexHolder k =
     (case pxMutexHolder of
        None \<Rightarrow> Some (False, k)
      | Some h \<Rightarrow> do {
          c \<leftarrow> pxCurrentTCB k;
          if prio k h < prio k c
          then do {
            k \<leftarrow> change_priority h (prio k c) (set_event_priority h (prio k c) k);
            Some (True, k)
          }
          else Some (uxBasePriority (tcb k h) < prio k c, k)
        })"

definition xTaskPriorityDisinherit :: "task option \<Rightarrow> kernel \<Rightarrow> (bool \<times> kernel) option" where
  "xTaskPriorityDisinherit pxMutexHolder k =
     (case pxMutexHolder of
        None \<Rightarrow> Some (False, k)
      | Some t \<Rightarrow> do {
          let k = upd_tcb t (\<lambda>b. b\<lparr>uxMutexesHeld := uxMutexesHeld b - 1\<rparr>) k;
          if prio k t \<noteq> uxBasePriority (tcb k t) \<and> uxMutexesHeld (tcb k t) = 0
          then do {
            k \<leftarrow> k_remove (xStateListItem t) k;
            let k = upd_tcb t (\<lambda>b. b\<lparr>uxPriority := uxBasePriority b\<rparr>) k;
            let k = k_set_value (xEventListItem t) (event_value (prio k t)) k;
            Some (True, prvAddTaskToReadyList t k)
          }
          else Some (False, k)
        })"

definition vTaskPriorityDisinheritAfterTimeout :: "task option \<Rightarrow> nat \<Rightarrow> kernel \<Rightarrow> kernel option" where
  "vTaskPriorityDisinheritAfterTimeout pxMutexHolder waiting k =
     (case pxMutexHolder of
        None \<Rightarrow> Some k
      | Some t \<Rightarrow>
          let p = (if uxBasePriority (tcb k t) < waiting then waiting else uxBasePriority (tcb k t))
          in if prio k t \<noteq> p \<and> uxMutexesHeld (tcb k t) = 1 then change_priority t p (set_event_priority t p k) else Some k)"

definition pvTaskIncrementMutexHeldCount :: "kernel \<Rightarrow> task option \<times> kernel" where
  "pvTaskIncrementMutexHeldCount k =
     (pxCurrentTCB k,
      case pxCurrentTCB k of Some t \<Rightarrow> upd_tcb t (\<lambda>b. b\<lparr>uxMutexesHeld := uxMutexesHeld b + 1\<rparr>) k | None \<Rightarrow> k)"

section \<open>Interrupts of the port\<close>

text \<open>
  \<open>port/esp8266/port.c\<close>: the tick handler, and the software interrupt that \<open>portYIELD\<close> raises
  through \<open>PendSV(1)\<close> by setting \<open>SWReq\<close>; its call of \<open>_xt_timer_int1\<close> is the switch of the context.
\<close>

definition xPortSysTickHandle :: "kernel \<Rightarrow> kernel option" where
  "xPortSysTickHandle k = do {
     (switch, k) \<leftarrow> xTaskIncrementTick k;
     if switch then vTaskSwitchContext k else Some k
   }"

definition SoftIsrHdl :: "kernel \<Rightarrow> kernel option" where
  "SoftIsrHdl k =
     (if yield_requested k then map_option (\<lambda>k. k\<lparr>yield_requested := False\<rparr>) (vTaskSwitchContext k) else Some k)"

section \<open>Start-up\<close>

text \<open>The memory for the stack and the control block is the argument, \<open>None\<close> when it cannot be had.\<close>

definition xTaskCreate :: "task option \<Rightarrow> nat \<Rightarrow> kernel \<Rightarrow> bool \<times> kernel" where
  "xTaskCreate memory priority k =
     (case memory of None \<Rightarrow> (False, k) | Some t \<Rightarrow> (True, prvAddNewTaskToReadyList t (prvInitialiseNewTask t priority k)))"

text \<open>
  \<open>timer_task\<close> is the memory of the timer task, \<open>None\<close> when \<open>xTimerCreateTimerTask\<close> fails. The
  return of the last call never happens on the device: the state is that in which the first task starts.
\<close>

definition vTaskStartScheduler :: "task option \<Rightarrow> task option \<Rightarrow> kernel \<Rightarrow> kernel option" where
  "vTaskStartScheduler idle_task timer_task k = do {
     let (ok, k) = xTaskCreate idle_task 0 k;
     let (ok, k) = (if ok then xTaskCreate timer_task 2 k else (ok, k));
     if ok then vTaskSwitchContext (k\<lparr>xNextTaskUnblockTime := portMAX_DELAY, xSchedulerRunning := True, xTickCount := 0\<rparr>)
     else Some k
   }"

section \<open>Queries\<close>

datatype eTaskState = eRunning | eReady | eBlocked | eSuspended | eDeleted | eInvalid

definition eTaskGetState :: "task \<Rightarrow> kernel \<Rightarrow> eTaskState" where
  "eTaskGetState t k =
     (let l = k_in k (xStateListItem t)
      in if pxCurrentTCB k = Some t then eRunning
         else if l = Some (pxDelayedTaskList k) \<or> l = Some (pxOverflowDelayedTaskList k) then eBlocked
         else if l = Some xSuspendedTaskList then if k_in k (xEventListItem t) = None then eSuspended else eBlocked
         else if l = Some xTasksWaitingTermination \<or> l = None then eDeleted
         else eReady)"

definition prvGetExpectedIdleTime :: "kernel \<Rightarrow> u32 option" where
  "prvGetExpectedIdleTime k = do {
     c \<leftarrow> pxCurrentTCB k;
     Some (if prio k c > 0 then 0
           else if length (k_list k (pxReadyTasksLists 0)) > 1 then 0
           else if uxTopReadyPriority k > 0 then 0
           else xNextTaskUnblockTime k - xTickCount k)
   }"

datatype eSleepModeStatus = eAbortSleep | eStandardSleep | eNoTasksWaitingTimeout

definition eTaskConfirmSleepModeStatus :: "kernel \<Rightarrow> eSleepModeStatus" where
  "eTaskConfirmSleepModeStatus k =
     (if k_list k xPendingReadyList \<noteq> [] then eAbortSleep
      else if xYieldPending k then eAbortSleep
      else if length (k_list k xSuspendedTaskList) = uxCurrentNumberOfTasks k - 1 then eNoTasksWaitingTimeout
      else eStandardSleep)"

section \<open>Notifications\<close>

text \<open>The first critical section of \<open>ulTaskNotifyTake\<close> and the second one, after the wait.\<close>

definition ulTaskNotifyTake_enter :: "u32 \<Rightarrow> kernel \<Rightarrow> kernel option" where
  "ulTaskNotifyTake_enter xTicksToWait k = do {
     t \<leftarrow> pxCurrentTCB k;
     if ulNotifiedValue (tcb k t) = 0
     then do {
       let k = upd_tcb t (\<lambda>b. b\<lparr>ucNotifyState := taskWAITING_NOTIFICATION\<rparr>) k;
       if xTicksToWait > 0 then map_option portYIELD (prvAddCurrentTaskToDelayedList xTicksToWait True k) else Some k
     }
     else Some k
   }"

definition ulTaskNotifyTake_exit :: "bool \<Rightarrow> kernel \<Rightarrow> (u32 \<times> kernel) option" where
  "ulTaskNotifyTake_exit xClearCountOnExit k = do {
     t \<leftarrow> pxCurrentTCB k;
     let ulReturn = ulNotifiedValue (tcb k t);
     let k = (if ulReturn \<noteq> 0 then upd_tcb t (\<lambda>b. b\<lparr>ulNotifiedValue := (if xClearCountOnExit then 0 else ulReturn - 1)\<rparr>) k else k);
     Some (ulReturn, upd_tcb t (\<lambda>b. b\<lparr>ucNotifyState := taskNOT_WAITING_NOTIFICATION\<rparr>) k)
   }"

definition xTaskNotifyWait_enter :: "u32 \<Rightarrow> u32 \<Rightarrow> kernel \<Rightarrow> kernel option" where
  "xTaskNotifyWait_enter ulBitsToClearOnEntry xTicksToWait k = do {
     t \<leftarrow> pxCurrentTCB k;
     if ucNotifyState (tcb k t) \<noteq> taskNOTIFICATION_RECEIVED
     then do {
       let k = upd_tcb t (\<lambda>b. b\<lparr>ulNotifiedValue := ulNotifiedValue b AND NOT ulBitsToClearOnEntry, ucNotifyState := taskWAITING_NOTIFICATION\<rparr>) k;
       if xTicksToWait > 0 then map_option portYIELD (prvAddCurrentTaskToDelayedList xTicksToWait True k) else Some k
     }
     else Some k
   }"

definition xTaskNotifyWait_exit :: "u32 \<Rightarrow> kernel \<Rightarrow> (bool \<times> u32 \<times> kernel) option" where
  "xTaskNotifyWait_exit ulBitsToClearOnExit k = do {
     t \<leftarrow> pxCurrentTCB k;
     let pulNotificationValue = ulNotifiedValue (tcb k t);
     let received = (ucNotifyState (tcb k t) = taskNOTIFICATION_RECEIVED);
     let k = (if received then upd_tcb t (\<lambda>b. b\<lparr>ulNotifiedValue := ulNotifiedValue b AND NOT ulBitsToClearOnExit\<rparr>) k else k);
     Some (received, pulNotificationValue, upd_tcb t (\<lambda>b. b\<lparr>ucNotifyState := taskNOT_WAITING_NOTIFICATION\<rparr>) k)
   }"

datatype eNotifyAction = eNoAction | eSetBits | eIncrement | eSetValueWithOverwrite | eSetValueWithoutOverwrite

text \<open>The switch over the action: the new value and whether the notification was accepted.\<close>

fun notify_action :: "eNotifyAction \<Rightarrow> u32 \<Rightarrow> notify_state \<Rightarrow> u32 \<Rightarrow> bool \<times> u32" where
  "notify_action eSetBits v s old = (True, old OR v)"
| "notify_action eIncrement v s old = (True, old + 1)"
| "notify_action eSetValueWithOverwrite v s old = (True, v)"
| "notify_action eSetValueWithoutOverwrite v s old = (if s \<noteq> taskNOTIFICATION_RECEIVED then (True, v) else (False, old))"
| "notify_action eNoAction v s old = (True, old)"

definition notify :: "task \<Rightarrow> u32 \<Rightarrow> eNotifyAction \<Rightarrow> kernel \<Rightarrow> bool \<times> kernel" where
  "notify t v a k =
     (let (ok, new) = notify_action a v (ucNotifyState (tcb k t)) (ulNotifiedValue (tcb k t))
      in (ok, upd_tcb t (\<lambda>b. b\<lparr>ucNotifyState := taskNOTIFICATION_RECEIVED, ulNotifiedValue := new\<rparr>) k))"

text \<open>The result: whether the notification was accepted and the value before it.\<close>

definition xTaskGenericNotify :: "task \<Rightarrow> u32 \<Rightarrow> eNotifyAction \<Rightarrow> kernel \<Rightarrow> (bool \<times> u32 \<times> kernel) option" where
  "xTaskGenericNotify t ulValue eAction k = do {
     let previous = ulNotifiedValue (tcb k t);
     let original = ucNotifyState (tcb k t);
     let (ok, k) = notify t ulValue eAction k;
     if original = taskWAITING_NOTIFICATION
     then do {
       k \<leftarrow> map_option (prvAddTaskToReadyList t) (k_remove (xStateListItem t) k);
       let k = prvResetNextTaskUnblockTime k;
       c \<leftarrow> pxCurrentTCB k;
       Some (ok, previous, if prio k t > prio k c then portYIELD k else k)
     }
     else Some (ok, previous, k)
   }"

text \<open>
  From an interrupt, a task that is woken while the scheduler is suspended is held back. The
  caller of \<open>xTaskGenericNotifyFromISR\<close> gets the need for a switch when it asks for it
  (\<open>wants_woken\<close>), otherwise it is recorded as pending.
\<close>

definition wake_from_isr :: "bool \<Rightarrow> task \<Rightarrow> notify_state \<Rightarrow> kernel \<Rightarrow> (bool \<times> kernel) option" where
  "wake_from_isr wants_woken t original k =
     (if original = taskWAITING_NOTIFICATION
      then do {
        k \<leftarrow> (if uxSchedulerSuspended k = 0 then map_option (prvAddTaskToReadyList t) (k_remove (xStateListItem t) k)
             else Some (k_insert_end xPendingReadyList (xEventListItem t) k));
        c \<leftarrow> pxCurrentTCB k;
        let higher = prio k t > prio k c;
        Some (wants_woken \<and> higher, if higher \<and> \<not> wants_woken then k\<lparr>xYieldPending := True\<rparr> else k)
      }
      else Some (False, k))"

definition xTaskGenericNotifyFromISR :: "bool \<Rightarrow> task \<Rightarrow> u32 \<Rightarrow> eNotifyAction \<Rightarrow> kernel \<Rightarrow> (bool \<times> u32 \<times> bool \<times> kernel) option" where
  "xTaskGenericNotifyFromISR wants_woken t ulValue eAction k = do {
     let (ok, k') = notify t ulValue eAction k;
     (woken, k'') \<leftarrow> wake_from_isr wants_woken t (ucNotifyState (tcb k t)) k';
     Some (ok, ulNotifiedValue (tcb k t), woken, k'')
   }"

definition vTaskNotifyGiveFromISR :: "bool \<Rightarrow> task \<Rightarrow> kernel \<Rightarrow> (bool \<times> kernel) option" where
  "vTaskNotifyGiveFromISR wants_woken t k =
     wake_from_isr wants_woken t (ucNotifyState (tcb k t))
       (upd_tcb t (\<lambda>b. b\<lparr>ucNotifyState := taskNOTIFICATION_RECEIVED, ulNotifiedValue := ulNotifiedValue b + 1\<rparr>) k)"

definition xTaskNotifyStateClear :: "task option \<Rightarrow> kernel \<Rightarrow> (bool \<times> kernel) option" where
  "xTaskNotifyStateClear h k = do {
     t \<leftarrow> prvGetTCBFromHandle h k;
     Some (if ucNotifyState (tcb k t) = taskNOTIFICATION_RECEIVED
           then (True, upd_tcb t (\<lambda>b. b\<lparr>ucNotifyState := taskNOT_WAITING_NOTIFICATION\<rparr>) k) else (False, k))
   }"

end
