(* ===== verification/Rtos_Sched.thy ===== *)
theory Rtos_Sched
  imports Rtos_Tasks
begin

text \<open>
  Properties of the scheduler: the invariant of its lists, which also shows that no operation
  follows a null pointer, the exact end of delays across the overflow of the tick counter, the
  choice of the running task, and timeouts.
\<close>

section \<open>Sequences of items\<close>

named_theorems klist_simps \<open>effect of the list operations on where items are\<close>

definition lists_wf :: "('l, 'i) klists \<Rightarrow> bool" where
  "lists_wf A \<longleftrightarrow>
     (\<forall>l. distinct (entries A l) \<and> set_option (index A l) \<subseteq> set (entries A l)) \<and>
     (\<forall>i l. container A i = Some l \<longleftrightarrow> i \<in> set (entries A l))"

lemma lists_wf_in: "lists_wf A \<Longrightarrow> i \<in> set (entries A l) \<longleftrightarrow> container A i = Some l"
  by (simp add: lists_wf_def)

lemma list_empty_iff: "lists_wf A \<Longrightarrow> entries A l = [] \<longleftrightarrow> (\<forall>i. container A i \<noteq> Some l)"
  by (simp add: lists_wf_in [symmetric] set_empty [symmetric] del: set_empty)

lemma insert_end_fields [klist_simps]:
  "container (l_insert_end l i A) = (container A)(i := Some l)" "item_value (l_insert_end l i A) = item_value A"
  "index (l_insert_end l i A) = index A" "l' \<noteq> l \<Longrightarrow> entries (l_insert_end l i A) l' = entries A l'"
  by (simp_all add: l_insert_end_def)

lemma insert_fields [klist_simps]:
  "container (l_insert l i A) = (container A)(i := Some l)" "item_value (l_insert l i A) = item_value A"
  "index (l_insert l i A) = index A" "l' \<noteq> l \<Longrightarrow> entries (l_insert l i A) l' = entries A l'"
  by (simp_all add: l_insert_def Let_def)

lemma set_value_fields [klist_simps]:
  "container (l_set_value i v A) = container A" "item_value (l_set_value i v A) = (item_value A)(i := v)"
  "index (l_set_value i v A) = index A" "entries (l_set_value i v A) = entries A"
  by (simp_all add: l_set_value_def)

text \<open>Both insertions put the item somewhere between the others.\<close>

lemma insert_end_split: "\<exists>xs ys. entries A l = xs @ ys \<and> entries (l_insert_end l i A) l = xs @ i # ys"
proof (cases "index A l")
  case None
  then show ?thesis by (intro exI [of _ "entries A l"] exI [of _ "[]"]) (simp add: l_insert_end_def)
next
  case (Some j)
  then show ?thesis
    by (intro exI [of _ "takeWhile (\<lambda>k. k \<noteq> j) (entries A l)"] exI [of _ "dropWhile (\<lambda>k. k \<noteq> j) (entries A l)"])
      (simp add: l_insert_end_def)
qed

lemma insert_split: "\<exists>xs ys. entries A l = xs @ ys \<and> entries (l_insert l i A) l = xs @ i # ys"
proof (cases "item_value A i = portMAX_DELAY")
  case True
  then show ?thesis by (intro exI [of _ "entries A l"] exI [of _ "[]"]) (simp add: l_insert_def Let_def)
next
  case False
  then show ?thesis
    by (intro exI [of _ "takeWhile (\<lambda>k. item_value A k \<le> item_value A i) (entries A l)"]
        exI [of _ "dropWhile (\<lambda>k. item_value A k \<le> item_value A i) (entries A l)"])
      (simp add: l_insert_def Let_def)
qed

lemma wf_inserted:
  assumes A: "lists_wf A" "container A i = None" and split: "entries A l = xs @ ys"
    and A': "entries A' = (entries A)(l := xs @ i # ys)" "container A' = (container A)(i := Some l)" "index A' = index A"
  shows "lists_wf A'"
proof -
  have fresh: "i \<notin> set (entries A l')" for l' using A by (simp add: lists_wf_in)
  have "distinct (entries A' l') \<and> set_option (index A' l') \<subseteq> set (entries A' l')" for l'
  proof -
    have "distinct (entries A l')" "set_option (index A l') \<subseteq> set (entries A l')" using A(1) by (simp_all add: lists_wf_def)
    then show ?thesis using fresh [of l] A' by (cases "l' = l") (auto simp: split)
  qed
  moreover have "container A' k = Some l' \<longleftrightarrow> k \<in> set (entries A' l')" for k l'
    using A(1) fresh [of l'] fresh [of l] A' by (cases "k = i"; cases "l' = l") (auto simp: split lists_wf_def)
  ultimately show ?thesis by (simp add: lists_wf_def)
qed

lemma wf_insert_end: assumes "lists_wf A" "container A i = None" shows "lists_wf (l_insert_end l i A)"
proof -
  obtain xs ys where s: "entries A l = xs @ ys" "entries (l_insert_end l i A) l = xs @ i # ys" using insert_end_split [of A l i] by blast
  have "entries (l_insert_end l i A) = (entries A)(l := xs @ i # ys)"
  proof
    show "entries (l_insert_end l i A) l' = ((entries A)(l := xs @ i # ys)) l'" for l'
      using s(2) by (cases "l' = l") (simp_all add: klist_simps)
  qed
  with s(1) show ?thesis by (rule wf_inserted [OF assms]) (simp_all add: klist_simps)
qed

lemma wf_insert: assumes "lists_wf A" "container A i = None" shows "lists_wf (l_insert l i A)"
proof -
  obtain xs ys where s: "entries A l = xs @ ys" "entries (l_insert l i A) l = xs @ i # ys" using insert_split [of A l i] by blast
  have "entries (l_insert l i A) = (entries A)(l := xs @ i # ys)"
  proof
    show "entries (l_insert l i A) l' = ((entries A)(l := xs @ i # ys)) l'" for l'
      using s(2) by (cases "l' = l") (simp_all add: klist_simps)
  qed
  with s(1) show ?thesis by (rule wf_inserted [OF assms]) (simp_all add: klist_simps)
qed

lemma wf_set_value: "lists_wf A \<Longrightarrow> lists_wf (l_set_value i v A)"
  by (simp add: lists_wf_def klist_simps)

lemma remove_ok:
  assumes "lists_wf A" "container A i = Some l"
  shows "\<exists>n A'. l_remove i A = Some (n, A') \<and> lists_wf A' \<and> container A' = (container A)(i := None) \<and>
    entries A' = (entries A)(l := remove1 i (entries A l)) \<and> item_value A' = item_value A"
proof -
  define A' where "A' = A\<lparr>entries := (entries A)(l := remove1 i (entries A l)),
    index := (index A)(l := (if index A l = Some i then before i (entries A l) else index A l)), container := (container A)(i := None)\<rparr>"
  have dist: "distinct (entries A l)" using assms(1) by (simp add: lists_wf_def)
  have "set_option (before i (entries A l)) \<subseteq> set (remove1 i (entries A l))"
    using before_in [of i "entries A l"] dist by (auto dest!: set_takeWhileD)
  then have "distinct (entries A' l') \<and> set_option (index A' l') \<subseteq> set (entries A' l')" for l'
    using assms(1) dist by (cases "l' = l") (auto simp: lists_wf_def A'_def)
  moreover have "container A' k = Some l' \<longleftrightarrow> k \<in> set (entries A' l')" for k l'
    using assms dist by (cases "k = i"; cases "l' = l") (simp_all add: lists_wf_in A'_def)
  ultimately have "lists_wf A'" by (simp add: lists_wf_def)
  then show ?thesis using assms(2) by (intro exI [of _ "length (remove1 i (entries A l))"] exI [of _ A']) (simp add: l_remove_def A'_def Let_def)
qed

lemma sorted_insert:
  assumes "sorted (map (item_value A) (entries A l))"
  shows "sorted (map (item_value A) (entries (l_insert l i A) l))"
proof (cases "item_value A i = portMAX_DELAY")
  case True
  then show ?thesis using assms by (simp add: l_insert_def Let_def sorted_append)
next
  case False
  let ?P = "\<lambda>k. item_value A k \<le> item_value A i"
  define T where "T = takeWhile ?P (entries A l)"
  define D where "D = dropWhile ?P (entries A l)"
  have "sorted (map (item_value A) T @ map (item_value A) D)"
    using assms unfolding T_def D_def by (metis map_append takeWhile_dropWhile_id)
  moreover have "\<forall>k \<in> set T. item_value A k \<le> item_value A i" by (auto simp: T_def dest: set_takeWhileD)
  moreover have "\<forall>k \<in> set D. item_value A i \<le> item_value A k"
  proof (cases D)
    case (Cons y ys)
    then have "\<not> ?P y" by (simp add: D_def dropWhile_eq_Cons_conv)
    then show ?thesis using calculation(1) Cons by (auto simp: sorted_append)
  qed simp
  ultimately show ?thesis using False
    by (auto simp: l_insert_def Let_def sorted_append simp flip: T_def D_def)
qed

section \<open>The invariant\<close>

fun state_list :: "klist \<Rightarrow> bool" where
  "state_list (pxReadyTasksLists _) = True"
| "state_list xDelayedTaskList1 = True"
| "state_list xDelayedTaskList2 = True"
| "state_list xTasksWaitingTermination = True"
| "state_list xSuspendedTaskList = True"
| "state_list _ = False"

text \<open>
  State items are in state lists, ready ones in the list of their priority; event items are in
  event lists, and only those of tasks that are in a state list.
\<close>

definition items_ok :: "(kitem \<Rightarrow> klist option) \<Rightarrow> (task \<Rightarrow> nat) \<Rightarrow> nat \<Rightarrow> bool" where
  "items_ok c pr tp \<longleftrightarrow>
     (\<forall>t l. c (xStateListItem t) = Some l \<longrightarrow> state_list l \<and> (\<forall>p. l = pxReadyTasksLists p \<longrightarrow> p = pr t \<and> p \<le> tp)) \<and>
     (\<forall>t l. c (xEventListItem t) = Some l \<longrightarrow> \<not> state_list l \<and> c (xStateListItem t) \<noteq> None)"

lemma items_okD:
  assumes "items_ok c pr tp"
  shows "c (xStateListItem t) = Some l \<Longrightarrow> state_list l" "c (xStateListItem t) = Some (pxReadyTasksLists p) \<Longrightarrow> p = pr t \<and> p \<le> tp"
    "c (xEventListItem t) = Some l \<Longrightarrow> \<not> state_list l" "c (xEventListItem t) = Some l \<Longrightarrow> c (xStateListItem t) \<noteq> None"
  using assms unfolding items_ok_def by blast+

abbreviation delayed_lists :: "klist set" where
  "delayed_lists \<equiv> {xDelayedTaskList1, xDelayedTaskList2}"

definition kernel_wf :: "kernel \<Rightarrow> bool" where
  "kernel_wf k \<longleftrightarrow>
     lists_wf (lists k) \<and> items_ok (k_in k) (prio k) (uxTopReadyPriority k) \<and>
     {pxDelayedTaskList k, pxOverflowDelayedTaskList k} = delayed_lists \<and>
     (\<forall>l \<in> delayed_lists. sorted (map (k_value k) (k_list k l))) \<and>
     (\<exists>c. pxCurrentTCB k = Some c \<and> k_in k (xStateListItem c) \<noteq> None)"

text \<open>The tasks in the delayed list wait for a later tick of this round of the counter.\<close>

definition delayed_ok :: "kernel \<Rightarrow> bool" where
  "delayed_ok k \<longleftrightarrow> (\<forall>t. k_in k (xStateListItem t) = Some (pxDelayedTaskList k) \<longrightarrow>
     xTickCount k < k_value k (xStateListItem t) \<and> xNextTaskUnblockTime k \<le> k_value k (xStateListItem t))"

text \<open>The others wait for a tick of the next round.\<close>

definition overflow_ok :: "kernel \<Rightarrow> bool" where
  "overflow_ok k \<longleftrightarrow> (\<forall>t. k_in k (xStateListItem t) = Some (pxOverflowDelayedTaskList k) \<longrightarrow> k_value k (xStateListItem t) < xTickCount k)"

definition tick_inv :: "kernel \<Rightarrow> bool" where
  "tick_inv k \<longleftrightarrow> kernel_wf k \<and> delayed_ok k \<and> overflow_ok k"

text \<open>Tasks and ticks are held back only while the scheduler is suspended.\<close>

definition pend_ok :: "kernel \<Rightarrow> bool" where
  "pend_ok k \<longleftrightarrow> (uxSchedulerSuspended k = 0 \<longrightarrow> uxPendedTicks k = 0 \<and> (\<forall>t. k_in k (xEventListItem t) \<noteq> Some xPendingReadyList))"

definition kernel_ok :: "kernel \<Rightarrow> bool" where
  "kernel_ok k \<longleftrightarrow> tick_inv k \<and> pend_ok k"

lemma tick_inv_frame [simp]:
  "tick_inv (k\<lparr>xYieldPending := b\<rparr>) = tick_inv k" "tick_inv (k\<lparr>yield_requested := b\<rparr>) = tick_inv k"
  "tick_inv (k\<lparr>uxSchedulerSuspended := n\<rparr>) = tick_inv k" "tick_inv (k\<lparr>uxPendedTicks := n\<rparr>) = tick_inv k"
  "tick_inv (k\<lparr>uxCurrentNumberOfTasks := n\<rparr>) = tick_inv k" "tick_inv (k\<lparr>uxDeletedTasksWaitingCleanUp := n\<rparr>) = tick_inv k"
  by (simp_all add: tick_inv_def kernel_wf_def delayed_ok_def overflow_ok_def)

lemma kernel_wfD:
  assumes "kernel_wf k"
  shows "lists_wf (lists k)" "items_ok (k_in k) (prio k) (uxTopReadyPriority k)"
    "pxDelayedTaskList k \<in> delayed_lists" "pxOverflowDelayedTaskList k \<in> delayed_lists" "pxDelayedTaskList k \<noteq> pxOverflowDelayedTaskList k"
    "l \<in> delayed_lists \<Longrightarrow> sorted (map (k_value k) (k_list k l))"
  using assms unfolding kernel_wf_def by (blast, blast, blast, blast, fastforce, blast)

lemma state_list_delayed [simp]: "l \<in> delayed_lists \<Longrightarrow> state_list l" "l \<in> delayed_lists \<Longrightarrow> l \<noteq> pxReadyTasksLists p"
  by auto

text \<open>Removing an item and putting it into a list, in terms of the places of items.\<close>

lemma k_remove_ok:
  assumes "lists_wf (lists k)" "k_in k i \<noteq> None"
  shows "\<exists>A. k_remove i k = Some (k\<lparr>lists := A\<rparr>) \<and> lists_wf A \<and> container A = (k_in k)(i := None) \<and> item_value A = k_value k \<and>
    (\<forall>l. entries A l = remove1 i (k_list k l))"
proof -
  obtain l where l: "k_in k i = Some l" using assms(2) by auto
  obtain n A where A: "l_remove i (lists k) = Some (n, A)" "lists_wf A" "container A = (k_in k)(i := None)"
    "entries A = (k_list k)(l := remove1 i (k_list k l))" "item_value A = k_value k"
    using remove_ok [OF assms(1) l] by blast
  have "remove1 i (k_list k l') = k_list k l'" if "l' \<noteq> l" for l'
    using assms(1) l that by (intro remove1_idem) (simp add: lists_wf_in)
  then show ?thesis using A by (intro exI [of _ A]) (auto simp: k_remove_def)
qed

lemma k_remove_if_listed_ok:
  assumes "lists_wf (lists k)"
  shows "\<exists>A. k_remove_if_listed i k = Some (k\<lparr>lists := A\<rparr>) \<and> lists_wf A \<and> container A = (k_in k)(i := None) \<and> item_value A = k_value k \<and>
    (\<forall>l. entries A l = remove1 i (k_list k l))"
proof (cases "k_in k i")
  case None
  then have "(k_in k)(i := None) = k_in k" "remove1 i (k_list k l) = k_list k l" for l
    using assms by (auto simp: lists_wf_in intro!: remove1_idem)
  then show ?thesis using assms None by (intro exI [of _ "lists k"]) (simp add: k_remove_if_listed_def)
next
  case (Some l)
  then show ?thesis using k_remove_ok [OF assms, of i] by (simp add: k_remove_if_listed_def)
qed

text \<open>What \<open>prvAddTaskToReadyList\<close> changes.\<close>

lemma add_ready_ok:
  assumes "lists_wf (lists k)" "k_in k (xStateListItem t) = None"
  shows "\<exists>A. prvAddTaskToReadyList t k = k\<lparr>lists := A, uxTopReadyPriority := max (uxTopReadyPriority k) (prio k t)\<rparr> \<and> lists_wf A \<and>
    container A = (k_in k)(xStateListItem t := Some (pxReadyTasksLists (prio k t))) \<and> item_value A = k_value k \<and>
    (\<forall>l. (\<forall>p. l \<noteq> pxReadyTasksLists p) \<longrightarrow> entries A l = k_list k l)"
proof -
  let ?A = "l_insert_end (pxReadyTasksLists (prio k t)) (xStateListItem t) (lists k)"
  have "prvAddTaskToReadyList t k = k\<lparr>lists := ?A, uxTopReadyPriority := max (uxTopReadyPriority k) (prio k t)\<rparr>"
    by (simp add: prvAddTaskToReadyList_def k_insert_end_def taskRECORD_READY_PRIORITY_def max_def)
  then show ?thesis using wf_insert_end [OF assms] by (intro exI [of _ ?A]) (simp add: klist_simps)
qed

lemma items_ok_ready:
  assumes "items_ok c pr tp" "c (xStateListItem t) \<noteq> None"
  shows "items_ok (c(xStateListItem t := Some (pxReadyTasksLists (pr t)))) pr (max tp (pr t))"
    and "items_ok (c(xEventListItem t := None, xStateListItem t := Some (pxReadyTasksLists (pr t)))) pr (max tp (pr t))"
  using assms by (auto simp: items_ok_def le_max_iff_disj)

lemma kernel_wf_upd:
  assumes "kernel_wf k" "lists_wf A" "items_ok (container A) (prio k) tp" "item_value A = k_value k"
    and "\<forall>l \<in> delayed_lists. \<exists>is. entries A l = fold remove1 is (k_list k l)"
    and "\<forall>c. k_in k (xStateListItem c) \<noteq> None \<longrightarrow> container A (xStateListItem c) \<noteq> None"
  shows "kernel_wf (k\<lparr>lists := A, uxTopReadyPriority := tp\<rparr>)"
proof -
  have "sorted (map f (fold remove1 is xs))" if "sorted (map f xs)" for f :: "kitem \<Rightarrow> u32" and "is" xs
    using that by (induction "is" arbitrary: xs) (auto intro: sorted_map_remove1)
  then have "sorted (map (item_value A) (entries A l))" if "l \<in> delayed_lists" for l
    using kernel_wfD(6) [OF assms(1) that] assms(4,5) that by metis
  then show ?thesis using assms by (auto simp: kernel_wf_def)
qed

text \<open>Making a task ready that is in some state list, and with it taking it off its event list.\<close>

lemma make_ready_ok:
  assumes "kernel_wf k" "k_in k (xStateListItem t) \<noteq> None"
  shows "\<exists>A. map_option (prvAddTaskToReadyList t) (k_remove (xStateListItem t) k) =
      Some (k\<lparr>lists := A, uxTopReadyPriority := max (uxTopReadyPriority k) (prio k t)\<rparr>) \<and>
    kernel_wf (k\<lparr>lists := A, uxTopReadyPriority := max (uxTopReadyPriority k) (prio k t)\<rparr>) \<and>
    container A = (k_in k)(xStateListItem t := Some (pxReadyTasksLists (prio k t))) \<and> item_value A = k_value k \<and>
    (\<forall>l. (\<forall>p. l \<noteq> pxReadyTasksLists p) \<longrightarrow> entries A l = remove1 (xStateListItem t) (k_list k l))"
proof -
  note wf = kernel_wfD [OF assms(1)]
  obtain A1 where A1: "k_remove (xStateListItem t) k = Some (k\<lparr>lists := A1\<rparr>)" "lists_wf A1" "container A1 = (k_in k)(xStateListItem t := None)"
    "item_value A1 = k_value k" "\<forall>l. entries A1 l = remove1 (xStateListItem t) (k_list k l)"
    using k_remove_ok [OF wf(1) assms(2)] by blast
  obtain A where A: "prvAddTaskToReadyList t (k\<lparr>lists := A1\<rparr>) = k\<lparr>lists := A, uxTopReadyPriority := max (uxTopReadyPriority k) (prio k t)\<rparr>"
    "lists_wf A" "container A = (k_in k)(xStateListItem t := Some (pxReadyTasksLists (prio k t)))" "item_value A = k_value k"
    "\<forall>l. (\<forall>p. l \<noteq> pxReadyTasksLists p) \<longrightarrow> entries A l = remove1 (xStateListItem t) (k_list k l)"
    using add_ready_ok [of "k\<lparr>lists := A1\<rparr>" t] A1(2-) by auto
  have "\<forall>l \<in> delayed_lists. \<exists>is. entries A l = fold remove1 is (k_list k l)"
    using A(5) by (intro ballI exI [of _ "[xStateListItem t]"]) auto
  then have "kernel_wf (k\<lparr>lists := A, uxTopReadyPriority := max (uxTopReadyPriority k) (prio k t)\<rparr>)"
    using A(2-4) items_ok_ready(1) [OF wf(2) assms(2)] by (intro kernel_wf_upd [OF assms(1)]) auto
  then show ?thesis using A A1(1) by auto
qed

lemma wake_ok:
  assumes "kernel_wf k" "k_in k (xStateListItem t) \<noteq> None"
  shows "\<exists>k1 k2 A. k_remove (xStateListItem t) k = Some k1 \<and> k_remove_if_listed (xEventListItem t) k1 = Some k2 \<and>
    pxCurrentTCB k2 = pxCurrentTCB k \<and> tcb k2 = tcb k \<and>
    prvAddTaskToReadyList t k2 = k\<lparr>lists := A, uxTopReadyPriority := max (uxTopReadyPriority k) (prio k t)\<rparr> \<and>
    kernel_wf (k\<lparr>lists := A, uxTopReadyPriority := max (uxTopReadyPriority k) (prio k t)\<rparr>) \<and>
    container A = (k_in k)(xEventListItem t := None, xStateListItem t := Some (pxReadyTasksLists (prio k t))) \<and> item_value A = k_value k \<and>
    (\<forall>l \<in> delayed_lists. entries A l = remove1 (xStateListItem t) (k_list k l))"
proof -
  note wf = kernel_wfD [OF assms(1)]
  obtain A1 where A1: "k_remove (xStateListItem t) k = Some (k\<lparr>lists := A1\<rparr>)" "lists_wf A1" "container A1 = (k_in k)(xStateListItem t := None)"
    "item_value A1 = k_value k" "\<forall>l. entries A1 l = remove1 (xStateListItem t) (k_list k l)"
    using k_remove_ok [OF wf(1) assms(2)] by blast
  obtain A2 where A2: "k_remove_if_listed (xEventListItem t) (k\<lparr>lists := A1\<rparr>) = Some (k\<lparr>lists := A2\<rparr>)" "lists_wf A2"
    "container A2 = (k_in k)(xStateListItem t := None, xEventListItem t := None)" "item_value A2 = k_value k"
    "\<forall>l. entries A2 l = remove1 (xEventListItem t) (remove1 (xStateListItem t) (k_list k l))"
    using k_remove_if_listed_ok [of "k\<lparr>lists := A1\<rparr>" "xEventListItem t"] A1(2-) by auto
  obtain A where A: "prvAddTaskToReadyList t (k\<lparr>lists := A2\<rparr>) = k\<lparr>lists := A, uxTopReadyPriority := max (uxTopReadyPriority k) (prio k t)\<rparr>"
    "lists_wf A" "container A = (k_in k)(xEventListItem t := None, xStateListItem t := Some (pxReadyTasksLists (prio k t)))" "item_value A = k_value k"
    "\<forall>l. (\<forall>p. l \<noteq> pxReadyTasksLists p) \<longrightarrow> entries A l = remove1 (xEventListItem t) (remove1 (xStateListItem t) (k_list k l))"
    using add_ready_ok [of "k\<lparr>lists := A2\<rparr>" t] A2(2-) by (auto simp: fun_upd_twist)
  have ev: "xEventListItem t \<notin> set (k_list k l)" if "l \<in> delayed_lists" for l
    using wf(2) state_list_delayed(1) [OF that] unfolding items_ok_def lists_wf_in [OF wf(1)] by blast
  have D: "\<forall>l \<in> delayed_lists. entries A l = remove1 (xStateListItem t) (k_list k l)"
    using A(5) ev by (auto intro!: remove1_idem dest: notin_set_remove1)
  then have "\<forall>l \<in> delayed_lists. \<exists>is. entries A l = fold remove1 is (k_list k l)"
    by (intro ballI exI [of _ "[xStateListItem t]"]) auto
  then have "kernel_wf (k\<lparr>lists := A, uxTopReadyPriority := max (uxTopReadyPriority k) (prio k t)\<rparr>)"
    using A(2-4) items_ok_ready(2) [OF wf(2) assms(2)] by (intro kernel_wf_upd [OF assms(1)]) auto
  then show ?thesis using A(1,3,4) A1(1) A2(1) D by (intro exI conjI; assumption?) auto
qed

section \<open>The tick\<close>

lemma head_state:
  assumes "kernel_wf k" "state_list l"
  obtains "k_head l k = None" "k_list k l = []"
  | t xs where "k_head l k = Some t" "k_list k l = xStateListItem t # xs" "k_in k (xStateListItem t) = Some l"
proof (cases "k_list k l")
  case Nil
  then show ?thesis using that(1) by (simp add: k_head_def l_head_def)
next
  case (Cons i xs)
  have "k_in k i = Some l" using Cons lists_wf_in [OF kernel_wfD(1) [OF assms(1)], of i l] by simp
  then obtain t where "i = xStateListItem t"
    using kernel_wfD(2) [OF assms(1)] assms(2) by (cases i) (auto simp: items_ok_def)
  then show ?thesis using that(2) Cons \<open>k_in k i = Some l\<close> by (simp add: k_head_def l_head_def)
qed

lemma delayed_head_least:
  assumes "kernel_wf k" "l \<in> delayed_lists" "k_list k l = i # xs" "k_in k j = Some l"
  shows "k_value k i \<le> k_value k j"
proof -
  have "j \<in> set (i # xs)" using assms(3,4) lists_wf_in [OF kernel_wfD(1) [OF assms(1)], of j l] by simp
  then show ?thesis using kernel_wfD(6) [OF assms(1,2)] assms(3) by auto
qed

text \<open>The tasks whose time has come, and what waking them does to the place of every item.\<close>

definition due :: "kernel \<Rightarrow> task \<Rightarrow> bool" where
  "due k t \<longleftrightarrow> k_in k (xStateListItem t) = Some (pxDelayedTaskList k) \<and> k_value k (xStateListItem t) \<le> xTickCount k"

fun woken_place :: "kernel \<Rightarrow> kitem \<Rightarrow> klist option" where
  "woken_place k (xStateListItem t) = (if due k t then Some (pxReadyTasksLists (prio k t)) else k_in k (xStateListItem t))"
| "woken_place k (xEventListItem t) = (if due k t then None else k_in k (xEventListItem t))"

definition woken :: "kernel \<Rightarrow> kernel \<Rightarrow> bool" where
  "woken k k' \<longleftrightarrow> kernel_wf k' \<and> delayed_ok k' \<and>
     k' = k\<lparr>lists := lists k', uxTopReadyPriority := uxTopReadyPriority k', xNextTaskUnblockTime := xNextTaskUnblockTime k'\<rparr> \<and>
     k_value k' = k_value k \<and> k_in k' = woken_place k"

lemma none_due_place: "(\<And>t. \<not> due k t) \<Longrightarrow> woken_place k = k_in k"
proof
  fix i assume "\<And>t. \<not> due k t" then show "woken_place k i = k_in k i" by (cases i) simp_all
qed

lemma kernel_wf_next [simp]: "kernel_wf (k\<lparr>xNextTaskUnblockTime := v\<rparr>) = kernel_wf k"
  by (simp add: kernel_wf_def)

lemma unblock_loop_ok:
  assumes "kernel_wf k"
  shows "\<exists>s k'. unblock_loop switch k = Some (s, k') \<and> woken k k' \<and>
    (s \<longleftrightarrow> switch \<or> (\<exists>t. due k t \<and> prio k t \<ge> prio k (the (pxCurrentTCB k))))"
  using assms
proof (induction "length (k_list k (pxDelayedTaskList k))" arbitrary: switch k rule: less_induct)
  case less
  let ?D = "pxDelayedTaskList k"
  have D: "?D \<in> delayed_lists" using kernel_wfD(3) [OF less.prems] .
  obtain c where c: "pxCurrentTCB k = Some c" using less.prems by (auto simp: kernel_wf_def)
  from less.prems state_list_delayed(1) [OF D] show ?case
  proof (cases rule: head_state)
    case 1
    then have "\<not> due k t" for t
      using lists_wf_in [OF kernel_wfD(1) [OF less.prems], of "xStateListItem t" ?D] by (auto simp: due_def)
    moreover from this have "woken k (k\<lparr>xNextTaskUnblockTime := portMAX_DELAY\<rparr>)"
      using 1 less.prems lists_wf_in [OF kernel_wfD(1) [OF less.prems], of _ ?D] by (auto simp: woken_def delayed_ok_def none_due_place)
    ultimately show ?thesis using 1 by (subst unblock_loop.simps) auto
  next
    case (2 t xs)
    note least = delayed_head_least [OF less.prems D 2(2)]
    show ?thesis
    proof (cases "xTickCount k < k_value k (xStateListItem t)")
      case True
      have nd: "\<not> due k u" for u using least [of "xStateListItem u"] True by (auto simp: due_def)
      moreover have "woken k (k\<lparr>xNextTaskUnblockTime := k_value k (xStateListItem t)\<rparr>)"
        using less.prems least True nd by (auto simp: woken_def delayed_ok_def none_due_place intro: less_le_trans)
      ultimately show ?thesis using 2 True by (subst unblock_loop.simps) auto
    next
      case False
      obtain k1 k2 A where w: "k_remove (xStateListItem t) k = Some k1" "k_remove_if_listed (xEventListItem t) k1 = Some k2"
        "pxCurrentTCB k2 = pxCurrentTCB k" "tcb k2 = tcb k"
        "prvAddTaskToReadyList t k2 = k\<lparr>lists := A, uxTopReadyPriority := max (uxTopReadyPriority k) (prio k t)\<rparr>"
        "kernel_wf (k\<lparr>lists := A, uxTopReadyPriority := max (uxTopReadyPriority k) (prio k t)\<rparr>)"
        "container A = (k_in k)(xEventListItem t := None, xStateListItem t := Some (pxReadyTasksLists (prio k t)))"
        "item_value A = k_value k" "\<forall>l \<in> delayed_lists. entries A l = remove1 (xStateListItem t) (k_list k l)"
        using wake_ok [OF less.prems, of t] 2(3) by auto
      define k3 where "k3 = k\<lparr>lists := A, uxTopReadyPriority := max (uxTopReadyPriority k) (prio k t)\<rparr>"
      have step: "unblock_loop switch k = unblock_loop (switch \<or> prio k t \<ge> prio k c) k3"
        using 2(1) False w(1-5) c by (subst unblock_loop.simps) (simp add: k3_def)
      have "length (k_list k3 (pxDelayedTaskList k3)) < length (k_list k ?D)"
        using bspec [OF w(9) D] 2(2) by (simp add: k3_def)
      then obtain s k' where IH: "unblock_loop (switch \<or> prio k t \<ge> prio k c) k3 = Some (s, k')" "woken k3 k'"
        "s \<longleftrightarrow> (switch \<or> prio k t \<ge> prio k c) \<or> (\<exists>u. due k3 u \<and> prio k3 u \<ge> prio k3 (the (pxCurrentTCB k3)))"
        using less.hyps [of k3 "switch \<or> prio k t \<ge> prio k c"] w(6) by (auto simp: k3_def)
      have t: "due k t" using 2(3) False by (simp add: due_def)
      have due3: "due k3 u \<longleftrightarrow> due k u \<and> u \<noteq> t" for u
        using w(7,8) state_list_delayed(2) [OF D] by (cases "u = t") (simp_all add: due_def k3_def not_sym)
      have "k_in k3 = container A" "prio k3 = prio k" by (simp_all add: k3_def)
      then have "woken_place k3 i = woken_place k i" for i using t w(7) by (cases i) (auto simp: due3 fun_eq_iff)
      then have "woken k k'" using IH(2) w(8) by (auto simp: woken_def k3_def)
      then show ?thesis using step IH(1,3) due3 t c by (auto simp: k3_def)
    qed
  qed
qed

text \<open>The ticks a delayed task still waits; the tick that brings them to zero makes it ready.\<close>

definition delay_left :: "kernel \<Rightarrow> task \<Rightarrow> nat option" where
  "delay_left k t =
     (if k_in k (xStateListItem t) \<in> Some ` delayed_lists then Some (unat (k_value k (xStateListItem t) - xTickCount k)) else None)"

fun ticked_place :: "kernel \<Rightarrow> kitem \<Rightarrow> klist option" where
  "ticked_place k (xStateListItem t) = (if delay_left k t = Some 1 then Some (pxReadyTasksLists (prio k t)) else k_in k (xStateListItem t))"
| "ticked_place k (xEventListItem t) = (if delay_left k t = Some 1 then None else k_in k (xEventListItem t))"

lemma unat_eq_Suc_0: "unat (w :: u32) = Suc 0 \<longleftrightarrow> w = 1"
  by (metis One_nat_def unat_1 word_unat_eq_iff)

lemma delay_left_1: "delay_left k t = Some 1 \<longleftrightarrow> k_in k (xStateListItem t) \<in> Some ` delayed_lists \<and> k_value k (xStateListItem t) = xTickCount k + 1"
  by (auto simp: delay_left_def unat_eq_Suc_0 diff_eq_eq add.commute)

text \<open>The state in which the tick looks for tasks to wake.\<close>

definition tick_start :: "kernel \<Rightarrow> kernel" where
  "tick_start k = (let k = k\<lparr>xTickCount := xTickCount k + 1\<rparr> in if xTickCount k = 0 then taskSWITCH_DELAYED_LISTS k else k)"

lemma reset_next_eq:
  "prvResetNextTaskUnblockTime k = k\<lparr>xNextTaskUnblockTime :=
     (case k_head (pxDelayedTaskList k) k of None \<Rightarrow> portMAX_DELAY | Some t \<Rightarrow> k_value k (xStateListItem t))\<rparr>"
  by (simp add: prvResetNextTaskUnblockTime_def split: option.split)

lemma reset_next_least:
  assumes "kernel_wf k" "k_in k (xStateListItem t) = Some (pxDelayedTaskList k)"
  shows "xNextTaskUnblockTime (prvResetNextTaskUnblockTime k) \<le> k_value k (xStateListItem t)"
  using assms(1) state_list_delayed(1) [OF kernel_wfD(3) [OF assms(1)]]
proof (cases rule: head_state)
  case 1
  then show ?thesis using assms(2) lists_wf_in [OF kernel_wfD(1) [OF assms(1)], of _ "pxDelayedTaskList k"] by auto
next
  case (2 u xs)
  then show ?thesis using delayed_head_least [OF assms(1) kernel_wfD(3) [OF assms(1)] 2(2) assms(2)] by (simp add: reset_next_eq)
qed

lemma u32_max: "(w :: u32) + 1 = 0 \<Longrightarrow> w = - 1"
  by (simp add: add_eq_0_iff2)

lemma kernel_wf_switched:
  "kernel_wf k \<Longrightarrow> kernel_wf (k\<lparr>xTickCount := n, pxDelayedTaskList := pxOverflowDelayedTaskList k,
     pxOverflowDelayedTaskList := pxDelayedTaskList k, xNumOfOverflows := m\<rparr>)"
  by (auto simp: kernel_wf_def insert_commute)

lemma tick_start_ok:
  assumes "tick_inv k"
  shows "kernel_wf (tick_start k)" "due (tick_start k) t \<longleftrightarrow> delay_left k t = Some 1"
    "k_in (tick_start k) (xStateListItem t) = Some (pxDelayedTaskList (tick_start k)) \<Longrightarrow>
       xNextTaskUnblockTime (tick_start k) \<le> k_value k (xStateListItem t)"
    "overflow_ok (tick_start k)"
proof -
  note inv = assms [unfolded tick_inv_def]
  note wf = kernel_wfD [OF conjunct1 [OF inv]]
  have "kernel_wf (tick_start k) \<and> (due (tick_start k) t \<longleftrightarrow> delay_left k t = Some 1) \<and>
    (k_in (tick_start k) (xStateListItem t) = Some (pxDelayedTaskList (tick_start k)) \<longrightarrow>
       xNextTaskUnblockTime (tick_start k) \<le> k_value k (xStateListItem t)) \<and> overflow_ok (tick_start k)" for t
  proof (cases "xTickCount k + 1 = 0")
    case True
    define k1 where "k1 = k\<lparr>xTickCount := 0, pxDelayedTaskList := pxOverflowDelayedTaskList k,
      pxOverflowDelayedTaskList := pxDelayedTaskList k, xNumOfOverflows := xNumOfOverflows k + 1\<rparr>"
    have start: "tick_start k = prvResetNextTaskUnblockTime k1"
      using True by (simp add: tick_start_def taskSWITCH_DELAYED_LISTS_def k1_def)
    have k1: "kernel_wf k1" using kernel_wf_switched [of k "xNumOfOverflows k + 1" 0] inv by (simp add: k1_def)
    have empty: "k_in k (xStateListItem u) \<noteq> Some (pxDelayedTaskList k)" for u
      using inv u32_max [OF True] by (auto simp: delayed_ok_def not_less)
    have "due (tick_start k) t \<longleftrightarrow> delay_left k t = Some 1"
      using empty [of t] wf(3-5) True unfolding delay_left_1 start by (auto simp: reset_next_eq due_def k1_def)
    then show ?thesis using k1 reset_next_least [OF k1, of t] empty
      by (auto simp: start reset_next_eq overflow_ok_def k1_def)
  next
    case False
    have le: "xTickCount k < xTickCount k + 1" using unatSuc [of "xTickCount k"] False by (simp add: word_less_nat_alt add.commute)
    have "due (tick_start k) t \<longleftrightarrow> delay_left k t = Some 1"
      using inv wf(3-5) False le unfolding delay_left_1 
      by (auto simp: tick_start_def due_def delayed_ok_def overflow_ok_def intro!: order_antisym inc_le) (metis less_asym)+
    then show ?thesis using inv False le
      by (auto simp: tick_start_def kernel_wf_def delayed_ok_def overflow_ok_def intro: less_trans)
  qed
  then show "kernel_wf (tick_start k)" "due (tick_start k) t \<longleftrightarrow> delay_left k t = Some 1"
    "k_in (tick_start k) (xStateListItem t) = Some (pxDelayedTaskList (tick_start k)) \<Longrightarrow>
       xNextTaskUnblockTime (tick_start k) \<le> k_value k (xStateListItem t)" "overflow_ok (tick_start k)" by blast+
qed

lemma woken_none_due:
  assumes "kernel_wf k" "\<And>t. \<not> due k t" "\<And>t. k_in k (xStateListItem t) = Some (pxDelayedTaskList k) \<Longrightarrow> xNextTaskUnblockTime k \<le> k_value k (xStateListItem t)"
  shows "woken k k"
  using assms by (auto simp: woken_def delayed_ok_def none_due_place due_def not_le)

text \<open>One tick while the scheduler runs.\<close>

definition ticked :: "kernel \<Rightarrow> kernel \<Rightarrow> bool" where
  "ticked k k' \<longleftrightarrow> tick_inv k' \<and> xTickCount k' = xTickCount k + 1 \<and>
     xNumOfOverflows k' = xNumOfOverflows k + (if xTickCount k + 1 = 0 then 1 else 0) \<and>
     k_value k' = k_value k \<and> k_in k' = ticked_place k \<and> tcb k' = tcb k \<and> pxCurrentTCB k' = pxCurrentTCB k \<and>
     uxSchedulerSuspended k' = uxSchedulerSuspended k \<and> uxPendedTicks k' = uxPendedTicks k \<and> xYieldPending k' = xYieldPending k \<and>
     uxCurrentNumberOfTasks k' = uxCurrentNumberOfTasks k \<and> xSchedulerRunning k' = xSchedulerRunning k \<and>
     uxDeletedTasksWaitingCleanUp k' = uxDeletedTasksWaitingCleanUp k \<and> yield_requested k' = yield_requested k"

lemma tick_start_same [simp]:
  "lists (tick_start k) = lists k" "tcb (tick_start k) = tcb k" "pxCurrentTCB (tick_start k) = pxCurrentTCB k"
  "uxSchedulerSuspended (tick_start k) = uxSchedulerSuspended k" "uxPendedTicks (tick_start k) = uxPendedTicks k"
  "xYieldPending (tick_start k) = xYieldPending k" "uxCurrentNumberOfTasks (tick_start k) = uxCurrentNumberOfTasks k"
  "xSchedulerRunning (tick_start k) = xSchedulerRunning k" "uxDeletedTasksWaitingCleanUp (tick_start k) = uxDeletedTasksWaitingCleanUp k"
  "yield_requested (tick_start k) = yield_requested k" "xTickCount (tick_start k) = xTickCount k + 1"
  "xNumOfOverflows (tick_start k) = xNumOfOverflows k + (if xTickCount k + 1 = 0 then 1 else 0)"
  by (simp_all add: tick_start_def taskSWITCH_DELAYED_LISTS_def reset_next_eq Let_def)

lemma woken_ticked:
  assumes "tick_inv k" "woken (tick_start k) k'"
  shows "ticked k k'"
proof -
  obtain A p n where k': "k' = (tick_start k)\<lparr>lists := A, uxTopReadyPriority := p, xNextTaskUnblockTime := n\<rparr>"
    using assms(2) unfolding woken_def by blast
  have "woken_place (tick_start k) i = ticked_place k i" for i
    by (cases i) (simp_all add: tick_start_ok(2) [OF assms(1)])
  then have in': "container A = ticked_place k" "k_in k' = ticked_place k" "item_value A = k_value k"
    using assms(2) by (auto simp: woken_def k')
  have "pxReadyTasksLists p \<noteq> pxOverflowDelayedTaskList (tick_start k)" for p
    using state_list_delayed(2) [OF kernel_wfD(4) [OF tick_start_ok(1) [OF assms(1)]], of p] by (rule not_sym)
  then have "overflow_ok k'" using tick_start_ok(4) [OF assms(1)] in'
    by (auto simp: overflow_ok_def k' split: if_splits)
  then have "tick_inv k'" using assms(2) by (simp add: tick_inv_def woken_def)
  then show ?thesis using in' by (simp add: ticked_def k')
qed

lemma increment_tick_running:
  "uxSchedulerSuspended k = 0 \<Longrightarrow> xTaskIncrementTick k = do {
     (s, k') \<leftarrow> (if xTickCount (tick_start k) \<ge> xNextTaskUnblockTime (tick_start k) then unblock_loop False (tick_start k) else Some (False, tick_start k));
     c \<leftarrow> pxCurrentTCB k';
     Some (s \<or> length (k_list k' (pxReadyTasksLists (prio k' c))) > 1 \<or> xYieldPending k', k')
   }"
  unfolding xTaskIncrementTick_def tick_start_def Let_def by (simp add: bind_assoc case_prod_unfold)

lemma tick_ok:
  assumes "tick_inv k" "uxSchedulerSuspended k = 0"
  shows "\<exists>s k'. xTaskIncrementTick k = Some (s, k') \<and> ticked k k' \<and>
    (s \<longleftrightarrow> (\<exists>t. delay_left k t = Some 1 \<and> prio k t \<ge> prio k (the (pxCurrentTCB k))) \<or>
         length (k_list k' (pxReadyTasksLists (prio k (the (pxCurrentTCB k))))) > 1 \<or> xYieldPending k)"
proof -
  obtain c where c: "pxCurrentTCB k = Some c" using assms(1) by (auto simp: tick_inv_def kernel_wf_def)
  note start = tick_start_ok [OF assms(1)]
  have "\<exists>s k'. (if xTickCount (tick_start k) \<ge> xNextTaskUnblockTime (tick_start k) then unblock_loop False (tick_start k) else Some (False, tick_start k)) = Some (s, k') \<and>
    woken (tick_start k) k' \<and> (s \<longleftrightarrow> (\<exists>t. due (tick_start k) t \<and> prio k t \<ge> prio k c))"
  proof (cases "xTickCount (tick_start k) \<ge> xNextTaskUnblockTime (tick_start k)")
    case True
    then show ?thesis using unblock_loop_ok [OF start(1), of False] c by simp
  next
    case False
    then have "\<not> due (tick_start k) t" for t using start(3) [of t] by (auto simp: due_def)
    then show ?thesis using False woken_none_due [OF start(1)] start(3) by auto
  qed
  then obtain s k' where sk: "(if xTickCount (tick_start k) \<ge> xNextTaskUnblockTime (tick_start k) then unblock_loop False (tick_start k) else Some (False, tick_start k)) = Some (s, k')"
    "woken (tick_start k) k'" "s \<longleftrightarrow> (\<exists>t. due (tick_start k) t \<and> prio k t \<ge> prio k c)" by blast
  have t: "ticked k k'" using woken_ticked [OF assms(1) sk(2)] .
  have "xTaskIncrementTick k = Some ((s \<or> length (k_list k' (pxReadyTasksLists (prio k c))) > 1) \<or> xYieldPending k, k')"
    unfolding increment_tick_running [OF assms(2)] sk(1) using t c by (simp add: ticked_def)
  then show ?thesis using t sk(3) start(2) c by auto
qed

section \<open>Delaying the running task\<close>

lemma sorted_move:
  assumes "lists_wf A" "container A i = None" "sorted (map (item_value A) (entries A l))"
  shows "sorted (map (item_value (l_insert l' i (l_set_value i v A))) (entries (l_insert l' i (l_set_value i v A)) l))"
proof -
  have "i \<notin> set (entries A l)" using assms(1,2) by (simp add: lists_wf_in)
  then have "sorted (map (item_value (l_set_value i v A)) (entries (l_set_value i v A) l))"
    using assms(3) by (simp add: klist_simps map_fun_upd)
  then show ?thesis using sorted_insert [of "l_set_value i v A" l i] by (cases "l = l'") (simp_all add: klist_simps)
qed

lemma delay_list_ok:
  assumes "kernel_wf k" "k_in k (xStateListItem t) \<noteq> None" "l \<in> delayed_lists"
  shows "\<exists>A. k_remove (xStateListItem t) k = Some (k\<lparr>lists := A\<rparr>) \<and>
    (let A' = l_insert l (xStateListItem t) (l_set_value (xStateListItem t) v A)
     in kernel_wf (k\<lparr>lists := A'\<rparr>) \<and> container A' = (k_in k)(xStateListItem t := Some l) \<and> item_value A' = (k_value k)(xStateListItem t := v))"
proof -
  note wf = kernel_wfD [OF assms(1)]
  let ?i = "xStateListItem t"
  obtain A where A: "k_remove ?i k = Some (k\<lparr>lists := A\<rparr>)" "lists_wf A" "container A = (k_in k)(?i := None)" "item_value A = k_value k"
    "\<forall>l. entries A l = remove1 ?i (k_list k l)" using k_remove_ok [OF wf(1) assms(2)] by blast
  define A' where "A' = l_insert l ?i (l_set_value ?i v A)"
  have c: "container A' = (k_in k)(?i := Some l)" "item_value A' = (k_value k)(?i := v)" using A(3,4) by (simp_all add: A'_def klist_simps)
  have "lists_wf A'" unfolding A'_def using A(2,3) by (intro wf_insert wf_set_value) (simp_all add: klist_simps)
  moreover have "items_ok (container A') (prio k) (uxTopReadyPriority k)"
    using wf(2) state_list_delayed [OF assms(3)] assms(2) unfolding c items_ok_def by auto
  moreover have "sorted (map (item_value A') (entries A' l'))" if "l' \<in> delayed_lists" for l'
    unfolding A'_def using A(2-5) wf(6) [OF that] by (intro sorted_move) (auto intro: sorted_map_remove1)
  ultimately have "kernel_wf (k\<lparr>lists := A'\<rparr>)" using assms(1) c(1) by (auto simp: kernel_wf_def)
  then show ?thesis using A(1) c by (intro exI [of _ A]) (simp add: A'_def Let_def)
qed

text \<open>What a call may change of where the items are and of the delays: only the named task's.\<close>

lemma word_sub_pos: "(n :: u32) \<noteq> 0 \<Longrightarrow> \<not> m + n < m \<Longrightarrow> m < m + n"
  by (metis add_cancel_right_right not_less_iff_gr_or_eq)

lemma delay_current_ok:
  assumes "tick_inv k" "pxCurrentTCB k = Some t" "n \<noteq> 0" "\<not> (n = portMAX_DELAY \<and> ind)"
  shows "\<exists>A m. prvAddCurrentTaskToDelayedList n ind k = Some (k\<lparr>lists := A, xNextTaskUnblockTime := m\<rparr>) \<and>
    tick_inv (k\<lparr>lists := A, xNextTaskUnblockTime := m\<rparr>) \<and>
    (\<exists>l \<in> delayed_lists. container A = (k_in k)(xStateListItem t := Some l)) \<and>
    item_value A = (k_value k)(xStateListItem t := xTickCount k + n)"
proof -
  note inv = assms(1) [unfolded tick_inv_def]
  note wf = kernel_wfD [OF conjunct1 [OF inv]]
  have listed: "k_in k (xStateListItem t) \<noteq> None" using inv assms(2) by (auto simp: kernel_wf_def)
  define wake where "wake = xTickCount k + n"
  define l where "l = (if wake < xTickCount k then pxOverflowDelayedTaskList k else pxDelayedTaskList k)"
  have l: "l \<in> delayed_lists" using wf(3,4) by (simp add: l_def)
  obtain A where A: "k_remove (xStateListItem t) k = Some (k\<lparr>lists := A\<rparr>)"
    and A': "let A' = l_insert l (xStateListItem t) (l_set_value (xStateListItem t) wake A)
     in kernel_wf (k\<lparr>lists := A'\<rparr>) \<and> container A' = (k_in k)(xStateListItem t := Some l) \<and> item_value A' = (k_value k)(xStateListItem t := wake)"
    using delay_list_ok [OF conjunct1 [OF inv] listed l, of wake] by blast
  define B where "B = l_insert l (xStateListItem t) (l_set_value (xStateListItem t) wake A)"
  define m where "m = (if \<not> wake < xTickCount k \<and> wake < xNextTaskUnblockTime k then wake else xNextTaskUnblockTime k)"
  have B: "kernel_wf (k\<lparr>lists := B\<rparr>)" "container B = (k_in k)(xStateListItem t := Some l)" "item_value B = (k_value k)(xStateListItem t := wake)"
    using A' by (simp_all add: B_def Let_def)
  have eq: "prvAddCurrentTaskToDelayedList n ind k = Some (k\<lparr>lists := B, xNextTaskUnblockTime := m\<rparr>)"
    using assms(2,4) A by (auto simp: prvAddCurrentTaskToDelayedList_def wake_def [symmetric] k_set_value_def k_insert_def B_def l_def m_def Let_def)
  have "delayed_ok (k\<lparr>lists := B, xNextTaskUnblockTime := m\<rparr>)"
    using inv B(2,3) wf(5) word_sub_pos [OF assms(3)]
    by (auto simp: delayed_ok_def l_def m_def wake_def intro: order_trans split: if_splits)
  moreover have "overflow_ok (k\<lparr>lists := B, xNextTaskUnblockTime := m\<rparr>)"
    using inv B(2,3) wf(5) by (auto simp: overflow_ok_def l_def split: if_splits)
  moreover have "kernel_wf (k\<lparr>lists := B, xNextTaskUnblockTime := m\<rparr>)"
    using B(1) kernel_wf_next [of m "k\<lparr>lists := B\<rparr>"] by simp
  ultimately show ?thesis using eq B(2,3) l by (intro exI [of _ B] exI [of _ m]) (simp add: tick_inv_def wake_def, blast)
qed

lemma suspend_current_ok:
  assumes "tick_inv k" "pxCurrentTCB k = Some t"
  shows "\<exists>A. prvAddCurrentTaskToDelayedList portMAX_DELAY True k = Some (k\<lparr>lists := A\<rparr>) \<and> tick_inv (k\<lparr>lists := A\<rparr>) \<and>
    container A = (k_in k)(xStateListItem t := Some xSuspendedTaskList) \<and> item_value A = k_value k"
proof -
  note inv = assms(1) [unfolded tick_inv_def]
  note wf = kernel_wfD [OF conjunct1 [OF inv]]
  let ?i = "xStateListItem t"
  have listed: "k_in k ?i \<noteq> None" using inv assms(2) by (auto simp: kernel_wf_def)
  obtain A where A: "k_remove ?i k = Some (k\<lparr>lists := A\<rparr>)" "lists_wf A" "container A = (k_in k)(?i := None)" "item_value A = k_value k"
    "\<forall>l. entries A l = remove1 ?i (k_list k l)" using k_remove_ok [OF wf(1) listed] by blast
  define B where "B = l_insert_end xSuspendedTaskList ?i A"
  have B: "lists_wf B" "container B = (k_in k)(?i := Some xSuspendedTaskList)" "item_value B = k_value k"
    "\<forall>l \<in> delayed_lists. entries B l = remove1 ?i (k_list k l)"
    using wf_insert_end [OF A(2)] A(3-5) by (auto simp: B_def klist_simps)
  have "items_ok (container B) (prio k) (uxTopReadyPriority k)" using wf(2) listed unfolding B(2) items_ok_def by auto
  moreover have "\<forall>l \<in> delayed_lists. \<exists>is. entries B l = fold remove1 is (k_list k l)"
    using B(4) by (intro ballI exI [of _ "[?i]"]) auto
  ultimately have "kernel_wf (k\<lparr>lists := B\<rparr>)"
    using kernel_wf_upd [OF conjunct1 [OF inv] B(1), of "uxTopReadyPriority k"] B(2,3) by simp
  moreover have "delayed_ok (k\<lparr>lists := B\<rparr>)" "overflow_ok (k\<lparr>lists := B\<rparr>)"
    using inv wf(3,4) B(2,3) by (auto simp: delayed_ok_def overflow_ok_def)
  ultimately have "tick_inv (k\<lparr>lists := B\<rparr>)" by (simp add: tick_inv_def)
  then show ?thesis using assms(2) A(1) B(2,3)
    by (intro exI [of _ B]) (simp add: prvAddCurrentTaskToDelayedList_def k_insert_end_def B_def Let_def)
qed

section \<open>The running task\<close>

lemma next_ok:
  assumes "lists_wf A" "entries A l \<noteq> []"
  shows "\<exists>i. l_next l A = (Some i, A\<lparr>index := (index A)(l := Some i)\<rparr>) \<and> i \<in> set (entries A l)"
proof -
  define rest where "rest = (case index A l of None \<Rightarrow> [] | Some j \<Rightarrow> tl (dropWhile (\<lambda>k. k \<noteq> j) (entries A l)))"
  have "set (rest @ entries A l) = set (entries A l)"
    by (auto simp: rest_def split: option.splits dest: subsetD [OF set_tl_dropWhile])
  then show ?thesis using assms(2) by (cases "rest @ entries A l") (auto simp: l_next_def rest_def [symmetric] Let_def)
qed

lemma wf_index: "lists_wf A \<Longrightarrow> i \<in> set (entries A l) \<Longrightarrow> lists_wf (A\<lparr>index := (index A)(l := Some i)\<rparr>)"
  by (simp add: lists_wf_def)

lemma top_ready_ok:
  assumes "k_list k (pxReadyTasksLists q) \<noteq> []" "q \<le> p"
  shows "\<exists>r. top_ready p k = Some r \<and> q \<le> r \<and> r \<le> p \<and> k_list k (pxReadyTasksLists r) \<noteq> [] \<and>
    (\<forall>s. r < s \<longrightarrow> s \<le> p \<longrightarrow> k_list k (pxReadyTasksLists s) = [])"
  using assms(2)
proof (induction p)
  case 0
  then show ?case using assms(1) by (auto simp: top_ready.simps [of 0] l_empty_def)
next
  case (Suc p)
  show ?case
  proof (cases "k_list k (pxReadyTasksLists (Suc p)) = []")
    case True
    then have "q \<le> p" using Suc.prems assms(1) by (cases "q = Suc p") auto
    then show ?thesis using Suc.IH True by (auto simp: top_ready.simps [of "Suc p"] l_empty_def le_Suc_eq)
  next
    case False
    then show ?thesis using Suc.prems by (auto simp: top_ready.simps [of "Suc p"] l_empty_def)
  qed
qed

definition is_ready :: "kernel \<Rightarrow> task \<Rightarrow> bool" where
  "is_ready k t \<longleftrightarrow> k_in k (xStateListItem t) = Some (pxReadyTasksLists (prio k t))"

lemma ready_listed:
  assumes "kernel_wf k"
  shows "is_ready k t \<longleftrightarrow> xStateListItem t \<in> set (k_list k (pxReadyTasksLists (prio k t)))" "is_ready k t \<Longrightarrow> prio k t \<le> uxTopReadyPriority k"
    "k_in k (xStateListItem t) = Some (pxReadyTasksLists p) \<longleftrightarrow> is_ready k t \<and> p = prio k t"
proof -
  show "is_ready k t \<longleftrightarrow> xStateListItem t \<in> set (k_list k (pxReadyTasksLists (prio k t)))"
    by (simp add: is_ready_def lists_wf_in [OF kernel_wfD(1) [OF assms]])
  show "k_in k (xStateListItem t) = Some (pxReadyTasksLists p) \<longleftrightarrow> is_ready k t \<and> p = prio k t"
    "is_ready k t \<Longrightarrow> prio k t \<le> uxTopReadyPriority k"
    using kernel_wfD(2) [OF assms] unfolding is_ready_def items_ok_def by blast+
qed

lemma select_ok:
  assumes "kernel_wf k" "is_ready k u"
  shows "\<exists>t A. taskSELECT_HIGHEST_PRIORITY_TASK k = Some (k\<lparr>lists := A, pxCurrentTCB := Some t, uxTopReadyPriority := prio k t\<rparr>) \<and>
    kernel_wf (k\<lparr>lists := A, pxCurrentTCB := Some t, uxTopReadyPriority := prio k t\<rparr>) \<and>
    entries A = k_list k \<and> container A = k_in k \<and> item_value A = k_value k \<and>
    is_ready k t \<and> (\<forall>v. is_ready k v \<longrightarrow> prio k v \<le> prio k t)"
proof -
  note wf = kernel_wfD [OF assms(1)]
  note inl = lists_wf_in [OF wf(1)]
  have u: "k_list k (pxReadyTasksLists (prio k u)) \<noteq> []" using assms ready_listed(1) by fastforce
  obtain r where r: "top_ready (uxTopReadyPriority k) k = Some r" "prio k u \<le> r" "k_list k (pxReadyTasksLists r) \<noteq> []"
    "\<forall>s. r < s \<longrightarrow> s \<le> uxTopReadyPriority k \<longrightarrow> k_list k (pxReadyTasksLists s) = []"
    using top_ready_ok [OF u ready_listed(2) [OF assms]] by blast
  obtain i where i: "l_next (pxReadyTasksLists r) (lists k) = (Some i, (lists k)\<lparr>index := (index (lists k))(pxReadyTasksLists r := Some i)\<rparr>)"
    "i \<in> set (k_list k (pxReadyTasksLists r))" using next_ok [OF wf(1) r(3)] by blast
  then have "k_in k i = Some (pxReadyTasksLists r)" by (simp add: inl)
  then obtain t where t: "i = xStateListItem t" "is_ready k t" "r = prio k t"
    using ready_listed(3) [OF assms(1)] wf(2) by (cases i) (auto simp: items_ok_def, metis state_list.simps(1))
  define A where "A = (lists k)\<lparr>index := (index (lists k))(pxReadyTasksLists r := Some i)\<rparr>"
  have top: "\<forall>v. is_ready k v \<longrightarrow> prio k v \<le> prio k t"
    using r(4) ready_listed [OF assms(1)] t(3) by (metis empty_iff leI list.set(1))
  have "items_ok (k_in k) (prio k) (prio k t)"
    using wf(2) top ready_listed(3) [OF assms(1)] by (simp add: items_ok_def) blast
  then have "kernel_wf (k\<lparr>lists := A, pxCurrentTCB := Some t, uxTopReadyPriority := prio k t\<rparr>)"
    using assms(1) wf_index [OF wf(1) i(2)] t(2) by (simp add: kernel_wf_def A_def is_ready_def)
  moreover have "taskSELECT_HIGHEST_PRIORITY_TASK k = Some (k\<lparr>lists := A, pxCurrentTCB := Some t, uxTopReadyPriority := prio k t\<rparr>)"
    using r(1) i(1) unfolding t by (simp add: taskSELECT_HIGHEST_PRIORITY_TASK_def A_def t)
  ultimately show ?thesis using t top by (intro exI [of _ t] exI [of _ A]) (simp add: A_def)
qed

text \<open>The switch keeps where all items are.\<close>

definition switched :: "kernel \<Rightarrow> kernel \<Rightarrow> bool" where
  "switched k k' \<longleftrightarrow> tick_inv k' \<and> k_list k' = k_list k \<and> k_in k' = k_in k \<and> k_value k' = k_value k \<and>
     k' = k\<lparr>lists := lists k', pxCurrentTCB := pxCurrentTCB k', uxTopReadyPriority := uxTopReadyPriority k', xYieldPending := xYieldPending k',
       yield_requested := yield_requested k'\<rparr>"

definition runs_highest :: "kernel \<Rightarrow> bool" where
  "runs_highest k \<longleftrightarrow> (\<exists>c. pxCurrentTCB k = Some c \<and> is_ready k c \<and> (\<forall>t. is_ready k t \<longrightarrow> prio k t \<le> prio k c))"

lemma switched_refl: "tick_inv k \<Longrightarrow> switched k k"
  by (simp add: switched_def)

lemma switch_ok:
  assumes "tick_inv k" "is_ready k u"
  shows "\<exists>k'. vTaskSwitchContext k = Some k' \<and> switched k k' \<and> (uxSchedulerSuspended k = 0 \<longrightarrow> runs_highest k')"
proof (cases "uxSchedulerSuspended k = 0")
  case True
  let ?k = "k\<lparr>xYieldPending := False\<rparr>"
  have "kernel_wf ?k" "is_ready ?k u" using assms by (simp_all add: tick_inv_def kernel_wf_def is_ready_def)
  from select_ok [OF this] obtain t A where A: "taskSELECT_HIGHEST_PRIORITY_TASK ?k = Some (?k\<lparr>lists := A, pxCurrentTCB := Some t, uxTopReadyPriority := prio k t\<rparr>)"
    "kernel_wf (?k\<lparr>lists := A, pxCurrentTCB := Some t, uxTopReadyPriority := prio k t\<rparr>)"
    "entries A = k_list k" "container A = k_in k" "item_value A = k_value k" "is_ready ?k t" "\<forall>v. is_ready ?k v \<longrightarrow> prio k v \<le> prio k t" by auto
  define k' where "k' = ?k\<lparr>lists := A, pxCurrentTCB := Some t, uxTopReadyPriority := prio k t\<rparr>"
  have "tick_inv k'" using A(2,4,5) assms(1) by (simp add: tick_inv_def delayed_ok_def overflow_ok_def k'_def)
  then have "switched k k'" using A(3-5) by (simp add: switched_def k'_def)
  moreover have "runs_highest k'" using A(4,6,7) by (simp add: runs_highest_def k'_def is_ready_def)
  ultimately show ?thesis using A(1) True by (auto simp: vTaskSwitchContext_def k'_def)
next
  case False
  have "switched k (k\<lparr>xYieldPending := True\<rparr>)" using assms(1) by (simp add: switched_def)
  then show ?thesis using False by (simp add: vTaskSwitchContext_def)
qed

lemma soft_isr_ok:
  assumes "tick_inv k" "is_ready k u"
  shows "\<exists>k'. SoftIsrHdl k = Some k' \<and> switched k k' \<and> \<not> yield_requested k'"
proof (cases "yield_requested k")
  case True
  obtain k' where k': "vTaskSwitchContext k = Some k'" "switched k k'" using switch_ok [OF assms] by blast
  obtain A c p y r where eq: "k' = k\<lparr>lists := A, pxCurrentTCB := c, uxTopReadyPriority := p, xYieldPending := y, yield_requested := r\<rparr>"
    using k'(2) unfolding switched_def by blast
  have "switched k (k'\<lparr>yield_requested := False\<rparr>)"
    using k'(2) tick_inv_frame(2) [of False k'] by (simp add: switched_def eq)
  then show ?thesis using True k'(1) by (simp add: SoftIsrHdl_def)
next
  case False
  then show ?thesis using switched_refl [OF assms(1)] by (simp add: SoftIsrHdl_def)
qed

section \<open>Delays end on time\<close>

lemma delay_left_pos: assumes "tick_inv k" "delay_left k t = Some d" shows "d > 0"
proof -
  have "delayed_lists = {pxDelayedTaskList k, pxOverflowDelayedTaskList k}" using assms(1) by (simp add: tick_inv_def kernel_wf_def)
  moreover have "k_in k (xStateListItem t) \<in> Some ` delayed_lists" using assms(2) by (simp add: delay_left_def split: if_splits)
  ultimately have "k_in k (xStateListItem t) \<in> {Some (pxDelayedTaskList k), Some (pxOverflowDelayedTaskList k)}" by (simp only: image_insert image_empty)
  then have "k_value k (xStateListItem t) \<noteq> xTickCount k"
    using assms(1) by (auto simp: tick_inv_def delayed_ok_def overflow_ok_def)
  then show ?thesis using assms(2) by (auto simp: delay_left_def unat_gt_0 split: if_splits)
qed

lemma delay_left_ticked:
  assumes "tick_inv k" "ticked k k'"
  shows "delay_left k' t = (case delay_left k t of None \<Rightarrow> None | Some d \<Rightarrow> if d = 1 then None else Some (d - 1))"
proof (cases "delay_left k t")
  case None
  then show ?thesis using assms(2) by (auto simp: delay_left_def ticked_def split: if_splits)
next
  case (Some d)
  define w where "w = k_value k (xStateListItem t) - xTickCount k"
  have d: "d = unat w" "w \<noteq> 0" using Some delay_left_pos [OF assms(1) Some] by (auto simp: w_def delay_left_def split: if_splits)
  have k': "k_in k' = ticked_place k" "k_value k' = k_value k" "xTickCount k' = xTickCount k + 1" using assms(2) by (simp_all add: ticked_def)
  have "k_value k (xStateListItem t) - (xTickCount k + 1) = w - 1" by (simp add: w_def)
  then have "unat (k_value k (xStateListItem t) - (xTickCount k + 1)) = d - 1" using unat_minus_one [OF d(2)] d(1) by (simp only:)
  moreover have "k_in k (xStateListItem t) \<in> Some ` delayed_lists" using Some by (simp add: delay_left_def split: if_splits)
  ultimately show ?thesis using Some by (cases "d = 1") (auto simp: delay_left_def k')
qed

lemma ready_ticked: "ticked k k' \<Longrightarrow> is_ready k' t \<longleftrightarrow> is_ready k t \<or> delay_left k t = Some 1"
  by (auto simp: ticked_def is_ready_def)

lemma switched_same:
  assumes "switched k k'"
  shows "delay_left k' t = delay_left k t" "is_ready k' t = is_ready k t" "uxSchedulerSuspended k' = uxSchedulerSuspended k"
    "uxPendedTicks k' = uxPendedTicks k" "tick_inv k'" "tcb k' = tcb k" "k_in k' = k_in k"
    "xTickCount k' = xTickCount k" "xNumOfOverflows k' = xNumOfOverflows k"
proof -
  obtain A c p y r where eq: "k' = k\<lparr>lists := A, pxCurrentTCB := c, uxTopReadyPriority := p, xYieldPending := y, yield_requested := r\<rparr>"
    using assms unfolding switched_def by blast
  show "delay_left k' t = delay_left k t" "is_ready k' t = is_ready k t" "uxSchedulerSuspended k' = uxSchedulerSuspended k"
    "uxPendedTicks k' = uxPendedTicks k" "tick_inv k'" "tcb k' = tcb k" "k_in k' = k_in k"
    "xTickCount k' = xTickCount k" "xNumOfOverflows k' = xNumOfOverflows k"
    using assms by (simp_all add: switched_def eq delay_left_def is_ready_def)
qed

text \<open>The tick handler with its switch of the context, any number of times.\<close>

fun port_ticks :: "nat \<Rightarrow> kernel \<Rightarrow> kernel option" where
  "port_ticks 0 k = Some k"
| "port_ticks (Suc m) k = Option.bind (xPortSysTickHandle k) (port_ticks m)"

lemma port_tick_ok:
  assumes "tick_inv k" "uxSchedulerSuspended k = 0" "is_ready k u"
  shows "\<exists>k'. xPortSysTickHandle k = Some k' \<and> tick_inv k' \<and> uxSchedulerSuspended k' = 0 \<and>
    (\<forall>t. is_ready k' t \<longleftrightarrow> is_ready k t \<or> delay_left k t = Some 1) \<and>
    (\<forall>t. delay_left k' t = (case delay_left k t of None \<Rightarrow> None | Some d \<Rightarrow> if d = 1 then None else Some (d - 1)))"
proof -
  obtain s k1 where k1: "xTaskIncrementTick k = Some (s, k1)" "ticked k k1" using tick_ok [OF assms(1,2)] by blast
  have inv: "tick_inv k1" "uxSchedulerSuspended k1 = 0" "is_ready k1 u" using k1(2) assms(2,3) ready_ticked by (auto simp: ticked_def)
  have "\<exists>k'. xPortSysTickHandle k = Some k' \<and> switched k1 k'"
    using switch_ok [OF inv(1,3)] switched_refl [OF inv(1)] k1(1) by (cases s) (auto simp: xPortSysTickHandle_def)
  then obtain k' where k': "xPortSysTickHandle k = Some k'" "switched k1 k'" by blast
  show ?thesis
    by (intro exI [of _ k'])
      (simp add: k'(1) switched_same [OF k'(2)] delay_left_ticked [OF assms(1) k1(2)] ready_ticked [OF k1(2)] inv(2))
qed

lemma port_ticks_delay:
  assumes "tick_inv k" "uxSchedulerSuspended k = 0" "is_ready k u" "is_ready k t \<or> delay_left k t = Some d"
  shows "\<exists>k'. port_ticks m k = Some k' \<and> (is_ready k' t \<longleftrightarrow> is_ready k t \<or> d \<le> m)"
  using assms
proof (induction m arbitrary: k d)
  case 0
  then show ?case using delay_left_pos by fastforce
next
  case (Suc m)
  obtain k1 where k1: "xPortSysTickHandle k = Some k1" "tick_inv k1" "uxSchedulerSuspended k1 = 0"
    "\<forall>t. is_ready k1 t \<longleftrightarrow> is_ready k t \<or> delay_left k t = Some 1"
    "\<forall>t. delay_left k1 t = (case delay_left k t of None \<Rightarrow> None | Some d \<Rightarrow> if d = 1 then None else Some (d - 1))"
    using port_tick_ok [OF Suc.prems(1-3)] by blast
  have "is_ready k1 t \<or> delay_left k1 t = Some (d - 1)" using Suc.prems(4) k1(4,5) by auto
  from Suc.IH [OF k1(2,3) _ this] obtain k' where "port_ticks m k1 = Some k'" "is_ready k' t \<longleftrightarrow> is_ready k1 t \<or> d - 1 \<le> m"
    using k1(4) Suc.prems(3) by blast
  then show ?case using k1(1,4) Suc.prems(4) delay_left_pos [OF Suc.prems(1), of t] by fastforce
qed

text \<open>Resuming the scheduler when nothing was held back.\<close>

lemma resume_all_idle:
  assumes "k_list k xPendingReadyList = []" "uxPendedTicks k = 0" "uxSchedulerSuspended k = 1"
  shows "\<exists>y r. xTaskResumeAll k = Some (y, k\<lparr>uxSchedulerSuspended := 0, yield_requested := r\<rparr>) \<and> (y \<longrightarrow> r)"
proof -
  have "xTaskResumeAll k = Some (0 < uxCurrentNumberOfTasks k \<and> xYieldPending k,
    k\<lparr>uxSchedulerSuspended := 0, yield_requested := yield_requested k \<or> 0 < uxCurrentNumberOfTasks k \<and> xYieldPending k\<rparr>)"
    using assms by (auto simp: xTaskResumeAll_def resume_loop.simps k_head_def l_head_def portYIELD_def Let_def)
  then show ?thesis by auto
qed

lemma pend_ok_empty:
  assumes "kernel_wf k" "pend_ok k" "uxSchedulerSuspended k = 0"
  shows "k_list k xPendingReadyList = []"
proof -
  have "k_in k i \<noteq> Some xPendingReadyList" for i
    using assms(2,3) items_okD(1) [OF kernel_wfD(2) [OF assms(1)], of _ xPendingReadyList] by (cases i) (auto simp: pend_ok_def)
  then show ?thesis by (simp add: list_empty_iff [OF kernel_wfD(1) [OF assms(1)]])
qed

lemma delay_ok:
  assumes "kernel_ok k" "pxCurrentTCB k = Some t" "uxSchedulerSuspended k = 0" "n \<noteq> 0"
  shows "\<exists>k'. vTaskDelay n k = Some k' \<and> tick_inv k' \<and> uxSchedulerSuspended k' = 0 \<and> yield_requested k' \<and>
    delay_left k' t = Some (unat n) \<and> (\<forall>u. u \<noteq> t \<longrightarrow> is_ready k' u = is_ready k u)"
proof -
  let ?k = "vTaskSuspendAll k"
  have "tick_inv ?k" "pxCurrentTCB ?k = Some t" using assms(1,2) by (simp_all add: kernel_ok_def vTaskSuspendAll_def)
  then obtain A m l where A: "prvAddCurrentTaskToDelayedList n False ?k = Some (?k\<lparr>lists := A, xNextTaskUnblockTime := m\<rparr>)"
    "tick_inv (?k\<lparr>lists := A, xNextTaskUnblockTime := m\<rparr>)" "l \<in> delayed_lists"
    "container A = (k_in k)(xStateListItem t := Some l)" "item_value A = (k_value k)(xStateListItem t := xTickCount k + n)"
    using delay_current_ok [of ?k t n False] assms(4) by (auto simp: vTaskSuspendAll_def)
  let ?k1 = "?k\<lparr>lists := A, xNextTaskUnblockTime := m\<rparr>"
  have wf: "kernel_wf k" "lists_wf A" using assms(1) A(2) by (simp_all add: kernel_ok_def tick_inv_def kernel_wf_def)
  have "k_in k i \<noteq> Some xPendingReadyList" for i
    using pend_ok_empty [OF wf(1)] assms(1,3) list_empty_iff [OF kernel_wfD(1) [OF wf(1)]] by (simp add: kernel_ok_def)
  then have "entries A xPendingReadyList = []" using A(3,4) by (auto simp: list_empty_iff [OF wf(2)])
  then obtain y r where "xTaskResumeAll ?k1 = Some (y, ?k1\<lparr>uxSchedulerSuspended := 0, yield_requested := r\<rparr>)" "y \<longrightarrow> r"
    using resume_all_idle [of ?k1] assms(1,3) by (auto simp: kernel_ok_def pend_ok_def vTaskSuspendAll_def)
  then have "vTaskDelay n k = Some (?k1\<lparr>uxSchedulerSuspended := 0, yield_requested := True\<rparr>)"
    using A(1) assms(4) by (auto simp: vTaskDelay_def word_neq_0_conv resume_and_yield_def portYIELD_def)
  moreover have "tick_inv (?k1\<lparr>uxSchedulerSuspended := 0, yield_requested := True\<rparr>)" using A(2) by (simp only: tick_inv_frame)
  ultimately show ?thesis using A(3-5)
    by (intro exI [of _ "?k1\<lparr>uxSchedulerSuspended := 0, yield_requested := True\<rparr>"]) (auto simp: delay_left_def is_ready_def vTaskSuspendAll_def)
qed

end
