(* ===== verification/Rtos_Invariant.thy ===== *)
theory Rtos_Invariant
  imports Rtos_Sched
begin

text \<open>
  Every call of the kernel's interface, in any order the documentation allows, keeps the
  scheduler's lists consistent and never follows a null pointer.
\<close>

section \<open>Lists\<close>

definition L_ok :: "(klist, kitem) klists \<Rightarrow> bool" where
  "L_ok A \<longleftrightarrow> lists_wf A \<and> (\<forall>l \<in> delayed_lists. sorted (map (item_value A) (entries A l))) \<and>
     (\<forall>t. container A (xEventListItem t) \<notin> Some ` delayed_lists)"

lemma L_ok_remove:
  assumes "L_ok (lists k)" "k_in k i \<noteq> None"
  obtains A where "k_remove i k = Some (k\<lparr>lists := A\<rparr>)" "L_ok A" "container A = (k_in k)(i := None)" "item_value A = k_value k"
    "\<And>l. entries A l = remove1 i (k_list k l)"
proof -
  have wf: "lists_wf (lists k)" using assms(1) by (simp add: L_ok_def)
  obtain A where A: "k_remove i k = Some (k\<lparr>lists := A\<rparr>)" "lists_wf A" "container A = (k_in k)(i := None)" "item_value A = k_value k"
    "\<forall>l. entries A l = remove1 i (k_list k l)" using k_remove_ok [OF wf assms(2)] by blast
  have "L_ok A" using assms(1) A(2-5) by (simp add: L_ok_def sorted_map_remove1)
  then show ?thesis using that A by blast
qed

lemma L_ok_remove_if_listed:
  assumes "L_ok (lists k)"
  obtains A where "k_remove_if_listed i k = Some (k\<lparr>lists := A\<rparr>)" "L_ok A" "container A = (k_in k)(i := None)" "item_value A = k_value k"
    "\<And>l. entries A l = remove1 i (k_list k l)"
proof -
  have wf: "lists_wf (lists k)" using assms(1) by (simp add: L_ok_def)
  obtain A where A: "k_remove_if_listed i k = Some (k\<lparr>lists := A\<rparr>)" "lists_wf A" "container A = (k_in k)(i := None)" "item_value A = k_value k"
    "\<forall>l. entries A l = remove1 i (k_list k l)" using k_remove_if_listed_ok [OF wf] by blast
  have "L_ok A" using assms(1) A(2-5) by (simp add: L_ok_def sorted_map_remove1)
  then show ?thesis using that A by blast
qed

lemma L_ok_insert_end:
  assumes "L_ok A" "container A i = None" "l \<notin> delayed_lists"
  shows "L_ok (l_insert_end l i A)"
  using assms wf_insert_end [of A i l] by (auto simp: L_ok_def klist_simps)

lemma L_ok_insert:
  assumes "L_ok A" "container A i = None" "l \<notin> delayed_lists"
  shows "L_ok (l_insert l i A)"
  using assms wf_insert [of A i l] by (auto simp: L_ok_def klist_simps)

lemma L_ok_event_value:
  assumes "L_ok A"
  shows "L_ok (l_set_value (xEventListItem t) v A)"
proof -
  have "xEventListItem t \<notin> set (entries A l)" if "l \<in> delayed_lists" for l
    using assms that unfolding L_ok_def by (metis lists_wf_in image_eqI)
  then show ?thesis using assms by (simp add: L_ok_def wf_set_value klist_simps map_fun_upd)
qed

lemma kernel_wf_L_ok: "kernel_wf k \<Longrightarrow> L_ok (lists k)"
  using items_okD(3) [OF kernel_wfD(2)] by (auto simp: kernel_wf_def L_ok_def) fastforce+

lemma tick_invI:
  assumes "tick_inv k" "L_ok (lists k')" "items_ok (k_in k') (prio k') (uxTopReadyPriority k')"
    and "pxDelayedTaskList k' = pxDelayedTaskList k" "pxOverflowDelayedTaskList k' = pxOverflowDelayedTaskList k"
      "xTickCount k' = xTickCount k" "xNextTaskUnblockTime k' = xNextTaskUnblockTime k"
    and "\<And>t l. l \<in> delayed_lists \<Longrightarrow> k_in k' (xStateListItem t) = Some l \<Longrightarrow>
      k_in k (xStateListItem t) = Some l \<and> k_value k' (xStateListItem t) = k_value k (xStateListItem t)"
    and "pxCurrentTCB k' = Some c" "k_in k' (xStateListItem c) \<noteq> None"
  shows "tick_inv k'"
proof -
  note inv = assms(1) [unfolded tick_inv_def]
  note wf = kernel_wfD [OF conjunct1 [OF inv]]
  have "kernel_wf k'" using assms(2-5,9,10) inv by (simp add: kernel_wf_def L_ok_def)
  moreover have "delayed_ok k'" "overflow_ok k'"
    using inv assms(4-7) assms(8) [OF wf(3)] assms(8) [OF wf(4)] by (simp_all add: delayed_ok_def overflow_ok_def)
  ultimately show ?thesis by (simp add: tick_inv_def)
qed

lemma tick_inv_reset: assumes "tick_inv k" shows "tick_inv (prvResetNextTaskUnblockTime k)"
proof -
  have "kernel_wf k" using assms by (simp add: tick_inv_def)
  from reset_next_least [OF this] show ?thesis using assms
    by (auto simp: tick_inv_def reset_next_eq delayed_ok_def overflow_ok_def)
qed

section \<open>The invariant of the interface\<close>

text \<open>Only blocked tasks are in event lists; the counters of tasks are exact.\<close>

definition event_ok :: "(kitem \<Rightarrow> klist option) \<Rightarrow> bool" where
  "event_ok c \<longleftrightarrow> (\<forall>t. c (xEventListItem t) \<noteq> None \<longrightarrow>
     c (xStateListItem t) \<in> Some ` {xDelayedTaskList1, xDelayedTaskList2, xSuspendedTaskList})"

definition counts_ok :: "(kitem \<Rightarrow> klist option) \<Rightarrow> nat \<Rightarrow> nat \<Rightarrow> bool" where
  "counts_ok c n d \<longleftrightarrow> finite {t. c (xStateListItem t) \<noteq> None} \<and> n = card {t. c (xStateListItem t) \<noteq> None} \<and>
     d = card {t. c (xStateListItem t) = Some xTasksWaitingTermination}"

text \<open>The idle task \<open>idle\<close> is always ready.\<close>

definition core_ok :: "task \<Rightarrow> kernel \<Rightarrow> bool" where
  "core_ok idle k \<longleftrightarrow> tick_inv k \<and> event_ok (k_in k) \<and>
     counts_ok (k_in k) (uxCurrentNumberOfTasks k) (uxDeletedTasksWaitingCleanUp k) \<and> is_ready k idle"

definition sched_ok :: "task \<Rightarrow> kernel \<Rightarrow> bool" where
  "sched_ok idle k \<longleftrightarrow> core_ok idle k \<and> pend_ok k"

lemma core_okD:
  assumes "core_ok idle k"
  shows "tick_inv k" "kernel_wf k" "L_ok (lists k)" "items_ok (k_in k) (prio k) (uxTopReadyPriority k)" "event_ok (k_in k)"
    "counts_ok (k_in k) (uxCurrentNumberOfTasks k) (uxDeletedTasksWaitingCleanUp k)" "is_ready k idle"
  using assms kernel_wf_L_ok kernel_wfD(2) by (auto simp: core_ok_def tick_inv_def)

lemma sched_ok_kernel_ok: "sched_ok idle k \<Longrightarrow> kernel_ok k"
  by (simp add: sched_ok_def core_ok_def kernel_ok_def)

lemma core_ok_frame [simp]:
  "core_ok idle (k\<lparr>xYieldPending := b\<rparr>) = core_ok idle k" "core_ok idle (k\<lparr>yield_requested := b\<rparr>) = core_ok idle k"
  "core_ok idle (k\<lparr>uxSchedulerSuspended := n\<rparr>) = core_ok idle k" "core_ok idle (k\<lparr>uxPendedTicks := n\<rparr>) = core_ok idle k"
  by (simp_all add: core_ok_def is_ready_def)

lemma core_ok_yield [simp]: "core_ok idle (portYIELD k) = core_ok idle k"
  by (simp add: portYIELD_def)

lemma pend_ok_frame [simp]:
  "pend_ok (k\<lparr>xYieldPending := b\<rparr>) = pend_ok k" "pend_ok (portYIELD k) = pend_ok k" "pend_ok (prvResetNextTaskUnblockTime k) = pend_ok k"
  by (simp_all add: pend_ok_def portYIELD_def reset_next_eq)

lemma core_ok_reset: "core_ok idle k \<Longrightarrow> core_ok idle (prvResetNextTaskUnblockTime k)"
  using tick_inv_reset [of k] by (simp add: core_ok_def reset_next_eq is_ready_def)

lemma core_current: "core_ok idle k \<Longrightarrow> \<exists>c. pxCurrentTCB k = Some c \<and> k_in k (xStateListItem c) \<noteq> None"
  by (auto simp: core_ok_def tick_inv_def kernel_wf_def)

text \<open>The places of state items may change as long as no task appears, disappears or is deleted.\<close>

lemma counts_ok_moved:
  assumes "counts_ok c n d" "\<And>t. c' (xStateListItem t) = None \<longleftrightarrow> c (xStateListItem t) = None"
    "\<And>t. c' (xStateListItem t) = Some xTasksWaitingTermination \<longleftrightarrow> c (xStateListItem t) = Some xTasksWaitingTermination"
  shows "counts_ok c' n d"
  using assms by (simp add: counts_ok_def)

lemma add_ready_fields [simp]:
  "lists (prvAddTaskToReadyList t k) = l_insert_end (pxReadyTasksLists (prio k t)) (xStateListItem t) (lists k)"
  "tcb (prvAddTaskToReadyList t k) = tcb k" "pxCurrentTCB (prvAddTaskToReadyList t k) = pxCurrentTCB k"
  "pxDelayedTaskList (prvAddTaskToReadyList t k) = pxDelayedTaskList k" "pxOverflowDelayedTaskList (prvAddTaskToReadyList t k) = pxOverflowDelayedTaskList k"
  "uxDeletedTasksWaitingCleanUp (prvAddTaskToReadyList t k) = uxDeletedTasksWaitingCleanUp k" "uxCurrentNumberOfTasks (prvAddTaskToReadyList t k) = uxCurrentNumberOfTasks k"
  "xTickCount (prvAddTaskToReadyList t k) = xTickCount k" "uxTopReadyPriority (prvAddTaskToReadyList t k) = max (uxTopReadyPriority k) (prio k t)"
  "xSchedulerRunning (prvAddTaskToReadyList t k) = xSchedulerRunning k" "uxPendedTicks (prvAddTaskToReadyList t k) = uxPendedTicks k"
  "xYieldPending (prvAddTaskToReadyList t k) = xYieldPending k" "xNextTaskUnblockTime (prvAddTaskToReadyList t k) = xNextTaskUnblockTime k"
  "uxSchedulerSuspended (prvAddTaskToReadyList t k) = uxSchedulerSuspended k" "yield_requested (prvAddTaskToReadyList t k) = yield_requested k"
  by (simp_all add: prvAddTaskToReadyList_def k_insert_end_def taskRECORD_READY_PRIORITY_def max_def)

abbreviation alive :: "kernel \<Rightarrow> task \<Rightarrow> bool" where
  "alive k t \<equiv> k_in k (xStateListItem t) \<noteq> None \<and> k_in k (xStateListItem t) \<noteq> Some xTasksWaitingTermination"

text \<open>Putting a task with both items taken out of their lists into the ready list of its priority.\<close>

lemma core_add_ready:
  assumes "core_ok idle k" "alive k t" "L_ok A" "container A = (k_in k)(xEventListItem t := None, xStateListItem t := None)"
    "\<And>u. item_value A (xStateListItem u) = k_value k (xStateListItem u)"
    and k1: "k1 = k\<lparr>lists := A, tcb := T, uxSchedulerSuspended := ss, xYieldPending := y, yield_requested := r\<rparr>"
    and T: "\<And>u. u \<noteq> t \<Longrightarrow> uxPriority (T u) = prio k u"
  shows "core_ok idle (prvAddTaskToReadyList t k1)"
proof -
  note c = core_okD [OF assms(1)]
  let ?k = "prvAddTaskToReadyList t k1" and ?i = "xStateListItem t" and ?r = "pxReadyTasksLists (uxPriority (T t))"
  obtain cur where cur: "pxCurrentTCB k = Some cur" "k_in k (xStateListItem cur) \<noteq> None" using core_current [OF assms(1)] by blast
  have in': "k_in ?k = (k_in k)(xEventListItem t := None, ?i := Some ?r)" by (simp add: k1 klist_simps assms(4))
  have L: "L_ok (lists ?k)" using assms(3,4) by (simp add: k1 L_ok_insert_end)
  have items: "items_ok (k_in ?k) (prio ?k) (uxTopReadyPriority ?k)"
    using items_okD [OF c(4)] unfolding in' items_ok_def by (auto simp: k1 T le_max_iff_disj)
  have tick: "tick_inv ?k"
  proof (rule tick_invI [OF c(1) L items])
    show "pxCurrentTCB ?k = Some cur" "k_in ?k (xStateListItem cur) \<noteq> None" using cur assms(2) unfolding in' by (auto simp: k1)
    show "k_in k (xStateListItem u) = Some l \<and> k_value ?k (xStateListItem u) = k_value k (xStateListItem u)"
      if "l \<in> delayed_lists" "k_in ?k (xStateListItem u) = Some l" for u l
      using that state_list_delayed(2) [OF that(1)] assms(5) unfolding in' by (auto simp: k1 klist_simps split: if_splits)
  qed (simp_all add: k1)
  have "event_ok (k_in ?k)" using c(5) unfolding in' by (auto simp: event_ok_def)
  moreover have "counts_ok (k_in ?k) (uxCurrentNumberOfTasks k) (uxDeletedTasksWaitingCleanUp k)"
    using assms(2) unfolding in' by (intro counts_ok_moved [OF c(6)]) auto
  moreover have "is_ready ?k idle" using c(7) unfolding is_ready_def in' by (auto simp: k1 T)
  ultimately show ?thesis using tick by (simp add: core_ok_def k1)
qed

text \<open>Putting the state item elsewhere, the item of the event list left or taken out.\<close>

lemma core_move:
  assumes "core_ok idle k" "alive k t" "t \<noteq> idle" "L_ok A" "container A = c'" "c' = (k_in k)(xStateListItem t := Some l, xEventListItem t := e)"
    "\<And>u. item_value A (xStateListItem u) = k_value k (xStateListItem u)"
    and l: "l = xSuspendedTaskList \<or> l = xTasksWaitingTermination \<and> e = None" and e: "e \<noteq> None \<Longrightarrow> \<not> state_list (the e)"
    and d: "d = uxDeletedTasksWaitingCleanUp k + (if l = xTasksWaitingTermination then 1 else 0)"
  shows "core_ok idle (k\<lparr>lists := A, uxDeletedTasksWaitingCleanUp := d\<rparr>)"
proof -
  note c = core_okD [OF assms(1)]
  let ?k = "k\<lparr>lists := A, uxDeletedTasksWaitingCleanUp := d\<rparr>"
  obtain cur where cur: "pxCurrentTCB k = Some cur" "k_in k (xStateListItem cur) \<noteq> None" using core_current [OF assms(1)] by blast
  have in': "k_in ?k = (k_in k)(xStateListItem t := Some l, xEventListItem t := e)" using assms(5,6) by simp
  have sl: "state_list l" "\<And>p. l \<noteq> pxReadyTasksLists p" using l by auto
  have items: "items_ok (k_in ?k) (prio ?k) (uxTopReadyPriority ?k)"
    using items_okD [OF c(4)] sl e unfolding in' items_ok_def by auto
  have tick: "tick_inv ?k"
  proof (rule tick_invI [OF c(1) _ items])
    show "L_ok (lists ?k)" using assms(4) by simp
    show "pxCurrentTCB ?k = Some cur" "k_in ?k (xStateListItem cur) \<noteq> None" using cur unfolding in' by auto
    show "k_in k (xStateListItem u) = Some l' \<and> k_value ?k (xStateListItem u) = k_value k (xStateListItem u)"
      if "l' \<in> delayed_lists" "k_in ?k (xStateListItem u) = Some l'" for u l'
      using that l assms(7) unfolding in' by (auto split: if_splits)
  qed simp_all
  have ev: "event_ok (k_in ?k)" using c(5) l unfolding in' by (auto simp: event_ok_def)
  have dom: "{u. k_in ?k (xStateListItem u) \<noteq> None} = {u. k_in k (xStateListItem u) \<noteq> None}" using assms(2) unfolding in' by auto
  have "{u. k_in ?k (xStateListItem u) = Some xTasksWaitingTermination} =
    (if l = xTasksWaitingTermination then insert t else (\<lambda>x. x)) {u. k_in k (xStateListItem u) = Some xTasksWaitingTermination}"
    using assms(2) unfolding in' by auto
  moreover have "finite {u. k_in k (xStateListItem u) = Some xTasksWaitingTermination}"
    using c(6) by (auto simp: counts_ok_def elim!: rev_finite_subset)
  ultimately have "d = card {u. k_in ?k (xStateListItem u) = Some xTasksWaitingTermination}"
    using c(6) assms(2) d by (auto simp: counts_ok_def)
  then have "counts_ok (k_in ?k) (uxCurrentNumberOfTasks k) d" using c(6) dom by (simp add: counts_ok_def)
  moreover have "is_ready ?k idle" using c(7) assms(3) unfolding is_ready_def in' by simp
  ultimately show ?thesis using tick ev by (simp add: core_ok_def)
qed

section \<open>Interrupts\<close>

lemma core_ticked:
  assumes "core_ok idle k" "ticked k k'"
  shows "core_ok idle k'"
proof -
  note c = core_okD [OF assms(1)]
  have k': "k_in k' = ticked_place k" "tick_inv k'" "uxCurrentNumberOfTasks k' = uxCurrentNumberOfTasks k"
    "uxDeletedTasksWaitingCleanUp k' = uxDeletedTasksWaitingCleanUp k" using assms(2) by (simp_all add: ticked_def)
  have place: "k_in k (xStateListItem t) \<in> Some ` delayed_lists" if "delay_left k t = Some 1" for t
    using that by (simp add: delay_left_def split: if_splits)
  have "event_ok (k_in k')" using c(5) by (auto simp: event_ok_def k'(1))
  moreover have "counts_ok (k_in k') (uxCurrentNumberOfTasks k) (uxDeletedTasksWaitingCleanUp k)"
  proof (rule counts_ok_moved [OF c(6)])
    fix t
    show "k_in k' (xStateListItem t) = None \<longleftrightarrow> k_in k (xStateListItem t) = None"
      "k_in k' (xStateListItem t) = Some xTasksWaitingTermination \<longleftrightarrow> k_in k (xStateListItem t) = Some xTasksWaitingTermination"
      using place [of t] by (auto simp: k'(1))
  qed
  moreover have "is_ready k' idle" using ready_ticked [OF assms(2)] c(7) by blast
  ultimately show ?thesis using k' by (simp add: core_ok_def)
qed

lemma core_switched:
  assumes "core_ok idle k" "switched k k'"
  shows "core_ok idle k'" "pend_ok k' = pend_ok k"
proof -
  obtain A c p y r where eq: "k' = k\<lparr>lists := A, pxCurrentTCB := c, uxTopReadyPriority := p, xYieldPending := y, yield_requested := r\<rparr>"
    using assms(2) unfolding switched_def by blast
  show "core_ok idle k'" using assms switched_same(2,5) [OF assms(2)] by (simp add: core_ok_def switched_def eq)
  show "pend_ok k' = pend_ok k" using assms(2) by (simp add: pend_ok_def switched_def eq)
qed

lemma pend_ok_ticked:
  assumes "pend_ok k" "ticked k k'" shows "pend_ok k'"
proof -
  have k': "k_in k' = ticked_place k" "uxSchedulerSuspended k' = uxSchedulerSuspended k" "uxPendedTicks k' = uxPendedTicks k"
    using assms(2) by (simp_all add: ticked_def)
  show ?thesis using assms(1) by (auto simp: pend_ok_def k')
qed

lemma tick_suspended:
  "uxSchedulerSuspended k \<noteq> 0 \<Longrightarrow> xTaskIncrementTick k = Some (xYieldPending k, k\<lparr>uxPendedTicks := uxPendedTicks k + 1\<rparr>)"
  by (simp add: xTaskIncrementTick_def)

lemma sysTick_ok: assumes "sched_ok idle k" shows "\<exists>k'. xPortSysTickHandle k = Some k' \<and> sched_ok idle k'"
proof -
  have core: "core_ok idle k" "pend_ok k" using assms by (simp_all add: sched_ok_def)
  obtain s k1 where k1: "xTaskIncrementTick k = Some (s, k1)" "core_ok idle k1" "pend_ok k1"
  proof (cases "uxSchedulerSuspended k = 0")
    case True
    then show ?thesis using that tick_ok [OF core_okD(1) [OF core(1)] True] core_ticked [OF core(1)] pend_ok_ticked [OF core(2)] by blast
  next
    case False
    then show ?thesis using that core(1) by (simp add: tick_suspended pend_ok_def)
  qed
  show ?thesis
  proof (cases s)
    case True
    obtain k' where "vTaskSwitchContext k1 = Some k'" "switched k1 k'" using switch_ok [OF core_okD(1,7) [OF k1(2)]] by blast
    then show ?thesis using True k1 core_switched [OF k1(2)] by (simp add: xPortSysTickHandle_def sched_ok_def)
  next
    case False
    then show ?thesis using k1 by (simp add: xPortSysTickHandle_def sched_ok_def)
  qed
qed

lemma SoftIsr_ok: assumes "sched_ok idle k" shows "\<exists>k'. SoftIsrHdl k = Some k' \<and> sched_ok idle k'"
proof -
  have core: "core_ok idle k" "pend_ok k" using assms by (simp_all add: sched_ok_def)
  obtain k' where "SoftIsrHdl k = Some k'" "switched k k'" using soft_isr_ok [OF core_okD(1,7) [OF core(1)]] by blast
  then show ?thesis using core_switched [OF core(1)] core(2) by (simp add: sched_ok_def)
qed

section \<open>Suspending and resuming the scheduler\<close>

lemma SuspendAll_ok: "sched_ok idle k \<Longrightarrow> sched_ok idle (vTaskSuspendAll k)"
  by (simp add: sched_ok_def vTaskSuspendAll_def pend_ok_def)

lemma event_head:
  assumes "kernel_wf k" "\<not> state_list l" "k_list k l \<noteq> []"
  obtains t where "k_head l k = Some t" "k_in k (xEventListItem t) = Some l" "k_in k (xStateListItem t) \<noteq> None" "hd (k_list k l) = xEventListItem t"
proof -
  obtain i xs where i: "k_list k l = i # xs" using assms(3) by (cases "k_list k l") auto
  then have "k_in k i = Some l" using lists_wf_in [OF kernel_wfD(1) [OF assms(1)], of i l] by simp
  moreover from this obtain t where "i = xEventListItem t" using items_okD(1) [OF kernel_wfD(2) [OF assms(1)]] assms(2) by (cases i) auto
  ultimately show ?thesis using that i items_okD(4) [OF kernel_wfD(2) [OF assms(1)], of t l] by (simp add: k_head_def l_head_def)
qed

lemma event_alive: "event_ok (k_in k) \<Longrightarrow> k_in k (xEventListItem t) \<noteq> None \<Longrightarrow> alive k t"
  by (auto simp: event_ok_def)

text \<open>The lists of tasks that wait for an event are the same.\<close>

definition kept_events :: "kernel \<Rightarrow> kernel \<Rightarrow> bool" where
  "kept_events k k' \<longleftrightarrow> (\<forall>l. \<not> state_list l \<longrightarrow> l \<noteq> xPendingReadyList \<longrightarrow> k_list k' l = k_list k l)"

definition resumed :: "task \<Rightarrow> kernel \<Rightarrow> kernel \<Rightarrow> bool" where
  "resumed idle k k' \<longleftrightarrow> core_ok idle k' \<and> k_list k' xPendingReadyList = [] \<and> kept_events k k' \<and>
     (\<forall>u. is_ready k u \<or> xEventListItem u \<in> set (k_list k xPendingReadyList) \<longrightarrow> is_ready k' u) \<and>
     k' = k\<lparr>lists := lists k', uxTopReadyPriority := uxTopReadyPriority k', xYieldPending := xYieldPending k'\<rparr>"

text \<open>One round of the loop of \<open>xTaskResumeAll\<close>.\<close>

lemma resume_step:
  assumes "core_ok idle k" "k_list k xPendingReadyList \<noteq> []"
  shows "\<exists>k'. resume_loop any k = resume_loop True k' \<and> core_ok idle k' \<and> k_list k' xPendingReadyList = tl (k_list k xPendingReadyList) \<and>
    kept_events k k' \<and> (\<forall>u. is_ready k u \<or> xEventListItem u = hd (k_list k xPendingReadyList) \<longrightarrow> is_ready k' u) \<and>
    k' = k\<lparr>lists := lists k', uxTopReadyPriority := uxTopReadyPriority k', xYieldPending := xYieldPending k'\<rparr>"
proof -
  note c = core_okD [OF assms(1)]
  obtain t where t: "k_head xPendingReadyList k = Some t" "k_in k (xEventListItem t) = Some xPendingReadyList" "k_in k (xStateListItem t) \<noteq> None"
    "hd (k_list k xPendingReadyList) = xEventListItem t" using event_head [OF c(2) _ assms(2)] by auto
  obtain A where A: "k_remove (xEventListItem t) k = Some (k\<lparr>lists := A\<rparr>)" "L_ok A" "container A = (k_in k)(xEventListItem t := None)"
    "item_value A = k_value k" "\<And>l. entries A l = remove1 (xEventListItem t) (k_list k l)" using L_ok_remove [OF c(3), of "xEventListItem t"] t(2) by auto
  obtain B where B: "k_remove (xStateListItem t) (k\<lparr>lists := A\<rparr>) = Some (k\<lparr>lists := B\<rparr>)" "L_ok B" "container B = (container A)(xStateListItem t := None)"
    "item_value B = item_value A" "\<And>l. entries B l = remove1 (xStateListItem t) (entries A l)"
    using L_ok_remove [of "k\<lparr>lists := A\<rparr>" "xStateListItem t"] t(3) A(2,3) by auto
  obtain cur where cur: "pxCurrentTCB k = Some cur" using core_current [OF assms(1)] by blast
  define k3 where "k3 = prvAddTaskToReadyList t (k\<lparr>lists := B\<rparr>)"
  define k4 where "k4 = (if prio k3 t \<ge> prio k3 cur then k3\<lparr>xYieldPending := True\<rparr> else k3)"
  have "core_ok idle k3" unfolding k3_def
    using core_add_ready [OF assms(1) event_alive [OF c(5)] B(2), where t = t and T = "tcb k" and ss = "uxSchedulerSuspended k" and y = "xYieldPending k" and r = "yield_requested k"]
      t(2) A(3,4) B(3,4) by simp
  then have "core_ok idle k4" by (simp add: k4_def)
  moreover have "resume_loop any k = resume_loop True k4"
    using t(1) A(1) B(1) cur by (subst resume_loop.simps) (simp add: k3_def k4_def Let_def)
  moreover have "k_list k4 xPendingReadyList = tl (k_list k xPendingReadyList)"
  proof -
    obtain xs where xs: "k_list k xPendingReadyList = xEventListItem t # xs" using assms(2) t(4) by (cases "k_list k xPendingReadyList") auto
    have "xStateListItem t \<notin> set (entries A xPendingReadyList)"
      using A(2,3) items_okD(1) [OF c(4), of t] by (auto simp: L_ok_def lists_wf_in)
    then show ?thesis using xs by (simp add: k4_def k3_def klist_simps B(5) remove1_idem A(5))
  qed
  moreover have "kept_events k k4" unfolding kept_events_def
  proof (intro allI impI)
    fix l assume l: "\<not> state_list l" "l \<noteq> xPendingReadyList"
    have "xEventListItem t \<notin> set (k_list k l)" "xStateListItem t \<notin> set (k_list k l)"
      using lists_wf_in [OF kernel_wfD(1) [OF c(2)]] t(2) l items_okD(1) [OF c(4), of t] by auto
    moreover have "l \<noteq> pxReadyTasksLists p" for p using l(1) by auto
    ultimately show "k_list k4 l = k_list k l" by (auto simp: k4_def k3_def klist_simps B(5) remove1_idem A(5))
  qed
  moreover have "is_ready k4 u" if "is_ready k u \<or> xEventListItem u = hd (k_list k xPendingReadyList)" for u
    using that t(4) by (auto simp: is_ready_def k4_def k3_def klist_simps B(3) A(3))
  moreover have "k4 = k\<lparr>lists := lists k4, uxTopReadyPriority := uxTopReadyPriority k4, xYieldPending := xYieldPending k4\<rparr>"
    by (simp add: k4_def k3_def prvAddTaskToReadyList_def k_insert_end_def taskRECORD_READY_PRIORITY_def)
  ultimately show ?thesis by blast
qed

lemma resume_loop_ok:
  assumes "core_ok idle k"
  shows "\<exists>b k'. resume_loop any k = Some (b, k') \<and> resumed idle k k'"
  using assms
proof (induction "length (k_list k xPendingReadyList)" arbitrary: any k rule: less_induct)
  case less
  show ?case
  proof (cases "k_list k xPendingReadyList = []")
    case True
    then show ?thesis using less.prems by (subst resume_loop.simps) (simp add: k_head_def l_head_def resumed_def kept_events_def)
  next
    case False
    obtain k4 where k4: "resume_loop any k = resume_loop True k4" "core_ok idle k4" "k_list k4 xPendingReadyList = tl (k_list k xPendingReadyList)"
      "kept_events k k4" "\<forall>u. is_ready k u \<or> xEventListItem u = hd (k_list k xPendingReadyList) \<longrightarrow> is_ready k4 u"
      "k4 = k\<lparr>lists := lists k4, uxTopReadyPriority := uxTopReadyPriority k4, xYieldPending := xYieldPending k4\<rparr>"
      using resume_step [OF less.prems False, of any] by blast
    obtain b k' where k': "resume_loop True k4 = Some (b, k')" "resumed idle k4 k'"
      using less.hyps [OF _ k4(2), of True] k4(3) False by auto
    moreover have "resumed idle k k'"
    proof -
      obtain D p y where eq: "k' = k4\<lparr>lists := D, uxTopReadyPriority := p, xYieldPending := y\<rparr>" using k'(2) unfolding resumed_def by blast
      obtain D' p' y' where "k4 = k\<lparr>lists := D', uxTopReadyPriority := p', xYieldPending := y'\<rparr>" using k4(6) by blast
      then have "k' = k\<lparr>lists := lists k', uxTopReadyPriority := uxTopReadyPriority k', xYieldPending := xYieldPending k'\<rparr>" by (simp add: eq)
      moreover have "is_ready k' u" if "is_ready k u \<or> xEventListItem u \<in> set (k_list k xPendingReadyList)" for u
        using that k'(2) k4(3,5) False by (cases "k_list k xPendingReadyList") (auto simp: resumed_def)
      moreover have "kept_events k k'" using k'(2) k4(4) by (simp add: resumed_def kept_events_def)
      ultimately show ?thesis using k'(2) by (simp add: resumed_def)
    qed
    ultimately show ?thesis using k4(1) by auto
  qed
qed

lemma pended_ticks_ok:
  assumes "core_ok idle k" "uxSchedulerSuspended k = 0"
  shows "\<exists>k'. pended_ticks n k = Some k' \<and> core_ok idle k' \<and> uxSchedulerSuspended k' = 0 \<and>
    ((\<forall>t. k_in k (xEventListItem t) \<noteq> Some l) \<longrightarrow> (\<forall>t. k_in k' (xEventListItem t) \<noteq> Some l))"
  using assms
proof (induction n arbitrary: k)
  case 0
  then show ?case by simp
next
  case (Suc n)
  obtain s k1 where k1: "xTaskIncrementTick k = Some (s, k1)" "ticked k k1" using tick_ok [OF core_okD(1) [OF Suc.prems(1)] Suc.prems(2)] by blast
  let ?k = "if s then k1\<lparr>xYieldPending := True\<rparr> else k1"
  have f: "uxSchedulerSuspended k1 = uxSchedulerSuspended k" "k_in k1 = ticked_place k" using k1(2) by (simp_all add: ticked_def)
  have "core_ok idle ?k" "uxSchedulerSuspended ?k = 0" using core_ticked [OF Suc.prems(1) k1(2)] f(1) Suc.prems(2) by simp_all
  from Suc.IH [OF this] show ?case using k1(1) f(2) by (auto split: if_splits)
qed

lemma ResumeAll_ok:
  assumes "sched_ok idle k" "uxSchedulerSuspended k > 0"
  shows "\<exists>y k'. xTaskResumeAll k = Some (y, k') \<and> sched_ok idle k'"
proof (cases "uxSchedulerSuspended k = 1")
  case True
  have core: "core_ok idle k" using assms by (simp add: sched_ok_def)
  let ?k = "k\<lparr>uxSchedulerSuspended := 0\<rparr>"
  have "uxCurrentNumberOfTasks k > 0"
    using core_okD(6,7) [OF core] by (auto simp: counts_ok_def is_ready_def card_gt_0_iff)
  obtain b k1 where k1: "resume_loop False ?k = Some (b, k1)" "resumed idle ?k k1" using resume_loop_ok [of idle ?k False] core by auto
  have sus: "uxSchedulerSuspended k1 = 0"
  proof -
    obtain D p y where "k1 = ?k\<lparr>lists := D, uxTopReadyPriority := p, xYieldPending := y\<rparr>" using k1(2) unfolding resumed_def by blast
    then show ?thesis by simp
  qed
  define k2 where "k2 = (if b then prvResetNextTaskUnblockTime k1 else k1)"
  have k2: "core_ok idle k2" "uxSchedulerSuspended k2 = 0" "k_list k2 xPendingReadyList = []"
    using k1(2) sus core_ok_reset by (auto simp: k2_def resumed_def reset_next_eq)
  have empty: "k_in k2 (xEventListItem t) \<noteq> Some xPendingReadyList" for t
    using k2(3) list_empty_iff [OF kernel_wfD(1) [OF core_okD(2) [OF k2(1)]]] by blast
  obtain k3 where k3: "(if uxPendedTicks k2 > 0 then map_option (\<lambda>k. k\<lparr>uxPendedTicks := 0\<rparr>) (pended_ticks (uxPendedTicks k2) k2) else Some k2) = Some k3"
    "core_ok idle k3" "uxPendedTicks k3 = 0" "\<forall>t. k_in k3 (xEventListItem t) \<noteq> Some xPendingReadyList"
    using pended_ticks_ok [OF k2(1,2), of "uxPendedTicks k2" xPendingReadyList] empty k2(1) by (cases "uxPendedTicks k2 > 0") auto
  have "xTaskResumeAll k = Some (xYieldPending k3, if xYieldPending k3 then portYIELD k3 else k3)"
    using True \<open>uxCurrentNumberOfTasks k > 0\<close> k3(1)
    by (cases "uxPendedTicks k2 > 0") (auto simp: xTaskResumeAll_def Let_def k1(1) k2_def [symmetric])
  moreover have "pend_ok k3" using k3(3,4) by (simp add: pend_ok_def)
  ultimately show ?thesis using k3(2) by (simp add: sched_ok_def)
next
  case False
  then show ?thesis using assms by (auto simp: xTaskResumeAll_def sched_ok_def pend_ok_def Let_def)
qed

section \<open>Blocking\<close>

text \<open>The running task, ready and not the idle task, may block.\<close>

definition may_block :: "task \<Rightarrow> kernel \<Rightarrow> task \<Rightarrow> bool" where
  "may_block idle k t \<longleftrightarrow> pxCurrentTCB k = Some t \<and> is_ready k t \<and> t \<noteq> idle"

lemma may_blockD:
  assumes "may_block idle k t" "event_ok (k_in k)"
  shows "alive k t" "k_in k (xEventListItem t) = None"
  using assms by (auto simp: may_block_def is_ready_def event_ok_def)

lemma add_delayed_ok:
  assumes inv: "tick_inv k" "counts_ok (k_in k) (uxCurrentNumberOfTasks k) (uxDeletedTasksWaitingCleanUp k)" "is_ready k idle"
    "event_ok ((k_in k)(xEventListItem t := None))" and t: "may_block idle k t" and n: "n \<noteq> 0"
  shows "\<exists>k'. prvAddCurrentTaskToDelayedList n ind k = Some k' \<and> core_ok idle k' \<and> pend_ok k' = pend_ok k \<and>
    uxSchedulerSuspended k' = uxSchedulerSuspended k"
proof -
  have cur: "pxCurrentTCB k = Some t" using t by (simp add: may_block_def)
  obtain A m l where A: "prvAddCurrentTaskToDelayedList n ind k = Some (k\<lparr>lists := A, xNextTaskUnblockTime := m\<rparr>)"
    "tick_inv (k\<lparr>lists := A, xNextTaskUnblockTime := m\<rparr>)" "container A = (k_in k)(xStateListItem t := Some l)" "l \<in> {xDelayedTaskList1, xDelayedTaskList2, xSuspendedTaskList}"
  proof (cases "n = portMAX_DELAY \<and> ind")
    case True
    obtain A where A: "prvAddCurrentTaskToDelayedList portMAX_DELAY True k = Some (k\<lparr>lists := A\<rparr>)" "tick_inv (k\<lparr>lists := A\<rparr>)"
      "container A = (k_in k)(xStateListItem t := Some xSuspendedTaskList)" using suspend_current_ok [OF inv(1) cur] by blast
    have "k\<lparr>lists := A\<rparr> = k\<lparr>lists := A, xNextTaskUnblockTime := xNextTaskUnblockTime k\<rparr>" by simp
    then show ?thesis using that [of "xNextTaskUnblockTime k" A xSuspendedTaskList] A True by simp
  next
    case False
    show ?thesis using delay_current_ok [OF inv(1) cur n False] that by blast
  qed
  let ?k = "k\<lparr>lists := A, xNextTaskUnblockTime := m\<rparr>"
  have "event_ok (k_in ?k)" using inv(4) A(3,4) by (auto simp: event_ok_def split: if_splits)
  moreover have "counts_ok (k_in ?k) (uxCurrentNumberOfTasks k) (uxDeletedTasksWaitingCleanUp k)"
    using t A(3,4) by (intro counts_ok_moved [OF inv(2)]) (auto simp: may_block_def is_ready_def)
  moreover have "is_ready ?k idle" using inv(3) t A(3) by (simp add: is_ready_def may_block_def)
  ultimately show ?thesis using A(1-3) by (simp add: core_ok_def pend_ok_def)
qed

lemma place_ok:
  assumes "sched_ok idle k" "may_block idle k t" "\<not> state_list l" "l \<noteq> xPendingReadyList" "n \<noteq> 0"
    and k1: "k1 = k\<lparr>lists := A\<rparr>" "L_ok A" "container A = (k_in k)(xEventListItem t := Some l)"
      "\<And>u. item_value A (xStateListItem u) = k_value k (xStateListItem u)"
  shows "\<exists>k'. prvAddCurrentTaskToDelayedList n ind k1 = Some k' \<and> sched_ok idle k'"
proof -
  have core: "core_ok idle k" "pend_ok k" using assms(1) by (simp_all add: sched_ok_def)
  note c = core_okD [OF core(1)] and t = may_blockD [OF assms(2) core_okD(5) [OF core(1)]]
  have items: "items_ok (k_in k1) (prio k1) (uxTopReadyPriority k1)"
    using items_okD [OF c(4)] assms(3) t unfolding items_ok_def by (auto simp: k1)
  have "tick_inv k1"
    by (rule tick_invI [OF c(1) _ items, of t]) (use assms(2) t k1 in \<open>simp_all add: may_block_def\<close>)
  moreover have "event_ok ((k_in k1)(xEventListItem t := None))" using c(5) t(2) k1 by (simp add: event_ok_def)
  moreover have "counts_ok (k_in k1) (uxCurrentNumberOfTasks k1) (uxDeletedTasksWaitingCleanUp k1)"
    using counts_ok_moved [OF c(6), of "k_in k1"] k1 by simp
  moreover have "is_ready k1 idle" "may_block idle k1 t" using c(7) assms(2) k1 by (simp_all add: is_ready_def may_block_def)
  moreover have "pend_ok k1" using core(2) assms(4) k1 by (simp add: pend_ok_def)
  ultimately show ?thesis using add_delayed_ok [of k1 idle t n ind] assms(5) by (auto simp: sched_ok_def)
qed

lemma may_block_L_ok:
  assumes "sched_ok idle k" "may_block idle k t"
  shows "L_ok (lists k)" "k_in k (xEventListItem t) = None" "pxCurrentTCB k = Some t"
  using assms core_okD(3,5) may_blockD by (auto simp: sched_ok_def may_block_def)

lemma event_list_not_delayed: "\<not> state_list l \<Longrightarrow> l \<notin> delayed_lists"
  by auto

lemma PlaceOnEventList_ok:
  assumes "sched_ok idle k" "may_block idle k t" "\<not> state_list l" "l \<noteq> xPendingReadyList" "n \<noteq> 0"
  shows "\<exists>k'. vTaskPlaceOnEventList l n k = Some k' \<and> sched_ok idle k'"
proof -
  note t = may_block_L_ok [OF assms(1,2)]
  have "L_ok (l_insert l (xEventListItem t) (lists k))" using L_ok_insert [OF t(1,2) event_list_not_delayed [OF assms(3)]] .
  then show ?thesis unfolding vTaskPlaceOnEventList_def
    using place_ok [OF assms, of "k_insert l (xEventListItem t) k"] t(3) by (simp add: k_insert_def klist_simps)
qed

lemma PlaceOnUnorderedEventList_ok:
  assumes "sched_ok idle k" "may_block idle k t" "\<not> state_list l" "l \<noteq> xPendingReadyList" "n \<noteq> 0"
  shows "\<exists>k'. vTaskPlaceOnUnorderedEventList l v n k = Some k' \<and> sched_ok idle k'"
proof -
  note t = may_block_L_ok [OF assms(1,2)]
  have "L_ok (l_insert_end l (xEventListItem t) (l_set_value (xEventListItem t) w (lists k)))" for w
    using t(2) by (intro L_ok_insert_end L_ok_event_value t(1) event_list_not_delayed assms(3)) (simp add: klist_simps)
  then show ?thesis unfolding vTaskPlaceOnUnorderedEventList_def
    using place_ok [OF assms, of "k_insert_end l (xEventListItem t) (k_set_value (xEventListItem t) (v OR taskEVENT_LIST_ITEM_VALUE_IN_USE) k)"] t(3)
    by (simp add: k_insert_end_def k_set_value_def klist_simps)
qed

lemma PlaceOnEventListRestricted_ok:
  assumes "sched_ok idle k" "may_block idle k t" "\<not> state_list l" "l \<noteq> xPendingReadyList" "n \<noteq> 0"
  shows "\<exists>k'. vTaskPlaceOnEventListRestricted l n b k = Some k' \<and> sched_ok idle k'"
proof -
  note t = may_block_L_ok [OF assms(1,2)]
  have "(if b then portMAX_DELAY else n) \<noteq> 0" using assms(5) by (simp add: portMAX_DELAY_def)
  moreover have "L_ok (l_insert_end l (xEventListItem t) (lists k))" using L_ok_insert_end [OF t(1,2) event_list_not_delayed [OF assms(3)]] .
  ultimately show ?thesis unfolding vTaskPlaceOnEventListRestricted_def
    using place_ok [OF assms(1-4), of "if b then portMAX_DELAY else n" "k_insert_end l (xEventListItem t) k"] t(3)
    by (simp add: k_insert_end_def klist_simps)
qed

lemma delay_tail_ok:
  assumes "sched_ok idle k" "may_block idle k t" "n \<noteq> 0"
  shows "\<exists>k'. Option.bind (prvAddCurrentTaskToDelayedList n False (vTaskSuspendAll k)) resume_and_yield = Some k' \<and> sched_ok idle k'"
proof -
  let ?k = "vTaskSuspendAll k"
  have core: "core_ok idle ?k" "may_block idle ?k t" using assms(1,2) by (simp_all add: sched_ok_def vTaskSuspendAll_def may_block_def is_ready_def)
  note c = core_okD [OF core(1)]
  have "event_ok ((k_in ?k)(xEventListItem t := None))" using c(5) by (simp add: event_ok_def)
  from add_delayed_ok [OF c(1,6,7) this core(2) assms(3), of False] obtain k1 where
    k1: "prvAddCurrentTaskToDelayedList n False ?k = Some k1" "core_ok idle k1" "uxSchedulerSuspended k1 > 0"
    by (auto simp: vTaskSuspendAll_def)
  then have "sched_ok idle k1" by (simp add: sched_ok_def pend_ok_def)
  then obtain y k2 where "xTaskResumeAll k1 = Some (y, k2)" "sched_ok idle k2" using ResumeAll_ok k1(3) by blast
  then show ?thesis using k1(1) by (auto simp: resume_and_yield_def sched_ok_def)
qed

lemma Delay_ok:
  assumes "sched_ok idle k" "may_block idle k t"
  shows "\<exists>k'. vTaskDelay n k = Some k' \<and> sched_ok idle k'"
  using delay_tail_ok [OF assms, of n] assms(1) by (auto simp: vTaskDelay_def sched_ok_def word_neq_0_conv)

lemma DelayUntil_ok:
  assumes "sched_ok idle k" "may_block idle k t"
  shows "\<exists>w k'. vTaskDelayUntil p i k = Some (w, k') \<and> sched_ok idle k'"
proof -
  let ?now = "xTickCount k" and ?wake = "p + i"
  define delay where "delay = (if ?now < p then ?wake < p \<and> ?wake > ?now else ?wake < p \<or> ?wake > ?now)"
  have eq: "vTaskDelayUntil p i k = map_option (\<lambda>k. (?wake, k)) (Option.bind
    (if delay then prvAddCurrentTaskToDelayedList (?wake - ?now) False (vTaskSuspendAll k) else Some (vTaskSuspendAll k)) resume_and_yield)"
    unfolding vTaskDelayUntil_def delay_def Let_def by (simp add: vTaskSuspendAll_def map_conv_bind_option bind_assoc comp_def)
  show ?thesis
  proof (cases delay)
    case True
    then have "?wake - ?now \<noteq> 0" by (auto simp: delay_def split: if_splits)
    from delay_tail_ok [OF assms this] show ?thesis using True by (auto simp: eq)
  next
    case False
    have "sched_ok idle (vTaskSuspendAll k)" "uxSchedulerSuspended (vTaskSuspendAll k) > 0"
      using SuspendAll_ok [OF assms(1)] by (simp_all add: vTaskSuspendAll_def)
    from ResumeAll_ok [OF this] show ?thesis using False by (auto simp: eq resume_and_yield_def sched_ok_def)
  qed
qed

section \<open>Waking\<close>

lemma core_event_moved:
  assumes "core_ok idle k" "k_in k (xStateListItem t) \<in> Some ` {xDelayedTaskList1, xDelayedTaskList2, xSuspendedTaskList}"
    "L_ok A" "container A = (k_in k)(xEventListItem t := Some l)"
    "\<And>u. item_value A (xStateListItem u) = k_value k (xStateListItem u)" "\<not> state_list l"
  shows "core_ok idle (k\<lparr>lists := A\<rparr>)"
proof -
  note c = core_okD [OF assms(1)]
  let ?k = "k\<lparr>lists := A\<rparr>"
  obtain cur where cur: "pxCurrentTCB k = Some cur" "k_in k (xStateListItem cur) \<noteq> None" using core_current [OF assms(1)] by blast
  have items: "items_ok (k_in ?k) (prio ?k) (uxTopReadyPriority ?k)"
    using items_okD [OF c(4)] assms(2,6) unfolding items_ok_def by (auto simp: assms(4))
  have "tick_inv ?k" by (rule tick_invI [OF c(1) _ items, of cur]) (use assms(3-5) cur in simp_all)
  moreover have "event_ok (k_in ?k)" using c(5) assms(2) by (simp add: event_ok_def assms(4))
  moreover have "counts_ok (k_in ?k) (uxCurrentNumberOfTasks k) (uxDeletedTasksWaitingCleanUp k)"
    by (rule counts_ok_moved [OF c(6)]) (simp_all add: assms(4))
  ultimately show ?thesis using c(7) by (simp add: core_ok_def is_ready_def assms(4))
qed

text \<open>Taking both items of a blocked task out of their lists and making it ready.\<close>

lemma both_removed_ready:
  assumes "core_ok idle k" "L_ok A" "container A = (k_in k)(xEventListItem t := None)" "alive k t"
    "\<And>u. item_value A (xStateListItem u) = k_value k (xStateListItem u)"
  obtains k' where "map_option (prvAddTaskToReadyList t) (k_remove (xStateListItem t) (k\<lparr>lists := A\<rparr>)) = Some k'" "core_ok idle k'"
    "tcb k' = tcb k" "pxCurrentTCB k' = pxCurrentTCB k" "pend_ok k \<Longrightarrow> pend_ok k'" "uxSchedulerSuspended k' = uxSchedulerSuspended k"
proof -
  obtain B where B: "k_remove (xStateListItem t) (k\<lparr>lists := A\<rparr>) = Some (k\<lparr>lists := B\<rparr>)" "L_ok B" "container B = (container A)(xStateListItem t := None)"
    "item_value B = item_value A" using L_ok_remove [of "k\<lparr>lists := A\<rparr>" "xStateListItem t"] assms(2-4) by auto
  let ?k = "prvAddTaskToReadyList t (k\<lparr>lists := B\<rparr>)"
  have "core_ok idle ?k"
    using core_add_ready [OF assms(1,4) B(2), where T = "tcb k" and ss = "uxSchedulerSuspended k" and y = "xYieldPending k" and r = "yield_requested k"]
      assms(3,5) B(3,4) by simp
  moreover have "pend_ok k \<Longrightarrow> pend_ok ?k" by (auto simp: pend_ok_def klist_simps B(3) assms(3))
  ultimately show ?thesis using that [of ?k] B(1) by simp
qed

lemma RemoveFromEventList_ok:
  assumes "sched_ok idle k" "\<not> state_list l" "k_list k l \<noteq> []"
  shows "\<exists>b k'. xTaskRemoveFromEventList l k = Some (b, k') \<and> sched_ok idle k'"
proof -
  have core: "core_ok idle k" "pend_ok k" using assms(1) by (simp_all add: sched_ok_def)
  note c = core_okD [OF core(1)]
  obtain t where t: "k_head l k = Some t" "k_in k (xEventListItem t) = Some l" using event_head [OF c(2) assms(2,3)] by blast
  obtain cur where cur: "pxCurrentTCB k = Some cur" using core_current [OF core(1)] by blast
  obtain A where A: "k_remove (xEventListItem t) k = Some (k\<lparr>lists := A\<rparr>)" "L_ok A" "container A = (k_in k)(xEventListItem t := None)" "item_value A = k_value k"
    using L_ok_remove [OF c(3), of "xEventListItem t"] t(2) by auto
  obtain k2 where k2: "(if uxSchedulerSuspended k = 0 then map_option (prvAddTaskToReadyList t) (k_remove (xStateListItem t) (k\<lparr>lists := A\<rparr>))
      else Some (k_insert_end xPendingReadyList (xEventListItem t) (k\<lparr>lists := A\<rparr>))) = Some k2" "core_ok idle k2" "pend_ok k2" "pxCurrentTCB k2 = pxCurrentTCB k"
  proof (cases "uxSchedulerSuspended k = 0")
    case True
    show ?thesis using both_removed_ready [OF core(1) A(2,3) event_alive [OF c(5)]] that core(2) t(2) A(4) True by (metis option.distinct(1))
  next
    case False
    let ?A = "l_insert_end xPendingReadyList (xEventListItem t) A"
    have "core_ok idle (k\<lparr>lists := ?A\<rparr>)"
      using A L_ok_insert_end [OF A(2)] t(2) c(5) by (intro core_event_moved [OF core(1), of t _ xPendingReadyList]) (simp_all add: klist_simps event_ok_def)
    then show ?thesis using that False by (simp add: k_insert_end_def pend_ok_def)
  qed
  have "xTaskRemoveFromEventList l k = Some (prio k2 t > prio k2 cur,
    prvResetNextTaskUnblockTime (if prio k2 t > prio k2 cur then k2\<lparr>xYieldPending := True\<rparr> else k2))"
    using t(1) A(1) k2(1,4) cur by (cases "uxSchedulerSuspended k = 0") (auto simp: xTaskRemoveFromEventList_def)
  then show ?thesis using k2(2,3) core_ok_reset by (auto simp: sched_ok_def)
qed

lemma RemoveFromUnorderedEventList_ok:
  assumes "sched_ok idle k" "k_in k (xEventListItem t) \<noteq> None"
  shows "\<exists>k'. vTaskRemoveFromUnorderedEventList (xEventListItem t) v k = Some k' \<and> sched_ok idle k'"
proof -
  have core: "core_ok idle k" "pend_ok k" using assms(1) by (simp_all add: sched_ok_def)
  note c = core_okD [OF core(1)]
  obtain cur where cur: "pxCurrentTCB k = Some cur" using core_current [OF core(1)] by blast
  let ?k = "k_set_value (xEventListItem t) (v OR taskEVENT_LIST_ITEM_VALUE_IN_USE) k"
  have "L_ok (lists ?k)" "k_in ?k (xEventListItem t) \<noteq> None" using L_ok_event_value [OF c(3)] assms(2) by (simp_all add: k_set_value_def klist_simps)
  then obtain A where A: "k_remove (xEventListItem t) ?k = Some (?k\<lparr>lists := A\<rparr>)" "L_ok A" "container A = (k_in ?k)(xEventListItem t := None)" "item_value A = k_value ?k"
    by (rule L_ok_remove) auto
  have A': "container A = (k_in k)(xEventListItem t := None)" "\<And>u. item_value A (xStateListItem u) = k_value k (xStateListItem u)"
    using A(3,4) by (simp_all add: k_set_value_def klist_simps)
  obtain k2 where "map_option (prvAddTaskToReadyList t) (k_remove (xStateListItem t) (k\<lparr>lists := A\<rparr>)) = Some k2" "core_ok idle k2" "pend_ok k2" "pxCurrentTCB k2 = pxCurrentTCB k"
    using both_removed_ready [OF core(1) A(2) A'(1) event_alive [OF c(5) assms(2)] A'(2)] core(2) by blast
  then show ?thesis using A(1) cur by (auto simp: vTaskRemoveFromUnorderedEventList_def sched_ok_def k_set_value_def)
qed

section \<open>Suspending, resuming, creating and deleting tasks\<close>

lemma reset_next_fields [simp]:
  "pxCurrentTCB (prvResetNextTaskUnblockTime k) = pxCurrentTCB k" "xSchedulerRunning (prvResetNextTaskUnblockTime k) = xSchedulerRunning k"
  by (simp_all add: reset_next_eq)

lemma core_ok_tcb:
  assumes "\<And>u. uxPriority (T u) = prio k u"
  shows "core_ok idle (k\<lparr>tcb := T\<rparr>) = core_ok idle k"
  using assms by (simp add: core_ok_def tick_inv_def kernel_wf_def delayed_ok_def overflow_ok_def is_ready_def)

lemma removed_both:
  assumes "core_ok idle k" "k_in k (xStateListItem t) \<noteq> None"
  obtains A B where "k_remove (xStateListItem t) k = Some (k\<lparr>lists := A\<rparr>)" "k_remove_if_listed (xEventListItem t) (k\<lparr>lists := A\<rparr>) = Some (k\<lparr>lists := B\<rparr>)"
    "L_ok B" "container B = (k_in k)(xEventListItem t := None, xStateListItem t := None)" "item_value B = k_value k"
proof -
  obtain A where A: "k_remove (xStateListItem t) k = Some (k\<lparr>lists := A\<rparr>)" "L_ok A" "container A = (k_in k)(xStateListItem t := None)" "item_value A = k_value k"
    by (rule L_ok_remove [OF core_okD(3) [OF assms(1)] assms(2)])
  obtain B where B: "k_remove_if_listed (xEventListItem t) (k\<lparr>lists := A\<rparr>) = Some (k\<lparr>lists := B\<rparr>)" "L_ok B"
    "container B = (container A)(xEventListItem t := None)" "item_value B = item_value A"
    using L_ok_remove_if_listed [of "k\<lparr>lists := A\<rparr>" "xEventListItem t"] A(2) by auto
  show ?thesis using that [OF A(1) B(1,2)] A(3,4) B(3,4) by (simp add: fun_upd_twist)
qed

lemma Suspend_ok:
  assumes "sched_ok idle k" "prvGetTCBFromHandle h k = Some t" "alive k t" "t \<noteq> idle" "xSchedulerRunning k"
  shows "\<exists>k'. vTaskSuspend h k = Some k' \<and> sched_ok idle k'"
proof -
  have core: "core_ok idle k" "pend_ok k" using assms(1) by (simp_all add: sched_ok_def)
  note c = core_okD [OF core(1)]
  obtain A B where AB: "k_remove (xStateListItem t) k = Some (k\<lparr>lists := A\<rparr>)" "k_remove_if_listed (xEventListItem t) (k\<lparr>lists := A\<rparr>) = Some (k\<lparr>lists := B\<rparr>)"
    "L_ok B" "container B = (k_in k)(xEventListItem t := None, xStateListItem t := None)" "item_value B = k_value k"
    using removed_both [OF core(1)] assms(3) by blast
  define C where "C = l_insert_end xSuspendedTaskList (xStateListItem t) B"
  have C: "L_ok C" "container C = (k_in k)(xStateListItem t := Some xSuspendedTaskList, xEventListItem t := None)" "item_value C = k_value k"
    using AB(3-5) L_ok_insert_end [OF AB(3)] by (auto simp: C_def klist_simps)
  have core': "core_ok idle (k\<lparr>lists := C\<rparr>)"
    using core_move [OF core(1) assms(3,4) C(1,2) refl, of "uxDeletedTasksWaitingCleanUp k"] C(3) by simp
  define T where "T = (if ucNotifyState (tcb k t) = taskWAITING_NOTIFICATION
    then (tcb k)(t := (tcb k t)\<lparr>ucNotifyState := taskNOT_WAITING_NOTIFICATION\<rparr>) else tcb k)"
  have T: "uxPriority (T u) = prio (k\<lparr>lists := C\<rparr>) u" for u by (simp add: T_def)
  have "core_ok idle (k\<lparr>lists := C, tcb := T\<rparr>)" using core_ok_tcb [OF T, of idle] core' by (simp only:)
  moreover have "pend_ok (k\<lparr>lists := C, tcb := T\<rparr>)" using core(2) by (simp add: pend_ok_def C(2))
  moreover have "vTaskSuspend h k = Some (let k' = prvResetNextTaskUnblockTime (k\<lparr>lists := C, tcb := T\<rparr>) in if pxCurrentTCB k = Some t then portYIELD k' else k')"
    using assms(2,5) AB(1,2)
    by (cases "ucNotifyState (tcb k t) = taskWAITING_NOTIFICATION")
      (simp_all add: vTaskSuspend_def k_insert_end_def C_def [symmetric] upd_tcb_def T_def Let_def)
  ultimately show ?thesis using core_ok_reset by (simp add: sched_ok_def Let_def)
qed

lemma task_suspendedD: "prvTaskIsTaskSuspended t k \<Longrightarrow> k_in k (xStateListItem t) = Some xSuspendedTaskList \<and> k_in k (xEventListItem t) = None"
  by (simp add: prvTaskIsTaskSuspended_def)

lemma suspended_ready:
  assumes "core_ok idle k" "prvTaskIsTaskSuspended t k"
  obtains k' where "map_option (prvAddTaskToReadyList t) (k_remove (xStateListItem t) k) = Some k'" "core_ok idle k'"
    "tcb k' = tcb k" "pxCurrentTCB k' = pxCurrentTCB k" "pend_ok k \<Longrightarrow> pend_ok k'"
proof -
  have "k_in k = (k_in k)(xEventListItem t := None)" "alive k t" using task_suspendedD [OF assms(2)] by auto
  then obtain k' where "map_option (prvAddTaskToReadyList t) (k_remove (xStateListItem t) (k\<lparr>lists := lists k\<rparr>)) = Some k'" "core_ok idle k'"
    "tcb k' = tcb k" "pxCurrentTCB k' = pxCurrentTCB k" "pend_ok k \<Longrightarrow> pend_ok k'"
    using both_removed_ready [OF assms(1) core_okD(3) [OF assms(1)]] by blast
  then show ?thesis using that by simp
qed

lemma Resume_ok: assumes "sched_ok idle k" shows "\<exists>k'. vTaskResume h k = Some k' \<and> sched_ok idle k'"
proof -
  have core: "core_ok idle k" "pend_ok k" using assms(1) by (simp_all add: sched_ok_def)
  show ?thesis
  proof (cases "\<exists>t. h = Some t \<and> pxCurrentTCB k \<noteq> Some t \<and> prvTaskIsTaskSuspended t k")
    case True
    then obtain t where t: "h = Some t" "pxCurrentTCB k \<noteq> Some t" "prvTaskIsTaskSuspended t k" by blast
    obtain cur where cur: "pxCurrentTCB k = Some cur" using core_current [OF core(1)] by blast
    obtain k' where k': "map_option (prvAddTaskToReadyList t) (k_remove (xStateListItem t) k) = Some k'" "core_ok idle k'" "pxCurrentTCB k' = pxCurrentTCB k" "pend_ok k'"
      using suspended_ready [OF core(1) t(3)] core(2) by blast
    then have "vTaskResume h k = Some (if prio k' t \<ge> prio k' cur then portYIELD k' else k')"
      using t cur by (auto simp: vTaskResume_def)
    then show ?thesis using k'(2,4) by (simp add: sched_ok_def)
  next
    case False
    then have "vTaskResume h k = Some k" by (auto simp: vTaskResume_def split: option.split)
    then show ?thesis using assms by simp
  qed
qed

lemma ResumeFromISR_ok: assumes "sched_ok idle k" shows "\<exists>b k'. xTaskResumeFromISR t k = Some (b, k') \<and> sched_ok idle k'"
proof (cases "prvTaskIsTaskSuspended t k")
  case True
  have core: "core_ok idle k" "pend_ok k" using assms(1) by (simp_all add: sched_ok_def)
  obtain cur where cur: "pxCurrentTCB k = Some cur" using core_current [OF core(1)] by blast
  show ?thesis
  proof (cases "uxSchedulerSuspended k = 0")
    case run: True
    obtain k' where "map_option (prvAddTaskToReadyList t) (k_remove (xStateListItem t) k) = Some k'" "core_ok idle k'" "pend_ok k'"
      using suspended_ready [OF core(1) True] core(2) by blast
    then show ?thesis using True run cur by (auto simp: xTaskResumeFromISR_def sched_ok_def)
  next
    case False
    let ?A = "l_insert_end xPendingReadyList (xEventListItem t) (lists k)"
    have "core_ok idle (k\<lparr>lists := ?A\<rparr>)"
      using task_suspendedD [OF True] L_ok_insert_end [OF core_okD(3) [OF core(1)]]
      by (intro core_event_moved [OF core(1), of t _ xPendingReadyList]) (simp_all add: klist_simps)
    then show ?thesis using True False by (auto simp: xTaskResumeFromISR_def sched_ok_def k_insert_end_def pend_ok_def)
  qed
next
  case False
  then show ?thesis using assms by (auto simp: xTaskResumeFromISR_def)
qed

text \<open>A task that is neither running nor the idle task disappears.\<close>

lemma core_gone:
  assumes "core_ok idle k" "k_in k (xStateListItem t) \<noteq> None" "t \<noteq> idle" "pxCurrentTCB k \<noteq> Some t"
    "L_ok A" "container A = (k_in k)(xEventListItem t := None, xStateListItem t := None)" "item_value A = k_value k"
    and d: "d = uxDeletedTasksWaitingCleanUp k - (if k_in k (xStateListItem t) = Some xTasksWaitingTermination then 1 else 0)"
  shows "core_ok idle (k\<lparr>lists := A, uxCurrentNumberOfTasks := uxCurrentNumberOfTasks k - 1, uxDeletedTasksWaitingCleanUp := d\<rparr>)"
proof -
  note c = core_okD [OF assms(1)]
  let ?k = "k\<lparr>lists := A, uxCurrentNumberOfTasks := uxCurrentNumberOfTasks k - 1, uxDeletedTasksWaitingCleanUp := d\<rparr>"
  obtain cur where cur: "pxCurrentTCB k = Some cur" "k_in k (xStateListItem cur) \<noteq> None" using core_current [OF assms(1)] by blast
  have in': "k_in ?k = (k_in k)(xEventListItem t := None, xStateListItem t := None)" using assms(6) by simp
  have items: "items_ok (k_in ?k) (prio ?k) (uxTopReadyPriority ?k)"
    using items_okD [OF c(4)] unfolding in' items_ok_def by auto
  have tick: "tick_inv ?k"
  proof (rule tick_invI [OF c(1) _ items])
    show "pxCurrentTCB ?k = Some cur" "k_in ?k (xStateListItem cur) \<noteq> None" using cur assms(4) unfolding in' by auto
  qed (use assms(5,6,7) in \<open>auto split: if_splits\<close>)
  have ev: "event_ok (k_in ?k)" using c(5) unfolding in' by (auto simp: event_ok_def)
  have "{u. k_in ?k (xStateListItem u) \<noteq> None} = {u. k_in k (xStateListItem u) \<noteq> None} - {t}"
    "{u. k_in ?k (xStateListItem u) = Some xTasksWaitingTermination} = {u. k_in k (xStateListItem u) = Some xTasksWaitingTermination} - {t}"
    unfolding in' by auto
  moreover have "finite {u. k_in k (xStateListItem u) = Some xTasksWaitingTermination}"
    using c(6) by (auto simp: counts_ok_def elim!: rev_finite_subset)
  ultimately have "counts_ok (k_in ?k) (uxCurrentNumberOfTasks k - 1) d"
    using c(6) assms(2) d by (auto simp: counts_ok_def card_Diff_singleton_if)
  moreover have "is_ready ?k idle" using c(7) assms(3) unfolding is_ready_def in' by simp
  ultimately show ?thesis using tick ev by (simp add: core_ok_def)
qed

lemma Delete_ok:
  assumes "sched_ok idle k" "prvGetTCBFromHandle h k = Some t" "alive k t" "t \<noteq> idle"
  shows "\<exists>k'. vTaskDelete h k = Some k' \<and> sched_ok idle k'"
proof -
  have core: "core_ok idle k" "pend_ok k" using assms(1) by (simp_all add: sched_ok_def)
  obtain A B where AB: "k_remove (xStateListItem t) k = Some (k\<lparr>lists := A\<rparr>)" "k_remove_if_listed (xEventListItem t) (k\<lparr>lists := A\<rparr>) = Some (k\<lparr>lists := B\<rparr>)"
    "L_ok B" "container B = (k_in k)(xEventListItem t := None, xStateListItem t := None)" "item_value B = k_value k"
    using removed_both [OF core(1)] assms(3) by blast
  show ?thesis
  proof (cases "pxCurrentTCB k = Some t")
    case True
    define C where "C = l_insert_end xTasksWaitingTermination (xStateListItem t) B"
    have C: "L_ok C" "container C = (k_in k)(xStateListItem t := Some xTasksWaitingTermination, xEventListItem t := None)" "item_value C = k_value k"
      using AB(3-5) L_ok_insert_end [OF AB(3)] by (auto simp: C_def klist_simps)
    let ?k = "k\<lparr>lists := C, uxDeletedTasksWaitingCleanUp := uxDeletedTasksWaitingCleanUp k + 1\<rparr>"
    have "core_ok idle ?k" using core_move [OF core(1) assms(3,4) C(1,2) refl, of "uxDeletedTasksWaitingCleanUp k + 1"] C(3) by simp
    moreover have "pend_ok ?k" using core(2) by (simp add: pend_ok_def C(2))
    moreover have "vTaskDelete h k = Some (if xSchedulerRunning k then portYIELD ?k else ?k)"
      using assms(2) AB(1,2) True by (simp add: vTaskDelete_def k_insert_end_def C_def Let_def)
    ultimately show ?thesis by (simp add: sched_ok_def)
  next
    case False
    let ?k = "k\<lparr>lists := B, uxCurrentNumberOfTasks := uxCurrentNumberOfTasks k - 1\<rparr>"
    have "k\<lparr>lists := B, uxCurrentNumberOfTasks := uxCurrentNumberOfTasks k - 1, uxDeletedTasksWaitingCleanUp := uxDeletedTasksWaitingCleanUp k\<rparr> = ?k" by simp
    then have "core_ok idle ?k"
      using core_gone [OF core(1) _ assms(4) False AB(3-5), of "uxDeletedTasksWaitingCleanUp k"] assms(3) by simp
    moreover have "pend_ok ?k" using core(2) by (simp add: pend_ok_def AB(4))
    moreover have "vTaskDelete h k = Some (prvResetNextTaskUnblockTime ?k)"
      using assms(2) AB(1,2) False by (simp add: vTaskDelete_def reset_next_eq Let_def)
    ultimately show ?thesis using core_ok_reset by (simp add: sched_ok_def)
  qed
qed

lemma clean_up_ok:
  assumes "sched_ok idle k" "pxCurrentTCB k = Some idle" "n = uxDeletedTasksWaitingCleanUp k"
  shows "\<exists>k'. clean_up_loop n k = Some k' \<and> sched_ok idle k' \<and> uxDeletedTasksWaitingCleanUp k' = 0"
  using assms
proof (induction n arbitrary: k)
  case 0
  then show ?case by simp
next
  case (Suc n)
  have core: "core_ok idle k" "pend_ok k" using Suc.prems(1) by (simp_all add: sched_ok_def)
  note c = core_okD [OF core(1)]
  have "card {u. k_in k (xStateListItem u) = Some xTasksWaitingTermination} \<noteq> 0" using c(6) Suc.prems(3) by (simp add: counts_ok_def)
  then have "{u. k_in k (xStateListItem u) = Some xTasksWaitingTermination} \<noteq> {}" by (metis card.empty)
  then have "k_list k xTasksWaitingTermination \<noteq> []" using list_empty_iff [OF kernel_wfD(1) [OF c(2)]] by blast
  moreover have "state_list xTasksWaitingTermination" by simp
  ultimately obtain t where t: "k_head xTasksWaitingTermination k = Some t" "k_in k (xStateListItem t) = Some xTasksWaitingTermination"
    using head_state [OF c(2), of xTasksWaitingTermination] by metis
  have ev: "k_in k (xEventListItem t) = None" using c(5) t(2) by (auto simp: event_ok_def)
  have idle: "t \<noteq> idle" using t(2) c(7) by (auto simp: is_ready_def)
  obtain A where A: "k_remove (xStateListItem t) k = Some (k\<lparr>lists := A\<rparr>)" "L_ok A" "container A = (k_in k)(xStateListItem t := None)" "item_value A = k_value k"
    using L_ok_remove [OF c(3), of "xStateListItem t"] t(2) by auto
  define k' where "k' = k\<lparr>lists := A, uxCurrentNumberOfTasks := uxCurrentNumberOfTasks k - 1, uxDeletedTasksWaitingCleanUp := n\<rparr>"
  have "container A = (k_in k)(xEventListItem t := None, xStateListItem t := None)" using A(3) ev by (simp add: fun_upd_idem)
  then have "core_ok idle k'" unfolding k'_def
    using core_gone [OF core(1) _ idle _ A(2) _ A(4), of n] t(2) idle Suc.prems(2) Suc.prems(3) [symmetric] by simp
  moreover have "pend_ok k'" using core(2) A(3) by (simp add: pend_ok_def k'_def)
  ultimately have "sched_ok idle k'" by (simp add: sched_ok_def)
  moreover have "clean_up_loop (Suc n) k = clean_up_loop n k'" using t(1) A(1) by (simp add: k'_def)
  moreover have "pxCurrentTCB k' = Some idle" "n = uxDeletedTasksWaitingCleanUp k'" using Suc.prems(2) by (simp_all add: k'_def)
  ultimately show ?case using Suc.IH [of k'] by (simp only:)
qed

lemma add_new_eq:
  assumes "pxCurrentTCB k = Some c"
  shows "\<exists>cur \<in> {c, t}. \<exists>b. prvAddNewTaskToReadyList t k =
    (let k' = prvAddTaskToReadyList t (k\<lparr>uxCurrentNumberOfTasks := uxCurrentNumberOfTasks k + 1, pxCurrentTCB := Some cur\<rparr>)
     in if b then portYIELD k' else k')"
proof -
  define cur where "cur = (if \<not> xSchedulerRunning k \<and> prio k c \<le> prio k t then t else c)"
  define k1 where "k1 = k\<lparr>uxCurrentNumberOfTasks := uxCurrentNumberOfTasks k + 1, pxCurrentTCB := Some cur\<rparr>"
  have "k1 = (if \<not> xSchedulerRunning k \<and> prio k c \<le> prio k t then k\<lparr>uxCurrentNumberOfTasks := uxCurrentNumberOfTasks k + 1, pxCurrentTCB := Some t\<rparr>
    else k\<lparr>uxCurrentNumberOfTasks := uxCurrentNumberOfTasks k + 1\<rparr>)"
    using assms by (simp add: k1_def cur_def)
  then have "prvAddNewTaskToReadyList t k =
    (let k' = prvAddTaskToReadyList t k1 in if xSchedulerRunning k \<and> prio k cur < prio k t then portYIELD k' else k')"
    using assms by (simp add: prvAddNewTaskToReadyList_def k1_def [symmetric] cur_def Let_def)
  moreover have "cur \<in> {c, t}" by (simp add: cur_def)
  ultimately show ?thesis unfolding k1_def by blast
qed

lemma Create_ok:
  assumes "sched_ok idle k" "k_in k (xStateListItem t) = None"
  shows "sched_ok idle (prvAddNewTaskToReadyList t (prvInitialiseNewTask t p k))"
proof -
  have core: "core_ok idle k" "pend_ok k" using assms(1) by (simp_all add: sched_ok_def)
  note c = core_okD [OF core(1)]
  obtain c0 where c0: "pxCurrentTCB k = Some c0" "k_in k (xStateListItem c0) \<noteq> None" using core_current [OF core(1)] by blast
  have ev: "k_in k (xEventListItem t) = None" using items_okD(4) [OF c(4)] assms(2) by fastforce
  define k1 where "k1 = prvInitialiseNewTask t p k"
  define q where "q = (if p \<ge> configMAX_PRIORITIES then configMAX_PRIORITIES - 1 else p)"
  define T where "T = tcb k1"
  have T: "uxPriority (T t) = q" "u \<noteq> t \<Longrightarrow> T u = tcb k u" for u
    by (simp_all add: T_def k1_def prvInitialiseNewTask_def upd_tcb_def k_set_value_def q_def Let_def)
  have "(k_in k)(xStateListItem t := None, xEventListItem t := None) = k_in k" using assms(2) ev by (simp add: fun_upd_idem)
  then have k1: "k1 = k\<lparr>tcb := T, lists := l_set_value (xEventListItem t) (event_value q) (lists k)\<rparr>"
    by (simp add: T_def k1_def prvInitialiseNewTask_def upd_tcb_def k_set_value_def q_def Let_def)
  obtain cur b where new: "cur \<in> {c0, t}" "prvAddNewTaskToReadyList t k1 =
    (let k' = prvAddTaskToReadyList t (k1\<lparr>uxCurrentNumberOfTasks := uxCurrentNumberOfTasks k1 + 1, pxCurrentTCB := Some cur\<rparr>) in if b then portYIELD k' else k')"
    using add_new_eq [of k1 c0 t] c0(1) by (auto simp: k1)
  define k2 where "k2 = prvAddTaskToReadyList t (k1\<lparr>uxCurrentNumberOfTasks := uxCurrentNumberOfTasks k1 + 1, pxCurrentTCB := Some cur\<rparr>)"
  have in': "k_in k2 = (k_in k)(xStateListItem t := Some (pxReadyTasksLists q))" by (simp add: k2_def k1 klist_simps T)
  have items: "items_ok (k_in k2) (prio k2) (uxTopReadyPriority k2)"
    using items_okD [OF c(4)] T unfolding in' items_ok_def by (auto simp: k2_def k1 le_max_iff_disj)
  have tick: "tick_inv k2"
  proof (rule tick_invI [OF c(1) _ items])
    show "L_ok (lists k2)" using L_ok_insert_end [OF L_ok_event_value [OF c(3)]] assms(2) by (simp add: k2_def k1 klist_simps)
    show "pxCurrentTCB k2 = Some cur" "k_in k2 (xStateListItem cur) \<noteq> None" using c0(2) new(1) unfolding in' by (auto simp: k2_def)
    show "k_in k (xStateListItem u) = Some l \<and> k_value k2 (xStateListItem u) = k_value k (xStateListItem u)"
      if "l \<in> delayed_lists" "k_in k2 (xStateListItem u) = Some l" for u l
      using that state_list_delayed(2) [OF that(1)] unfolding in' by (auto simp: k2_def k1 klist_simps split: if_splits)
  qed (simp_all add: k2_def k1)
  have "{u. k_in k2 (xStateListItem u) \<noteq> None} = insert t {u. k_in k (xStateListItem u) \<noteq> None}"
    "{u. k_in k2 (xStateListItem u) = Some xTasksWaitingTermination} = {u. k_in k (xStateListItem u) = Some xTasksWaitingTermination}"
    using assms(2) unfolding in' by auto
  then have "counts_ok (k_in k2) (uxCurrentNumberOfTasks k + 1) (uxDeletedTasksWaitingCleanUp k)" using c(6) assms(2) by (simp add: counts_ok_def)
  moreover have "event_ok (k_in k2)" using c(5) ev unfolding in' by (auto simp: event_ok_def)
  moreover have "is_ready k2 idle" using c(7) assms(2) T unfolding is_ready_def in' by (auto simp: k2_def k1)
  ultimately have "core_ok idle k2" using tick by (simp add: core_ok_def k2_def k1)
  moreover have "pend_ok k2" using core(2) by (simp add: pend_ok_def in' k2_def k1 klist_simps)
  ultimately have "sched_ok idle (if b then portYIELD k2 else k2)" by (simp add: sched_ok_def)
  then show ?thesis using new(2) unfolding k1_def [symmetric] k2_def [symmetric] Let_def by (simp only:)
qed

section \<open>Priorities\<close>

text \<open>Values of event items do not matter to the invariant.\<close>

definition same_lists :: "(klist, kitem) klists \<Rightarrow> kernel \<Rightarrow> bool" where
  "same_lists A k \<longleftrightarrow> L_ok A \<and> container A = k_in k \<and> (\<forall>u. item_value A (xStateListItem u) = k_value k (xStateListItem u))"

lemma set_event_priority_eq:
  assumes "core_ok idle k"
  obtains A where "set_event_priority t p k = k\<lparr>lists := A\<rparr>" "same_lists A k"
proof -
  define A where "A = (if k_value k (xEventListItem t) AND taskEVENT_LIST_ITEM_VALUE_IN_USE = 0
    then l_set_value (xEventListItem t) (event_value p) (lists k) else lists k)"
  have "set_event_priority t p k = k\<lparr>lists := A\<rparr>" by (simp add: set_event_priority_def k_set_value_def A_def)
  moreover have "same_lists A k" using core_okD(3) [OF assms] L_ok_event_value by (simp add: same_lists_def klist_simps A_def)
  ultimately show ?thesis by (rule that)
qed

lemma core_same:
  assumes "core_ok idle k" "same_lists A k" "\<And>u. u \<noteq> t \<Longrightarrow> uxPriority (T u) = prio k u" "\<not> is_ready k t \<or> uxPriority (T t) = prio k t"
  shows "core_ok idle (k\<lparr>tcb := T, lists := A\<rparr>)" "pend_ok (k\<lparr>tcb := T, lists := A\<rparr>) = pend_ok k"
proof -
  note c = core_okD [OF assms(1)]
  let ?k = "k\<lparr>tcb := T, lists := A\<rparr>"
  have A: "L_ok A" "container A = k_in k" "\<And>u. item_value A (xStateListItem u) = k_value k (xStateListItem u)" using assms(2) by (simp_all add: same_lists_def)
  obtain cur where cur: "pxCurrentTCB k = Some cur" "k_in k (xStateListItem cur) \<noteq> None" using core_current [OF assms(1)] by blast
  have "p = uxPriority (T u) \<and> p \<le> uxTopReadyPriority k" if "k_in k (xStateListItem u) = Some (pxReadyTasksLists p)" for u p
    using items_okD(2) [OF c(4) that] that assms(3) [of u] assms(4) by (cases "u = t") (auto simp: is_ready_def)
  then have items: "items_ok (k_in ?k) (prio ?k) (uxTopReadyPriority ?k)"
    using items_okD(1,3,4) [OF c(4)] A(2) unfolding items_ok_def by simp blast
  have "tick_inv ?k" by (rule tick_invI [OF c(1) _ items, of cur]) (use A cur in simp_all)
  moreover have "is_ready ?k idle" using c(7) assms(3,4) A(2) by (cases "idle = t") (auto simp: is_ready_def)
  ultimately show "core_ok idle ?k" using c(5,6) A(2) by (simp add: core_ok_def)
  show "pend_ok ?k = pend_ok k" using A(2) by (simp add: pend_ok_def)
qed

text \<open>A ready task moves to the list of its new priority.\<close>

lemma reprio_ok:
  assumes "sched_ok idle k" "is_ready k t" "same_lists A k" "\<And>u. u \<noteq> t \<Longrightarrow> uxPriority (T u) = prio k u"
  obtains B where "l_remove (xStateListItem t) A = Some B" "\<And>k1. k1 = k\<lparr>tcb := T, lists := snd B\<rparr> \<Longrightarrow> sched_ok idle (prvAddTaskToReadyList t k1)"
    "\<And>v k1. k1 = k\<lparr>tcb := T, lists := l_set_value (xEventListItem t) v (snd B)\<rparr> \<Longrightarrow> sched_ok idle (prvAddTaskToReadyList t k1)"
proof -
  have core: "core_ok idle k" "pend_ok k" using assms(1) by (simp_all add: sched_ok_def)
  note c = core_okD [OF core(1)]
  have A: "L_ok A" "container A = k_in k" "\<And>u. item_value A (xStateListItem u) = k_value k (xStateListItem u)" using assms(3) by (simp_all add: same_lists_def)
  have t: "alive k t" "k_in k (xEventListItem t) = None" using assms(2) c(5) by (auto simp: is_ready_def event_ok_def)
  obtain l where "container A (xStateListItem t) = Some l" using t(1) A(2) by auto
  then obtain n B where B: "l_remove (xStateListItem t) A = Some (n, B)" "lists_wf B" "container B = (container A)(xStateListItem t := None)"
    "entries B = (entries A)(l := remove1 (xStateListItem t) (entries A l))" "item_value B = item_value A"
    using remove_ok [of A "xStateListItem t" l] A(1) unfolding L_ok_def by blast
  have LB: "L_ok B" using A(1) B(2-5) by (auto simp: L_ok_def sorted_map_remove1)
  have con: "container B = (k_in k)(xEventListItem t := None, xStateListItem t := None)" using A(2) B(3) t(2) by (simp add: fun_upd_idem)
  have "sched_ok idle (prvAddTaskToReadyList t (k\<lparr>tcb := T, lists := C\<rparr>))"
    if "L_ok C" "container C = container B" "\<And>u. item_value C (xStateListItem u) = k_value k (xStateListItem u)" for C
  proof -
    have "core_ok idle (prvAddTaskToReadyList t (k\<lparr>tcb := T, lists := C\<rparr>))"
      by (rule core_add_ready [OF core(1) t(1) that(1), where T = T and ss = "uxSchedulerSuspended k" and y = "xYieldPending k" and r = "yield_requested k"])
        (use that con assms(4) in simp_all)
    then show ?thesis using core(2) that(2) con by (simp add: sched_ok_def pend_ok_def klist_simps)
  qed
  from this [of B] this [of "l_set_value (xEventListItem t) v B" for v] show ?thesis
    using that [of "(n, B)"] B LB A(3) L_ok_event_value [OF LB] by (simp add: klist_simps)
qed

lemma change_priority_ok:
  assumes "sched_ok idle k" "same_lists A k"
  shows "\<exists>k'. change_priority t p (k\<lparr>lists := A\<rparr>) = Some k' \<and> sched_ok idle k'"
proof -
  have core: "core_ok idle k" "pend_ok k" using assms(1) by (simp_all add: sched_ok_def)
  let ?T = "(tcb k)(t := (tcb k t)\<lparr>uxPriority := p\<rparr>)"
  have con: "container A = k_in k" using assms(2) by (simp add: same_lists_def)
  show ?thesis
  proof (cases "is_ready k t")
    case True
    obtain B where B: "l_remove (xStateListItem t) A = Some B" "\<And>k1. k1 = k\<lparr>tcb := ?T, lists := snd B\<rparr> \<Longrightarrow> sched_ok idle (prvAddTaskToReadyList t k1)"
      by (rule reprio_ok [OF assms(1) True assms(2), of ?T]) simp_all
    have "change_priority t p (k\<lparr>lists := A\<rparr>) = Some (prvAddTaskToReadyList t (k\<lparr>lists := snd B, tcb := ?T\<rparr>))"
      using True B(1) con by (simp add: change_priority_def is_ready_def k_remove_def upd_tcb_def split_beta)
    then show ?thesis using B(2) [of "k\<lparr>lists := snd B, tcb := ?T\<rparr>"] by simp
  next
    case False
    have "sched_ok idle (k\<lparr>tcb := ?T, lists := A\<rparr>)" using core_same [OF core(1) assms(2), of t ?T] core(2) False by (simp add: sched_ok_def)
    moreover have "k\<lparr>lists := A, tcb := ?T\<rparr> = k\<lparr>tcb := ?T, lists := A\<rparr>" by simp
    moreover have "change_priority t p (k\<lparr>lists := A\<rparr>) = Some (k\<lparr>lists := A, tcb := ?T\<rparr>)"
      using False con by (simp add: change_priority_def is_ready_def upd_tcb_def)
    ultimately show ?thesis by metis
  qed
qed

lemma Inherit_ok: assumes "sched_ok idle k" shows "\<exists>b k'. xTaskPriorityInherit h k = Some (b, k') \<and> sched_ok idle k'"
proof (cases h)
  case None
  then show ?thesis using assms by (auto simp: xTaskPriorityInherit_def)
next
  case (Some t)
  have core: "core_ok idle k" using assms by (simp add: sched_ok_def)
  obtain c where c: "pxCurrentTCB k = Some c" using core_current [OF core] by blast
  obtain A where A: "set_event_priority t (prio k c) k = k\<lparr>lists := A\<rparr>" "same_lists A k" by (rule set_event_priority_eq [OF core])
  show ?thesis using change_priority_ok [OF assms A(2), of t "prio k c"] A(1) c Some assms
    by (cases "prio k t < prio k c") (auto simp: xTaskPriorityInherit_def)
qed

lemma DisinheritAfterTimeout_ok: assumes "sched_ok idle k" shows "\<exists>k'. vTaskPriorityDisinheritAfterTimeout h w k = Some k' \<and> sched_ok idle k'"
proof (cases h)
  case None
  then show ?thesis using assms by (simp add: vTaskPriorityDisinheritAfterTimeout_def)
next
  case (Some t)
  have core: "core_ok idle k" using assms by (simp add: sched_ok_def)
  let ?p = "if uxBasePriority (tcb k t) < w then w else uxBasePriority (tcb k t)"
  obtain A where A: "set_event_priority t ?p k = k\<lparr>lists := A\<rparr>" "same_lists A k" by (rule set_event_priority_eq [OF core])
  show ?thesis using change_priority_ok [OF assms A(2), of t ?p] A(1) Some assms
    by (auto simp: vTaskPriorityDisinheritAfterTimeout_def Let_def split: if_splits)
qed

lemma sched_ok_tcb: "(\<And>u. uxPriority (T u) = prio k u) \<Longrightarrow> sched_ok idle (k\<lparr>tcb := T\<rparr>) = sched_ok idle k"
  by (simp add: sched_ok_def core_ok_tcb pend_ok_def)

lemma PrioritySet_ok:
  assumes "sched_ok idle k" "prvGetTCBFromHandle h k = Some t"
  shows "\<exists>k'. vTaskPrioritySet h n k = Some k' \<and> sched_ok idle k'"
proof -
  have core: "core_ok idle k" "pend_ok k" using assms(1) by (simp_all add: sched_ok_def)
  obtain c where c: "pxCurrentTCB k = Some c" using core_current [OF core(1)] by blast
  define p where "p = (if n \<ge> configMAX_PRIORITIES then configMAX_PRIORITIES - 1 else n)"
  define T where "T = (tcb k)(t := (tcb k t)\<lparr>uxPriority := (if uxBasePriority (tcb k t) = prio k t then p else prio k t), uxBasePriority := p\<rparr>)"
  have T: "u \<noteq> t \<Longrightarrow> uxPriority (T u) = prio k u" for u by (simp add: T_def)
  have upd: "upd_tcb t (\<lambda>b. b\<lparr>uxPriority := (if uxBasePriority b = uxPriority b then p else uxPriority b), uxBasePriority := p\<rparr>) k = k\<lparr>tcb := T\<rparr>"
    by (simp add: upd_tcb_def T_def)
  obtain A where A: "set_event_priority t p k = k\<lparr>lists := A\<rparr>" "same_lists A k" by (rule set_event_priority_eq [OF core(1)])
  have A': "set_event_priority t p (k\<lparr>tcb := T\<rparr>) = k\<lparr>tcb := T, lists := A\<rparr>"
  proof -
    have "set_event_priority t p (k\<lparr>tcb := T\<rparr>) = (set_event_priority t p k)\<lparr>tcb := T\<rparr>" by (simp add: set_event_priority_def k_set_value_def)
    then show ?thesis using A(1) by simp
  qed
  have con: "container A = k_in k" using A(2) by (simp add: same_lists_def)
  obtain k2 where k2: "(if k_in k (xStateListItem t) = Some (pxReadyTasksLists (prio k t))
      then map_option (prvAddTaskToReadyList t) (k_remove (xStateListItem t) (k\<lparr>tcb := T, lists := A\<rparr>)) else Some (k\<lparr>tcb := T, lists := A\<rparr>)) = Some k2" "sched_ok idle k2"
  proof (cases "is_ready k t")
    case True
    obtain B where B: "l_remove (xStateListItem t) A = Some B" "\<And>k1. k1 = k\<lparr>tcb := T, lists := snd B\<rparr> \<Longrightarrow> sched_ok idle (prvAddTaskToReadyList t k1)"
      by (rule reprio_ok [OF assms(1) True A(2), of T]) (use T in simp_all)
    show ?thesis using that [OF _ B(2) [OF refl]] True B(1) by (simp add: is_ready_def k_remove_def split_beta)
  next
    case False
    then show ?thesis using that core_same [OF core(1) A(2) T] core(2) by (simp add: is_ready_def sched_ok_def)
  qed
  define yield where "yield = (if p > uxBasePriority (tcb k t) then t \<noteq> c \<and> p \<ge> prio k c else t = c)"
  have "vTaskPrioritySet h n k = Some (if yield then portYIELD k2 else k2)" if "uxBasePriority (tcb k t) \<noteq> p"
  proof -
    have "vTaskPrioritySet h n k = Option.bind (Some k2) (\<lambda>k. Some (if yield then portYIELD k else k))"
      unfolding vTaskPrioritySet_def p_def [symmetric] assms(2) c bind.simps Let_def upd A' yield_def k2(1) [symmetric] using that con by simp
    then show ?thesis by simp
  qed
  moreover have "vTaskPrioritySet h n k = Some k" if "uxBasePriority (tcb k t) = p"
    using assms(2) c that by (simp add: vTaskPrioritySet_def p_def [symmetric])
  ultimately show ?thesis using assms(1) k2(2) by (cases "uxBasePriority (tcb k t) = p") (simp_all add: sched_ok_def)
qed

lemma Disinherit_ok:
  assumes "sched_ok idle k" "h = None \<or> (h = pxCurrentTCB k \<and> is_ready k (the h))"
  shows "\<exists>b k'. xTaskPriorityDisinherit h k = Some (b, k') \<and> sched_ok idle k'"
proof (cases h)
  case None
  then show ?thesis using assms by (auto simp: xTaskPriorityDisinherit_def)
next
  case (Some t)
  define T where "T = (tcb k)(t := (tcb k t)\<lparr>uxMutexesHeld := uxMutexesHeld (tcb k t) - 1\<rparr>)"
  define T' where "T' = T(t := (T t)\<lparr>uxPriority := uxBasePriority (T t)\<rparr>)"
  have T: "uxPriority (T u) = prio k u" "u \<noteq> t \<Longrightarrow> uxPriority (T' u) = prio k u" for u by (simp_all add: T_def T'_def)
  have ready: "is_ready k t" using assms(2) Some by auto
  have "same_lists (lists k) k" using core_okD(3) [of idle k] assms(1) by (simp add: same_lists_def sched_ok_def)
  then obtain B where B: "l_remove (xStateListItem t) (lists k) = Some B"
    "\<And>v k1. k1 = k\<lparr>tcb := T', lists := l_set_value (xEventListItem t) v (snd B)\<rparr> \<Longrightarrow> sched_ok idle (prvAddTaskToReadyList t k1)"
    by (rule reprio_ok [OF assms(1) ready, of _ T']) (use T(2) in simp_all)
  have "xTaskPriorityDisinherit h k = Some (if uxPriority (T t) \<noteq> uxBasePriority (T t) \<and> uxMutexesHeld (T t) = 0
    then (True, prvAddTaskToReadyList t (k\<lparr>tcb := T', lists := l_set_value (xEventListItem t) (event_value (uxPriority (T' t))) (snd B)\<rparr>))
    else (False, k\<lparr>tcb := T\<rparr>))"
    using Some B(1) by (simp add: xTaskPriorityDisinherit_def upd_tcb_def k_remove_def k_set_value_def split_beta Let_def T_def T'_def)
  then show ?thesis using B(2) sched_ok_tcb [OF T(1), of idle] assms(1) by auto
qed

section \<open>All calls\<close>

datatype kcall =
    SysTick | SoftIsr | SuspendAll | ResumeAll | Delay u32 | DelayUntil u32 u32
  | PlaceOnEventList klist u32 | PlaceOnUnorderedEventList klist u32 u32 | PlaceOnEventListRestricted klist u32 bool
  | RemoveFromEventList klist | RemoveFromUnorderedEventList task u32 | MissedYield | ResetEventItemValue
  | Create task nat | Delete "task option" | CheckTasksWaitingTermination | Suspend "task option" | Resume "task option" | ResumeFromISR task
  | PrioritySet "task option" nat | PriorityInherit "task option" | PriorityDisinherit "task option"
  | PriorityDisinheritAfterTimeout "task option" nat | IncrementMutexHeldCount

fun kexec :: "kcall \<Rightarrow> kernel \<Rightarrow> kernel option" where
  "kexec SysTick k = xPortSysTickHandle k"
| "kexec SoftIsr k = SoftIsrHdl k"
| "kexec SuspendAll k = Some (vTaskSuspendAll k)"
| "kexec ResumeAll k = map_option snd (xTaskResumeAll k)"
| "kexec (Delay n) k = vTaskDelay n k"
| "kexec (DelayUntil p n) k = map_option snd (vTaskDelayUntil p n k)"
| "kexec (PlaceOnEventList l n) k = vTaskPlaceOnEventList l n k"
| "kexec (PlaceOnUnorderedEventList l v n) k = vTaskPlaceOnUnorderedEventList l v n k"
| "kexec (PlaceOnEventListRestricted l n b) k = vTaskPlaceOnEventListRestricted l n b k"
| "kexec (RemoveFromEventList l) k = map_option snd (xTaskRemoveFromEventList l k)"
| "kexec (RemoveFromUnorderedEventList t v) k = vTaskRemoveFromUnorderedEventList (xEventListItem t) v k"
| "kexec MissedYield k = Some (vTaskMissedYield k)"
| "kexec ResetEventItemValue k = map_option snd (uxTaskResetEventItemValue k)"
| "kexec (Create t p) k = Some (prvAddNewTaskToReadyList t (prvInitialiseNewTask t p k))"
| "kexec (Delete h) k = vTaskDelete h k"
| "kexec CheckTasksWaitingTermination k = prvCheckTasksWaitingTermination k"
| "kexec (Suspend h) k = vTaskSuspend h k"
| "kexec (Resume h) k = vTaskResume h k"
| "kexec (ResumeFromISR t) k = map_option snd (xTaskResumeFromISR t k)"
| "kexec (PrioritySet h p) k = vTaskPrioritySet h p k"
| "kexec (PriorityInherit h) k = map_option snd (xTaskPriorityInherit h k)"
| "kexec (PriorityDisinherit h) k = map_option snd (xTaskPriorityDisinherit h k)"
| "kexec (PriorityDisinheritAfterTimeout h p) k = vTaskPriorityDisinheritAfterTimeout h p k"
| "kexec IncrementMutexHeldCount k = Some (snd (pvTaskIncrementMutexHeldCount k))"

text \<open>
  What the interface demands of its callers: only a running task other than the idle task
  blocks, on a list of an object and for a positive time; calls about a task name one that
  exists and has not been deleted; the idle task is neither deleted nor suspended and alone
  frees deleted tasks; a mutex is given back by the running task.
\<close>

definition can_block :: "task \<Rightarrow> kernel \<Rightarrow> bool" where
  "can_block idle k \<longleftrightarrow> (\<exists>t. may_block idle k t)"

definition object_list :: "klist \<Rightarrow> bool" where
  "object_list l \<longleftrightarrow> \<not> state_list l \<and> l \<noteq> xPendingReadyList"

definition handle_ok :: "(task \<Rightarrow> bool) \<Rightarrow> task option \<Rightarrow> kernel \<Rightarrow> bool" where
  "handle_ok P h k \<longleftrightarrow> (\<exists>t. prvGetTCBFromHandle h k = Some t \<and> alive k t \<and> P t)"

fun allowed :: "task \<Rightarrow> kcall \<Rightarrow> kernel \<Rightarrow> bool" where
  "allowed idle ResumeAll k = (uxSchedulerSuspended k > 0)"
| "allowed idle (Delay n) k = can_block idle k"
| "allowed idle (DelayUntil p n) k = can_block idle k"
| "allowed idle (PlaceOnEventList l n) k = (can_block idle k \<and> object_list l \<and> n \<noteq> 0)"
| "allowed idle (PlaceOnUnorderedEventList l v n) k = (can_block idle k \<and> object_list l \<and> n \<noteq> 0)"
| "allowed idle (PlaceOnEventListRestricted l n b) k = (can_block idle k \<and> object_list l \<and> n \<noteq> 0)"
| "allowed idle (RemoveFromEventList l) k = (object_list l \<and> k_list k l \<noteq> [])"
| "allowed idle (RemoveFromUnorderedEventList t v) k = (k_in k (xEventListItem t) \<noteq> None)"
| "allowed idle (Create t p) k = (k_in k (xStateListItem t) = None)"
| "allowed idle (Delete h) k = handle_ok (\<lambda>t. t \<noteq> idle) h k"
| "allowed idle CheckTasksWaitingTermination k = (pxCurrentTCB k = Some idle)"
| "allowed idle (Suspend h) k = (handle_ok (\<lambda>t. t \<noteq> idle) h k \<and> xSchedulerRunning k)"
| "allowed idle (PriorityDisinherit h) k = (h = None \<or> (h = pxCurrentTCB k \<and> is_ready k (the h)))"
| "allowed idle _ k = True"

lemma ResetEventItemValue_ok: assumes "sched_ok idle k" shows "\<exists>v k'. uxTaskResetEventItemValue k = Some (v, k') \<and> sched_ok idle k'"
proof -
  have core: "core_ok idle k" "pend_ok k" using assms by (simp_all add: sched_ok_def)
  obtain c where "pxCurrentTCB k = Some c" using core_current [OF core(1)] by blast
  moreover have "sched_ok idle (k_set_value (xEventListItem c) v k)" for v
  proof -
    have "same_lists (l_set_value (xEventListItem c) v (lists k)) k"
      using core_okD(3) [OF core(1)] L_ok_event_value by (simp add: same_lists_def klist_simps)
    from core_same [OF core(1) this, of c "tcb k"] show ?thesis using core(2) by (simp add: sched_ok_def k_set_value_def)
  qed
  ultimately show ?thesis by (simp add: uxTaskResetEventItemValue_def)
qed

lemma IncrementMutexHeldCount_ok: "sched_ok idle k \<Longrightarrow> sched_ok idle (snd (pvTaskIncrementMutexHeldCount k))"
  by (auto simp: pvTaskIncrementMutexHeldCount_def upd_tcb_def sched_ok_tcb split: option.split)

lemma MissedYield_ok: "sched_ok idle k \<Longrightarrow> sched_ok idle (vTaskMissedYield k)"
  by (simp add: vTaskMissedYield_def sched_ok_def)

lemma kexec_ok:
  assumes "sched_ok idle k" "allowed idle c k"
  shows "\<exists>k'. kexec c k = Some k' \<and> sched_ok idle k'"
proof (cases c)
  case ResumeAll
  then show ?thesis using ResumeAll_ok [OF assms(1)] assms(2) by auto
next
  case (DelayUntil p n)
  then show ?thesis using DelayUntil_ok [OF assms(1)] assms(2) by (fastforce simp: can_block_def)
next
  case (RemoveFromEventList l)
  then show ?thesis using RemoveFromEventList_ok [OF assms(1)] assms(2) by (fastforce simp: object_list_def)
next
  case CheckTasksWaitingTermination
  then show ?thesis using clean_up_ok [OF assms(1) _ refl] assms(2) by (auto simp: prvCheckTasksWaitingTermination_def)
next
  case ResetEventItemValue
  then show ?thesis using ResetEventItemValue_ok [OF assms(1)] by auto
next
  case (ResumeFromISR t)
  then show ?thesis using ResumeFromISR_ok [OF assms(1), of t] by auto
next
  case (PriorityInherit h)
  then show ?thesis using Inherit_ok [OF assms(1), of h] by auto
next
  case (PriorityDisinherit h)
  then show ?thesis using Disinherit_ok [OF assms(1), of h] assms(2) by auto
next
  case (PrioritySet h n)
  obtain cur where "pxCurrentTCB k = Some cur" using core_current assms(1) by (auto simp: sched_ok_def)
  then have "\<exists>t. prvGetTCBFromHandle h k = Some t" by (auto simp: prvGetTCBFromHandle_def split: option.split)
  then show ?thesis using PrioritySet_ok [OF assms(1)] PrioritySet by auto
next
  case SysTick
  then show ?thesis using sysTick_ok [OF assms(1)] assms(2) by (auto simp: can_block_def object_list_def handle_ok_def)
next
  case SoftIsr
  then show ?thesis using SoftIsr_ok [OF assms(1)] assms(2) by (auto simp: can_block_def object_list_def handle_ok_def)
next
  case SuspendAll
  then show ?thesis using SuspendAll_ok [OF assms(1)] assms(2) by (auto simp: can_block_def object_list_def handle_ok_def)
next
  case (Delay n)
  then show ?thesis using Delay_ok [OF assms(1)] assms(2) by (auto simp: can_block_def object_list_def handle_ok_def)
next
  case (PlaceOnEventList l n)
  then show ?thesis using PlaceOnEventList_ok [OF assms(1)] assms(2) by (auto simp: can_block_def object_list_def handle_ok_def)
next
  case (PlaceOnUnorderedEventList l v n)
  then show ?thesis using PlaceOnUnorderedEventList_ok [OF assms(1)] assms(2) by (auto simp: can_block_def object_list_def handle_ok_def)
next
  case (PlaceOnEventListRestricted l n b)
  then show ?thesis using PlaceOnEventListRestricted_ok [OF assms(1)] assms(2) by (auto simp: can_block_def object_list_def handle_ok_def)
next
  case (RemoveFromUnorderedEventList t v)
  then show ?thesis using RemoveFromUnorderedEventList_ok [OF assms(1)] assms(2) by (auto simp: can_block_def object_list_def handle_ok_def)
next
  case MissedYield
  then show ?thesis using MissedYield_ok [OF assms(1)] assms(2) by (auto simp: can_block_def object_list_def handle_ok_def)
next
  case (Create t p)
  then show ?thesis using Create_ok [OF assms(1)] assms(2) by (auto simp: can_block_def object_list_def handle_ok_def)
next
  case (Delete h)
  then show ?thesis using Delete_ok [OF assms(1)] assms(2) by (auto simp: can_block_def object_list_def handle_ok_def)
next
  case (Suspend h)
  then show ?thesis using Suspend_ok [OF assms(1)] assms(2) by (auto simp: can_block_def object_list_def handle_ok_def)
next
  case (Resume h)
  then show ?thesis using Resume_ok [OF assms(1)] assms(2) by (auto simp: can_block_def object_list_def handle_ok_def)
next
  case (PriorityDisinheritAfterTimeout h p)
  then show ?thesis using DisinheritAfterTimeout_ok [OF assms(1)] assms(2) by (auto simp: can_block_def object_list_def handle_ok_def)
next
  case IncrementMutexHeldCount
  then show ?thesis using IncrementMutexHeldCount_ok [OF assms(1)] assms(2) by (auto simp: can_block_def object_list_def handle_ok_def)
qed

end
