(* ===== verification/Rtos_Queue.thy ===== *)
theory Rtos_Queue
  imports Rtos_Invariant
begin

text \<open>
  Queues, semaphores and mutexes (\<open>components/freertos/freertos/queue.c\<close>).

  A queue is the record \<open>Queue_t\<close>; its number names the two lists of tasks that wait for it. The
  storage is a list of bytes and \<open>pcHead\<close> its start, so that the other pointers are offsets. The
  fields \<open>pcTail\<close> and \<open>pxMutexHolder\<close>, \<open>pcReadFrom\<close> and \<open>uxRecursiveCallCount\<close> share memory in the
  code; a mutex (\<open>pcHead\<close> null) uses only the second of each pair, every other queue only the
  first. \<open>None\<close> is an access outside the storage or through a null pointer.

  A call that may block is a loop, of which each round has a critical section (\<open>_enter\<close>) that
  either ends the call or sets the timeout, and a section with the scheduler suspended and the
  queue locked (\<open>_wait\<close>), in which the task is put on the list of waiting tasks; the round after
  that begins when the task runs again. The arguments \<open>isr1\<close> and \<open>isr2\<close> are what interrupts do while the
  queue is locked, before the task is put on the list and after that. Queue sets and co-routines are not configured.
\<close>

section \<open>Queues\<close>

record Queue_t =
  is_mutex :: bool
  storage :: "u8 list"
  pcTail :: int
  pcWriteTo :: int
  pcReadFrom :: int
  pxMutexHolder :: "task option"
  uxRecursiveCallCount :: u32
  uxMessagesWaiting :: u32
  uxLength :: u32
  uxItemSize :: u32
  cRxLock :: u8
  cTxLock :: u8

definition queueUNLOCKED :: u8 where "queueUNLOCKED = - 1"

definition queueLOCKED_UNMODIFIED :: u8 where "queueLOCKED_UNMODIFIED = 0"

datatype copy_position = queueSEND_TO_BACK | queueSEND_TO_FRONT | queueOVERWRITE

abbreviation item_bytes :: "Queue_t \<Rightarrow> int" where
  "item_bytes q \<equiv> uint (uxItemSize q)"

text \<open>Copying an item into and out of the storage.\<close>

definition store :: "int \<Rightarrow> u8 list \<Rightarrow> Queue_t \<Rightarrow> Queue_t option" where
  "store at item q =
     (if 0 \<le> at \<and> at + item_bytes q \<le> int (length (storage q)) \<and> int (length item) = item_bytes q
      then Some (q\<lparr>storage := take (nat at) (storage q) @ item @ drop (nat at + length item) (storage q)\<rparr>)
      else None)"

definition load :: "int \<Rightarrow> Queue_t \<Rightarrow> u8 list option" where
  "load at q =
     (if 0 \<le> at \<and> at + item_bytes q \<le> int (length (storage q))
      then Some (take (nat (item_bytes q)) (drop (nat at) (storage q))) else None)"

text \<open>A task that waits in a list is made ready, if there is one.\<close>

definition wake_waiting :: "klist \<Rightarrow> kernel \<Rightarrow> (bool \<times> kernel) option" where
  "wake_waiting l k = (if k_list k l \<noteq> [] then xTaskRemoveFromEventList l k else Some (False, k))"

definition wake_and_yield :: "klist \<Rightarrow> kernel \<Rightarrow> kernel option" where
  "wake_and_yield l k = do {
     (higher, k) \<leftarrow> wake_waiting l k;
     Some (if higher then portYIELD k else k)
   }"

section \<open>Creation\<close>

definition xQueueGenericReset :: "nat \<Rightarrow> bool \<Rightarrow> Queue_t \<Rightarrow> kernel \<Rightarrow> (Queue_t \<times> kernel) option" where
  "xQueueGenericReset n xNewQueue q k = do {
     let q = q\<lparr>pcTail := uint (uxLength q * uxItemSize q), uxMessagesWaiting := 0, pcWriteTo := 0,
       pcReadFrom := uint ((uxLength q - 1) * uxItemSize q), cRxLock := queueUNLOCKED, cTxLock := queueUNLOCKED\<rparr>;
     if xNewQueue
     then Some (q, k\<lparr>lists := l_init (xTasksWaitingToReceive n) (l_init (xTasksWaitingToSend n) (lists k))\<rparr>)
     else do {
       k \<leftarrow> wake_and_yield (xTasksWaitingToSend n) k;
       Some (q, k)
     }
   }"

definition prvInitialiseNewQueue :: "nat \<Rightarrow> u32 \<Rightarrow> u32 \<Rightarrow> u8 list \<Rightarrow> Queue_t \<Rightarrow> kernel \<Rightarrow> (Queue_t \<times> kernel) option" where
  "prvInitialiseNewQueue n uxQueueLength item_size bytes q k =
     xQueueGenericReset n True (q\<lparr>is_mutex := False, storage := bytes, uxLength := uxQueueLength, uxItemSize := item_size\<rparr>) k"

text \<open>
  \<open>memory\<close> answers the request for a number of bytes with a block, \<open>None\<close> when there is none; the
  bytes behind the structure are the storage. \<open>junk\<close> is the content of the structure's own memory.
  The number of bytes is computed in 32 bits.
\<close>

definition sizeof_Queue_t :: nat where "sizeof_Queue_t = 76"

definition xQueueGenericCreate ::
  "nat \<Rightarrow> u32 \<Rightarrow> u32 \<Rightarrow> (u32 \<Rightarrow> u8 list option) \<Rightarrow> Queue_t \<Rightarrow> kernel \<Rightarrow> (Queue_t \<times> kernel) option option" where
  "xQueueGenericCreate n uxQueueLength item_size memory junk k =
     (let xQueueSizeInBytes = (if item_size = 0 then 0 else uxQueueLength * item_size)
      in case memory (of_nat sizeof_Queue_t + xQueueSizeInBytes) of
           None \<Rightarrow> Some None
         | Some block \<Rightarrow>
             map_option Some (prvInitialiseNewQueue n uxQueueLength item_size (drop sizeof_Queue_t block) junk k))"

section \<open>Copying\<close>

definition prvCopyDataToQueue :: "u8 list \<Rightarrow> copy_position \<Rightarrow> Queue_t \<Rightarrow> kernel \<Rightarrow> (bool \<times> Queue_t \<times> kernel) option" where
  "prvCopyDataToQueue item xPosition q k = do {
     (yield, waiting, q, k) \<leftarrow>
       (if uxItemSize q = 0
        then if is_mutex q
             then do {
               (yield, k) \<leftarrow> xTaskPriorityDisinherit (pxMutexHolder q) k;
               Some (yield, uxMessagesWaiting q, q\<lparr>pxMutexHolder := None\<rparr>, k)
             }
             else Some (False, uxMessagesWaiting q, q, k)
        else if xPosition = queueSEND_TO_BACK
        then do {
          q \<leftarrow> store (pcWriteTo q) item q;
          let w = pcWriteTo q + item_bytes q;
          Some (False, uxMessagesWaiting q, q\<lparr>pcWriteTo := (if w \<ge> pcTail q then 0 else w)\<rparr>, k)
        }
        else do {
          q \<leftarrow> store (pcReadFrom q) item q;
          let r = pcReadFrom q - item_bytes q;
          let q = q\<lparr>pcReadFrom := (if r < 0 then pcTail q - item_bytes q else r)\<rparr>;
          Some (False, if xPosition = queueOVERWRITE \<and> uxMessagesWaiting q > 0 then uxMessagesWaiting q - 1 else uxMessagesWaiting q, q, k)
        });
     Some (yield, q\<lparr>uxMessagesWaiting := waiting + 1\<rparr>, k)
   }"

definition prvCopyDataFromQueue :: "Queue_t \<Rightarrow> (u8 list \<times> Queue_t) option" where
  "prvCopyDataFromQueue q =
     (if uxItemSize q \<noteq> 0
      then do {
        let r = pcReadFrom q + item_bytes q;
        let r = (if r \<ge> pcTail q then 0 else r);
        item \<leftarrow> load r q;
        Some (item, q\<lparr>pcReadFrom := r\<rparr>)
      }
      else Some ([], q))"

section \<open>Locking\<close>

definition prvLockQueue :: "Queue_t \<Rightarrow> Queue_t" where
  "prvLockQueue q =
     q\<lparr>cRxLock := (if cRxLock q = queueUNLOCKED then queueLOCKED_UNMODIFIED else cRxLock q),
       cTxLock := (if cTxLock q = queueUNLOCKED then queueLOCKED_UNMODIFIED else cTxLock q)\<rparr>"

text \<open>For each item that an interrupt added or removed while the queue was locked, one waiting task is woken.\<close>

fun unlock_loop :: "nat \<Rightarrow> klist \<Rightarrow> kernel \<Rightarrow> kernel option" where
  "unlock_loop 0 l k = Some k"
| "unlock_loop (Suc n) l k =
     (if k_list k l = [] then Some k
      else do {
        (higher, k) \<leftarrow> xTaskRemoveFromEventList l k;
        unlock_loop n l (if higher then vTaskMissedYield k else k)
      })"

definition prvUnlockQueue :: "nat \<Rightarrow> Queue_t \<Rightarrow> kernel \<Rightarrow> (Queue_t \<times> kernel) option" where
  "prvUnlockQueue n q k = do {
     k \<leftarrow> unlock_loop (nat (sint (cTxLock q))) (xTasksWaitingToReceive n) k;
     k \<leftarrow> unlock_loop (nat (sint (cRxLock q))) (xTasksWaitingToSend n) k;
     Some (q\<lparr>cTxLock := queueUNLOCKED, cRxLock := queueUNLOCKED\<rparr>, k)
   }"

definition prvIsQueueEmpty :: "Queue_t \<Rightarrow> bool" where
  "prvIsQueueEmpty q \<longleftrightarrow> uxMessagesWaiting q = 0"

definition prvIsQueueFull :: "Queue_t \<Rightarrow> bool" where
  "prvIsQueueFull q \<longleftrightarrow> uxMessagesWaiting q = uxLength q"

definition uxQueueMessagesWaiting :: "Queue_t \<Rightarrow> u32" where
  "uxQueueMessagesWaiting q = uxMessagesWaiting q"

definition uxQueueSpacesAvailable :: "Queue_t \<Rightarrow> u32" where
  "uxQueueSpacesAvailable q = uxLength q - uxMessagesWaiting q"

section \<open>Sending\<close>

type_synonym interrupt = "Queue_t \<times> kernel \<Rightarrow> (Queue_t \<times> kernel) option"

text \<open>A critical section ends the call with a result or leads to a wait with a timeout.\<close>

datatype 'a entered = Ended 'a | Wait TimeOut_t

definition set_timeout :: "TimeOut_t option \<Rightarrow> kernel \<Rightarrow> TimeOut_t" where
  "set_timeout xTimeOut k = (case xTimeOut of None \<Rightarrow> vTaskInternalSetTimeOutState k | Some t \<Rightarrow> t)"

definition send_enter ::
  "nat \<Rightarrow> u8 list \<Rightarrow> copy_position \<Rightarrow> TimeOut_t option \<Rightarrow> u32 \<Rightarrow> Queue_t \<Rightarrow> kernel \<Rightarrow> (bool entered \<times> Queue_t \<times> kernel) option" where
  "send_enter n item xCopyPosition xTimeOut xTicksToWait q k =
     (if uxMessagesWaiting q < uxLength q \<or> xCopyPosition = queueOVERWRITE
      then do {
        (yield, q, k) \<leftarrow> prvCopyDataToQueue item xCopyPosition q k;
        k \<leftarrow> (if k_list k (xTasksWaitingToReceive n) \<noteq> [] then wake_and_yield (xTasksWaitingToReceive n) k
             else Some (if yield then portYIELD k else k));
        Some (Ended True, q, k)
      }
      else if xTicksToWait = 0 then Some (Ended False, q, k)
      else Some (Wait (set_timeout xTimeOut k), q, k))"

text \<open>
  The wait: the result is the end of the call, or the timeout and the ticks for the next round.
\<close>

definition unlock_and_resume :: "nat \<Rightarrow> Queue_t \<Rightarrow> kernel \<Rightarrow> (bool \<times> Queue_t \<times> kernel) option" where
  "unlock_and_resume n q k = do {
     (q, k) \<leftarrow> prvUnlockQueue n q k;
     (yielded, k) \<leftarrow> xTaskResumeAll k;
     Some (yielded, q, k)
   }"

definition block_on :: "interrupt \<Rightarrow> nat \<Rightarrow> klist \<Rightarrow> u32 \<Rightarrow> Queue_t \<Rightarrow> kernel \<Rightarrow> (Queue_t \<times> kernel) option" where
  "block_on isr n l xTicksToWait q k = do {
     k \<leftarrow> vTaskPlaceOnEventList l xTicksToWait k;
     (q, k) \<leftarrow> isr (q, k);
     (yielded, q, k) \<leftarrow> unlock_and_resume n q k;
     Some (q, if yielded then k else portYIELD k)
   }"

definition send_wait ::
  "interrupt \<Rightarrow> interrupt \<Rightarrow> nat \<Rightarrow> TimeOut_t \<Rightarrow> u32 \<Rightarrow> Queue_t \<Rightarrow> kernel \<Rightarrow>
    ((bool + TimeOut_t \<times> u32) \<times> Queue_t \<times> kernel) option" where
  "send_wait isr1 isr2 n xTimeOut xTicksToWait q k = do {
     (q, k) \<leftarrow> isr1 (prvLockQueue q, vTaskSuspendAll k);
     let (expired, xTimeOut, xTicksToWait) = xTaskCheckForTimeOut xTimeOut xTicksToWait k;
     if \<not> expired
     then if prvIsQueueFull q
          then do {
            (q, k) \<leftarrow> block_on isr2 n (xTasksWaitingToSend n) xTicksToWait q k;
            Some (Inr (xTimeOut, xTicksToWait), q, k)
          }
          else do {
            (_, q, k) \<leftarrow> unlock_and_resume n q k;
            Some (Inr (xTimeOut, xTicksToWait), q, k)
          }
     else do {
       (_, q, k) \<leftarrow> unlock_and_resume n q k;
       Some (Inl False, q, k)
     }
   }"

text \<open>One round of \<open>xQueueGenericSend\<close>.\<close>

definition xQueueGenericSend ::
  "interrupt \<Rightarrow> interrupt \<Rightarrow> nat \<Rightarrow> u8 list \<Rightarrow> copy_position \<Rightarrow> TimeOut_t option \<Rightarrow> u32 \<Rightarrow> Queue_t \<Rightarrow> kernel \<Rightarrow>
    ((bool + TimeOut_t \<times> u32) \<times> Queue_t \<times> kernel) option" where
  "xQueueGenericSend isr1 isr2 n item xCopyPosition xTimeOut xTicksToWait q k = do {
     (s, q, k) \<leftarrow> send_enter n item xCopyPosition xTimeOut xTicksToWait q k;
     case s of Ended b \<Rightarrow> Some (Inl b, q, k) | Wait t \<Rightarrow> send_wait isr1 isr2 n t xTicksToWait q k
   }"

text \<open>
  From an interrupt: the event list is left alone while the queue is locked, and the change is
  counted in the lock. The results are success and whether a task of higher priority was woken.
\<close>

definition xQueueGenericSendFromISR :: "nat \<Rightarrow> u8 list \<Rightarrow> copy_position \<Rightarrow> Queue_t \<Rightarrow> kernel \<Rightarrow> (bool \<times> bool \<times> Queue_t \<times> kernel) option" where
  "xQueueGenericSendFromISR n item xCopyPosition q k =
     (if uxMessagesWaiting q < uxLength q \<or> xCopyPosition = queueOVERWRITE
      then do {
        let lock = cTxLock q;
        (_, q, k) \<leftarrow> prvCopyDataToQueue item xCopyPosition q k;
        if lock = queueUNLOCKED
        then do {
          (woken, k) \<leftarrow> wake_waiting (xTasksWaitingToReceive n) k;
          Some (True, woken, q, k)
        }
        else Some (True, False, q\<lparr>cTxLock := lock + 1\<rparr>, k)
      }
      else Some (False, False, q, k))"

definition xQueueGiveFromISR :: "nat \<Rightarrow> Queue_t \<Rightarrow> kernel \<Rightarrow> (bool \<times> bool \<times> Queue_t \<times> kernel) option" where
  "xQueueGiveFromISR n q k =
     (if uxMessagesWaiting q < uxLength q
      then do {
        let lock = cTxLock q;
        let q = q\<lparr>uxMessagesWaiting := uxMessagesWaiting q + 1\<rparr>;
        if lock = queueUNLOCKED
        then do {
          (woken, k) \<leftarrow> wake_waiting (xTasksWaitingToReceive n) k;
          Some (True, woken, q, k)
        }
        else Some (True, False, q\<lparr>cTxLock := lock + 1\<rparr>, k)
      }
      else Some (False, False, q, k))"

section \<open>Receiving\<close>

text \<open>The buffer is \<open>None\<close> when the call has no item.\<close>

definition receive_enter ::
  "nat \<Rightarrow> TimeOut_t option \<Rightarrow> u32 \<Rightarrow> Queue_t \<Rightarrow> kernel \<Rightarrow> (u8 list option entered \<times> Queue_t \<times> kernel) option" where
  "receive_enter n xTimeOut xTicksToWait q k =
     (if uxMessagesWaiting q > 0
      then do {
        (item, q) \<leftarrow> prvCopyDataFromQueue q;
        let q = q\<lparr>uxMessagesWaiting := uxMessagesWaiting q - 1\<rparr>;
        k \<leftarrow> wake_and_yield (xTasksWaitingToSend n) k;
        Some (Ended (Some item), q, k)
      }
      else if xTicksToWait = 0 then Some (Ended None, q, k)
      else Some (Wait (set_timeout xTimeOut k), q, k))"

definition peek_enter ::
  "nat \<Rightarrow> TimeOut_t option \<Rightarrow> u32 \<Rightarrow> Queue_t \<Rightarrow> kernel \<Rightarrow> (u8 list option entered \<times> Queue_t \<times> kernel) option" where
  "peek_enter n xTimeOut xTicksToWait q k =
     (if uxMessagesWaiting q > 0
      then do {
        let pcOriginalReadPosition = pcReadFrom q;
        (item, q) \<leftarrow> prvCopyDataFromQueue q;
        let q = q\<lparr>pcReadFrom := pcOriginalReadPosition\<rparr>;
        k \<leftarrow> wake_and_yield (xTasksWaitingToReceive n) k;
        Some (Ended (Some item), q, k)
      }
      else if xTicksToWait = 0 then Some (Ended None, q, k)
      else Some (Wait (set_timeout xTimeOut k), q, k))"

text \<open>
  The wait of the receiving calls. When the time is over but an item has come, the loop goes
  round once more with the ticks that \<open>xTaskCheckForTimeOut\<close> left.
\<close>

definition receive_wait ::
  "interrupt \<Rightarrow> interrupt \<Rightarrow> nat \<Rightarrow> TimeOut_t \<Rightarrow> u32 \<Rightarrow> Queue_t \<Rightarrow> kernel \<Rightarrow>
    ((u8 list option + TimeOut_t \<times> u32) \<times> Queue_t \<times> kernel) option" where
  "receive_wait isr1 isr2 n xTimeOut xTicksToWait q k = do {
     (q, k) \<leftarrow> isr1 (prvLockQueue q, vTaskSuspendAll k);
     let (expired, xTimeOut, xTicksToWait) = xTaskCheckForTimeOut xTimeOut xTicksToWait k;
     if \<not> expired
     then if prvIsQueueEmpty q
          then do {
            (q, k) \<leftarrow> block_on isr2 n (xTasksWaitingToReceive n) xTicksToWait q k;
            Some (Inr (xTimeOut, xTicksToWait), q, k)
          }
          else do {
            (_, q, k) \<leftarrow> unlock_and_resume n q k;
            Some (Inr (xTimeOut, xTicksToWait), q, k)
          }
     else do {
       (_, q, k) \<leftarrow> unlock_and_resume n q k;
       Some (if prvIsQueueEmpty q then Inl None else Inr (xTimeOut, xTicksToWait), q, k)
     }
   }"

definition xQueueReceive ::
  "interrupt \<Rightarrow> interrupt \<Rightarrow> nat \<Rightarrow> TimeOut_t option \<Rightarrow> u32 \<Rightarrow> Queue_t \<Rightarrow> kernel \<Rightarrow>
    ((u8 list option + TimeOut_t \<times> u32) \<times> Queue_t \<times> kernel) option" where
  "xQueueReceive isr1 isr2 n xTimeOut xTicksToWait q k = do {
     (s, q, k) \<leftarrow> receive_enter n xTimeOut xTicksToWait q k;
     case s of Ended b \<Rightarrow> Some (Inl b, q, k) | Wait t \<Rightarrow> receive_wait isr1 isr2 n t xTicksToWait q k
   }"

definition xQueuePeek ::
  "interrupt \<Rightarrow> interrupt \<Rightarrow> nat \<Rightarrow> TimeOut_t option \<Rightarrow> u32 \<Rightarrow> Queue_t \<Rightarrow> kernel \<Rightarrow>
    ((u8 list option + TimeOut_t \<times> u32) \<times> Queue_t \<times> kernel) option" where
  "xQueuePeek isr1 isr2 n xTimeOut xTicksToWait q k = do {
     (s, q, k) \<leftarrow> peek_enter n xTimeOut xTicksToWait q k;
     case s of Ended b \<Rightarrow> Some (Inl b, q, k) | Wait t \<Rightarrow> receive_wait isr1 isr2 n t xTicksToWait q k
   }"

definition xQueueReceiveFromISR :: "nat \<Rightarrow> Queue_t \<Rightarrow> kernel \<Rightarrow> (u8 list option \<times> bool \<times> Queue_t \<times> kernel) option" where
  "xQueueReceiveFromISR n q k =
     (if uxMessagesWaiting q > 0
      then do {
        let lock = cRxLock q;
        (item, q) \<leftarrow> prvCopyDataFromQueue q;
        let q = q\<lparr>uxMessagesWaiting := uxMessagesWaiting q - 1\<rparr>;
        if lock = queueUNLOCKED
        then do {
          (woken, k) \<leftarrow> wake_waiting (xTasksWaitingToSend n) k;
          Some (Some item, woken, q, k)
        }
        else Some (Some item, False, q\<lparr>cRxLock := lock + 1\<rparr>, k)
      }
      else Some (None, False, q, k))"

definition xQueuePeekFromISR :: "Queue_t \<Rightarrow> (u8 list option \<times> Queue_t) option" where
  "xQueuePeekFromISR q =
     (if uxMessagesWaiting q > 0
      then do {
        (item, q') \<leftarrow> prvCopyDataFromQueue q;
        Some (Some item, q'\<lparr>pcReadFrom := pcReadFrom q\<rparr>)
      }
      else Some (None, q))"

section \<open>Semaphores and mutexes\<close>

definition take_enter :: "nat \<Rightarrow> TimeOut_t option \<Rightarrow> u32 \<Rightarrow> Queue_t \<Rightarrow> kernel \<Rightarrow> (bool entered \<times> Queue_t \<times> kernel) option" where
  "take_enter n xTimeOut xTicksToWait q k =
     (if uxMessagesWaiting q > 0
      then do {
        let q = q\<lparr>uxMessagesWaiting := uxMessagesWaiting q - 1\<rparr>;
        let (q, k) = (if is_mutex q then let (t, k) = pvTaskIncrementMutexHeldCount k in (q\<lparr>pxMutexHolder := t\<rparr>, k) else (q, k));
        k \<leftarrow> wake_and_yield (xTasksWaitingToSend n) k;
        Some (Ended True, q, k)
      }
      else if xTicksToWait = 0 then Some (Ended False, q, k)
      else Some (Wait (set_timeout xTimeOut k), q, k))"

text \<open>The highest priority among the tasks that still wait, from the value of the first item.\<close>

definition prvGetDisinheritPriorityAfterTimeout :: "nat \<Rightarrow> kernel \<Rightarrow> nat" where
  "prvGetDisinheritPriorityAfterTimeout n k =
     (case k_list k (xTasksWaitingToReceive n) of [] \<Rightarrow> 0 | i # _ \<Rightarrow> unat (of_nat configMAX_PRIORITIES - k_value k i))"

text \<open>\<open>inherited\<close> is \<open>xInheritanceOccurred\<close>, kept from round to round.\<close>

definition take_wait ::
  "interrupt \<Rightarrow> interrupt \<Rightarrow> nat \<Rightarrow> bool \<Rightarrow> TimeOut_t \<Rightarrow> u32 \<Rightarrow> Queue_t \<Rightarrow> kernel \<Rightarrow>
    ((bool + bool \<times> TimeOut_t \<times> u32) \<times> Queue_t \<times> kernel) option" where
  "take_wait isr1 isr2 n inherited xTimeOut xTicksToWait q k = do {
     (q, k) \<leftarrow> isr1 (prvLockQueue q, vTaskSuspendAll k);
     let (expired, xTimeOut, xTicksToWait) = xTaskCheckForTimeOut xTimeOut xTicksToWait k;
     if \<not> expired
     then if prvIsQueueEmpty q
          then do {
            (inherited, k) \<leftarrow> (if is_mutex q then xTaskPriorityInherit (pxMutexHolder q) k else Some (inherited, k));
            (q, k) \<leftarrow> block_on isr2 n (xTasksWaitingToReceive n) xTicksToWait q k;
            Some (Inr (inherited, xTimeOut, xTicksToWait), q, k)
          }
          else do {
            (_, q, k) \<leftarrow> unlock_and_resume n q k;
            Some (Inr (inherited, xTimeOut, xTicksToWait), q, k)
          }
     else do {
       (_, q, k) \<leftarrow> unlock_and_resume n q k;
       if prvIsQueueEmpty q
       then do {
         k \<leftarrow> (if inherited
              then vTaskPriorityDisinheritAfterTimeout (pxMutexHolder q) (prvGetDisinheritPriorityAfterTimeout n k) k else Some k);
         Some (Inl False, q, k)
       }
       else Some (Inr (inherited, xTimeOut, xTicksToWait), q, k)
     }
   }"

definition xQueueSemaphoreTake ::
  "interrupt \<Rightarrow> interrupt \<Rightarrow> nat \<Rightarrow> bool \<Rightarrow> TimeOut_t option \<Rightarrow> u32 \<Rightarrow> Queue_t \<Rightarrow> kernel \<Rightarrow>
    ((bool + bool \<times> TimeOut_t \<times> u32) \<times> Queue_t \<times> kernel) option" where
  "xQueueSemaphoreTake isr1 isr2 n inherited xTimeOut xTicksToWait q k = do {
     (s, q, k) \<leftarrow> take_enter n xTimeOut xTicksToWait q k;
     case s of Ended b \<Rightarrow> Some (Inl b, q, k) | Wait t \<Rightarrow> take_wait isr1 isr2 n inherited t xTicksToWait q k
   }"

text \<open>Without waiting, a send is its critical section.\<close>

definition give :: "nat \<Rightarrow> Queue_t \<Rightarrow> kernel \<Rightarrow> (bool \<times> Queue_t \<times> kernel) option" where
  "give n q k = do {
     (s, q, k) \<leftarrow> send_enter n [] queueSEND_TO_BACK None 0 q k;
     Some (case s of Ended b \<Rightarrow> b | Wait _ \<Rightarrow> False, q, k)
   }"

definition prvInitialiseMutex :: "nat \<Rightarrow> Queue_t \<Rightarrow> kernel \<Rightarrow> (Queue_t \<times> kernel) option" where
  "prvInitialiseMutex n q k = do {
     (_, q, k) \<leftarrow> give n (q\<lparr>pxMutexHolder := None, is_mutex := True, uxRecursiveCallCount := 0\<rparr>) k;
     Some (q, k)
   }"

definition xQueueCreateMutex :: "nat \<Rightarrow> (u32 \<Rightarrow> u8 list option) \<Rightarrow> Queue_t \<Rightarrow> kernel \<Rightarrow> (Queue_t \<times> kernel) option option" where
  "xQueueCreateMutex n memory junk k = do {
     r \<leftarrow> xQueueGenericCreate n 1 0 memory junk k;
     case r of None \<Rightarrow> Some None | Some (q, k) \<Rightarrow> map_option Some (prvInitialiseMutex n q k)
   }"

definition xQueueCreateCountingSemaphore ::
  "nat \<Rightarrow> u32 \<Rightarrow> u32 \<Rightarrow> (u32 \<Rightarrow> u8 list option) \<Rightarrow> Queue_t \<Rightarrow> kernel \<Rightarrow> (Queue_t \<times> kernel) option option" where
  "xQueueCreateCountingSemaphore n uxMaxCount uxInitialCount memory junk k =
     map_option (map_option (\<lambda>(q, k). (q\<lparr>uxMessagesWaiting := uxInitialCount\<rparr>, k))) (xQueueGenericCreate n uxMaxCount 0 memory junk k)"

definition xQueueGiveMutexRecursive :: "nat \<Rightarrow> Queue_t \<Rightarrow> kernel \<Rightarrow> (bool \<times> Queue_t \<times> kernel) option" where
  "xQueueGiveMutexRecursive n q k =
     (if pxMutexHolder q = pxCurrentTCB k
      then do {
        let q = q\<lparr>uxRecursiveCallCount := uxRecursiveCallCount q - 1\<rparr>;
        if uxRecursiveCallCount q = 0
        then do {
          (_, q, k) \<leftarrow> give n q k;
          Some (True, q, k)
        }
        else Some (True, q, k)
      }
      else Some (False, q, k))"

text \<open>One round of \<open>xQueueTakeMutexRecursive\<close>.\<close>

definition xQueueTakeMutexRecursive ::
  "interrupt \<Rightarrow> interrupt \<Rightarrow> nat \<Rightarrow> bool \<Rightarrow> TimeOut_t option \<Rightarrow> u32 \<Rightarrow> Queue_t \<Rightarrow> kernel \<Rightarrow>
    ((bool + bool \<times> TimeOut_t \<times> u32) \<times> Queue_t \<times> kernel) option" where
  "xQueueTakeMutexRecursive isr1 isr2 n inherited xTimeOut xTicksToWait q k =
     (if pxMutexHolder q = pxCurrentTCB k
      then Some (Inl True, q\<lparr>uxRecursiveCallCount := uxRecursiveCallCount q + 1\<rparr>, k)
      else do {
        (r, q, k) \<leftarrow> xQueueSemaphoreTake isr1 isr2 n inherited xTimeOut xTicksToWait q k;
        Some (r, if r = Inl True then q\<lparr>uxRecursiveCallCount := uxRecursiveCallCount q + 1\<rparr> else q, k)
      })"

end
