(* ===== verification/Rtos_Fifo.thy ===== *)
theory Rtos_Fifo
  imports Rtos_Queue
begin

text \<open>
  The ring buffer of a queue holds a first-in first-out sequence of messages: the interface of
  such a sequence as the locale \<open>bounded_fifo\<close>, its laws for the queue of \<open>queue.c\<close>, and the order
  of the messages for every sequence of calls.
\<close>

section \<open>Slots\<close>

lemma concat_slots:
  assumes "\<forall>b \<in> set bs. length b = s" "i < length bs" "length item = s"
  shows "take s (drop (i * s) (concat bs)) = bs ! i"
    "take (i * s) (concat bs) @ item @ drop (s + i * s) (concat bs) = concat (bs[i := item])"
  using assms
proof (induction bs arbitrary: i)
  case (Cons b bs)
  { case 1
    then show ?case using Cons.IH(1) by (cases i) simp_all
  next
    case 2
    then show ?case using Cons.IH(2) by (cases i) simp_all
  }
qed simp_all

lemma length_concat_slots: "\<forall>b \<in> set bs. length b = s \<Longrightarrow> length (concat bs) = length bs * s"
  by (induction bs) simp_all

text \<open>Arithmetic of the ring.\<close>

lemma ring_neq: "i < m \<Longrightarrow> m < N \<Longrightarrow> (c + i) mod N \<noteq> (c + m) mod (N :: nat)"
proof
  assume "i < m" "m < N" "(c + i) mod N = (c + m) mod N"
  then have "N dvd (c + m) - (c + i)" by (metis mod_eq_dvd_iff_nat add_le_cancel_left less_imp_le)
  then have "N dvd m - i" by simp
  then show False using \<open>i < m\<close> \<open>m < N\<close> by (auto dest: dvd_imp_le)
qed

lemma ring_step: "w < N \<Longrightarrow> (if N \<le> Suc w then 0 else Suc w) = Suc w mod N"
  by (auto simp: le_Suc_eq)

lemma ring_back: "r < N \<Longrightarrow> Suc ((r + (N - 1)) mod N) mod N = (r :: nat)"
proof -
  assume "r < N"
  have "Suc ((r + (N - 1)) mod N) mod N = Suc (r + (N - 1)) mod N" by (simp add: mod_Suc_eq)
  also have "Suc (r + (N - 1)) = r + N" using \<open>r < N\<close> by simp
  finally show ?thesis using \<open>r < N\<close> by simp
qed

section \<open>Contents\<close>

text \<open>The queue has \<open>N\<close> slots of \<open>s\<close> bytes; the slot behind \<open>pcReadFrom\<close> holds the first message.\<close>

definition ring :: "Queue_t \<Rightarrow> nat \<Rightarrow> nat \<Rightarrow> nat \<Rightarrow> nat \<Rightarrow> u8 list list \<Rightarrow> bool" where
  "ring q N s w r bs \<longleftrightarrow> N = unat (uxLength q) \<and> s = unat (uxItemSize q) \<and> 0 < s \<and> \<not> is_mutex q \<and>
     storage q = concat bs \<and> length bs = N \<and> (\<forall>b \<in> set bs. length b = s) \<and>
     pcTail q = int (N * s) \<and> pcWriteTo q = int (w * s) \<and> w < N \<and> pcReadFrom q = int (r * s) \<and> r < N"

definition holds :: "Queue_t \<Rightarrow> u8 list list \<Rightarrow> bool" where
  "holds q xs \<longleftrightarrow> (\<exists>N s w r bs. ring q N s w r bs \<and> length xs = unat (uxMessagesWaiting q) \<and> length xs \<le> N \<and>
     w = (Suc r + length xs) mod N \<and> (\<forall>i < length xs. xs ! i = bs ! ((Suc r + i) mod N)))"

text \<open>Storing into a slot and loading from one.\<close>

lemma ring_store:
  assumes "ring q N s w r bs" "i < N" "length item = s"
  shows "store (int (i * s)) item q = Some (q\<lparr>storage := concat (bs[i := item])\<rparr>)"
    "ring (q\<lparr>storage := concat (bs[i := item])\<rparr>) N s w r (bs[i := item])"
proof -
  have r: "storage q = concat bs" "length bs = N" "\<forall>b \<in> set bs. length b = s" "uint (uxItemSize q) = int s"
    using assms(1) by (simp_all add: ring_def)
  have "i * s + s \<le> N * s" using assms(2) by (metis Suc_leI add.commute mult_Suc mult_le_mono1)
  then have "int (i * s) + int s \<le> int (length (storage q))" using r length_concat_slots [OF r(3)] by (metis of_nat_add of_nat_le_iff)
  then show "store (int (i * s)) item q = Some (q\<lparr>storage := concat (bs[i := item])\<rparr>)"
    using concat_slots(2) [OF r(3), of i item] assms(2,3) r by (simp add: store_def add.commute del: of_nat_mult)
  show "ring (q\<lparr>storage := concat (bs[i := item])\<rparr>) N s w r (bs[i := item])"
    using assms by (auto simp: ring_def dest!: set_update_subset_insert [THEN subsetD])
qed

lemma ring_load:
  assumes "ring q N s w r bs" "i < N"
  shows "load (int (i * s)) q = Some (bs ! i)"
proof -
  have r: "storage q = concat bs" "length bs = N" "\<forall>b \<in> set bs. length b = s" "uint (uxItemSize q) = int s"
    using assms(1) by (simp_all add: ring_def)
  have "i * s + s \<le> N * s" using assms(2) by (metis Suc_leI add.commute mult_Suc mult_le_mono1)
  then have "int (i * s) + int s \<le> int (length (storage q))" using r length_concat_slots [OF r(3)] by (metis of_nat_add of_nat_le_iff)
  then show ?thesis using concat_slots(1) [OF r(3), of i "replicate s 0"] assms(2) r by (simp add: load_def del: of_nat_mult)
qed

text \<open>Copying a message into the queue, at the back and at the front, and out of it.\<close>

lemma unat_less_Suc: "unat (w :: u32) < unat (v :: u32) \<Longrightarrow> unat (w + 1) = Suc (unat w)"
proof -
  assume "unat w < unat v"
  moreover have "unat v < 2 ^ 32" by (rule unat_u32_less)
  moreover have "unat (- 1 :: u32) = 2 ^ 32 - 1" by (simp add: unsigned_minus_1_eq_mask mask_eq_exp_minus_1)
  ultimately have "w \<noteq> - 1" by auto
  then have "1 + w \<noteq> 0" by (metis add.commute u32_max)
  from unatSuc [OF this] show ?thesis by (simp add: add.commute)
qed

lemma copy_back:
  assumes "holds q xs" "length item = unat (uxItemSize q)" "uxMessagesWaiting q < uxLength q"
  shows "\<exists>q'. prvCopyDataToQueue item queueSEND_TO_BACK q k = Some (False, q', k) \<and> holds q' (xs @ [item]) \<and>
    uxItemSize q' = uxItemSize q \<and> uxLength q' = uxLength q \<and> cTxLock q' = cTxLock q \<and> cRxLock q' = cRxLock q"
proof -
  obtain N s w r bs where ring: "ring q N s w r bs" and m: "length xs = unat (uxMessagesWaiting q)" "length xs \<le> N"
    and w: "w = (Suc r + length xs) mod N" and xs: "\<forall>i < length xs. xs ! i = bs ! ((Suc r + i) mod N)" using assms(1) by (auto simp: holds_def)
  have f: "N = unat (uxLength q)" "s = unat (uxItemSize q)" "0 < s" "pcTail q = int (N * s)" "pcWriteTo q = int (w * s)" "w < N" using ring by (simp_all add: ring_def)
  have full: "length xs < N" using assms(3) m(1) f(1) by (simp add: word_less_nat_alt)
  note st = ring_store [OF ring f(6), of item]
  define q1 where "q1 = q\<lparr>storage := concat (bs[w := item])\<rparr>"
  define q' where "q' = q1\<lparr>pcWriteTo := int (Suc w mod N * s), uxMessagesWaiting := uxMessagesWaiting q + 1\<rparr>"
  have wrap: "(if int (w * s) + int s \<ge> int (N * s) then 0 else int (w * s) + int s) = int (Suc w mod N * s)"
  proof -
    have "int (w * s) + int s = int (Suc w * s)" by simp
    moreover have "int (Suc w * s) \<ge> int (N * s) \<longleftrightarrow> Suc w \<ge> N" using f(3) by (metis mult_le_cancel2 of_nat_le_iff)
    ultimately show ?thesis using ring_step [OF f(6)] by (cases "N \<le> Suc w") (simp_all del: mult_Suc)
  qed
  have sz: "item_bytes q = int s" "length item = s" using f(2) assms(2) by simp_all
  note len = sz(2)
  have "uxItemSize q \<noteq> 0" using f(2,3) by auto
  then have "prvCopyDataToQueue item queueSEND_TO_BACK q k = Some (False, q', k)"
    using st(1) [OF len] sz f(4,5) wrap
    by (cases "int (N * s) \<le> int (w * s) + int s") (simp_all add: prvCopyDataToQueue_def q1_def q'_def Let_def del: of_nat_mult)
  moreover have "holds q' (xs @ [item])"
  proof -
    have "ring q' N s (Suc w mod N) r (bs[w := item])" using st(2) assms(2) f by (simp add: ring_def q'_def q1_def)
    moreover have "unat (uxMessagesWaiting q') = length (xs @ [item])"
      using m(1) unat_less_Suc [of "uxMessagesWaiting q" "uxLength q"] full f(1) by (simp add: q'_def)
    moreover have "Suc w mod N = (Suc r + length (xs @ [item])) mod N" by (simp add: w mod_Suc_eq)
    moreover have "(xs @ [item]) ! i = bs[w := item] ! ((Suc r + i) mod N)" if "i < length (xs @ [item])" for i
    proof (cases "i = length xs")
      case True
      then show ?thesis using w f(6) ring by (simp add: ring_def)
    next
      case False
      then have i: "i < length xs" using that by simp
      then show ?thesis using ring_neq [OF i full, of "Suc r"] xs w by (simp add: nth_append)
    qed
    ultimately show ?thesis using full unfolding holds_def by (metis Suc_leI length_append_singleton)
  qed
  ultimately show ?thesis by (auto simp: q'_def q1_def)
qed

lemma copy_front:
  assumes "holds q xs" "length item = unat (uxItemSize q)" "uxMessagesWaiting q < uxLength q \<or> pos = queueOVERWRITE"
    "pos = queueSEND_TO_FRONT \<or> pos = queueOVERWRITE \<and> uxLength q = 1"
  shows "\<exists>q'. prvCopyDataToQueue item pos q k = Some (False, q', k) \<and> holds q' (if pos = queueOVERWRITE then [item] else item # xs) \<and>
    uxItemSize q' = uxItemSize q \<and> uxLength q' = uxLength q \<and> cTxLock q' = cTxLock q \<and> cRxLock q' = cRxLock q"
proof -
  obtain N s w r bs where ring: "ring q N s w r bs" and m: "length xs = unat (uxMessagesWaiting q)" "length xs \<le> N"
    and w: "w = (Suc r + length xs) mod N" and xs: "\<forall>i < length xs. xs ! i = bs ! ((Suc r + i) mod N)" using assms(1) by (auto simp: holds_def)
  have f: "N = unat (uxLength q)" "s = unat (uxItemSize q)" "0 < s" "pcTail q = int (N * s)" "pcReadFrom q = int (r * s)" "r < N" using ring by (simp_all add: ring_def)
  have sz: "item_bytes q = int s" "length item = s" "uxItemSize q \<noteq> 0" using f(2,3) assms(2) by auto
  note st = ring_store [OF ring f(6) sz(2)]
  define r' where "r' = (r + (N - 1)) mod N"
  define m' where "m' = (if pos = queueOVERWRITE \<and> uxMessagesWaiting q > 0 then uxMessagesWaiting q - 1 else uxMessagesWaiting q)"
  define q' where "q' = q\<lparr>storage := concat (bs[r := item]), pcReadFrom := int (r' * s), uxMessagesWaiting := m' + 1\<rparr>"
  have r'N: "r' < N" using f(6) by (simp add: r'_def)
  have wrap: "(if int (r * s) - int s < 0 then int (N * s) - int s else int (r * s) - int s) = int (r' * s)"
  proof (cases r)
    case 0
    then have "r' = N - 1" using f(6) by (simp add: r'_def)
    then show ?thesis using 0 f(3,6) by (simp add: algebra_simps of_nat_diff)
  next
    case (Suc p)
    then have "r + (N - 1) = p + N" "p < N" using f(6) by simp_all
    then have "r' = p" by (simp add: r'_def)
    then show ?thesis using Suc by (simp add: algebra_simps mult_less_0_iff)
  qed
  have eq: "prvCopyDataToQueue item pos q k = Some (False, q', k)"
    using st(1) sz f(4,5) wrap assms(4)
    by (cases "int (r * s) - int s < 0") (auto simp: prvCopyDataToQueue_def q'_def m'_def Let_def simp del: of_nat_mult)
  have ring': "ring q' N s w r' (bs[r := item])" using st(2) r'N by (simp add: ring_def q'_def)
  have first: "bs[r := item] ! (Suc r' mod N) = item" using ring_back [OF f(6)] f(6) ring by (simp add: r'_def ring_def)
  show ?thesis
  proof (cases "pos = queueOVERWRITE")
    case True
    then have N: "N = 1" using assms(4) f(1) by simp
    have "uxMessagesWaiting q \<le> 1" using m N by (simp add: word_le_nat_alt)
    then have "m' = 0" using True by (auto simp: m'_def word_le_nat_alt unat_eq_Suc_0 le_Suc_eq unat_eq_zero)
    then have "holds q' [item]" unfolding holds_def using ring' N first w
      by (intro exI [of _ N] exI [of _ s] exI [of _ w] exI [of _ r'] exI [of _ "bs[r := item]"]) (simp add: q'_def)
    then show ?thesis using eq True by (auto simp: q'_def)
  next
    case False
    then have full: "length xs < N" "m' = uxMessagesWaiting q" using assms(3) m(1) f(1) by (simp_all add: word_less_nat_alt m'_def)
    have around: "(Suc r' + Suc i) mod N = (Suc r + i) mod N" for i using ring_back [OF f(6)]
      by (metis add_Suc_right add_Suc mod_Suc_eq mod_add_left_eq r'_def)
    have "(item # xs) ! i = bs[r := item] ! ((Suc r' + i) mod N)" if "i < length (item # xs)" for i
    proof (cases i)
      case 0
      then show ?thesis using first by simp
    next
      case (Suc j)
      then have "(r + Suc j) mod N \<noteq> r" using ring_neq [of 0 "Suc j" N r] that full(1) f(6) by simp
      then show ?thesis using Suc that xs around [of j] by simp
    qed
    moreover have "w = (Suc r' + length (item # xs)) mod N" using w around by simp
    moreover have "unat (uxMessagesWaiting q') = length (item # xs)"
      using m(1) full unat_less_Suc [of "uxMessagesWaiting q" "uxLength q"] f(1) by (simp add: q'_def)
    ultimately have "holds q' (item # xs)" unfolding holds_def using ring' full(1) by (metis Suc_leI length_Cons)
    then show ?thesis using eq False by (auto simp: q'_def)
  qed
qed

lemma copy_out:
  assumes "holds q xs" "uxMessagesWaiting q > 0"
  shows "\<exists>q'. prvCopyDataFromQueue q = Some (hd xs, q') \<and> xs \<noteq> [] \<and> holds (q'\<lparr>uxMessagesWaiting := uxMessagesWaiting q' - 1\<rparr>) (tl xs) \<and>
    q'\<lparr>pcReadFrom := pcReadFrom q\<rparr> = q \<and> uxMessagesWaiting q' = uxMessagesWaiting q \<and> uxItemSize q' = uxItemSize q \<and> uxLength q' = uxLength q \<and>
    cTxLock q' = cTxLock q \<and> cRxLock q' = cRxLock q"
proof -
  obtain N s w r bs where ring: "ring q N s w r bs" and m: "length xs = unat (uxMessagesWaiting q)" "length xs \<le> N"
    and w: "w = (Suc r + length xs) mod N" and xs: "\<forall>i < length xs. xs ! i = bs ! ((Suc r + i) mod N)" using assms(1) by (auto simp: holds_def)
  have f: "N = unat (uxLength q)" "s = unat (uxItemSize q)" "0 < s" "pcTail q = int (N * s)" "pcReadFrom q = int (r * s)" "r < N" using ring by (simp_all add: ring_def)
  have sz: "item_bytes q = int s" "uxItemSize q \<noteq> 0" using f(2,3) by auto
  have ne: "xs \<noteq> []" using m(1) assms(2) by (auto simp: word_less_nat_alt)
  define r' where "r' = Suc r mod N"
  have r'N: "r' < N" using f(6) by (simp add: r'_def)
  have wrap: "(if int (r * s) + int s \<ge> int (N * s) then 0 else int (r * s) + int s) = int (r' * s)"
  proof -
    have "int (r * s) + int s = int (Suc r * s)" by simp
    moreover have "int (Suc r * s) \<ge> int (N * s) \<longleftrightarrow> Suc r \<ge> N" using f(3) by (metis mult_le_cancel2 of_nat_le_iff)
    ultimately show ?thesis using ring_step [OF f(6)] by (cases "N \<le> Suc r") (simp_all add: r'_def del: mult_Suc)
  qed
  define q' where "q' = q\<lparr>pcReadFrom := int (r' * s)\<rparr>"
  have hd: "hd xs = bs ! r'" using xs ne by (simp add: hd_conv_nth r'_def)
  have eq: "prvCopyDataFromQueue q = Some (hd xs, q')"
    using ring_load [OF ring r'N] sz f(4,5) wrap hd by (simp add: prvCopyDataFromQueue_def q'_def Let_def del: of_nat_mult)
  have "holds (q'\<lparr>uxMessagesWaiting := uxMessagesWaiting q' - 1\<rparr>) (tl xs)"
  proof -
    have "ring (q'\<lparr>uxMessagesWaiting := uxMessagesWaiting q' - 1\<rparr>) N s w r' bs" using ring r'N by (simp add: ring_def q'_def)
    moreover have "length (tl xs) = unat (uxMessagesWaiting q - 1)"
      using m(1) unat_minus_one [of "uxMessagesWaiting q"] assms(2) by (simp add: word_neq_0_conv)
    moreover have "w = (Suc r' + length (tl xs)) mod N"
      using w ne by (simp add: r'_def mod_Suc_eq mod_add_left_eq [symmetric]) (metis One_nat_def Suc_pred add_Suc add_Suc_right length_greater_0_conv mod_Suc_eq mod_add_left_eq)
    moreover have "tl xs ! i = bs ! ((Suc r' + i) mod N)" if "i < length (tl xs)" for i
    proof -
      have "(Suc r' + i) mod N = (Suc r + Suc i) mod N" by (metis add_Suc add_Suc_right mod_Suc_eq mod_add_left_eq r'_def)
      then show ?thesis using xs that by (simp add: nth_tl)
    qed
    ultimately show ?thesis unfolding holds_def using m(2) by (intro exI [of _ N] exI [of _ s] exI [of _ w] exI [of _ r'] exI [of _ bs]) (simp add: q'_def)
  qed
  then show ?thesis using eq ne by (auto simp: q'_def)
qed

section \<open>The interface of a bounded queue\<close>

datatype 'm queue_op = Send copy_position 'm | Receive | Peek

datatype 'm queue_result = Sent bool | Got "'m option"

text \<open>The abstract queue: a sequence of at most \<open>cap\<close> messages.\<close>

fun fifo_step :: "nat \<Rightarrow> 'm queue_op \<Rightarrow> 'm list \<Rightarrow> 'm queue_result \<times> 'm list" where
  "fifo_step cap (Send queueSEND_TO_BACK m) xs = (if length xs < cap then (Sent True, xs @ [m]) else (Sent False, xs))"
| "fifo_step cap (Send queueSEND_TO_FRONT m) xs = (if length xs < cap then (Sent True, m # xs) else (Sent False, xs))"
| "fifo_step cap (Send queueOVERWRITE m) xs = (Sent True, [m])"
| "fifo_step cap Receive xs = (case xs of [] \<Rightarrow> (Got None, []) | x # xs \<Rightarrow> (Got (Some x), xs))"
| "fifo_step cap Peek xs = (case xs of [] \<Rightarrow> (Got None, []) | x # _ \<Rightarrow> (Got (Some x), xs))"

fun fifo_run :: "nat \<Rightarrow> 'm queue_op list \<Rightarrow> 'm list \<Rightarrow> 'm queue_result list \<times> 'm list" where
  "fifo_run cap [] xs = ([], xs)"
| "fifo_run cap (c # cs) xs = (let (r, ys) = fifo_step cap c xs; (rs, zs) = fifo_run cap cs ys in (r # rs, zs))"

text \<open>An implementation: what its calls do to its state, \<open>None\<close> when a call goes wrong.\<close>

record ('m, 's) queue_api =
  api_send :: "copy_position \<Rightarrow> 'm \<Rightarrow> 's \<Rightarrow> (bool \<times> 's) option"
  api_receive :: "'s \<Rightarrow> ('m option \<times> 's) option"
  api_peek :: "'s \<Rightarrow> ('m option \<times> 's) option"

fun api_step :: "('m, 's) queue_api \<Rightarrow> 'm queue_op \<Rightarrow> 's \<Rightarrow> ('m queue_result \<times> 's) option" where
  "api_step a (Send p m) s = map_option (\<lambda>(b, s). (Sent b, s)) (api_send a p m s)"
| "api_step a Receive s = map_option (\<lambda>(m, s). (Got m, s)) (api_receive a s)"
| "api_step a Peek s = map_option (\<lambda>(m, s). (Got m, s)) (api_peek a s)"

fun api_run :: "('m, 's) queue_api \<Rightarrow> 'm queue_op list \<Rightarrow> 's \<Rightarrow> ('m queue_result list \<times> 's) option" where
  "api_run a [] s = Some ([], s)"
| "api_run a (c # cs) s = Option.bind (api_step a c s) (\<lambda>(r, s). map_option (\<lambda>(rs, s). (r # rs, s)) (api_run a cs s))"

text \<open>Messages have the right size, and only a queue of one place is overwritten.\<close>

fun op_ok :: "nat \<Rightarrow> ('m \<Rightarrow> bool) \<Rightarrow> 'm queue_op \<Rightarrow> bool" where
  "op_ok cap good (Send p m) \<longleftrightarrow> good m \<and> (p = queueOVERWRITE \<longrightarrow> cap = 1)"
| "op_ok cap good _ \<longleftrightarrow> True"

locale bounded_fifo =
  fixes a :: "('m, 's) queue_api" and rep :: "'s \<Rightarrow> 'm list \<Rightarrow> bool" and cap :: nat and good :: "'m \<Rightarrow> bool"
  assumes send_law: "\<And>s xs p m. rep s xs \<Longrightarrow> good m \<Longrightarrow> (p = queueOVERWRITE \<longrightarrow> cap = 1) \<Longrightarrow>
      \<exists>b s' ys. api_send a p m s = Some (b, s') \<and> fifo_step cap (Send p m) xs = (Sent b, ys) \<and> rep s' ys"
    and receive_law: "\<And>s xs. rep s xs \<Longrightarrow> \<exists>s'. api_receive a s = Some (if xs = [] then None else Some (hd xs), s') \<and> rep s' (tl xs)"
    and peek_law: "\<And>s xs. rep s xs \<Longrightarrow> \<exists>s'. api_peek a s = Some (if xs = [] then None else Some (hd xs), s') \<and> rep s' xs"
begin

lemma step_refines:
  assumes "rep s xs" "op_ok cap good c"
  shows "\<exists>r s' ys. api_step a c s = Some (r, s') \<and> fifo_step cap c xs = (r, ys) \<and> rep s' ys"
proof (cases c)
  case (Send p m)
  then obtain b s' ys where "api_send a p m s = Some (b, s')" "fifo_step cap (Send p m) xs = (Sent b, ys)" "rep s' ys"
    using send_law [OF assms(1), of m p] assms(2) by auto
  then show ?thesis using Send by auto
next
  case Receive
  then show ?thesis using receive_law [OF assms(1)] by (cases xs) auto
next
  case Peek
  then show ?thesis using peek_law [OF assms(1)] by (cases xs) auto
qed

lemma run_refines:
  assumes "rep s xs" "\<forall>c \<in> set cs. op_ok cap good c"
  shows "\<exists>s'. api_run a cs s = Some (fst (fifo_run cap cs xs), s') \<and> rep s' (snd (fifo_run cap cs xs))"
  using assms
proof (induction cs arbitrary: s xs)
  case (Cons c cs)
  obtain r s1 ys where s1: "api_step a c s = Some (r, s1)" "fifo_step cap c xs = (r, ys)" "rep s1 ys"
    using step_refines [OF Cons.prems(1), of c] Cons.prems(2) by auto
  obtain s' where "api_run a cs s1 = Some (fst (fifo_run cap cs ys), s')" "rep s' (snd (fifo_run cap cs ys))"
    using Cons.IH [OF s1(3)] Cons.prems(2) by auto
  then show ?case using s1(1,2) by (simp add: split_beta)
qed simp

end

text \<open>The abstract queue gives messages back in the order in which they were sent.\<close>

lemma fifo_sends: "length xs + length ms \<le> cap \<Longrightarrow>
  fifo_run cap (map (Send queueSEND_TO_BACK) ms) xs = (map (\<lambda>_. Sent True) ms, xs @ ms)"
  by (induction ms arbitrary: xs) simp_all

lemma fifo_receives: "fifo_run cap (replicate (length xs) Receive) xs = (map (\<lambda>m. Got (Some m)) xs, [])"
  by (induction xs) simp_all

section \<open>The calls of tasks and of interrupts\<close>

text \<open>The calls without waiting, on the queue numbered \<open>n\<close> and the kernel.\<close>

definition task_api :: "nat \<Rightarrow> (u8 list, Queue_t \<times> kernel) queue_api" where
  "task_api n =
     \<lparr>api_send = \<lambda>p m (q, k). map_option (\<lambda>(s, q, k). (s = Ended True, q, k)) (send_enter n m p None 0 q k),
      api_receive = \<lambda>(q, k). map_option (\<lambda>(s, q, k). (case s of Ended r \<Rightarrow> r | Wait _ \<Rightarrow> None, q, k)) (receive_enter n None 0 q k),
      api_peek = \<lambda>(q, k). map_option (\<lambda>(s, q, k). (case s of Ended r \<Rightarrow> r | Wait _ \<Rightarrow> None, q, k)) (peek_enter n None 0 q k)\<rparr>"

definition isr_api :: "nat \<Rightarrow> (u8 list, Queue_t \<times> kernel) queue_api" where
  "isr_api n =
     \<lparr>api_send = \<lambda>p m (q, k). map_option (\<lambda>(b, _, q, k). (b, q, k)) (xQueueGenericSendFromISR n m p q k),
      api_receive = \<lambda>(q, k). map_option (\<lambda>(r, _, q, k). (r, q, k)) (xQueueReceiveFromISR n q k),
      api_peek = \<lambda>(q, k). map_option (\<lambda>(r, q). (r, q, k)) (xQueuePeekFromISR q)\<rparr>"

definition queue_rep :: "task \<Rightarrow> nat \<Rightarrow> nat \<Rightarrow> Queue_t \<times> kernel \<Rightarrow> u8 list list \<Rightarrow> bool" where
  "queue_rep idle cap s = (\<lambda>(q, k) xs. holds q xs \<and> unat (uxLength q) = cap \<and> unat (uxItemSize q) = s \<and> sched_ok idle k)"

lemma wake_waiting_ok:
  assumes "sched_ok idle k" "\<not> state_list l"
  shows "\<exists>b k'. wake_waiting l k = Some (b, k') \<and> sched_ok idle k'"
  using RemoveFromEventList_ok [OF assms] assms(1) by (cases "k_list k l = []") (auto simp: wake_waiting_def)

lemma wake_and_yield_ok:
  assumes "sched_ok idle k" "\<not> state_list l"
  shows "\<exists>k'. wake_and_yield l k = Some k' \<and> sched_ok idle k'"
  using wake_waiting_ok [OF assms] by (auto simp: wake_and_yield_def sched_ok_def)

lemma holds_locks: "holds (q\<lparr>cTxLock := a, cRxLock := b\<rparr>) xs = holds q xs" "holds (q\<lparr>cTxLock := a\<rparr>) xs = holds q xs"
  "holds (q\<lparr>cRxLock := b\<rparr>) xs = holds q xs"
  by (simp_all add: holds_def ring_def)

lemma holds_length: "holds q xs \<Longrightarrow> length xs = unat (uxMessagesWaiting q) \<and> length xs \<le> unat (uxLength q)"
  by (auto simp: holds_def ring_def)

text \<open>Every way of sending puts the message where the abstract queue has it.\<close>

lemma copy_in:
  assumes "holds q xs" "length m = unat (uxItemSize q)" "p = queueOVERWRITE \<longrightarrow> unat (uxLength q) = 1"
    "uxMessagesWaiting q < uxLength q \<or> p = queueOVERWRITE"
  shows "\<exists>q' ys. prvCopyDataToQueue m p q k = Some (False, q', k) \<and> fifo_step (unat (uxLength q)) (Send p m) xs = (Sent True, ys) \<and> holds q' ys \<and>
    uxItemSize q' = uxItemSize q \<and> uxLength q' = uxLength q \<and> cTxLock q' = cTxLock q \<and> cRxLock q' = cRxLock q"
proof (cases p)
  case queueSEND_TO_BACK
  then show ?thesis using copy_back [OF assms(1,2), of k] assms(4) holds_length [OF assms(1)] by (auto simp: word_less_nat_alt)
next
  case queueSEND_TO_FRONT
  then show ?thesis using copy_front [OF assms(1,2,4), of k] assms(4) holds_length [OF assms(1)] by (auto simp: word_less_nat_alt)
next
  case queueOVERWRITE
  then have "uxLength q = 1" using assms(3) by (simp add: unat_eq_Suc_0)
  then show ?thesis using copy_front [OF assms(1,2,4), of k] queueOVERWRITE by auto
qed

lemma send_full:
  assumes "holds q xs" "\<not> (uxMessagesWaiting q < uxLength q \<or> p = queueOVERWRITE)"
  shows "fifo_step (unat (uxLength q)) (Send p m) xs = (Sent False, xs)"
  using assms holds_length [OF assms(1)] by (cases p) (auto simp: word_less_nat_alt)

lemma task_send_law:
  assumes "queue_rep idle cap s st xs" "length m = s" "p = queueOVERWRITE \<longrightarrow> cap = 1"
  shows "\<exists>b st' ys. api_send (task_api n) p m st = Some (b, st') \<and> fifo_step cap (Send p m) xs = (Sent b, ys) \<and> queue_rep idle cap s st' ys"
proof -
  obtain q k where st: "st = (q, k)" by (cases st)
  have h: "holds q xs" "unat (uxLength q) = cap" "unat (uxItemSize q) = s" "sched_ok idle k" using assms(1) by (simp_all add: queue_rep_def st)
  show ?thesis
  proof (cases "uxMessagesWaiting q < uxLength q \<or> p = queueOVERWRITE")
    case True
    obtain q' ys where q': "prvCopyDataToQueue m p q k = Some (False, q', k)" "fifo_step cap (Send p m) xs = (Sent True, ys)" "holds q' ys"
      "uxItemSize q' = uxItemSize q" "uxLength q' = uxLength q" using copy_in [OF h(1) _ _ True, of m k] h(2,3) assms(2,3) by auto
    obtain k' where "wake_and_yield (xTasksWaitingToReceive n) k = Some k'" "sched_ok idle k'" using wake_and_yield_ok [OF h(4), of "xTasksWaitingToReceive n"] by auto
    then show ?thesis using q' True h by (cases "k_list k (xTasksWaitingToReceive n) = []") (auto simp: task_api_def st send_enter_def queue_rep_def)
  next
    case False
    then show ?thesis using send_full [OF h(1) False] assms(1) h(2) by (auto simp: task_api_def st send_enter_def)
  qed
qed

lemma task_receive_law:
  assumes "queue_rep idle cap s st xs"
  shows "\<exists>st'. api_receive (task_api n) st = Some (if xs = [] then None else Some (hd xs), st') \<and> queue_rep idle cap s st' (tl xs)"
    "\<exists>st'. api_peek (task_api n) st = Some (if xs = [] then None else Some (hd xs), st') \<and> queue_rep idle cap s st' xs"
proof -
  obtain q k where st: "st = (q, k)" by (cases st)
  have h: "holds q xs" "unat (uxLength q) = cap" "unat (uxItemSize q) = s" "sched_ok idle k" using assms(1) by (simp_all add: queue_rep_def st)
  obtain k1 k2 where k: "wake_and_yield (xTasksWaitingToSend n) k = Some k1" "sched_ok idle k1"
    "wake_and_yield (xTasksWaitingToReceive n) k = Some k2" "sched_ok idle k2"
    using wake_and_yield_ok [OF h(4), of "xTasksWaitingToSend n"] wake_and_yield_ok [OF h(4), of "xTasksWaitingToReceive n"] by auto
  have empty: "xs = [] \<longleftrightarrow> \<not> uxMessagesWaiting q > 0" using holds_length [OF h(1)] by (auto simp: word_less_nat_alt)
  show "\<exists>st'. api_receive (task_api n) st = Some (if xs = [] then None else Some (hd xs), st') \<and> queue_rep idle cap s st' (tl xs)"
    using copy_out [OF h(1)] empty k h assms(1) by (cases "uxMessagesWaiting q > 0") (auto simp: task_api_def st receive_enter_def queue_rep_def)
  show "\<exists>st'. api_peek (task_api n) st = Some (if xs = [] then None else Some (hd xs), st') \<and> queue_rep idle cap s st' xs"
    using copy_out [OF h(1)] empty k h assms(1) by (cases "uxMessagesWaiting q > 0") (auto simp: task_api_def st peek_enter_def queue_rep_def)
qed

interpretation task_queue: bounded_fifo "task_api n" "queue_rep idle cap s" cap "\<lambda>m. length m = s"
  for n idle cap s
  using task_send_law task_receive_law by unfold_locales blast+

lemma isr_send_law:
  assumes "queue_rep idle cap s st xs" "length m = s" "p = queueOVERWRITE \<longrightarrow> cap = 1"
  shows "\<exists>b st' ys. api_send (isr_api n) p m st = Some (b, st') \<and> fifo_step cap (Send p m) xs = (Sent b, ys) \<and> queue_rep idle cap s st' ys"
proof -
  obtain q k where st: "st = (q, k)" by (cases st)
  have h: "holds q xs" "unat (uxLength q) = cap" "unat (uxItemSize q) = s" "sched_ok idle k" using assms(1) by (simp_all add: queue_rep_def st)
  show ?thesis
  proof (cases "uxMessagesWaiting q < uxLength q \<or> p = queueOVERWRITE")
    case True
    obtain q' ys where q': "prvCopyDataToQueue m p q k = Some (False, q', k)" "fifo_step cap (Send p m) xs = (Sent True, ys)" "holds q' ys"
      "uxItemSize q' = uxItemSize q" "uxLength q' = uxLength q" using copy_in [OF h(1) _ _ True, of m k] h(2,3) assms(2,3) by auto
    obtain w k' where k': "wake_waiting (xTasksWaitingToReceive n) k = Some (w, k')" "sched_ok idle k'" using wake_waiting_ok [OF h(4), of "xTasksWaitingToReceive n"] by auto
    show ?thesis using q' True h k' by (cases "cTxLock q = queueUNLOCKED") (auto simp: isr_api_def st xQueueGenericSendFromISR_def queue_rep_def holds_locks)
  next
    case False
    then show ?thesis using send_full [OF h(1) False] assms(1) h(2) by (auto simp: isr_api_def st xQueueGenericSendFromISR_def)
  qed
qed

lemma isr_receive_law:
  assumes "queue_rep idle cap s st xs"
  shows "\<exists>st'. api_receive (isr_api n) st = Some (if xs = [] then None else Some (hd xs), st') \<and> queue_rep idle cap s st' (tl xs)"
    "\<exists>st'. api_peek (isr_api n) st = Some (if xs = [] then None else Some (hd xs), st') \<and> queue_rep idle cap s st' xs"
proof -
  obtain q k where st: "st = (q, k)" by (cases st)
  have h: "holds q xs" "unat (uxLength q) = cap" "unat (uxItemSize q) = s" "sched_ok idle k" using assms(1) by (simp_all add: queue_rep_def st)
  obtain w k' where k: "wake_waiting (xTasksWaitingToSend n) k = Some (w, k')" "sched_ok idle k'"
    using wake_waiting_ok [OF h(4), of "xTasksWaitingToSend n"] by auto
  have empty: "xs = [] \<longleftrightarrow> \<not> uxMessagesWaiting q > 0" using holds_length [OF h(1)] by (auto simp: word_less_nat_alt)
  show "\<exists>st'. api_receive (isr_api n) st = Some (if xs = [] then None else Some (hd xs), st') \<and> queue_rep idle cap s st' (tl xs)"
  proof (cases "uxMessagesWaiting q > 0")
    case True
    then show ?thesis using copy_out [OF h(1)] empty k h
      by (cases "cRxLock q = queueUNLOCKED") (auto simp: isr_api_def st xQueueReceiveFromISR_def queue_rep_def holds_locks)
  next
    case False
    then show ?thesis using empty assms(1) by (auto simp: isr_api_def st xQueueReceiveFromISR_def)
  qed
  show "\<exists>st'. api_peek (isr_api n) st = Some (if xs = [] then None else Some (hd xs), st') \<and> queue_rep idle cap s st' xs"
    using copy_out [OF h(1)] empty h assms(1) by (cases "uxMessagesWaiting q > 0") (auto simp: isr_api_def st xQueuePeekFromISR_def queue_rep_def)
qed

interpretation isr_queue: bounded_fifo "isr_api n" "queue_rep idle cap s" cap "\<lambda>m. length m = s"
  for n idle cap s
  using isr_send_law isr_receive_law by unfold_locales blast+

section \<open>A new queue\<close>

lemma wf_init: "lists_wf A \<Longrightarrow> entries A l = [] \<Longrightarrow> lists_wf (l_init l A)"
  by (simp add: lists_wf_def l_init_def)

lemma init_fields [klist_simps]:
  "container (l_init l A) = container A" "item_value (l_init l A) = item_value A"
  "entries A l = [] \<Longrightarrow> entries (l_init l A) = entries A"
  by (auto simp: l_init_def)

lemma init_ok:
  assumes "sched_ok idle k" "k_list k l = []"
  shows "sched_ok idle (k\<lparr>lists := l_init l (lists k)\<rparr>)"
proof -
  have "tick_inv (k\<lparr>lists := l_init l (lists k)\<rparr>)"
    using assms wf_init [of "lists k" l] by (simp add: sched_ok_def core_ok_def tick_inv_def kernel_wf_def delayed_ok_def overflow_ok_def klist_simps)
  then show ?thesis using assms(1) by (simp add: sched_ok_def core_ok_def is_ready_def pend_ok_def klist_simps)
qed

lemma chunks:
  "length bytes = n * s \<Longrightarrow> \<exists>bs. bytes = concat bs \<and> length bs = n \<and> (\<forall>b \<in> set bs. length b = s)"
proof (induction n arbitrary: bytes)
  case (Suc n)
  have "length (drop s bytes) = n * s" using Suc.prems by simp
  from Suc.IH [OF this] obtain bs where "drop s bytes = concat bs" "length bs = n" "\<forall>b \<in> set bs. length b = s" by blast
  moreover have "bytes = take s bytes @ drop s bytes" "length (take s bytes) = s" using Suc.prems by simp_all
  ultimately have "bytes = concat (take s bytes # bs)" "length (take s bytes # bs) = Suc n" "\<forall>b \<in> set (take s bytes # bs). length b = s" by simp_all
  then show ?case by blast
qed simp

lemma create_ok:
  assumes "sched_ok idle k" "k_list k (xTasksWaitingToSend n) = []" "k_list k (xTasksWaitingToReceive n) = []"
    "len \<noteq> 0" "sz \<noteq> 0" "unat len * unat sz + sizeof_Queue_t < 2 ^ 32"
    "memory (of_nat sizeof_Queue_t + len * sz) = Some block" "length block = unat (of_nat sizeof_Queue_t + len * sz)"
  shows "\<exists>q k'. xQueueGenericCreate n len sz memory junk k = Some (Some (q, k')) \<and> queue_rep idle (unat len) (unat sz) (q, k') []"
proof -
  have b: "unat (len * sz) = unat len * unat sz" using unat_mult_lem [of len sz] assms(6) by simp
  have b2: "unat ((len - 1) * sz) = (unat len - 1) * unat sz"
  proof -
    have "unat (len - 1) = unat len - 1" using assms(4) by (simp add: unat_minus_one)
    moreover have "(unat len - 1) * unat sz < 2 ^ 32" using assms(6) by (simp add: algebra_simps diff_mult_distrib)
    ultimately show ?thesis using unat_mult_lem [of "len - 1" sz] by simp
  qed
  have "length (drop sizeof_Queue_t block) = unat len * unat sz"
    using assms(6,8) b by (simp add: unat_word_ariths sizeof_Queue_t_def)
  then obtain bs where bs: "drop sizeof_Queue_t block = concat bs" "length bs = unat len" "\<forall>b \<in> set bs. length b = unat sz" using chunks by blast
  define q where "q = junk\<lparr>is_mutex := False, storage := drop sizeof_Queue_t block, uxLength := len, uxItemSize := sz,
    pcTail := uint (len * sz), uxMessagesWaiting := 0, pcWriteTo := 0, pcReadFrom := uint ((len - 1) * sz), cRxLock := queueUNLOCKED, cTxLock := queueUNLOCKED\<rparr>"
  have "0 < unat sz" "0 < unat len" using assms(4,5) by (simp_all add: unat_gt_0)
  then have "ring q (unat len) (unat sz) 0 (unat len - 1) bs" unfolding ring_def
    using bs by (simp add: q_def b b2 uint_nat del: of_nat_unat)
  then have "holds q []" unfolding holds_def using \<open>0 < unat len\<close>
    by (intro exI [of _ "unat len"] exI [of _ "unat sz"] exI [of _ 0] exI [of _ "unat len - 1"] exI [of _ bs]) (simp add: q_def)
  moreover have "sched_ok idle (k\<lparr>lists := l_init (xTasksWaitingToReceive n) (l_init (xTasksWaitingToSend n) (lists k))\<rparr>)"
    using init_ok [OF init_ok [OF assms(1,2)], of "xTasksWaitingToReceive n"] assms(2,3) by (simp add: klist_simps)
  ultimately show ?thesis using assms(5,7)
    by (simp add: xQueueGenericCreate_def prvInitialiseNewQueue_def xQueueGenericReset_def queue_rep_def q_def Let_def)
qed

end
