(* ===== verification/Rtos_Theorems.thy ===== *)
theory Rtos_Theorems
  imports Rtos_Invariant
begin

text \<open>
  The theorems about the scheduler: the states that start-up and any allowed sequence of calls
  and interrupts reach are consistent, delays and timeouts are exact across the overflow of the
  tick counter, and the ready tasks of highest priority take turns.
\<close>

section \<open>Start-up\<close>

text \<open>The variables of the kernel before the first call.\<close>

definition kernel_zero :: kernel where
  "kernel_zero =
     \<lparr>tcb = \<lambda>_. \<lparr>uxPriority = 0, uxBasePriority = 0, uxMutexesHeld = 0, ulNotifiedValue = 0, ucNotifyState = taskNOT_WAITING_NOTIFICATION\<rparr>,
      lists = \<lparr>entries = \<lambda>_. [], index = \<lambda>_. None, container = \<lambda>_. None, item_value = \<lambda>_. 0\<rparr>,
      pxCurrentTCB = None, pxDelayedTaskList = xDelayedTaskList1, pxOverflowDelayedTaskList = xDelayedTaskList1,
      uxDeletedTasksWaitingCleanUp = 0, uxCurrentNumberOfTasks = 0, xTickCount = 0, uxTopReadyPriority = 0,
      xSchedulerRunning = False, uxPendedTicks = 0, xYieldPending = False, xNumOfOverflows = 0, xNextTaskUnblockTime = 0,
      uxSchedulerSuspended = 0, yield_requested = False\<rparr>"

text \<open>Before the scheduler starts, all tasks are ready.\<close>

definition only_ready :: "kernel \<Rightarrow> bool" where
  "only_ready k \<longleftrightarrow> (\<forall>i l. k_in k i = Some l \<longrightarrow> (\<exists>p. l = pxReadyTasksLists p)) \<and> uxSchedulerSuspended k = 0"

abbreviation created :: "task \<Rightarrow> nat \<Rightarrow> kernel \<Rightarrow> kernel" where
  "created t p k \<equiv> prvAddNewTaskToReadyList t (prvInitialiseNewTask t p k)"

lemma tcb_created: "tcb (prvAddNewTaskToReadyList t k) = tcb k"
  by (simp add: prvAddNewTaskToReadyList_def prvInitialiseTaskLists_def portYIELD_def Let_def split: option.split)

lemma prio_created:
  "p < configMAX_PRIORITIES \<Longrightarrow> prio (created t p k) t = p" "u \<noteq> t \<Longrightarrow> prio (created t p k) u = prio k u"
  by (simp_all add: tcb_created prvInitialiseNewTask_def upd_tcb_def k_set_value_def Let_def)

lemma first_created:
  shows "sched_ok t (created t p kernel_zero)" "only_ready (created t p kernel_zero)"
    "u \<noteq> t \<Longrightarrow> k_in (created t p kernel_zero) (xStateListItem u) = None"
proof -
  define q where "q = (if p \<ge> configMAX_PRIORITIES then configMAX_PRIORITIES - 1 else p)"
  define A where "A = \<lparr>entries = (\<lambda>_. [])(pxReadyTasksLists q := [xStateListItem t]), index = \<lambda>_. None,
    container = (\<lambda>_. None)(xStateListItem t := Some (pxReadyTasksLists q)), item_value = (\<lambda>_. 0)(xEventListItem t := event_value q)\<rparr>"
  define k where "k = created t p kernel_zero"
  have init: "fold l_init ls \<lparr>entries = \<lambda>_. [], index = \<lambda>_. None, container = c, item_value = v\<rparr> =
    \<lparr>entries = \<lambda>_. [], index = \<lambda>_. None, container = c, item_value = v\<rparr>" for ls :: "klist list" and c :: "kitem \<Rightarrow> klist option" and v
    by (induction ls) (simp_all add: l_init_def fun_upd_idem)
  have none: "(\<lambda>_. None)(xStateListItem t := None, xEventListItem t := None) = (\<lambda>_. None :: klist option)" by (simp add: fun_upd_idem)
  have k: "lists k = A" "pxCurrentTCB k = Some t" "prio k t = q" "pxDelayedTaskList k = xDelayedTaskList1" "pxOverflowDelayedTaskList k = xDelayedTaskList2"
    "uxSchedulerSuspended k = 0" "uxPendedTicks k = 0" "uxCurrentNumberOfTasks k = 1" "uxDeletedTasksWaitingCleanUp k = 0" "uxTopReadyPriority k = q"
    by (simp_all add: k_def kernel_zero_def prvInitialiseNewTask_def prvAddNewTaskToReadyList_def prvInitialiseTaskLists_def upd_tcb_def
        k_set_value_def l_set_value_def l_insert_end_def Let_def init none q_def [symmetric] A_def del: fold_append fold_simps)
  have "lists_wf A" by (auto simp: lists_wf_def A_def)
  moreover have "items_ok (container A) (prio k) q" by (auto simp: items_ok_def A_def k(3))
  ultimately have "kernel_wf k" by (auto simp: kernel_wf_def k A_def)
  then have "tick_inv k" by (simp add: tick_inv_def delayed_ok_def overflow_ok_def k A_def)
  moreover have "counts_ok (k_in k) 1 0" by (simp add: counts_ok_def k A_def)
  ultimately have "core_ok t k" by (simp add: core_ok_def event_ok_def is_ready_def k) (simp add: A_def)
  then show "sched_ok t k" by (simp add: sched_ok_def pend_ok_def k A_def)
  show "only_ready k" by (simp add: only_ready_def k A_def)
  show "u \<noteq> t \<Longrightarrow> k_in k (xStateListItem u) = None" by (simp add: k A_def)
qed

lemma next_created:
  assumes "sched_ok a k" "only_ready k" "k_in k (xStateListItem t) = None"
  shows "sched_ok a (created t p k)" "only_ready (created t p k)" "is_ready (created t p k) t"
    "k_in k (xStateListItem u) \<noteq> None \<Longrightarrow> k_in (created t p k) (xStateListItem u) \<noteq> None"
    "u \<noteq> t \<Longrightarrow> k_in k (xStateListItem u) = None \<Longrightarrow> k_in (created t p k) (xStateListItem u) = None"
proof -
  show "sched_ok a (created t p k)" by (rule Create_ok [OF assms(1,3)])
  have core: "core_ok a k" using assms(1) by (simp add: sched_ok_def)
  obtain c where c: "pxCurrentTCB k = Some c" using core_current [OF core] by blast
  define k1 where "k1 = prvInitialiseNewTask t p k"
  have k1: "pxCurrentTCB k1 = Some c" "k_in k1 = (k_in k)(xStateListItem t := None, xEventListItem t := None)" "uxSchedulerSuspended k1 = uxSchedulerSuspended k"
    by (simp_all add: k1_def prvInitialiseNewTask_def upd_tcb_def k_set_value_def klist_simps Let_def c)
  obtain cur b where new: "prvAddNewTaskToReadyList t k1 =
    (let k' = prvAddTaskToReadyList t (k1\<lparr>uxCurrentNumberOfTasks := uxCurrentNumberOfTasks k1 + 1, pxCurrentTCB := Some cur\<rparr>) in if b then portYIELD k' else k')"
    using add_new_eq [OF k1(1), of t] by blast
  have f: "k_in (created t p k) = (k_in k1)(xStateListItem t := Some (pxReadyTasksLists (prio k1 t)))" "tcb (created t p k) = tcb k1"
    "uxSchedulerSuspended (created t p k) = uxSchedulerSuspended k"
    using new by (simp_all add: k1_def [symmetric] k1(3) klist_simps portYIELD_def Let_def)
  show "is_ready (created t p k) t" by (simp add: is_ready_def f)
  show "only_ready (created t p k)" using assms(2) by (auto simp: only_ready_def f k1(2) split: if_splits)
  show "k_in k (xStateListItem u) \<noteq> None \<Longrightarrow> k_in (created t p k) (xStateListItem u) \<noteq> None"
    "u \<noteq> t \<Longrightarrow> k_in k (xStateListItem u) = None \<Longrightarrow> k_in (created t p k) (xStateListItem u) = None"
    using assms(3) by (auto simp: f k1(2))
qed

text \<open>Some tasks are created, then the scheduler starts with the idle and the timer task.\<close>

definition boot :: "(task \<times> nat) list \<Rightarrow> task \<Rightarrow> task \<Rightarrow> kernel option" where
  "boot ts idle timer = vTaskStartScheduler (Some idle) (Some timer) (fold (\<lambda>(t, p) k. snd (xTaskCreate (Some t) p k)) ts kernel_zero)"

definition before_start :: "kernel \<Rightarrow> task set \<Rightarrow> bool" where
  "before_start k S \<longleftrightarrow> k = kernel_zero \<or> (only_ready k \<and> (\<exists>a. sched_ok a k) \<and> (\<forall>u. u \<notin> S \<longrightarrow> k_in k (xStateListItem u) = None))"

lemma sched_ok_anchor: "sched_ok a k \<Longrightarrow> is_ready k b \<Longrightarrow> sched_ok b k"
  by (simp add: sched_ok_def core_ok_def)

lemma before_start_created:
  assumes "before_start k S" "t \<notin> S"
  shows "before_start (created t p k) (insert t S)" "sched_ok t (created t p k)" "only_ready (created t p k)"
proof -
  have "sched_ok t (created t p k) \<and> only_ready (created t p k) \<and> (\<forall>u. u \<notin> insert t S \<longrightarrow> k_in (created t p k) (xStateListItem u) = None)"
  proof (cases "k = kernel_zero")
    case True
    show ?thesis unfolding True using first_created by auto
  next
    case False
    then obtain a where a: "only_ready k" "sched_ok a k" "\<forall>u. u \<notin> S \<longrightarrow> k_in k (xStateListItem u) = None" using assms(1) by (auto simp: before_start_def)
    have "k_in k (xStateListItem t) = None" using a(3) assms(2) by blast
    note n = next_created [OF a(2,1) this, where p = p]
    show ?thesis using sched_ok_anchor [OF n(1,3)] n(2,5) a(3) by simp
  qed
  then show "before_start (created t p k) (insert t S)" "sched_ok t (created t p k)" "only_ready (created t p k)"
    by (auto simp: before_start_def)
qed

lemma before_start_tasks:
  "before_start k S \<Longrightarrow> distinct (map fst ts) \<Longrightarrow> set (map fst ts) \<inter> S = {} \<Longrightarrow>
   before_start (fold (\<lambda>(t, p) k. snd (xTaskCreate (Some t) p k)) ts k) (S \<union> set (map fst ts))"
proof (induction ts arbitrary: k S)
  case Nil
  then show ?case by simp
next
  case (Cons tp ts)
  obtain t p where tp: "tp = (t, p)" by fastforce
  have "before_start (created t p k) (insert t S)" using before_start_created(1) [OF Cons.prems(1)] Cons.prems(3) tp by simp
  from Cons.IH [OF this] show ?case using Cons.prems(2,3) tp by (auto simp: xTaskCreate_def)
qed

lemma boot_ok:
  assumes "distinct (idle # timer # map fst ts)"
  shows "\<exists>k. boot ts idle timer = Some k \<and> sched_ok idle k \<and> runs_highest k \<and> uxSchedulerSuspended k = 0 \<and>
    is_ready k timer \<and> prio k idle < prio k timer \<and> only_ready k"
proof -
  define k where "k = fold (\<lambda>(t, p) k. snd (xTaskCreate (Some t) p k)) ts kernel_zero"
  have k: "before_start k (set (map fst ts))" using before_start_tasks [of kernel_zero "{}" ts] assms by (simp add: before_start_def k_def)
  define k1 where "k1 = created idle 0 k"
  have k1: "before_start k1 (insert idle (set (map fst ts)))" "sched_ok idle k1" "only_ready k1" using before_start_created [OF k, of idle 0] assms by (simp_all add: k1_def)
  define k2 where "k2 = created timer 2 k1"
  have "k_in k1 (xStateListItem timer) = None"
  proof -
    have "pxCurrentTCB k1 \<noteq> None" using core_current [of idle k1] k1(2) by (auto simp: sched_ok_def)
    moreover have "pxCurrentTCB kernel_zero = None" by (simp add: kernel_zero_def)
    ultimately show ?thesis using k1(1) assms by (auto simp: before_start_def)
  qed
  then have k2: "sched_ok idle k2" "only_ready k2" "is_ready k2 timer" using next_created [OF k1(2,3)] by (simp_all add: k2_def)
  have p2: "prio k2 idle < prio k2 timer"
    using prio_created(1) [of 2 timer k1] prio_created(2) [of idle timer 2 k1] prio_created(1) [of 0 idle k] assms
    by (simp add: k1_def k2_def configMAX_PRIORITIES_def)
  define k3 where "k3 = k2\<lparr>xNextTaskUnblockTime := portMAX_DELAY, xSchedulerRunning := True, xTickCount := 0\<rparr>"
  have none: "k_in k2 i \<noteq> Some l" if "l \<in> delayed_lists" for i l using k2(2) that by (auto simp: only_ready_def)
  have wf: "kernel_wf k2" using k2(1) by (simp add: sched_ok_def core_ok_def tick_inv_def)
  have "delayed_ok k3" "overflow_ok k3" using none [OF kernel_wfD(3) [OF wf]] none [OF kernel_wfD(4) [OF wf]] by (simp_all add: k3_def delayed_ok_def overflow_ok_def)
  moreover have "kernel_wf k3" using wf by (simp add: k3_def kernel_wf_def)
  ultimately have "tick_inv k3" by (simp add: tick_inv_def)
  then have k3: "core_ok idle k3" "pend_ok k3" using k2(1) by (simp_all add: sched_ok_def core_ok_def k3_def is_ready_def pend_ok_def)
  have "uxSchedulerSuspended k3 = 0" using k2(2) by (simp add: k3_def only_ready_def)
  then obtain k4 where k4: "vTaskSwitchContext k3 = Some k4" "switched k3 k4" "runs_highest k4"
    using switch_ok [OF core_okD(1,7) [OF k3(1)]] by metis
  have "boot ts idle timer = Some k4"
    unfolding boot_def vTaskStartScheduler_def k_def [symmetric]
    using k4(1) by (simp add: xTaskCreate_def k1_def [symmetric] k2_def [symmetric] k3_def)
  moreover have "is_ready k3 timer" "prio k3 idle < prio k3 timer" "only_ready k3" using k2(2,3) p2 by (simp_all add: k3_def is_ready_def only_ready_def)
  ultimately show ?thesis using core_switched [OF k3(1) k4(2)] k3(2) k4(3) switched_same [OF k4(2)] \<open>uxSchedulerSuspended k3 = 0\<close>
    by (simp add: sched_ok_def only_ready_def)
qed

section \<open>Reachable states\<close>

inductive reachable :: "task \<Rightarrow> kernel \<Rightarrow> bool" for idle where
  start: "distinct (idle # timer # map fst ts) \<Longrightarrow> boot ts idle timer = Some k \<Longrightarrow> reachable idle k"
| call: "reachable idle k \<Longrightarrow> allowed idle c k \<Longrightarrow> kexec c k = Some k' \<Longrightarrow> reachable idle k'"

lemma reachable_ok: "reachable idle k \<Longrightarrow> sched_ok idle k"
proof (induction rule: reachable.induct)
  case (start timer ts k)
  then show ?case using boot_ok by fastforce
next
  case (call k c k')
  then show ?case using kexec_ok by fastforce
qed

text \<open>What the invariant says, without the auxiliary notions.\<close>

lemma sched_ok_facts:
  assumes "sched_ok idle k"
  shows "\<exists>c. pxCurrentTCB k = Some c" "k_in k i = Some l \<longleftrightarrow> i \<in> set (k_list k l)" "distinct (k_list k l)"
    "k_in k (xStateListItem t) = Some (pxReadyTasksLists p) \<Longrightarrow> p = prio k t \<and> p \<le> uxTopReadyPriority k"
    "uxCurrentNumberOfTasks k = card {t. k_in k (xStateListItem t) \<noteq> None}"
    "k_in k (xEventListItem t) \<noteq> None \<Longrightarrow> k_in k (xStateListItem t) \<in> {Some xDelayedTaskList1, Some xDelayedTaskList2, Some xSuspendedTaskList}"
    "sorted (map (k_value k) (k_list k (pxDelayedTaskList k)))" "sorted (map (k_value k) (k_list k (pxOverflowDelayedTaskList k)))"
proof -
  have core: "core_ok idle k" using assms by (simp add: sched_ok_def)
  note c = core_okD [OF core] and wf = kernel_wfD [OF core_okD(2) [OF core]]
  show "\<exists>c. pxCurrentTCB k = Some c" using core_current [OF core] by blast
  show "k_in k i = Some l \<longleftrightarrow> i \<in> set (k_list k l)" by (simp add: lists_wf_in [OF wf(1)])
  show "distinct (k_list k l)" using wf(1) by (simp add: lists_wf_def)
  show "k_in k (xStateListItem t) = Some (pxReadyTasksLists p) \<Longrightarrow> p = prio k t \<and> p \<le> uxTopReadyPriority k" by (rule items_okD(2) [OF c(4)])
  show "uxCurrentNumberOfTasks k = card {t. k_in k (xStateListItem t) \<noteq> None}" using c(6) by (simp add: counts_ok_def)
  show "k_in k (xEventListItem t) \<noteq> None \<Longrightarrow> k_in k (xStateListItem t) \<in> {Some xDelayedTaskList1, Some xDelayedTaskList2, Some xSuspendedTaskList}"
    using c(5) by (auto simp: event_ok_def)
  show "sorted (map (k_value k) (k_list k (pxDelayedTaskList k)))" "sorted (map (k_value k) (k_list k (pxOverflowDelayedTaskList k)))"
    using wf(3,4,6) by blast+
qed

text \<open>
  C5: whatever tasks are created before the scheduler starts and whatever allowed calls and
  interrupts follow in whatever order, the lists of the scheduler stay consistent: every item
  is in exactly the list its control block names, ready tasks are in the list of their
  priority, tasks wait for events only while they are blocked, the lists of delayed tasks are
  sorted by wake time, the number of tasks is exact; and no further call follows a null
  pointer or loops for ever.
\<close>

theorem kernel_calls_safe:
  assumes "reachable idle k"
  shows "(\<exists>c. pxCurrentTCB k = Some c) \<and>
    (\<forall>i l. (k_in k i = Some l \<longleftrightarrow> i \<in> set (k_list k l)) \<and> distinct (k_list k l)) \<and>
    (\<forall>t p. k_in k (xStateListItem t) = Some (pxReadyTasksLists p) \<longrightarrow> p = prio k t \<and> p \<le> uxTopReadyPriority k) \<and>
    (\<forall>t. k_in k (xEventListItem t) \<noteq> None \<longrightarrow>
       k_in k (xStateListItem t) \<in> {Some xDelayedTaskList1, Some xDelayedTaskList2, Some xSuspendedTaskList}) \<and>
    sorted (map (k_value k) (k_list k (pxDelayedTaskList k))) \<and> sorted (map (k_value k) (k_list k (pxOverflowDelayedTaskList k))) \<and>
    uxCurrentNumberOfTasks k = card {t. k_in k (xStateListItem t) \<noteq> None} \<and>
    (\<forall>c. allowed idle c k \<longrightarrow> kexec c k \<noteq> None)"
proof -
  note ok = reachable_ok [OF assms]
  show ?thesis using sched_ok_facts [OF ok] kexec_ok [OF ok] by (intro conjI allI impI) (blast, blast, blast, blast, blast, blast, blast, blast, blast, fastforce)
qed

theorem kernel_calls_safe_witness:
  "\<exists>k. boot [(1, 3), (2, 5)] 0 3 = Some k \<and> (\<exists>c. pxCurrentTCB k = Some c) \<and> kexec SysTick k \<noteq> None \<and>
    uxCurrentNumberOfTasks k = card {t. k_in k (xStateListItem t) \<noteq> None}"
proof -
  have d: "distinct (0 # 3 # map fst [(1 :: task, 3 :: nat), (2, 5)])" by simp
  obtain k where k: "boot [(1, 3), (2, 5)] 0 3 = Some k" using boot_ok [OF d] by blast
  have "reachable 0 k" by (rule reachable.start [OF d k])
  moreover have "allowed 0 SysTick k" by simp
  ultimately show ?thesis using kernel_calls_safe [of 0 k] k by blast
qed

section \<open>Delays\<close>

text \<open>
  C6: a task that calls \<open>vTaskDelay(n)\<close> is ready again after exactly \<open>n\<close> tick interrupts, not
  before and not later, also when the tick counter overflows in between and for every \<open>n\<close> up to
  the largest value; neither the switches of the context that the ticks cause nor the wakening
  of other tasks changes this.
\<close>

theorem delay_ends_on_time:
  assumes "kernel_ok k" "pxCurrentTCB k = Some t" "uxSchedulerSuspended k = 0" "n \<noteq> 0" "is_ready k idle" "idle \<noteq> t"
  shows "\<exists>k1. Option.bind (vTaskDelay n k) SoftIsrHdl = Some k1 \<and> \<not> is_ready k1 t \<and>
    (\<forall>m. \<exists>k'. port_ticks m k1 = Some k' \<and> (is_ready k' t \<longleftrightarrow> unat n \<le> m))"
proof -
  obtain k0 where k0: "vTaskDelay n k = Some k0" "tick_inv k0" "uxSchedulerSuspended k0 = 0" "delay_left k0 t = Some (unat n)" "is_ready k0 idle"
    using delay_ok [OF assms(1-4)] assms(5,6) by auto
  obtain k1 where k1: "SoftIsrHdl k0 = Some k1" "switched k0 k1" using soft_isr_ok [OF k0(2,5)] by blast
  note same = switched_same [OF k1(2)]
  have "\<not> is_ready k1 t" unfolding same(2) using k0(4) by (auto simp: is_ready_def delay_left_def split: if_splits)
  moreover have "\<exists>k'. port_ticks m k1 = Some k' \<and> (is_ready k' t \<longleftrightarrow> unat n \<le> m)" for m
    using port_ticks_delay [OF same(5), of idle t "unat n" m] calculation k0(3-5) same(1-3) by auto
  ultimately show ?thesis using k0(1) k1(1) by auto
qed


theorem delay_ends_on_time_witness:
  "\<exists>k t k1 k'. boot [(1, 3), (2, 5)] 0 3 = Some k \<and> pxCurrentTCB k = Some t \<and> Option.bind (vTaskDelay 4 k) SoftIsrHdl = Some k1 \<and>
    \<not> is_ready k1 t \<and> port_ticks 3 k1 = Some k' \<and> \<not> is_ready k' t"
proof -
  have d: "distinct (0 # 3 # map fst [(1 :: task, 3 :: nat), (2, 5)])" by simp
  obtain k where k: "boot [(1, 3), (2, 5)] 0 3 = Some k" "sched_ok 0 k" "runs_highest k" "uxSchedulerSuspended k = 0" "is_ready k 3" "prio k 0 < prio k 3"
    using boot_ok [OF d] by blast
  obtain t where t: "pxCurrentTCB k = Some t" "prio k 3 \<le> prio k t" using k(3,5) by (auto simp: runs_highest_def)
  have "is_ready k 0" using k(2) by (simp add: sched_ok_def core_ok_def)
  moreover have "0 \<noteq> t" using less_le_trans [OF k(6) t(2)] by (cases "t = 0") auto
  ultimately have "is_ready k 0" "0 \<noteq> t" by blast+
  from delay_ends_on_time [OF sched_ok_kernel_ok [OF k(2)] t(1) k(4) _ this, of 4]
  obtain k1 where k1: "Option.bind (vTaskDelay 4 k) SoftIsrHdl = Some k1" "\<not> is_ready k1 t"
    "\<forall>m. \<exists>k'. port_ticks m k1 = Some k' \<and> (is_ready k' t \<longleftrightarrow> 4 \<le> m)" by auto
  from spec [OF k1(3), of 3] show ?thesis using k(1) t(1) k1(1,2) by auto
qed

section \<open>Timeouts\<close>

lemma port_tick_count:
  assumes "tick_inv k" "uxSchedulerSuspended k = 0" "is_ready k u"
  shows "\<exists>k'. xPortSysTickHandle k = Some k' \<and> tick_inv k' \<and> uxSchedulerSuspended k' = 0 \<and> is_ready k' u \<and>
    xTickCount k' = xTickCount k + 1 \<and> xNumOfOverflows k' = xNumOfOverflows k + (if xTickCount k + 1 = 0 then 1 else 0)"
proof -
  obtain s k1 where k1: "xTaskIncrementTick k = Some (s, k1)" "ticked k k1" using tick_ok [OF assms(1,2)] by blast
  have t: "tick_inv k1" "uxSchedulerSuspended k1 = 0" "xTickCount k1 = xTickCount k + 1"
    "xNumOfOverflows k1 = xNumOfOverflows k + (if xTickCount k + 1 = 0 then 1 else 0)" using k1(2) assms(2) by (simp_all add: ticked_def)
  have r: "is_ready k1 u" using ready_ticked [OF k1(2)] assms(3) by blast
  obtain k' where k': "xPortSysTickHandle k = Some k'" "switched k1 k'"
    using switch_ok [OF t(1) r] switched_refl [OF t(1)] k1(1) by (cases s) (auto simp: xPortSysTickHandle_def)
  show ?thesis using k'(1) switched_same [OF k'(2)] t r by simp
qed

lemma overflow_step:
  "(of_nat ((unat (T + 1) + e) div 2 ^ 32) + (if T + 1 = 0 then 1 else 0) :: u32) = of_nat ((unat (T :: u32) + Suc e) div 2 ^ 32)"
proof (cases "T + 1 = 0")
  case True
  have "T = - 1" using u32_max [OF True] .
  then have "unat T = 2 ^ 32 - 1" by (simp add: unsigned_minus_1_eq_mask mask_eq_exp_minus_1)
  then have "(unat T + Suc e) div 2 ^ 32 = Suc (e div 2 ^ 32)" by simp
  then show ?thesis using True by simp
next
  case False
  then have "unat (T + 1) = Suc (unat T)" using unatSuc [of T] by (simp add: add.commute)
  then show ?thesis using False by simp
qed

lemma port_ticks_count:
  assumes "tick_inv k" "uxSchedulerSuspended k = 0" "is_ready k u"
  shows "\<exists>k'. port_ticks e k = Some k' \<and> xTickCount k' = xTickCount k + of_nat e \<and>
    xNumOfOverflows k' = xNumOfOverflows k + of_nat ((unat (xTickCount k) + e) div 2 ^ 32)"
  using assms
proof (induction e arbitrary: k)
  case 0
  have "unat (xTickCount k) div 2 ^ 32 = 0" using unat_u32_less [of "xTickCount k"] by simp
  then show ?case by simp
next
  case (Suc e)
  obtain k1 where k1: "xPortSysTickHandle k = Some k1" "tick_inv k1" "uxSchedulerSuspended k1 = 0" "is_ready k1 u"
    "xTickCount k1 = xTickCount k + 1" "xNumOfOverflows k1 = xNumOfOverflows k + (if xTickCount k + 1 = 0 then 1 else 0)"
    using port_tick_count [OF Suc.prems] by blast
  obtain k' where "port_ticks e k1 = Some k'" "xTickCount k' = xTickCount k1 + of_nat e"
    "xNumOfOverflows k' = xNumOfOverflows k1 + of_nat ((unat (xTickCount k1) + e) div 2 ^ 32)" using Suc.IH [OF k1(2-4)] by blast
  then show ?case using k1(1,5,6) overflow_step [of "xTickCount k" e] by (simp add: algebra_simps)
qed

text \<open>
  C33: the timeout that \<open>vTaskSetTimeOutState\<close> starts is over exactly when as many ticks have passed
  as were asked for, for every number of ticks below \<open>2^32\<close> and whether or not the tick counter
  has overflowed; before that, \<open>xTaskCheckForTimeOut\<close> restarts the timeout with exactly the ticks
  that are left.
\<close>

theorem timeout_exact:
  assumes "kernel_ok k" "uxSchedulerSuspended k = 0" "is_ready k idle" "e < 2 ^ 32" "n \<noteq> portMAX_DELAY"
  shows "\<exists>k'. port_ticks e k = Some k' \<and>
    xTaskCheckForTimeOut (vTaskSetTimeOutState k) n k' =
      (if e < unat n then (False, vTaskSetTimeOutState k', n - of_nat e) else (True, vTaskSetTimeOutState k, 0))"
proof -
  obtain k' where k': "port_ticks e k = Some k'" "xTickCount k' = xTickCount k + of_nat e"
    "xNumOfOverflows k' = xNumOfOverflows k + of_nat ((unat (xTickCount k) + e) div 2 ^ 32)"
    using port_ticks_count [OF _ assms(2,3)] assms(1) by (auto simp: kernel_ok_def)
  have e: "unat (of_nat e :: u32) = e" using assms(4) by (simp add: unat_of_nat)
  have "\<not> xTickCount k' \<ge> xTickCount k" if "xNumOfOverflows k' \<noteq> xNumOfOverflows k"
  proof -
    have "(unat (xTickCount k) + e) div 2 ^ 32 \<noteq> 0" using that k'(3) by (intro notI, simp only:, simp)
    then have ge: "unat (xTickCount k) + e \<ge> 2 ^ 32" by (metis div_less not_le)
    have "unat (xTickCount k') = (unat (xTickCount k) + e) mod 2 ^ 32" using k'(2) e by (simp add: unat_word_ariths)
    then have "unat (xTickCount k') = unat (xTickCount k) + e - 2 ^ 32"
      using ge unat_u32_less [of "xTickCount k"] assms(4) by (simp add: mod_if)
    then have "unat (xTickCount k') < unat (xTickCount k)" using ge assms(4) by linarith
    then show ?thesis by (simp add: word_le_nat_alt)
  qed
  then show ?thesis using k'(1,2) e assms(5)
    by (auto simp: xTaskCheckForTimeOut_def vTaskSetTimeOutState_def vTaskInternalSetTimeOutState_def word_less_nat_alt Let_def)
qed

theorem timeout_exact_witness:
  "\<exists>k k' k''. boot [(1, 3)] 0 2 = Some k \<and> port_ticks 7 k = Some k' \<and> fst (xTaskCheckForTimeOut (vTaskSetTimeOutState k) 7 k') \<and>
    port_ticks 6 k = Some k'' \<and> snd (snd (xTaskCheckForTimeOut (vTaskSetTimeOutState k) 7 k'')) = 1"
proof -
  have d: "distinct (0 # 2 # map fst [(1 :: task, 3 :: nat)])" by simp
  obtain k where k: "boot [(1, 3)] 0 2 = Some k" "sched_ok 0 k" "uxSchedulerSuspended k = 0" using boot_ok [OF d] by blast
  have "is_ready k 0" using k(2) by (simp add: sched_ok_def core_ok_def)
  note t = timeout_exact [OF sched_ok_kernel_ok [OF k(2)] k(3) this, of _ 7]
  have "(7 :: u32) \<noteq> portMAX_DELAY" by (simp add: portMAX_DELAY_def)
  then show ?thesis using t [of 7] t [of 6] k(1) by fastforce
qed

section \<open>Turns\<close>

text \<open>The tasks that a number of switches in a row select.\<close>

fun turns :: "nat \<Rightarrow> kernel \<Rightarrow> task list option" where
  "turns 0 k = Some []"
| "turns (Suc n) k = Option.bind (vTaskSwitchContext k) (\<lambda>k. Option.bind (pxCurrentTCB k) (\<lambda>c. map_option (Cons c) (turns n k)))"

text \<open>The items in the order in which the index will reach them.\<close>

definition queue_of :: "('l, 'i) klists \<Rightarrow> 'l \<Rightarrow> 'i list" where
  "queue_of A l = (case index A l of None \<Rightarrow> entries A l
     | Some j \<Rightarrow> tl (dropWhile (\<lambda>k. k \<noteq> j) (entries A l)) @ takeWhile (\<lambda>k. k \<noteq> j) (entries A l) @ [j])"

lemma next_queue:
  assumes "lists_wf A" "entries A l \<noteq> []"
  shows "\<exists>i A'. l_next l A = (Some i, A') \<and> A' = A\<lparr>index := (index A)(l := Some i)\<rparr> \<and> queue_of A l = i # tl (queue_of A l) \<and>
    queue_of A' l = tl (queue_of A l) @ [i]"
proof -
  obtain xs where xs: "entries A l = xs" "distinct xs" "xs \<noteq> []" using assms by (auto simp: lists_wf_def)
  show ?thesis
  proof (cases "index A l")
    case None
    obtain i ys where ys: "xs = i # ys" using xs(3) by (cases xs) auto
    then show ?thesis using None xs by (simp add: l_next_def queue_of_def Let_def)
  next
    case (Some j)
    then have "j \<in> set xs" using assms(1) xs(1) by (force simp: lists_wf_def)
    then obtain us vs where split: "xs = us @ j # vs" "j \<notin> set us" by (metis split_list_first)
    have tw: "takeWhile (\<lambda>k. k \<noteq> j) xs = us" "dropWhile (\<lambda>k. k \<noteq> j) xs = j # vs" using split by (auto simp: takeWhile_append dropWhile_append)
    show ?thesis
    proof (cases vs)
      case Nil
      obtain i ys where ys: "xs = i # ys" using xs(3) by (cases xs) auto
      then show ?thesis using Some xs tw split Nil
        by (cases us) (auto simp: l_next_def queue_of_def Let_def)
    next
      case (Cons i ws)
      have "i \<notin> set (us @ [j])" using xs(2) split(1) Cons by auto
      then have "takeWhile (\<lambda>k. k \<noteq> i) xs = us @ [j]" "dropWhile (\<lambda>k. k \<noteq> i) xs = i # ws"
        using split(1) Cons by (auto simp: takeWhile_append dropWhile_append)
      then show ?thesis using Some xs(1) tw Cons by (simp add: l_next_def queue_of_def Let_def)
    qed
  qed
qed

text \<open>The ready tasks of the highest priority, in the order of their turns.\<close>

definition top_queue :: "kernel \<Rightarrow> task list" where
  "top_queue k = (case top_ready (uxTopReadyPriority k) k of None \<Rightarrow> [] | Some p \<Rightarrow> map task_of (queue_of (lists k) (pxReadyTasksLists p)))"

lemma top_ready_cong: "k_list k' = k_list k \<Longrightarrow> top_ready p k' = top_ready p k"
  by (induction p) (simp_all add: top_ready.simps l_empty_def)

lemma top_ready_stop: "k_list k (pxReadyTasksLists p) \<noteq> [] \<Longrightarrow> top_ready p k = Some p"
  by (simp add: top_ready.simps l_empty_def)

lemma switch_turn:
  assumes "tick_inv k" "is_ready k u" "uxSchedulerSuspended k = 0"
  shows "\<exists>c k'. vTaskSwitchContext k = Some k' \<and> pxCurrentTCB k' = Some c \<and> switched k k' \<and>
    top_queue k = c # tl (top_queue k) \<and> top_queue k' = tl (top_queue k) @ [c]"
proof -
  have wf: "kernel_wf k" using assms(1) by (simp add: tick_inv_def)
  note w = kernel_wfD(1) [OF wf]
  obtain k' where k': "vTaskSwitchContext k = Some k'" "switched k k'" using switch_ok [OF assms(1,2)] by blast
  have ne: "k_list k (pxReadyTasksLists (prio k u)) \<noteq> []" using ready_listed(1) [OF wf, of u] assms(2) by auto
  obtain r where r: "top_ready (uxTopReadyPriority k) k = Some r" "k_list k (pxReadyTasksLists r) \<noteq> []"
    using top_ready_ok [OF ne ready_listed(2) [OF wf assms(2)]] by blast
  let ?l = "pxReadyTasksLists r"
  obtain i A where i: "l_next ?l (lists k) = (Some i, A)" "A = (lists k)\<lparr>index := (index (lists k))(?l := Some i)\<rparr>"
    "queue_of (lists k) ?l = i # tl (queue_of (lists k) ?l)" "queue_of A ?l = tl (queue_of (lists k) ?l) @ [i]" using next_queue [OF w r(2)] by blast
  obtain R where R: "queue_of (lists k) ?l = i # R" "queue_of A ?l = R @ [i]" using i(3,4) by metis
  have eq: "k' = k\<lparr>xYieldPending := False, lists := A, pxCurrentTCB := Some (task_of i), uxTopReadyPriority := r\<rparr>"
    using k'(1) assms(3) top_ready_cong [of "k\<lparr>xYieldPending := False\<rparr>" k "uxTopReadyPriority k"] r(1) i(1)
    by (simp add: vTaskSwitchContext_def taskSELECT_HIGHEST_PRIORITY_TASK_def)
  have "top_ready r k' = Some r" using top_ready_stop [of k' r] r(2) by (simp add: eq i(2))
  then have "top_queue k' = map task_of (queue_of A ?l)" by (simp add: top_queue_def eq)
  moreover have "top_queue k = map task_of (queue_of (lists k) ?l)" by (simp add: top_queue_def r(1))
  ultimately have "top_queue k = task_of i # tl (top_queue k)" "top_queue k' = tl (top_queue k) @ [task_of i]"
    using R by simp_all
  then show ?thesis using k' by (simp add: eq)
qed

lemma turns_rotate:
  assumes "tick_inv k" "is_ready k u" "uxSchedulerSuspended k = 0" "n \<le> length (top_queue k)"
  shows "turns n k = Some (take n (top_queue k))"
  using assms
proof (induction n arbitrary: k)
  case 0
  then show ?case by simp
next
  case (Suc n)
  obtain c k' where k': "vTaskSwitchContext k = Some k'" "pxCurrentTCB k' = Some c" "switched k k'"
    "top_queue k = c # tl (top_queue k)" "top_queue k' = tl (top_queue k) @ [c]" using switch_turn [OF Suc.prems(1-3)] by blast
  have len: "n \<le> length (tl (top_queue k))" using Suc.prems(4) by simp
  have "turns n k' = Some (take n (top_queue k'))"
    using Suc.IH [of k'] switched_same [OF k'(3)] Suc.prems(2,3) len k'(5) by simp
  also have "take n (top_queue k') = take n (tl (top_queue k))" using len k'(5) by simp
  finally show ?case using k'(1,2,4) by (simp, metis take_Suc_Cons)
qed

lemma queue_of_perm:
  assumes "lists_wf A"
  shows "distinct (queue_of A l)" "set (queue_of A l) = set (entries A l)"
proof -
  have d: "distinct (entries A l)" using assms by (simp add: lists_wf_def)
  have "distinct (queue_of A l) \<and> set (queue_of A l) = set (entries A l)"
  proof (cases "index A l")
    case None
    then show ?thesis using d by (simp add: queue_of_def)
  next
    case (Some j)
    then have "j \<in> set (entries A l)" using assms by (force simp: lists_wf_def)
    then obtain us vs where split: "entries A l = us @ j # vs" "j \<notin> set us" by (metis split_list_first)
    then have "queue_of A l = vs @ us @ [j]" using Some by (auto simp: queue_of_def takeWhile_append dropWhile_append)
    then show ?thesis using d split by auto
  qed
  then show "distinct (queue_of A l)" "set (queue_of A l) = set (entries A l)" by blast+
qed

lemma ready_items:
  assumes "kernel_wf k"
  shows "set (k_list k (pxReadyTasksLists p)) = xStateListItem ` {t. is_ready k t \<and> prio k t = p}"
proof -
  have "i \<in> set (k_list k (pxReadyTasksLists p)) \<longleftrightarrow> i \<in> xStateListItem ` {t. is_ready k t \<and> prio k t = p}" for i
    unfolding lists_wf_in [OF kernel_wfD(1) [OF assms]]
    using ready_listed(3) [OF assms] items_okD(3) [OF kernel_wfD(2) [OF assms], of _ "pxReadyTasksLists p"] by (cases i) auto
  then show ?thesis by blast
qed

lemma top_queue_highest:
  assumes "kernel_wf k" "is_ready k u" "\<forall>t. is_ready k t \<longrightarrow> prio k t \<le> prio k u"
  shows "top_queue k = map task_of (queue_of (lists k) (pxReadyTasksLists (prio k u)))"
proof -
  have ne: "k_list k (pxReadyTasksLists (prio k u)) \<noteq> []" using ready_listed(1) [OF assms(1), of u] assms(2) by auto
  obtain r where r: "top_ready (uxTopReadyPriority k) k = Some r" "prio k u \<le> r" "k_list k (pxReadyTasksLists r) \<noteq> []"
    using top_ready_ok [OF ne ready_listed(2) [OF assms(1,2)]] by blast
  have "set (k_list k (pxReadyTasksLists r)) \<noteq> {}" using r(3) by simp
  then have "r \<le> prio k u" using ready_items [OF assms(1), of r] assms(3) by auto
  then show ?thesis using r(1,2) by (simp add: top_queue_def)
qed

text \<open>
  C34: the ready tasks of the highest priority take turns: as many switches in a row as there are
  such tasks select every one of them exactly once, wherever the turn stood before, and never a
  task of lower priority.
\<close>

theorem round_robin:
  assumes "kernel_ok k" "uxSchedulerSuspended k = 0" "is_ready k u" "\<forall>t. is_ready k t \<longrightarrow> prio k t \<le> prio k u"
  shows "\<exists>ts. turns (card {t. is_ready k t \<and> prio k t = prio k u}) k = Some ts \<and> distinct ts \<and> set ts = {t. is_ready k t \<and> prio k t = prio k u}"
proof -
  have inv: "tick_inv k" "kernel_wf k" using assms(1) by (simp_all add: kernel_ok_def tick_inv_def)
  let ?l = "pxReadyTasksLists (prio k u)"
  note q = queue_of_perm [OF kernel_wfD(1) [OF inv(2)], of ?l]
  have top: "top_queue k = map task_of (queue_of (lists k) ?l)" using top_queue_highest [OF inv(2) assms(3,4)] .
  have items: "set (k_list k ?l) = xStateListItem ` {t. is_ready k t \<and> prio k t = prio k u}" using ready_items [OF inv(2)] .
  have "distinct (top_queue k)" unfolding top using q items by (auto simp: distinct_map inj_on_def)
  moreover have "set (top_queue k) = {t. is_ready k t \<and> prio k t = prio k u}" by (simp add: top q(2) items image_image)
  moreover from this have "card {t. is_ready k t \<and> prio k t = prio k u} = length (top_queue k)"
    using distinct_card [OF calculation(1)] by simp
  ultimately show ?thesis using turns_rotate [OF inv(1) assms(3,2) order_refl] by simp
qed

theorem round_robin_witness:
  "\<exists>k u ts. boot [(1, 3), (2, 3), (4, 3)] 0 3 = Some k \<and> turns (card {t. is_ready k t \<and> prio k t = prio k u}) k = Some ts \<and>
    set ts = {t. is_ready k t \<and> prio k t = prio k u} \<and> u \<in> set ts"
proof -
  have d: "distinct (0 # 3 # map fst [(1 :: task, 3 :: nat), (2, 3), (4, 3)])" by simp
  obtain k where k: "boot [(1, 3), (2, 3), (4, 3)] 0 3 = Some k" "sched_ok 0 k" "uxSchedulerSuspended k = 0" "runs_highest k" using boot_ok [OF d] by blast
  then obtain u where u: "is_ready k u" "\<forall>t. is_ready k t \<longrightarrow> prio k t \<le> prio k u" by (auto simp: runs_highest_def)
  show ?thesis using round_robin [OF sched_ok_kernel_ok [OF k(2)] k(3) u] k(1) u(1) by auto
qed

end
