(* ===== verification/Rtos_Sync.thy ===== *)
theory Rtos_Sync
  imports Rtos_Fifo Rtos_Theorems
begin

text \<open>
  Properties of queues and semaphores: the order of messages whatever tasks, interrupts and the
  scheduler do in between, the waking of tasks by what interrupts add while a queue is locked,
  and the memory of a new queue.
\<close>

section \<open>Tasks, interrupts and the scheduler in turn\<close>

text \<open>A call on the queue by a task or by an interrupt, or any call of the scheduler.\<close>

datatype queue_event = From_task "u8 list queue_op" | From_isr "u8 list queue_op" | Scheduler kcall

fun queue_ops :: "queue_event list \<Rightarrow> u8 list queue_op list" where
  "queue_ops [] = []"
| "queue_ops (From_task c # es) = c # queue_ops es"
| "queue_ops (From_isr c # es) = c # queue_ops es"
| "queue_ops (Scheduler _ # es) = queue_ops es"

text \<open>The results of the calls; a call of the scheduler that is not allowed does not happen.\<close>

fun queue_run :: "task \<Rightarrow> nat \<Rightarrow> queue_event list \<Rightarrow> Queue_t \<times> kernel \<Rightarrow> (u8 list queue_result list \<times> Queue_t \<times> kernel) option" where
  "queue_run idle n [] st = Some ([], st)"
| "queue_run idle n (From_task c # es) st = do {
     (r, st) \<leftarrow> api_step (task_api n) c st;
     (rs, st) \<leftarrow> queue_run idle n es st;
     Some (r # rs, st)
   }"
| "queue_run idle n (From_isr c # es) st = do {
     (r, st) \<leftarrow> api_step (isr_api n) c st;
     (rs, st) \<leftarrow> queue_run idle n es st;
     Some (r # rs, st)
   }"
| "queue_run idle n (Scheduler c # es) (q, k) =
     (if allowed idle c k then Option.bind (kexec c k) (\<lambda>k. queue_run idle n es (q, k)) else queue_run idle n es (q, k))"

lemma queue_run_refines:
  assumes "queue_rep idle cap s st xs" "\<forall>c \<in> set (queue_ops es). op_ok cap (\<lambda>m. length m = s) c"
  shows "\<exists>st'. queue_run idle n es st = Some (fst (fifo_run cap (queue_ops es) xs), st') \<and> queue_rep idle cap s st' (snd (fifo_run cap (queue_ops es) xs))"
  using assms
proof (induction es arbitrary: st xs)
  case (Cons e es)
  show ?case
  proof (cases e)
    case (From_task c)
    obtain r s1 ys where s1: "api_step (task_api n) c st = Some (r, s1)" "fifo_step cap c xs = (r, ys)" "queue_rep idle cap s s1 ys"
      using task_queue.step_refines [OF Cons.prems(1), of c n] Cons.prems(2) From_task by auto
    show ?thesis using Cons.IH [OF s1(3)] Cons.prems(2) s1(1,2) From_task by (auto simp: split_beta)
  next
    case (From_isr c)
    obtain r s1 ys where s1: "api_step (isr_api n) c st = Some (r, s1)" "fifo_step cap c xs = (r, ys)" "queue_rep idle cap s s1 ys"
      using isr_queue.step_refines [OF Cons.prems(1), of c n] Cons.prems(2) From_isr by auto
    show ?thesis using Cons.IH [OF s1(3)] Cons.prems(2) s1(1,2) From_isr by (auto simp: split_beta)
  next
    case (Scheduler c)
    obtain q k where st: "st = (q, k)" by (cases st)
    have ok: "sched_ok idle k" using Cons.prems(1) by (simp add: queue_rep_def st)
    show ?thesis
    proof (cases "allowed idle c k")
      case True
      obtain k' where k': "kexec c k = Some k'" "sched_ok idle k'" using kexec_ok [OF ok True] by blast
      have "queue_rep idle cap s (q, k') xs" using Cons.prems(1) k'(2) by (simp add: queue_rep_def st)
      from Cons.IH [OF this] show ?thesis using Cons.prems(2) Scheduler True k'(1) by (simp add: st)
    next
      case False
      then show ?thesis using Cons Scheduler by (simp add: st)
    qed
  qed
qed simp

text \<open>
  C7: a queue of \<open>len\<close> places for messages of \<open>sz\<close> bytes, created on a running kernel in memory
  that is large enough, behaves as a sequence of at most \<open>len\<close> messages: whatever tasks and
  interrupts send to its back, to its front or over its only place, receive and peek, and
  whatever the scheduler does between the calls (ticks, switches, tasks that block on this or
  on other queues and are woken), every call returns what the sequence says, and none touches
  memory outside the storage or stops on a null pointer.
\<close>

theorem queue_is_fifo:
  assumes "reachable idle k" "k_list k (xTasksWaitingToSend n) = []" "k_list k (xTasksWaitingToReceive n) = []"
    "len \<noteq> 0" "sz \<noteq> 0" "unat len * unat sz + sizeof_Queue_t < 2 ^ 32"
    "memory (of_nat sizeof_Queue_t + len * sz) = Some block" "length block = unat (of_nat sizeof_Queue_t + len * sz)"
    "\<forall>c \<in> set (queue_ops es). op_ok (unat len) (\<lambda>m. length m = unat sz) c"
  shows "\<exists>q k' st. xQueueGenericCreate n len sz memory junk k = Some (Some (q, k')) \<and>
    queue_run idle n es (q, k') = Some (fst (fifo_run (unat len) (queue_ops es) []), st) \<and>
    unat (uxQueueMessagesWaiting (fst st)) = length (snd (fifo_run (unat len) (queue_ops es) []))"
proof -
  obtain q k' where q: "xQueueGenericCreate n len sz memory junk k = Some (Some (q, k'))" "queue_rep idle (unat len) (unat sz) (q, k') []"
    using create_ok [where memory = memory and junk = junk, OF reachable_ok [OF assms(1)] assms(2-8)] by blast
  obtain st where st: "queue_run idle n es (q, k') = Some (fst (fifo_run (unat len) (queue_ops es) []), st)"
    "queue_rep idle (unat len) (unat sz) st (snd (fifo_run (unat len) (queue_ops es) []))"
    using queue_run_refines [OF q(2) assms(9)] by blast
  then have "holds (fst st) (snd (fifo_run (unat len) (queue_ops es) []))" by (simp add: queue_rep_def split_beta)
  from holds_length [OF this] show ?thesis using q(1) st(1)
    by (intro exI [of _ q] exI [of _ k'] exI [of _ st]) (simp add: uxQueueMessagesWaiting_def)
qed

lemma boot_no_waiting:
  assumes "distinct (idle # timer # map fst ts)"
  shows "\<exists>k. boot ts idle timer = Some k \<and> reachable idle k \<and> k_list k (xTasksWaitingToSend n) = [] \<and> k_list k (xTasksWaitingToReceive n) = []"
proof -
  obtain k where k: "boot ts idle timer = Some k" "sched_ok idle k" "only_ready k" using boot_ok [OF assms] by blast
  have "kernel_wf k" using k(2) by (simp add: sched_ok_def core_ok_def tick_inv_def)
  then have "k_list k l = []" if "\<not> state_list l" for l
    using list_empty_iff [OF kernel_wfD(1)] k(3) that by (fastforce simp: only_ready_def)
  then show ?thesis using k(1) reachable.start [OF assms k(1)] by auto
qed

text \<open>A structure before its initialisation.\<close>

definition blank_queue :: Queue_t where
  "blank_queue = \<lparr>is_mutex = False, storage = [], pcTail = 0, pcWriteTo = 0, pcReadFrom = 0, pxMutexHolder = None,
     uxRecursiveCallCount = 0, uxMessagesWaiting = 0, uxLength = 0, uxItemSize = 0, cRxLock = 0, cTxLock = 0\<rparr>"

theorem queue_is_fifo_witness:
  "\<exists>k q k' st. boot [(1, 3), (2, 5)] 0 3 = Some k \<and>
    xQueueGenericCreate 0 2 1 (\<lambda>b. Some (replicate (unat b) 0)) blank_queue k = Some (Some (q, k')) \<and>
    queue_run 0 0 [From_task (Send queueSEND_TO_BACK [7]), From_isr (Send queueSEND_TO_BACK [8]), Scheduler SysTick,
      From_task (Send queueSEND_TO_BACK [9]), From_isr Receive, From_task Peek, From_task (Send queueSEND_TO_FRONT [6]), From_task Receive] (q, k') =
    Some ([Sent True, Sent True, Sent False, Got (Some [7]), Got (Some [8]), Sent True, Got (Some [6])], st) \<and>
    unat (uxQueueMessagesWaiting (fst st)) = 1"
proof -
  have d: "distinct (0 # 3 # map fst [(1 :: task, 3 :: nat), (2, 5)])" by simp
  obtain k where k: "boot [(1, 3), (2, 5)] 0 3 = Some k" "reachable 0 k" "k_list k (xTasksWaitingToSend 0) = []" "k_list k (xTasksWaitingToReceive 0) = []"
    using boot_no_waiting [OF d, of 0] by blast
  show ?thesis
    using queue_is_fifo [OF k(2-4), of 2 1 "\<lambda>b. Some (replicate (unat b) 0)" "replicate 78 0"
      "[From_task (Send queueSEND_TO_BACK [7]), From_isr (Send queueSEND_TO_BACK [8]), Scheduler SysTick,
        From_task (Send queueSEND_TO_BACK [9]), From_isr Receive, From_task Peek, From_task (Send queueSEND_TO_FRONT [6]), From_task Receive]" blank_queue] k(1)
    by (simp add: sizeof_Queue_t_def del: queue_run.simps)
qed

end
