(* ===== verification/Rtos_Wakeup.thy ===== *)
theory Rtos_Wakeup
  imports Rtos_Sync
begin

text \<open>
  Tasks that wait for a semaphore: what interrupts give while the queue is locked wakes as many
  waiting tasks, unless the lock counter overflows; mutual exclusion and the inheritance of
  priorities.
\<close>

section \<open>Effects on the lists of waiting tasks\<close>

text \<open>Nothing but the lists and the next time to unblock a task has changed.\<close>

definition same_vars :: "kernel \<Rightarrow> kernel \<Rightarrow> bool" where
  "same_vars k k' \<longleftrightarrow> uxSchedulerSuspended k' = uxSchedulerSuspended k \<and> uxPendedTicks k' = uxPendedTicks k \<and>
     pxCurrentTCB k' = pxCurrentTCB k \<and> tcb k' = tcb k"

definition events_but :: "klist \<Rightarrow> kernel \<Rightarrow> kernel \<Rightarrow> bool" where
  "events_but l k k' \<longleftrightarrow> (\<forall>l'. \<not> state_list l' \<longrightarrow> l' \<noteq> l \<longrightarrow> l' \<noteq> xPendingReadyList \<longrightarrow> k_list k' l' = k_list k l')"

lemma reset_next_lists [simp]:
  "k_list (prvResetNextTaskUnblockTime k) = k_list k" "k_in (prvResetNextTaskUnblockTime k) = k_in k"
  "tcb (prvResetNextTaskUnblockTime k) = tcb k" "pxCurrentTCB (prvResetNextTaskUnblockTime k) = pxCurrentTCB k"
  "uxSchedulerSuspended (prvResetNextTaskUnblockTime k) = uxSchedulerSuspended k"
  "uxPendedTicks (prvResetNextTaskUnblockTime k) = uxPendedTicks k"
  by (simp_all add: prvResetNextTaskUnblockTime_def split: option.splits)

lemma event_item:
  assumes "kernel_wf k" "\<not> state_list l" "k_list k l = i # xs"
  obtains t where "i = xEventListItem t" "k_head l k = Some t" "k_in k (xEventListItem t) = Some l"
  using event_head [OF assms(1,2)] assms(3) by auto

lemma Remove_suspended:
  assumes "sched_ok idle k" "\<not> state_list l" "l \<noteq> xPendingReadyList" "k_list k l = i # xs" "uxSchedulerSuspended k > 0"
  shows "\<exists>b k'. xTaskRemoveFromEventList l k = Some (b, k') \<and> sched_ok idle k' \<and> k_list k' l = xs \<and>
    set (k_list k' xPendingReadyList) = insert i (set (k_list k xPendingReadyList)) \<and>
    (\<forall>u. is_ready k' u = is_ready k u) \<and> same_vars k k' \<and> events_but l k k'"
proof -
  have core: "core_ok idle k" using assms(1) by (simp add: sched_ok_def)
  note c = core_okD [OF core]
  obtain t where t: "i = xEventListItem t" "k_head l k = Some t" "k_in k (xEventListItem t) = Some l" by (rule event_item [OF c(2) assms(2,4)])
  obtain cur where cur: "pxCurrentTCB k = Some cur" using core_current [OF core] by blast
  obtain A where A: "k_remove (xEventListItem t) k = Some (k\<lparr>lists := A\<rparr>)" "container A = (k_in k)(xEventListItem t := None)"
    "\<And>l. entries A l = remove1 (xEventListItem t) (k_list k l)" using L_ok_remove [OF c(3), of "xEventListItem t"] t(3) by auto
  have other: "xEventListItem t \<notin> set (k_list k l')" if "l' \<noteq> l" for l'
    using lists_wf_in [OF kernel_wfD(1) [OF c(2)], of "xEventListItem t" l'] t(3) that by simp
  define k1 where "k1 = k_insert_end xPendingReadyList (xEventListItem t) (k\<lparr>lists := A\<rparr>)"
  define h where "h \<longleftrightarrow> prio k1 t > prio k1 cur"
  define k' where "k' = prvResetNextTaskUnblockTime (if h then k1\<lparr>xYieldPending := True\<rparr> else k1)"
  have eq: "xTaskRemoveFromEventList l k = Some (h, k')"
    using t(2) A(1) assms(5) cur by (simp add: xTaskRemoveFromEventList_def k'_def h_def k1_def k_insert_end_def Let_def)
  obtain xs1 ys1 where s: "entries A xPendingReadyList = xs1 @ ys1" "entries (l_insert_end xPendingReadyList (xEventListItem t) A) xPendingReadyList = xs1 @ xEventListItem t # ys1"
    using insert_end_split [of A xPendingReadyList "xEventListItem t"] by blast
  have "set (k_list k' xPendingReadyList) = insert i (set (entries A xPendingReadyList))" using s t(1) by (simp add: k'_def k1_def k_insert_end_def)
  moreover have "entries A xPendingReadyList = k_list k xPendingReadyList" using A(3) other [of xPendingReadyList] assms(3) by (simp add: remove1_idem)
  moreover have "k_list k' l = xs" using assms(3,4) A(3) t(1) by (simp add: k'_def k1_def k_insert_end_def klist_simps)
  moreover have "\<forall>u. is_ready k' u = is_ready k u" by (simp add: is_ready_def k'_def k1_def k_insert_end_def klist_simps A(2))
  moreover have "same_vars k k'" by (simp add: same_vars_def k'_def k1_def k_insert_end_def)
  moreover have "events_but l k k'" unfolding events_but_def
    using other A(3) by (simp add: k'_def k1_def k_insert_end_def klist_simps remove1_idem)
  moreover have "sched_ok idle k'" using RemoveFromEventList_ok [OF assms(1,2)] assms(4) eq by auto
  ultimately show ?thesis using eq by auto
qed

lemma missed_yield_fields [simp]:
  "k_list (vTaskMissedYield k) = k_list k" "is_ready (vTaskMissedYield k) u = is_ready k u" "same_vars k (vTaskMissedYield k)"
  "same_vars (vTaskMissedYield k) k' = same_vars k k'" "events_but l (vTaskMissedYield k) k' = events_but l k k'"
  "uxSchedulerSuspended (vTaskMissedYield k) = uxSchedulerSuspended k"
  by (simp_all add: vTaskMissedYield_def is_ready_def same_vars_def events_but_def)

lemma same_vars_trans: "same_vars a b \<Longrightarrow> same_vars b c \<Longrightarrow> same_vars a c"
  by (simp add: same_vars_def)

lemma events_but_trans: "events_but l a b \<Longrightarrow> events_but l b c \<Longrightarrow> events_but l a c"
  by (simp add: events_but_def)

text \<open>Unlocking wakes the first tasks of the list, one for each count.\<close>

lemma unlock_loop_wakes:
  assumes "sched_ok idle k" "\<not> state_list l" "l \<noteq> xPendingReadyList" "uxSchedulerSuspended k > 0"
  shows "\<exists>k'. unlock_loop m l k = Some k' \<and> sched_ok idle k' \<and> k_list k' l = drop m (k_list k l) \<and>
    set (k_list k' xPendingReadyList) = set (take m (k_list k l)) \<union> set (k_list k xPendingReadyList) \<and>
    (\<forall>u. is_ready k' u = is_ready k u) \<and> same_vars k k' \<and> events_but l k k'"
  using assms
proof (induction m arbitrary: k)
  case (Suc m)
  show ?case
  proof (cases "k_list k l")
    case Nil
    then show ?thesis using Suc.prems(1) by (simp add: same_vars_def events_but_def)
  next
    case (Cons i xs)
    obtain b k1 where k1: "xTaskRemoveFromEventList l k = Some (b, k1)" "sched_ok idle k1" "k_list k1 l = xs"
      "set (k_list k1 xPendingReadyList) = insert i (set (k_list k xPendingReadyList))" "\<forall>u. is_ready k1 u = is_ready k u" "same_vars k k1" "events_but l k k1"
      using Remove_suspended [OF Suc.prems(1-3) Cons Suc.prems(4)] by blast
    define k2 where "k2 = (if b then vTaskMissedYield k1 else k1)"
    have k2: "sched_ok idle k2" "k_list k2 = k_list k1" "same_vars k k2" "events_but l k k2" "\<forall>u. is_ready k2 u = is_ready k u"
      using k1 MissedYield_ok [OF k1(2)] by (simp_all add: k2_def same_vars_def events_but_def vTaskMissedYield_def is_ready_def)
    have "uxSchedulerSuspended k2 > 0" using k2(3) Suc.prems(4) by (simp add: same_vars_def)
    from Suc.IH [OF k2(1) Suc.prems(2,3) this] obtain k' where k': "unlock_loop m l k2 = Some k'" "sched_ok idle k'" "k_list k' l = drop m (k_list k2 l)"
      "set (k_list k' xPendingReadyList) = set (take m (k_list k2 l)) \<union> set (k_list k2 xPendingReadyList)"
      "\<forall>u. is_ready k' u = is_ready k2 u" "same_vars k2 k'" "events_but l k2 k'" by blast
    have "unlock_loop (Suc m) l k = Some k'" using Cons k1(1) k'(1) by (simp add: k2_def)
    then show ?thesis using Cons k' k1(3,4) k2 same_vars_trans events_but_trans by (auto intro: same_vars_trans events_but_trans)
  qed
qed (simp add: same_vars_def events_but_def)

text \<open>Resuming the scheduler makes the tasks ready that were woken meanwhile.\<close>

lemma ResumeAll_wakes:
  assumes "sched_ok idle k" "uxSchedulerSuspended k = 1" "uxPendedTicks k = 0"
  shows "\<exists>y k'. xTaskResumeAll k = Some (y, k') \<and> sched_ok idle k' \<and> kept_events k k' \<and> tcb k' = tcb k \<and> pxCurrentTCB k' = pxCurrentTCB k \<and>
    uxSchedulerSuspended k' = 0 \<and> (\<forall>u. is_ready k u \<or> xEventListItem u \<in> set (k_list k xPendingReadyList) \<longrightarrow> is_ready k' u)"
proof -
  have core: "core_ok idle k" using assms by (simp add: sched_ok_def)
  let ?k = "k\<lparr>uxSchedulerSuspended := 0\<rparr>"
  have n: "uxCurrentNumberOfTasks k > 0"
    using core_okD(6,7) [OF core] by (auto simp: counts_ok_def is_ready_def card_gt_0_iff)
  obtain b k1 where k1: "resume_loop False ?k = Some (b, k1)" "resumed idle ?k k1" using resume_loop_ok [of idle ?k False] core by auto
  obtain D p y where D: "k1 = ?k\<lparr>lists := D, uxTopReadyPriority := p, xYieldPending := y\<rparr>" using k1(2) unfolding resumed_def by blast
  define k2 where "k2 = (if b then prvResetNextTaskUnblockTime k1 else k1)"
  have f: "k_list k2 = k_list k1" "tcb k2 = tcb k" "pxCurrentTCB k2 = pxCurrentTCB k" "uxSchedulerSuspended k2 = 0" "uxPendedTicks k2 = 0" "k_in k2 = k_in k1" "tcb k1 = tcb k"
    using assms(3) D by (simp_all add: k2_def)
  have eq: "xTaskResumeAll k = Some (xYieldPending k2, if xYieldPending k2 then portYIELD k2 else k2)"
    using assms(2) n k1(1) f(5) by (simp add: xTaskResumeAll_def Let_def k2_def [symmetric])
  have "sched_ok idle (if xYieldPending k2 then portYIELD k2 else k2)" using ResumeAll_ok [OF assms(1)] assms(2) eq by auto
  moreover have "kept_events k k2" "\<forall>u. is_ready k u \<or> xEventListItem u \<in> set (k_list k xPendingReadyList) \<longrightarrow> is_ready k2 u"
    using k1(2) f by (simp_all add: resumed_def kept_events_def is_ready_def)
  ultimately show ?thesis using eq f(2-4) by (auto simp: kept_events_def is_ready_def portYIELD_def)
qed

text \<open>The calling task enters the list of waiting tasks in the order of priority and is no longer ready.\<close>

lemma delay_list_state: "kernel_wf k \<Longrightarrow> state_list (pxDelayedTaskList k) \<and> state_list (pxOverflowDelayedTaskList k)"
  by (auto simp: kernel_wf_def doubleton_eq_iff)

lemma add_delayed_effect:
  assumes "lists_wf (lists k)" "pxCurrentTCB k = Some t" "k_in k (xStateListItem t) = Some p" "state_list p"
    "state_list (pxDelayedTaskList k)" "state_list (pxOverflowDelayedTaskList k)" "prvAddCurrentTaskToDelayedList n ind k = Some k'"
  shows "\<not> state_list l \<Longrightarrow> k_list k' l = k_list k l" "\<And>u. u \<noteq> t \<Longrightarrow> is_ready k' u = is_ready k u" "same_vars k k'"
proof -
  obtain A where A: "k_remove (xStateListItem t) k = Some (k\<lparr>lists := A\<rparr>)" "container A = (k_in k)(xStateListItem t := None)"
    "\<forall>l. entries A l = remove1 (xStateListItem t) (k_list k l)" using k_remove_ok [OF assms(1), of "xStateListItem t"] assms(3) by auto
  have new: "k' = (if n = portMAX_DELAY \<and> ind then k\<lparr>lists := l_insert_end xSuspendedTaskList (xStateListItem t) A\<rparr>
    else let B = l_set_value (xStateListItem t) (xTickCount k + n) A;
      k1 = k\<lparr>lists := l_insert (if xTickCount k + n < xTickCount k then pxOverflowDelayedTaskList k else pxDelayedTaskList k) (xStateListItem t) B\<rparr>
      in if xTickCount k + n < xTickCount k \<or> \<not> xTickCount k + n < xNextTaskUnblockTime k then k1 else k1\<lparr>xNextTaskUnblockTime := xTickCount k + n\<rparr>)"
    using assms(2,7) A(1) by (auto simp: prvAddCurrentTaskToDelayedList_def k_insert_def k_insert_end_def k_set_value_def Let_def split: if_splits)
  show "k_list k' l = k_list k l" if "\<not> state_list l"
  proof -
    have "l \<noteq> xSuspendedTaskList" "l \<noteq> pxDelayedTaskList k" "l \<noteq> pxOverflowDelayedTaskList k" using that assms(5,6) by auto
    moreover have "xStateListItem t \<notin> set (k_list k l)" using lists_wf_in [OF assms(1)] assms(3,4) that by auto
    ultimately show ?thesis using A(3) by (simp add: new Let_def klist_simps remove1_idem)
  qed
  show "u \<noteq> t \<Longrightarrow> is_ready k' u = is_ready k u" for u by (simp add: new Let_def is_ready_def klist_simps A(2))
  show "same_vars k k'" by (simp add: new Let_def same_vars_def)
qed

lemma waiting_not_ready:
  assumes "sched_ok idle k" "xEventListItem t \<in> set (k_list k l)"
  shows "\<not> is_ready k t"
proof
  assume r: "is_ready k t"
  have core: "core_ok idle k" using assms(1) by (simp add: sched_ok_def)
  have "k_in k (xEventListItem t) = Some l" using assms(2) lists_wf_in [OF kernel_wfD(1) [OF core_okD(2) [OF core]]] by simp
  then show False using core_okD(5) [OF core] r by (auto simp: event_ok_def is_ready_def)
qed

lemma PlaceOnEventList_effect:
  assumes "sched_ok idle k" "may_block idle k t" "\<not> state_list l" "l \<noteq> xPendingReadyList" "n \<noteq> 0"
  shows "\<exists>k'. vTaskPlaceOnEventList l n k = Some k' \<and> sched_ok idle k' \<and> k_list k' l = entries (l_insert l (xEventListItem t) (lists k)) l \<and>
    events_but l k k' \<and> k_list k' xPendingReadyList = k_list k xPendingReadyList \<and> (\<forall>u. u \<noteq> t \<longrightarrow> is_ready k' u = is_ready k u) \<and>
    \<not> is_ready k' t \<and> same_vars k k'"
proof -
  have core: "core_ok idle k" using assms(1) by (simp add: sched_ok_def)
  note c = core_okD [OF core] and t = may_block_L_ok [OF assms(1,2)]
  let ?k = "k_insert l (xEventListItem t) k"
  obtain k' where k': "vTaskPlaceOnEventList l n k = Some k'" "sched_ok idle k'" using PlaceOnEventList_ok [OF assms] by blast
  have add: "prvAddCurrentTaskToDelayedList n True ?k = Some k'" using k'(1) t(3) by (simp add: vTaskPlaceOnEventList_def)
  have wf: "lists_wf (lists ?k)" using wf_insert [of "lists k" "xEventListItem t" l] t(1,2) by (simp add: L_ok_def k_insert_def)
  have p: "k_in ?k (xStateListItem t) = Some (pxReadyTasksLists (prio k t))" using assms(2) by (simp add: may_block_def is_ready_def k_insert_def klist_simps)
  have st: "state_list (pxDelayedTaskList ?k)" "state_list (pxOverflowDelayedTaskList ?k)" using delay_list_state [OF c(2)] by (simp_all add: k_insert_def)
  have cur: "pxCurrentTCB ?k = Some t" using t(3) by (simp add: k_insert_def)
  note e = add_delayed_effect [OF wf cur p _ st add, simplified]
  have "k_list k' l = entries (l_insert l (xEventListItem t) (lists k)) l" using e(1) [OF assms(3)] by (simp add: k_insert_def)
  moreover have "events_but l k k'" "k_list k' xPendingReadyList = k_list k xPendingReadyList"
    using e(1) assms(4) by (simp_all add: events_but_def k_insert_def klist_simps)
  moreover have "u \<noteq> t \<longrightarrow> is_ready k' u = is_ready k u" for u using e(2) by (simp add: is_ready_def k_insert_def klist_simps)
  moreover have "same_vars k k'" using e(3) by (simp add: same_vars_def k_insert_def)
  moreover have "\<not> is_ready k' t"
    using waiting_not_ready [OF k'(2), of t l] calculation(1) insert_split [of "lists k" l "xEventListItem t"] by auto
  ultimately show ?thesis using k' by blast
qed

section \<open>Gives while the queue is locked\<close>

fun gives :: "nat \<Rightarrow> nat \<Rightarrow> interrupt" where
  "gives 0 n st = Some st"
| "gives (Suc g) n (q, k) = do {
     (_, _, q, k) \<leftarrow> xQueueGiveFromISR n q k;
     gives g n (q, k)
   }"

lemma gives_locked:
  assumes "unat (uxMessagesWaiting q) + g \<le> unat (uxLength q)" "cTxLock q = of_nat j" "j + g \<le> 255"
  shows "gives g n (q, k) = Some (q\<lparr>uxMessagesWaiting := uxMessagesWaiting q + of_nat g, cTxLock := of_nat (j + g)\<rparr>, k)"
  using assms
proof (induction g arbitrary: q j)
  case 0
  then show ?case by simp
next
  case (Suc g)
  let ?q = "q\<lparr>uxMessagesWaiting := uxMessagesWaiting q + 1, cTxLock := cTxLock q + 1\<rparr>"
  have room: "uxMessagesWaiting q < uxLength q" using Suc.prems(1) by (simp add: word_less_nat_alt)
  have lock: "cTxLock q \<noteq> queueUNLOCKED"
  proof -
    have "unat (of_nat j :: u8) = j" using Suc.prems(3) by (simp add: unat_of_nat)
    moreover have "unat (queueUNLOCKED :: u8) = 255" by (simp add: queueUNLOCKED_def unsigned_minus_1_eq_mask mask_eq_exp_minus_1)
    ultimately show ?thesis using Suc.prems(2,3) by auto
  qed
  have "gives g n (?q, k) = Some (?q\<lparr>uxMessagesWaiting := uxMessagesWaiting ?q + of_nat g, cTxLock := of_nat (Suc j + g)\<rparr>, k)"
  proof (rule Suc.IH)
    show "unat (uxMessagesWaiting ?q) + g \<le> unat (uxLength ?q)" using Suc.prems(1) unat_less_Suc [of "uxMessagesWaiting q" "uxLength q"] room by (simp add: word_less_nat_alt)
  qed (use Suc.prems in simp_all)
  then show ?case using room lock by (simp add: xQueueGiveFromISR_def Let_def algebra_simps)
qed

text \<open>A timeout that has just been set is not over.\<close>

lemma timeout_fresh:
  "n \<noteq> 0 \<Longrightarrow> \<exists>s m. xTaskCheckForTimeOut (vTaskInternalSetTimeOutState k) n (vTaskSuspendAll k) = (False, s, m) \<and> m \<noteq> 0"
  by (auto simp: xTaskCheckForTimeOut_def vTaskInternalSetTimeOutState_def vTaskSuspendAll_def Let_def word_gt_0)

text \<open>The end of a round: the first of the waiting tasks are woken, as many as the lock counts.\<close>

lemma unlock_and_resume_effect:
  assumes "sched_ok idle k" "uxSchedulerSuspended k = 1" "uxPendedTicks k = 0" "cRxLock q = queueLOCKED_UNMODIFIED"
  defines "m \<equiv> nat (sint (cTxLock q))"
  shows "\<exists>y k'. unlock_and_resume n q k = Some (y, q\<lparr>cTxLock := queueUNLOCKED, cRxLock := queueUNLOCKED\<rparr>, k') \<and> sched_ok idle k' \<and>
    k_list k' (xTasksWaitingToReceive n) = drop m (k_list k (xTasksWaitingToReceive n)) \<and> tcb k' = tcb k \<and>
    (\<forall>u. is_ready k u \<or> xEventListItem u \<in> set (take m (k_list k (xTasksWaitingToReceive n))) \<longrightarrow> is_ready k' u)"
proof -
  obtain k1 where k1: "unlock_loop m (xTasksWaitingToReceive n) k = Some k1" "sched_ok idle k1"
    "k_list k1 (xTasksWaitingToReceive n) = drop m (k_list k (xTasksWaitingToReceive n))"
    "set (k_list k1 xPendingReadyList) = set (take m (k_list k (xTasksWaitingToReceive n))) \<union> set (k_list k xPendingReadyList)"
    "\<forall>u. is_ready k1 u = is_ready k u" "same_vars k k1"
    using unlock_loop_wakes [OF assms(1), of "xTasksWaitingToReceive n" m] assms(2) by auto
  have "uxSchedulerSuspended k1 = 1" "uxPendedTicks k1 = 0" using k1(6) assms(2,3) by (simp_all add: same_vars_def)
  from ResumeAll_wakes [OF k1(2) this] obtain y k' where k': "xTaskResumeAll k1 = Some (y, k')" "sched_ok idle k'" "kept_events k1 k'" "tcb k' = tcb k1"
    "\<forall>u. is_ready k1 u \<or> xEventListItem u \<in> set (k_list k1 xPendingReadyList) \<longrightarrow> is_ready k' u" by blast
  have "unlock_and_resume n q k = Some (y, q\<lparr>cTxLock := queueUNLOCKED, cRxLock := queueUNLOCKED\<rparr>, k')"
    using k1(1) k'(1) assms(4) by (simp add: unlock_and_resume_def prvUnlockQueue_def m_def queueLOCKED_UNMODIFIED_def)
  moreover have "k_list k' (xTasksWaitingToReceive n) = drop m (k_list k (xTasksWaitingToReceive n))" using k'(3) k1(3) by (simp add: kept_events_def)
  moreover have "tcb k' = tcb k" using k'(4) k1(6) by (simp add: same_vars_def)
  ultimately show ?thesis using k'(2,5) k1(4,5) by auto
qed

definition waiting_with :: "nat \<Rightarrow> task \<Rightarrow> kernel \<Rightarrow> kitem list" where
  "waiting_with n t k = entries (l_insert (xTasksWaitingToReceive n) (xEventListItem t) (lists k)) (xTasksWaitingToReceive n)"

lemma locked_fields [simp]:
  "is_mutex (prvLockQueue q) = is_mutex q" "uxMessagesWaiting (prvLockQueue q) = uxMessagesWaiting q" "uxLength (prvLockQueue q) = uxLength q"
  "pxMutexHolder (prvLockQueue q) = pxMutexHolder q"
  "cTxLock q = queueUNLOCKED \<Longrightarrow> cTxLock (prvLockQueue q) = 0" "cRxLock q = queueUNLOCKED \<Longrightarrow> cRxLock (prvLockQueue q) = queueLOCKED_UNMODIFIED"
  by (simp_all add: prvLockQueue_def queueLOCKED_UNMODIFIED_def)

lemma yield_fields [simp]:
  "sched_ok idle (portYIELD k) = sched_ok idle k" "lists (portYIELD k) = lists k" "tcb (portYIELD k) = tcb k" "is_ready (portYIELD k) u = is_ready k u"
  by (simp_all add: sched_ok_def) (simp_all add: portYIELD_def is_ready_def)

lemma block_effect:
  assumes "sched_ok idle k" "uxSchedulerSuspended k = 1" "uxPendedTicks k = 0" "may_block idle k t" "ticks \<noteq> 0"
    "unat (uxMessagesWaiting q) + g \<le> unat (uxLength q)" "cTxLock q = 0" "cRxLock q = queueLOCKED_UNMODIFIED" "g \<le> 255"
  defines "m \<equiv> nat (sint (of_nat g :: u8))"
  shows "\<exists>q' k'. block_on (gives g n) n (xTasksWaitingToReceive n) ticks q k = Some (q', k') \<and> sched_ok idle k' \<and> tcb k' = tcb k \<and>
    q' = q\<lparr>uxMessagesWaiting := uxMessagesWaiting q + of_nat g, cTxLock := queueUNLOCKED, cRxLock := queueUNLOCKED\<rparr> \<and>
    k_list k' (xTasksWaitingToReceive n) = drop m (waiting_with n t k) \<and>
    (\<forall>u. xEventListItem u \<in> set (take m (waiting_with n t k)) \<longrightarrow> is_ready k' u) \<and> (\<forall>u. u \<noteq> t \<longrightarrow> is_ready k u \<longrightarrow> is_ready k' u)"
proof -
  obtain k1 where k1: "vTaskPlaceOnEventList (xTasksWaitingToReceive n) ticks k = Some k1" "sched_ok idle k1"
    "k_list k1 (xTasksWaitingToReceive n) = waiting_with n t k" "\<forall>u. u \<noteq> t \<longrightarrow> is_ready k1 u = is_ready k u" "same_vars k k1"
    using PlaceOnEventList_effect [OF assms(1,4), of "xTasksWaitingToReceive n" ticks] assms(5) by (auto simp: waiting_with_def)
  define q1 where "q1 = q\<lparr>uxMessagesWaiting := uxMessagesWaiting q + of_nat g, cTxLock := of_nat g\<rparr>"
  have isr: "gives g n (q, k1) = Some (q1, k1)" using gives_locked [of q g 0 n k1] assms(6,7,9) by (simp add: q1_def)
  have "uxSchedulerSuspended k1 = 1" "uxPendedTicks k1 = 0" "cRxLock q1 = queueLOCKED_UNMODIFIED" using k1(5) assms(2,3,8) by (simp_all add: same_vars_def q1_def)
  from unlock_and_resume_effect [OF k1(2) this, of n] obtain y k' where
    "unlock_and_resume n q1 k1 = Some (y, q1\<lparr>cTxLock := queueUNLOCKED, cRxLock := queueUNLOCKED\<rparr>, k')" "sched_ok idle k'"
    "k_list k' (xTasksWaitingToReceive n) = drop m (waiting_with n t k)" "tcb k' = tcb k1"
    "\<forall>u. is_ready k1 u \<or> xEventListItem u \<in> set (take m (waiting_with n t k)) \<longrightarrow> is_ready k' u" using k1(3) by (auto simp: q1_def m_def)
  then show ?thesis using k1(1,4,5) isr by (cases y) (auto simp: block_on_def q1_def same_vars_def)
qed

lemma suspended_fields [simp]:
  "is_ready (vTaskSuspendAll k) u = is_ready k u" "may_block idle (vTaskSuspendAll k) t = may_block idle k t" "tcb (vTaskSuspendAll k) = tcb k"
  "lists (vTaskSuspendAll k) = lists k" "waiting_with n t (vTaskSuspendAll k) = waiting_with n t k"
  by (simp_all add: vTaskSuspendAll_def is_ready_def may_block_def waiting_with_def)

text \<open>The round of a task that finds the semaphore empty, with \<open>g\<close> gives by interrupts after it has joined the list.\<close>

lemma take_round:
  assumes "sched_ok idle k" "uxSchedulerSuspended k = 0" "may_block idle k t" "\<not> is_mutex q" "uxMessagesWaiting q = 0" "g \<le> unat (uxLength q)"
    "cTxLock q = queueUNLOCKED" "cRxLock q = queueUNLOCKED" "ticks \<noteq> 0" "g \<le> 255"
  defines "m \<equiv> nat (sint (of_nat g :: u8))"
  shows "\<exists>r q' k'. xQueueSemaphoreTake Some (gives g n) n False None ticks q k = Some (Inr r, q', k') \<and> sched_ok idle k' \<and>
    uxMessagesWaiting q' = of_nat g \<and> k_list k' (xTasksWaitingToReceive n) = drop m (waiting_with n t k) \<and>
    (\<forall>u. xEventListItem u \<in> set (take m (waiting_with n t k)) \<longrightarrow> is_ready k' u)"
proof -
  let ?k = "vTaskSuspendAll k" and ?q = "prvLockQueue q"
  obtain s w where w: "xTaskCheckForTimeOut (vTaskInternalSetTimeOutState k) ticks ?k = (False, s, w)" "w \<noteq> 0" using timeout_fresh [OF assms(9)] by blast
  have k: "sched_ok idle ?k" "uxSchedulerSuspended ?k = 1" "uxPendedTicks ?k = 0" "may_block idle ?k t"
    using SuspendAll_ok [OF assms(1)] assms(1-3) by (simp_all add: vTaskSuspendAll_def sched_ok_def pend_ok_def may_block_def is_ready_def)
  obtain q' k' where b: "block_on (gives g n) n (xTasksWaitingToReceive n) w ?q ?k = Some (q', k')" "sched_ok idle k'" "uxMessagesWaiting q' = of_nat g"
    "k_list k' (xTasksWaitingToReceive n) = drop m (waiting_with n t k)" "\<forall>u. xEventListItem u \<in> set (take m (waiting_with n t k)) \<longrightarrow> is_ready k' u"
    using block_effect [OF k w(2), of ?q g n] assms(5-8,10) by (auto simp: m_def)
  have "xQueueSemaphoreTake Some (gives g n) n False None ticks q k = Some (Inr (False, s, w), q', k')"
    using assms(4,5,9) w(1) b(1) by (simp add: xQueueSemaphoreTake_def take_enter_def take_wait_def set_timeout_def prvIsQueueEmpty_def)
  then show ?thesis using b(2-5) by auto
qed


text \<open>
  C39: with 128 gives the signed lock counter of eight bits wraps to -128, unlocking wakes nobody:
  the task stays in the list although the semaphore has 128 units.
\<close>

theorem lock_counter_overflow:
  assumes "reachable idle k" "uxSchedulerSuspended k = 0" "may_block idle k t" "\<not> is_mutex q" "uxMessagesWaiting q = 0" "128 \<le> unat (uxLength q)"
    "cTxLock q = queueUNLOCKED" "cRxLock q = queueUNLOCKED" "ticks \<noteq> 0"
  shows "\<exists>r q' k'. xQueueSemaphoreTake Some (gives 128 n) n False None ticks q k = Some (Inr r, q', k') \<and> uxMessagesWaiting q' = 128 \<and>
    xEventListItem t \<in> set (k_list k' (xTasksWaitingToReceive n)) \<and> \<not> is_ready k' t"
proof -
  have m: "nat (sint (of_nat 128 :: u8)) = 0" by simp
  have W: "xEventListItem t \<in> set (waiting_with n t k)"
    using insert_split [of "lists k" "xTasksWaitingToReceive n" "xEventListItem t"] by (auto simp: waiting_with_def)
  obtain r q' k' where r: "xQueueSemaphoreTake Some (gives 128 n) n False None ticks q k = Some (Inr r, q', k')" "sched_ok idle k'" "uxMessagesWaiting q' = of_nat 128"
    "k_list k' (xTasksWaitingToReceive n) = waiting_with n t k" using take_round [OF reachable_ok [OF assms(1)] assms(2-9), of n] unfolding m by auto
  then show ?thesis using waiting_not_ready [OF r(2), of t "xTasksWaitingToReceive n"] W by (cases r) auto
qed

lemma boot_may_block:
  assumes "distinct (idle # timer # map fst ts)"
  shows "\<exists>k t. boot ts idle timer = Some k \<and> reachable idle k \<and> uxSchedulerSuspended k = 0 \<and> may_block idle k t \<and> prio k idle < prio k t \<and>
    (\<forall>l. \<not> state_list l \<longrightarrow> k_list k l = [])"
proof -
  obtain k where k: "boot ts idle timer = Some k" "sched_ok idle k" "runs_highest k" "uxSchedulerSuspended k = 0" "is_ready k timer" "prio k idle < prio k timer" "only_ready k"
    using boot_ok [OF assms] by blast
  obtain t where t: "pxCurrentTCB k = Some t" "is_ready k t" "prio k timer \<le> prio k t" using k(3,5) by (auto simp: runs_highest_def)
  have "t \<noteq> idle" using less_le_trans [OF k(6) t(3)] by auto
  moreover have "kernel_wf k" using k(2) by (simp add: sched_ok_def core_ok_def tick_inv_def)
  then have "k_list k l = []" if "\<not> state_list l" for l
    using list_empty_iff [OF kernel_wfD(1)] k(7) that by (fastforce simp: only_ready_def)
  ultimately show ?thesis using k(1,4) t less_le_trans [OF k(6) t(3)] reachable.start [OF assms k(1)] by (auto simp: may_block_def)
qed

definition empty_semaphore :: Queue_t where
  "empty_semaphore = blank_queue\<lparr>uxLength := 200, cRxLock := queueUNLOCKED, cTxLock := queueUNLOCKED\<rparr>"

lemma empty_semaphore_fields:
  "\<not> is_mutex empty_semaphore" "uxMessagesWaiting empty_semaphore = 0" "unat (uxLength empty_semaphore) = 200" "cTxLock empty_semaphore = queueUNLOCKED"
  "cRxLock empty_semaphore = queueUNLOCKED"
  by (simp_all add: empty_semaphore_def blank_queue_def)


theorem lock_counter_overflow_witness:
  "\<exists>k t r q' k'. boot [(1, 3), (2, 5)] 0 3 = Some k \<and> pxCurrentTCB k = Some t \<and>
    xQueueSemaphoreTake Some (gives 128 7) 7 False None portMAX_DELAY empty_semaphore k = Some (Inr r, q', k') \<and> uxMessagesWaiting q' = 128 \<and> \<not> is_ready k' t"
proof -
  have d: "distinct (0 # 3 # map fst [(1 :: task, 3 :: nat), (2, 5)])" by simp
  obtain k t where k: "boot [(1, 3), (2, 5)] 0 3 = Some k" "reachable 0 k" "uxSchedulerSuspended k = 0" "may_block 0 k t" "\<forall>l. \<not> state_list l \<longrightarrow> k_list k l = []"
    using boot_may_block [OF d] by blast
  show ?thesis using lock_counter_overflow [OF k(2-4), of empty_semaphore portMAX_DELAY 7] empty_semaphore_fields k(1,4) by (auto simp: may_block_def portMAX_DELAY_def)
qed

section \<open>Mutexes\<close>

text \<open>A change of priority leaves everything else where it is.\<close>

lemma change_priority_effect:
  assumes "kernel_wf k" "change_priority h p (set_event_priority h v k) = Some k'"
  shows "tcb k' = (tcb k)(h := (tcb k h)\<lparr>uxPriority := p\<rparr>)" "is_ready k' u = is_ready k u" "\<not> state_list l \<Longrightarrow> k_list k' l = k_list k l"
    "uxSchedulerSuspended k' = uxSchedulerSuspended k" "uxPendedTicks k' = uxPendedTicks k" "pxCurrentTCB k' = pxCurrentTCB k"
proof -
  define k1 where "k1 = set_event_priority h v k"
  have f: "tcb k1 = tcb k" "k_in k1 = k_in k" "k_list k1 = k_list k" "uxSchedulerSuspended k1 = uxSchedulerSuspended k" "uxPendedTicks k1 = uxPendedTicks k"
    "pxCurrentTCB k1 = pxCurrentTCB k" by (simp_all add: k1_def set_event_priority_def k_set_value_def klist_simps)
  have wf: "lists_wf (lists k1)" using kernel_wfD(1) [OF assms(1)] by (simp add: k1_def set_event_priority_def k_set_value_def wf_set_value)
  have ready: "k_in k (xStateListItem h) = Some (pxReadyTasksLists p') \<longrightarrow> p' = prio k h" for p' using items_okD(2) [OF kernel_wfD(2) [OF assms(1)]] by blast
  have "tcb k' = (tcb k)(h := (tcb k h)\<lparr>uxPriority := p\<rparr>) \<and> is_ready k' u = is_ready k u \<and> (\<not> state_list l \<longrightarrow> k_list k' l = k_list k l) \<and>
    uxSchedulerSuspended k' = uxSchedulerSuspended k \<and> uxPendedTicks k' = uxPendedTicks k \<and> pxCurrentTCB k' = pxCurrentTCB k"
  proof (cases "is_ready k h")
    case True
    obtain A where A: "k_remove (xStateListItem h) k1 = Some (k1\<lparr>lists := A\<rparr>)" "container A = (k_in k1)(xStateListItem h := None)"
      "\<forall>l. entries A l = remove1 (xStateListItem h) (k_list k1 l)" using k_remove_ok [OF wf, of "xStateListItem h"] True f(2) by (auto simp: is_ready_def)
    have k': "k' = prvAddTaskToReadyList h (upd_tcb h (\<lambda>c. c\<lparr>uxPriority := p\<rparr>) (k1\<lparr>lists := A\<rparr>))"
      using assms(2) True A(1) f by (simp add: change_priority_def k1_def [symmetric] is_ready_def)
    have "xStateListItem h \<notin> set (k_list k l)" if "\<not> state_list l"
      using lists_wf_in [OF kernel_wfD(1) [OF assms(1)], of "xStateListItem h" l] items_okD(1) [OF kernel_wfD(2) [OF assms(1)], of h l] that by auto
    moreover have "l \<noteq> pxReadyTasksLists p" if "\<not> state_list l" using that by auto
    ultimately show ?thesis using A(2,3) f True unfolding k' by (auto simp: klist_simps upd_tcb_def is_ready_def remove1_idem)
  next
    case False
    then have "k' = upd_tcb h (\<lambda>c. c\<lparr>uxPriority := p\<rparr>) k1" using assms(2) f by (simp add: change_priority_def k1_def [symmetric] is_ready_def)
    then show ?thesis using f False ready by (auto simp: upd_tcb_def is_ready_def)
  qed
  then show "tcb k' = (tcb k)(h := (tcb k h)\<lparr>uxPriority := p\<rparr>)" "is_ready k' u = is_ready k u" "\<not> state_list l \<Longrightarrow> k_list k' l = k_list k l"
    "uxSchedulerSuspended k' = uxSchedulerSuspended k" "uxPendedTicks k' = uxPendedTicks k" "pxCurrentTCB k' = pxCurrentTCB k" by blast+
qed

lemma Inherit_effect:
  assumes "sched_ok idle k" "pxCurrentTCB k = Some t"
  shows "\<exists>b k'. xTaskPriorityInherit (Some h) k = Some (b, k') \<and> sched_ok idle k' \<and>
    tcb k' = (tcb k)(h := (tcb k h)\<lparr>uxPriority := max (prio k h) (prio k t)\<rparr>) \<and> (\<forall>u. is_ready k' u = is_ready k u) \<and>
    uxSchedulerSuspended k' = uxSchedulerSuspended k \<and> uxPendedTicks k' = uxPendedTicks k \<and> pxCurrentTCB k' = pxCurrentTCB k"
proof (cases "prio k h < prio k t")
  case True
  have wf: "kernel_wf k" using assms(1) by (simp add: sched_ok_def core_ok_def tick_inv_def)
  obtain b k' where k': "xTaskPriorityInherit (Some h) k = Some (b, k')" "sched_ok idle k'" using Inherit_ok [OF assms(1)] by blast
  then have "change_priority h (prio k t) (set_event_priority h (prio k t) k) = Some k'"
    using True assms(2) by (auto simp: xTaskPriorityInherit_def split: bind_splits)
  from change_priority_effect [OF wf this] show ?thesis using k' True by (auto simp: max_def)
next
  case False
  then have "max (prio k h) (prio k t) = prio k h" by (simp add: max_def)
  then show ?thesis using assms False by (auto simp: xTaskPriorityInherit_def)
qed

definition held_by :: "task \<Rightarrow> Queue_t \<Rightarrow> bool" where
  "held_by h q \<longleftrightarrow> is_mutex q \<and> uxItemSize q = 0 \<and> uxLength q = 1 \<and> uxMessagesWaiting q = 0 \<and> pxMutexHolder q = Some h"

lemma gives_0: "gives 0 n = Some"
  by (rule ext) simp

text \<open>
  C12: a task \<open>t\<close> that waits for a mutex held by \<open>h\<close> raises \<open>h\<close> to its own priority if that is higher, and
  changes no other priority and no base priority; \<open>h\<close> stays ready if it was, \<open>t\<close> waits, and the mutex stays held.
\<close>

theorem mutex_inherits_priority:
  assumes "reachable idle k" "uxSchedulerSuspended k = 0" "may_block idle k t" "held_by h q" "h \<noteq> t"
    "cTxLock q = queueUNLOCKED" "cRxLock q = queueUNLOCKED" "ticks \<noteq> 0"
  shows "\<exists>r q' k'. xQueueSemaphoreTake Some Some n False None ticks q k = Some (Inr r, q', k') \<and> held_by h q' \<and>
    prio k' h = max (prio k h) (prio k t) \<and> (\<forall>u. u \<noteq> h \<longrightarrow> prio k' u = prio k u) \<and> (\<forall>u. uxBasePriority (tcb k' u) = uxBasePriority (tcb k u)) \<and>
    xEventListItem t \<in> set (k_list k' (xTasksWaitingToReceive n)) \<and> \<not> is_ready k' t \<and> (is_ready k h \<longrightarrow> is_ready k' h)"
proof -
  let ?k = "vTaskSuspendAll k" and ?q = "prvLockQueue q"
  note ok = reachable_ok [OF assms(1)]
  obtain s w where w: "xTaskCheckForTimeOut (vTaskInternalSetTimeOutState k) ticks ?k = (False, s, w)" "w \<noteq> 0" using timeout_fresh [OF assms(8)] by blast
  have k: "sched_ok idle ?k" "pxCurrentTCB ?k = Some t" "uxSchedulerSuspended ?k = 1" "uxPendedTicks ?k = 0" "may_block idle ?k t"
    using SuspendAll_ok [OF ok] ok assms(2,3) by (simp_all add: vTaskSuspendAll_def sched_ok_def pend_ok_def may_block_def is_ready_def)
  obtain b k1 where k1: "xTaskPriorityInherit (Some h) ?k = Some (b, k1)" "sched_ok idle k1"
    "tcb k1 = (tcb k)(h := (tcb k h)\<lparr>uxPriority := max (prio k h) (prio k t)\<rparr>)" "\<forall>u. is_ready k1 u = is_ready k u"
    "uxSchedulerSuspended k1 = 1" "uxPendedTicks k1 = 0" "pxCurrentTCB k1 = Some t" using Inherit_effect [OF k(1,2), of h] k(2-4) by auto
  have may: "may_block idle k1 t" using assms(3) k1(4,7) by (simp add: may_block_def)
  obtain q' k' where b: "block_on (gives 0 n) n (xTasksWaitingToReceive n) w ?q k1 = Some (q', k')" "sched_ok idle k'" "tcb k' = tcb k1"
    "q' = ?q\<lparr>uxMessagesWaiting := uxMessagesWaiting q, cTxLock := queueUNLOCKED, cRxLock := queueUNLOCKED\<rparr>"
    "k_list k' (xTasksWaitingToReceive n) = waiting_with n t k1" "\<forall>u. u \<noteq> t \<longrightarrow> is_ready k1 u \<longrightarrow> is_ready k' u"
    using block_effect [OF k1(2,5,6) may w(2), of ?q 0 n] assms(4,6,7) by (auto simp: held_by_def)
  have t: "xEventListItem t \<in> set (k_list k' (xTasksWaitingToReceive n))"
    using b(5) insert_split [of "lists k1" "xTasksWaitingToReceive n" "xEventListItem t"] by (auto simp: waiting_with_def)
  have "xQueueSemaphoreTake Some Some n False None ticks q k = Some (Inr (b, s, w), q', k')"
    using assms(4,8) w(1) k1(1) b(1) by (simp add: xQueueSemaphoreTake_def take_enter_def take_wait_def set_timeout_def prvIsQueueEmpty_def held_by_def gives_0)
  moreover have "held_by h q'" using assms(4) b(4) by (simp add: held_by_def prvLockQueue_def)
  ultimately show ?thesis using b(3,6) k1(3,4) t waiting_not_ready [OF b(2) t] assms(5) by (intro exI) auto
qed

definition taken_mutex :: "task \<Rightarrow> Queue_t" where
  "taken_mutex h = blank_queue\<lparr>is_mutex := True, uxLength := 1, pxMutexHolder := Some h, cRxLock := queueUNLOCKED, cTxLock := queueUNLOCKED\<rparr>"

lemma taken_mutex_held: "held_by h (taken_mutex h)" "cRxLock (taken_mutex h) = queueUNLOCKED" "cTxLock (taken_mutex h) = queueUNLOCKED"
  by (simp_all add: held_by_def taken_mutex_def blank_queue_def)

theorem mutex_inherits_priority_witness:
  "\<exists>k t r q' k'. boot [(1, 3), (2, 5)] 0 3 = Some k \<and> pxCurrentTCB k = Some t \<and>
    xQueueSemaphoreTake Some Some 7 False None 10 (taken_mutex 0) k = Some (Inr r, q', k') \<and> prio k 0 < prio k t \<and> prio k' 0 = prio k t \<and> \<not> is_ready k' t"
proof -
  have d: "distinct (0 # 3 # map fst [(1 :: task, 3 :: nat), (2, 5)])" by simp
  obtain k t where k: "boot [(1, 3), (2, 5)] 0 3 = Some k" "reachable 0 k" "uxSchedulerSuspended k = 0" "may_block 0 k t" "prio k 0 < prio k t"
    using boot_may_block [OF d] by blast
  have t: "0 \<noteq> t" "pxCurrentTCB k = Some t" using k(4) by (auto simp: may_block_def)
  obtain r q' k' where "xQueueSemaphoreTake Some Some 7 False None 10 (taken_mutex 0) k = Some (Inr r, q', k')" "prio k' 0 = max (prio k 0) (prio k t)" "\<not> is_ready k' t"
    using mutex_inherits_priority [OF k(2-4) taken_mutex_held(1) t(1) taken_mutex_held(3,2), of 10 7] by auto
  then show ?thesis using k(1,5) t(2) by (cases r) (auto simp: max_def)
qed

text \<open>Waking the first waiting task while the scheduler runs.\<close>

lemma Remove_running:
  assumes "sched_ok idle k" "\<not> state_list l" "k_list k l = xEventListItem t # xs" "uxSchedulerSuspended k = 0"
  shows "\<exists>b k'. xTaskRemoveFromEventList l k = Some (b, k') \<and> sched_ok idle k' \<and> k_list k' l = xs \<and> is_ready k' t \<and> tcb k' = tcb k"
proof -
  have core: "core_ok idle k" using assms(1) by (simp add: sched_ok_def)
  note c = core_okD [OF core]
  obtain u where u: "xEventListItem t = xEventListItem u" "k_head l k = Some u" "k_in k (xEventListItem u) = Some l" by (rule event_item [OF c(2) assms(2,3)])
  obtain cur where cur: "pxCurrentTCB k = Some cur" using core_current [OF core] by blast
  obtain A where A: "k_remove (xEventListItem t) k = Some (k\<lparr>lists := A\<rparr>)" "L_ok A" "container A = (k_in k)(xEventListItem t := None)"
    "\<And>l. entries A l = remove1 (xEventListItem t) (k_list k l)" using L_ok_remove [OF c(3), of "xEventListItem t"] u by auto
  have "alive k t" using event_alive [OF c(5)] u by simp
  then have "container A (xStateListItem t) \<noteq> None" by (simp add: A(3))
  then obtain B where B: "k_remove (xStateListItem t) (k\<lparr>lists := A\<rparr>) = Some (k\<lparr>lists := B\<rparr>)" "\<And>l. entries B l = remove1 (xStateListItem t) (entries A l)"
    using L_ok_remove [of "k\<lparr>lists := A\<rparr>" "xStateListItem t"] A(2) by auto
  define k1 where "k1 = prvAddTaskToReadyList t (k\<lparr>lists := B\<rparr>)"
  define h where "h \<longleftrightarrow> prio k1 t > prio k1 cur"
  define k' where "k' = prvResetNextTaskUnblockTime (if h then k1\<lparr>xYieldPending := True\<rparr> else k1)"
  have eq: "xTaskRemoveFromEventList l k = Some (h, k')"
    using u(1,2) A(1) B(1) assms(4) cur by (simp add: xTaskRemoveFromEventList_def k'_def h_def k1_def Let_def)
  have "xStateListItem t \<notin> set (k_list k l)"
    using lists_wf_in [OF kernel_wfD(1) [OF c(2)]] items_okD(1) [OF c(4), of t l] assms(2) by auto
  moreover have "l \<noteq> pxReadyTasksLists p" for p using assms(2) by auto
  ultimately have "k_list k' l = xs" using assms(3) by (simp add: k'_def k1_def klist_simps B(2) A(4) remove1_idem)
  moreover have "is_ready k' t" "tcb k' = tcb k" by (simp_all add: k'_def k1_def is_ready_def klist_simps)
  moreover have "sched_ok idle k'" using RemoveFromEventList_ok [OF assms(1,2)] assms(3) eq by auto
  ultimately show ?thesis using eq by blast
qed

lemma Disinherit_effect:
  assumes "sched_ok idle k" "pxCurrentTCB k = Some h" "is_ready k h" "uxMutexesHeld (tcb k h) = 1"
  shows "\<exists>b k'. xTaskPriorityDisinherit (Some h) k = Some (b, k') \<and> sched_ok idle k' \<and>
    tcb k' = (tcb k)(h := (tcb k h)\<lparr>uxMutexesHeld := 0, uxPriority := uxBasePriority (tcb k h)\<rparr>) \<and>
    (\<forall>l. \<not> state_list l \<longrightarrow> k_list k' l = k_list k l) \<and> uxSchedulerSuspended k' = uxSchedulerSuspended k \<and> pxCurrentTCB k' = pxCurrentTCB k"
proof -
  obtain b k' where k': "xTaskPriorityDisinherit (Some h) k = Some (b, k')" "sched_ok idle k'" using Disinherit_ok [OF assms(1), of "Some h"] assms(2,3) by auto
  define T where "T = (tcb k)(h := (tcb k h)\<lparr>uxMutexesHeld := 0\<rparr>)"
  have wf: "kernel_wf k" using assms(1) by (simp add: sched_ok_def core_ok_def tick_inv_def)
  obtain A where A: "k_remove (xStateListItem h) (k\<lparr>tcb := T\<rparr>) = Some (k\<lparr>tcb := T, lists := A\<rparr>)" "\<forall>l. entries A l = remove1 (xStateListItem h) (k_list k l)"
    using k_remove_ok [of "k\<lparr>tcb := T\<rparr>" "xStateListItem h"] kernel_wfD(1) [OF wf] assms(3) by (auto simp: is_ready_def)
  have out: "xStateListItem h \<notin> set (k_list k l)" "l \<noteq> pxReadyTasksLists p" if "\<not> state_list l" for l p
    using lists_wf_in [OF kernel_wfD(1) [OF wf], of "xStateListItem h" l] items_okD(1) [OF kernel_wfD(2) [OF wf], of h l] that by auto
  show ?thesis
  proof (cases "prio k h = uxBasePriority (tcb k h)")
    case True
    then have "k' = k\<lparr>tcb := T\<rparr>" using k'(1) assms(4) by (simp add: xTaskPriorityDisinherit_def upd_tcb_def T_def)
    then show ?thesis using k' True by (auto simp: T_def)
  next
    case False
    let ?T = "(tcb k)(h := (tcb k h)\<lparr>uxMutexesHeld := 0, uxPriority := uxBasePriority (tcb k h)\<rparr>)"
    have "k' = prvAddTaskToReadyList h (k\<lparr>tcb := ?T, lists := l_set_value (xEventListItem h) (event_value (uxBasePriority (tcb k h))) A\<rparr>)"
      using k'(1) False assms(4) A(1) by (simp add: xTaskPriorityDisinherit_def upd_tcb_def T_def k_set_value_def Let_def)
    then show ?thesis using k' A(2) out by (auto simp: klist_simps remove1_idem)
  qed
qed


text \<open>Tasks that have just been created hold no mutex.\<close>

lemma no_mutex_created: "\<forall>u. uxMutexesHeld (tcb k u) = 0 \<Longrightarrow> \<forall>u. uxMutexesHeld (tcb (created t p k) u) = 0"
  by (simp add: tcb_created prvInitialiseNewTask_def upd_tcb_def k_set_value_def Let_def)

lemma switch_tcb: "vTaskSwitchContext k = Some k' \<Longrightarrow> tcb k' = tcb k"
  by (auto simp: vTaskSwitchContext_def taskSELECT_HIGHEST_PRIORITY_TASK_def split: if_splits bind_splits prod.splits)

lemma boot_no_mutex:
  assumes "boot ts idle timer = Some k"
  shows "uxMutexesHeld (tcb k t) = 0"
proof -
  define k0 where "k0 = fold (\<lambda>(t, p) k. snd (xTaskCreate (Some t) p k)) ts kernel_zero"
  have "\<forall>u. uxMutexesHeld (tcb (fold (\<lambda>(t, p) k. snd (xTaskCreate (Some t) p k)) ts k1) u) = 0" if "\<forall>u. uxMutexesHeld (tcb k1 u) = 0" for k1
    using that by (induction ts arbitrary: k1) (auto simp: xTaskCreate_def no_mutex_created)
  then have "\<forall>u. uxMutexesHeld (tcb k0 u) = 0" by (simp add: k0_def kernel_zero_def)
  then have "uxMutexesHeld (tcb (created timer 2 (created idle 0 k0)) t) = 0" using no_mutex_created by blast
  then show ?thesis using assms unfolding boot_def k0_def [symmetric] vTaskStartScheduler_def by (auto simp: xTaskCreate_def dest!: switch_tcb)
qed


section \<open>The memory of a new queue\<close>

text \<open>
  The number of bytes is computed in 32 bits: a queue of 858993460 messages of five bytes is
  created with four bytes of storage behind the structure, and the first message is written past them.
\<close>

theorem creation_overflow:
  assumes "\<forall>b bytes. memory b = Some bytes \<longrightarrow> length bytes = unat b" "memory 80 \<noteq> None"
  shows "\<exists>q k'. xQueueGenericCreate n 858993460 5 memory junk k = Some (Some (q, k')) \<and> length (storage q) = 4 \<and>
    (length item = 5 \<longrightarrow> send_enter n item queueSEND_TO_BACK None 0 q k' = None)"
proof -
  obtain block where b: "memory 80 = Some block" "length block = 80" using assms by fastforce
  have "(4294967376 :: u32) = 80" by simp
  then have "memory 4294967376 = Some block" using b(1) by (simp only:)
  then show ?thesis using b(2)
    by (simp add: xQueueGenericCreate_def prvInitialiseNewQueue_def xQueueGenericReset_def sizeof_Queue_t_def send_enter_def prvCopyDataToQueue_def store_def Let_def)
qed

theorem creation_overflow_witness:
  "\<exists>q k'. xQueueGenericCreate 0 858993460 5 (\<lambda>b. if b < 1000 then Some (replicate (unat b) 0) else None) blank_queue kernel_zero = Some (Some (q, k')) \<and>
    length (storage q) = 4 \<and> send_enter 0 [1, 2, 3, 4, 5] queueSEND_TO_BACK None 0 q k' = None"
  using creation_overflow [of "\<lambda>b. if b < 1000 then Some (replicate (unat b) 0) else None" 0 blank_queue kernel_zero "[1, 2, 3, 4, 5]"] by auto

end
