(* ===== verification/Heap_Caps.thy ===== *)
theory Heap_Caps
  imports Prelude "HOL-Library.Monad_Syntax"
begin

unbundle bit_operations_syntax

text \<open>
  The memory allocator of the SDK (\<open>components/heap\<close>): \<open>src/esp_heap_caps.c\<close>, \<open>src/esp_heap_trace.c\<close>, the
  macros and inline functions of \<open>port/esp8266/include/priv/esp_heap_caps_priv.h\<close>.

  The memory is a function from addresses to bytes, words are little endian. Each region is a
  doubly linked chain of blocks that ends with a block without successor; bit 31 of the link
  to the previous block marks a used block, bit 31 of the link to the next one a traced block.
  \<open>None\<close> is an access through a null pointer, or a search that does not end. Locks and logging
  have no counterpart.
\<close>

section \<open>Memory\<close>

type_synonym memory = "u32 \<Rightarrow> u8"

definition rd32 :: "memory \<Rightarrow> u32 \<Rightarrow> u32" where
  "rd32 m a = ucast (m a) OR push_bit 8 (ucast (m (a + 1))) OR push_bit 16 (ucast (m (a + 2))) OR push_bit 24 (ucast (m (a + 3)))"

definition wr32 :: "u32 \<Rightarrow> u32 \<Rightarrow> memory \<Rightarrow> memory" where
  "wr32 a v m = m(a := ucast v, a + 1 := ucast (drop_bit 8 v), a + 2 := ucast (drop_bit 16 v), a + 3 := ucast (drop_bit 24 v))"

text \<open>The C library's \<open>memset\<close> and \<open>memcpy\<close> (for areas that do not overlap).\<close>

definition memset :: "u32 \<Rightarrow> u8 \<Rightarrow> u32 \<Rightarrow> memory \<Rightarrow> memory" where
  "memset p v n m = (\<lambda>a. if a - p < n then v else m a)"

definition memcpy :: "u32 \<Rightarrow> u32 \<Rightarrow> u32 \<Rightarrow> memory \<Rightarrow> memory" where
  "memcpy dst src n m = (\<lambda>a. if a - dst < n then m (src + (a - dst)) else m a)"

section \<open>Block headers\<close>

definition MEM_BLK_TAG :: u32 where "MEM_BLK_TAG = 0x80000000"

definition MEM_BLK_TRACE :: u32 where "MEM_BLK_TRACE = 0x80000000"

definition MEM_HEAD_SIZE :: u32 where "MEM_HEAD_SIZE = 8"

definition MEM2_HEAD_SIZE :: u32 where "MEM2_HEAD_SIZE = 16"

definition MEM_BLK_MIN :: u32 where "MEM_BLK_MIN = 1"

definition HEAP_ALIGN :: "u32 \<Rightarrow> u32" where
  "HEAP_ALIGN p = (p + 3) AND NOT 3"

definition mem_blk_prev :: "u32 \<Rightarrow> memory \<Rightarrow> u32" where
  "mem_blk_prev b m = rd32 m b AND NOT MEM_BLK_TAG"

definition mem_blk_next :: "u32 \<Rightarrow> memory \<Rightarrow> u32" where
  "mem_blk_next b m = rd32 m (b + 4) AND NOT MEM_BLK_TRACE"

definition mem_blk_set_prev :: "u32 \<Rightarrow> u32 \<Rightarrow> memory \<Rightarrow> memory option" where
  "mem_blk_set_prev b p m = (if b = 0 then None else Some (wr32 b (p OR (rd32 m b AND MEM_BLK_TAG)) m))"

definition mem_blk_set_next :: "u32 \<Rightarrow> u32 \<Rightarrow> memory \<Rightarrow> memory option" where
  "mem_blk_set_next b p m = (if b = 0 then None else Some (wr32 (b + 4) (p OR (rd32 m (b + 4) AND MEM_BLK_TRACE)) m))"

definition mem_blk_head_size :: "bool \<Rightarrow> u32" where
  "mem_blk_head_size trace = (if trace then MEM2_HEAD_SIZE else MEM_HEAD_SIZE)"

definition mem_blk_set_traced :: "u32 \<Rightarrow> u32 \<Rightarrow> u32 \<Rightarrow> memory \<Rightarrow> memory" where
  "mem_blk_set_traced b file line m =
     wr32 (b + 12) (line OR MEM_BLK_TRACE) (wr32 (b + 8) file (wr32 (b + 4) (rd32 m (b + 4) OR MEM_BLK_TRACE) m))"

definition mem_blk_set_untraced :: "u32 \<Rightarrow> memory \<Rightarrow> memory" where
  "mem_blk_set_untraced b m = wr32 (b + 4) (rd32 m (b + 4) AND NOT MEM_BLK_TRACE) m"

definition mem_blk_is_traced :: "u32 \<Rightarrow> memory \<Rightarrow> bool" where
  "mem_blk_is_traced b m \<longleftrightarrow> rd32 m (b + 4) AND MEM_BLK_TRACE \<noteq> 0"

definition mem_blk_set_used :: "u32 \<Rightarrow> memory \<Rightarrow> memory" where
  "mem_blk_set_used b m = wr32 b (rd32 m b OR MEM_BLK_TAG) m"

definition mem_blk_set_unused :: "u32 \<Rightarrow> memory \<Rightarrow> memory" where
  "mem_blk_set_unused b m = wr32 b (rd32 m b AND NOT MEM_BLK_TAG) m"

definition mem_blk_is_used :: "u32 \<Rightarrow> memory \<Rightarrow> bool" where
  "mem_blk_is_used b m \<longleftrightarrow> rd32 m b AND MEM_BLK_TAG \<noteq> 0"

definition mem_blk_is_end :: "u32 \<Rightarrow> memory \<Rightarrow> bool" where
  "mem_blk_is_end b m \<longleftrightarrow> mem_blk_next b m = 0"

definition blk_link_size :: "u32 \<Rightarrow> memory \<Rightarrow> u32" where
  "blk_link_size b m = mem_blk_next b m - b"

definition ptr2memblk_size :: "u32 \<Rightarrow> bool \<Rightarrow> u32" where
  "ptr2memblk_size n trace = HEAP_ALIGN (n + mem_blk_head_size trace)"

definition ptr_is_traced :: "u32 \<Rightarrow> memory \<Rightarrow> bool" where
  "ptr_is_traced ptr m \<longleftrightarrow> rd32 m (ptr - 4) AND MEM_BLK_TRACE \<noteq> 0"

definition ptr2blk :: "u32 \<Rightarrow> bool \<Rightarrow> u32" where
  "ptr2blk ptr trace = ptr - mem_blk_head_size trace"

definition blk2ptr :: "u32 \<Rightarrow> bool \<Rightarrow> u32" where
  "blk2ptr b trace = b + mem_blk_head_size trace"

definition ptr_size :: "u32 \<Rightarrow> memory \<Rightarrow> u32" where
  "ptr_size ptr m = (let traced = ptr_is_traced ptr m in blk_link_size (ptr2blk ptr traced) m - mem_blk_head_size traced)"

section \<open>Regions\<close>

record heap_region =
  start_addr :: u32
  total_size :: u32
  caps :: u32
  free_blk :: u32
  free_bytes :: u32
  min_free_bytes :: u32

datatype heap_trace_mode_t = HEAP_TRACE_NONE | HEAP_TRACE_LEAKS

record heaps =
  mem :: memory
  g_heap_region :: "heap_region list"
  s_heap_trace_mode :: heap_trace_mode_t

definition heap_trace_is_on :: "heaps \<Rightarrow> bool" where
  "heap_trace_is_on H \<longleftrightarrow> s_heap_trace_mode H = HEAP_TRACE_LEAKS"

definition heap_trace_start :: "heap_trace_mode_t \<Rightarrow> heaps \<Rightarrow> heaps" where
  "heap_trace_start mode H = H\<lparr>s_heap_trace_mode := mode\<rparr>"

definition heap_trace_stop :: "heaps \<Rightarrow> heaps" where
  "heap_trace_stop H = H\<lparr>s_heap_trace_mode := HEAP_TRACE_NONE\<rparr>"

definition heap_trace_resume :: "heaps \<Rightarrow> heaps" where
  "heap_trace_resume H = H\<lparr>s_heap_trace_mode := HEAP_TRACE_LEAKS\<rparr>"

text \<open>The first and the last block of a region.\<close>

definition region_start :: "heap_region \<Rightarrow> u32" where
  "region_start r = HEAP_ALIGN (start_addr r)"

definition region_end :: "heap_region \<Rightarrow> u32" where
  "region_end r =
     (let e = HEAP_ALIGN (start_addr r + total_size r);
          e = (if e \<noteq> start_addr r + total_size r then e - 4 else e)
      in e - MEM_HEAD_SIZE)"

fun init_regions :: "heap_region list \<Rightarrow> memory \<Rightarrow> heap_region list \<times> memory" where
  "init_regions [] m = ([], m)"
| "init_regions (r # rs) m =
     (let mem_start = region_start r;
          mem_end = region_end r;
          m = wr32 (mem_end + 4) 0 (wr32 mem_end mem_start (wr32 (mem_start + 4) mem_end (wr32 mem_start 0 m)));
          r = r\<lparr>free_blk := mem_start, free_bytes := blk_link_size mem_start m, min_free_bytes := blk_link_size mem_start m\<rparr>;
          (rs, m) = init_regions rs m
      in (r # rs, m))"

definition esp_heap_caps_init_region :: "heaps \<Rightarrow> heaps" where
  "esp_heap_caps_init_region H = (let (rs, m) = init_regions (g_heap_region H) (mem H) in H\<lparr>g_heap_region := rs, mem := m\<rparr>)"

text \<open>\<open>heap_caps_init\<close> of the port; the two addresses are symbols of the linker.\<close>

definition heap_caps_init :: "u32 \<Rightarrow> u32 \<Rightarrow> heaps \<Rightarrow> heaps" where
  "heap_caps_init lit4_end heap_start H =
     esp_heap_caps_init_region (H\<lparr>g_heap_region :=
       [\<lparr>start_addr = lit4_end, total_size = 0x4010C000 - lit4_end, caps = 2, free_blk = 0, free_bytes = 0, min_free_bytes = 0\<rparr>,
        \<lparr>start_addr = heap_start, total_size = 0x40000000 - heap_start, caps = 14, free_blk = 0, free_bytes = 0, min_free_bytes = 0\<rparr>]\<rparr>)"

definition heap_caps_get_free_size :: "u32 \<Rightarrow> heaps \<Rightarrow> u32" where
  "heap_caps_get_free_size c H = sum_list (map free_bytes (filter (\<lambda>r. c = c AND caps r) (g_heap_region H)))"

definition heap_caps_get_minimum_free_size :: "u32 \<Rightarrow> heaps \<Rightarrow> u32" where
  "heap_caps_get_minimum_free_size c H = sum_list (map min_free_bytes (filter (\<lambda>r. c = c AND caps r) (g_heap_region H)))"

text \<open>The number of the region a pointer lies in, the number of regions if there is none.\<close>

fun get_blk_region :: "u32 \<Rightarrow> heap_region list \<Rightarrow> nat" where
  "get_blk_region ptr [] = 0"
| "get_blk_region ptr (r # rs) =
     (if ptr > start_addr r \<and> ptr < start_addr r + total_size r then 0 else Suc (get_blk_region ptr rs))"

section \<open>Allocation\<close>

text \<open>The two loops over the blocks: the search for a block that is large enough, and for the next free one.\<close>

partial_function (option) first_fit :: "u32 \<Rightarrow> memory \<Rightarrow> u32 \<Rightarrow> u32 option" where
  "first_fit n m b =
     (if b \<noteq> 0 \<and> \<not> mem_blk_is_end b m \<and> (mem_blk_is_used b m \<or> blk_link_size b m < n) then first_fit n m (mem_blk_next b m) else Some b)"

partial_function (option) next_free :: "memory \<Rightarrow> u32 \<Rightarrow> u32 option" where
  "next_free m b = (if b \<noteq> 0 \<and> \<not> mem_blk_is_end b m \<and> mem_blk_is_used b m then next_free m (mem_blk_next b m) else Some b)"

declare first_fit.simps [code] next_free.simps [code]

text \<open>A block is cut in two when the rest is large enough for a block of its own.\<close>

definition split_block :: "u32 \<Rightarrow> u32 \<Rightarrow> bool \<Rightarrow> memory \<Rightarrow> memory option" where
  "split_block b n trace m = do {
     let rest = (if blk_link_size b m \<ge> n + mem_blk_head_size trace + MEM_BLK_MIN then b + n else mem_blk_next b m);
     if mem_blk_next b m \<noteq> rest
     then do {
       let m = wr32 (rest + 4) 0 (wr32 rest 0 m);
       m \<leftarrow> mem_blk_set_prev rest b m;
       m \<leftarrow> mem_blk_set_next rest (mem_blk_next b m) m;
       m \<leftarrow> mem_blk_set_prev (mem_blk_next b m) rest m;
       mem_blk_set_next b rest m
     }
     else Some m
   }"

definition take_block :: "u32 \<Rightarrow> u32 \<Rightarrow> bool \<Rightarrow> u32 \<Rightarrow> u32 \<Rightarrow> heap_region \<Rightarrow> memory \<Rightarrow> (heap_region \<times> memory) option" where
  "take_block b n trace file line r m = do {
     m \<leftarrow> split_block b n trace m;
     let m = mem_blk_set_used b m;
     let m = (if trace then mem_blk_set_traced b file line m else m);
     f \<leftarrow> (if free_blk r = b then next_free m b else Some (free_blk r));
     let left = free_bytes r - blk_link_size b m;
     Some (r\<lparr>free_blk := f, free_bytes := left, min_free_bytes := (if min_free_bytes r > left then left else min_free_bytes r)\<rparr>, m)
   }"

text \<open>The loop over the regions; a null pointer stands for failure.\<close>

fun malloc_regions :: "u32 \<Rightarrow> u32 \<Rightarrow> bool \<Rightarrow> u32 \<Rightarrow> u32 \<Rightarrow> heap_region list \<Rightarrow> memory \<Rightarrow> (u32 \<times> heap_region list \<times> memory) option" where
  "malloc_regions bytes c trace file line [] m = Some (0, [], m)"
| "malloc_regions bytes c trace file line (r # rs) m = do {
     let other = map_option (\<lambda>(p, rs, m). (p, r # rs, m)) (malloc_regions bytes c trace file line rs m);
     let n = ptr2memblk_size bytes trace;
     if caps r AND c \<noteq> c \<or> n > free_bytes r then other
     else do {
       b \<leftarrow> first_fit n m (free_blk r);
       if b = 0 \<or> mem_blk_is_end b m then other
       else do {
         (r, m) \<leftarrow> take_block b n trace file line r m;
         Some (blk2ptr b trace, r # rs, m)
       }
     }
   }"

definition heap_caps_malloc :: "u32 \<Rightarrow> u32 \<Rightarrow> u32 \<Rightarrow> u32 \<Rightarrow> heaps \<Rightarrow> (u32 \<times> heaps) option" where
  "heap_caps_malloc bytes c file line H = do {
     (p, rs, m) \<leftarrow> malloc_regions bytes c (heap_trace_is_on H) file line (g_heap_region H) (mem H);
     Some (p, H\<lparr>g_heap_region := rs, mem := m\<rparr>)
   }"

section \<open>Release\<close>

definition merge_blocks :: "u32 \<Rightarrow> memory \<Rightarrow> memory option" where
  "merge_blocks b m = do {
     let prev = mem_blk_prev b m;
     let nxt = mem_blk_next b m;
     if nxt = 0 then None
     else do {
       let last = mem_blk_next nxt m;
       (tmp, m) \<leftarrow>
         (if prev \<noteq> 0 \<and> \<not> mem_blk_is_used prev m
          then do {
            m \<leftarrow> mem_blk_set_next prev nxt m;
            m \<leftarrow> mem_blk_set_prev nxt prev m;
            Some (prev, m)
          }
          else Some (b, m));
       if last \<noteq> 0 \<and> \<not> mem_blk_is_used nxt m
       then do {
         m \<leftarrow> mem_blk_set_next tmp last m;
         mem_blk_set_prev last tmp m
       }
       else Some m
     }
   }"

definition heap_caps_free :: "u32 \<Rightarrow> heaps \<Rightarrow> heaps option" where
  "heap_caps_free ptr H = do {
     let num = get_blk_region ptr (g_heap_region H);
     if ptr = 0 \<or> num \<ge> length (g_heap_region H) then Some H
     else do {
       let b = ptr2blk ptr (ptr_is_traced ptr (mem H));
       if \<not> mem_blk_is_used b (mem H) then Some H
       else do {
         let r = g_heap_region H ! num;
         let r = r\<lparr>free_bytes := free_bytes r + blk_link_size b (mem H)\<rparr>;
         m \<leftarrow> merge_blocks b (mem_blk_set_untraced b (mem_blk_set_unused b (mem H)));
         let r = (if b < free_blk r then r\<lparr>free_blk := b\<rparr> else r);
         Some (H\<lparr>mem := m, g_heap_region := (g_heap_region H)[num := r]\<rparr>)
       }
     }
   }"

definition heap_caps_calloc :: "u32 \<Rightarrow> u32 \<Rightarrow> u32 \<Rightarrow> u32 \<Rightarrow> u32 \<Rightarrow> heaps \<Rightarrow> (u32 \<times> heaps) option" where
  "heap_caps_calloc count bytes c file line H = do {
     (p, H) \<leftarrow> heap_caps_malloc (count * bytes) c file line H;
     Some (p, if p \<noteq> 0 then H\<lparr>mem := memset p 0 (count * bytes) (mem H)\<rparr> else H)
   }"

definition heap_caps_zalloc :: "u32 \<Rightarrow> u32 \<Rightarrow> u32 \<Rightarrow> u32 \<Rightarrow> heaps \<Rightarrow> (u32 \<times> heaps) option" where
  "heap_caps_zalloc bytes c file line H = do {
     (p, H) \<leftarrow> heap_caps_malloc bytes c file line H;
     Some (p, if p \<noteq> 0 then H\<lparr>mem := memset p 0 bytes (mem H)\<rparr> else H)
   }"

definition heap_caps_realloc :: "u32 \<Rightarrow> u32 \<Rightarrow> u32 \<Rightarrow> u32 \<Rightarrow> u32 \<Rightarrow> heaps \<Rightarrow> (u32 \<times> heaps) option" where
  "heap_caps_realloc old newsize c file line H = do {
     (p, H) \<leftarrow> heap_caps_malloc newsize c file line H;
     if p \<noteq> 0 \<and> old \<noteq> 0
     then do {
       let H = H\<lparr>mem := memcpy p old (min newsize (ptr_size old (mem H))) (mem H)\<rparr>;
       H \<leftarrow> heap_caps_free old H;
       Some (p, H)
     }
     else Some (p, H)
   }"

end
