(* ===== verification/Heap_Chain.thy ===== *)
theory Heap_Chain
  imports Heap_Caps
begin

text \<open>
  The chain of blocks of a region as a sequence of sizes and states: reading and writing headers,
  and what cutting, marking and merging blocks does to the sequence.
\<close>

section \<open>Words in memory\<close>

lemma rd32_wr32_same: "rd32 (wr32 a v m) a = v"
proof (rule bit_word_eqI)
  fix n assume "n < LENGTH(32)"
  then show "bit (rd32 (wr32 a v m) a) n \<longleftrightarrow> bit v n"
    by (cases "n < 16"; cases "n < 24") (auto simp: rd32_def wr32_def bit_simps)
qed

lemma addr_eq_iff: "x < 2 ^ 32 \<Longrightarrow> y < 2 ^ 32 \<Longrightarrow> (of_nat x :: u32) = of_nat y \<longleftrightarrow> x = y"
  by (simp add: word_of_nat_eq_iff take_bit_nat_eq_self)

lemma addr_less_iff: "x < 2 ^ 32 \<Longrightarrow> y < 2 ^ 32 \<Longrightarrow> (of_nat x :: u32) < of_nat y \<longleftrightarrow> x < y"
  by (simp add: word_of_nat_less_iff take_bit_nat_eq_self)

lemma addr_le_iff: "x < 2 ^ 32 \<Longrightarrow> y < 2 ^ 32 \<Longrightarrow> (of_nat x :: u32) \<le> of_nat y \<longleftrightarrow> x \<le> y"
  by (simp add: word_of_nat_less_eq_iff take_bit_nat_eq_self)

lemma unat_addr: "x < 2 ^ 32 \<Longrightarrow> unat (of_nat x :: u32) = x"
  by (simp add: unat_of_nat)

lemma wr32_byte:
  assumes "x + 4 \<le> 2 ^ 32" "i < 2 ^ 32" "i < x \<or> x + 4 \<le> i"
  shows "wr32 (of_nat x) v m (of_nat i) = m (of_nat i)"
proof -
  have "(of_nat i :: u32) \<noteq> of_nat (x + j)" if "j < 4" for j using assms that by (subst addr_eq_iff) auto
  from this [of 0] this [of 1] this [of 2] this [of 3] show ?thesis by (simp add: wr32_def add.commute)
qed

text \<open>The word at an address, and aligned writes.\<close>

definition wd :: "memory \<Rightarrow> nat \<Rightarrow> u32" where
  "wd m x = rd32 m (of_nat x)"

lemma wd_cong:
  assumes "\<And>j. j < 4 \<Longrightarrow> m' (of_nat (x + j)) = m (of_nat (x + j))"
  shows "wd m' x = wd m x"
  using assms [of 0] assms [of 1] assms [of 2] assms [of 3] by (simp add: wd_def rd32_def add.commute)

lemma wd_wr32:
  assumes "4 dvd x" "4 dvd y" "x < 2 ^ 31" "y < 2 ^ 31"
  shows "wd (wr32 (of_nat x) v m) y = (if x = y then v else wd m y)"
proof (cases "x = y")
  case True
  then show ?thesis by (simp add: wd_def rd32_wr32_same)
next
  case False
  have "y + 4 \<le> x \<or> x + 4 \<le> y"
  proof (cases "x < y")
    case True
    then have "4 dvd y - x" "0 < y - x" using assms by auto
    then show ?thesis by (auto dest: dvd_imp_le)
  next
    case F: False
    then have "4 dvd x - y" "0 < x - y" using assms False by auto
    then show ?thesis by (auto dest: dvd_imp_le)
  qed
  then have "wd (wr32 (of_nat x) v m) y = wd m y" using assms(3,4) by (intro wd_cong wr32_byte) auto
  then show ?thesis using False by simp
qed

section \<open>Blocks\<close>

datatype status = Free | Used | Traced

type_synonym block = "nat \<times> status"

fun head :: "status \<Rightarrow> nat" where
  "head Traced = 16"
| "head _ = 8"

definition prev_word :: "nat \<Rightarrow> status \<Rightarrow> u32" where
  "prev_word p st = of_nat p OR (if st = Free then 0 else MEM_BLK_TAG)"

definition next_word :: "nat \<Rightarrow> status \<Rightarrow> u32" where
  "next_word n st = of_nat n OR (if st = Traced then MEM_BLK_TRACE else 0)"

definition header :: "memory \<Rightarrow> nat \<Rightarrow> nat \<Rightarrow> block \<Rightarrow> bool" where
  "header m p a = (\<lambda>(z, st). wd m a = prev_word p st \<and> wd m (a + 4) = next_word (a + z) st \<and>
     (st = Traced \<longrightarrow> wd m (a + 12) AND MEM_BLK_TRACE \<noteq> 0))"

definition block_ok :: "block \<Rightarrow> bool" where
  "block_ok = (\<lambda>(z, st). head st \<le> z \<and> 4 dvd z)"

abbreviation total :: "block list \<Rightarrow> nat" where
  "total bs \<equiv> sum_list (map fst bs)"

fun links :: "memory \<Rightarrow> nat \<Rightarrow> nat \<Rightarrow> block list \<Rightarrow> bool" where
  "links m p a [] \<longleftrightarrow> True"
| "links m p a (b # bs) \<longleftrightarrow> header m p a b \<and> links m a (a + fst b) bs"

fun last_block :: "nat \<Rightarrow> nat \<Rightarrow> block list \<Rightarrow> nat" where
  "last_block p a [] = p"
| "last_block p a (b # bs) = last_block a (a + fst b) bs"

text \<open>The chain ends with a block without successor.\<close>

definition end_block :: "memory \<Rightarrow> nat \<Rightarrow> nat \<Rightarrow> bool" where
  "end_block m p a \<longleftrightarrow> wd m a = of_nat p \<and> wd m (a + 4) = 0"

definition chain :: "memory \<Rightarrow> nat \<Rightarrow> nat \<Rightarrow> block list \<Rightarrow> bool" where
  "chain m p a bs \<longleftrightarrow> links m p a bs \<and> end_block m (last_block p a bs) (a + total bs)"

lemma links_append: "links m p a (xs @ ys) \<longleftrightarrow> links m p a xs \<and> links m (last_block p a xs) (a + total xs) ys"
  by (induction xs arbitrary: p a) (simp_all add: add.assoc)

lemma last_block_append: "last_block p a (xs @ ys) = last_block (last_block p a xs) (a + total xs) ys"
  by (induction xs arbitrary: p a) (simp_all add: add.assoc)

lemma chain_append: "chain m p a (xs @ ys) \<longleftrightarrow> links m p a xs \<and> chain m (last_block p a xs) (a + total xs) ys"
  by (auto simp: chain_def links_append last_block_append add.assoc)

lemma chain_Nil: "chain m p a [] \<longleftrightarrow> end_block m p a"
  by (simp add: chain_def)

lemma chain_Cons: "chain m p a (b # bs) \<longleftrightarrow> header m p a b \<and> chain m a (a + fst b) bs"
  by (auto simp: chain_def add.assoc)

lemma last_block_snoc: "last_block p a (xs @ [b]) = a + total xs"
  by (simp add: last_block_append)

text \<open>The places: where the blocks may be.\<close>

definition placed :: "nat \<Rightarrow> block list \<Rightarrow> bool" where
  "placed a bs \<longleftrightarrow> 4 dvd a \<and> 0 < a \<and> (\<forall>b \<in> set bs. block_ok b) \<and> a + total bs + 8 < 2 ^ 31"

lemma placed_append: "placed a (xs @ ys) \<Longrightarrow> placed (a + total xs) ys"
proof (induction xs arbitrary: a)
  case (Cons b xs)
  have "placed (a + fst b) (xs @ ys)" using Cons.prems by (auto simp: placed_def block_ok_def)
  from Cons.IH [OF this] show ?case by (simp add: add.assoc)
qed simp

lemma placed_Cons: "placed a (b # bs) \<Longrightarrow> placed (a + fst b) bs"
  using placed_append [of a "[b]" bs] by simp

lemma placed_blockD:
  assumes "placed a ((z, st) # bs)"
  shows "4 dvd a" "0 < a" "head st \<le> z" "4 dvd z" "8 \<le> z" "a + z + 8 < 2 ^ 31"
proof -
  show "4 dvd a" "0 < a" "head st \<le> z" "4 dvd z" "a + z + 8 < 2 ^ 31" using assms by (auto simp: placed_def block_ok_def)
  then show "8 \<le> z" by (cases st) auto
qed

text \<open>Reading headers.\<close>

lemma bit_addr: "x < 2 ^ 31 \<Longrightarrow> i \<ge> 31 \<Longrightarrow> \<not> bit (of_nat x :: u32) i"
  using take_bit_nat_eq_self [of x 31] by (auto simp: bit_simps) (metis bit_take_bit_iff not_le)

lemma bit_tag: "bit (0x80000000 :: u32) n \<longleftrightarrow> n = 31"
proof -
  have "(0x80000000 :: u32) = 2 ^ 31" by simp
  then show ?thesis by (auto simp only: bit_exp_iff possible_bit_word) simp
qed

lemma strip_bit:
  assumes "x < 2 ^ 31" "\<And>n. bit (T :: u32) n \<longleftrightarrow> n = 31"
  shows "(of_nat x :: u32) AND NOT T = of_nat x" "((of_nat x :: u32) OR T) AND NOT T = of_nat x"
    "(of_nat x :: u32) AND T = 0" "((of_nat x :: u32) OR T) AND T = T"
  using bit_addr [OF assms(1)] by (auto intro!: bit_word_eqI simp: bit_and_iff bit_or_iff bit_not_iff assms(2))

lemmas strip_tag = strip_bit [OF _ bit_tag]

lemmas tag_defs = MEM_BLK_TAG_def MEM_BLK_TRACE_def

lemma block_reads:
  assumes "header m p a (z, st)" "placed a ((z, st) # bs)" "p < 2 ^ 31"
  shows "mem_blk_prev (of_nat a) m = of_nat p" "mem_blk_next (of_nat a) m = of_nat (a + z)" "mem_blk_is_used (of_nat a) m \<longleftrightarrow> st \<noteq> Free"
    "blk_link_size (of_nat a) m = of_nat z" "\<not> mem_blk_is_end (of_nat a) m" "mem_blk_is_traced (of_nat a) m \<longleftrightarrow> st = Traced"
proof -
  note b = placed_blockD [OF assms(2)]
  have w: "rd32 m (of_nat a) = prev_word p st" "rd32 m (of_nat a + 4) = next_word (a + z) st"
    using assms(1) by (simp_all add: header_def wd_def)
  have az: "a + z < 2 ^ 31" using b(6) by simp
  show "mem_blk_prev (of_nat a) m = of_nat p" "mem_blk_is_used (of_nat a) m \<longleftrightarrow> st \<noteq> Free"
    using strip_tag [OF assms(3)] by (simp_all add: mem_blk_prev_def mem_blk_is_used_def w prev_word_def tag_defs)
  show nx: "mem_blk_next (of_nat a) m = of_nat (a + z)" "mem_blk_is_traced (of_nat a) m \<longleftrightarrow> st = Traced"
    using strip_tag [OF az] by (simp_all add: mem_blk_next_def mem_blk_is_traced_def w next_word_def tag_defs del: of_nat_add)
  show "blk_link_size (of_nat a) m = of_nat z" by (simp add: blk_link_size_def nx)
  have "(of_nat (a + z) :: u32) \<noteq> of_nat 0" using az b(2) by (subst addr_eq_iff) auto
  then show "\<not> mem_blk_is_end (of_nat a) m" by (simp add: mem_blk_is_end_def nx del: of_nat_add)
qed

lemma end_reads:
  assumes "end_block m p a" "p < 2 ^ 31"
  shows "mem_blk_is_end (of_nat a) m" "mem_blk_prev (of_nat a) m = of_nat p" "\<not> mem_blk_is_used (of_nat a) m" "mem_blk_next (of_nat a) m = 0"
  using assms strip_tag [OF assms(2)]
  by (simp_all add: end_block_def wd_def mem_blk_is_end_def mem_blk_prev_def mem_blk_next_def mem_blk_is_used_def tag_defs)

section \<open>What a write leaves alone\<close>

text \<open>Two memories differ only between two addresses.\<close>

definition same_outside :: "nat \<Rightarrow> nat \<Rightarrow> memory \<Rightarrow> memory \<Rightarrow> bool" where
  "same_outside lo hi m m' \<longleftrightarrow> (\<forall>i < 2 ^ 32. i < lo \<or> hi \<le> i \<longrightarrow> m' (of_nat i) = m (of_nat i))"

lemma same_outside_refl: "same_outside lo hi m m"
  by (simp add: same_outside_def)

lemma same_outside_wr32:
  "same_outside lo hi m m' \<Longrightarrow> lo \<le> x \<Longrightarrow> x + 4 \<le> hi \<Longrightarrow> x + 4 \<le> 2 ^ 32 \<Longrightarrow> same_outside lo hi m (wr32 (of_nat x) v m')"
  using wr32_byte [of x] unfolding same_outside_def by fastforce

lemma same_outside_trans: "same_outside lo hi m m' \<Longrightarrow> same_outside lo hi m' m'' \<Longrightarrow> same_outside lo hi m m''"
  by (simp add: same_outside_def)

lemma same_outside_mono: "same_outside lo hi m m' \<Longrightarrow> lo' \<le> lo \<Longrightarrow> hi \<le> hi' \<Longrightarrow> same_outside lo' hi' m m'"
  by (auto simp: same_outside_def)

lemma same_outside_wd: "same_outside lo hi m m' \<Longrightarrow> x + 4 \<le> lo \<or> hi \<le> x \<Longrightarrow> x + 4 \<le> 2 ^ 32 \<Longrightarrow> wd m' x = wd m x"
  by (rule wd_cong) (auto simp: same_outside_def simp del: of_nat_add)

definition aligned :: "nat \<Rightarrow> bool" where
  "aligned x \<longleftrightarrow> 4 dvd x \<and> x < 2 ^ 31"

lemma wd_update:
  "aligned x \<Longrightarrow> aligned y \<Longrightarrow> wd (wr32 (of_nat x) v m) y = (if x = y then v else wd m y)"
  "aligned (x + numeral j) \<Longrightarrow> aligned y \<Longrightarrow> wd (wr32 (of_nat x + numeral j) v m) y = (if x + numeral j = y then v else wd m y)"
  using wd_wr32 [of "x + numeral j" y v m] by (simp_all add: aligned_def wd_wr32)

lemma header_frame:
  assumes "\<And>x. a \<le> x \<Longrightarrow> x < a + z \<Longrightarrow> aligned x \<Longrightarrow> wd m' x = wd m x" "placed a ((z, st) # bs)"
  shows "header m' p a (z, st) = header m p a (z, st)"
proof -
  note b = placed_blockD [OF assms(2)]
  have "aligned a" "aligned (a + 4)" using b by (auto simp: aligned_def)
  moreover have "aligned (a + 12)" "a + 12 < a + z" if "st = Traced" using b that by (auto simp: aligned_def)
  ultimately show ?thesis using assms(1) [of a] assms(1) [of "a + 4"] assms(1) [of "a + 12"] b(5) by (auto simp: header_def)
qed

lemma links_frame:
  assumes "\<And>x. a \<le> x \<Longrightarrow> x < a + total bs \<Longrightarrow> aligned x \<Longrightarrow> wd m' x = wd m x" "placed a bs"
  shows "links m' p a bs = links m p a bs"
  using assms
proof (induction bs arbitrary: p a)
  case (Cons b bs)
  obtain z st where b: "b = (z, st)" by fastforce
  have "header m' p a (z, st) = header m p a (z, st)" using Cons.prems(2) unfolding b by (intro header_frame) (use Cons.prems(1) b in auto)
  moreover have "links m' a (a + z) bs = links m a (a + z) bs"
    using placed_Cons [OF Cons.prems(2)] unfolding b by (intro Cons.IH) (use Cons.prems(1) b in auto)
  ultimately show ?case by (simp add: b)
qed simp

lemma chain_frame:
  assumes "\<And>x. a \<le> x \<Longrightarrow> x < a + total bs + 8 \<Longrightarrow> aligned x \<Longrightarrow> wd m' x = wd m x" "placed a bs"
  shows "chain m' p a bs = chain m p a bs"
proof -
  have "4 dvd a + total bs" using placed_append [of a bs "[]"] assms(2) by (simp add: placed_def)
  then have "aligned (a + total bs)" "aligned (a + total bs + 4)" using assms(2) by (auto simp: aligned_def placed_def)
  then show ?thesis using links_frame [of a bs m' m p] assms by (simp add: chain_def end_block_def)
qed

text \<open>A chain outside the changed part.\<close>

lemma chain_outside:
  assumes "same_outside lo hi m m'" "placed a bs" "a + total bs + 8 \<le> lo \<or> hi \<le> a"
  shows "chain m' p a bs = chain m p a bs"
proof (rule chain_frame [OF _ assms(2)])
  fix x assume x: "a \<le> x" "x < a + total bs + 8" "aligned x"
  have "4 dvd a + total bs" using placed_append [of a bs "[]"] assms(2) by (simp add: placed_def)
  then have "4 dvd (a + total bs + 8) - x" "0 < (a + total bs + 8) - x" using x by (auto simp: aligned_def)
  then have "x + 4 \<le> a + total bs + 8" by (auto dest: dvd_imp_le)
  then show "wd m' x = wd m x" using assms(2,3) x by (intro same_outside_wd [OF assms(1)]) (auto simp: placed_def)
qed

lemma links_outside:
  assumes "same_outside lo hi m m'" "placed a bs" "a + total bs \<le> lo \<or> hi \<le> a"
  shows "links m' p a bs = links m p a bs"
proof (rule links_frame [OF _ assms(2)])
  fix x assume x: "a \<le> x" "x < a + total bs" "aligned x"
  have "4 dvd a + total bs" using placed_append [of a bs "[]"] assms(2) by (simp add: placed_def)
  then have "4 dvd (a + total bs) - x" "0 < (a + total bs) - x" using x by (auto simp: aligned_def)
  then have "x + 4 \<le> a + total bs" by (auto dest: dvd_imp_le)
  then show "wd m' x = wd m x" using assms(2,3) x by (intro same_outside_wd [OF assms(1)]) (auto simp: placed_def)
qed

section \<open>Searching\<close>

lemma first_fit_chain:
  assumes "chain m p a bs" "placed a bs" "p < 2 ^ 31"
  shows "first_fit n m (of_nat a) = Some (of_nat (a + total (takeWhile (\<lambda>(z, st). st \<noteq> Free \<or> z < unat n) bs)))"
  using assms
proof (induction bs arbitrary: p a)
  case Nil
  then show ?case using end_reads(1) by (subst first_fit.simps) (simp add: chain_Nil)
next
  case (Cons b bs)
  obtain z st where b: "b = (z, st)" by fastforce
  have c: "header m p a (z, st)" "chain m a (a + z) bs" using Cons.prems(1) by (simp_all add: chain_Cons b)
  note r = block_reads [OF c(1) Cons.prems(2) [unfolded b] Cons.prems(3)] and pl = placed_blockD [OF Cons.prems(2) [unfolded b]]
  have a0: "(of_nat a :: u32) \<noteq> 0" using addr_eq_iff [of a 0] pl by auto
  have small: "(of_nat z :: u32) < n \<longleftrightarrow> z < unat n" using pl(6) unat_addr [of z] by (simp add: word_less_nat_alt)
  have IH: "first_fit n m (of_nat (a + z)) = Some (of_nat (a + z + total (takeWhile (\<lambda>(z, st). st \<noteq> Free \<or> z < unat n) bs)))"
    by (rule Cons.IH [OF c(2)]) (use placed_Cons [OF Cons.prems(2)] pl b in auto)
  show ?case
  proof (cases "st \<noteq> Free \<or> z < unat n")
    case True
    then show ?thesis using IH a0 r small by (subst first_fit.simps) (simp add: b add.assoc)
  next
    case False
    then show ?thesis using a0 r small by (subst first_fit.simps) (simp add: b)
  qed
qed

lemma next_free_chain:
  assumes "chain m p a bs" "placed a bs" "p < 2 ^ 31"
  shows "next_free m (of_nat a) = Some (of_nat (a + total (takeWhile (\<lambda>(z, st). st \<noteq> Free) bs)))"
  using assms
proof (induction bs arbitrary: p a)
  case Nil
  then show ?case using end_reads(1) by (subst next_free.simps) (simp add: chain_Nil)
next
  case (Cons b bs)
  obtain z st where b: "b = (z, st)" by fastforce
  have c: "header m p a (z, st)" "chain m a (a + z) bs" using Cons.prems(1) by (simp_all add: chain_Cons b)
  note r = block_reads [OF c(1) Cons.prems(2) [unfolded b] Cons.prems(3)] and pl = placed_blockD [OF Cons.prems(2) [unfolded b]]
  have a0: "(of_nat a :: u32) \<noteq> 0" using addr_eq_iff [of a 0] pl by auto
  have IH: "next_free m (of_nat (a + z)) = Some (of_nat (a + z + total (takeWhile (\<lambda>(z, st). st \<noteq> Free) bs)))"
    by (rule Cons.IH [OF c(2)]) (use placed_Cons [OF Cons.prems(2)] pl b in auto)
  show ?case using IH a0 r by (cases "st = Free") (subst next_free.simps, simp add: b add.assoc)+
qed

section \<open>Changing headers\<close>

lemma mask_word: "x < 2 ^ 31 \<Longrightarrow> prev_word x st AND MEM_BLK_TAG = (if st = Free then 0 else MEM_BLK_TAG)"
  "x < 2 ^ 31 \<Longrightarrow> next_word x st AND MEM_BLK_TRACE = (if st = Traced then MEM_BLK_TRACE else 0)"
  using strip_tag [of x] by (auto simp: prev_word_def next_word_def tag_defs)

lemma addr_not_null: "0 < a \<Longrightarrow> a < 2 ^ 31 \<Longrightarrow> (of_nat a :: u32) \<noteq> 0"
  using addr_eq_iff [of a 0] by auto

lemma set_next_eq:
  assumes "header m p a (z, st)" "placed a ((z, st) # bs)"
  shows "mem_blk_set_next (of_nat a) (of_nat n) m = Some (wr32 (of_nat (a + 4)) (next_word n st) m)"
proof -
  note b = placed_blockD [OF assms(2)]
  have "wd m (a + 4) AND MEM_BLK_TRACE = (if st = Traced then MEM_BLK_TRACE else 0)"
    using assms(1) mask_word(2) [of "a + z" st] b(6) by (simp add: header_def)
  then have "rd32 m (of_nat a + 4) AND MEM_BLK_TRACE = (if st = Traced then MEM_BLK_TRACE else 0)" by (simp add: wd_def)
  then show ?thesis using addr_not_null [of a] b by (simp add: mem_blk_set_next_def next_word_def)
qed

text \<open>Linking the first block of a chain to another predecessor.\<close>

lemma set_prev_chain:
  assumes "chain m p a bs" "placed a bs" "p < 2 ^ 31"
  shows "\<exists>m'. mem_blk_set_prev (of_nat a) (of_nat p') m = Some m' \<and> chain m' p' a bs \<and> same_outside a (a + 4) m m'"
proof -
  have a: "0 < a" "a + 8 < 2 ^ 31" "aligned a" "aligned (a + 4)" using assms(2) by (auto simp: placed_def aligned_def)
  define v where "v = of_nat p' OR (wd m a AND MEM_BLK_TAG)"
  define m' where "m' = wr32 (of_nat a) v m"
  have out: "same_outside a (a + 4) m m'" unfolding m'_def by (rule same_outside_wr32 [OF same_outside_refl]) (use a in auto)
  have wd: "wd m' a = v" "wd m' (a + 4) = wd m (a + 4)" using a by (simp_all add: m'_def wd_update)
  have "mem_blk_set_prev (of_nat a) (of_nat p') m = Some m'" using addr_not_null [of a] a by (simp add: mem_blk_set_prev_def m'_def v_def wd_def)
  moreover have "chain m' p' a bs"
  proof (cases bs)
    case Nil
    then have "end_block m p a" using assms(1) by (simp add: chain_Nil)
    then have "v = of_nat p'" using strip_tag(3) [OF assms(3)] by (simp add: v_def end_block_def tag_defs)
    then show ?thesis using Nil wd \<open>end_block m p a\<close> by (simp add: chain_Nil end_block_def)
  next
    case (Cons b ys)
    obtain z st where b: "b = (z, st)" by fastforce
    have c: "header m p a (z, st)" "chain m a (a + z) ys" using assms(1) by (simp_all add: Cons b chain_Cons)
    note pl = placed_blockD [OF assms(2) [unfolded Cons b]] and pl' = placed_Cons [OF assms(2) [unfolded Cons b]]
    have "v = prev_word p' st" using c(1) mask_word(1) [OF assms(3), of st] by (simp add: v_def header_def prev_word_def)
    moreover have "wd m' (a + 12) = wd m (a + 12)" if "st = Traced" using pl that a by (simp add: m'_def wd_update aligned_def)
    ultimately have "header m' p' a (z, st)" using c(1) wd by (auto simp: header_def)
    moreover have "chain m' a (a + z) ys" using chain_outside [OF out pl'] pl(5) c(2) by simp
    ultimately show ?thesis by (simp add: Cons b chain_Cons)
  qed
  ultimately show ?thesis using out by blast
qed

abbreviation head_size :: "bool \<Rightarrow> nat" where
  "head_size trace \<equiv> (if trace then 16 else 8)"

definition cut_block :: "nat \<Rightarrow> bool \<Rightarrow> nat \<Rightarrow> block list" where
  "cut_block k trace z = (if k + head_size trace + 1 \<le> z then [(k, Free), (z - k, Free)] else [(z, Free)])"

lemma split_ok:
  assumes "chain m p a ((z, Free) # ys)" "placed a ((z, Free) # ys)" "p < 2 ^ 31" "k \<le> z" "4 dvd k" "8 \<le> k"
  shows "\<exists>m'. split_block (of_nat a) (of_nat k) trace m = Some m' \<and> chain m' p a (cut_block k trace z @ ys) \<and> same_outside a (a + z + 4) m m'"
proof -
  have c: "header m p a (z, Free)" "chain m a (a + z) ys" using assms(1) by (simp_all add: chain_Cons)
  note pl = placed_blockD [OF assms(2)] and pl' = placed_Cons [OF assms(2), simplified]
  note r = block_reads [OF c(1) assms(2,3)]
  have size: "of_nat k + mem_blk_head_size trace + MEM_BLK_MIN \<le> blk_link_size (of_nat a) m \<longleftrightarrow> k + head_size trace + 1 \<le> z"
    using addr_le_iff [of "k + 9" z] addr_le_iff [of "k + 17" z] pl(6) assms(4)
    by (simp add: r(4) mem_blk_head_size_def MEM_HEAD_SIZE_def MEM2_HEAD_SIZE_def MEM_BLK_MIN_def add.commute)
  show ?thesis
  proof (cases "k + head_size trace + 1 \<le> z")
    case False
    have "split_block (of_nat a) (of_nat k) trace m = Some m" unfolding split_block_def size using False by simp
    then show ?thesis using assms(1) False by (auto simp: cut_block_def same_outside_refl)
  next
    case True
    define b where "b = a + k"
    have al: "aligned a" "aligned (a + 4)" "aligned b" "aligned (b + 4)" "aligned (a + z)" using pl assms(4,5) by (auto simp: aligned_def b_def)
    have k: "a + 8 \<le> b" "b + 9 \<le> a + z" "b < 2 ^ 31" "a + z < 2 ^ 31" using True assms(6) pl(6) by (auto simp: b_def split: if_splits)
    have ne: "(of_nat (a + z) :: u32) \<noteq> of_nat b" using addr_eq_iff [of "a + z" b] k by simp
    have b0: "(of_nat b :: u32) \<noteq> 0" using addr_not_null [of b] k pl(2) by simp
    define m1 where "m1 = wr32 (of_nat (b + 4)) 0 (wr32 (of_nat b) 0 m)"
    define m3 where "m3 = wr32 (of_nat (b + 4)) (of_nat (a + z)) (wr32 (of_nat b) (of_nat a) m1)"
    have w1: "wd m1 b = 0" using al by (simp add: m1_def wd_update)
    have h2: "header (wr32 (of_nat b) (of_nat a) m1) p a (z, Free)" "header m3 p a (z, Free)"
      using c(1) al k(1) by (simp_all add: header_def m1_def m3_def wd_update)
    note r2 = block_reads [OF h2(1) assms(2,3)] and r3 = block_reads [OF h2(2) assms(2,3)]
    have w2: "wd (wr32 (of_nat b) (of_nat a) m1) (b + 4) = 0" using al by (simp add: m1_def wd_update)
    have o3: "same_outside b (b + 8) m m3" unfolding m1_def m3_def by (intro same_outside_wr32 same_outside_refl) (use k in auto)
    have "chain m3 a (a + z) ys" using chain_outside [OF o3 pl'] k(2) c(2) by simp
    from set_prev_chain [OF this pl', of b] obtain m4 where m4: "mem_blk_set_prev (of_nat (a + z)) (of_nat b) m3 = Some m4" "chain m4 b (a + z) ys"
      "same_outside (a + z) (a + z + 4) m3 m4" using pl(6) by auto
    define m5 where "m5 = wr32 (of_nat (a + 4)) (of_nat b) m4"
    have w4: "wd m4 x = wd m3 x" if "x + 4 \<le> a + z" for x using same_outside_wd [OF m4(3), of x] that k(4) by simp
    have h4: "header m4 p a (z, Free)" using h2(2) w4 [of a] w4 [of "a + 4"] k by (simp add: header_def)
    have set5: "mem_blk_set_next (of_nat a) (of_nat b) m4 = Some m5" using set_next_eq [OF h4 assms(2)] by (simp add: m5_def next_word_def)
    have run: "split_block (of_nat a) (of_nat k) trace m = Some m5"
    proof -
      have "(of_nat a + of_nat k :: u32) = of_nat b" by (simp add: b_def)
      moreover have "mem_blk_set_prev (of_nat b) (of_nat a) m1 = Some (wr32 (of_nat b) (of_nat a) m1)"
        using b0 w1 by (simp add: mem_blk_set_prev_def wd_def)
      moreover have "mem_blk_set_next (of_nat b) (of_nat (a + z)) (wr32 (of_nat b) (of_nat a) m1) = Some m3"
        using b0 w2 by (simp add: mem_blk_set_next_def wd_def m3_def)
      moreover have "wr32 (of_nat b + 4) 0 (wr32 (of_nat b) 0 m) = m1" by (simp add: m1_def)
      ultimately show ?thesis unfolding split_block_def size r(2) Let_def
        using True ne m4(1) set5 by (simp add: r2(2) r3(2) del: of_nat_add)
    qed
    have "header m5 p a (k, Free)" using h4 al w4 [of a] k by (simp add: header_def m5_def wd_update next_word_def prev_word_def b_def)
    moreover have "header m5 a b (z - k, Free)"
    proof -
      have "b + (z - k) = a + z" using assms(4) by (simp add: b_def)
      then show ?thesis using al k w4 [of b] w4 [of "b + 4"]
        by (simp add: header_def m5_def wd_update m3_def next_word_def prev_word_def del: of_nat_add)
    qed
    moreover have "chain m5 b (a + z) ys"
    proof -
      have "same_outside (a + 4) (a + 8) m4 m5" unfolding m5_def by (intro same_outside_wr32 same_outside_refl) (use k in auto)
      then show ?thesis using chain_outside [OF _ pl', of "a + 4" "a + 8" m4 m5 b] k m4(2) by simp
    qed
    ultimately have "chain m5 p a (cut_block k trace z @ ys)" using True assms(4) by (simp add: cut_block_def chain_Cons b_def add.assoc)
    moreover have "same_outside a (a + z + 4) m m5"
    proof -
      have "same_outside a (a + z + 4) m m4"
        by (rule same_outside_trans [OF same_outside_mono [OF o3] same_outside_mono [OF m4(3)]]) (use k in auto)
      then show ?thesis unfolding m5_def by (rule same_outside_wr32) (use k in auto)
    qed
    ultimately show ?thesis using run by blast
  qed
qed

text \<open>Marking a block as used, and as free again.\<close>

lemma tag_words:
  assumes "x < 2 ^ 31"
  shows "prev_word x Free OR MEM_BLK_TAG = prev_word x Used" "next_word x Free OR MEM_BLK_TRACE = next_word x Traced"
    "prev_word x st AND NOT MEM_BLK_TAG = prev_word x Free" "next_word x st AND NOT MEM_BLK_TRACE = next_word x Free"
  using strip_tag [OF assms] by (auto simp: prev_word_def next_word_def tag_defs)

lemma mark_ok:
  fixes fn ln :: u32
  assumes "chain m p a ((k, Free) # ys)" "placed a ((k, Free) # ys)" "p < 2 ^ 31" "head_size trace \<le> k"
  defines "m1 \<equiv> mem_blk_set_used (of_nat a) m"
  defines "m2 \<equiv> (if trace then mem_blk_set_traced (of_nat a) fn ln m1 else m1)"
  shows "chain m2 p a ((k, if trace then Traced else Used) # ys)" "same_outside a (a + head_size trace) m m2"
proof -
  have c: "header m p a (k, Free)" "chain m a (a + k) ys" using assms(1) by (simp_all add: chain_Cons)
  note pl = placed_blockD [OF assms(2)] and pl' = placed_Cons [OF assms(2), simplified]
  have ak: "a + k < 2 ^ 31" using pl(6) by simp
  have al: "aligned a" "aligned (a + 4)" using pl by (auto simp: aligned_def)
  have al2: "aligned (a + 8)" "aligned (a + 12)" if trace using pl assms(4) that by (auto simp: aligned_def)
  have m1: "m1 = wr32 (of_nat a) (wd m a OR MEM_BLK_TAG) m" by (simp add: m1_def mem_blk_set_used_def wd_def)
  have w1: "wd m1 a = prev_word p Used" "wd m1 (a + 4) = next_word (a + k) Free"
    using c(1) al tag_words(1) [OF assms(3)] by (simp_all add: m1 wd_update header_def)
  have m2: "m2 = wr32 (of_nat (a + 12)) (ln OR MEM_BLK_TRACE) (wr32 (of_nat (a + 8)) fn (wr32 (of_nat (a + 4)) (next_word (a + k) Traced) m1))" if trace
    using that w1(2) tag_words(2) [OF ak] by (simp add: m2_def mem_blk_set_traced_def wd_def)
  have o1: "same_outside a (a + head_size trace) m m1" unfolding m1 by (rule same_outside_wr32 [OF same_outside_refl]) (use pl in auto)
  show out: "same_outside a (a + head_size trace) m m2"
  proof (cases trace)
    case True
    have "same_outside a (a + 16) m m1" using o1 True by simp
    then have "same_outside a (a + 16) m m2" unfolding m2 [OF True] by (intro same_outside_wr32) (use pl ak assms(4) in auto)
    then show ?thesis using True by simp
  qed (use o1 in \<open>simp add: m2_def\<close>)
  have "chain m2 a (a + k) ys" using chain_outside [OF out pl'] assms(4) c(2) by simp
  moreover have "header m2 p a (k, if trace then Traced else Used)"
  proof (cases trace)
    case True
    have "(ln OR MEM_BLK_TRACE) AND MEM_BLK_TRACE = MEM_BLK_TRACE" by (rule bit_word_eqI) (auto simp: bit_and_iff bit_or_iff)
    moreover have "MEM_BLK_TRACE \<noteq> 0" by (simp add: tag_defs)
    ultimately show ?thesis using True al al2 w1 by (simp add: m2 header_def wd_update prev_word_def)
  next
    case False
    then show ?thesis using w1 by (simp add: m2_def header_def next_word_def)
  qed
  ultimately show "chain m2 p a ((k, if trace then Traced else Used) # ys)" by (simp add: chain_Cons)
qed

lemma unmark_ok:
  assumes "chain m p a ((z, st) # ys)" "placed a ((z, st) # ys)" "p < 2 ^ 31"
  defines "m2 \<equiv> mem_blk_set_untraced (of_nat a) (mem_blk_set_unused (of_nat a) m)"
  shows "chain m2 p a ((z, Free) # ys)" "same_outside a (a + 8) m m2"
proof -
  have c: "header m p a (z, st)" "chain m a (a + z) ys" using assms(1) by (simp_all add: chain_Cons)
  note pl = placed_blockD [OF assms(2)] and pl' = placed_Cons [OF assms(2), simplified]
  have az: "a + z < 2 ^ 31" using pl(6) by simp
  have al: "aligned a" "aligned (a + 4)" using pl by (auto simp: aligned_def)
  define m1 where "m1 = mem_blk_set_unused (of_nat a) m"
  have m1: "m1 = wr32 (of_nat a) (prev_word p Free) m"
    using c(1) tag_words(3) [OF assms(3), of st] by (simp add: m1_def mem_blk_set_unused_def header_def wd_def)
  have w1: "wd m1 (a + 4) = next_word (a + z) st" using c(1) al by (simp add: m1 wd_update header_def)
  have m2: "m2 = wr32 (of_nat (a + 4)) (next_word (a + z) Free) m1"
    using w1 tag_words(4) [OF az, of st] by (simp add: m2_def m1_def [symmetric] mem_blk_set_untraced_def wd_def)
  show out: "same_outside a (a + 8) m m2" unfolding m1 m2 by (intro same_outside_wr32 same_outside_refl) (use pl in auto)
  have "chain m2 a (a + z) ys" using chain_outside [OF out pl'] pl(5) c(2) by simp
  moreover have "header m2 p a (z, Free)" using al by (simp add: header_def m2 m1 wd_update)
  ultimately show "chain m2 p a ((z, Free) # ys)" by (simp add: chain_Cons)
qed

text \<open>Joining a free block with the block behind it.\<close>

lemma join_ok:
  assumes "chain m p a ((x, Free) # (y, st) # ys)" "placed a ((x, Free) # (y, st) # ys)" "p < 2 ^ 31"
  shows "\<exists>m1 m2. mem_blk_set_next (of_nat a) (of_nat (a + x + y)) m = Some m1 \<and> mem_blk_set_prev (of_nat (a + x + y)) (of_nat a) m1 = Some m2 \<and>
    chain m2 p a ((x + y, Free) # ys) \<and> same_outside a (a + x + y + 4) m m2"
proof -
  have c: "header m p a (x, Free)" "header m a (a + x) (y, st)" "chain m (a + x) (a + x + y) ys" using assms(1) by (simp_all add: chain_Cons)
  note pl = placed_blockD [OF assms(2)] and pl1 = placed_Cons [OF assms(2), simplified]
  note pl2 = placed_blockD [OF pl1] and pl3 = placed_Cons [OF pl1, simplified]
  have al: "aligned a" "aligned (a + 4)" using pl by (auto simp: aligned_def)
  define m1 where "m1 = wr32 (of_nat (a + 4)) (next_word (a + x + y) Free) m"
  have s1: "mem_blk_set_next (of_nat a) (of_nat (a + x + y)) m = Some m1" using set_next_eq [OF c(1) assms(2), of "a + x + y"] by (simp only: m1_def)
  have o1: "same_outside (a + 4) (a + 8) m m1" unfolding m1_def by (intro same_outside_wr32 same_outside_refl) (use pl in auto)
  have "chain m1 (a + x) (a + x + y) ys" using chain_outside [OF o1 pl3] pl(5) c(3) by simp
  from set_prev_chain [OF this pl3, of a] obtain m2 where m2: "mem_blk_set_prev (of_nat (a + x + y)) (of_nat a) m1 = Some m2"
    "chain m2 a (a + x + y) ys" "same_outside (a + x + y) (a + x + y + 4) m1 m2" using pl2(6) by auto
  have "wd m2 a = wd m1 a" "wd m2 (a + 4) = wd m1 (a + 4)" using pl pl2 by (auto intro!: same_outside_wd [OF m2(3)])
  then have "header m2 p a (x + y, Free)" using c(1) al by (simp add: header_def m1_def wd_update add.assoc)
  then have "chain m2 p a ((x + y, Free) # ys)" using m2(2) by (simp add: chain_Cons add.assoc)
  moreover have "same_outside a (a + x + y + 4) m m2"
    by (rule same_outside_trans [OF same_outside_mono [OF o1] same_outside_mono [OF m2(3)]]) (use pl pl2 in auto)
  ultimately show ?thesis using s1 m2(1) by blast
qed

lemma first_reads:
  assumes "chain m p a ys" "placed a ys" "p < 2 ^ 31"
  shows "mem_blk_next (of_nat a) m = (case ys of [] \<Rightarrow> 0 | b # _ \<Rightarrow> of_nat (a + fst b))" "mem_blk_prev (of_nat a) m = of_nat p"
    "mem_blk_is_used (of_nat a) m \<longleftrightarrow> (case ys of [] \<Rightarrow> False | b # _ \<Rightarrow> snd b \<noteq> Free)"
proof -
  have "mem_blk_next (of_nat a) m = (case ys of [] \<Rightarrow> 0 | b # _ \<Rightarrow> of_nat (a + fst b)) \<and> mem_blk_prev (of_nat a) m = of_nat p \<and>
    (mem_blk_is_used (of_nat a) m \<longleftrightarrow> (case ys of [] \<Rightarrow> False | b # _ \<Rightarrow> snd b \<noteq> Free))"
  proof (cases ys)
    case Nil
    then show ?thesis using end_reads [OF _ assms(3), of m a] assms(1) by (simp add: chain_Nil)
  next
    case (Cons b zs)
    obtain z st where b: "b = (z, st)" by fastforce
    have "header m p a (z, st)" using assms(1) by (simp add: Cons b chain_Cons)
    from block_reads [OF this assms(2) [unfolded Cons b] assms(3)] show ?thesis by (simp add: Cons b)
  qed
  then show "mem_blk_next (of_nat a) m = (case ys of [] \<Rightarrow> 0 | b # _ \<Rightarrow> of_nat (a + fst b))" "mem_blk_prev (of_nat a) m = of_nat p"
    "mem_blk_is_used (of_nat a) m \<longleftrightarrow> (case ys of [] \<Rightarrow> False | b # _ \<Rightarrow> snd b \<noteq> Free)" by blast+
qed

text \<open>A free block takes in the block behind it if that is free and not the last one.\<close>

fun absorb :: "nat \<Rightarrow> block list \<Rightarrow> block list" where
  "absorb z ((y, Free) # ys) = (z + y, Free) # ys"
| "absorb z ys = (z, Free) # ys"

lemma absorb_ok:
  assumes "chain m p a ((z, Free) # ys)" "placed a ((z, Free) # ys)" "p < 2 ^ 31"
    "lst = (case ys of [] \<Rightarrow> 0 | b # _ \<Rightarrow> of_nat (a + z + fst b))"
  shows "\<exists>m'. (if lst \<noteq> 0 \<and> \<not> mem_blk_is_used (of_nat (a + z)) m
      then Option.bind (mem_blk_set_next (of_nat a) lst m) (mem_blk_set_prev lst (of_nat a)) else Some m) = Some m' \<and>
    chain m' p a (absorb z ys) \<and> same_outside a (a + fst (hd (absorb z ys)) + 4) m m'"
proof -
  have tail: "chain m a (a + z) ys" "placed (a + z) ys" "a < 2 ^ 31" using assms(1,2) placed_Cons [OF assms(2)] placed_blockD(6) [OF assms(2)] by (simp_all add: chain_Cons)
  note r = first_reads [OF tail]
  show ?thesis
  proof (cases "ys \<noteq> [] \<and> snd (hd ys) = Free")
    case True
    then obtain y ys' where ys: "ys = (y, Free) # ys'" by (cases ys) auto
    have "0 < a + z + y" "a + z + y < 2 ^ 31" using placed_blockD [OF tail(2) [unfolded ys]] by auto
    then have "lst \<noteq> 0" using assms(4) addr_not_null [of "a + z + y"] by (simp add: ys)
    moreover have "lst = of_nat (a + z + y)" using assms(4) by (simp add: ys)
    ultimately show ?thesis using join_ok [OF assms(1,2) [unfolded ys] assms(3)] r(3) by (auto simp: ys add.assoc simp del: of_nat_add)
  next
    case False
    have "absorb z ys = (z, Free) # ys" using False by (cases "(z, ys)" rule: absorb.cases) auto
    moreover have "lst = 0 \<or> mem_blk_is_used (of_nat (a + z)) m" using False assms(4) r(3) by (cases ys) auto
    ultimately show ?thesis using assms(1) by (auto simp: same_outside_refl)
  qed
qed

text \<open>Releasing a block: it is joined with its free neighbours.\<close>

definition merged :: "block list \<Rightarrow> nat \<Rightarrow> block list \<Rightarrow> block list" where
  "merged xs z ys = (if xs \<noteq> [] \<and> snd (last xs) = Free then butlast xs @ absorb (fst (last xs) + z) ys else xs @ absorb z ys)"

lemma last_block_less: "placed a xs \<Longrightarrow> p < 2 ^ 31 \<Longrightarrow> last_block p a xs < 2 ^ 31"
proof (induction xs arbitrary: p a)
  case (Cons b xs)
  have "a < 2 ^ 31" using Cons.prems(1) by (simp add: placed_def)
  from Cons.IH [OF placed_Cons [OF Cons.prems(1)] this] show ?case by simp
qed simp

lemma merge_ok:
  assumes "chain m 0 s (xs @ (z, Free) # ys)" "placed s (xs @ (z, Free) # ys)"
  shows "\<exists>m' lo hi. merge_blocks (of_nat (s + total xs)) m = Some m' \<and> chain m' 0 s (merged xs z ys) \<and> same_outside lo (hi + 4) m m' \<and>
    lo = s + total (if xs \<noteq> [] \<and> snd (last xs) = Free then butlast xs else xs) \<and> hi = s + total xs + fst (hd (absorb z ys))"
proof -
  define b where "b = s + total xs"
  have c: "links m 0 s xs" "chain m (last_block 0 s xs) b ((z, Free) # ys)" using assms(1) by (simp_all add: chain_append b_def)
  have pl: "placed b ((z, Free) # ys)" using placed_append [OF assms(2)] by (simp add: b_def)
  have plx: "placed s xs" using assms(2) by (auto simp: placed_def)
  have p: "last_block 0 s xs < 2 ^ 31" by (rule last_block_less [OF plx]) simp
  note r = first_reads [OF c(2) pl p] and tail = first_reads [of m b "b + z" ys]
  have t: "chain m b (b + z) ys" "placed (b + z) ys" "b < 2 ^ 31" using c(2) placed_Cons [OF pl] placed_blockD(6) [OF pl] by (simp_all add: chain_Cons)
  define lst :: u32 where "lst = (case ys of [] \<Rightarrow> 0 | c # _ \<Rightarrow> of_nat (b + z + fst c))"
  have lst: "mem_blk_next (of_nat (b + z)) m = lst" using tail(1) [OF t] by (simp add: lst_def)
  have nx: "mem_blk_next (of_nat b) m = of_nat (b + z)" "(of_nat (b + z) :: u32) \<noteq> 0"
    using r(1) addr_not_null [of "b + z"] placed_blockD [OF pl] by auto
  show ?thesis
  proof (cases "xs \<noteq> [] \<and> snd (last xs) = Free")
    case False
    have keep: "of_nat (last_block 0 s xs) = (0 :: u32) \<or> mem_blk_is_used (of_nat (last_block 0 s xs)) m"
    proof (cases xs rule: rev_cases)
      case (snoc us u)
      have "chain m (last_block 0 s us) (s + total us) (u # (z, Free) # ys)" "placed (s + total us) (u # (z, Free) # ys)"
        using assms placed_append [of s us "u # (z, Free) # ys"] by (simp_all add: snoc chain_append)
      from first_reads(3) [OF this] have "mem_blk_is_used (of_nat (s + total us)) m \<longleftrightarrow> snd u \<noteq> Free"
        using last_block_less [of s us 0] plx snoc by (simp add: placed_def)
      then show ?thesis using False snoc by (simp add: last_block_snoc)
    qed simp
    obtain m' where m': "(if lst \<noteq> 0 \<and> \<not> mem_blk_is_used (of_nat (b + z)) m
        then Option.bind (mem_blk_set_next (of_nat b) lst m) (mem_blk_set_prev lst (of_nat b)) else Some m) = Some m'"
      "chain m' (last_block 0 s xs) b (absorb z ys)" "same_outside b (b + fst (hd (absorb z ys)) + 4) m m'"
      using absorb_ok [OF c(2) pl p lst_def] by blast
    have "merge_blocks (of_nat b) m = Some m'" unfolding merge_blocks_def Let_def r(2) nx(1) lst using keep nx(2) m'(1) by (auto split: if_splits)
    moreover have "links m' 0 s xs" using links_outside [OF m'(3) plx] c(1) by (simp add: b_def)
    then have "chain m' 0 s (merged xs z ys)" using False m'(2) by (auto simp: merged_def chain_append b_def)
    ultimately show ?thesis using m'(3) False by (intro exI [of _ m']) (auto simp: b_def)
  next
    case True
    obtain us x where xs: "xs = us @ [(x, Free)]" using True by (cases xs rule: rev_cases) auto
    define a where "a = s + total us"
    have ab: "b = a + x" by (simp add: b_def a_def xs)
    have c1: "links m 0 s us" "chain m (last_block 0 s us) a ((x, Free) # (z, Free) # ys)" "placed a ((x, Free) # (z, Free) # ys)" "placed s us"
      using assms placed_append [of s us "(x, Free) # (z, Free) # ys"] by (auto simp: xs chain_append a_def placed_def)
    have q: "last_block 0 s us < 2 ^ 31" by (rule last_block_less [OF c1(4)]) simp
    have prev: "of_nat (last_block 0 s xs) = (of_nat a :: u32)" "(of_nat a :: u32) \<noteq> 0" "\<not> mem_blk_is_used (of_nat a) m"
      using first_reads(3) [OF c1(2,3) q] addr_not_null [of a] placed_blockD [OF c1(3)] by (simp_all add: xs last_block_snoc a_def)
    obtain m1 m2 where j: "mem_blk_set_next (of_nat a) (of_nat (b + z)) m = Some m1" "mem_blk_set_prev (of_nat (b + z)) (of_nat a) m1 = Some m2"
      "chain m2 (last_block 0 s us) a ((x + z, Free) # ys)" "same_outside a (b + z + 4) m m2" using join_ok [OF c1(2,3) q] by (auto simp: ab)
    have pl2: "placed a ((x + z, Free) # ys)" using c1(3) by (auto simp: placed_def block_ok_def)
    have lst2: "lst = (case ys of [] \<Rightarrow> 0 | c # _ \<Rightarrow> of_nat (a + (x + z) + fst c))" by (cases ys) (simp_all add: lst_def ab add.assoc)
    obtain m' where m': "(if lst \<noteq> 0 \<and> \<not> mem_blk_is_used (of_nat (b + z)) m2
        then Option.bind (mem_blk_set_next (of_nat a) lst m2) (mem_blk_set_prev lst (of_nat a)) else Some m2) = Some m'"
      "chain m' (last_block 0 s us) a (absorb (x + z) ys)" "same_outside a (a + fst (hd (absorb (x + z) ys)) + 4) m2 m'"
      using absorb_ok [OF j(3) pl2 q lst2] unfolding ab by (auto simp: add.assoc)
    have "merge_blocks (of_nat b) m = Some m'" unfolding merge_blocks_def Let_def r(2) nx(1) lst
      using prev nx(2) j(1,2) m'(1) by (auto split: if_splits)
    moreover have grow: "fst (hd (absorb (x + z) ys)) = x + fst (hd (absorb z ys))" "z \<le> fst (hd (absorb z ys))"
      by (cases "(z, ys)" rule: absorb.cases; simp)+
    have o: "same_outside a (b + fst (hd (absorb z ys)) + 4) m m'"
      by (rule same_outside_trans [OF same_outside_mono [OF j(4)] same_outside_mono [OF m'(3)]]) (use grow in \<open>auto simp: ab\<close>)
    moreover have "links m' 0 s us" using links_outside [OF o c1(4)] c1(1) by (simp add: a_def)
    then have "chain m' 0 s (merged xs z ys)" using m'(2) by (simp add: merged_def xs chain_append a_def)
    ultimately show ?thesis using True by (intro exI [of _ m']) (simp add: xs a_def b_def add.assoc)
  qed
qed

end
