(* ===== verification/Heap_Regions.thy ===== *)
theory Heap_Regions
  imports Heap_Chain
begin

text \<open>
  The invariant of a region of the heap and what allocating and releasing memory does to its
  blocks and to the bytes of the chunks that are in use.
\<close>

section \<open>Chunks\<close>

text \<open>The areas handed out: pointer and capacity.\<close>

fun chunks :: "nat \<Rightarrow> block list \<Rightarrow> (nat \<times> nat) list" where
  "chunks a [] = []"
| "chunks a ((z, st) # bs) = (if st = Free then [] else [(a + head st, z - head st)]) @ chunks (a + z) bs"

lemma heap_chunks_append: "chunks a (xs @ ys) = chunks a xs @ chunks (a + total xs) ys"
  by (induction xs arbitrary: a) (auto simp: add.assoc)

lemma head_bounds: "8 \<le> head st" "head st \<le> 16"
  by (cases st; simp)+

lemma block_size: "block_ok b \<Longrightarrow> 8 \<le> fst b"
  using head_bounds(1) [of "snd b"] by (auto simp: block_ok_def split: prod.splits)

lemma chunks_bounds:
  assumes "(p, c) \<in> set (chunks a bs)" "\<forall>b \<in> set bs. block_ok b"
  shows "a + 8 \<le> p \<and> p + c \<le> a + total bs"
  using assms
proof (induction bs arbitrary: a)
  case (Cons b bs)
  obtain z st where b: "b = (z, st)" by fastforce
  have "head st \<le> z" using Cons.prems(2) by (simp add: b block_ok_def)
  then show ?case using Cons head_bounds(1) [of st] by (force simp: b split: if_splits)
qed simp

lemma chunk_block:
  assumes "(p, c) \<in> set (chunks a bs)"
  obtains xs z st ys where "bs = xs @ (z, st) # ys" "st \<noteq> Free" "p = a + total xs + head st" "c = z - head st"
  using assms
proof (induction bs arbitrary: a thesis)
  case (Cons b bs)
  obtain z st where b: "b = (z, st)" by fastforce
  consider "st \<noteq> Free" "p = a + head st" "c = z - head st" | "(p, c) \<in> set (chunks (a + z) bs)"
    using Cons.prems(2) by (auto simp: b split: if_splits)
  then show ?case
  proof cases
    case 1
    then show ?thesis using Cons.prems(1) [of "[]"] b by simp
  next
    case 2
    from Cons.IH [OF _ this] obtain xs y st' ys where "bs = xs @ (y, st') # ys" "st' \<noteq> Free" "p = a + z + total xs + head st'" "c = y - head st'" by blast
    then show ?thesis using Cons.prems(1) [of "(z, st) # xs" y st' ys] by (simp add: b)
  qed
qed simp

text \<open>The chunks lie apart from each other, with a header between them.\<close>

lemma chunks_apart:
  assumes "\<forall>b \<in> set bs. block_ok b"
  shows "sorted_wrt (\<lambda>(p, c) (q, d). p + c + 8 \<le> q) (chunks a bs)"
  using assms
proof (induction bs arbitrary: a)
  case (Cons b bs)
  obtain z st where b: "b = (z, st)" by fastforce
  have z: "head st \<le> z" using Cons.prems by (simp add: b block_ok_def)
  have "a + z + 8 \<le> q" if "(q, d) \<in> set (chunks (a + z) bs)" for q d using chunks_bounds [OF that] Cons.prems by simp
  then show ?case using Cons.IH [of "a + z"] Cons.prems z by (auto simp: b)
qed simp

section \<open>Regions\<close>

definition free_total :: "block list \<Rightarrow> nat" where
  "free_total bs = total (filter (\<lambda>b. snd b = Free) bs)"

lemma free_total_simps [simp]:
  "free_total [] = 0" "free_total ((z, st) # bs) = (if st = Free then z else 0) + free_total bs" "free_total (xs @ ys) = free_total xs + free_total ys"
  by (simp_all add: free_total_def)

lemma free_total_le: "free_total bs \<le> total bs"
  by (induction bs) auto

text \<open>No two free blocks are neighbours.\<close>

definition coalesced :: "block list \<Rightarrow> bool" where
  "coalesced bs \<longleftrightarrow> successively (\<lambda>b c. snd b = Free \<longrightarrow> snd c \<noteq> Free) bs"

abbreviation all_used :: "block list \<Rightarrow> bool" where
  "all_used bs \<equiv> \<forall>b \<in> set bs. snd b \<noteq> Free"

abbreviation base :: "heap_region \<Rightarrow> nat" where
  "base r \<equiv> unat (region_start r)"

text \<open>The blocks fill the region; the first free block is at or behind \<open>free_blk\<close>.\<close>

definition region_ok :: "memory \<Rightarrow> heap_region \<Rightarrow> block list \<Rightarrow> bool" where
  "region_ok m r bs \<longleftrightarrow>
     placed (base r) bs \<and> chain m 0 (base r) bs \<and> base r + total bs = unat (region_end r) \<and>
     unat (start_addr r) \<le> base r \<and> base r + total bs + 8 \<le> unat (start_addr r) + unat (total_size r) \<and>
     unat (start_addr r) + unat (total_size r) < 2 ^ 32 \<and> coalesced bs \<and> free_bytes r = of_nat (free_total bs) \<and>
     (\<exists>xs ys. bs = xs @ ys \<and> all_used xs \<and> free_blk r = of_nat (base r + total xs))"

lemma region_okD:
  assumes "region_ok m r bs"
  shows "placed (base r) bs" "chain m 0 (base r) bs" "unat (start_addr r) \<le> base r" "base r + total bs + 8 \<le> unat (start_addr r) + unat (total_size r)"
    "unat (start_addr r) + unat (total_size r) < 2 ^ 32" "coalesced bs" "free_bytes r = of_nat (free_total bs)" "base r + total bs + 8 < 2 ^ 31"
  using assms by (auto simp: region_ok_def placed_def)

text \<open>The first block that is large enough, if there is one.\<close>

lemma first_fit_region:
  assumes "region_ok m r bs" "k < 2 ^ 32"
  obtains "\<forall>(z, st) \<in> set bs. st = Free \<longrightarrow> z < k" "first_fit (of_nat k) m (free_blk r) = Some (of_nat (base r + total bs))"
      "mem_blk_is_end (of_nat (base r + total bs)) m"
  | us z ws where "bs = us @ (z, Free) # ws" "k \<le> z" "first_fit (of_nat k) m (free_blk r) = Some (of_nat (base r + total us))"
      "\<not> mem_blk_is_end (of_nat (base r + total us)) m" "(of_nat (base r + total us) :: u32) \<noteq> 0"
      "free_blk r = of_nat (base r + total us) \<Longrightarrow> all_used us"
      "free_blk r \<noteq> of_nat (base r + total us) \<Longrightarrow> \<exists>xs vs. us = xs @ vs \<and> all_used xs \<and> free_blk r = of_nat (base r + total xs)"
proof -
  note R = region_okD [OF assms(1)]
  obtain xs ys where xs: "bs = xs @ ys" "all_used xs" "free_blk r = of_nat (base r + total xs)" using assms(1) by (auto simp: region_ok_def)
  let ?P = "\<lambda>(z, st). st \<noteq> Free \<or> z < k"
  define tw where "tw = takeWhile ?P ys"
  define dw where "dw = dropWhile ?P ys"
  have ys: "ys = tw @ dw" by (simp add: tw_def dw_def)
  have c: "chain m (last_block 0 (base r) xs) (base r + total xs) ys" "placed (base r + total xs) ys" "placed (base r) xs"
    using R(1,2) placed_append [of "base r" xs ys] by (auto simp: xs(1) chain_append placed_def)
  have lb: "last_block 0 (base r) bs' < 2 ^ 31" if "placed (base r) bs'" for bs' by (rule last_block_less [OF that]) simp
  have ff: "first_fit (of_nat k) m (free_blk r) = Some (of_nat (base r + total (xs @ tw)))"
    using first_fit_chain [OF c(1,2) lb [OF c(3)], of "of_nat k"] unat_addr [OF assms(2)] xs(3) by (simp add: tw_def add.assoc)
  have tw: "\<forall>b \<in> set tw. ?P b" by (auto simp: tw_def dest: set_takeWhileD)
  have at: "chain m (last_block 0 (base r) (xs @ tw)) (base r + total (xs @ tw)) dw" "placed (base r + total (xs @ tw)) dw" "placed (base r) (xs @ tw)"
    using R(1,2) placed_append [of "base r" "xs @ tw" dw] chain_append [of m 0 "base r" "xs @ tw" dw] by (auto simp: xs(1) ys placed_def)
  show ?thesis
  proof (cases dw)
    case Nil
    have "\<forall>(z, st) \<in> set bs. st = Free \<longrightarrow> z < k" using xs(1,2) tw Nil by (auto simp: ys)
    moreover have "mem_blk_is_end (of_nat (base r + total bs)) m"
      using end_reads(1) [of m _ "base r + total bs"] at lb Nil by (auto simp: chain_Nil xs(1) ys)
    ultimately show ?thesis using that(1) ff Nil by (simp add: xs(1) ys)
  next
    case (Cons b ws)
    have "\<not> ?P b" using Cons unfolding dw_def by (simp add: dropWhile_eq_Cons_conv)
    then obtain z where b: "b = (z, Free)" "k \<le> z" by (cases b) auto
    have h: "header m (last_block 0 (base r) (xs @ tw)) (base r + total (xs @ tw)) (z, Free)" using at(1) by (simp add: Cons b chain_Cons)
    note rd = block_reads(5) [OF h at(2) [unfolded Cons b] lb [OF at(3)]] and pl = placed_blockD [OF at(2) [unfolded Cons b]]
    have nn: "(of_nat (base r + total (xs @ tw)) :: u32) \<noteq> 0" by (rule addr_not_null) (use pl in auto)
    have same: "tw = []" if "free_blk r = of_nat (base r + total (xs @ tw))"
    proof -
      have "total tw = 0" using that xs(3) addr_eq_iff [of "base r + total xs" "base r + total (xs @ tw)"] pl by simp
      moreover have "0 < fst b" if "b \<in> set tw" for b using block_size [of b] R(1) that by (simp add: xs(1) ys placed_def)
      ultimately show ?thesis by (cases tw) force+
    qed
    show ?thesis
      by (rule that(2) [of "xs @ tw" z ws]) (use xs ys Cons b ff rd nn same in auto)
  qed
qed

text \<open>Taking a block: the first part of it becomes a chunk, the rest, if large enough, a free block.\<close>

definition taken :: "block list \<Rightarrow> nat \<Rightarrow> nat \<Rightarrow> bool \<Rightarrow> block list \<Rightarrow> block list" where
  "taken us z k trace ws = (let c = cut_block k trace z in us @ (fst (hd c), if trace then Traced else Used) # tl c @ ws)"

lemma cut_block_facts:
  assumes "k \<le> z" "4 dvd k" "4 dvd z" "head_size trace \<le> k"
  shows "\<exists>k1 c. cut_block k trace z = (k1, Free) # c \<and> k \<le> k1 \<and> k1 \<le> z \<and> 4 dvd k1 \<and> k1 + total c = z \<and> (c = [] \<or> (\<exists>y. c = [(y, Free)] \<and> 8 \<le> y \<and> 4 dvd y))"
  using assms by (cases "k + head_size trace + 1 \<le> z") (auto simp: cut_block_def split: if_splits)

lemma coalesced_Nil [simp]: "coalesced []"
  by (simp add: coalesced_def)

lemma coalesced_append: "coalesced (xs @ ys) \<longleftrightarrow> coalesced xs \<and> coalesced ys \<and> (xs = [] \<or> ys = [] \<or> (snd (last xs) = Free \<longrightarrow> snd (hd ys) \<noteq> Free))"
  by (auto simp: coalesced_def successively_append_iff)

lemma coalesced_Cons: "coalesced (b # bs) \<longleftrightarrow> coalesced bs \<and> (bs = [] \<or> (snd b = Free \<longrightarrow> snd (hd bs) \<noteq> Free))"
  using coalesced_append [of "[b]" bs] by (simp add: coalesced_def)

lemma take_block_ok:
  assumes R: "region_ok m r bs" and bs: "bs = us @ (z, Free) # ws" and k: "k \<le> z" "4 dvd k" "head_size trace \<le> k"
    and first: "free_blk r = of_nat (base r + total us) \<Longrightarrow> all_used us"
      "free_blk r \<noteq> of_nat (base r + total us) \<Longrightarrow> \<exists>xs vs. us = xs @ vs \<and> all_used xs \<and> free_blk r = of_nat (base r + total xs)"
  shows "\<exists>r' m'. take_block (of_nat (base r + total us)) (of_nat k) trace fn ln r m = Some (r', m') \<and> region_ok m' r' (taken us z k trace ws) \<and>
    same_outside (base r + total us) (base r + total us + z + 4) m m' \<and>
    start_addr r' = start_addr r \<and> total_size r' = total_size r \<and> caps r' = caps r"
proof -
  note D = region_okD [OF R]
  define a where "a = base r + total us"
  define lb where "lb = last_block 0 (base r) us"
  have c: "links m 0 (base r) us" "chain m lb a ((z, Free) # ws)" "placed a ((z, Free) # ws)" "placed (base r) us"
    using D(1,2) placed_append [of "base r" us "(z, Free) # ws"] by (auto simp: bs chain_append a_def lb_def placed_def)
  have lb: "lb < 2 ^ 31" unfolding lb_def by (rule last_block_less [OF c(4)]) simp
  note pl = placed_blockD [OF c(3)]
  obtain k1 cs where cut: "cut_block k trace z = (k1, Free) # cs" "k \<le> k1" "k1 \<le> z" "4 dvd k1" "k1 + total cs = z" "cs = [] \<or> (\<exists>y. cs = [(y, Free)] \<and> 8 \<le> y \<and> 4 dvd y)"
    using cut_block_facts [OF k(1,2) pl(4) k(3)] by blast
  let ?st = "if trace then Traced else Used"
  have head_st: "head ?st = head_size trace" by simp
  obtain m1 where m1: "split_block (of_nat a) (of_nat k) trace m = Some m1" "chain m1 lb a ((k1, Free) # cs @ ws)" "same_outside a (a + z + 4) m m1"
    using split_ok [OF c(2,3) lb k(1,2), of trace] k(3) cut(1) by (auto split: if_splits)
  have blk: "block_ok (k1, ?st)" "\<forall>b \<in> set cs. block_ok b" using k cut by (auto simp: block_ok_def split: if_splits)
  have placed1: "placed a ((k1, st) # cs @ ws)" if "head st \<le> k1" for st
    using c(3) cut(4,5,6) that by (auto simp: placed_def block_ok_def)
  define m2 where "m2 = (if trace then mem_blk_set_traced (of_nat a) fn ln (mem_blk_set_used (of_nat a) m1) else mem_blk_set_used (of_nat a) m1)"
  have le: "head Free \<le> k1" "head ?st \<le> k1" "head_size trace \<le> k1" using k(3) cut(2) by (auto split: if_splits)
  have m2: "chain m2 lb a ((k1, ?st) # cs @ ws)" "same_outside a (a + head_size trace) m1 m2"
    unfolding m2_def using mark_ok [OF m1(2) placed1 [OF le(1)] lb le(3)] by blast+
  have out: "same_outside a (a + z + 4) m m2"
    by (rule same_outside_trans [OF m1(3) same_outside_mono [OF m2(2)]]) (use le(3) cut(3) in auto)
  have bs': "taken us z k trace ws = us @ (k1, ?st) # cs @ ws" by (simp add: taken_def cut(1) Let_def)
  have tot: "total (taken us z k trace ws) = total bs" using cut(5) by (simp add: bs bs')
  have pl': "placed (base r) (taken us z k trace ws)" using D(1) blk tot by (auto simp: bs bs' placed_def)
  have "links m2 0 (base r) us" using links_outside [OF out c(4)] c(1) by (simp add: a_def)
  then have ch: "chain m2 0 (base r) (taken us z k trace ws)" using m2(1) by (simp add: bs' chain_append a_def lb_def)
  have link: "blk_link_size (of_nat a) m2 = of_nat k1"
    using block_reads(4) [of m2 lb a k1 ?st "cs @ ws"] m2(1) placed1 [OF le(2)] lb by (simp add: chain_Cons)
  have nf: "next_free m2 (of_nat a) = Some (of_nat (a + total (takeWhile (\<lambda>(z, st). st \<noteq> Free) ((k1, ?st) # cs @ ws))))"
    by (rule next_free_chain [OF m2(1) placed1 [OF le(2)] lb])
  define f where "f = (if free_blk r = of_nat a then of_nat (a + total (takeWhile (\<lambda>(z, st). st \<noteq> Free) ((k1, ?st) # cs @ ws))) else free_blk r)"
  define left where "left = free_bytes r - of_nat k1"
  define r' where "r' = r\<lparr>free_blk := f, free_bytes := left, min_free_bytes := (if min_free_bytes r > left then left else min_free_bytes r)\<rparr>"
  have run: "take_block (of_nat a) (of_nat k) trace fn ln r m = Some (r', m2)"
    unfolding take_block_def using m1(1) nf link by (simp add: m2_def [symmetric] r'_def left_def f_def Let_def)
  have fixed: "base r' = base r" "region_end r' = region_end r" by (simp_all add: r'_def region_start_def region_end_def)
  have "free_total bs = free_total (taken us z k trace ws) + k1" using cut(5,6) by (auto simp: bs bs')
  then have bytes: "free_bytes r' = of_nat (free_total (taken us z k trace ws))" using D(7) by (simp add: r'_def left_def)
  have co: "coalesced (taken us z k trace ws)"
    using D(6) cut(6) unfolding bs bs' by (auto simp: coalesced_append coalesced_Cons)
  have "\<exists>xs ys. taken us z k trace ws = xs @ ys \<and> all_used xs \<and> f = of_nat (base r + total xs)"
  proof (cases "free_blk r = of_nat a")
    case True
    let ?tw = "takeWhile (\<lambda>(z, st). st \<noteq> Free) ((k1, ?st) # cs @ ws)"
    have "all_used us" using first(1) True by (simp add: a_def)
    moreover have "all_used ?tw" by (auto dest!: set_takeWhileD split: if_splits)
    moreover have "taken us z k trace ws = (us @ ?tw) @ dropWhile (\<lambda>(z, st). st \<noteq> Free) ((k1, ?st) # cs @ ws)" by (simp only: bs' append_assoc takeWhile_dropWhile_id)
    moreover have "f = of_nat (base r + total (us @ ?tw))" using True by (simp add: f_def a_def add.assoc del: takeWhile.simps)
    ultimately show ?thesis by (metis Un_iff set_append)
  next
    case False
    then obtain xs vs where us: "us = xs @ vs" "all_used xs" "free_blk r = of_nat (base r + total xs)" using first(2) by (auto simp: a_def)
    have "taken us z k trace ws = xs @ (vs @ (k1, ?st) # cs @ ws)" unfolding bs' by (simp add: us(1))
    moreover have "f = of_nat (base r + total xs)" using False us(3) by (simp only: f_def if_False)
    ultimately show ?thesis using us(2) by blast
  qed
  then have free: "\<exists>xs ys. taken us z k trace ws = xs @ ys \<and> all_used xs \<and> free_blk r' = of_nat (base r + total xs)" by (simp add: r'_def)
  have "start_addr r' = start_addr r" "total_size r' = total_size r" "caps r' = caps r" by (simp_all add: r'_def)
  moreover have "region_ok m2 r' (taken us z k trace ws)"
    unfolding region_ok_def fixed tot using pl' ch bytes co free R calculation by (simp add: region_ok_def)
  ultimately show ?thesis using run out by (auto simp: a_def)
qed

text \<open>Releasing the chunk of a block.\<close>

lemma total_butlast_le: "total (butlast xs) \<le> total xs"
  by (cases xs rule: rev_cases) simp_all

lemma absorb_facts:
  "total (absorb z ys) = z + total ys" "free_total (absorb z ys) = z + free_total ys" "absorb z ys \<noteq> []" "snd (hd (absorb z ys)) = Free"
  "coalesced ys \<Longrightarrow> coalesced (absorb z ys)" "chunks a (absorb z ys) = chunks (a + z) ys"
  "8 \<le> z \<Longrightarrow> 4 dvd z \<Longrightarrow> \<forall>b \<in> set ys. block_ok b \<Longrightarrow> \<forall>b \<in> set (absorb z ys). block_ok b" "z \<le> fst (hd (absorb z ys))"
  by (induction z ys rule: absorb.induct) (auto simp: coalesced_Cons block_ok_def add.assoc)

lemma merged_facts:
  assumes "coalesced xs" "coalesced ys"
  shows "total (merged xs z ys) = total xs + z + total ys" "free_total (merged xs z ys) = free_total xs + z + free_total ys"
    "coalesced (merged xs z ys)" "chunks a (merged xs z ys) = chunks a xs @ chunks (a + total xs + z) ys"
    "8 \<le> z \<Longrightarrow> 4 dvd z \<Longrightarrow> \<forall>b \<in> set xs. block_ok b \<Longrightarrow> \<forall>b \<in> set ys. block_ok b \<Longrightarrow> \<forall>b \<in> set (merged xs z ys). block_ok b"
proof -
  have "total (merged xs z ys) = total xs + z + total ys \<and> free_total (merged xs z ys) = free_total xs + z + free_total ys \<and>
    coalesced (merged xs z ys) \<and> chunks a (merged xs z ys) = chunks a xs @ chunks (a + total xs + z) ys \<and>
    (8 \<le> z \<longrightarrow> 4 dvd z \<longrightarrow> (\<forall>b \<in> set xs. block_ok b) \<longrightarrow> (\<forall>b \<in> set ys. block_ok b) \<longrightarrow> (\<forall>b \<in> set (merged xs z ys). block_ok b))"
  proof (cases "xs \<noteq> [] \<and> snd (last xs) = Free")
    case True
    then obtain us x where xs: "xs = us @ [(x, Free)]" by (cases xs rule: rev_cases) auto
    have us: "coalesced us" "us = [] \<or> snd (last us) \<noteq> Free" using assms(1) by (auto simp: xs coalesced_append)
    have blk: "\<forall>b \<in> set (absorb (x + z) ys). block_ok b" if "8 \<le> z" "4 dvd z" "block_ok (x, Free)" "\<forall>b \<in> set ys. block_ok b"
      using absorb_facts(7) [where z = "x + z" and ys = ys] that by (auto simp: block_ok_def)
    have "merged xs z ys = us @ absorb (x + z) ys" by (simp add: merged_def xs)
    then show ?thesis using us absorb_facts(1-6) [where z = "x + z" and ys = ys] assms(2) blk
      by (auto simp: xs coalesced_append heap_chunks_append add.assoc)
  next
    case False
    then have "merged xs z ys = xs @ absorb z ys" by (auto simp: merged_def)
    then show ?thesis using False absorb_facts [where z = z and ys = ys] assms by (auto simp: coalesced_append heap_chunks_append add.assoc)
  qed
  then show "total (merged xs z ys) = total xs + z + total ys" "free_total (merged xs z ys) = free_total xs + z + free_total ys"
    "coalesced (merged xs z ys)" "chunks a (merged xs z ys) = chunks a xs @ chunks (a + total xs + z) ys"
    "8 \<le> z \<Longrightarrow> 4 dvd z \<Longrightarrow> \<forall>b \<in> set xs. block_ok b \<Longrightarrow> \<forall>b \<in> set ys. block_ok b \<Longrightarrow> \<forall>b \<in> set (merged xs z ys). block_ok b" by blast+
qed

text \<open>The bytes that releasing a block may change: its own, those of free neighbours and a link of the block behind them.\<close>

definition release_low :: "nat \<Rightarrow> block list \<Rightarrow> nat" where
  "release_low a xs = a + total (if xs \<noteq> [] \<and> snd (last xs) = Free then butlast xs else xs)"

lemma release_ok:
  assumes R: "region_ok m r bs" and bs: "bs = xs @ (z, st) # ys" and st: "st \<noteq> Free"
  defines "b \<equiv> of_nat (base r + total xs) :: u32"
  shows "\<exists>m'. merge_blocks b (mem_blk_set_untraced b (mem_blk_set_unused b m)) = Some m' \<and>
    region_ok m' (r\<lparr>free_bytes := free_bytes r + blk_link_size b m, free_blk := (if b < free_blk r then b else free_blk r)\<rparr>) (merged xs z ys) \<and>
    same_outside (release_low (base r) xs) (base r + total xs + fst (hd (absorb z ys)) + 4) m m'"
proof -
  note D = region_okD [OF R]
  define a where "a = base r + total xs"
  define lb where "lb = last_block 0 (base r) xs"
  have c: "links m 0 (base r) xs" "chain m lb a ((z, st) # ys)" "placed a ((z, st) # ys)" "placed (base r) xs"
    using D(1,2) placed_append [of "base r" xs "(z, st) # ys"] by (auto simp: bs chain_append a_def lb_def placed_def)
  have lb: "lb < 2 ^ 31" unfolding lb_def by (rule last_block_less [OF c(4)]) simp
  note pl = placed_blockD [OF c(3)]
  have link: "blk_link_size (of_nat a) m = of_nat z" using block_reads(4) [OF _ c(3) lb] c(2) by (simp add: chain_Cons)
  define m1 where "m1 = mem_blk_set_untraced (of_nat a) (mem_blk_set_unused (of_nat a) m)"
  have m1: "chain m1 lb a ((z, Free) # ys)" "same_outside a (a + 8) m m1" unfolding m1_def using unmark_ok [OF c(2,3) lb] by blast+
  have "links m1 0 (base r) xs" using links_outside [OF m1(2) c(4)] c(1) by (simp add: a_def)
  then have ch: "chain m1 0 (base r) (xs @ (z, Free) # ys)" using m1(1) by (simp add: chain_append a_def lb_def)
  have plf: "placed (base r) (xs @ (z, Free) # ys)" using D(1) pl by (auto simp: bs placed_def block_ok_def)
  obtain m' where m': "merge_blocks (of_nat a) m1 = Some m'" "chain m' 0 (base r) (merged xs z ys)"
    "same_outside (release_low (base r) xs) (a + fst (hd (absorb z ys)) + 4) m1 m'"
    using merge_ok [OF ch plf] by (auto simp: a_def release_low_def)
  have low: "release_low (base r) xs \<le> a"
    using total_butlast_le by (auto simp: release_low_def a_def)
  have out: "same_outside (release_low (base r) xs) (a + fst (hd (absorb z ys)) + 4) m m'"
    by (rule same_outside_trans [OF same_outside_mono [OF m1(2)] m'(3)]) (use low absorb_facts(8) [where z = z and ys = ys] pl(5) in auto)
  have co: "coalesced xs" "coalesced ys" using D(6) by (auto simp: bs coalesced_append coalesced_Cons)
  note M = merged_facts [OF co, where z = z]
  have tot: "total (merged xs z ys) = total bs" by (simp add: M bs)
  have plm: "placed (base r) (merged xs z ys)" using D(1) M(1,5) pl by (auto simp: bs placed_def)
  define f where "f = (if of_nat a < free_blk r then of_nat a else free_blk r)"
  define r' where "r' = r\<lparr>free_bytes := free_bytes r + of_nat z, free_blk := f\<rparr>"
  have fixed: "base r' = base r" "region_end r' = region_end r" "start_addr r' = start_addr r" "total_size r' = total_size r" by (simp_all add: r'_def region_start_def region_end_def)
  have "free_total (merged xs z ys) = free_total bs + z" using st by (simp add: M bs)
  then have bytes: "free_bytes r' = of_nat (free_total (merged xs z ys))" using D(7) by (simp add: r'_def)
  have "\<exists>us vs. merged xs z ys = us @ vs \<and> all_used us \<and> f = of_nat (base r + total us)"
  proof -
    obtain us vs where us: "bs = us @ vs" "all_used us" "free_blk r = of_nat (base r + total us)" using R by (auto simp: region_ok_def)
    have lim: "base r + total us < 2 ^ 32" "a < 2 ^ 32" using D(8) pl by (auto simp: us(1))
    note less = addr_less_iff [OF lim(2,1)]
    consider t where "us = xs @ (z, st) # t" | t where "xs = us @ t"
      using us(1) bs by (auto simp: append_eq_append_conv2 Cons_eq_append_conv)
    then show ?thesis
    proof cases
      case (1 t)
      then have "f = of_nat a" using less us(3) pl(5) by (simp add: f_def a_def)
      moreover have "merged xs z ys = xs @ absorb z ys" "all_used xs" using us(2) 1 by (auto simp: merged_def)
      ultimately show ?thesis by (auto simp: a_def)
    next
      case (2 t)
      then have "f = of_nat (base r + total us)" using less us(3) by (simp add: f_def a_def)
      moreover have "\<exists>vs. merged xs z ys = us @ vs"
      proof (cases "t = []")
        case True
        then have "\<not> (xs \<noteq> [] \<and> snd (last xs) = Free)" using us(2) 2 by auto
        then show ?thesis using 2 True by (auto simp: merged_def)
      next
        case False
        then show ?thesis using 2 by (simp add: merged_def butlast_append)
      qed
      ultimately show ?thesis using us(2) by blast
    qed
  qed
  then have free: "\<exists>us vs. merged xs z ys = us @ vs \<and> all_used us \<and> free_blk r' = of_nat (base r + total us)" by (simp add: r'_def)
  have "region_ok m' r' (merged xs z ys)"
    unfolding region_ok_def fixed tot using plm m'(2) bytes M(3) free R by (simp add: region_ok_def)
  moreover have "b = of_nat a" by (simp add: b_def a_def)
  ultimately show ?thesis using m'(1) out unfolding r'_def f_def link [symmetric] m1_def a_def [symmetric] by blast
qed

end
