(* ===== verification/Heap_Theorems.thy ===== *)
theory Heap_Theorems
  imports Heap_Regions
begin

text \<open>
  The heap as a whole: allocating and releasing memory, with every chunk in use and its content
  followed through any sequence of calls.
\<close>

section \<open>Sizes\<close>

lemma clear_low: "(w :: u32) AND NOT 3 = of_nat (4 * (unat w div 4))"
proof -
  have [simp]: "2 \<le> n \<Longrightarrow> Suc (Suc (n - 2)) = n" for n by simp
  have m: "(3 :: u32) = mask 2" by (simp add: mask_eq_exp_minus_1)
  have "w AND NOT (mask 2) = push_bit 2 (drop_bit 2 w)" by (rule bit_word_eqI) (auto simp: bit_simps)
  also have "\<dots> = of_nat (4 * (unat w div 4))"
  proof -
    have lt: "4 * (unat w div 4) < 2 ^ 32" using unat_u32_less [of w] by (metis div_times_less_eq_dividend le_less_trans mult.commute)
    have "unat (push_bit 2 (drop_bit 2 w)) = take_bit 32 (push_bit 2 (drop_bit 2 (unat w)))"
      using unat_u32_less [of w] by (simp add: unsigned_push_bit_eq unsigned_drop_bit_eq take_bit_nat_eq_self)
    also have "\<dots> = 4 * (unat w div 4)" using lt by (simp add: drop_bit_eq_div push_bit_eq_mult take_bit_nat_eq_self mult.commute)
    finally show ?thesis using unat_addr [OF lt] by (metis word_unat_eq_iff)
  qed
  finally show ?thesis by (simp add: m)
qed
lemma align: assumes "x + 3 < 2 ^ 32" shows "HEAP_ALIGN (of_nat x) = of_nat (4 * ((x + 3) div 4))"
proof -
  have "HEAP_ALIGN (of_nat x) = of_nat (x + 3) AND NOT 3" by (simp add: HEAP_ALIGN_def)
  also have "\<dots> = of_nat (4 * ((x + 3) div 4))" unfolding clear_low using unat_addr [OF assms] by simp
  finally show ?thesis .
qed

text \<open>The size of the block for a request.\<close>

definition need :: "nat \<Rightarrow> bool \<Rightarrow> nat" where
  "need n trace = 4 * ((n + head_size trace + 3) div 4)"

lemma need_facts: "4 dvd need n trace" "n + head_size trace \<le> need n trace" "head_size trace \<le> need n trace" "need n trace < n + head_size trace + 4"
  unfolding need_def by (cases trace; simp; presburger)+

lemma ptr2memblk_size_eq:
  assumes "unat n + 19 < 2 ^ 32"
  shows "ptr2memblk_size n trace = of_nat (need (unat n) trace)" "need (unat n) trace < 2 ^ 32"
proof -
  have "n + mem_blk_head_size trace = of_nat (unat n + head_size trace)" by (simp add: mem_blk_head_size_def MEM_HEAD_SIZE_def MEM2_HEAD_SIZE_def)
  then show "ptr2memblk_size n trace = of_nat (need (unat n) trace)"
    using align [of "unat n + head_size trace"] assms by (simp add: ptr2memblk_size_def need_def)
  show "need (unat n) trace < 2 ^ 32" using need_facts(4) [of "unat n" trace] assms by (simp split: if_splits)
qed

section \<open>All regions\<close>

definition apart :: "heap_region \<Rightarrow> heap_region \<Rightarrow> bool" where
  "apart r s \<longleftrightarrow> unat (start_addr r) + unat (total_size r) \<le> unat (start_addr s) \<or> unat (start_addr s) + unat (total_size s) \<le> unat (start_addr r)"

definition regions_ok :: "memory \<Rightarrow> heap_region list \<Rightarrow> block list list \<Rightarrow> bool" where
  "regions_ok m rs bss \<longleftrightarrow> list_all2 (region_ok m) rs bss \<and> sorted_wrt apart rs"

fun all_chunks :: "heap_region list \<Rightarrow> block list list \<Rightarrow> (nat \<times> nat) list" where
  "all_chunks (r # rs) (bs # bss) = chunks (base r) bs @ all_chunks rs bss"
| "all_chunks _ _ = []"

text \<open>The content of some chunks is the same.\<close>

definition keeps :: "(nat \<times> nat) list \<Rightarrow> memory \<Rightarrow> memory \<Rightarrow> bool" where
  "keeps L m m' \<longleftrightarrow> (\<forall>(q, c) \<in> set L. \<forall>i < c. m' (of_nat (q + i)) = m (of_nat (q + i)))"

lemma region_outside:
  assumes "region_ok m r bs" "same_outside lo hi m m'" "hi \<le> unat (start_addr r) \<or> unat (start_addr r) + unat (total_size r) \<le> lo"
  shows "region_ok m' r bs"
proof -
  note D = region_okD [OF assms(1)]
  have "chain m' 0 (base r) bs" using chain_outside [OF assms(2) D(1)] assms(3) D(2-4) by auto
  then show ?thesis using assms(1) by (simp add: region_ok_def)
qed

lemma keeps_outside:
  assumes "same_outside lo hi m m'" "\<And>q c. (q, c) \<in> set L \<Longrightarrow> (q + c \<le> lo \<or> hi \<le> q) \<and> q + c < 2 ^ 32"
  shows "keeps L m m'"
  using assms unfolding keeps_def same_outside_def by (fastforce simp del: of_nat_add)

lemma keeps_append: "keeps (A @ B) m m' \<longleftrightarrow> keeps A m m' \<and> keeps B m m'"
  by (auto simp: keeps_def)

lemma chunk_in_region:
  assumes "region_ok m r bs" "(q, c) \<in> set (chunks (base r) bs)"
  shows "unat (start_addr r) + 8 \<le> q" "q + c + 8 \<le> unat (start_addr r) + unat (total_size r)" "q + c < 2 ^ 31"
  using chunks_bounds [OF assms(2)] region_okD [OF assms(1)] by (auto simp: placed_def)

lemma chunk_in_regions:
  assumes "list_all2 (region_ok m) rs bss" "(q, c) \<in> set (all_chunks rs bss)"
  shows "\<exists>r \<in> set rs. unat (start_addr r) + 8 \<le> q \<and> q + c + 8 \<le> unat (start_addr r) + unat (total_size r) \<and> q + c < 2 ^ 31"
  using assms by (induction rs bss rule: list_all2_induct) (auto dest: chunk_in_region)

text \<open>A change inside one region leaves the others alone.\<close>

lemma regions_outside:
  assumes "list_all2 (region_ok m) rs bss" "same_outside lo hi m m'" "\<forall>s \<in> set rs. apart r s" "unat (start_addr r) \<le> lo"
    "hi \<le> unat (start_addr r) + unat (total_size r)"
  shows "list_all2 (region_ok m') rs bss" "keeps (all_chunks rs bss) m m'"
proof -
  have "hi \<le> unat (start_addr s) \<or> unat (start_addr s) + unat (total_size s) \<le> lo" if "s \<in> set rs" for s
    using assms(3-5) that by (auto simp: apart_def)
  then have out: "hi \<le> unat (start_addr s) \<or> unat (start_addr s) + unat (total_size s) \<le> lo" if "s \<in> set rs" for s using that by blast
  show "list_all2 (region_ok m') rs bss"
    using assms(1) region_outside [OF _ assms(2) out] by (simp add: list_all2_conv_all_nth)
  show "keeps (all_chunks rs bss) m m'"
    using chunk_in_regions [OF assms(1)] out by (intro keeps_outside [OF assms(2)]) fastforce
qed

lemma all_chunks_apart:
  assumes "regions_ok m rs bss"
  shows "sorted_wrt (\<lambda>(p, c) (q, d). p + c + 8 \<le> q \<or> q + d + 8 \<le> p) (all_chunks rs bss)"
proof -
  have "list_all2 (region_ok m) rs bss" "sorted_wrt apart rs" using assms by (simp_all add: regions_ok_def)
  then show ?thesis
  proof (induction rs bss rule: list_all2_induct)
    case (Cons r rs bs bss)
    have "sorted_wrt (\<lambda>(p, c) (q, d). p + c + 8 \<le> q \<or> q + d + 8 \<le> p) (chunks (base r) bs)"
      using chunks_apart [of bs "base r"] region_okD(1) [OF Cons.hyps(1)] by (auto simp: placed_def intro: sorted_wrt_mono_rel [rotated])
    moreover have "p + c + 8 \<le> q \<or> q + d + 8 \<le> p" if "(p, c) \<in> set (chunks (base r) bs)" "(q, d) \<in> set (all_chunks rs bss)" for p c q d
      using chunk_in_region [OF Cons.hyps(1) that(1)] chunk_in_regions [OF Cons.hyps(2) that(2)] Cons.prems by (fastforce simp: apart_def)
    ultimately show ?case using Cons.IH Cons.prems by (auto simp: sorted_wrt_append)
  qed simp
qed

section \<open>Allocation\<close>

lemma total_ge: "b \<in> set bs \<Longrightarrow> fst b \<le> total bs"
  by (induction bs) auto

lemma free_block_le: "(z, Free) \<in> set bs \<Longrightarrow> z \<le> free_total bs"
  by (induction bs) auto

lemma taken_chunks:
  assumes "k \<le> z" "4 dvd k" "4 dvd z" "head_size trace \<le> k"
  shows "\<exists>c. chunks a (taken us z k trace ws) = chunks a us @ (a + total us + head_size trace, c) # chunks (a + total us + z) ws \<and> k - head_size trace \<le> c"
proof -
  obtain k1 cs where c: "cut_block k trace z = (k1, Free) # cs" "k \<le> k1" "k1 + total cs = z" "cs = [] \<or> (\<exists>y. cs = [(y, Free)])"
    using cut_block_facts [OF assms] by blast
  then show ?thesis by (auto simp: taken_def Let_def heap_chunks_append add.assoc)
qed

text \<open>
  What the search through the regions does: the request fails when no region with the
  capabilities has a free block that is large enough; otherwise one chunk is added, the others
  stay where they are with their content.
\<close>

definition added :: "(nat \<times> nat) list \<Rightarrow> nat \<Rightarrow> nat \<Rightarrow> (nat \<times> nat) list \<Rightarrow> bool" where
  "added L q c L' \<longleftrightarrow> (\<exists>A B. L = A @ B \<and> L' = A @ (q, c) # B)"

lemma added_left: "added L q c L' \<Longrightarrow> added (X @ L) q c (X @ L')"
  unfolding added_def by (metis append.assoc)

lemma added_right: "added L q c L' \<Longrightarrow> added (L @ X) q c (L' @ X)"
  unfolding added_def by (metis append.assoc append_Cons)

definition shape :: "heap_region list \<Rightarrow> (u32 \<times> u32 \<times> u32) list" where
  "shape rs = map (\<lambda>r. (start_addr r, total_size r, caps r)) rs"

lemma apart_shape: "shape rs = shape rs' \<Longrightarrow> (\<forall>s \<in> set rs. apart r s) = (\<forall>s \<in> set rs'. apart r s)"
  "shape rs = shape rs' \<Longrightarrow> sorted_wrt apart rs = sorted_wrt apart rs'"
proof -
  let ?P = "\<lambda>(a :: u32, n :: u32, _ :: u32) (b :: u32, k :: u32, _ :: u32). unat a + unat n \<le> unat b \<or> unat b + unat k \<le> unat a"
  have "(\<forall>s \<in> set rs. apart r s) = (\<forall>t \<in> set (shape rs). ?P (start_addr r, total_size r, 0) t)" for rs by (simp add: shape_def apart_def)
  then show "shape rs = shape rs' \<Longrightarrow> (\<forall>s \<in> set rs. apart r s) = (\<forall>s \<in> set rs'. apart r s)" by simp
  have "sorted_wrt apart rs = sorted_wrt ?P (shape rs)" for rs by (simp add: shape_def sorted_wrt_map apart_def [abs_def])
  then show "shape rs = shape rs' \<Longrightarrow> sorted_wrt apart rs = sorted_wrt apart rs'" by simp
qed

lemma apart_sym: "apart r s = apart s r"
  by (auto simp: apart_def)

definition too_small :: "u32 \<Rightarrow> nat \<Rightarrow> heap_region list \<Rightarrow> block list list \<Rightarrow> bool" where
  "too_small c k rs bss \<longleftrightarrow> (\<forall>(r, bs) \<in> set (zip rs bss). caps r AND c = c \<longrightarrow> (\<forall>(z, st) \<in> set bs. st = Free \<longrightarrow> z < k))"

definition malloc_post :: "nat \<Rightarrow> nat \<Rightarrow> u32 \<Rightarrow> memory \<Rightarrow> heap_region list \<Rightarrow> block list list \<Rightarrow> u32 \<Rightarrow> memory \<Rightarrow> heap_region list \<Rightarrow> block list list \<Rightarrow> bool" where
  "malloc_post n k c m rs bss p m' rs' bss' \<longleftrightarrow> regions_ok m' rs' bss' \<and> shape rs' = shape rs \<and>
     (\<forall>s bs. region_ok m s bs \<and> (\<forall>r \<in> set rs. apart s r) \<longrightarrow> region_ok m' s bs \<and> keeps (chunks (base s) bs) m m') \<and>
     (p = 0 \<longrightarrow> rs' = rs \<and> m' = m \<and> bss' = bss \<and> too_small c k rs bss) \<and>
     (p \<noteq> 0 \<longrightarrow> (\<exists>q d. p = of_nat q \<and> 0 < q \<and> q + d < 2 ^ 31 \<and> 4 dvd q \<and> n \<le> d \<and> added (all_chunks rs bss) q d (all_chunks rs' bss') \<and> keeps (all_chunks rs bss) m m'))"

lemma too_small_Cons:
  "too_small c k (r # rs) (bs # bss) \<longleftrightarrow> (caps r AND c = c \<longrightarrow> (\<forall>(z, st) \<in> set bs. st = Free \<longrightarrow> z < k)) \<and> too_small c k rs bss"
  by (simp add: too_small_def)

text \<open>The request goes on to the regions behind the first.\<close>

lemma malloc_post_other:
  assumes "malloc_post n k c m rs bss p m' rs' bss'" "region_ok m r bs" "\<forall>s \<in> set rs. apart r s"
    "caps r AND c = c \<longrightarrow> (\<forall>(z, st) \<in> set bs. st = Free \<longrightarrow> z < k)"
  shows "malloc_post n k c m (r # rs) (bs # bss) p m' (r # rs') (bs # bss')"
proof -
  have P: "regions_ok m' rs' bss'" "shape rs' = shape rs" "region_ok m' r bs" "keeps (chunks (base r) bs) m m'"
    using assms(1-3) by (simp_all add: malloc_post_def)
  then have "regions_ok m' (r # rs') (bs # bss')" using assms(3) apart_shape(1) [OF P(2)] by (simp add: regions_ok_def)
  moreover have "shape (r # rs') = shape (r # rs)" using P(2) by (simp add: shape_def)
  moreover have "region_ok m' s cs \<and> keeps (chunks (base s) cs) m m'" if "region_ok m s cs" "\<forall>t \<in> set (r # rs). apart s t" for s cs
    using assms(1) that by (simp add: malloc_post_def)
  moreover have "rs' = rs \<and> m' = m \<and> bss' = bss \<and> too_small c k (r # rs) (bs # bss)" if "p = 0"
    using assms(1,4) that by (simp add: malloc_post_def too_small_Cons)
  moreover have "\<exists>q d. p = of_nat q \<and> 0 < q \<and> q + d < 2 ^ 31 \<and> 4 dvd q \<and> n \<le> d \<and>
    added (all_chunks (r # rs) (bs # bss)) q d (all_chunks (r # rs') (bs # bss')) \<and> keeps (all_chunks (r # rs) (bs # bss)) m m'" if p: "p \<noteq> 0"
  proof -
    obtain q d where q: "p = of_nat q" "0 < q" "q + d < 2 ^ 31" "4 dvd q" "n \<le> d" "added (all_chunks rs bss) q d (all_chunks rs' bss')" "keeps (all_chunks rs bss) m m'"
      using assms(1) p unfolding malloc_post_def by auto
    have "added (all_chunks (r # rs) (bs # bss)) q d (all_chunks (r # rs') (bs # bss'))" "keeps (all_chunks (r # rs) (bs # bss)) m m'"
      using added_left [OF q(6)] q(7) P(4) by (simp_all add: keeps_append)
    then show ?thesis using q(1-5) by blast
  qed
  ultimately show ?thesis unfolding malloc_post_def by (intro conjI allI impI) (blast, blast, blast, blast, blast, blast, blast, blast, blast)
qed

text \<open>The request is met in the first region.\<close>

lemma malloc_post_first:
  assumes "list_all2 (region_ok m) rs bss" "sorted_wrt apart (r # rs)" "region_ok m r bs" "bs = us @ (z, Free) # ws" "k \<le> z" "4 dvd k"
    "n + head_size trace \<le> k" "region_ok m' r' (taken us z k trace ws)" "same_outside (base r + total us) (base r + total us + z + 4) m m'"
    "start_addr r' = start_addr r" "total_size r' = total_size r" "caps r' = caps r"
  shows "malloc_post n k c m (r # rs) (bs # bss) (blk2ptr (of_nat (base r + total us)) trace) m' (r' # rs) (taken us z k trace ws # bss)"
proof -
  note D = region_okD [OF assms(3)]
  let ?a = "base r + total us"
  have base: "base r' = base r" using assms(10) by (simp add: region_start_def)
  have apart: "apart r' = apart r" using assms(10,11) by (auto simp: apart_def)
  have pl: "placed ?a ((z, Free) # ws)" using placed_append [of "base r" us] D(1) assms(4) by auto
  note b = placed_blockD [OF pl]
  have in_region: "unat (start_addr r) \<le> ?a" "?a + z + 4 \<le> unat (start_addr r) + unat (total_size r)" using D(3,4) assms(4) by auto
  note out = regions_outside [OF assms(1,9) _ in_region]
  have far: "\<forall>s \<in> set rs. apart r s" using assms(2) by simp
  have ok: "regions_ok m' (r' # rs) (taken us z k trace ws # bss)" using assms(2,8) out(1) [OF far] apart by (simp add: regions_ok_def)
  obtain d where d: "chunks (base r) (taken us z k trace ws) = chunks (base r) us @ (?a + head_size trace, d) # chunks (?a + z) ws" "k - head_size trace \<le> d"
    using taken_chunks [OF assms(5,6) b(4)] assms(7) by (metis add_leE)
  have old: "chunks (base r) bs = chunks (base r) us @ chunks (?a + z) ws" by (simp add: assms(4) heap_chunks_append)
  have q: "blk2ptr (of_nat ?a) trace = of_nat (?a + head_size trace)" by (simp add: blk2ptr_def mem_blk_head_size_def MEM_HEAD_SIZE_def MEM2_HEAD_SIZE_def)
  have lim: "?a + head_size trace + d < 2 ^ 31" using chunk_in_region(3) [OF assms(8), of "?a + head_size trace" d] d(1) base by simp
  have nn: "(of_nat (?a + head_size trace) :: u32) \<noteq> 0" by (rule addr_not_null) (use b lim in auto)
  have "keeps (chunks (base r) bs) m m'"
  proof (rule keeps_outside [OF assms(9)])
    fix q1 c1 assume "(q1, c1) \<in> set (chunks (base r) bs)"
    moreover have "q1 + c1 \<le> ?a" if "(q1, c1) \<in> set (chunks (base r) us)"
      using chunks_bounds [OF that] D(1) assms(4) by (auto simp: placed_def)
    moreover have "?a + z + 4 \<le> q1" if "(q1, c1) \<in> set (chunks (?a + z) ws)"
      using chunks_bounds [OF that] D(1) assms(4) by (auto simp: placed_def)
    ultimately show "(q1 + c1 \<le> ?a \<or> ?a + z + 4 \<le> q1) \<and> q1 + c1 < 2 ^ 32"
      using chunk_in_region(3) [OF assms(3), of q1 c1] old by auto
  qed
  then have keep: "keeps (all_chunks (r # rs) (bs # bss)) m m'" using out(2) [OF far] by (simp add: keeps_append)
  have "added (chunks (base r) bs) (?a + head_size trace) d (chunks (base r') (taken us z k trace ws))"
    unfolding added_def base d(1) old by blast
  then have add: "added (all_chunks (r # rs) (bs # bss)) (?a + head_size trace) d (all_chunks (r' # rs) (taken us z k trace ws # bss))" by (simp add: added_right)
  have frame: "region_ok m' s cs \<and> keeps (chunks (base s) cs) m m'" if "region_ok m s cs" "apart s r" for s cs
    using regions_outside [OF _ assms(9) _ in_region, of "[s]" "[cs]"] that apart_sym by auto
  define Q where "Q = ?a + head_size trace"
  have "0 < Q" "Q + d < 2 ^ 31" "4 dvd Q" "n \<le> d" using b(1,2) lim d(2) assms(7) by (auto simp: Q_def)
  then have "\<exists>q d. (of_nat Q :: u32) = of_nat q \<and> 0 < q \<and> q + d < 2 ^ 31 \<and> 4 dvd q \<and> n \<le> d \<and>
    added (all_chunks (r # rs) (bs # bss)) q d (all_chunks (r' # rs) (taken us z k trace ws # bss)) \<and> keeps (all_chunks (r # rs) (bs # bss)) m m'"
    using add keep unfolding Q_def [symmetric] by blast
  moreover have "shape (r' # rs) = shape (r # rs)" using assms(10-12) by (simp add: shape_def)
  ultimately show ?thesis unfolding malloc_post_def q using ok frame nn unfolding Q_def [symmetric] by (intro conjI allI impI) (blast, blast, fastforce, fastforce, blast, blast, blast, blast, blast)
qed

lemma malloc_regions_ok:
  assumes "regions_ok m rs bss" "unat n + 19 < 2 ^ 32"
  shows "\<exists>p rs' m' bss'. malloc_regions n c trace fn ln rs m = Some (p, rs', m') \<and>
    malloc_post (unat n) (need (unat n) trace) c m rs bss p m' rs' bss'"
proof -
  define k where "k = need (unat n) trace"
  have k: "ptr2memblk_size n trace = of_nat k" "k < 2 ^ 32" "4 dvd k" "unat n + head_size trace \<le> k" "head_size trace \<le> k"
    using ptr2memblk_size_eq [OF assms(2)] need_facts [where n = "unat n" and trace = trace] by (simp_all add: k_def)
  have "list_all2 (region_ok m) rs bss" "sorted_wrt apart rs" using assms(1) by (simp_all add: regions_ok_def)
  then show ?thesis unfolding k_def [symmetric]
  proof (induction rs bss rule: list_all2_induct)
    case Nil
    then show ?case by (auto simp: regions_ok_def malloc_post_def too_small_def keeps_def)
  next
    case (Cons r rs bs bss)
    note D = region_okD [OF Cons.hyps(1)]
    have far: "\<forall>s \<in> set rs. apart r s" "sorted_wrt apart rs" using Cons.prems by simp_all
    obtain p rs' m' bss' where IH: "malloc_regions n c trace fn ln rs m = Some (p, rs', m')" "malloc_post (unat n) k c m rs bss p m' rs' bss'"
      using Cons.IH [OF far(2)] by blast
    have other: ?case if "malloc_regions n c trace fn ln (r # rs) m = map_option (\<lambda>(p, rs, m). (p, r # rs, m)) (malloc_regions n c trace fn ln rs m)"
      "caps r AND c = c \<longrightarrow> (\<forall>(z, st) \<in> set bs. st = Free \<longrightarrow> z < k)"
      using malloc_post_other [OF IH(2) Cons.hyps(1) far(1) that(2)] that(1) IH(1) by auto
    have lim: "free_total bs < 2 ^ 32" using free_total_le [of bs] D(8) by simp
    show ?case
    proof (cases "caps r AND c \<noteq> c \<or> of_nat k > free_bytes r")
      case True
      have "z < k" if "of_nat k > free_bytes r" "(z, Free) \<in> set bs" for z
        using that free_block_le [OF that(2)] addr_less_iff [OF lim k(2)] D(7) by simp
      then show ?thesis using True k(1) by (intro other) auto
    next
      case False
      show ?thesis
      proof (rule first_fit_region [OF Cons.hyps(1) k(2)])
        assume "\<forall>(z, st) \<in> set bs. st = Free \<longrightarrow> z < k" "first_fit (of_nat k) m (free_blk r) = Some (of_nat (base r + total bs))"
          "mem_blk_is_end (of_nat (base r + total bs)) m"
        then show ?thesis using False k(1) by (intro other) (auto simp del: of_nat_add)
      next
        fix us z ws
        assume f: "bs = us @ (z, Free) # ws" "k \<le> z" "first_fit (of_nat k) m (free_blk r) = Some (of_nat (base r + total us))"
          "\<not> mem_blk_is_end (of_nat (base r + total us)) m" "(of_nat (base r + total us) :: u32) \<noteq> 0"
          "free_blk r = of_nat (base r + total us) \<Longrightarrow> all_used us"
          "free_blk r \<noteq> of_nat (base r + total us) \<Longrightarrow> \<exists>xs vs. us = xs @ vs \<and> all_used xs \<and> free_blk r = of_nat (base r + total xs)"
        obtain r' m2 where t: "take_block (of_nat (base r + total us)) (of_nat k) trace fn ln r m = Some (r', m2)" "region_ok m2 r' (taken us z k trace ws)"
          "same_outside (base r + total us) (base r + total us + z + 4) m m2" "start_addr r' = start_addr r" "total_size r' = total_size r" "caps r' = caps r"
          using take_block_ok [OF Cons.hyps(1) f(1,2) k(3,5) f(6,7), of fn ln] by blast
        have "malloc_regions n c trace fn ln (r # rs) m = Some (blk2ptr (of_nat (base r + total us)) trace, r' # rs, m2)"
          using False k(1) f(3-5) t(1) by (simp del: of_nat_add)
        then show ?thesis using malloc_post_first [OF Cons.hyps(2) Cons.prems Cons.hyps(1) f(1,2) k(3,4) t(2-6), of c] by blast
      qed
    qed
  qed
qed

section \<open>Release\<close>

lemma all_chunks_append: "length rs = length bss \<Longrightarrow> all_chunks (rs @ rs') (bss @ bss') = all_chunks rs bss @ all_chunks rs' bss'"
  by (induction rs bss rule: list_induct2) simp_all

lemma addr_in_region:
  assumes "region_ok m r bs" "q < 2 ^ 31"
  shows "of_nat q > start_addr r \<and> of_nat q < start_addr r + total_size r \<longleftrightarrow> unat (start_addr r) < q \<and> q < unat (start_addr r) + unat (total_size r)"
proof -
  have "unat (start_addr r + total_size r) = unat (start_addr r) + unat (total_size r)"
    using region_okD(5) [OF assms(1)] by (simp add: unat_add_lem [symmetric])
  then show ?thesis using unat_addr [of q] assms(2) by (simp add: word_less_nat_alt)
qed

text \<open>The region and the block of a chunk.\<close>

lemma find_region:
  assumes "list_all2 (region_ok m) rs bss" "sorted_wrt apart rs" "(q, d) \<in> set (all_chunks rs bss)"
  shows "\<exists>R1 r R2 B1 bs B2. rs = R1 @ r # R2 \<and> bss = B1 @ bs # B2 \<and> length R1 = length B1 \<and> get_blk_region (of_nat q) rs = length R1 \<and>
    (q, d) \<in> set (chunks (base r) bs)"
  using assms
proof (induction rs bss rule: list_all2_induct)
  case (Cons r rs bs bss)
  show ?case
  proof (cases "(q, d) \<in> set (chunks (base r) bs)")
    case True
    then have "get_blk_region (of_nat q) (r # rs) = 0"
      using chunk_in_region [OF Cons.hyps(1) True] addr_in_region [OF Cons.hyps(1), of q] by simp
    then have "r # rs = [] @ r # rs \<and> bs # bss = [] @ bs # bss \<and> length ([] :: heap_region list) = length ([] :: block list list) \<and>
      get_blk_region (of_nat q) (r # rs) = length ([] :: heap_region list) \<and> (q, d) \<in> set (chunks (base r) bs)" using True by simp
    then show ?thesis by blast
  next
    case False
    then have q: "(q, d) \<in> set (all_chunks rs bss)" using Cons.prems by simp
    obtain s where s: "s \<in> set rs" "unat (start_addr s) + 8 \<le> q" "q + d + 8 \<le> unat (start_addr s) + unat (total_size s)" "q + d < 2 ^ 31"
      using chunk_in_regions [OF Cons.hyps(2) q] by blast
    have "apart r s" using Cons.prems(1) s(1) by simp
    then have "get_blk_region (of_nat q) (r # rs) = Suc (get_blk_region (of_nat q) rs)"
      using s addr_in_region [OF Cons.hyps(1), of q] by (auto simp: apart_def)
    moreover obtain R1 t R2 B1 cs B2 where "rs = R1 @ t # R2" "bss = B1 @ cs # B2" "length R1 = length B1" "get_blk_region (of_nat q) rs = length R1"
      "(q, d) \<in> set (chunks (base t) cs)" using Cons.IH Cons.prems(1) q by auto
    ultimately have "r # rs = (r # R1) @ t # R2 \<and> bs # bss = (bs # B1) @ cs # B2 \<and> length (r # R1) = length (bs # B1) \<and>
      get_blk_region (of_nat q) (r # rs) = length (r # R1) \<and> (q, d) \<in> set (chunks (base t) cs)" by simp
    then show ?thesis by blast
  qed
qed simp

lemma chunk_pointer:
  assumes "region_ok m r bs" "bs = xs @ (z, st) # ys" "st \<noteq> Free" "q = base r + total xs + head st"
  shows "ptr2blk (of_nat q) (ptr_is_traced (of_nat q) m) = of_nat (base r + total xs)" "mem_blk_is_used (of_nat (base r + total xs)) m"
    "ptr_size (of_nat q) m = of_nat (z - head st)"
proof -
  note D = region_okD [OF assms(1)]
  define a where "a = base r + total xs"
  define lb where "lb = last_block 0 (base r) xs"
  have c: "header m lb a (z, st)" "placed a ((z, st) # ys)" "placed (base r) xs"
    using D(1,2) placed_append [of "base r" xs "(z, st) # ys"] by (auto simp: assms(2) chain_append chain_Cons a_def lb_def placed_def)
  have lb: "lb < 2 ^ 31" unfolding lb_def by (rule last_block_less [OF c(3)]) simp
  note rd = block_reads [OF c(1,2) lb] and pl = placed_blockD [OF c(2)]
  show "mem_blk_is_used (of_nat (base r + total xs)) m" using rd(3) assms(3) by (simp add: a_def)
  have w: "rd32 m (of_nat (a + 4)) AND MEM_BLK_TRACE = (if st = Traced then MEM_BLK_TRACE else 0)"
    using c(1) mask_word(2) [of "a + z" st] pl(6) by (simp add: header_def wd_def)
  have tr: "ptr_is_traced (of_nat q) m \<longleftrightarrow> st = Traced"
  proof (cases "st = Traced")
    case True
    then have "wd m (a + 12) AND MEM_BLK_TRACE \<noteq> 0" using c(1) by (simp add: header_def)
    then show ?thesis using True by (simp add: ptr_is_traced_def assms(4) a_def wd_def add.commute)
  next
    case False
    then have "head st = 8" by (cases st) auto
    then show ?thesis using False w by (simp add: ptr_is_traced_def assms(4) a_def add.commute)
  qed
  have hs: "mem_blk_head_size (st = Traced) = of_nat (head st)" by (cases st) (simp_all add: mem_blk_head_size_def MEM_HEAD_SIZE_def MEM2_HEAD_SIZE_def)
  show blk: "ptr2blk (of_nat q) (ptr_is_traced (of_nat q) m) = of_nat (base r + total xs)"
    unfolding tr ptr2blk_def hs by (simp add: assms(4))
  show "ptr_size (of_nat q) m = of_nat (z - head st)"
    unfolding ptr_size_def Let_def blk unfolding tr hs using rd(4) pl(3) by (simp add: a_def of_nat_diff)
qed

text \<open>The chunks on either side of a block that is released.\<close>

lemma chunks_before:
  assumes "(q, c) \<in> set (chunks s xs)" "\<forall>b \<in> set xs. block_ok b"
  shows "q + c \<le> release_low s xs"
proof (cases "xs \<noteq> [] \<and> snd (last xs) = Free")
  case True
  then obtain us x where xs: "xs = us @ [(x, Free)]" by (cases xs rule: rev_cases) auto
  then have "(q, c) \<in> set (chunks s us)" using assms(1) by (simp add: heap_chunks_append)
  then have "q + c \<le> s + total us" using chunks_bounds [of q c s us] assms(2) by (simp add: xs)
  then show ?thesis by (simp add: release_low_def xs)
next
  case False
  then show ?thesis using chunks_bounds [OF assms] by (auto simp: release_low_def)
qed

lemma chunks_behind:
  assumes "(q, c) \<in> set (chunks (a + z) ys)" "\<forall>b \<in> set ys. block_ok b" "8 \<le> z" "4 dvd z"
  shows "a + fst (hd (absorb z ys)) + 4 \<le> q"
proof -
  obtain w ts where w: "absorb z ys = (w, Free) # ts" using absorb_facts(3,4) [where z = z and ys = ys] by (cases "absorb z ys") auto
  have "(q, c) \<in> set (chunks a (absorb z ys))" using assms(1) absorb_facts(6) [where z = z and ys = ys] by simp
  then have "(q, c) \<in> set (chunks (a + w) ts)" by (simp add: w)
  moreover have "\<forall>b \<in> set ts. block_ok b" using absorb_facts(7) [where z = z and ys = ys] assms(2-4) by (simp add: w)
  ultimately show ?thesis using chunks_bounds [of q c "a + w" ts] by (simp add: w)
qed

lemma heap_free_ok:
  assumes "regions_ok (mem H) (g_heap_region H) bss" "(q, d) \<in> set (all_chunks (g_heap_region H) bss)"
  shows "\<exists>H' bss'. heap_caps_free (of_nat q) H = Some H' \<and> regions_ok (mem H') (g_heap_region H') bss' \<and> shape (g_heap_region H') = shape (g_heap_region H) \<and>
    added (all_chunks (g_heap_region H') bss') q d (all_chunks (g_heap_region H) bss) \<and> keeps (all_chunks (g_heap_region H') bss') (mem H) (mem H') \<and>
    s_heap_trace_mode H' = s_heap_trace_mode H"
proof -
  define m where "m = mem H"
  have ok: "list_all2 (region_ok m) (g_heap_region H) bss" "sorted_wrt apart (g_heap_region H)" using assms(1) by (simp_all add: regions_ok_def m_def)
  obtain R1 r R2 B1 bs B2 where f: "g_heap_region H = R1 @ r # R2" "bss = B1 @ bs # B2" "length R1 = length B1" "get_blk_region (of_nat q) (g_heap_region H) = length R1"
    "(q, d) \<in> set (chunks (base r) bs)" using find_region [OF ok assms(2)] by blast
  have r: "region_ok m r bs" "list_all2 (region_ok m) (R1 @ R2) (B1 @ B2)" using ok(1) f(1-3) by (auto simp: list_all2_append)
  have far: "\<forall>s \<in> set (R1 @ R2). apart r s" "sorted_wrt apart (R1 @ R2)" using ok(2) apart_sym by (auto simp: f(1) sorted_wrt_append)
  obtain xs z st ys where b: "bs = xs @ (z, st) # ys" "st \<noteq> Free" "q = base r + total xs + head st" "d = z - head st" by (rule chunk_block [OF f(5)])
  define a where "a = base r + total xs"
  note D = region_okD [OF r(1)] and P = chunk_pointer [OF r(1) b(1-3)]
  define r' where "r' = r\<lparr>free_bytes := free_bytes r + blk_link_size (of_nat a) m, free_blk := (if of_nat a < free_blk r then of_nat a else free_blk r)\<rparr>"
  obtain m' where m': "merge_blocks (of_nat a) (mem_blk_set_untraced (of_nat a) (mem_blk_set_unused (of_nat a) m)) = Some m'" "region_ok m' r' (merged xs z ys)"
    "same_outside (release_low (base r) xs) (a + fst (hd (absorb z ys)) + 4) m m'"
    using release_ok [OF r(1) b(1,2)] unfolding r'_def a_def by blast
  have q0: "(of_nat q :: u32) \<noteq> 0" by (rule addr_not_null) (use chunk_in_region [OF r(1) f(5)] in auto)
  define H' where "H' = H\<lparr>mem := m', g_heap_region := R1 @ r' # R2\<rparr>"
  have run: "heap_caps_free (of_nat q) H = Some H'"
    using q0 P(1,2) m'(1) f(4) unfolding heap_caps_free_def
    by (simp add: m_def [symmetric] a_def [symmetric] f(1) nth_append list_update_append H'_def r'_def Let_def del: of_nat_add)
  have co: "coalesced xs" "coalesced ys" using D(6) by (auto simp: b(1) coalesced_append coalesced_Cons)
  note M = merged_facts [OF co, where z = z]
  have base: "base r' = base r" by (simp add: r'_def region_start_def)
  have hi: "a + fst (hd (absorb z ys)) \<le> base r + total bs"
    using total_ge [of "hd (absorb z ys)" "absorb z ys"] absorb_facts(1,3) [where z = z and ys = ys] by (simp add: a_def b(1))
  have low: "unat (start_addr r) \<le> release_low (base r) xs" using D(3) by (simp add: release_low_def)
  have top: "a + fst (hd (absorb z ys)) + 4 \<le> unat (start_addr r) + unat (total_size r)" using hi D(4) by simp
  note out = regions_outside [OF r(2) m'(3) far(1) low top]
  have new: "chunks (base r) (merged xs z ys) = chunks (base r) xs @ chunks (a + z) ys" by (simp add: M(4) a_def)
  have keep: "keeps (chunks (base r) (merged xs z ys)) m m'"
  proof (rule keeps_outside [OF m'(3)])
    fix q1 c1 assume i: "(q1, c1) \<in> set (chunks (base r) (merged xs z ys))"
    have blocks: "\<forall>b \<in> set xs. block_ok b" "\<forall>b \<in> set ys. block_ok b" using D(1) by (auto simp: b(1) placed_def)
    note pl = placed_blockD(5,4) [OF placed_append [OF D(1) [unfolded b(1)]]]
    have "q1 + c1 \<le> release_low (base r) xs" if "(q1, c1) \<in> set (chunks (base r) xs)" by (rule chunks_before [OF that blocks(1)])
    moreover have "a + fst (hd (absorb z ys)) + 4 \<le> q1" if "(q1, c1) \<in> set (chunks (a + z) ys)" by (rule chunks_behind [OF that blocks(2) pl])
    ultimately show "(q1 + c1 \<le> release_low (base r) xs \<or> a + fst (hd (absorb z ys)) + 4 \<le> q1) \<and> q1 + c1 < 2 ^ 32"
      using i new chunk_in_region(3) [OF m'(2), of q1 c1] base by auto
  qed
  define bss' where "bss' = B1 @ merged xs z ys # B2"
  have "added (chunks (base r) (merged xs z ys)) q d (chunks (base r) bs)" unfolding added_def new using b by (auto simp: heap_chunks_append a_def)
  then have add: "added (all_chunks (g_heap_region H') bss') q d (all_chunks (g_heap_region H) bss)"
    using base f(1-3) by (simp add: H'_def bss'_def all_chunks_append added_left added_right)
  have "list_all2 (region_ok m') (R1 @ r' # R2) bss'" using out(1) m'(2) f(3) by (auto simp: bss'_def list_all2_append)
  moreover have sh: "shape (g_heap_region H') = shape (g_heap_region H)" by (simp add: H'_def f(1) shape_def r'_def)
  ultimately have "regions_ok (mem H') (g_heap_region H') bss'" using ok(2) apart_shape(2) [OF sh] by (simp add: regions_ok_def H'_def)
  moreover have "keeps (all_chunks (g_heap_region H') bss') m m'"
    using out(2) keep base f(3) by (simp add: H'_def bss'_def all_chunks_append keeps_append)
  ultimately show ?thesis using run add sh by (intro exI [of _ H'] exI [of _ bss']) (simp add: H'_def m_def)
qed

end
