(* ===== verification/Heap_Runs.thy ===== *)
theory Heap_Runs
  imports Heap_Theorems
begin

unbundle bit_operations_syntax

text \<open>
  The heap as its clients see it: from the start of the system on, a map from pointers to
  buffers that any sequence of calls changes as the specification says.
\<close>

section \<open>The start\<close>

text \<open>Regions that \<open>esp_heap_caps_init_region\<close> can set up.\<close>

definition usable :: "heap_region \<Rightarrow> bool" where
  "usable r \<longleftrightarrow> 0 < unat (start_addr r) \<and> 24 \<le> unat (total_size r) \<and> unat (start_addr r) + unat (total_size r) < 2 ^ 31"

lemma region_bounds:
  assumes "usable r"
  shows "base r = 4 * ((unat (start_addr r) + 3) div 4)" "unat (region_end r) = 4 * ((unat (start_addr r) + unat (total_size r)) div 4) - 8"
proof -
  define s e where "s = unat (start_addr r)" and "e = unat (start_addr r) + unat (total_size r)"
  have u: "start_addr r = of_nat s" "start_addr r + total_size r = of_nat e" "24 \<le> e" "s + 24 \<le> e" "e < 2 ^ 31"
    using assms by (simp_all add: usable_def s_def e_def)
  have "region_start r = of_nat (4 * ((s + 3) div 4))" unfolding region_start_def u(1) using u(4,5) by (intro align) simp
  moreover have lt: "4 * ((s + 3) div 4) < 2 ^ 32" "4 * ((e + 3) div 4) < 2 ^ 32" "4 * (e div 4) < 2 ^ 32" using u(4,5) by auto
  ultimately show "base r = 4 * ((unat (start_addr r) + 3) div 4)" unfolding s_def [symmetric] by (simp only: unat_addr)
  have al: "HEAP_ALIGN (of_nat e) = of_nat (4 * ((e + 3) div 4))" using u(5) by (intro align) simp
  have "(let a = HEAP_ALIGN (of_nat e) in if a \<noteq> of_nat e then a - 4 else a) = of_nat (4 * (e div 4))"
  proof (cases "4 dvd e")
    case True
    then have "4 * ((e + 3) div 4) = e" "4 * (e div 4) = e" by presburger+
    then show ?thesis by (simp add: al)
  next
    case False
    then have up: "4 * ((e + 3) div 4) \<noteq> e" "4 * ((e + 3) div 4) = 4 * (e div 4) + 4" by presburger+
    then have "(of_nat (4 * (e div 4) + 4) :: u32) \<noteq> of_nat e" using u(5) lt(2) addr_eq_iff [of "4 * (e div 4) + 4" e] by simp
    then show ?thesis by (simp add: al up(2) Let_def)
  qed
  then have "region_end r = of_nat (4 * (e div 4)) - of_nat 8" by (simp add: region_end_def u(2) MEM_HEAD_SIZE_def Let_def)
  also have "\<dots> = of_nat (4 * (e div 4) - 8)" by (rule of_nat_diff [symmetric]) (use u(3) in presburger)
  finally show "unat (region_end r) = 4 * ((unat (start_addr r) + unat (total_size r)) div 4) - 8"
    unfolding e_def [symmetric] by (simp only:) (rule unat_addr, use lt(3) in simp)
qed

text \<open>The room of a region: the whole is one block.\<close>

definition room :: "heap_region \<Rightarrow> nat" where
  "room r = unat (region_end r) - base r"

definition init_memory :: "heap_region \<Rightarrow> memory \<Rightarrow> memory" where
  "init_memory r m = wr32 (region_end r + 4) 0 (wr32 (region_end r) (region_start r) (wr32 (region_start r + 4) (region_end r) (wr32 (region_start r) 0 m)))"

lemma room_facts:
  assumes "usable r"
  shows "base r + room r = unat (region_end r)" "4 dvd base r" "4 dvd room r" "8 \<le> room r" "unat (start_addr r) \<le> base r" "0 < base r"
    "base r + room r + 8 \<le> unat (start_addr r) + unat (total_size r)" "base r + room r + 8 < 2 ^ 31" "unat (total_size r) \<le> room r + 14"
proof -
  define s e where "s = unat (start_addr r)" and "e = unat (start_addr r) + unat (total_size r)"
  have u: "0 < s" "s + 24 \<le> e" "e < 2 ^ 31" "e = s + unat (total_size r)" using assms by (simp_all add: usable_def s_def e_def)
  define a b where "a = (s + 3) div 4" and "b = e div 4"
  have ab: "base r = 4 * a" "unat (region_end r) = 4 * b - 8" using region_bounds [OF assms] by (simp_all add: a_def b_def s_def e_def)
  have "s + 3 = 4 * a + (s + 3) mod 4" "e = 4 * b + e mod 4" "(s + 3) mod 4 < 4" "e mod 4 < 4" by (simp_all add: a_def b_def)
  then have d: "4 * a \<le> s + 3" "s \<le> 4 * a" "4 * b \<le> e" "e \<le> 4 * b + 3" by linarith+
  have room: "room r = 4 * (b - 2 - a)" unfolding room_def ab by (simp add: diff_mult_distrib2 diff_diff_left)
  have le: "a + 4 \<le> b" using d u by linarith
  show "4 dvd base r" "4 dvd room r" by (simp_all add: ab room)
  show "base r + room r = unat (region_end r)" "8 \<le> room r" using le by (simp_all add: ab room diff_mult_distrib2)
  show "unat (start_addr r) \<le> base r" "0 < base r" using d u by (simp_all add: ab s_def [symmetric])
  have t: "base r + room r = 4 * b - 8" "8 \<le> 4 * b" using le by (simp_all add: ab room diff_mult_distrib2)
  show "base r + room r + 8 \<le> unat (start_addr r) + unat (total_size r)" unfolding t(1) e_def [symmetric] using t(2) d by linarith
  show "base r + room r + 8 < 2 ^ 31" unfolding t(1) using t(2) d u by linarith
  have "room r = 4 * b - 8 - 4 * a" using t(1) by (simp add: ab)
  then show "unat (total_size r) \<le> room r + 14" using d u le by linarith
qed

lemma init_memory_ok:
  assumes "usable r"
  shows "same_outside (unat (start_addr r)) (unat (start_addr r) + unat (total_size r)) m (init_memory r m)"
    "chain (init_memory r m) 0 (base r) [(room r, Free)]"
proof -
  note F = room_facts [OF assms]
  define a z where "a = base r" and "z = room r"
  have w: "region_start r = of_nat a" "region_end r = of_nat (a + z)" using F(1) by (simp_all add: a_def z_def)
  have al: "aligned a" "aligned (a + 4)" "aligned (a + z)" "aligned (a + z + 4)" using F(2,3,8) unfolding aligned_def a_def z_def by (auto intro: dvd_add)
  have eq: "init_memory r m = wr32 (of_nat (a + z + 4)) 0 (wr32 (of_nat (a + z)) (of_nat a) (wr32 (of_nat (a + 4)) (of_nat (a + z)) (wr32 (of_nat a) 0 m)))"
    by (simp add: init_memory_def w)
  show "same_outside (unat (start_addr r)) (unat (start_addr r) + unat (total_size r)) m (init_memory r m)"
    unfolding eq by (intro same_outside_wr32 same_outside_refl) (use F in \<open>simp_all add: a_def z_def\<close>)
  have "8 \<le> z" using F(4) by (simp add: z_def)
  then show "chain (init_memory r m) 0 (base r) [(room r, Free)]" unfolding a_def [symmetric] z_def [symmetric]
    unfolding eq using al by (simp add: chain_Cons chain_Nil header_def end_block_def prev_word_def next_word_def wd_update del: of_nat_add)
qed

lemma init_region_ok:
  assumes "usable r" "m = init_memory r m0" "r' = r\<lparr>free_blk := region_start r, free_bytes := blk_link_size (region_start r) m, min_free_bytes := n\<rparr>"
  shows "region_ok m r' [(room r, Free)]"
proof -
  note F = room_facts [OF assms(1)]
  have ch: "chain m 0 (base r) [(room r, Free)]" using init_memory_ok(2) [OF assms(1)] assms(2) by simp
  have pl: "placed (base r) [(room r, Free)]" using F by (simp add: placed_def block_ok_def)
  have st: "region_start r' = region_start r" "region_end r' = region_end r" by (simp_all add: assms(3) region_start_def region_end_def)
  have "blk_link_size (of_nat (base r)) m = of_nat (room r)" using block_reads(4) [of m 0 "base r" "room r" Free "[]"] ch pl by (simp add: chain_Cons)
  then have "free_bytes r' = of_nat (room r)" by (simp add: assms(3))
  moreover have "\<exists>xs ys. [(room r, Free)] = xs @ ys \<and> all_used xs \<and> free_blk r' = of_nat (base r + total xs)"
    by (rule exI [of _ "[]"]) (simp add: assms(3))
  moreover have "unat (start_addr r') + unat (total_size r') < 2 ^ 32" using assms(1) by (simp add: assms(3) usable_def)
  ultimately show ?thesis unfolding region_ok_def st using pl ch F by (simp add: assms(3) coalesced_def)
qed

lemma init_regions_ok:
  assumes "\<forall>r \<in> set rs. usable r" "sorted_wrt apart rs" "init_regions rs m = (rs', m')"
  shows "shape rs' = shape rs \<and> regions_ok m' rs' (map (\<lambda>r. [(room r, Free)]) rs) \<and>
    (\<forall>s bs. region_ok m s bs \<and> (\<forall>r \<in> set rs. apart s r) \<longrightarrow> region_ok m' s bs)"
  using assms
proof (induction rs arbitrary: m rs' m')
  case Nil
  then show ?case by (simp add: regions_ok_def shape_def)
next
  case (Cons r rs)
  define m1 where "m1 = init_memory r m"
  define r1 where "r1 = r\<lparr>free_blk := region_start r, free_bytes := blk_link_size (region_start r) m1, min_free_bytes := blk_link_size (region_start r) m1\<rparr>"
  obtain rs2 where i: "init_regions rs m1 = (rs2, m')" "rs' = r1 # rs2"
    using Cons.prems(3) by (auto simp: Let_def init_memory_def [symmetric] m1_def [symmetric] r1_def split: prod.splits)
  have IH: "shape rs2 = shape rs" "regions_ok m' rs2 (map (\<lambda>r. [(room r, Free)]) rs)"
    "region_ok m1 s bs \<Longrightarrow> \<forall>r \<in> set rs. apart s r \<Longrightarrow> region_ok m' s bs" for s bs
    using Cons.IH [OF _ _ i(1)] Cons.prems(1,2) by auto
  have us: "usable r" using Cons.prems(1) by simp
  have ap: "apart r1 = apart r" by (auto simp: r1_def apart_def)
  have "region_ok m1 r1 [(room r, Free)]" using us m1_def r1_def by (rule init_region_ok)
  then have "region_ok m' r1 [(room r, Free)]" using IH(3) Cons.prems(2) ap by simp
  then have "regions_ok m' rs' (map (\<lambda>r. [(room r, Free)]) (r # rs))"
    using IH(1,2) Cons.prems(2) ap apart_shape(1) [OF IH(1)] by (simp add: regions_ok_def i(2))
  moreover have "shape rs' = shape (r # rs)" using IH(1) by (simp add: i(2) shape_def r1_def)
  moreover have "region_ok m' s bs" if "region_ok m s bs" "\<forall>t \<in> set (r # rs). apart s t" for s bs
  proof (rule IH(3))
    show "region_ok m1 s bs" unfolding m1_def
      by (rule region_outside [OF that(1) init_memory_ok(1) [OF us]]) (use that(2) in \<open>auto simp: apart_def\<close>)
  qed (use that(2) in simp)
  ultimately show ?case by blast
qed

section \<open>Writing to a chunk\<close>

lemma chain_write:
  assumes "chain m 0 s (xs @ (z, st) # ys)" "placed s (xs @ (z, st) # ys)" "same_outside (s + total xs + head st) (s + total xs + z) m m'"
  shows "chain m' 0 s (xs @ (z, st) # ys)"
proof -
  define a where "a = s + total xs"
  have pl: "placed a ((z, st) # ys)" "placed s xs" "placed (a + z) ys"
    using placed_append [OF assms(2)] placed_Cons [of a "(z, st)" ys] assms(2) by (auto simp: a_def placed_def)
  note b = placed_blockD [OF pl(1)]
  have out: "same_outside (a + head st) (a + z) m m'" using assms(3) by (simp add: a_def)
  have "links m' 0 s xs = links m 0 s xs" by (rule links_outside [OF out pl(2)]) (simp add: a_def)
  moreover have "chain m' p (a + z) ys = chain m p (a + z) ys" for p by (rule chain_outside [OF out pl(3)]) simp
  moreover have "wd m' a = wd m a" "wd m' (a + 4) = wd m (a + 4)" "st = Traced \<longrightarrow> wd m' (a + 12) = wd m (a + 12)"
    using b(6) head_bounds [of st] by (auto intro!: same_outside_wd [OF out])
  ultimately show ?thesis using assms(1) by (simp add: chain_append chain_Cons a_def [symmetric] header_def)
qed

lemma region_write:
  assumes "region_ok m r bs" "(q, d) \<in> set (chunks (base r) bs)" "same_outside q (q + d) m m'"
  shows "region_ok m' r bs"
proof -
  obtain xs z st ys where b: "bs = xs @ (z, st) # ys" "st \<noteq> Free" "q = base r + total xs + head st" "d = z - head st" by (rule chunk_block [OF assms(2)])
  note D = region_okD [OF assms(1)]
  have "head st \<le> z" using placed_blockD(3) [OF placed_append [OF D(1) [unfolded b(1)]]] .
  then have "chain m' 0 (base r) bs" using chain_write [of m "base r" xs z st ys m'] D(1,2) assms(3) b by (simp add: add.assoc)
  then show ?thesis using assms(1) by (simp add: region_ok_def)
qed

lemma regions_write:
  assumes "regions_ok m rs bss" "(q, d) \<in> set (all_chunks rs bss)" "same_outside q (q + d) m m'"
  shows "regions_ok m' rs bss"
proof -
  have ok: "list_all2 (region_ok m) rs bss" "sorted_wrt apart rs" using assms(1) by (simp_all add: regions_ok_def)
  obtain R1 r R2 B1 bs B2 where f: "rs = R1 @ r # R2" "bss = B1 @ bs # B2" "length R1 = length B1" "(q, d) \<in> set (chunks (base r) bs)"
    using find_region [OF ok assms(2)] by blast
  have r: "region_ok m r bs" "list_all2 (region_ok m) (R1 @ R2) (B1 @ B2)" using ok(1) f(1-3) by (auto simp: list_all2_append)
  have far: "\<forall>s \<in> set (R1 @ R2). apart r s" using ok(2) apart_sym by (auto simp: f(1) sorted_wrt_append)
  have "list_all2 (region_ok m') (R1 @ R2) (B1 @ B2)"
    using regions_outside(1) [OF r(2) assms(3) far] chunk_in_region [OF r(1) f(4)] by simp
  then have "list_all2 (region_ok m') rs bss" using region_write [OF r(1) f(4) assms(3)] f(1-3) by (auto simp: list_all2_append)
  then show ?thesis using ok(2) by (simp add: regions_ok_def)
qed

section \<open>Buffers\<close>

type_synonym buffers = "u32 \<rightharpoonup> u8 list"

definition bytes :: "memory \<Rightarrow> u32 \<Rightarrow> nat \<Rightarrow> u8 list" where
  "bytes m p n = map (\<lambda>i. m (p + of_nat i)) [0..<n]"

definition stored :: "memory \<Rightarrow> buffers \<Rightarrow> (nat \<times> nat) list \<Rightarrow> bool" where
  "stored m L C \<longleftrightarrow> (\<forall>p \<in> dom L. \<exists>q d. (q, d) \<in> set C \<and> p = of_nat q) \<and>
     (\<forall>q d. (q, d) \<in> set C \<longrightarrow> (\<exists>xs. L (of_nat q) = Some xs \<and> length xs \<le> d \<and> bytes m (of_nat q) (length xs) = xs))"

definition separate :: "(nat \<times> nat) list \<Rightarrow> bool" where
  "separate C \<longleftrightarrow> sorted_wrt (\<lambda>(p, c) (q, d). p + c + 8 \<le> q \<or> q + d + 8 \<le> p) C \<and> (\<forall>(q, d) \<in> set C. 0 < q \<and> q + d < 2 ^ 31)"

lemma length_bytes [simp]: "length (bytes m p n) = n"
  by (simp add: bytes_def)

lemma nth_bytes [simp]: "i < n \<Longrightarrow> bytes m p n ! i = m (p + of_nat i)"
  by (simp add: bytes_def)

lemma bytes_keep: "keeps C m m' \<Longrightarrow> (q, d) \<in> set C \<Longrightarrow> n \<le> d \<Longrightarrow> bytes m' (of_nat q) n = bytes m (of_nat q) n"
  by (rule nth_equalityI) (force simp: keeps_def)+

lemma regions_separate: "regions_ok m rs bss \<Longrightarrow> separate (all_chunks rs bss)"
  using all_chunks_apart [of m rs bss] chunk_in_regions [of m rs bss] unfolding separate_def regions_ok_def by fastforce

lemma separateD:
  assumes "separate C" "(p, c) \<in> set C" "(q, d) \<in> set C" "(p, c) \<noteq> (q, d)"
  shows "p + c + 8 \<le> q \<or> q + d + 8 \<le> p"
proof -
  obtain i j where ij: "i < length C" "j < length C" "C ! i = (p, c)" "C ! j = (q, d)" using assms(2,3) by (metis in_set_conv_nth)
  then have "i \<noteq> j" using assms(4) by auto
  then show ?thesis using assms(1) ij unfolding separate_def sorted_wrt_iff_nth_less by (metis (no_types, lifting) linorder_neqE_nat prod.case)
qed

lemma separate_eq: "separate C \<Longrightarrow> (p, c) \<in> set C \<Longrightarrow> (q, d) \<in> set C \<Longrightarrow> (of_nat p :: u32) = of_nat q \<longleftrightarrow> (p, c) = (q, d)"
  using separateD [of C p c q d] addr_eq_iff [of p q] by (fastforce simp: separate_def)

lemma separate_added:
  assumes "separate C'" "added C q d C'"
  shows "separate C" "set C' = insert (q, d) (set C)" "(q, d) \<notin> set C"
  using assms by (fastforce simp: separate_def added_def sorted_wrt_append)+

lemma stored_keeps:
  assumes "stored m L C" "keeps C m m'"
  shows "stored m' L C"
proof -
  have "\<exists>xs. L (of_nat q) = Some xs \<and> length xs \<le> d \<and> bytes m' (of_nat q) (length xs) = xs" if i: "(q, d) \<in> set C" for q d
  proof -
    obtain xs where "L (of_nat q) = Some xs" "length xs \<le> d" "bytes m (of_nat q) (length xs) = xs" using assms(1) i unfolding stored_def by blast
    then show ?thesis using bytes_keep [OF assms(2) i] by simp
  qed
  then show ?thesis using assms(1) unfolding stored_def by blast
qed

lemma stored_domD:
  assumes "stored m L C" "L p = Some xs"
  obtains q d where "(q, d) \<in> set C" "p = of_nat q" "length xs \<le> d" "bytes m p (length xs) = xs"
proof -
  obtain q d where q: "(q, d) \<in> set C" "p = of_nat q" using assms unfolding stored_def by (metis domI)
  moreover obtain ys where "L (of_nat q) = Some ys" "length ys \<le> d" "bytes m (of_nat q) (length ys) = ys" using assms(1) q(1) unfolding stored_def by blast
  ultimately show thesis using that assms(2) by simp
qed

lemma added_fresh:
  assumes "separate C'" "added C q d C'" "(p, c) \<in> set C"
  shows "(of_nat p :: u32) \<noteq> of_nat q"
  using separate_eq [OF assms(1), of p c q d] assms(3) separate_added [OF assms(1,2)] by auto

lemma stored_fresh:
  assumes "stored m L C" "separate C'" "added C q d C'"
  shows "L (of_nat q) = None"
proof (rule ccontr)
  assume "L (of_nat q) \<noteq> None"
  then obtain xs where "L (of_nat q) = Some xs" by blast
  then obtain p c where "(p, c) \<in> set C" "(of_nat q :: u32) = of_nat p" by (rule stored_domD [OF assms(1)])
  then show False using added_fresh [OF assms(2,3)] by metis
qed

lemma stored_added:
  assumes "stored m L C" "separate C'" "added C q d C'" "keeps C m m'" "n \<le> d"
  shows "stored m' (L(of_nat q \<mapsto> bytes m' (of_nat q) n)) C'"
proof -
  note S = separate_added [OF assms(2,3)] and new = added_fresh [OF assms(2,3)]
  have st: "stored m' L C" by (rule stored_keeps [OF assms(1,4)])
  show ?thesis unfolding stored_def
  proof (intro conjI ballI allI impI)
    fix p assume "p \<in> dom (L(of_nat q \<mapsto> bytes m' (of_nat q) n))"
    then show "\<exists>q d. (q, d) \<in> set C' \<and> p = of_nat q" using st unfolding stored_def S(2) by (cases "p = of_nat q") (auto, blast)
  next
    fix p c assume "(p, c) \<in> set C'"
    then consider "p = q" "c = d" | "(p, c) \<in> set C" using S(2) by auto
    then show "\<exists>xs. (L(of_nat q \<mapsto> bytes m' (of_nat q) n)) (of_nat p) = Some xs \<and> length xs \<le> c \<and> bytes m' (of_nat p) (length xs) = xs"
      using st assms(5) new [of p c] by cases (auto simp: stored_def)
  qed
qed

lemma stored_removed:
  assumes "stored m L C'" "separate C'" "added C q d C'" "keeps C m m'"
  shows "stored m' (L(of_nat q := None)) C"
proof -
  note S = separate_added [OF assms(2,3)] and new = added_fresh [OF assms(2,3)]
  show ?thesis unfolding stored_def
  proof (intro conjI ballI allI impI)
    fix p assume "p \<in> dom (L(of_nat q := None))"
    then obtain xs where p: "L p = Some xs" "p \<noteq> of_nat q" by (auto split: if_splits)
    then obtain a c where "(a, c) \<in> set C'" "p = of_nat a" using stored_domD [OF assms(1)] by metis
    then show "\<exists>q d. (q, d) \<in> set C \<and> p = of_nat q" using p(2) S(2) by auto
  next
    fix p c assume i: "(p, c) \<in> set C"
    then obtain xs where "L (of_nat p) = Some xs" "length xs \<le> c" "bytes m (of_nat p) (length xs) = xs" using assms(1) unfolding stored_def S(2) by blast
    then show "\<exists>xs. (L(of_nat q := None)) (of_nat p) = Some xs \<and> length xs \<le> c \<and> bytes m' (of_nat p) (length xs) = xs"
      using new [OF i] bytes_keep [OF assms(4) i] by simp
  qed
qed

text \<open>A change inside one chunk.\<close>

lemma stored_write:
  assumes "stored m L C" "separate C" "(q, d) \<in> set C" "same_outside q (q + d) m m'" "L (of_nat q) = Some xs"
  shows "stored m' (L(of_nat q \<mapsto> bytes m' (of_nat q) (length xs))) C"
proof -
  have len: "length xs \<le> d" using assms(1,3,5) unfolding stored_def by fastforce
  show ?thesis unfolding stored_def
  proof (intro conjI ballI allI impI)
    fix p assume "p \<in> dom (L(of_nat q \<mapsto> bytes m' (of_nat q) (length xs)))"
    then show "\<exists>q d. (q, d) \<in> set C \<and> p = of_nat q" using assms(1,3) unfolding stored_def by (cases "p = of_nat q") auto
  next
    fix p c assume i: "(p, c) \<in> set C"
    show "\<exists>ys. (L(of_nat q \<mapsto> bytes m' (of_nat q) (length xs))) (of_nat p) = Some ys \<and> length ys \<le> c \<and> bytes m' (of_nat p) (length ys) = ys"
    proof (cases "(p, c) = (q, d)")
      case False
      then have ne: "(of_nat p :: u32) \<noteq> of_nat q" using separate_eq [OF assms(2) i assms(3)] by simp
      obtain ys where "L (of_nat p) = Some ys" "length ys \<le> c" "bytes m (of_nat p) (length ys) = ys" using assms(1) i unfolding stored_def by blast
      moreover have "keeps [(p, c)] m m'"
        by (rule keeps_outside [OF assms(4)]) (use separateD [OF assms(2) i assms(3) False] i assms(2) in \<open>auto simp: separate_def\<close>)
      ultimately show ?thesis using ne bytes_keep [of "[(p, c)]" m m' p c] by simp
    qed (use len in simp)
  qed
qed

section \<open>Specification\<close>

text \<open>The calls of a client, and its writes to a buffer.\<close>

datatype heap_op =
    Malloc u32 u32 u32 u32
  | Calloc u32 u32 u32 u32 u32
  | Zalloc u32 u32 u32 u32
  | Realloc u32 u32 u32 u32 u32
  | Release u32
  | Store u32 nat u8
  | Trace_start heap_trace_mode_t
  | Trace_stop
  | Trace_resume

fun heap_do :: "heap_op \<Rightarrow> heaps \<Rightarrow> (u32 \<times> heaps) option" where
  "heap_do (Malloc n c fn ln) H = heap_caps_malloc n c fn ln H"
| "heap_do (Calloc k n c fn ln) H = heap_caps_calloc k n c fn ln H"
| "heap_do (Zalloc n c fn ln) H = heap_caps_zalloc n c fn ln H"
| "heap_do (Realloc old n c fn ln) H = heap_caps_realloc old n c fn ln H"
| "heap_do (Release p) H = map_option (Pair 0) (heap_caps_free p H)"
| "heap_do (Store p i v) H = Some (0, H\<lparr>mem := (mem H)(p + of_nat i := v)\<rparr>)"
| "heap_do (Trace_start mode) H = Some (0, heap_trace_start mode H)"
| "heap_do Trace_stop H = Some (0, heap_trace_stop H)"
| "heap_do Trace_resume H = Some (0, heap_trace_resume H)"

text \<open>
  The client keeps to the rules: sizes do not wrap around, only pointers that are in use are
  passed back, and no byte outside a buffer is written.
\<close>

fun allowed :: "buffers \<Rightarrow> heap_op \<Rightarrow> bool" where
  "allowed L (Malloc n c fn ln) \<longleftrightarrow> unat n + 19 < 2 ^ 32"
| "allowed L (Calloc k n c fn ln) \<longleftrightarrow> unat k * unat n + 19 < 2 ^ 32"
| "allowed L (Zalloc n c fn ln) \<longleftrightarrow> unat n + 19 < 2 ^ 32"
| "allowed L (Realloc old n c fn ln) \<longleftrightarrow> unat n + 19 < 2 ^ 32 \<and> (old = 0 \<or> L old \<noteq> None)"
| "allowed L (Release p) \<longleftrightarrow> p = 0 \<or> L p \<noteq> None"
| "allowed L (Store p i v) \<longleftrightarrow> (case L p of None \<Rightarrow> False | Some xs \<Rightarrow> i < length xs)"
| "allowed L _ \<longleftrightarrow> True"

text \<open>What a call may do to the buffers; the second argument is what it returns.\<close>

fun is_request :: "heap_op \<Rightarrow> bool" where
  "is_request (Malloc n c fn ln) \<longleftrightarrow> True"
| "is_request (Calloc k n c fn ln) \<longleftrightarrow> True"
| "is_request (Zalloc n c fn ln) \<longleftrightarrow> True"
| "is_request (Realloc old n c fn ln) \<longleftrightarrow> True"
| "is_request _ \<longleftrightarrow> False"

inductive heap_spec :: "heap_op \<Rightarrow> u32 \<Rightarrow> buffers \<Rightarrow> buffers \<Rightarrow> bool" where
  refused: "is_request op \<Longrightarrow> heap_spec op 0 L L"
| malloc: "p \<noteq> 0 \<Longrightarrow> L p = None \<Longrightarrow> length xs = unat n \<Longrightarrow> heap_spec (Malloc n c fn ln) p L (L(p \<mapsto> xs))"
| calloc: "p \<noteq> 0 \<Longrightarrow> L p = None \<Longrightarrow> heap_spec (Calloc k n c fn ln) p L (L(p \<mapsto> replicate (unat k * unat n) 0))"
| zalloc: "p \<noteq> 0 \<Longrightarrow> L p = None \<Longrightarrow> heap_spec (Zalloc n c fn ln) p L (L(p \<mapsto> replicate (unat n) 0))"
| realloc_null: "p \<noteq> 0 \<Longrightarrow> L p = None \<Longrightarrow> length xs = unat n \<Longrightarrow> heap_spec (Realloc 0 n c fn ln) p L (L(p \<mapsto> xs))"
| realloc: "p \<noteq> 0 \<Longrightarrow> L p = None \<Longrightarrow> L old = Some xs \<Longrightarrow> length ys = unat n \<Longrightarrow> take (length xs) ys = take (unat n) xs \<Longrightarrow>
    heap_spec (Realloc old n c fn ln) p L (L(old := None, p \<mapsto> ys))"
| release_null: "heap_spec (Release 0) 0 L L"
| release: "L p = Some xs \<Longrightarrow> heap_spec (Release p) 0 L (L(p := None))"
| store: "L p = Some xs \<Longrightarrow> i < length xs \<Longrightarrow> heap_spec (Store p i v) 0 L (L(p \<mapsto> xs[i := v]))"
| trace_start: "heap_spec (Trace_start mode) 0 L L"
| trace_stop: "heap_spec Trace_stop 0 L L"
| trace_resume: "heap_spec Trace_resume 0 L L"

text \<open>The buffers of a client that follows the calls, read from the memory after each.\<close>

fun track :: "heap_op \<Rightarrow> u32 \<Rightarrow> memory \<Rightarrow> buffers \<Rightarrow> buffers" where
  "track (Malloc n c fn ln) p m L = (if p = 0 then L else L(p \<mapsto> bytes m p (unat n)))"
| "track (Calloc k n c fn ln) p m L = (if p = 0 then L else L(p \<mapsto> bytes m p (unat k * unat n)))"
| "track (Zalloc n c fn ln) p m L = (if p = 0 then L else L(p \<mapsto> bytes m p (unat n)))"
| "track (Realloc old n c fn ln) p m L = (if p = 0 then L else L(old := None, p \<mapsto> bytes m p (unat n)))"
| "track (Release q) p m L = L(q := None)"
| "track (Store q i v) p m L = L(q \<mapsto> bytes m q (length (the (L q))))"
| "track _ p m L = L"

text \<open>The relation between the heap and the buffers.\<close>

definition holds :: "heaps \<Rightarrow> buffers \<Rightarrow> block list list \<Rightarrow> bool" where
  "holds H L bss \<longleftrightarrow> regions_ok (mem H) (g_heap_region H) bss \<and> stored (mem H) L (all_chunks (g_heap_region H) bss)"

lemma holds_malloc:
  assumes "holds H L bss" "unat n + 19 < 2 ^ 32"
  obtains H' where "heap_caps_malloc n c fn ln H = Some (0, H')" "H' = H" "too_small c (need (unat n) (heap_trace_is_on H)) (g_heap_region H) bss"
  | q d H' bss' where "heap_caps_malloc n c fn ln H = Some (of_nat q, H')" "(of_nat q :: u32) \<noteq> 0" "4 dvd q" "unat n \<le> d" "L (of_nat q) = None"
      "(q, d) \<in> set (all_chunks (g_heap_region H') bss')" "holds H' (L(of_nat q \<mapsto> bytes (mem H') (of_nat q) (unat n))) bss'"
      "shape (g_heap_region H') = shape (g_heap_region H)"
proof -
  have ok: "regions_ok (mem H) (g_heap_region H) bss" "stored (mem H) L (all_chunks (g_heap_region H) bss)" using assms(1) by (simp_all add: holds_def)
  obtain p rs' m' bss' where M: "malloc_regions n c (heap_trace_is_on H) fn ln (g_heap_region H) (mem H) = Some (p, rs', m')"
    "malloc_post (unat n) (need (unat n) (heap_trace_is_on H)) c (mem H) (g_heap_region H) bss p m' rs' bss'" using malloc_regions_ok [OF ok(1) assms(2)] by blast
  define H' where "H' = H\<lparr>g_heap_region := rs', mem := m'\<rparr>"
  have run: "heap_caps_malloc n c fn ln H = Some (p, H')" by (simp add: heap_caps_malloc_def M(1) H'_def)
  show thesis
  proof (cases "p = 0")
    case True
    then show ?thesis using M(2) run that(1) by (simp add: malloc_post_def H'_def)
  next
    case False
    then obtain q d where q: "p = of_nat q" "4 dvd q" "unat n \<le> d" "added (all_chunks (g_heap_region H) bss) q d (all_chunks rs' bss')"
      "keeps (all_chunks (g_heap_region H) bss) (mem H) m'" "regions_ok m' rs' bss'" "shape rs' = shape (g_heap_region H)"
      using M(2) by (auto simp: malloc_post_def)
    note S = regions_separate [OF q(6)]
    show ?thesis
    proof (rule that(2))
      show "L (of_nat q) = None" by (rule stored_fresh [OF ok(2) S q(4)])
      show "(q, d) \<in> set (all_chunks (g_heap_region H') bss')" using separate_added(2) [OF S q(4)] by (simp add: H'_def)
      show "holds H' (L(of_nat q \<mapsto> bytes (mem H') (of_nat q) (unat n))) bss'"
        using q(6) stored_added [OF ok(2) S q(4,5,3)] by (simp add: holds_def H'_def)
    qed (use run q False in \<open>simp_all add: H'_def\<close>)
  qed
qed

lemma holds_free:
  assumes "holds H L bss" "L p = Some xs"
  obtains H' bss' where "heap_caps_free p H = Some H'" "holds H' (L(p := None)) bss'" "shape (g_heap_region H') = shape (g_heap_region H)"
    "\<And>p' ys. p' \<noteq> p \<Longrightarrow> L p' = Some ys \<Longrightarrow> bytes (mem H') p' (length ys) = ys"
proof -
  have ok: "regions_ok (mem H) (g_heap_region H) bss" "stored (mem H) L (all_chunks (g_heap_region H) bss)" using assms(1) by (simp_all add: holds_def)
  obtain q d where q: "(q, d) \<in> set (all_chunks (g_heap_region H) bss)" "p = of_nat q" using stored_domD [OF ok(2) assms(2)] by metis
  obtain H' bss' where f: "heap_caps_free (of_nat q) H = Some H'" "regions_ok (mem H') (g_heap_region H') bss'" "shape (g_heap_region H') = shape (g_heap_region H)"
    "added (all_chunks (g_heap_region H') bss') q d (all_chunks (g_heap_region H) bss)" "keeps (all_chunks (g_heap_region H') bss') (mem H) (mem H')"
    using heap_free_ok [OF ok(1) q(1)] by blast
  have st: "stored (mem H') (L(p := None)) (all_chunks (g_heap_region H') bss')" unfolding q(2) by (rule stored_removed [OF ok(2) regions_separate [OF ok(1)] f(4,5)])
  show thesis
  proof (rule that)
    show "bytes (mem H') p' (length ys) = ys" if "p' \<noteq> p" "L p' = Some ys" for p' ys
      by (rule stored_domD [OF st, of p' ys]) (use that in simp_all)
  qed (use f q st in \<open>simp_all add: holds_def\<close>)
qed

lemma holds_write:
  assumes "holds H L bss" "(q, d) \<in> set (all_chunks (g_heap_region H) bss)" "same_outside q (q + d) (mem H) m'" "L (of_nat q) = Some xs"
  shows "holds (H\<lparr>mem := m'\<rparr>) (L(of_nat q \<mapsto> bytes m' (of_nat q) (length xs))) bss"
  using assms regions_write stored_write regions_separate unfolding holds_def by fastforce

end
