(* ===== verification/Heap_Client.thy ===== *)
theory Heap_Client
  imports Heap_Runs
begin

unbundle bit_operations_syntax

text \<open>
  The properties of the heap: every call does what the specification of the buffers allows,
  buffers never overlap, and nothing is lost when all of them have been given back.
\<close>

section \<open>Filling and copying\<close>

lemma offset_less:
  assumes "i < 2 ^ 32" "q + n < 2 ^ 32"
  shows "(of_nat i - of_nat q :: u32) < of_nat n \<longleftrightarrow> q \<le> i \<and> i < q + n"
proof (cases "q \<le> i")
  case True
  then have "(of_nat i - of_nat q :: u32) = of_nat (i - q)" by (simp add: of_nat_diff)
  then show ?thesis using addr_less_iff [of "i - q" n] assms True by auto
next
  case False
  have z: "(of_nat (2 ^ 32) :: u32) = 0" by simp
  have "(of_nat (2 ^ 32 + i - q) :: u32) = of_nat (2 ^ 32) + of_nat i - of_nat q" using assms(2) by (simp only: of_nat_diff of_nat_add)
  then have "(of_nat i - of_nat q :: u32) = of_nat (2 ^ 32 + i - q)" unfolding z by simp
  moreover have "(of_nat (2 ^ 32 + i - q) :: u32) < of_nat n \<longleftrightarrow> 2 ^ 32 + i - q < n" by (rule addr_less_iff) (use assms False in simp_all)
  ultimately have "(of_nat i - of_nat q :: u32) < of_nat n \<longleftrightarrow> 2 ^ 32 + i - q < n" by (simp only:)
  then show ?thesis using assms False by linarith
qed

lemma memset_facts:
  assumes "q + d < 2 ^ 32" "unat n \<le> d"
  shows "same_outside q (q + d) m (memset (of_nat q) v n m)" "bytes (memset (of_nat q) v n m) (of_nat q) (unat n) = replicate (unat n) v"
proof -
  have m: "memset (of_nat q) v n m (of_nat i) = (if q \<le> i \<and> i < q + unat n then v else m (of_nat i))" if "i < 2 ^ 32" for i
    using offset_less [of i q "unat n"] assms that by (simp add: memset_def)
  show "same_outside q (q + d) m (memset (of_nat q) v n m)" using m assms by (auto simp: same_outside_def)
  have "memset (of_nat q) v n m (of_nat q + of_nat i) = v" if "i < unat n" for i using m [of "q + i"] that assms by simp
  then show "bytes (memset (of_nat q) v n m) (of_nat q) (unat n) = replicate (unat n) v" by (intro nth_equalityI) simp_all
qed

lemma memcpy_facts:
  assumes "q + d < 2 ^ 32" "unat n \<le> d"
  shows "same_outside q (q + d) m (memcpy (of_nat q) p n m)" "i < unat n \<Longrightarrow> memcpy (of_nat q) p n m (of_nat q + of_nat i) = m (p + of_nat i)"
proof -
  have m: "memcpy (of_nat q) p n m (of_nat i) = (if q \<le> i \<and> i < q + unat n then m (p + (of_nat i - of_nat q)) else m (of_nat i))" if "i < 2 ^ 32" for i
    using offset_less [of i q "unat n"] assms that by (simp add: memcpy_def)
  show "same_outside q (q + d) m (memcpy (of_nat q) p n m)" using m assms by (auto simp: same_outside_def)
  show "memcpy (of_nat q) p n m (of_nat q + of_nat i) = m (p + of_nat i)" if "i < unat n" using m [of "q + i"] that assms by simp
qed

section \<open>Simulation\<close>

definition simulates :: "heaps \<Rightarrow> buffers \<Rightarrow> heap_op \<Rightarrow> bool" where
  "simulates H L op \<longleftrightarrow> (\<exists>p H' bss'. heap_do op H = Some (p, H') \<and> heap_spec op p L (track op p (mem H') L) \<and>
     holds H' (track op p (mem H') L) bss' \<and> shape (g_heap_region H') = shape (g_heap_region H))"

lemma simulatesI:
  "heap_do op H = Some (p, H') \<Longrightarrow> heap_spec op p L (track op p (mem H') L) \<Longrightarrow> holds H' (track op p (mem H') L) bss' \<Longrightarrow>
    shape (g_heap_region H') = shape (g_heap_region H) \<Longrightarrow> simulates H L op"
  unfolding simulates_def by blast

lemma holds_chunk:
  assumes "holds H L bss" "(q, d) \<in> set (all_chunks (g_heap_region H) bss)"
  shows "0 < q" "q + d < 2 ^ 31" "(of_nat q :: u32) \<noteq> 0"
  using assms regions_separate [of "mem H" "g_heap_region H" bss] addr_not_null [of q] by (auto simp: holds_def separate_def)

lemma holds_null: "holds H L bss \<Longrightarrow> L 0 = None"
  using stored_domD [of "mem H" L "all_chunks (g_heap_region H) bss" 0] holds_chunk(3) [of H L bss]
  unfolding holds_def by (metis not_None_eq)

lemma simulates_malloc:
  assumes "holds H L bss" "unat n + 19 < 2 ^ 32"
  shows "simulates H L (Malloc n c fn ln)"
proof (rule holds_malloc [OF assms, of c fn ln])
  fix H' assume "heap_caps_malloc n c fn ln H = Some (0, H')" "H' = H"
  then show ?thesis using assms(1) by (intro simulatesI [of _ _ 0 H]) (auto intro: heap_spec.refused)
next
  fix q d H' bss'
  assume q: "heap_caps_malloc n c fn ln H = Some (of_nat q, H')" "(of_nat q :: u32) \<noteq> 0" "L (of_nat q) = None"
    "holds H' (L(of_nat q \<mapsto> bytes (mem H') (of_nat q) (unat n))) bss'" "shape (g_heap_region H') = shape (g_heap_region H)"
  then show ?thesis by (intro simulatesI [of _ _ "of_nat q" H']) (auto intro: heap_spec.malloc)
qed

text \<open>Requests for memory that is set to zero.\<close>

lemma holds_zalloc:
  assumes "holds H L bss" "unat n + 19 < 2 ^ 32"
  obtains "heap_caps_zalloc n c fn ln H = Some (0, H)"
  | p H' bss' where "heap_caps_zalloc n c fn ln H = Some (p, H')" "p \<noteq> 0" "L p = None" "bytes (mem H') p (unat n) = replicate (unat n) 0"
      "holds H' (L(p \<mapsto> bytes (mem H') p (unat n))) bss'" "shape (g_heap_region H') = shape (g_heap_region H)"
proof (rule holds_malloc [OF assms, of c fn ln])
  fix H' assume "heap_caps_malloc n c fn ln H = Some (0, H')" "H' = H"
  then show thesis by (intro that(1)) (simp add: heap_caps_zalloc_def)
next
  fix q d H1 bss'
  assume q: "heap_caps_malloc n c fn ln H = Some (of_nat q, H1)" "(of_nat q :: u32) \<noteq> 0" "unat n \<le> d" "L (of_nat q) = None"
    "(q, d) \<in> set (all_chunks (g_heap_region H1) bss')" "holds H1 (L(of_nat q \<mapsto> bytes (mem H1) (of_nat q) (unat n))) bss'"
    "shape (g_heap_region H1) = shape (g_heap_region H)"
  define m' where "m' = memset (of_nat q) 0 n (mem H1)"
  have "q + d < 2 ^ 32" using holds_chunk(2) [OF q(6,5)] by simp
  note M = memset_facts [OF this q(3), where m = "mem H1" and v = 0, folded m'_def]
  show thesis
  proof (rule that(2))
    show "heap_caps_zalloc n c fn ln H = Some (of_nat q, H1\<lparr>mem := m'\<rparr>)" using q(1,2) by (simp add: heap_caps_zalloc_def m'_def)
    show "holds (H1\<lparr>mem := m'\<rparr>) (L(of_nat q \<mapsto> bytes (mem (H1\<lparr>mem := m'\<rparr>)) (of_nat q) (unat n))) bss'" using holds_write [OF q(6,5) M(1)] by simp
  qed (use q M(2) in simp_all)
qed

lemma calloc_zalloc: "heap_caps_calloc k n c fn ln H = heap_caps_zalloc (k * n) c fn ln H"
  by (simp add: heap_caps_calloc_def heap_caps_zalloc_def)

lemma simulates_zalloc:
  assumes "holds H L bss" "unat n + 19 < 2 ^ 32"
  shows "simulates H L (Zalloc n c fn ln)"
proof (rule holds_zalloc [OF assms, of c fn ln])
  assume "heap_caps_zalloc n c fn ln H = Some (0, H)"
  then show ?thesis using assms(1) by (intro simulatesI [of _ _ 0 H]) (auto intro: heap_spec.refused)
next
  fix p H' bss'
  assume "heap_caps_zalloc n c fn ln H = Some (p, H')" "p \<noteq> 0" "L p = None" "bytes (mem H') p (unat n) = replicate (unat n) 0"
    "holds H' (L(p \<mapsto> bytes (mem H') p (unat n))) bss'" "shape (g_heap_region H') = shape (g_heap_region H)"
  then show ?thesis by (intro simulatesI [of _ _ p H']) (auto intro: heap_spec.zalloc)
qed

lemma simulates_calloc:
  assumes "holds H L bss" "unat k * unat n + 19 < 2 ^ 32"
  shows "simulates H L (Calloc k n c fn ln)"
proof -
  have u: "unat (k * n) = unat k * unat n" using assms(2) by (simp add: unat_mult_lem [symmetric])
  then have "unat (k * n) + 19 < 2 ^ 32" using assms(2) by simp
  then show ?thesis
  proof (rule holds_zalloc [OF assms(1), of _ c fn ln])
    assume "heap_caps_zalloc (k * n) c fn ln H = Some (0, H)"
    then show ?thesis using assms(1) by (intro simulatesI [of _ _ 0 H]) (auto simp: calloc_zalloc intro: heap_spec.refused)
  next
    fix p H' bss'
    assume "heap_caps_zalloc (k * n) c fn ln H = Some (p, H')" "p \<noteq> 0" "L p = None" "bytes (mem H') p (unat (k * n)) = replicate (unat (k * n)) 0"
      "holds H' (L(p \<mapsto> bytes (mem H') p (unat (k * n)))) bss'" "shape (g_heap_region H') = shape (g_heap_region H)"
    then show ?thesis by (intro simulatesI [of _ _ p H']) (auto simp: calloc_zalloc u intro: heap_spec.calloc)
  qed
qed

lemma simulates_release:
  assumes "holds H L bss" "p = 0 \<or> L p \<noteq> None"
  shows "simulates H L (Release p)"
proof (cases "p = 0")
  case True
  moreover have "L(0 := None) = L" using holds_null [OF assms(1)] by (simp add: fun_upd_idem)
  ultimately show ?thesis using assms(1) by (intro simulatesI [of _ _ 0 H]) (auto simp: heap_caps_free_def intro: heap_spec.release_null)
next
  case False
  then obtain xs where x: "L p = Some xs" using assms(2) by blast
  obtain H' bss' where "heap_caps_free p H = Some H'" "holds H' (L(p := None)) bss'" "shape (g_heap_region H') = shape (g_heap_region H)"
    using holds_free [OF assms(1) x] by metis
  then show ?thesis using x by (intro simulatesI [of _ _ 0 H']) (auto intro: heap_spec.release)
qed

lemma simulates_store:
  assumes "holds H L bss" "L p = Some xs" "i < length xs"
  shows "simulates H L (Store p i v)"
proof -
  define m' where "m' = (mem H)(p + of_nat i := v)"
  have st: "stored (mem H) L (all_chunks (g_heap_region H) bss)" using assms(1) by (simp add: holds_def)
  obtain q d where q: "(q, d) \<in> set (all_chunks (g_heap_region H) bss)" "p = of_nat q" "length xs \<le> d" "bytes (mem H) p (length xs) = xs"
    by (rule stored_domD [OF st assms(2)])
  have lim: "q + d < 2 ^ 31" by (rule holds_chunk(2) [OF assms(1) q(1)])
  have eq: "(of_nat x :: u32) = p + of_nat i \<longleftrightarrow> x = q + i" if "x < 2 ^ 32" for x using addr_eq_iff [OF that, of "q + i"] lim q(2,3) assms(3) by simp
  have "same_outside q (q + d) (mem H) m'" unfolding same_outside_def m'_def using eq q(3) assms(3) by auto
  then have "holds (H\<lparr>mem := m'\<rparr>) (L(p \<mapsto> bytes m' p (length xs))) bss" using holds_write [OF assms(1) q(1)] q(2) assms(2) by simp
  moreover have "bytes m' p (length xs) = xs[i := v]"
  proof (rule nth_equalityI)
    fix j assume "j < length (bytes m' p (length xs))"
    then have j: "j < length xs" by simp
    have "mem H (p + of_nat j) = xs ! j" using arg_cong [OF q(4), of "\<lambda>ys. ys ! j"] j by simp
    moreover have "(p + of_nat j = p + (of_nat i :: u32)) = (j = i)" using eq [of "q + j"] q(2,3) lim j by simp
    ultimately show "bytes m' p (length xs) ! j = xs[i := v] ! j" using j by (simp add: m'_def nth_list_update)
  qed simp
  ultimately show ?thesis using assms by (intro simulatesI [of _ _ 0 "H\<lparr>mem := m'\<rparr>"]) (auto simp: m'_def intro: heap_spec.store)
qed

lemma chunk_size:
  assumes "regions_ok m rs bss" "(a, e) \<in> set (all_chunks rs bss)"
  shows "ptr_size (of_nat a) m = of_nat e"
proof -
  have ok: "list_all2 (region_ok m) rs bss" "sorted_wrt apart rs" using assms(1) by (simp_all add: regions_ok_def)
  obtain R1 r R2 B1 bs B2 where f: "rs = R1 @ r # R2" "bss = B1 @ bs # B2" "length R1 = length B1" "(a, e) \<in> set (chunks (base r) bs)"
    using find_region [OF ok assms(2)] by blast
  have r: "region_ok m r bs" using ok(1) f(1-3) by (auto simp: list_all2_append)
  show ?thesis by (rule chunk_block [OF f(4)]) (use chunk_pointer(3) [OF r] in metis)
qed

lemma holds_realloc:
  assumes "holds H L bss" "unat n + 19 < 2 ^ 32" "L old = Some xs"
  obtains "heap_caps_realloc old n c fn ln H = Some (0, H)"
  | p H' bss' where "heap_caps_realloc old n c fn ln H = Some (p, H')" "p \<noteq> 0" "L p = None" "take (length xs) (bytes (mem H') p (unat n)) = take (unat n) xs"
      "holds H' (L(old := None, p \<mapsto> bytes (mem H') p (unat n))) bss'" "shape (g_heap_region H') = shape (g_heap_region H)"
proof (rule holds_malloc [OF assms(1,2), of c fn ln])
  fix H' assume "heap_caps_malloc n c fn ln H = Some (0, H')" "H' = H"
  then show thesis by (intro that(1)) (simp add: heap_caps_realloc_def)
next
  fix q d H1 bss1
  assume q: "heap_caps_malloc n c fn ln H = Some (of_nat q, H1)" "(of_nat q :: u32) \<noteq> 0" "unat n \<le> d" "L (of_nat q) = None"
    "(q, d) \<in> set (all_chunks (g_heap_region H1) bss1)" "holds H1 (L(of_nat q \<mapsto> bytes (mem H1) (of_nat q) (unat n))) bss1"
    "shape (g_heap_region H1) = shape (g_heap_region H)"
  define L1 where "L1 = L(of_nat q \<mapsto> bytes (mem H1) (of_nat q) (unat n))"
  have ne: "old \<noteq> of_nat q" "old \<noteq> 0" using assms(3) q(4) holds_null [OF assms(1)] by auto
  have h1: "regions_ok (mem H1) (g_heap_region H1) bss1" "stored (mem H1) L1 (all_chunks (g_heap_region H1) bss1)" "L1 old = Some xs"
    using q(6) assms(3) ne(1) by (simp_all add: holds_def L1_def)
  obtain a e where a: "(a, e) \<in> set (all_chunks (g_heap_region H1) bss1)" "old = of_nat a" "length xs \<le> e" "bytes (mem H1) old (length xs) = xs"
    by (rule stored_domD [OF h1(2,3)])
  have sz: "ptr_size old (mem H1) = of_nat e" unfolding a(2) by (rule chunk_size [OF h1(1) a(1)])
  have lim: "q + d < 2 ^ 31" "a + e < 2 ^ 31" using holds_chunk(2) [OF q(6)] q(5) a(1) by auto
  define k where "k = min n (of_nat e)"
  have k: "unat k = min (unat n) e" using unat_addr [of e] lim(2) unfolding k_def min_def by (simp add: word_le_nat_alt)
  define m2 where "m2 = memcpy (of_nat q) old k (mem H1)"
  have kd: "q + d < 2 ^ 32" "unat k \<le> d" using lim(1) k q(3) by simp_all
  note C = memcpy_facts [OF kd, where p = old and m = "mem H1", folded m2_def]
  define L2 where "L2 = L(of_nat q \<mapsto> bytes m2 (of_nat q) (unat n))"
  have h2: "holds (H1\<lparr>mem := m2\<rparr>) L2 bss1" using holds_write [OF q(6,5) C(1)] by (simp add: L2_def)
  have "L2 old = Some xs" using assms(3) ne(1) by (simp add: L2_def)
  then obtain H3 bss3 where f: "heap_caps_free old (H1\<lparr>mem := m2\<rparr>) = Some H3" "holds H3 (L2(old := None)) bss3"
    "shape (g_heap_region H3) = shape (g_heap_region (H1\<lparr>mem := m2\<rparr>))" "\<And>p' ys. p' \<noteq> old \<Longrightarrow> L2 p' = Some ys \<Longrightarrow> bytes (mem H3) p' (length ys) = ys"
    using holds_free [OF h2] by metis
  have new: "bytes (mem H3) (of_nat q) (unat n) = bytes m2 (of_nat q) (unat n)" using f(4) [of "of_nat q"] ne(1) by (simp add: L2_def)
  have "take (length xs) (bytes m2 (of_nat q) (unat n)) = take (unat n) xs"
  proof (rule nth_equalityI)
    fix i assume "i < length (take (length xs) (bytes m2 (of_nat q) (unat n)))"
    then have i: "i < length xs" "i < unat n" by simp_all
    have "m2 (of_nat q + of_nat i) = mem H1 (old + of_nat i)" by (rule C(2)) (use i a(3) k in simp)
    also have "\<dots> = xs ! i" using arg_cong [OF a(4), of "\<lambda>ys. ys ! i"] i by simp
    finally show "take (length xs) (bytes m2 (of_nat q) (unat n)) ! i = take (unat n) xs ! i" using i by simp
  qed simp
  moreover have "heap_caps_realloc old n c fn ln H = Some (of_nat q, H3)"
    using q(1,2) ne(2) f(1) sz by (simp add: heap_caps_realloc_def m2_def k_def)
  moreover have "L(old := None, of_nat q \<mapsto> bytes (mem H3) (of_nat q) (unat n)) = L2(old := None)" using ne(1) by (auto simp: L2_def new fun_upd_twist)
  ultimately show thesis using that(2) [of "of_nat q" H3 bss3] q(2,4,7) f(2,3) new by simp
qed

lemma simulates_realloc:
  assumes "holds H L bss" "unat n + 19 < 2 ^ 32" "old = 0 \<or> L old \<noteq> None"
  shows "simulates H L (Realloc old n c fn ln)"
proof (cases "old = 0")
  case True
  have same: "L(0 := None) = L" using holds_null [OF assms(1)] by (simp add: fun_upd_idem)
  have eq: "heap_caps_realloc 0 n c fn ln H = heap_caps_malloc n c fn ln H"
    by (cases "heap_caps_malloc n c fn ln H") (auto simp: heap_caps_realloc_def)
  obtain p H' bss' where s: "heap_caps_malloc n c fn ln H = Some (p, H')" "heap_spec (Malloc n c fn ln) p L (track (Malloc n c fn ln) p (mem H') L)"
    "holds H' (track (Malloc n c fn ln) p (mem H') L) bss'" "shape (g_heap_region H') = shape (g_heap_region H)"
    using simulates_malloc [OF assms(1,2), of c fn ln] unfolding simulates_def by auto
  have "heap_spec (Realloc 0 n c fn ln) p L (track (Malloc n c fn ln) p (mem H') L)"
    using s(2) by cases (auto intro: heap_spec.refused heap_spec.realloc_null)
  moreover have "track (Realloc 0 n c fn ln) p (mem H') L = track (Malloc n c fn ln) p (mem H') L" using same by simp
  ultimately have "heap_spec (Realloc 0 n c fn ln) p L (track (Realloc 0 n c fn ln) p (mem H') L)" "holds H' (track (Realloc 0 n c fn ln) p (mem H') L) bss'"
    using s(3) by (simp_all only:)
  moreover have "heap_do (Realloc 0 n c fn ln) H = Some (p, H')" using s(1) eq by simp
  ultimately show ?thesis unfolding True using s(4) by (intro simulatesI)
next
  case False
  then obtain xs where x: "L old = Some xs" using assms(3) by blast
  show ?thesis
  proof (rule holds_realloc [OF assms(1,2) x, of c fn ln])
    assume "heap_caps_realloc old n c fn ln H = Some (0, H)"
    then show ?thesis using assms(1) by (intro simulatesI [of _ _ 0 H]) (auto intro: heap_spec.refused)
  next
    fix p H' bss'
    assume "heap_caps_realloc old n c fn ln H = Some (p, H')" "p \<noteq> 0" "L p = None" "take (length xs) (bytes (mem H') p (unat n)) = take (unat n) xs"
      "holds H' (L(old := None, p \<mapsto> bytes (mem H') p (unat n))) bss'" "shape (g_heap_region H') = shape (g_heap_region H)"
    then show ?thesis using x by (intro simulatesI [of _ _ p H']) (auto intro: heap_spec.realloc)
  qed
qed

lemma simulation:
  assumes "holds H L bss" "allowed L op"
  shows "simulates H L op"
proof (cases op)
  case (Store p i v)
  then obtain xs where "L p = Some xs" "i < length xs" using assms(2) by (auto split: option.splits)
  then show ?thesis using simulates_store [OF assms(1)] Store by blast
next
  case (Trace_start mode)
  then show ?thesis using assms(1)
    by (intro simulatesI [of _ _ 0 "heap_trace_start mode H"]) (auto simp: holds_def heap_trace_start_def intro: heap_spec.trace_start)
next
  case Trace_stop
  then show ?thesis using assms(1)
    by (intro simulatesI [of _ _ 0 "heap_trace_stop H"]) (auto simp: holds_def heap_trace_stop_def intro: heap_spec.trace_stop)
next
  case Trace_resume
  then show ?thesis using assms(1)
    by (intro simulatesI [of _ _ 0 "heap_trace_resume H"]) (auto simp: holds_def heap_trace_resume_def intro: heap_spec.trace_resume)
qed (use assms simulates_malloc simulates_calloc simulates_zalloc simulates_realloc simulates_release in auto)

section \<open>Runs\<close>

text \<open>
  The two regions of the system, where the linker puts them: in the instruction memory, which
  ends at \<open>0x4010C000\<close>, and in the data memory, which ends at \<open>0x40000000\<close>.
\<close>

definition linked :: "u32 \<Rightarrow> u32 \<Rightarrow> bool" where
  "linked lit4_end heap_start \<longleftrightarrow> 0x40000000 \<le> lit4_end \<and> lit4_end \<le> 0x4010C000 - 24 \<and> 0 < heap_start \<and> heap_start \<le> 0x40000000 - 24"

inductive heap_runs :: "u32 \<Rightarrow> u32 \<Rightarrow> heaps \<Rightarrow> buffers \<Rightarrow> bool" for lit4_end heap_start where
  start: "linked lit4_end heap_start \<Longrightarrow> heap_runs lit4_end heap_start (heap_caps_init lit4_end heap_start H) Map.empty"
| call: "heap_runs lit4_end heap_start H L \<Longrightarrow> allowed L op \<Longrightarrow> heap_do op H = Some (p, H') \<Longrightarrow>
    heap_runs lit4_end heap_start H' (track op p (mem H') L)"

abbreviation initial :: "u32 \<Rightarrow> u32 \<Rightarrow> heap_region list" where
  "initial lit4_end heap_start \<equiv>
     [\<lparr>start_addr = lit4_end, total_size = 0x4010C000 - lit4_end, caps = 2, free_blk = 0, free_bytes = 0, min_free_bytes = 0\<rparr>,
      \<lparr>start_addr = heap_start, total_size = 0x40000000 - heap_start, caps = 14, free_blk = 0, free_bytes = 0, min_free_bytes = 0\<rparr>]"

lemma linked_total:
  assumes "linked lit4_end heap_start"
  shows "unat (0x4010C000 - lit4_end) = 0x4010C000 - unat lit4_end" "unat (0x40000000 - heap_start) = 0x40000000 - unat heap_start"
    "0x40000000 \<le> unat lit4_end" "unat lit4_end + 24 \<le> 0x4010C000" "0 < unat heap_start" "unat heap_start + 24 \<le> 0x40000000"
proof -
  have n: "0x40000000 \<le> unat lit4_end" "unat lit4_end \<le> unat (0x4010C000 - 24 :: u32)" "0 < unat heap_start" "unat heap_start \<le> unat (0x40000000 - 24 :: u32)"
    using assms unfolding linked_def by (simp_all add: word_le_nat_alt word_less_nat_alt)
  moreover have "unat (0x4010C000 - 24 :: u32) = 0x4010C000 - 24" "unat (0x40000000 - 24 :: u32) = 0x40000000 - 24" by simp_all
  ultimately show *: "0x40000000 \<le> unat lit4_end" "unat lit4_end + 24 \<le> 0x4010C000" "0 < unat heap_start" "unat heap_start + 24 \<le> 0x40000000" by simp_all
  have "lit4_end \<le> 0x4010C000" "heap_start \<le> 0x40000000" using * by (simp_all add: word_le_nat_alt)
  then show "unat (0x4010C000 - lit4_end) = 0x4010C000 - unat lit4_end" "unat (0x40000000 - heap_start) = 0x40000000 - unat heap_start"
    by (simp_all add: unat_sub)
qed

lemma initial_ok:
  assumes "linked lit4_end heap_start"
  shows "\<forall>r \<in> set (initial lit4_end heap_start). usable r" "sorted_wrt apart (initial lit4_end heap_start)"
  using linked_total [OF assms] by (auto simp: usable_def apart_def)

lemma heap_init_ok:
  assumes "linked lit4_end heap_start"
  shows "holds (heap_caps_init lit4_end heap_start H) Map.empty (map (\<lambda>r. [(room r, Free)]) (initial lit4_end heap_start))"
    "shape (g_heap_region (heap_caps_init lit4_end heap_start H)) = shape (initial lit4_end heap_start)"
proof -
  obtain rs m where i: "init_regions (initial lit4_end heap_start) (mem H) = (rs, m)" by fastforce
  note I = init_regions_ok [OF initial_ok [OF assms] i]
  have eq: "heap_caps_init lit4_end heap_start H = H\<lparr>g_heap_region := rs, mem := m\<rparr>"
    using i by (simp add: heap_caps_init_def esp_heap_caps_init_region_def del: init_regions.simps)
  then show "shape (g_heap_region (heap_caps_init lit4_end heap_start H)) = shape (initial lit4_end heap_start)" using I by simp
  obtain r s where rs: "rs = [r, s]" using I by (auto simp: shape_def Cons_eq_map_conv)
  then have "all_chunks rs (map (\<lambda>r. [(room r, Free)]) (initial lit4_end heap_start)) = []" by simp
  then show "holds (heap_caps_init lit4_end heap_start H) Map.empty (map (\<lambda>r. [(room r, Free)]) (initial lit4_end heap_start))"
    using I unfolding holds_def stored_def eq by simp
qed

lemma runs_holds:
  assumes "heap_runs lit4_end heap_start H L"
  shows "linked lit4_end heap_start \<and> (\<exists>bss. holds H L bss) \<and> shape (g_heap_region H) = shape (initial lit4_end heap_start)"
  using assms
proof (induction rule: heap_runs.induct)
  case (start H)
  then show ?case using heap_init_ok by blast
next
  case (call H L op p H')
  then obtain bss where "holds H L bss" by blast
  from simulation [OF this call.hyps(2)] call.hyps(3)
  obtain bss' where "holds H' (track op p (mem H') L) bss'" "shape (g_heap_region H') = shape (g_heap_region H)" unfolding simulates_def by auto
  then show ?case using call.IH by auto
qed

section \<open>Buffers in use\<close>

lemma chunk_aligned:
  assumes "list_all2 (region_ok m) rs bss" "(q, d) \<in> set (all_chunks rs bss)"
  shows "4 dvd q"
  using assms
proof (induction rs bss rule: list_all2_induct)
  case (Cons r rs bs bss)
  have "4 dvd q" if i: "(q, d) \<in> set (chunks (base r) bs)"
  proof -
    obtain xs z st ys where b: "bs = xs @ (z, st) # ys" "q = base r + total xs + head st" using chunk_block [OF i] by metis
    have "4 dvd base r + total xs" using placed_blockD(1) [OF placed_append] region_okD(1) [OF Cons.hyps(1)] b(1) by blast
    then show ?thesis unfolding b(2) by (rule dvd_add) (cases st, simp_all)
  qed
  then show ?case using Cons by auto
qed simp

lemma chunk_in_initial:
  assumes "regions_ok m rs bss" "shape rs = shape (initial lit4_end heap_start)" "linked lit4_end heap_start" "(q, d) \<in> set (all_chunks rs bss)"
  shows "unat lit4_end + 8 \<le> q \<and> q + d + 8 \<le> 0x4010C000 \<or> unat heap_start + 8 \<le> q \<and> q + d + 8 \<le> 0x40000000"
proof -
  have "list_all2 (region_ok m) rs bss" using assms(1) by (simp add: regions_ok_def)
  then obtain r where r: "r \<in> set rs" "unat (start_addr r) + 8 \<le> q" "q + d + 8 \<le> unat (start_addr r) + unat (total_size r)"
    using chunk_in_regions assms(4) by blast
  have "(start_addr r, total_size r, caps r) \<in> set (shape rs)" using r(1) by (auto simp: shape_def)
  then have "start_addr r = lit4_end \<and> total_size r = 0x4010C000 - lit4_end \<or> start_addr r = heap_start \<and> total_size r = 0x40000000 - heap_start"
    unfolding assms(2) by (auto simp: shape_def)
  then show ?thesis using r linked_total [OF assms(3)] by auto
qed

lemma holds_buffer:
  assumes "holds H L bss" "L p = Some xs"
  obtains d where "(unat p, d) \<in> set (all_chunks (g_heap_region H) bss)" "length xs \<le> d" "bytes (mem H) p (length xs) = xs"
proof -
  have st: "stored (mem H) L (all_chunks (g_heap_region H) bss)" using assms(1) by (simp add: holds_def)
  obtain q d where q: "(q, d) \<in> set (all_chunks (g_heap_region H) bss)" "p = of_nat q" "length xs \<le> d" "bytes (mem H) p (length xs) = xs"
    by (rule stored_domD [OF st assms(2)])
  have "unat p = q" using holds_chunk(2) [OF assms(1) q(1)] q(2) by (simp add: unat_addr)
  then show thesis using that q by simp
qed

section \<open>An empty heap\<close>

lemma no_chunks:
  assumes "region_ok m r bs" "chunks (base r) bs = []" "0 < room r"
  shows "bs = [(room r, Free)]"
proof -
  have "chunks a bs = [] \<Longrightarrow> \<forall>b \<in> set bs. snd b = Free" for a bs
  proof (induction bs arbitrary: a)
    case (Cons c cs)
    then show ?case by (cases c) (auto split: if_splits)
  qed simp
  then have free: "\<forall>b \<in> set bs. snd b = Free" using assms(2) by blast
  have tot: "total bs = room r" using assms(1) by (auto simp: region_ok_def room_def)
  show ?thesis
  proof (cases bs)
    case Nil
    then show ?thesis using tot assms(3) by simp
  next
    case (Cons b cs)
    then have "cs = []" using free region_okD(6) [OF assms(1)] by (cases cs) (auto simp: coalesced_Cons)
    then show ?thesis using Cons free tot by (cases b) simp
  qed
qed

lemma room_shape: "start_addr r = start_addr s \<Longrightarrow> total_size r = total_size s \<Longrightarrow> room r = room s"
  by (simp add: room_def region_start_def region_end_def)

lemma empty_heap:
  assumes "heap_runs lit4_end heap_start H Map.empty"
  obtains r s where "g_heap_region H = [r, s]" "region_ok (mem H) r [(room r, Free)]" "region_ok (mem H) s [(room s, Free)]" "apart r s"
    "12 \<le> room r" "12 \<le> room s" "caps r = 2" "caps s = 14" "start_addr r = lit4_end" "start_addr s = heap_start"
    "total_size r = 0x4010C000 - lit4_end" "total_size s = 0x40000000 - heap_start" "holds H Map.empty [[(room r, Free)], [(room s, Free)]]"
proof -
  obtain bss where R: "linked lit4_end heap_start" "holds H Map.empty bss" "shape (g_heap_region H) = shape (initial lit4_end heap_start)"
    using runs_holds [OF assms] by blast
  obtain r s where rs: "g_heap_region H = [r, s]" "caps r = 2" "caps s = 14" "start_addr r = lit4_end" "start_addr s = heap_start"
    "total_size r = 0x4010C000 - lit4_end" "total_size s = 0x40000000 - heap_start" using R(3) by (auto simp: shape_def Cons_eq_map_conv map_eq_Cons_conv)
  obtain bs cs where b: "bss = [bs, cs]" "region_ok (mem H) r bs" "region_ok (mem H) s cs" "apart r s"
    using R(2) rs(1) by (auto simp: holds_def regions_ok_def list_all2_Cons1)
  have "all_chunks (g_heap_region H) bss = []" using R(2) unfolding holds_def stored_def by (metis empty_iff list.set(1) option.distinct(1) surj_pair last_in_set)
  then have ch: "chunks (base r) bs = []" "chunks (base s) cs = []" by (simp_all add: rs(1) b(1))
  have us: "usable r" "usable s" using linked_total [OF R(1)] rs by (auto simp: usable_def)
  have rm: "12 \<le> room r" "12 \<le> room s"
    using room_facts(3,9) [OF us(1)] room_facts(3,9) [OF us(2)] us unfolding usable_def by presburger+
  then have "bs = [(room r, Free)]" "cs = [(room s, Free)]" using no_chunks b(2,3) ch by (metis gr0I not_numeral_le_zero)+
  then show thesis using that [of r s] rs b rm R(2) by simp
qed

lemma empty_heap_serves:
  assumes "heap_runs lit4_end heap_start H Map.empty" "unat n + 33 \<le> 0x40000000 - unat heap_start" "14 AND c = c"
  obtains q d H' bss' where "heap_caps_malloc n c fn ln H = Some (of_nat q, H')" "(of_nat q :: u32) \<noteq> 0" "unat n \<le> d"
    "(q, d) \<in> set (all_chunks (g_heap_region H') bss')" "holds H' [of_nat q \<mapsto> bytes (mem H') (of_nat q) (unat n)] bss'"
proof (rule empty_heap [OF assms(1)])
  fix r s
  assume E: "g_heap_region H = [r, s]" "caps s = 14" "start_addr s = heap_start" "total_size s = 0x40000000 - heap_start"
    "holds H Map.empty [[(room r, Free)], [(room s, Free)]]"
  have "linked lit4_end heap_start" using runs_holds [OF assms(1)] by blast
  note T = linked_total [OF this]
  have us: "usable s" using T E(3,4) by (auto simp: usable_def)
  have n: "unat n + 19 < 2 ^ 32" using assms(2) by simp
  have "need (unat n) (heap_trace_is_on H) \<le> room s"
    using need_facts(4) [of "unat n" "heap_trace_is_on H"] room_facts(9) [OF us] T(2) E(4) assms(2) by (simp split: if_splits)
  then have "\<not> too_small c (need (unat n) (heap_trace_is_on H)) (g_heap_region H) [[(room r, Free)], [(room s, Free)]]"
    using E(1,2) assms(3) by (simp add: too_small_def)
  then show thesis using that by (rule_tac holds_malloc [OF E(5) n, of c fn ln]) auto
qed

section \<open>Requests that wrap around\<close>

lemma wrapped_size:
  "0xFFFFFFFD \<le> n \<Longrightarrow> ptr2memblk_size n False = ptr2memblk_size 0 False"
  "0xFFFFFFF5 \<le> n \<Longrightarrow> n \<le> 0xFFFFFFF8 \<Longrightarrow> ptr2memblk_size n False = 0"
proof -
  have eq: "ptr2memblk_size n False = of_nat (4 * (unat (n + 11) div 4))" for n
  proof -
    have "ptr2memblk_size n False = (n + 11) AND NOT 3" by (simp add: ptr2memblk_size_def HEAP_ALIGN_def mem_blk_head_size_def MEM_HEAD_SIZE_def add.assoc)
    then show ?thesis by (simp only: clear_low)
  qed
  have z: "(of_nat (2 ^ 32) :: u32) = 0" by simp
  have wrap: "unat (n + 11) = unat n + 11 - 2 ^ 32" if "2 ^ 32 \<le> unat n + 11" for n :: u32
  proof -
    have "(of_nat (unat n + 11 - 2 ^ 32) :: u32) = n + 11" using that z by (simp only: of_nat_diff of_nat_add) simp
    moreover have "unat n + 11 - 2 ^ 32 < 2 ^ 32" using unat_u32_less [of n] by simp
    ultimately show ?thesis using unat_addr by metis
  qed
  show "ptr2memblk_size n False = ptr2memblk_size 0 False" if "0xFFFFFFFD \<le> n"
  proof -
    have "4294967293 \<le> unat n" using that by (simp add: word_le_nat_alt)
    then have "unat (n + 11) div 4 = 2" using wrap [of n] unat_u32_less [of n] by simp
    then show ?thesis by (simp add: eq)
  qed
  show "ptr2memblk_size n False = 0" if "0xFFFFFFF5 \<le> n" "n \<le> 0xFFFFFFF8"
  proof -
    have "4294967285 \<le> unat n" "unat n \<le> 4294967288" using that by (simp_all add: word_le_nat_alt)
    then have "unat (n + 11) div 4 = 0" using wrap [of n] by simp
    then show ?thesis by (simp add: eq)
  qed
qed

lemma malloc_regions_size:
  "ptr2memblk_size n trace = ptr2memblk_size n' trace \<Longrightarrow> malloc_regions n c trace fn ln rs m = malloc_regions n' c trace fn ln rs m"
  by (induction rs arbitrary: m) simp_all

text \<open>A block of size zero: the block is cut at its own start, and the link behind it leads nowhere.\<close>

lemma split_zero:
  assumes "chain m 0 a [(z, Free)]" "placed a [(z, Free)]" "9 \<le> z"
  shows "split_block (of_nat a) 0 False m = None"
proof -
  have hd: "header m 0 a (z, Free)" using assms(1) by (simp add: chain_Cons)
  note rd = block_reads [OF hd assms(2)] and b = placed_blockD [OF assms(2)]
  have al: "aligned a" "aligned (a + 4)" using b by (auto simp: aligned_def)
  have z0: "(of_nat z :: u32) \<noteq> 0" by (rule addr_not_null) (use b assms(3) in auto)
  have a0: "(of_nat a :: u32) \<noteq> 0" by (rule addr_not_null) (use b in auto)
  have "(of_nat 9 :: u32) \<le> of_nat z" using addr_le_iff [of 9 z] b assms(3) by simp
  then have ge: "0 + mem_blk_head_size False + MEM_BLK_MIN \<le> blk_link_size (of_nat a) m" using rd(4) by (simp add: mem_blk_head_size_def MEM_HEAD_SIZE_def MEM_BLK_MIN_def)
  have ne: "mem_blk_next (of_nat a) m \<noteq> of_nat a + 0" using rd(2) z0 by simp
  have wd4: "rd32 (wr32 (of_nat a) v m') (of_nat a + 4) = rd32 m' (of_nat a + 4)" for v m'
    using wd_update(1) [OF al, of v m'] by (simp add: wd_def)
  show ?thesis unfolding split_block_def Let_def if_P [OF ge] using ne a0
    by (simp add: mem_blk_set_prev_def mem_blk_set_next_def mem_blk_next_def wd4 rd32_wr32_same)
qed

lemma malloc_zero:
  assumes "region_ok m r [(room r, Free)]" "12 \<le> room r" "caps r AND c = c" "ptr2memblk_size n False = 0"
  shows "malloc_regions n c False fn ln (r # rs) m = None"
proof -
  note D = region_okD [OF assms(1)]
  obtain xs ys where x: "[(room r, Free)] = xs @ ys" "all_used xs" "free_blk r = of_nat (base r + total xs)" using assms(1) unfolding region_ok_def by blast
  then have "xs = []" by (cases xs) auto
  then have fb: "free_blk r = of_nat (base r)" using x(3) by simp
  have ff: "first_fit 0 m (of_nat (base r)) = Some (of_nat (base r))" using first_fit_chain [OF D(2,1), of 0] by simp
  have hd: "header m 0 (base r) (room r, Free)" using D(2) by (simp add: chain_Cons)
  note rd = block_reads [OF hd D(1)] and b = placed_blockD [OF D(1)]
  have nz: "(of_nat (base r) :: u32) \<noteq> 0" "(of_nat (base r + room r) :: u32) \<noteq> 0" by (rule addr_not_null; use b in simp)+
  have "take_block (of_nat (base r)) 0 False fn ln r m = None" using split_zero [OF D(2,1)] assms(2) by (simp add: take_block_def)
  moreover have "\<not> mem_blk_is_end (of_nat (base r)) m" using rd(2) nz(2) by (simp add: mem_blk_is_end_def)
  ultimately show ?thesis using assms(3,4) fb ff nz(1) by simp
qed

lemma malloc_crash:
  assumes "heap_runs lit4_end heap_start H Map.empty" "\<not> heap_trace_is_on H" "14 AND c = c" "ptr2memblk_size n False = 0"
  shows "heap_caps_malloc n c fn ln H = None"
proof (rule empty_heap [OF assms(1)])
  fix r s
  assume E: "g_heap_region H = [r, s]" "region_ok (mem H) r [(room r, Free)]" "region_ok (mem H) s [(room s, Free)]" "12 \<le> room r" "12 \<le> room s" "caps s = 14"
  have s: "malloc_regions n c False fn ln [s] (mem H) = None" by (rule malloc_zero [OF E(3,5) _ assms(4)]) (simp add: E(6) assms(3))
  have "malloc_regions n c False fn ln [r, s] (mem H) = None"
  proof (cases "caps r AND c = c")
    case True
    then show ?thesis by (rule malloc_zero [OF E(2,4) _ assms(4)])
  next
    case False
    then show ?thesis using s by simp
  qed
  then show ?thesis using assms(2) by (simp add: heap_caps_malloc_def E(1))
qed

section \<open>Properties\<close>

text \<open>
  C8: Every call of a client that keeps to the rules returns, never follows a null pointer, and does what the
  specification of the buffers says: a request yields a pointer not in use with the bytes asked for (all zero for
  \<open>calloc\<close> and \<open>zalloc\<close>, the old content for \<open>realloc\<close>) or a null pointer and no change, a release ends one
  buffer, and no call changes any other buffer.
\<close>

theorem heap_refines:
  assumes "heap_runs lit4_end heap_start H L" "allowed L op"
  shows "\<exists>p H'. heap_do op H = Some (p, H') \<and> heap_spec op p L (track op p (mem H') L)"
proof -
  obtain bss where "holds H L bss" using runs_holds [OF assms(1)] by blast
  from simulation [OF this assms(2)] show ?thesis unfolding simulates_def by blast
qed

lemma linked_example: "linked 0x40108000 0x3FFF0000"
  by (simp add: linked_def)

lemmas run_example = heap_runs.start [OF linked_example]

definition boot_heap :: heaps where
  "boot_heap = heap_caps_init 0x40108000 0x3FFF0000 \<lparr>mem = \<lambda>_. 0, g_heap_region = [], s_heap_trace_mode = HEAP_TRACE_NONE\<rparr>"

lemma boot_heap_runs: "heap_runs 0x40108000 0x3FFF0000 boot_heap Map.empty"
  unfolding boot_heap_def by (rule run_example)

theorem heap_refines_witness:
  "allowed Map.empty (Malloc 100 14 0 0) \<and>
   (\<exists>p H'. heap_do (Malloc 100 14 0 0) boot_heap = Some (p, H') \<and>
     heap_spec (Malloc 100 14 0 0) p Map.empty (track (Malloc 100 14 0 0) p (mem H') Map.empty))"
proof -
  have a: "allowed Map.empty (Malloc 100 14 0 0)" by simp
  show ?thesis using a heap_refines [OF boot_heap_runs a] by blast
qed

text \<open>
  C9: The buffers in use hold what their owners wrote, start at a multiple of four, lie inside one of the two regions
  of the memory and never overlap: between two of them there is always room for the header of a block.
\<close>

theorem heap_buffers_apart:
  assumes "heap_runs lit4_end heap_start H L" "L p = Some xs"
  shows "bytes (mem H) p (length xs) = xs \<and> 4 dvd unat p \<and>
    (unat lit4_end + 8 \<le> unat p \<and> unat p + length xs + 8 \<le> 0x4010C000 \<or> unat heap_start + 8 \<le> unat p \<and> unat p + length xs + 8 \<le> 0x40000000) \<and>
    (\<forall>p' ys. L p' = Some ys \<and> p' \<noteq> p \<longrightarrow> unat p + length xs + 8 \<le> unat p' \<or> unat p' + length ys + 8 \<le> unat p)"
proof -
  obtain bss where R: "linked lit4_end heap_start" "holds H L bss" "shape (g_heap_region H) = shape (initial lit4_end heap_start)" using runs_holds [OF assms(1)] by blast
  have ok: "regions_ok (mem H) (g_heap_region H) bss" "list_all2 (region_ok (mem H)) (g_heap_region H) bss" using R(2) by (simp_all add: holds_def regions_ok_def)
  obtain d where d: "(unat p, d) \<in> set (all_chunks (g_heap_region H) bss)" "length xs \<le> d" "bytes (mem H) p (length xs) = xs" by (rule holds_buffer [OF R(2) assms(2)])
  have "unat p + length xs + 8 \<le> unat p' \<or> unat p' + length ys + 8 \<le> unat p" if p': "L p' = Some ys" "p' \<noteq> p" for p' ys
  proof -
    obtain e where e: "(unat p', e) \<in> set (all_chunks (g_heap_region H) bss)" "length ys \<le> e" by (rule holds_buffer [OF R(2) p'(1)]) blast
    have "unat p' \<noteq> unat p" using p'(2) by (simp add: word_unat_eq_iff)
    then show ?thesis using separateD [OF regions_separate [OF ok(1)] d(1) e(1)] d(2) e(2) by auto
  qed
  then show ?thesis using d(2,3) chunk_aligned [OF ok(2) d(1)] chunk_in_initial [OF ok(1) R(3,1) d(1)] by auto
qed

lemma run_with_buffer:
  obtains H p xs where "heap_runs 0x40108000 0x3FFF0000 H [p \<mapsto> xs]" "length xs = 100"
proof -
  have r: "unat (100 :: u32) + 33 \<le> 0x40000000 - unat (0x3FFF0000 :: u32)" "14 AND 14 = (14 :: u32)" by simp_all
  obtain q and H' :: heaps where q: "heap_caps_malloc 100 14 0 0 boot_heap = Some (of_nat q, H')" "(of_nat q :: u32) \<noteq> 0"
    using empty_heap_serves [OF boot_heap_runs r] by metis
  have "heap_do (Malloc 100 14 0 0) boot_heap = Some (of_nat q, H')" "allowed Map.empty (Malloc 100 14 0 0)" using q(1) by simp_all
  then have "heap_runs 0x40108000 0x3FFF0000 H' (track (Malloc 100 14 0 0) (of_nat q) (mem H') Map.empty)" using heap_runs.call [OF boot_heap_runs] by blast
  then have "heap_runs 0x40108000 0x3FFF0000 H' [of_nat q \<mapsto> bytes (mem H') (of_nat q) 100]" using q(2) by simp
  then show thesis by (rule that) simp
qed

theorem heap_buffers_apart_witness:
  "\<exists>H p xs. heap_runs 0x40108000 0x3FFF0000 H [p \<mapsto> xs] \<and> length xs = 100 \<and> bytes (mem H) p 100 = xs \<and> 4 dvd unat p"
proof (rule run_with_buffer)
  fix H p xs assume h: "heap_runs 0x40108000 0x3FFF0000 H [p \<mapsto> xs]" "length xs = 100"
  have "[p \<mapsto> xs] p = Some xs" by simp
  from heap_buffers_apart [OF h(1) this] show ?thesis using h by auto
qed

text \<open>
  C10: Nothing leaks and nothing stays in pieces: when all buffers have been given back, after any sequence of calls,
  as much memory is free as at the start of the system, and any request that fits into the data memory is served.
\<close>

theorem heap_all_given_back:
  assumes "heap_runs lit4_end heap_start H Map.empty"
  shows "heap_caps_get_free_size c H = heap_caps_get_free_size c (heap_caps_init lit4_end heap_start H0) \<and>
    (\<forall>n d fn ln. unat n + 33 \<le> 0x40000000 - unat heap_start \<and> 14 AND d = d \<longrightarrow> (\<exists>p H'. heap_caps_malloc n d fn ln H = Some (p, H') \<and> p \<noteq> 0))"
proof (intro conjI allI impI)
  have l: "linked lit4_end heap_start" using runs_holds [OF assms] by blast
  have free: "region_ok m r [(room r, Free)] \<Longrightarrow> free_bytes r = of_nat (room r)" for m r by (simp add: region_ok_def)
  obtain r s where E: "g_heap_region H = [r, s]" "region_ok (mem H) r [(room r, Free)]" "region_ok (mem H) s [(room s, Free)]" "caps r = 2" "caps s = 14"
    "start_addr r = lit4_end" "start_addr s = heap_start" "total_size r = 0x4010C000 - lit4_end" "total_size s = 0x40000000 - heap_start"
    using empty_heap [OF assms] by metis
  define I where "I = heap_caps_init lit4_end heap_start H0"
  obtain r' s' where E': "g_heap_region I = [r', s']" "region_ok (mem I) r' [(room r', Free)]" "region_ok (mem I) s' [(room s', Free)]" "caps r' = 2" "caps s' = 14"
    "start_addr r' = lit4_end" "start_addr s' = heap_start" "total_size r' = 0x4010C000 - lit4_end" "total_size s' = 0x40000000 - heap_start"
    using empty_heap [OF heap_runs.start [OF l, of H0, folded I_def]] by metis
  have "room r = room r'" "room s = room s'" using E E' by (auto intro: room_shape)
  then have "free_bytes r = free_bytes r'" "free_bytes s = free_bytes s'" using free [OF E(2)] free [OF E(3)] free [OF E'(2)] free [OF E'(3)] by simp_all
  then show "heap_caps_get_free_size c H = heap_caps_get_free_size c (heap_caps_init lit4_end heap_start H0)"
    unfolding I_def [symmetric] using E E' by (simp add: heap_caps_get_free_size_def)
next
  fix n d fn ln :: u32 assume "unat n + 33 \<le> 0x40000000 - unat heap_start \<and> 14 AND d = d"
  then show "\<exists>p H'. heap_caps_malloc n d fn ln H = Some (p, H') \<and> p \<noteq> 0" using empty_heap_serves [OF assms] by metis
qed

theorem heap_all_given_back_witness:
  "\<exists>p H'. heap_caps_malloc 65000 14 0 0 boot_heap = Some (p, H') \<and> p \<noteq> 0"
proof -
  have "unat (65000 :: u32) + 33 \<le> 0x40000000 - unat (0x3FFF0000 :: u32) \<and> 14 AND 14 = (14 :: u32)" by simp
  then show ?thesis using heap_all_given_back [OF boot_heap_runs] by blast
qed

text \<open>
  C40: A size that wraps around is not noticed. With tracing off and nothing in use, a request for almost the whole
  address space is either granted with a buffer that is far too small, or makes the allocator write through a null
  pointer; a product that wraps around in \<open>calloc\<close> is granted in the same way.
\<close>

theorem heap_request_wraps:
  assumes "heap_runs lit4_end heap_start H Map.empty" "\<not> heap_trace_is_on H" "14 AND c = c" "33 \<le> 0x40000000 - unat heap_start"
  shows "(\<forall>n. 0xFFFFFFF5 \<le> n \<and> n \<le> 0xFFFFFFF8 \<longrightarrow> heap_caps_malloc n c fn ln H = None) \<and>
    (\<forall>n. 0xFFFFFFFD \<le> n \<longrightarrow> (\<exists>p H'. heap_caps_malloc n c fn ln H = Some (p, H') \<and> p \<noteq> 0 \<and> unat (ptr_size p (mem H')) < 2 ^ 31)) \<and>
    (\<exists>p H'. heap_caps_calloc 0x10000 0x10000 c fn ln H = Some (p, H') \<and> p \<noteq> 0)"
proof (intro conjI allI impI)
  fix n assume "0xFFFFFFF5 \<le> n \<and> n \<le> (0xFFFFFFF8 :: u32)"
  then show "heap_caps_malloc n c fn ln H = None" using malloc_crash [OF assms(1-3)] wrapped_size(2) by blast
next
  have "unat (0 :: u32) + 33 \<le> 0x40000000 - unat heap_start" using assms(4) by simp
  from empty_heap_serves [OF assms(1) this assms(3)]
  obtain q d H' bss' where q: "heap_caps_malloc 0 c fn ln H = Some (of_nat q, H')" "(of_nat q :: u32) \<noteq> 0" "(q, d) \<in> set (all_chunks (g_heap_region H') bss')"
    "holds H' [of_nat q \<mapsto> bytes (mem H') (of_nat q) (unat (0 :: u32))] bss'" by metis
  have "0x10000 * 0x10000 = (0 :: u32)" by simp
  then have "heap_caps_calloc 0x10000 0x10000 c fn ln H = heap_caps_zalloc 0 c fn ln H" by (simp only: calloc_zalloc)
  then show "\<exists>p H'. heap_caps_calloc 0x10000 0x10000 c fn ln H = Some (p, H') \<and> p \<noteq> 0" using q by (simp add: heap_caps_zalloc_def)
  fix n :: u32 assume n: "0xFFFFFFFD \<le> n"
  have "heap_caps_malloc n c fn ln H = heap_caps_malloc 0 c fn ln H"
    using malloc_regions_size [OF wrapped_size(1) [OF n]] assms(2) by (simp add: heap_caps_malloc_def)
  moreover have "ptr_size (of_nat q) (mem H') = of_nat d" using chunk_size [OF _ q(3)] q(4) by (simp add: holds_def)
  then have "unat (ptr_size (of_nat q) (mem H')) < 2 ^ 31" using holds_chunk(2) [OF q(4,3)] unat_addr [of d] by simp
  ultimately show "\<exists>p H'. heap_caps_malloc n c fn ln H = Some (p, H') \<and> p \<noteq> 0 \<and> unat (ptr_size p (mem H')) < 2 ^ 31" using q(1,2) by metis
qed

lemma boot_trace_off: "\<not> heap_trace_is_on boot_heap"
  by (simp add: boot_heap_def heap_caps_init_def esp_heap_caps_init_region_def heap_trace_is_on_def split: prod.splits)

theorem heap_request_wraps_witness:
  "heap_caps_malloc 0xFFFFFFF8 14 0 0 boot_heap = None \<and> (\<exists>p H'. heap_caps_calloc 0x10000 0x10000 14 0 0 boot_heap = Some (p, H') \<and> p \<noteq> 0)"
proof -
  have "14 AND 14 = (14 :: u32)" "33 \<le> 0x40000000 - unat (0x3FFF0000 :: u32)" by simp_all
  from heap_request_wraps [OF boot_heap_runs boot_trace_off this, of 0 0] show ?thesis by simp
qed

end
