(* ===== verification/Spec2Isabelle.thy ===== *)
theory Spec2Isabelle
  imports Csro_Network Csro_Motor Csro_Airsys Mqtt_Client_Theorems Rtos_Wakeup Heap_Client
begin

text \<open>
  Firmware of the CSRO smart-home devices for the ESP8266 (\<open>src/app\<close>), a light switch with three
  channels and, by other build options, a motor controller and an air conditioning gateway,
  together with the library code it relies on.

  \<^bold>\<open>The program.\<close> \<open>csro_init\<close> reads the identity, the Wi-Fi credentials and the interval from flash
  and starts either provisioning (\<open>csro_sc.c\<close>) or the main task. The main task (\<open>csro_mqtt.c\<close>)
  keeps the broker connection, publishes reports when a semaphore asks for one and hands the
  messages it receives to the device (\<open>csro_device.c\<close>). A second task (\<open>csro_udp.c\<close>) receives
  broadcasts, which carry the time and the broker. A timer drives the clock and the alarms
  (\<open>csro_datetime.c\<close>), another one polls the keys and the LED driver. The tasks share the global
  structures of \<open>csro_common.h\<close>; in the model these are the record \<open>app\<close>, and what runs is an
  interleaving of whole rounds and callbacks.

  \<^bold>\<open>The theories\<close>, each with the source it models.
  \<^item> \<open>Prelude\<close>: types of the machine integers, results of fallible code (\<open>outcome\<close>: finished,
    restarted, array overrun), C strings, decimal text, words and bytes.
  \<^item> \<open>Modbus_Crc\<close> (\<open>modbus.c\<close>): the tables and the table-driven CRC, equal to the bitwise CRC.
  \<^item> \<open>Modbus_Master\<close> (\<open>modbus_master.c\<close>, \<open>_coils.c\<close>, \<open>_holdings.c\<close>): buffers, exchange over the serial
    line, validation, six requests; the locale \<open>modbus_link\<close> is the contract between the
    requests and the exchange, interpreted by \<open>master_send_receive\<close>. \<open>Modbus_Theorems\<close>: the frames sent,
    the values returned, rejection of corrupted frames, bounds.
  \<^item> \<open>Nvs\<close> (\<open>nvs_api.cpp\<close>): namespaces of typed values; the locale \<open>kv_store\<close> gives the laws the
    clients use.
  \<^item> \<open>Alarm\<close>, \<open>Calendar\<close>, \<open>Datetime\<close> (\<open>csro_datetime.c\<close>): the alarm table and its flash image against a
    specification on lists, the C library's calendar, the clock and the minute alarms.
  \<^item> \<open>Double\<close>, \<open>Json\<close>, \<open>Json_Print\<close>, \<open>Json_Theorems\<close> (\<open>cJSON.c\<close>): parser, printer and object access of the
    JSON library; printed items parse back; parsing needs fuel proportional to the text.
  \<^item> \<open>Sha1\<close> (\<open>ssl_sha1.c\<close>): the digest the broker password is made from, equal to FIPS 180.
  \<^item> \<open>Board\<close> (\<open>aw9523b.c\<close>, \<open>modbus_master.c\<close>, \<open>csro_nlight.c\<close>): LED driver, key timer, UART task.
  \<^item> \<open>App_State\<close>, \<open>Csro_System\<close>, \<open>Csro_Device\<close>, \<open>Csro_Mqtt\<close> (\<open>app/components/common\<close>, \<open>device\<close>): the global
    state, system information, the light switch and the message handlers, the tasks.
  \<^item> \<open>Csro_Invariant\<close>: the step relation of the whole device and its invariant.
  \<^item> \<open>Csro_Reports\<close>, \<open>Csro_Theorems\<close>, \<open>Csro_Network\<close>: reports read back from their text, commands,
    reconnection, provisioning, broadcasts.
  \<^item> \<open>Mqtt_Packet\<close>, \<open>Mqtt_Messages\<close>, \<open>Mqtt_Roundtrip\<close> (\<open>paho/MQTTPacket/src\<close>): the packets of the protocol, with
    every pointer a position in a buffer (\<open>None\<close> is an access outside); what one side serialises the
    other side reads back, and which malformed packets are accepted.
  \<^item> \<open>Mqtt_Net\<close> (\<open>MQTTFreeRTOS.c\<close>): timers and the TCP port over a model of the socket calls; the locale
    \<open>mqtt_transport\<close> is the contract of the port, interpreted by \<open>NetworkInit\<close>.
  \<^item> \<open>Mqtt_Client\<close>, \<open>Mqtt_Client_Theorems\<close> (\<open>MQTTClient.c\<close>): the client over any transport; delivery,
    acknowledgement, topic matching, bounds of the receive buffer, end of the send loop.
  \<^item> \<open>Rtos_List\<close> (\<open>freertos/list.c\<close>): the linked lists of the kernel as a heap of pointers; the locale
    \<open>kernel_list\<close> states that they represent finite sequences, which the kernel's model uses.
  \<^item> \<open>Rtos_Tasks\<close> (\<open>tasks.c\<close>, \<open>port.c\<close>): the scheduler, every call and interrupt one step on the record \<open>kernel\<close>.
    \<open>Rtos_Sched\<close>, \<open>Rtos_Invariant\<close>: the invariant of its lists and that every call keeps it.
    \<open>Rtos_Theorems\<close>: reachable states, delays, timeouts, round robin.
  \<^item> \<open>Rtos_Queue\<close> (\<open>queue.c\<close>): queues, semaphores, mutexes; a call that may block is a function of one round.
    \<open>Rtos_Fifo\<close>: the ring buffer holds a sequence; the locale \<open>bounded_fifo\<close> is the contract of a queue,
    interpreted for the calls of tasks and for those of interrupts. \<open>Rtos_Sync\<close>: the order of messages for
    any interleaving with the scheduler. \<open>Rtos_Wakeup\<close>: waking of waiting tasks, priority inheritance.
  \<^item> \<open>Heap_Caps\<close> (\<open>components/heap\<close>): the allocator on the bytes of the memory. \<open>Heap_Chain\<close>, \<open>Heap_Regions\<close>: its
    linked blocks represent a list of sizes, which cutting and merging change. \<open>Heap_Theorems\<close>: allocation
    and release over all regions. \<open>Heap_Runs\<close>, \<open>Heap_Client\<close>: the buffers as clients see them, the
    specification \<open>heap_spec\<close> and that every call refines it.
  \<^item> \<open>Csro_Motor\<close>, \<open>Csro_Airsys\<close> (\<open>csro_motor.c\<close>, \<open>csro_airsys.c\<close>): the two other devices.
  \<^item> This theory: a command received is answered by a report that shows its effect.

  \<^bold>\<open>Conventions.\<close> Arrays are lists of the declared length; a write past the end is the outcome
  \<open>Overflow\<close>. Uninitialised arrays and what the network, the slave or the closed Wi-Fi driver
  answers are arguments. Endless task loops are functions of one round. The parser of JSON has a
  fuel argument; \<open>cJSON_Parse\<close> supplies the nesting limit and the length of the text, which is
  enough for every text (\<open>parse_fuel_enough\<close>). The two searches of the allocator are partial functions,
  and \<open>heap_refines\<close> shows that they return. All other recursion is total.

  \<^bold>\<open>Not modelled.\<close> Preemption inside a round of the application (the scheduler is modelled
  on its own, its critical sections as steps), queue sets, co-routines, software timers, event groups
  and stream buffers of FreeRTOS, the TCP/IP stack, the Wi-Fi driver, TLS, peripheral registers, allocation failure in the application's own calls, the page
  format of the flash storage, and the components of the SDK the application does not use.
\<close>

section \<open>From a command to the published report\<close>

text \<open>An environment in which the connection works and no message arrives.\<close>

definition quiet :: "env \<Rightarrow> bool" where
  "quiet e \<longleftrightarrow> e_addr e \<noteq> 0 \<and> (\<forall>m. e_publish e m \<and> e_wait_publish e m = []) \<and> e_messages e = [] \<and> e_yield e"

text \<open>The topic of a report, within its 100 characters.\<close>

definition state_topic :: "app \<Rightarrow> string" where
  "state_topic s = topic4 (prefix s) (mac_str s) (dev_type s) ''state''"

definition times_ok :: "app \<Rightarrow> bool" where
  "times_ok s \<longleftrightarrow> uint (time_now s) < 2 ^ 31 \<and> (\<forall>ch \<in> set (channel s). uint (on_tim ch) < 2 ^ 31)"

lemma wifi_status_up:
  "addr \<noteq> 0 \<Longrightarrow> \<exists>s'. csro_system_get_wifi_status addr s = (True, s') \<and> channel s' = channel s \<and> isconnected s' = isconnected s \<and>
     status_sem s' = status_sem s \<and> system_sem s' = system_sem s \<and> alarm_sem s' = alarm_sem s \<and> published s' = published s \<and>
     prefix s' = prefix s \<and> mac_str s' = mac_str s \<and> dev_type s' = dev_type s"
  by (auto simp: csro_system_get_wifi_status_def csro_system_set_status_def Let_def)

lemma set_status_select [simp]:
  "channel (csro_system_set_status st s) = channel s" "isconnected (csro_system_set_status st s) = isconnected s"
  "status_sem (csro_system_set_status st s) = status_sem s" "system_sem (csro_system_set_status st s) = system_sem s"
  "alarm_sem (csro_system_set_status st s) = alarm_sem s" "published (csro_system_set_status st s) = published s"
  "prefix (csro_system_set_status st s) = prefix s" "mac_str (csro_system_set_status st s) = mac_str s"
  "dev_type (csro_system_set_status st s) = dev_type s"
  by (simp_all add: csro_system_set_status_def)

lemma publish_state:
  assumes "quiet e" "isconnected s" "switches_ok (channel s)" "\<forall>ch \<in> set (channel s). uint (on_tim ch) < 2 ^ 31"
    and "length (state_topic s) < 100"
  shows "\<exists>out v m. publish_if e True csro_device_prepare_status_message ''state'' s =
      Done (s\<lparr>content := out, pub_topic := state_topic s, published := published s @ [m]\<rparr>) \<and>
    m = \<lparr>p_topic = state_topic s, p_payload = out, p_qos = QOS1, p_retained = False\<rparr> \<and>
    cJSON_Parse out = Some v \<and> (\<forall>i < NLIGHT. reports_switch v i (channel s ! i))"
proof -
  obtain out v where out: "csro_device_prepare_status_message s = Done (s\<lparr>content := out\<rparr>)" "cJSON_Parse out = Some v"
    "\<forall>i < NLIGHT. reports_switch v i (channel s ! i)"
    using status_report_stored [OF assms(3,4)] by blast
  then show ?thesis
    using assms(1,2,5)
    by (intro exI [of _ out] exI [of _ v])
      (simp add: publish_if_def mqtt_pub_messgae_def Let_def quiet_def state_topic_def deliver_all_def
        drop_result_def)
qed

text \<open>A round of the main task in which only a switch report is due.\<close>

lemma round_publishes_state:
  assumes "quiet e" "isconnected s" "switches_ok (channel s)" "\<forall>ch \<in> set (channel s). uint (on_tim ch) < 2 ^ 31"
    and "length (state_topic s) < 100" "status_sem s" "\<not> system_sem s" "\<not> alarm_sem s"
  shows "\<exists>s' v m. csro_mqtt_task_round e s = Done s' \<and> published s' = published s @ [m] \<and> p_topic m = state_topic s \<and>
    cJSON_Parse (p_payload m) = Some v \<and> (\<forall>i < NLIGHT. reports_switch v i (channel s ! i)) \<and> \<not> status_sem s' \<and> isconnected s'"
proof -
  obtain s1 where s1: "csro_system_get_wifi_status (e_addr e) s = (True, s1)" "channel s1 = channel s" "isconnected s1 = isconnected s"
    "status_sem s1 = status_sem s" "system_sem s1 = system_sem s" "alarm_sem s1 = alarm_sem s" "published s1 = published s"
    "prefix s1 = prefix s" "mac_str s1 = mac_str s" "dev_type s1 = dev_type s"
    using wifi_status_up [of "e_addr e" s] assms(1) by (auto simp: quiet_def)
  let ?s2 = "(csro_system_set_status NORMAL_START_OK s1)\<lparr>status_sem := False\<rparr>"
  have topic: "state_topic ?s2 = state_topic s" by (simp add: state_topic_def s1)
  have pre: "isconnected ?s2" "switches_ok (channel ?s2)" "\<forall>ch \<in> set (channel ?s2). uint (on_tim ch) < 2 ^ 31"
    "length (state_topic ?s2) < 100"
    unfolding topic using assms by (simp_all add: s1)
  obtain out v m where pub: "publish_if e True csro_device_prepare_status_message ''state'' ?s2 =
      Done (?s2\<lparr>content := out, pub_topic := state_topic ?s2, published := published ?s2 @ [m]\<rparr>)"
    "m = \<lparr>p_topic = state_topic ?s2, p_payload = out, p_qos = QOS1, p_retained = False\<rparr>"
    "cJSON_Parse out = Some v" "\<forall>i < NLIGHT. reports_switch v i (channel ?s2 ! i)"
    using publish_state [OF assms(1) pre] by blast
  have "broker_is_connected e s1 = Done (True, s1)" using assms(2) s1(3) by (simp add: broker_is_connected_def)
  moreover have "mqtt_connected_round e s1 =
      Done (?s2\<lparr>content := out, pub_topic := state_topic ?s2, published := published ?s2 @ [m],
        system_sem := False, alarm_sem := False\<rparr>)"
    using pub(1) assms(1,6-8) s1(4-6)
    by (simp add: mqtt_connected_round_def publish_if_def [of _ False] mqtt_yield_def deliver_all_def quiet_def)
  ultimately show ?thesis
    using s1 pub(2-4) topic assms(2) by (auto simp: csro_mqtt_task_round_def)
qed

section \<open>The composed property\<close>

text \<open>A message that sets switches and nothing else.\<close>

definition only_switches :: "cJSON \<Rightarrow> bool" where
  "only_switches v \<longleftrightarrow>
     \<not> wants_restart v \<and>
     (\<forall>k \<in> {''interval'', ''sysinfo'', ''alarminfo''}. lookup_number v k = None) \<and>
     (\<forall>k \<in> {''alarm_add'', ''alarm_modify'', ''alarm_delete'', ''alarm_clear''}. lookup_object v k = None)"

lemma only_switches_done:
  assumes "carries data v" "only_switches v"
  shows "csro_device_handle_self_message data s = Done (csro_nlight_handle_self_message data s)"
proof -
  let ?m = "c_string (payload_mem data)"
  have "self_settings ?m s = s"
    using assms by (simp add: self_settings_def on_number_def carries_number only_switches_def)
  moreover have "self_alarms ?m s = s"
    using assms by (simp add: self_alarms_def Let_def handle_alarm_add_def handle_alarm_modify_def handle_alarm_delete_def
        handle_alarm_clear_def carries_object only_switches_def)
  ultimately show ?thesis
    using self_message_done [OF assms(1), of s] assms(2) by (simp add: only_switches_def)
qed

text \<open>The handler of the switches changes the switches and the trigger only, and stamps the present time.\<close>

definition switch_change :: "app \<Rightarrow> app \<Rightarrow> bool" where
  "switch_change s s' \<longleftrightarrow>
     (\<exists>chs b. s' = s\<lparr>channel := chs, status_sem := b\<rparr> \<and> (times_ok s \<longrightarrow> (\<forall>ch \<in> set chs. uint (on_tim ch) < 2 ^ 31)))"

lemma switch_changeI:
  "s' = s\<lparr>channel := chs, status_sem := b\<rparr> \<Longrightarrow> (times_ok s \<Longrightarrow> \<forall>ch \<in> set chs. uint (on_tim ch) < 2 ^ 31) \<Longrightarrow> switch_change s s'"
  unfolding switch_change_def by blast

lemma switch_changeE:
  assumes "switch_change s s'"
  obtains chs b where "s' = s\<lparr>channel := chs, status_sem := b\<rparr>" "times_ok s \<longrightarrow> (\<forall>ch \<in> set chs. uint (on_tim ch) < 2 ^ 31)"
  using assms unfolding switch_change_def by blast

lemma switch_change_refl: "switch_change s s"
  by (rule switch_changeI [where chs = "channel s" and b = "status_sem s"]) (simp_all add: times_ok_def)

lemma switch_change_trans:
  assumes "switch_change s t" "switch_change t u"
  shows "switch_change s u"
proof -
  obtain chs b where t: "t = s\<lparr>channel := chs, status_sem := b\<rparr>" "times_ok s \<longrightarrow> (\<forall>ch \<in> set chs. uint (on_tim ch) < 2 ^ 31)"
    by (rule switch_changeE [OF assms(1)], rule that)
  obtain chs' b' where u: "u = t\<lparr>channel := chs', status_sem := b'\<rparr>" "times_ok t \<longrightarrow> (\<forall>ch \<in> set chs'. uint (on_tim ch) < 2 ^ 31)"
    by (rule switch_changeE [OF assms(2)], rule that)
  show ?thesis
    by (rule switch_changeI [where chs = chs' and b = b']) (use t u in \<open>simp_all add: times_ok_def\<close>)
qed

lemma switch_change_trigger: "switch_change s t \<Longrightarrow> switch_change s (csro_mqtt_msg_trigger_status t)"
  by (elim switch_changeE, rule switch_changeI) (simp_all add: csro_mqtt_msg_trigger_status_def)

lemma switch_change_set:
  assumes "i < length (channel s)"
  shows "switch_change s (nlight_channel_set i v src s)"
proof -
  define w where "w = (if v = 2 then (if sw_state (channel s ! i) = 0 then 1 else 0) else v)"
  define c where "c = (if w = 1 then (channel s ! i)\<lparr>sw_state := w, on_source := src, on_tim := time_now s\<rparr>
    else (channel s ! i)\<lparr>sw_state := w, off_source := src, off_tim := time_now s\<rparr>)"
  have "on_tim c = time_now s \<or> on_tim c = on_tim (channel s ! i)" by (simp add: c_def)
  then have change: "switch_change s (s\<lparr>channel := (channel s)[i := c], status_sem := True\<rparr>)"
    by (intro switch_changeI [OF refl])
      (use assms set_update_subset_insert [of "channel s" i c] in \<open>auto simp: times_ok_def\<close>)
  have "nlight_channel_set i v src s =
      (if unat (sw_index (channel s ! i)) + 1 > NLIGHT \<or> v > 2 then s else s\<lparr>channel := (channel s)[i := c], status_sem := True\<rparr>)"
    by (simp add: nlight_channel_set_def Let_def csro_mqtt_msg_trigger_status_def c_def w_def)
  then show ?thesis using change switch_change_refl by simp
qed

lemma switch_change_self:
  assumes "switches_ok (channel s)"
  shows "switch_change s (csro_nlight_handle_self_message data s)"
proof -
  have step: "switch_change s (snd (self_channel msg key i r)) \<and> switches_ok (channel (snd (self_channel msg key i r)))"
    if "switch_change s (snd r)" "switches_ok (channel (snd r))" "i < NLIGHT" for r msg key i
    using that switch_change_trans [OF that(1) switch_change_set, of i] switches_ok_set [OF that(2,3)]
    by (auto simp: self_channel_def switches_ok_def split: option.split)
  let ?m = "c_string (payload_mem data)"
  let ?r1 = "self_channel ?m ''channel1'' 0 (False, s)"
  let ?r2 = "self_channel ?m ''channel2'' 1 ?r1"
  let ?r3 = "self_channel ?m ''channel3'' 2 ?r2"
  have 1: "switch_change s (snd ?r1) \<and> switches_ok (channel (snd ?r1))"
    by (rule step) (simp_all add: switch_change_refl assms)
  have 2: "switch_change s (snd ?r2) \<and> switches_ok (channel (snd ?r2))" using 1 by (intro step) simp_all
  have 3: "switch_change s (snd ?r3) \<and> switches_ok (channel (snd ?r3))" using 2 by (intro step) simp_all
  have "csro_nlight_handle_self_message data s = (if fst ?r3 then csro_mqtt_msg_trigger_status (snd ?r3) else snd ?r3)"
    by (simp add: csro_nlight_handle_self_message_def Let_def case_prod_beta)
  then show ?thesis using 3 switch_change_trigger by simp
qed

text \<open>
  C2: a message on the device's own topic that sets at least one switch leads, in the next round
  of the main task of a connected device, to one published report on the state topic, whose
  text a subscriber parses to find every switch in the state the message asked for.
\<close>

theorem command_is_published:
  assumes "app_ok s" "times_ok s" "carries data v" "only_switches v" "i0 < NLIGHT"
    and "lookup_number v (''channel'' @ show_nat (i0 + 1)) \<noteq> None"
    and "isconnected s" "\<not> system_sem s" "\<not> alarm_sem s" "length (state_topic s) < 100" "quiet e"
  shows "\<exists>s1 s' m w. csro_device_handle_self_message data s = Done s1 \<and> csro_mqtt_task_round e s1 = Done s' \<and>
    published s' = published s @ [m] \<and> p_topic m = state_topic s \<and> cJSON_Parse (p_payload m) = Some w \<and>
    (\<forall>i < NLIGHT. \<exists>c. cJSON_GetObjectItem w (''channel'' @ show_nat (i + 1)) = Some c \<and>
       string_item (cJSON_GetObjectItem c ''state'') =
         Some (if switch_after (lookup_number v (''channel'' @ show_nat (i + 1))) (sw_state (channel s ! i)) = 1
               then ''on'' else ''off''))"
proof -
  let ?s1 = "csro_nlight_handle_self_message data s"
  have sw: "switches_ok (channel s)" using assms(1) by (simp add: app_ok_def)
  obtain chs b where s1: "?s1 = s\<lparr>channel := chs, status_sem := b\<rparr>" "\<forall>ch \<in> set chs. uint (on_tim ch) < 2 ^ 31"
    by (rule switch_changeE [OF switch_change_self [OF sw, of data]], rule that) (use assms(2) in simp_all)
  have "app_ok ?s1" using assms(1) by (rule app_ok_nlight_self)
  then have pre: "switches_ok (channel ?s1)" "\<forall>ch \<in> set (channel ?s1). uint (on_tim ch) < 2 ^ 31" "isconnected ?s1"
    "\<not> system_sem ?s1" "\<not> alarm_sem ?s1" "length (state_topic ?s1) < 100" "status_sem ?s1"
    using s1 assms(7-10) nlight_self_states(2) [OF assms(3) sw assms(5,6)] by (simp_all add: app_ok_def state_topic_def)
  obtain s' w m where r: "csro_mqtt_task_round e ?s1 = Done s'" "published s' = published ?s1 @ [m]"
    "p_topic m = state_topic ?s1" "cJSON_Parse (p_payload m) = Some w" "\<forall>i < NLIGHT. reports_switch w i (channel ?s1 ! i)"
    using round_publishes_state [OF assms(11) pre(3,1,2,6,7,4,5)] by blast
  have "published ?s1 = published s" "state_topic ?s1 = state_topic s" by (simp_all add: s1 state_topic_def)
  moreover have "\<exists>c. cJSON_GetObjectItem w (''channel'' @ show_nat (i + 1)) = Some c \<and>
       string_item (cJSON_GetObjectItem c ''state'') =
         Some (if switch_after (lookup_number v (''channel'' @ show_nat (i + 1))) (sw_state (channel s ! i)) = 1
               then ''on'' else ''off'')" if "i < NLIGHT" for i
    using r(5) that nlight_self_states(1) [OF assms(3) sw that] unfolding reports_switch_def by metis
  ultimately show ?thesis using only_switches_done [OF assms(3,4), of s] r by auto
qed

text \<open>The device of the witnesses after it was connected, and a working connection.\<close>

definition online_device :: app where
  "online_device = new_device\<lparr>isconnected := True, prefix := ''b827eb010203''\<rparr>"

definition online :: env where
  "online = \<lparr>e_addr = 1, e_connect = True, e_mqtt_connect = True, e_subscribe_self = True, e_subscribe_hass = True,
     e_subscribe_group = True, e_publish = (\<lambda>_. True), e_wait_self = [], e_wait_hass = [], e_wait_group = [],
     e_wait_publish = (\<lambda>_. []), e_messages = [], e_yield = True, e_heap = 20000\<rparr>"

lemma online_device_facts:
  "app_ok online_device" "times_ok online_device" "\<not> system_sem online_device" "\<not> alarm_sem online_device"
  "length (state_topic online_device) < 100" "isconnected online_device"
proof -
  note defs = online_device_def new_device_def booted_def csro_device_init_def csro_nlight_init_def csro_system_get_info_def
    csro_datetime_init_def load_alarm_from_nvs_def nvs_open_def power_on_def Let_def system_print_device_type_def
  show "app_ok online_device" using new_device_ok by (simp add: online_device_def app_ok_defs)
  show "times_ok online_device" by (simp add: defs times_ok_def NLIGHT_def numeral_3_eq_3)
  show "\<not> system_sem online_device" "\<not> alarm_sem online_device" by (simp_all add: defs)
  show "isconnected online_device" by (simp add: online_device_def)
  show "length (state_topic online_device) < 100"
    by (simp add: defs state_topic_def topic4_def hex_byte_def NLIGHT_def)
qed

theorem command_is_published_witness:
  "\<exists>s1 s' m w. csro_device_handle_self_message (text_message (render False 0 (obj None [num ''channel2'' 1]))) online_device = Done s1 \<and>
    csro_mqtt_task_round online s1 = Done s' \<and> published s' = published online_device @ [m] \<and>
    p_topic m = state_topic online_device \<and> cJSON_Parse (p_payload m) = Some w \<and>
    (\<exists>c. cJSON_GetObjectItem w ''channel2'' = Some c \<and> string_item (cJSON_GetObjectItem c ''state'') = Some ''on'')"
proof -
  let ?v = "obj None [num ''channel2'' 1]"
  have carried: "carries (text_message (render False 0 ?v)) ?v"
    by (rule carries_text)
      (simp_all add: int_ok_def INT_MIN_def INT_MAX_def CJSON_NESTING_LIMIT_def obj_def num_def quote_opt_def quote_plain
        show_int_def trunc_of_int [of 1, simplified])
  have two: "''channel'' @ show_nat (1 + 1) = ''channel2''" by simp
  have look: "lookup_number ?v ''channel2'' = Some 1" "only_switches ?v"
    by (simp_all add: lookup_obj case_insensitive_strcmp_def tolower_def only_switches_def wants_restart_def lookup_object_def
        cJSON_GetObjectItem_def)
  have "quiet online" by (simp add: quiet_def online_def)
  then obtain s1 s' m w where r: "csro_device_handle_self_message (text_message (render False 0 ?v)) online_device = Done s1"
    "csro_mqtt_task_round online s1 = Done s'" "published s' = published online_device @ [m]"
    "p_topic m = state_topic online_device" "cJSON_Parse (p_payload m) = Some w"
    "\<And>i. i < NLIGHT \<Longrightarrow> \<exists>c. cJSON_GetObjectItem w (''channel'' @ show_nat (i + 1)) = Some c \<and>
       string_item (cJSON_GetObjectItem c ''state'') =
         Some (if switch_after (lookup_number ?v (''channel'' @ show_nat (i + 1))) (sw_state (channel online_device ! i)) = 1
               then ''on'' else ''off'')"
    using command_is_published [OF online_device_facts(1,2) carried look(2), of 1 online, unfolded two] look(1)
      online_device_facts(3-6) by auto
  have "\<exists>c. cJSON_GetObjectItem w ''channel2'' = Some c \<and> string_item (cJSON_GetObjectItem c ''state'') = Some ''on''"
    using r(6) [of 1, unfolded two look(1)] by (simp add: switch_after_def)
  then show ?thesis using r by blast
qed

end
